(* ===== verification/Prelude.thy ===== *)
theory Prelude
  imports Main "HOL-Library.Word"
begin

text \<open>
  Shared vocabulary of the MeterLogger development: the machine integer types of the
  firmware, byte buffers with offset writes (the model of \<open>memcpy\<close> into an array),
  NUL-free C strings with the comparison and copy functions the firmware takes from
  \<open>string.h\<close>, and the generic list and word lemmas that the component theories use.
  Pointers into an array are offsets (\<open>nat\<close>) from its start; a NULL pointer is
  \<open>None\<close>.
\<close>

unbundle bit_operations_syntax

section \<open>Types\<close>

type_synonym u8 = "8 word"
type_synonym u16 = "16 word"
type_synonym u32 = "32 word"
type_synonym u64 = "64 word"
type_synonym bytes = "u8 list"

named_theorems buf_simps \<open>reads and writes of byte buffers\<close>
named_theorems inv_intros \<open>preservation of component invariants\<close>

section \<open>Byte buffers\<close>

definition put_bytes :: "'a list \<Rightarrow> nat \<Rightarrow> 'a list \<Rightarrow> 'a list" where
  "put_bytes buf off xs = take off buf @ xs @ drop (off + length xs) buf"

definition sub_bytes :: "'a list \<Rightarrow> nat \<Rightarrow> nat \<Rightarrow> 'a list" where
  "sub_bytes buf off n = take n (drop off buf)"

lemma length_put_bytes [simp, buf_simps]:
  "off + length xs \<le> length buf \<Longrightarrow> length (put_bytes buf off xs) = length buf"
  by (simp add: put_bytes_def)

lemma put_bytes_Nil [simp, buf_simps]: "put_bytes buf off [] = buf"
  by (simp add: put_bytes_def)

lemma sub_bytes_0 [simp, buf_simps]: "sub_bytes buf off 0 = []"
  by (simp add: sub_bytes_def)

lemma length_sub_bytes [simp, buf_simps]:
  "off + n \<le> length buf \<Longrightarrow> length (sub_bytes buf off n) = n"
  by (simp add: sub_bytes_def)

lemma nth_sub_bytes [buf_simps]:
  "off + n \<le> length buf \<Longrightarrow> i < n \<Longrightarrow> sub_bytes buf off n ! i = buf ! (off + i)"
  by (simp add: sub_bytes_def)

lemma take_put_bytes [buf_simps]:
  "off + length xs \<le> length buf \<Longrightarrow>
   take (off + length xs) (put_bytes buf off xs) = take off buf @ xs"
  by (simp add: put_bytes_def)

lemma take_put_bytes_le [buf_simps]:
  "n \<le> off \<Longrightarrow> off \<le> length buf \<Longrightarrow> take n (put_bytes buf off xs) = take n buf"
  by (simp add: put_bytes_def min_def)

lemma take_Suc_list_update [buf_simps]:
  "n < length buf \<Longrightarrow> take (Suc n) (buf[n := b]) = take n buf @ [b]"
  by (simp add: take_Suc_conv_app_nth)

lemma take_list_update_ge [buf_simps]:
  "n \<le> i \<Longrightarrow> take n (buf[i := b]) = take n buf"
  by simp

lemma nth_put_bytes_outside [buf_simps]:
  "off + length xs \<le> length buf \<Longrightarrow> i < off \<or> off + length xs \<le> i \<Longrightarrow> i < length buf \<Longrightarrow>
   put_bytes buf off xs ! i = buf ! i"
  by (auto simp: put_bytes_def nth_append)

lemma nth_put_bytes_inside [buf_simps]:
  "off + length xs \<le> length buf \<Longrightarrow> off \<le> i \<Longrightarrow> i < off + length xs \<Longrightarrow>
   put_bytes buf off xs ! i = xs ! (i - off)"
  by (auto simp: put_bytes_def nth_append)

lemma sub_bytes_put_bytes_same [buf_simps]:
  "off + length xs \<le> length buf \<Longrightarrow> sub_bytes (put_bytes buf off xs) off (length xs) = xs"
  by (simp add: sub_bytes_def put_bytes_def)

lemma sub_bytes_Suc [buf_simps]:
  "off < length buf \<Longrightarrow> sub_bytes buf off (Suc n) = buf ! off # sub_bytes buf (Suc off) n"
  by (simp add: sub_bytes_def flip: Cons_nth_drop_Suc)

lemma sub_bytes_list_update [buf_simps]:
  "i < off \<or> off + n \<le> i \<Longrightarrow> sub_bytes (buf[i := b]) off n = sub_bytes buf off n"
  by (auto simp: sub_bytes_def drop_update_swap take_update_swap drop_update_cancel list_update_beyond)

lemma put_bytes_Cons [buf_simps]:
  "off < length buf \<Longrightarrow> put_bytes (buf[off := b]) (Suc off) xs = put_bytes buf off (b # xs)"
  by (simp add: put_bytes_def take_Suc_list_update)

lemma put_bytes_append [buf_simps]:
  "off + length xs \<le> length buf \<Longrightarrow> m = off + length xs \<Longrightarrow>
   put_bytes (put_bytes buf off xs) m ys = put_bytes buf off (xs @ ys)"
  by (simp add: put_bytes_def add.commute add.left_commute)

lemma put_bytes_overwrite [buf_simps]:
  "off + length xs \<le> length buf \<Longrightarrow> length xs \<le> length ys \<Longrightarrow>
   put_bytes (put_bytes buf off xs) off ys = put_bytes buf off ys"
  by (simp add: put_bytes_def add.commute)

lemma sub_bytes_put_bytes_other [buf_simps]:
  "off + length xs \<le> length buf \<Longrightarrow> p + n \<le> off \<or> off + length xs \<le> p \<Longrightarrow>
   sub_bytes (put_bytes buf off xs) p n = sub_bytes buf p n"
  by (auto simp: sub_bytes_def put_bytes_def take_drop min_def)

section \<open>Words and bytes\<close>

text \<open>The two bytes of a 16-bit value, most significant first, as the wire formats use them.\<close>

definition hi8 :: "u16 \<Rightarrow> u8" where
  "hi8 w = ucast (drop_bit 8 w)"

definition lo8 :: "u16 \<Rightarrow> u8" where
  "lo8 w = ucast (w AND 255)"

definition be16 :: "u8 \<Rightarrow> u8 \<Rightarrow> u16" where
  "be16 h l = push_bit 8 (ucast h) OR ucast l"

lemma and_255: "(w :: 'a::len word) AND 255 = take_bit 8 w"
proof -
  have "(255 :: 'a word) = mask 8" by (simp add: mask_eq_exp_minus_1)
  then show ?thesis by (simp add: take_bit_eq_mask)
qed

lemma unat_u8_less [simp]: "unat (b :: u8) < 256"
  using unsigned_less [of b] by simp

lemma unat_u16_less [simp]: "unat (w :: u16) < 65536"
  using unsigned_less [of w] by simp

lemma unat_hi8: "unat (hi8 w) = unat w div 256"
proof -
  have "unat w div 256 < 256" using unat_u16_less [of w] by (simp add: less_mult_imp_div_less)
  then show ?thesis
    by (simp add: hi8_def unsigned_ucast_eq unsigned_drop_bit_eq drop_bit_eq_div [where 'a = nat]
        take_bit_eq_mod [where 'a = nat])
qed

lemma unat_lo8: "unat (lo8 w) = unat w mod 256"
  by (simp add: lo8_def and_255 unsigned_ucast_eq unsigned_take_bit_eq take_bit_eq_mod [where 'a = nat])

lemma unat_be16: "unat (be16 h l) = 256 * unat h + unat l"
proof -
  have *: "push_bit 8 (ucast h) AND (ucast l :: u16) = 0"
    by (rule bit_word_eqI) (auto simp: bit_simps dest: bit_imp_le_length)
  then have "be16 h l = push_bit 8 (ucast h) + ucast l"
    by (simp add: be16_def disjunctive_add_eq_or)
  moreover have "256 * unat h + unat l < 65536"
    using unat_u8_less [of h] unat_u8_less [of l] by arith
  ultimately show ?thesis
    by (simp add: push_bit_eq_mult unat_word_ariths unsigned_ucast_eq take_bit_eq_mod)
qed

lemma be16_hi8_lo8 [simp]: "be16 (hi8 w) (lo8 w) = w"
proof -
  have "unat (be16 (hi8 w) (lo8 w)) = unat w"
    by (simp only: unat_be16 unat_hi8 unat_lo8 mult_div_mod_eq)
  then show ?thesis by (simp only: word_unat_eq_iff)
qed

lemma hi8_be16 [simp]: "hi8 (be16 h l) = h" and lo8_be16 [simp]: "lo8 (be16 h l) = l"
  using unat_u8_less [of l]
  by (simp_all add: word_unat_eq_iff unat_hi8 unat_lo8 unat_be16)

text \<open>The four bytes of a 32-bit value, most significant first.\<close>

definition bytes32 :: "u32 \<Rightarrow> bytes" where
  "bytes32 v = [ucast (drop_bit 24 v), ucast (drop_bit 16 v), ucast (drop_bit 8 v), ucast v]"

definition be32 :: "u8 \<Rightarrow> u8 \<Rightarrow> u8 \<Rightarrow> u8 \<Rightarrow> u32" where
  "be32 a b c d = push_bit 24 (ucast a) OR push_bit 16 (ucast b) OR push_bit 8 (ucast c) OR ucast d"

lemma be32_bytes32:
  "be32 (ucast (drop_bit 24 v)) (ucast (drop_bit 16 v)) (ucast (drop_bit 8 v)) (ucast v) = v"
proof (rule bit_word_eqI)
  fix n assume "n < LENGTH(32)"
  moreover have "n < 8 \<or> 8 \<le> n \<and> n < 16 \<or> 16 \<le> n \<and> n < 24 \<or> 24 \<le> n" by arith
  ultimately show "bit (be32 (ucast (drop_bit 24 v)) (ucast (drop_bit 16 v)) (ucast (drop_bit 8 v)) (ucast v)) n = bit v n"
    by (elim disjE) (auto simp: be32_def bit_simps)
qed

lemma be32_add:
  "push_bit 24 (ucast a) + push_bit 16 (ucast b) + push_bit 8 (ucast c) + ucast d = be32 a b c d"
proof -
  have "push_bit 24 (ucast a) AND push_bit 16 (ucast b) = (0 :: u32)"
    by (rule bit_word_eqI) (auto simp: bit_simps dest: bit_imp_le_length)
  moreover have "(push_bit 24 (ucast a) OR push_bit 16 (ucast b)) AND push_bit 8 (ucast c) = (0 :: u32)"
    by (rule bit_word_eqI) (auto simp: bit_simps dest: bit_imp_le_length)
  moreover have "(push_bit 24 (ucast a) OR push_bit 16 (ucast b) OR push_bit 8 (ucast c)) AND ucast d = (0 :: u32)"
    by (rule bit_word_eqI) (auto simp: bit_simps dest: bit_imp_le_length)
  ultimately show ?thesis by (simp only: be32_def disjunctive_add_eq_or or.assoc)
qed

lemma bytes32_be32: "bytes32 (be32 a b c d) = [a, b, c, d]"
  unfolding bytes32_def be32_def
  by (intro list.inject [THEN iffD2] conjI refl; rule bit_word_eqI)
    (auto simp: bit_simps dest: bit_imp_le_length)

lemma length_bytes32 [simp]: "length (bytes32 v) = 4"
  by (simp add: bytes32_def)

lemma u8_eq_iff: "(a :: u8) = b \<longleftrightarrow> (bit a 0 = bit b 0 \<and> bit a 1 = bit b 1 \<and> bit a 2 = bit b 2 \<and>
  bit a 3 = bit b 3 \<and> bit a 4 = bit b 4 \<and> bit a 5 = bit b 5 \<and> bit a 6 = bit b 6 \<and> bit a 7 = bit b 7)"
proof -
  have "(\<forall>n < 8. bit a n = bit b n) \<longleftrightarrow> a = b" by (auto intro: bit_word_eqI)
  then show ?thesis by (auto simp: numeral_eq_Suc less_Suc_eq)
qed

lemma bit_u8_double: "bit ((x :: u8) * 2) (Suc n) \<longleftrightarrow> n < 7 \<and> bit x n"
proof -
  have "x * 2 = push_bit 1 x" by simp
  then show ?thesis by (simp only: bit_push_bit_iff) auto
qed

section \<open>C strings\<close>

text \<open>
  A C string is the list of its characters before the terminating NUL. For such strings
  \<open>strncmp (s, t, n) == 0\<close> holds exactly when the first \<open>n\<close> characters agree, and
  \<open>strncpy (dst, s, n - 1)\<close> followed by \<open>dst[n - 1] = 0\<close> keeps the first \<open>n - 1\<close>.
\<close>

definition ascii :: "string \<Rightarrow> bytes" where
  "ascii s = map of_char s"

lemma length_ascii [simp]: "length (ascii s) = length s"
  by (simp add: ascii_def)

definition strncmp_eq :: "'c list \<Rightarrow> 'c list \<Rightarrow> nat \<Rightarrow> bool" where
  "strncmp_eq s t n = (take n s = take n t)"

definition strncpy_term :: "'c list \<Rightarrow> nat \<Rightarrow> 'c list" where
  "strncpy_term s n = take (n - 1) s"

lemma strncmp_eq_refl [simp]: "strncmp_eq s s n"
  by (simp add: strncmp_eq_def)

lemma strncmp_eq_short: "length s < n \<Longrightarrow> length t < n \<Longrightarrow> strncmp_eq s t n = (s = t)"
  by (simp add: strncmp_eq_def)

lemma length_strncpy_term: "0 < n \<Longrightarrow> length (strncpy_term s n) < n"
  by (simp add: strncpy_term_def)

section \<open>Lists\<close>

lemma concat_map_snoc: "concat (map f (xs @ [x])) = concat (map f xs) @ f x"
  by simp

lemma list_cases_Suc: "length xs = Suc n \<Longrightarrow> \<exists>y ys. xs = y # ys \<and> length ys = n"
  by (cases xs) auto

lemma nat_forall_less_Suc: "(\<forall>i < Suc n. P i) = (P n \<and> (\<forall>i < n. P i))"
  by (auto simp: less_Suc_eq)

end
