(* ===== verification/Fifo.thy ===== *)
theory Fifo
  imports Prelude
begin

text \<open>
  The two interfaces that several components of the firmware share. A \<open>bounded_fifo\<close> is
  a byte queue of fixed capacity that refuses a byte when it is full: the ring buffer of
  \<open>mqtt/ringbuf.c\<close> and the UART receive queue of \<open>user/kamstrup/kmp_request.c\<close> are
  instances. A \<open>byte_stuffing\<close> is an escape code: the MQTT queue framing of
  \<open>mqtt/proto.c\<close> and the link layer of the Kamstrup protocol in \<open>user/kamstrup/kmp.c\<close>
  are instances. The functions below are the vocabulary of the two interfaces; the lemmas
  are proved once, in the locales.
\<close>

section \<open>Bounded queues\<close>

fun put_all :: "('q \<Rightarrow> 'b \<Rightarrow> 'q option) \<Rightarrow> 'q \<Rightarrow> 'b list \<Rightarrow> 'q option" where
  "put_all put q [] = Some q"
| "put_all put q (b # bs) = (case put q b of None \<Rightarrow> None | Some q' \<Rightarrow> put_all put q' bs)"

fun get_n :: "('q \<Rightarrow> ('b \<times> 'q) option) \<Rightarrow> 'q \<Rightarrow> nat \<Rightarrow> ('b list \<times> 'q) option" where
  "get_n get q 0 = Some ([], q)"
| "get_n get q (Suc n) =
     (case get q of
        None \<Rightarrow> None
      | Some (b, q') \<Rightarrow> map_option (\<lambda>(bs, q''). (b # bs, q'')) (get_n get q' n))"

locale bounded_fifo =
  fixes put :: "'q \<Rightarrow> 'b \<Rightarrow> 'q option"
    and get :: "'q \<Rightarrow> ('b \<times> 'q) option"
    and contents :: "'q \<Rightarrow> 'b list"
    and capacity :: "'q \<Rightarrow> nat"
    and inv :: "'q \<Rightarrow> bool"
  assumes put_room: "inv q \<Longrightarrow> length (contents q) < capacity q \<Longrightarrow>
      \<exists>q'. put q b = Some q' \<and> inv q' \<and> contents q' = contents q @ [b] \<and> capacity q' = capacity q"
    and put_full: "inv q \<Longrightarrow> capacity q \<le> length (contents q) \<Longrightarrow> put q b = None"
    and get_empty: "inv q \<Longrightarrow> contents q = [] \<Longrightarrow> get q = None"
    and get_cons: "inv q \<Longrightarrow> contents q = b # bs \<Longrightarrow>
      \<exists>q'. get q = Some (b, q') \<and> inv q' \<and> contents q' = bs \<and> capacity q' = capacity q"
begin

lemma put_SomeD:
  assumes "inv q" and "put q b = Some q'"
  shows "inv q'" and "contents q' = contents q @ [b]" and "capacity q' = capacity q"
    and "length (contents q) < capacity q"
proof -
  from assms have room: "length (contents q) < capacity q"
    using put_full by (metis not_less option.distinct(1))
  with put_room [OF assms(1) this, of b] assms(2)
  show "inv q'" and "contents q' = contents q @ [b]" and "capacity q' = capacity q"
    and "length (contents q) < capacity q" by auto
qed

lemma put_NoneD: "inv q \<Longrightarrow> put q b = None \<Longrightarrow> capacity q \<le> length (contents q)"
  using put_room [of q b] by (auto simp: not_less [symmetric])

lemma get_SomeD:
  assumes "inv q" and "get q = Some (b, q')"
  shows "inv q'" and "contents q = b # contents q'" and "capacity q' = capacity q"
proof -
  from assms obtain c cs where "contents q = c # cs"
    using get_empty by (cases "contents q") auto
  with get_cons [OF assms(1) this] assms(2)
  show "inv q'" and "contents q = b # contents q'" and "capacity q' = capacity q" by auto
qed

lemma put_all_fits:
  "inv q \<Longrightarrow> length (contents q) + length bs \<le> capacity q \<Longrightarrow>
   \<exists>q'. put_all put q bs = Some q' \<and> inv q' \<and> contents q' = contents q @ bs \<and> capacity q' = capacity q"
proof (induction bs arbitrary: q)
  case (Cons b bs)
  then obtain q' where q': "put q b = Some q'" "inv q'" "contents q' = contents q @ [b]"
    "capacity q' = capacity q"
    using put_room [of q b] by auto
  with Cons.prems Cons.IH [of q'] show ?case by auto
qed simp

lemma put_all_overflows:
  "inv q \<Longrightarrow> length (contents q) \<le> capacity q \<Longrightarrow> capacity q < length (contents q) + length bs \<Longrightarrow>
   put_all put q bs = None"
proof (induction bs arbitrary: q)
  case (Cons b bs)
  show ?case
  proof (cases "put q b")
    case (Some q')
    note q' = put_SomeD [OF Cons.prems(1) Some]
    with Cons.prems have "put_all put q' bs = None"
      by (intro Cons.IH) auto
    with Some show ?thesis by simp
  qed simp
qed simp

lemma get_n_contents:
  "inv q \<Longrightarrow> contents q = bs @ cs \<Longrightarrow>
   \<exists>q'. get_n get q (length bs) = Some (bs, q') \<and> inv q' \<and> contents q' = cs \<and> capacity q' = capacity q"
proof (induction bs arbitrary: q)
  case (Cons b bs)
  then obtain q' where q': "get q = Some (b, q')" "inv q'" "contents q' = bs @ cs"
    "capacity q' = capacity q"
    using get_cons [of q b "bs @ cs"] by auto
  with Cons.IH [of q'] show ?case by auto
qed simp

lemma fifo_order:
  assumes "inv q" and "contents q = []" and "length bs \<le> capacity q"
  shows "\<exists>q' q''. put_all put q bs = Some q' \<and> get_n get q' (length bs) = Some (bs, q'') \<and>
           inv q'' \<and> contents q'' = []"
  using put_all_fits [OF assms(1), of bs] get_n_contents [of _ bs "[]"] assms by fastforce

end

section \<open>Escape codes\<close>

definition stuff :: "('b \<Rightarrow> bool) \<Rightarrow> 'b \<Rightarrow> ('b \<Rightarrow> 'b) \<Rightarrow> 'b list \<Rightarrow> 'b list" where
  "stuff special mark flip xs = concat (map (\<lambda>b. if special b then [mark, flip b] else [b]) xs)"

fun unstuff :: "'b \<Rightarrow> ('b \<Rightarrow> 'b) \<Rightarrow> 'b list \<Rightarrow> 'b list" where
  "unstuff mark flip [] = []"
| "unstuff mark flip [b] = (if b = mark then [] else [b])"
| "unstuff mark flip (b # c # cs) =
     (if b = mark then flip c # unstuff mark flip cs else b # unstuff mark flip (c # cs))"

lemma stuff_simps [simp]:
  "stuff special mark flip [] = []"
  "stuff special mark flip (b # bs) =
     (if special b then [mark, flip b] else [b]) @ stuff special mark flip bs"
  "stuff special mark flip (bs @ cs) = stuff special mark flip bs @ stuff special mark flip cs"
  by (simp_all add: stuff_def)

locale byte_stuffing =
  fixes special :: "'b \<Rightarrow> bool" and mark :: 'b and flip :: "'b \<Rightarrow> 'b"
  assumes mark_special: "special mark"
    and flip_flip: "flip (flip b) = b"
    and flip_plain: "special b \<Longrightarrow> \<not> special (flip b)"
begin

lemma unstuff_Cons_plain: "b \<noteq> mark \<Longrightarrow> unstuff mark flip (b # bs) = b # unstuff mark flip bs"
  by (cases bs) auto

lemma unstuff_stuff_append:
  "unstuff mark flip (stuff special mark flip bs @ cs) = bs @ unstuff mark flip cs"
proof (induction bs)
  case (Cons b bs)
  have "\<not> special b \<Longrightarrow> b \<noteq> mark"
    using mark_special by auto
  with Cons show ?case
    by (cases "special b") (auto simp: flip_flip unstuff_Cons_plain)
qed simp

lemma unstuff_stuff: "unstuff mark flip (stuff special mark flip bs) = bs"
  using unstuff_stuff_append [of bs "[]"] by simp

lemma stuff_inject: "stuff special mark flip bs = stuff special mark flip cs \<longleftrightarrow> bs = cs"
  using unstuff_stuff by metis

lemma stuff_only_mark: "b \<in> set (stuff special mark flip bs) \<Longrightarrow> special b \<Longrightarrow> b = mark"
  by (induction bs) (auto simp: flip_plain split: if_splits)

lemma length_stuff_bounds:
  "length bs \<le> length (stuff special mark flip bs) \<and>
   length (stuff special mark flip bs) \<le> 2 * length bs"
  by (induction bs) auto

lemma length_stuff:
  "length (stuff special mark flip bs) = length bs + length (filter special bs)"
  by (induction bs) auto

end

end
