(* ===== verification/RingBuf.thy ===== *)
theory RingBuf
  imports Fifo
begin

text \<open>
  The ring buffer of \<open>mqtt/ringbuf.c\<close>. The record has the fields of \<open>RINGBUF\<close>; the
  pointers \<open>p_r\<close> and \<open>p_w\<close> are offsets from \<open>p_o\<close>, and \<open>p_o\<close> is the array
  itself. The functions return 0 or -1 in C and change nothing when they return -1: here
  \<open>Some\<close> of the new state, or \<open>None\<close>.
\<close>

record ringbuf =
  p_o :: bytes
  p_r :: nat
  p_w :: nat
  fill_cnt :: int
  rb_size :: int

definition RINGBUF_Init :: "ringbuf option \<Rightarrow> bytes option \<Rightarrow> int \<Rightarrow> ringbuf option" where
  "RINGBUF_Init r buf sz =
     (case (r, buf) of
        (Some r, Some buf) \<Rightarrow>
          if sz < 2 then None
          else Some (r\<lparr>p_o := buf, p_r := 0, p_w := 0, fill_cnt := 0, rb_size := sz\<rparr>)
      | _ \<Rightarrow> None)"

definition RINGBUF_Put :: "ringbuf \<Rightarrow> u8 \<Rightarrow> ringbuf option" where
  "RINGBUF_Put r c =
     (if fill_cnt r \<ge> rb_size r then None
      else
        let w = p_w r + 1;
            r1 = r\<lparr>fill_cnt := fill_cnt r + 1, p_o := (p_o r)[p_w r := c], p_w := w\<rparr>
        in Some (if int w \<ge> rb_size r then r1\<lparr>p_w := 0\<rparr> else r1))"

definition RINGBUF_Get :: "ringbuf \<Rightarrow> (u8 \<times> ringbuf) option" where
  "RINGBUF_Get r =
     (if fill_cnt r \<le> 0 then None
      else
        let c = p_o r ! p_r r;
            rd = p_r r + 1;
            r1 = r\<lparr>fill_cnt := fill_cnt r - 1, p_r := rd\<rparr>
        in Some (c, if int rd \<ge> rb_size r then r1\<lparr>p_r := 0\<rparr> else r1))"

section \<open>Invariant and abstraction\<close>

definition rb_wf :: "ringbuf \<Rightarrow> bool" where
  "rb_wf r \<longleftrightarrow>
     2 \<le> rb_size r \<and> rb_size r = int (length (p_o r)) \<and>
     p_r r < length (p_o r) \<and> p_w r < length (p_o r) \<and>
     0 \<le> fill_cnt r \<and> fill_cnt r \<le> rb_size r \<and>
     p_w r = (p_r r + nat (fill_cnt r)) mod length (p_o r)"

definition rb_cell :: "ringbuf \<Rightarrow> nat \<Rightarrow> u8" where
  "rb_cell r i = p_o r ! ((p_r r + i) mod length (p_o r))"

definition rb_list :: "ringbuf \<Rightarrow> bytes" where
  "rb_list r = map (rb_cell r) [0..<nat (fill_cnt r)]"

definition rb_capacity :: "ringbuf \<Rightarrow> nat" where
  "rb_capacity r = length (p_o r)"

lemma length_rb_list [simp]: "length (rb_list r) = nat (fill_cnt r)"
  by (simp add: rb_list_def)

lemma mod_add_inj_le:
  fixes a i j n :: nat
  assumes "(a + i) mod n = (a + j) mod n" and "i \<le> j" and "j < n"
  shows "i = j"
proof -
  from assms(1,2) have "n dvd (a + j) - (a + i)"
    by (metis add_le_cancel_left mod_eq_dvd_iff_nat)
  then have "n dvd j - i" by simp
  with assms(2,3) show ?thesis
    by (meson diff_is_0_eq dvd_imp_le le_antisym le_less_trans less_imp_diff_less not_le
        not_less zero_less_diff)
qed

lemma mod_add_inj:
  fixes a i j n :: nat
  assumes "(a + i) mod n = (a + j) mod n" and "i < n" and "j < n"
  shows "i = j"
  using assms mod_add_inj_le [of a i n j] mod_add_inj_le [of a j n i]
  by (cases "i \<le> j") auto

lemma rb_wfD:
  assumes "rb_wf r"
  shows "rb_size r = int (length (p_o r))" and "2 \<le> length (p_o r)"
    and "p_r r < length (p_o r)" and "p_w r < length (p_o r)"
    and "0 \<le> fill_cnt r" and "nat (fill_cnt r) \<le> length (p_o r)"
    and "p_w r = (p_r r + nat (fill_cnt r)) mod length (p_o r)"
  using assms by (auto simp: rb_wf_def)

section \<open>Every put and get keeps the invariant and acts on the byte queue\<close>

text \<open>
  \<open>rb_keeps r r'\<close>: the bytes queued in \<open>r\<close> are still in place in \<open>r'\<close>. It is what
  a rollback of the indices relies on.
\<close>

definition rb_keeps :: "ringbuf \<Rightarrow> ringbuf \<Rightarrow> bool" where
  "rb_keeps r r' \<longleftrightarrow>
     p_r r' = p_r r \<and> rb_size r' = rb_size r \<and> length (p_o r') = length (p_o r) \<and>
     fill_cnt r \<le> fill_cnt r' \<and>
     (\<forall>i < nat (fill_cnt r). rb_cell r' i = rb_cell r i)"

lemma rb_keeps_refl [simp]: "rb_keeps r r"
  by (simp add: rb_keeps_def)

lemma rb_keeps_trans: "rb_keeps a b \<Longrightarrow> rb_keeps b c \<Longrightarrow> rb_keeps a c"
  by (auto simp: rb_keeps_def)

lemma next_index:
  assumes "2 \<le> n" and "w = (r + f) mod n"
  shows "(if int n \<le> int (w + 1) then 0 else w + 1) = (r + Suc f) mod (n::nat)"
proof -
  have "(r + Suc f) mod n = Suc w mod n"
    using assms(2) by (simp add: mod_Suc_eq)
  moreover have "w < n" using assms by simp
  ultimately show ?thesis
    by (cases "Suc w = n") auto
qed

lemma RINGBUF_Put_Some:
  assumes wf: "rb_wf r" and room: "fill_cnt r < rb_size r"
  shows "\<exists>r'. RINGBUF_Put r c = Some r' \<and> rb_wf r' \<and> rb_keeps r r' \<and>
           rb_list r' = rb_list r @ [c] \<and> length (p_o r') = length (p_o r)"
proof -
  note d = rb_wfD [OF wf]
  let ?n = "length (p_o r)" and ?f = "nat (fill_cnt r)"
  let ?w' = "if int ?n \<le> int (p_w r + 1) then 0 else p_w r + 1"
  let ?r' = "r\<lparr>fill_cnt := fill_cnt r + 1, p_o := (p_o r)[p_w r := c], p_w := ?w'\<rparr>"
  have put: "RINGBUF_Put r c = Some ?r'"
    using room d(1) by (simp add: RINGBUF_Put_def Let_def)
  have f: "?f < ?n" using room d(1,5) by (simp add: nat_less_iff)
  have w': "?w' = (p_r r + Suc ?f) mod ?n" by (rule next_index [OF d(2) d(7)])
  have suc: "nat (fill_cnt r + 1) = Suc ?f" using d(5) by simp
  have "?w' < ?n" unfolding w' using d(2) by (intro mod_less_divisor) linarith
  then have wf': "rb_wf ?r'"
    using d room w' suc by (auto simp: rb_wf_def)
  have old: "rb_cell ?r' i = rb_cell r i" if "i < ?f" for i
  proof -
    have "(p_r r + i) mod ?n \<noteq> p_w r"
      using mod_add_inj [of "p_r r" i ?n ?f] that f d(7) by auto
    then show ?thesis by (simp add: rb_cell_def)
  qed
  have new: "rb_cell ?r' ?f = c"
    using d(4,7) by (simp add: rb_cell_def)
  have list: "rb_list ?r' = rb_list r @ [c]"
    using old new suc by (simp add: rb_list_def)
  have keeps: "rb_keeps r ?r'"
    using old by (simp add: rb_keeps_def)
  from put wf' keeps list show ?thesis by auto
qed

lemma RINGBUF_Put_full: "rb_size r \<le> fill_cnt r \<Longrightarrow> RINGBUF_Put r c = None"
  by (simp add: RINGBUF_Put_def)

lemma RINGBUF_Get_empty: "fill_cnt r \<le> 0 \<Longrightarrow> RINGBUF_Get r = None"
  by (simp add: RINGBUF_Get_def)

lemma RINGBUF_Get_Some:
  assumes wf: "rb_wf r" and l: "rb_list r = b # bs"
  shows "\<exists>r'. RINGBUF_Get r = Some (b, r') \<and> rb_wf r' \<and> rb_list r' = bs \<and>
           p_o r' = p_o r \<and> p_w r' = p_w r \<and> rb_size r' = rb_size r"
proof -
  note d = rb_wfD [OF wf]
  let ?n = "length (p_o r)"
  obtain f where f: "nat (fill_cnt r) = Suc f"
    using l by (cases "nat (fill_cnt r)") (auto simp: rb_list_def)
  then have fc: "fill_cnt r = int (Suc f)" by linarith
  define rd where "rd = (if int ?n \<le> int (p_r r + 1) then 0 else p_r r + 1)"
  define r' where "r' = r\<lparr>fill_cnt := fill_cnt r - 1, p_r := rd\<rparr>"
  have rd: "rd = (p_r r + 1) mod ?n"
    using next_index [OF d(2), of "p_r r" "p_r r" 0] d(3) by (simp add: rd_def)
  have get: "RINGBUF_Get r = Some (p_o r ! p_r r, r')"
    using fc d(1) by (simp add: RINGBUF_Get_def Let_def r'_def rd_def)
  have cell: "rb_cell r' i = rb_cell r (Suc i)" for i
    using rd by (simp add: rb_cell_def r'_def mod_add_left_eq)
  have "b # bs = rb_cell r 0 # map (rb_cell r) [Suc 0..<Suc f]"
    using l f by (simp add: rb_list_def upt_conv_Cons del: upt_Suc)
  moreover have "map (rb_cell r) [Suc 0..<Suc f] = map (\<lambda>i. rb_cell r (Suc i)) [0..<f]"
    by (simp only: map_Suc_upt [symmetric] map_map comp_def)
  moreover have "rb_list r' = map (\<lambda>i. rb_cell r (Suc i)) [0..<f]"
    using fc cell by (simp add: rb_list_def r'_def)
  moreover have "rb_cell r 0 = p_o r ! p_r r"
    using d(3) by (simp add: rb_cell_def)
  ultimately have lst: "b = p_o r ! p_r r" "rb_list r' = bs" by auto
  have "rd < ?n" unfolding rd using d(2) by (intro mod_less_divisor) linarith
  moreover have "p_w r = (rd + f) mod ?n"
    using d(7) rd f by (simp add: mod_add_left_eq)
  ultimately have "rb_wf r'"
    using d fc by (auto simp: rb_wf_def r'_def)
  with get lst show ?thesis by (auto simp: r'_def)
qed

text \<open>The ring buffer is a bounded queue.\<close>

interpretation rb: bounded_fifo RINGBUF_Put RINGBUF_Get rb_list rb_capacity rb_wf
proof (unfold_locales, goal_cases)
  case (1 q b)
  then have "fill_cnt q < rb_size q"
    by (auto simp: rb_capacity_def rb_wf_def)
  from RINGBUF_Put_Some [OF 1(1) this, of b] show ?case
    by (auto simp: rb_capacity_def)
next
  case (2 q b)
  then show ?case
    by (intro RINGBUF_Put_full) (auto simp: rb_capacity_def rb_wf_def)
next
  case (3 q)
  then show ?case
    by (intro RINGBUF_Get_empty) (auto simp: rb_list_def)
next
  case (4 q b bs)
  from RINGBUF_Get_Some [OF this] show ?case
    by (auto simp: rb_capacity_def)
qed

lemma RINGBUF_Put_keeps: "rb_wf r \<Longrightarrow> RINGBUF_Put r c = Some r' \<Longrightarrow> rb_keeps r r'"
  using RINGBUF_Put_Some [of r c] RINGBUF_Put_full [of r c]
  by (cases "fill_cnt r < rb_size r") auto

lemma RINGBUF_Get_frame:
  assumes "RINGBUF_Get r = Some (c, r')"
  shows "p_o r' = p_o r" and "p_w r' = p_w r" and "rb_size r' = rb_size r"
    and "nat (fill_cnt r') < nat (fill_cnt r)"
  using assms by (auto simp: RINGBUF_Get_def Let_def split: if_splits)

text \<open>
  Restoring the three indices after any number of puts gives back the queued bytes.
\<close>

definition rb_rollback :: "ringbuf \<Rightarrow> ringbuf \<Rightarrow> ringbuf" where
  "rb_rollback r r' = r'\<lparr>p_r := p_r r, p_w := p_w r, fill_cnt := fill_cnt r\<rparr>"

lemma rb_rollback_keeps:
  assumes "rb_wf r" and "rb_keeps r r'"
  shows "rb_wf (rb_rollback r r')" and "rb_list (rb_rollback r r') = rb_list r"
    and "rb_capacity (rb_rollback r r') = rb_capacity r"
  using assms
  by (auto simp: rb_wf_def rb_keeps_def rb_rollback_def rb_list_def rb_cell_def rb_capacity_def)

lemma RINGBUF_Init_wf:
  assumes "2 \<le> sz" and "int (length buf) = sz"
  shows "\<exists>r'. RINGBUF_Init (Some r) (Some buf) sz = Some r' \<and> rb_wf r' \<and> rb_list r' = [] \<and>
           rb_capacity r' = nat sz"
  using assms by (auto simp: RINGBUF_Init_def rb_wf_def rb_list_def rb_capacity_def)

end
