(* ===== verification/Proto.thy ===== *)
theory Proto
  imports RingBuf
begin

text \<open>
  The framing of \<open>mqtt/proto.c\<close>: a message is sent as \<open>0x7E\<close>, its bytes with
  \<open>0x7D\<close>, \<open>0x7E\<close> and \<open>0x7F\<close> escaped, and \<open>0x7F\<close>. \<open>PROTO_AddRb\<close> writes
  a frame into a ring buffer, \<open>PROTO_ParseRb\<close> reads one back through the byte state
  machine \<open>PROTO_ParseByte\<close>. Return codes are \<open>int\<close> as in C.
\<close>

definition proto_special :: "u8 \<Rightarrow> bool" where
  "proto_special b \<longleftrightarrow> b = 0x7D \<or> b = 0x7E \<or> b = 0x7F"

definition proto_flip :: "u8 \<Rightarrow> u8" where
  "proto_flip b = b XOR 0x20"

interpretation proto: byte_stuffing proto_special "0x7D" proto_flip
  by unfold_locales (auto simp: proto_special_def proto_flip_def xor.assoc)

abbreviation proto_escape :: "bytes \<Rightarrow> bytes" where
  "proto_escape \<equiv> stuff proto_special 0x7D proto_flip"

text \<open>The frame of a message, the specification of the encoders.\<close>

definition frame :: "bytes \<Rightarrow> bytes" where
  "frame msg = 0x7E # proto_escape msg @ [0x7F]"

section \<open>The byte parser\<close>

text \<open>
  \<open>PROTO_PARSER\<close>. The callback pointer is only tested for NULL and called: \<open>callback\<close>
  says whether it is set and \<open>cb_calls\<close> counts the calls. \<open>PROTO_Init\<close> sets every
  field but \<open>isBegin\<close>, so a parser on the stack starts with an arbitrary \<open>isBegin\<close>;
  the initial record is therefore an argument.
\<close>

record proto_parser =
  pp_buf :: bytes
  bufSize :: nat
  dataLen :: nat
  isEsc :: bool
  isBegin :: bool
  callback :: bool
  cb_calls :: nat

definition PROTO_Init :: "proto_parser \<Rightarrow> bool \<Rightarrow> bytes \<Rightarrow> nat \<Rightarrow> proto_parser" where
  "PROTO_Init parser completeCallback buf bsize =
     parser\<lparr>pp_buf := buf, bufSize := bsize, dataLen := 0, callback := completeCallback,
            isEsc := False\<rparr>"

definition PROTO_ParseByte :: "proto_parser \<Rightarrow> u8 \<Rightarrow> int \<times> proto_parser" where
  "PROTO_ParseByte parser value =
     (if value = 0x7D then (-1, parser\<lparr>isEsc := True\<rparr>)
      else if value = 0x7E then (-1, parser\<lparr>dataLen := 0, isEsc := False, isBegin := True\<rparr>)
      else if value = 0x7F then
        (0, parser\<lparr>cb_calls := (if callback parser then cb_calls parser + 1 else cb_calls parser),
                   isBegin := False\<rparr>)
      else if \<not> isBegin parser then (-1, parser)
      else
        let value = (if isEsc parser then value XOR 0x20 else value);
            parser = parser\<lparr>isEsc := False\<rparr>
        in (-1, if dataLen parser < bufSize parser
                then parser\<lparr>pp_buf := (pp_buf parser)[dataLen parser := value],
                            dataLen := dataLen parser + 1\<rparr>
                else parser))"

fun PROTO_Parse :: "proto_parser \<Rightarrow> bytes \<Rightarrow> proto_parser" where
  "PROTO_Parse parser [] = parser"
| "PROTO_Parse parser (b # bs) = PROTO_Parse (snd (PROTO_ParseByte parser b)) bs"

text \<open>
  The loop of \<open>PROTO_ParseRb\<close>: bytes are taken from the ring until a frame ends. The
  result is the return code, the ring, the parser and, on success, the value stored
  through \<open>len\<close>.
\<close>

function PROTO_ParseRb_loop ::
  "ringbuf \<Rightarrow> proto_parser \<Rightarrow> int \<times> ringbuf \<times> proto_parser \<times> nat option" where
  "PROTO_ParseRb_loop rb parser =
     (case RINGBUF_Get rb of
        None \<Rightarrow> (-1, rb, parser, None)
      | Some (c, rb') \<Rightarrow>
          let (ret, parser') = PROTO_ParseByte parser c
          in if ret = 0 then (0, rb', parser', Some (dataLen parser'))
             else PROTO_ParseRb_loop rb' parser')"
  by pat_completeness auto
termination
  by (relation "measure (\<lambda>(rb, _). nat (fill_cnt rb))") (auto dest: RINGBUF_Get_frame(4))

declare PROTO_ParseRb_loop.simps [simp del]

definition PROTO_ParseRb ::
  "proto_parser \<Rightarrow> ringbuf \<Rightarrow> bytes \<Rightarrow> nat \<Rightarrow> int \<times> ringbuf \<times> bytes \<times> nat option" where
  "PROTO_ParseRb stack rb bufOut maxBufLen =
     (let (ret, rb', parser, len) =
            PROTO_ParseRb_loop rb (PROTO_Init stack False bufOut maxBufLen)
      in (ret, rb', pp_buf parser, len))"

section \<open>The encoders\<close>

text \<open>
  \<open>PROTO_AddRb\<close> stops at the first refused byte, leaving the bytes already written. The
  C length is an \<open>I16\<close> counted down to zero, that is \<open>len\<close> modulo \<open>2 ^ 16\<close> bytes;
  the result is the \<open>U16\<close> byte count returned as an \<open>I16\<close>.
\<close>

fun PROTO_AddRb_loop :: "ringbuf \<Rightarrow> bytes \<Rightarrow> u16 \<Rightarrow> int \<times> ringbuf" where
  "PROTO_AddRb_loop rb [] i =
     (case RINGBUF_Put rb 0x7F of None \<Rightarrow> (-1, rb) | Some rb' \<Rightarrow> (sint i, rb'))"
| "PROTO_AddRb_loop rb (b # bs) i =
     (if b = 0x7D \<or> b = 0x7E \<or> b = 0x7F then
        case RINGBUF_Put rb 0x7D of
          None \<Rightarrow> (-1, rb)
        | Some rb1 \<Rightarrow>
            (case RINGBUF_Put rb1 (b XOR 0x20) of
               None \<Rightarrow> (-1, rb1)
             | Some rb2 \<Rightarrow> PROTO_AddRb_loop rb2 bs (i + 2))
      else
        case RINGBUF_Put rb b of
          None \<Rightarrow> (-1, rb)
        | Some rb1 \<Rightarrow> PROTO_AddRb_loop rb1 bs (i + 1))"

definition PROTO_AddRb :: "ringbuf \<Rightarrow> bytes \<Rightarrow> u16 \<Rightarrow> int \<times> ringbuf" where
  "PROTO_AddRb rb packet len =
     (case RINGBUF_Put rb 0x7E of
        None \<Rightarrow> (-1, rb)
      | Some rb1 \<Rightarrow> PROTO_AddRb_loop rb1 (take (unat len) packet) 2)"

text \<open>
  \<open>PROTO_Add\<close> writes into a plain buffer. The length is read from the first two bytes
  of the packet, and the bytes sent start at the packet's first byte. The result holds
  the bytes written so far.
\<close>

fun PROTO_Add_loop :: "bytes \<Rightarrow> bytes \<Rightarrow> int \<Rightarrow> u16 \<Rightarrow> int \<times> bytes" where
  "PROTO_Add_loop out [] bsize i =
     (if bsize < 1 then (-1, out) else (sint i, out @ [0x7F]))"
| "PROTO_Add_loop out (b # bs) bsize i =
     (if b = 0x7D \<or> b = 0x7E \<or> b = 0x7F then
        if bsize < 2 then (-1, out)
        else PROTO_Add_loop (out @ [0x7D, b XOR 0x20]) bs (bsize - 2) (i + 2)
      else
        if bsize < 1 then (-1, out)
        else PROTO_Add_loop (out @ [b]) bs (bsize - 1) (i + 1))"

definition PROTO_Add :: "bytes \<Rightarrow> int \<Rightarrow> int \<times> bytes" where
  "PROTO_Add packet bsize =
     (let len = (ucast (packet ! 0) :: u16) OR push_bit 8 (ucast (packet ! 1))
      in if bsize < 1 then (-1, [])
         else PROTO_Add_loop [0x7E] (take (unat len) packet) (bsize - 1) 2)"

section \<open>Encoding\<close>

lemma length_frame: "length (frame msg) = 2 + length (proto_escape msg)"
  by (simp add: frame_def)

lemma length_frame_bounds: "length msg + 2 \<le> length (frame msg) \<and> length (frame msg) \<le> 2 * length msg + 2"
  using proto.length_stuff_bounds [of msg] by (simp add: length_frame)

text \<open>A successful run of the loop is exactly the puts of the escaped bytes and the end mark.\<close>

lemma AddRb_loop_puts:
  "(case put_all RINGBUF_Put rb (proto_escape bs @ [0x7F]) of
      None \<Rightarrow> fst (PROTO_AddRb_loop rb bs i) = -1
    | Some rb' \<Rightarrow> PROTO_AddRb_loop rb bs i =
        (sint (i + of_nat (length (proto_escape bs))), rb'))"
proof (induction bs arbitrary: rb i)
  case Nil
  then show ?case by (simp split: option.split)
next
  case (Cons b bs)
  show ?case
  proof (cases "proto_special b")
    case True
    then have sp: "b = 0x7D \<or> b = 0x7E \<or> b = 0x7F" by (simp add: proto_special_def)
    show ?thesis
    proof (cases "RINGBUF_Put rb 0x7D")
      case None
      with True sp show ?thesis by simp
    next
      case (Some rb1)
      note put1 = this
      show ?thesis
      proof (cases "RINGBUF_Put rb1 (proto_flip b)")
        case None
        with True sp put1 show ?thesis by (simp add: proto_flip_def)
      next
        case (Some rb2)
        then have e1: "PROTO_AddRb_loop rb (b # bs) i = PROTO_AddRb_loop rb2 bs (i + 2)"
          using sp put1 by (simp add: proto_flip_def)
        have e2: "put_all RINGBUF_Put rb (proto_escape (b # bs) @ [0x7F]) =
            put_all RINGBUF_Put rb2 (proto_escape bs @ [0x7F])"
          using True put1 Some by simp
        show ?thesis
          unfolding e1 e2 using True Cons.IH [of rb2 "i + 2"]
          by (simp add: algebra_simps split: option.splits)
      qed
    qed
  next
    case False
    then have "\<not> (b = 0x7D \<or> b = 0x7E \<or> b = 0x7F)" by (simp add: proto_special_def)
    note plain = this
    show ?thesis
    proof (cases "RINGBUF_Put rb b")
      case None
      with False plain show ?thesis by simp
    next
      case (Some rb1)
      with False plain Cons.IH [of rb1 "i + 1"] show ?thesis
        by (simp add: algebra_simps split: option.splits)
    qed
  qed
qed

lemma RINGBUF_Put_step:
  "rb_wf r \<Longrightarrow> RINGBUF_Put r c = Some r' \<Longrightarrow> rb_keeps r r' \<and> rb_wf r'"
  using RINGBUF_Put_keeps rb.put_SomeD(1) by blast

lemma AddRb_loop_keeps:
  "rb_wf rb \<Longrightarrow> rb_keeps rb (snd (PROTO_AddRb_loop rb bs i)) \<and>
   rb_wf (snd (PROTO_AddRb_loop rb bs i))"
proof (induction bs arbitrary: rb i)
  case Nil
  then show ?case
    by (auto split: option.split dest: RINGBUF_Put_step)
next
  case (Cons b bs)
  show ?case
  proof (cases "b = 0x7D \<or> b = 0x7E \<or> b = 0x7F")
    case True
    show ?thesis
    proof (cases "RINGBUF_Put rb 0x7D")
      case None
      with True Cons.prems show ?thesis by simp
    next
      case (Some rb1)
      note s1 = this RINGBUF_Put_step [OF Cons.prems this]
      show ?thesis
      proof (cases "RINGBUF_Put rb1 (b XOR 0x20)")
        case None
        with True s1 show ?thesis by simp
      next
        case (Some rb2)
        with RINGBUF_Put_step [of rb1 _ rb2] s1 have s2: "rb_keeps rb rb2" "rb_wf rb2"
          by (blast intro: rb_keeps_trans)+
        with True Some s1 Cons.IH [of rb2 "i + 2"] show ?thesis
          by (auto intro: rb_keeps_trans)
      qed
    qed
  next
    case False
    show ?thesis
    proof (cases "RINGBUF_Put rb b")
      case None
      with False Cons.prems show ?thesis by simp
    next
      case (Some rb1)
      with False RINGBUF_Put_step [OF Cons.prems Some] Cons.IH [of rb1 "i + 1"]
      show ?thesis by (auto intro: rb_keeps_trans)
    qed
  qed
qed

text \<open>
  \<open>PROTO_AddRb\<close> puts the frame of the message, or fails with the bytes queued before it
  still in place. Its result is the frame's length, which fits the \<open>I16\<close> only below
  \<open>2 ^ 15\<close>.
\<close>

lemma AddRb_Some:
  assumes "put_all RINGBUF_Put rb (frame (take (unat len) packet)) = Some rb'"
  shows "PROTO_AddRb rb packet len =
    (sint (of_nat (length (frame (take (unat len) packet))) :: u16), rb')"
proof -
  from assms obtain rb1 where rb1: "RINGBUF_Put rb 0x7E = Some rb1"
    and all: "put_all RINGBUF_Put rb1 (proto_escape (take (unat len) packet) @ [0x7F]) = Some rb'"
    by (auto simp: frame_def split: option.splits)
  then show ?thesis
    using AddRb_loop_puts [of rb1 "take (unat len) packet" 2]
    by (simp add: PROTO_AddRb_def length_frame)
qed

lemma AddRb_None:
  assumes "put_all RINGBUF_Put rb (frame (take (unat len) packet)) = None"
  shows "fst (PROTO_AddRb rb packet len) = -1"
proof (cases "RINGBUF_Put rb 0x7E")
  case None
  then show ?thesis by (simp add: PROTO_AddRb_def)
next
  case (Some rb1)
  with assms AddRb_loop_puts [of rb1 "take (unat len) packet" 2] show ?thesis
    by (simp add: PROTO_AddRb_def frame_def)
qed

lemma AddRb_keeps:
  assumes "rb_wf rb"
  shows "rb_keeps rb (snd (PROTO_AddRb rb packet len))" and "rb_wf (snd (PROTO_AddRb rb packet len))"
proof -
  have "rb_keeps rb (snd (PROTO_AddRb rb packet len)) \<and> rb_wf (snd (PROTO_AddRb rb packet len))"
  proof (cases "RINGBUF_Put rb 0x7E")
    case None
    with assms show ?thesis by (simp add: PROTO_AddRb_def)
  next
    case (Some rb1)
    with RINGBUF_Put_step [OF assms Some] AddRb_loop_keeps [of rb1 "take (unat len) packet" 2]
    show ?thesis by (auto simp: PROTO_AddRb_def intro: rb_keeps_trans)
  qed
  then show "rb_keeps rb (snd (PROTO_AddRb rb packet len))"
    and "rb_wf (snd (PROTO_AddRb rb packet len))" by auto
qed

text \<open>\<open>PROTO_Add\<close> writes the same frame into a plain buffer, or reports that it does not fit.\<close>

lemma Add_loop_cases:
  "proto_special b \<Longrightarrow> PROTO_Add_loop out (b # bs) bsize i =
     (if bsize < 2 then (-1, out)
      else PROTO_Add_loop (out @ [0x7D, proto_flip b]) bs (bsize - 2) (i + 2))"
  "\<not> proto_special b \<Longrightarrow> PROTO_Add_loop out (b # bs) bsize i =
     (if bsize < 1 then (-1, out) else PROTO_Add_loop (out @ [b]) bs (bsize - 1) (i + 1))"
  by (simp_all add: proto_special_def proto_flip_def)

lemma Add_loop_fits:
  "int (length (proto_escape bs)) + 1 \<le> bsize \<Longrightarrow>
   PROTO_Add_loop out bs bsize i =
     (sint (i + of_nat (length (proto_escape bs))), out @ proto_escape bs @ [0x7F])"
proof (induction bs arbitrary: out bsize i)
  case (Cons b bs)
  then show ?case
    by (cases "proto_special b")
      (simp_all add: Add_loop_cases algebra_simps del: PROTO_Add_loop.simps)
qed simp

lemma Add_loop_overflows:
  "bsize < int (length (proto_escape bs)) + 1 \<Longrightarrow> fst (PROTO_Add_loop out bs bsize i) = -1"
proof (induction bs arbitrary: out bsize i)
  case (Cons b bs)
  then show ?case
    by (cases "proto_special b")
      (simp_all add: Add_loop_cases algebra_simps del: PROTO_Add_loop.simps)
qed simp

lemma PROTO_Add_frame:
  assumes "take (unat (be16 (packet ! 1) (packet ! 0))) packet = msg"
  shows "int (length (frame msg)) \<le> bsize \<Longrightarrow>
      PROTO_Add packet bsize = (sint (of_nat (length (frame msg)) :: u16), frame msg)"
    and "bsize < int (length (frame msg)) \<Longrightarrow> fst (PROTO_Add packet bsize) = -1"
  using assms
  by (auto simp: PROTO_Add_def Let_def be16_def or.commute length_frame frame_def Add_loop_fits
      Add_loop_overflows)

section \<open>Parsing\<close>

lemma PROTO_ParseRb_loop_step:
  assumes "rb_wf rb" and "rb_list rb = b # bs"
  shows "\<exists>rb'. rb_wf rb' \<and> rb_list rb' = bs \<and> rb_capacity rb' = rb_capacity rb \<and>
     (\<forall>p. PROTO_ParseRb_loop rb p =
        (let (ret, p') = PROTO_ParseByte p b
         in if ret = 0 then (0, rb', p', Some (dataLen p')) else PROTO_ParseRb_loop rb' p'))"
proof -
  from rb.get_cons [OF assms] obtain rb' where rb': "RINGBUF_Get rb = Some (b, rb')"
    "rb_wf rb'" "rb_list rb' = bs" "rb_capacity rb' = rb_capacity rb" by auto
  then have "PROTO_ParseRb_loop rb p =
      (let (ret, p') = PROTO_ParseByte p b
       in if ret = 0 then (0, rb', p', Some (dataLen p')) else PROTO_ParseRb_loop rb' p')" for p
    by (subst PROTO_ParseRb_loop.simps) simp
  with rb' show ?thesis by blast
qed

text \<open>Inside a frame the parser appends each unescaped byte until the buffer is full.\<close>

definition parser_store :: "u8 \<Rightarrow> proto_parser \<Rightarrow> proto_parser" where
  "parser_store v p =
     (if dataLen p < bufSize p
      then p\<lparr>pp_buf := (pp_buf p)[dataLen p := v], dataLen := dataLen p + 1\<rparr> else p)"

lemma ParseByte_in_frame:
  assumes "isBegin p" and "\<not> isEsc p"
  shows "\<not> proto_special b \<Longrightarrow> PROTO_ParseByte p b = (-1, parser_store b p)"
    and "PROTO_ParseByte p 0x7D = (-1, p\<lparr>isEsc := True\<rparr>)"
    and "\<not> proto_special c \<Longrightarrow>
      PROTO_ParseByte (p\<lparr>isEsc := True\<rparr>) c = (-1, parser_store (proto_flip c) p)"
    and "\<exists>p'. PROTO_ParseByte p 0x7F = (0, p') \<and> dataLen p' = dataLen p \<and> pp_buf p' = pp_buf p"
proof -
  have same: "p\<lparr>isEsc := False\<rparr> = p" using assms(2) by (cases p) simp
  show "\<not> proto_special b \<Longrightarrow> PROTO_ParseByte p b = (-1, parser_store b p)"
    using assms same
    by (auto simp: PROTO_ParseByte_def proto_special_def parser_store_def Let_def)
  show "\<not> proto_special c \<Longrightarrow>
      PROTO_ParseByte (p\<lparr>isEsc := True\<rparr>) c = (-1, parser_store (proto_flip c) p)"
    using assms same
    by (auto simp: PROTO_ParseByte_def proto_special_def parser_store_def proto_flip_def Let_def)
qed (auto simp: PROTO_ParseByte_def)

lemma parser_store_fields [simp]:
  "isBegin (parser_store v p) = isBegin p" "isEsc (parser_store v p) = isEsc p"
  "bufSize (parser_store v p) = bufSize p" "length (pp_buf (parser_store v p)) = length (pp_buf p)"
  by (simp_all add: parser_store_def)

text \<open>What a whole message leaves in the buffer of the parser.\<close>

definition parser_filled :: "bytes \<Rightarrow> proto_parser \<Rightarrow> proto_parser \<Rightarrow> bool" where
  "parser_filled msg p p' \<longleftrightarrow>
     dataLen p' = min (bufSize p) (dataLen p + length msg) \<and>
     pp_buf p' = put_bytes (pp_buf p) (dataLen p) (take (bufSize p - dataLen p) msg)"

lemma put_bytes_update:
  "n < length buf \<Longrightarrow> put_bytes (buf[n := v]) (Suc n) xs = put_bytes buf n (v # xs)"
  by (simp add: put_bytes_def take_Suc_conv_app_nth)

lemma parser_filled_Cons:
  assumes "parser_filled msg (parser_store v p) p'"
    and "dataLen p \<le> bufSize p" and "bufSize p \<le> length (pp_buf p)"
  shows "parser_filled (v # msg) p p'"
proof (cases "dataLen p < bufSize p")
  case True
  then obtain k where "bufSize p - dataLen p = Suc k" "bufSize p - Suc (dataLen p) = k"
    by (metis Suc_diff_Suc)
  with True assms show ?thesis
    by (auto simp: parser_filled_def parser_store_def put_bytes_update)
qed (use assms in \<open>auto simp: parser_filled_def parser_store_def\<close>)

lemma ParseRb_loop_body:
  assumes "rb_wf rb" and "rb_list rb = proto_escape msg @ 0x7F # rest"
    and "isBegin p" and "\<not> isEsc p" and "dataLen p \<le> bufSize p" and "bufSize p \<le> length (pp_buf p)"
  shows "\<exists>rb' p'. PROTO_ParseRb_loop rb p = (0, rb', p', Some (dataLen p')) \<and> rb_wf rb' \<and>
     rb_list rb' = rest \<and> rb_capacity rb' = rb_capacity rb \<and> parser_filled msg p p'"
  using assms
proof (induction msg arbitrary: rb p)
  case Nil
  then obtain rb' where "rb_wf rb'" "rb_list rb' = rest" "rb_capacity rb' = rb_capacity rb"
    "PROTO_ParseRb_loop rb p = (let (ret, p') = PROTO_ParseByte p 0x7F
         in if ret = 0 then (0, rb', p', Some (dataLen p')) else PROTO_ParseRb_loop rb' p')"
    using PROTO_ParseRb_loop_step [of rb "0x7F" rest] by auto
  with ParseByte_in_frame(4) [OF Nil(3,4)] Nil(5) show ?case
    by (auto simp: parser_filled_def)
next
  case (Cons b msg)
  have fill: "dataLen (parser_store v p) \<le> bufSize p" for v
    using Cons.prems(5) by (simp add: parser_store_def)
  show ?case
  proof (cases "proto_special b")
    case True
    then have fp: "\<not> proto_special (proto_flip b)" "proto_flip (proto_flip b) = b"
      using proto.flip_plain proto.flip_flip by auto
    from True Cons.prems(2)
    have l: "rb_list rb = 0x7D # proto_flip b # proto_escape msg @ 0x7F # rest" by simp
    from PROTO_ParseRb_loop_step [OF Cons.prems(1) l]
    obtain r1 where r1: "rb_wf r1" "rb_list r1 = proto_flip b # proto_escape msg @ 0x7F # rest"
      "rb_capacity r1 = rb_capacity rb"
      "PROTO_ParseRb_loop rb p = PROTO_ParseRb_loop r1 (p\<lparr>isEsc := True\<rparr>)"
      by (auto simp: ParseByte_in_frame(2) [OF Cons.prems(3,4)])
    from PROTO_ParseRb_loop_step [OF r1(1,2)]
    obtain r2 where r2: "rb_wf r2" "rb_list r2 = proto_escape msg @ 0x7F # rest"
      "rb_capacity r2 = rb_capacity r1"
      "PROTO_ParseRb_loop r1 (p\<lparr>isEsc := True\<rparr>) = PROTO_ParseRb_loop r2 (parser_store b p)"
      by (auto simp: ParseByte_in_frame(3) [OF Cons.prems(3,4) fp(1)] fp(2))
    from Cons.IH [of r2 "parser_store b p"] r1 r2 Cons.prems fill show ?thesis
      by (auto intro: parser_filled_Cons)
  next
    case False
    with Cons.prems(2) have l: "rb_list rb = b # proto_escape msg @ 0x7F # rest" by simp
    from PROTO_ParseRb_loop_step [OF Cons.prems(1) l]
    obtain r1 where r1: "rb_wf r1" "rb_list r1 = proto_escape msg @ 0x7F # rest"
      "rb_capacity r1 = rb_capacity rb"
      "PROTO_ParseRb_loop rb p = PROTO_ParseRb_loop r1 (parser_store b p)"
      by (auto simp: ParseByte_in_frame(1) [OF Cons.prems(3,4) False])
    from Cons.IH [of r1 "parser_store b p"] r1 Cons.prems fill show ?thesis
      by (auto intro: parser_filled_Cons)
  qed
qed

text \<open>
  \<open>PROTO_ParseRb\<close> takes the first frame off the ring and stores its message, cut to the
  size of the caller's buffer, whatever the uninitialised \<open>isBegin\<close> of the parser.
\<close>

lemma ParseRb_frame:
  assumes "rb_wf rb" and "rb_list rb = frame msg @ rest" and "maxLen \<le> length buf"
  shows "\<exists>rb'. PROTO_ParseRb stack rb buf maxLen =
      (0, rb', put_bytes buf 0 (take maxLen msg), Some (min maxLen (length msg))) \<and>
    rb_wf rb' \<and> rb_list rb' = rest \<and> rb_capacity rb' = rb_capacity rb"
proof -
  define p where "p = PROTO_Init stack False buf maxLen"
  define p1 where "p1 = p\<lparr>dataLen := 0, isEsc := False, isBegin := True\<rparr>"
  have "rb_list rb = 0x7E # proto_escape msg @ 0x7F # rest"
    using assms(2) by (simp add: frame_def)
  from PROTO_ParseRb_loop_step [OF assms(1) this]
  obtain r1 where r1: "rb_wf r1" "rb_list r1 = proto_escape msg @ 0x7F # rest"
    "rb_capacity r1 = rb_capacity rb" "PROTO_ParseRb_loop rb p = PROTO_ParseRb_loop r1 p1"
    by (auto simp: PROTO_ParseByte_def p1_def)
  have "isBegin p1" "\<not> isEsc p1" "dataLen p1 = 0" "bufSize p1 = maxLen" "pp_buf p1 = buf"
    by (simp_all add: p1_def p_def PROTO_Init_def)
  with ParseRb_loop_body [OF r1(1,2), of p1] assms(3) r1(3,4) show ?thesis
    by (auto simp: PROTO_ParseRb_def p_def parser_filled_def)
qed

lemma ParseRb_empty:
  assumes "rb_wf rb" and "rb_list rb = []"
  shows "PROTO_ParseRb stack rb buf maxLen = (-1, rb, buf, None)"
  using rb.get_empty [OF assms]
  by (simp add: PROTO_ParseRb_def PROTO_ParseRb_loop.simps PROTO_Init_def)

end
