(* ===== verification/MsgQueue.thy ===== *)
theory MsgQueue
  imports Proto
begin

text \<open>
  The message queue of \<open>mqtt/queue.c\<close>: framed messages in a ring buffer. Its
  specification is the locale \<open>msg_queue\<close>, a FIFO of messages bounded by the sum of their
  framed lengths, in which a refused message leaves the queue as it was. The heap
  (\<open>os_zalloc\<close>) is a parameter: it returns \<open>None\<close> or a zeroed block.
\<close>

section \<open>The interface\<close>

fun puts_all :: "('q \<Rightarrow> 'm \<Rightarrow> bool \<times> 'q) \<Rightarrow> 'q \<Rightarrow> 'm list \<Rightarrow> bool \<times> 'q" where
  "puts_all puts q [] = (True, q)"
| "puts_all puts q (m # ms) =
     (let (ok, q') = puts q m in if ok then puts_all puts q' ms else (False, q'))"

locale msg_queue =
  fixes puts :: "'q \<Rightarrow> 'm \<Rightarrow> bool \<times> 'q"
    and gets :: "'q \<Rightarrow> ('m \<times> 'q) option"
    and holds :: "'q \<Rightarrow> 'm list \<Rightarrow> bool"
    and cost :: "'m \<Rightarrow> nat"
    and room :: "'q \<Rightarrow> nat"
    and fits :: "'m \<Rightarrow> bool"
  assumes puts_ok: "holds q ms \<Longrightarrow> fits m \<Longrightarrow> sum_list (map cost ms) + cost m \<le> room q \<Longrightarrow>
      \<exists>q'. puts q m = (True, q') \<and> holds q' (ms @ [m]) \<and> room q' = room q"
    and puts_full: "holds q ms \<Longrightarrow> fits m \<Longrightarrow> room q < sum_list (map cost ms) + cost m \<Longrightarrow>
      \<exists>q'. puts q m = (False, q') \<and> holds q' ms \<and> room q' = room q"
    and gets_empty: "holds q [] \<Longrightarrow> gets q = None"
    and gets_head: "holds q (m # ms) \<Longrightarrow> fits m \<Longrightarrow>
      \<exists>q'. gets q = Some (m, q') \<and> holds q' ms \<and> room q' = room q"
begin

lemma puts_cases:
  assumes "holds q ms" and "fits m"
  obtains q' where "puts q m = (True, q')" "holds q' (ms @ [m])" "room q' = room q"
    "sum_list (map cost ms) + cost m \<le> room q"
  | q' where "puts q m = (False, q')" "holds q' ms" "room q' = room q"
    "room q < sum_list (map cost ms) + cost m"
  using puts_ok [OF assms] puts_full [OF assms] by (meson not_le)

lemma puts_accepts_iff:
  assumes "holds q ms" and "fits m"
  shows "fst (puts q m) \<longleftrightarrow> sum_list (map cost ms) + cost m \<le> room q"
  by (rule puts_cases [OF assms]) auto

lemma puts_all_ok:
  "holds q ms \<Longrightarrow> (\<forall>m \<in> set ns. fits m) \<Longrightarrow> sum_list (map cost (ms @ ns)) \<le> room q \<Longrightarrow>
   \<exists>q'. puts_all puts q ns = (True, q') \<and> holds q' (ms @ ns) \<and> room q' = room q"
proof (induction ns arbitrary: q ms)
  case (Cons n ns)
  then obtain q' where q': "puts q n = (True, q')" "holds q' (ms @ [n])" "room q' = room q"
    using puts_ok [of q ms n] by auto
  with Cons.prems Cons.IH [of q' "ms @ [n]"] show ?case by (simp add: algebra_simps)
qed simp

lemma get_n_ok:
  "holds q (ms @ ns) \<Longrightarrow> (\<forall>m \<in> set ms. fits m) \<Longrightarrow>
   \<exists>q'. get_n gets q (length ms) = Some (ms, q') \<and> holds q' ns \<and> room q' = room q"
proof (induction ms arbitrary: q)
  case (Cons m ms)
  then obtain q' where "gets q = Some (m, q')" "holds q' (ms @ ns)" "room q' = room q"
    using gets_head [of q m "ms @ ns"] by auto
  with Cons.prems Cons.IH [of q'] show ?case by auto
qed simp

lemma fifo:
  assumes "holds q []" and "\<forall>m \<in> set ms. fits m" and "sum_list (map cost ms) \<le> room q"
  shows "\<exists>q' q''. puts_all puts q ms = (True, q') \<and> get_n gets q' (length ms) = Some (ms, q'') \<and>
           holds q'' []"
  using puts_all_ok [OF assms(1,2)] get_n_ok [of _ ms "[]"] assms by fastforce

end

section \<open>The functions of queue.c\<close>

record queue =
  q_buf :: "bytes option"
  q_rb :: ringbuf

definition QUEUE_Init :: "(int \<Rightarrow> bytes option) \<Rightarrow> queue \<Rightarrow> int \<Rightarrow> queue" where
  "QUEUE_Init zalloc queue bufferSize =
     (let queue = queue\<lparr>q_buf := zalloc bufferSize\<rparr>
      in case RINGBUF_Init (Some (q_rb queue)) (q_buf queue) bufferSize of
           None \<Rightarrow> queue
         | Some rb \<Rightarrow> queue\<lparr>q_rb := rb\<rparr>)"

text \<open>
  The result of \<open>PROTO_AddRb\<close> is converted to \<open>uint32_t\<close> before it is compared with -1,
  and back to \<open>int32_t\<close> on return.
\<close>

definition QUEUE_Puts :: "queue \<Rightarrow> bytes \<Rightarrow> u16 \<Rightarrow> int \<times> queue" where
  "QUEUE_Puts queue buffer len =
     (let (r, rb) = PROTO_AddRb (q_rb queue) buffer len;
          ret = (word_of_int r :: u32);
          queue' = queue\<lparr>q_rb := rb\<rparr>
      in (sint ret,
          if ret = -1 then queue'\<lparr>q_rb := rb_rollback (q_rb queue) rb\<rparr> else queue'))"

definition QUEUE_Gets ::
  "proto_parser \<Rightarrow> queue \<Rightarrow> bytes \<Rightarrow> nat \<Rightarrow> int \<times> queue \<times> bytes \<times> nat option" where
  "QUEUE_Gets stack queue buffer maxLen =
     (let (ret, rb, buffer', len) = PROTO_ParseRb stack (q_rb queue) buffer maxLen
      in (ret, queue\<lparr>q_rb := rb\<rparr>, buffer', len))"

definition QUEUE_IsEmpty :: "queue \<Rightarrow> bool" where
  "QUEUE_IsEmpty queue = (fill_cnt (q_rb queue) \<le> 0)"

section \<open>Refinement to the list of messages\<close>

definition queue_holds :: "queue \<Rightarrow> bytes list \<Rightarrow> bool" where
  "queue_holds q ms \<longleftrightarrow>
     rb_wf (q_rb q) \<and> rb_list (q_rb q) = concat (map frame ms) \<and> rb_capacity (q_rb q) < 2 ^ 15"

definition queue_room :: "queue \<Rightarrow> nat" where
  "queue_room q = rb_capacity (q_rb q)"

lemma length_frames: "length (concat (map frame ms)) = sum_list (map (length \<circ> frame) ms)"
  by (simp add: length_concat comp_def)

lemma rb_list_le_capacity: "rb_wf r \<Longrightarrow> length (rb_list r) \<le> rb_capacity r"
  by (auto simp: rb_wf_def rb_capacity_def)

lemma sint_small_u16: "n < 2 ^ 15 \<Longrightarrow> sint (of_nat n :: u16) = int n"
  by (simp add: signed_of_nat signed_take_bit_int_eq_self)

lemma sint_small_u32: "0 \<le> k \<Longrightarrow> k < 2 ^ 31 \<Longrightarrow> sint (word_of_int k :: u32) = k"
  by (simp add: signed_of_int signed_take_bit_int_eq_self)

lemma QUEUE_Init_holds:
  assumes "zalloc sz = Some buf" and "int (length buf) = sz" and "2 \<le> sz" and "sz < 2 ^ 15"
  shows "queue_holds (QUEUE_Init zalloc q sz) [] \<and> queue_room (QUEUE_Init zalloc q sz) = nat sz"
  using RINGBUF_Init_wf [OF assms(3,2), of "q_rb q"] assms
  by (auto simp: QUEUE_Init_def Let_def queue_holds_def queue_room_def nat_less_iff)

lemma QUEUE_Puts_fits:
  assumes h: "queue_holds q ms" and len: "length msg = unat len"
    and fits: "sum_list (map (length \<circ> frame) ms) + length (frame msg) \<le> queue_room q"
  shows "\<exists>q'. QUEUE_Puts q msg len = (int (length (frame msg)), q') \<and>
     queue_holds q' (ms @ [msg]) \<and> queue_room q' = queue_room q"
proof -
  from h have wf: "rb_wf (q_rb q)" and l: "rb_list (q_rb q) = concat (map frame ms)"
    and cap: "rb_capacity (q_rb q) < 2 ^ 15"
    by (simp_all add: queue_holds_def)
  from fits have "length (rb_list (q_rb q)) + length (frame msg) \<le> rb_capacity (q_rb q)"
    unfolding l length_frames queue_room_def by simp
  from rb.put_all_fits [OF wf this] obtain rb' where rb':
    "put_all RINGBUF_Put (q_rb q) (frame msg) = Some rb'" "rb_wf rb'"
    "rb_list rb' = rb_list (q_rb q) @ frame msg" "rb_capacity rb' = rb_capacity (q_rb q)" by auto
  from fits cap have small: "length (frame msg) < 2 ^ 15" by (simp add: queue_room_def)
  have "PROTO_AddRb (q_rb q) msg len = (int (length (frame msg)), rb')"
    using AddRb_Some [of "q_rb q" len msg rb'] rb'(1) len sint_small_u16 [OF small] by simp
  moreover have "sint (word_of_int (int (length (frame msg))) :: u32) = int (length (frame msg))"
    using small by (intro sint_small_u32) auto
  moreover from this have "(word_of_int (int (length (frame msg))) :: u32) \<noteq> -1"
    by (metis of_nat_0_le_iff signed_minus_1 not_numeral_le_zero neg_0_le_iff_le not_one_le_zero)
  ultimately show ?thesis
    using rb' l cap by (auto simp: QUEUE_Puts_def queue_holds_def queue_room_def)
qed

lemma QUEUE_Puts_full:
  assumes h: "queue_holds q ms" and len: "length msg = unat len"
    and full: "queue_room q < sum_list (map (length \<circ> frame) ms) + length (frame msg)"
  shows "\<exists>q'. QUEUE_Puts q msg len = (-1, q') \<and> queue_holds q' ms \<and> queue_room q' = queue_room q"
proof -
  from h have wf: "rb_wf (q_rb q)" and l: "rb_list (q_rb q) = concat (map frame ms)"
    by (simp_all add: queue_holds_def)
  from full have "rb_capacity (q_rb q) < length (rb_list (q_rb q)) + length (frame msg)"
    unfolding l length_frames queue_room_def by simp
  then have "put_all RINGBUF_Put (q_rb q) (frame msg) = None"
    by (intro rb.put_all_overflows [OF wf rb_list_le_capacity [OF wf]])
  then have "fst (PROTO_AddRb (q_rb q) msg len) = -1"
    using AddRb_None [of "q_rb q" len msg] len by simp
  then show ?thesis
    using rb_rollback_keeps [OF wf AddRb_keeps(1) [OF wf, of msg len]] h
    by (auto simp: QUEUE_Puts_def queue_holds_def queue_room_def split: prod.splits)
qed

lemma QUEUE_Gets_head:
  assumes "queue_holds q (msg # ms)" and "maxLen \<le> length buf"
  shows "\<exists>q'. QUEUE_Gets stack q buf maxLen =
      (0, q', put_bytes buf 0 (take maxLen msg), Some (min maxLen (length msg))) \<and>
    queue_holds q' ms \<and> queue_room q' = queue_room q"
  using ParseRb_frame [of "q_rb q" msg "concat (map frame ms)" maxLen buf stack] assms
  by (auto simp: queue_holds_def queue_room_def QUEUE_Gets_def)

lemma QUEUE_Gets_empty:
  assumes "queue_holds q []"
  shows "QUEUE_Gets stack q buf maxLen = (-1, q, buf, None)"
  using ParseRb_empty [of "q_rb q"] assms by (simp add: queue_holds_def QUEUE_Gets_def)

lemma frame_nonempty [simp]: "frame m \<noteq> []"
  by (simp add: frame_def)

lemma QUEUE_IsEmpty_holds: "queue_holds q ms \<Longrightarrow> QUEUE_IsEmpty q \<longleftrightarrow> ms = []"
  using length_rb_list [of "q_rb q"]
  by (cases ms) (auto simp: queue_holds_def QUEUE_IsEmpty_def length_frame)

text \<open>
  Restoring \<open>p_r\<close> and \<open>fill_cnt\<close> after a \<open>QUEUE_Gets\<close> puts the frame back: the peek
  the MQTT client uses before it knows that a send succeeded.
\<close>

definition queue_unread :: "queue \<Rightarrow> queue \<Rightarrow> queue" where
  "queue_unread q0 q = q\<lparr>q_rb := (q_rb q)\<lparr>p_r := p_r (q_rb q0), fill_cnt := fill_cnt (q_rb q0)\<rparr>\<rparr>"

lemma ParseRb_loop_frame:
  "PROTO_ParseRb_loop rb p = (ret, rb', p', n) \<Longrightarrow>
   p_o rb' = p_o rb \<and> p_w rb' = p_w rb \<and> rb_size rb' = rb_size rb"
proof (induction rb p arbitrary: ret rb' p' n rule: PROTO_ParseRb_loop.induct)
  case (1 rb p)
  show ?case
  proof (cases "RINGBUF_Get rb")
    case None
    with 1(2) show ?thesis by (simp add: PROTO_ParseRb_loop.simps)
  next
    case (Some a)
    obtain c r1 where a: "a = (c, r1)" by (cases a)
    obtain k p1 where k: "PROTO_ParseByte p c = (k, p1)" by (cases "PROTO_ParseByte p c")
    from Some a have get: "RINGBUF_Get rb = Some (c, r1)" by simp
    note fr = RINGBUF_Get_frame [OF get]
    show ?thesis
    proof (cases "k = 0")
      case True
      with 1(2) get k fr show ?thesis by (simp add: PROTO_ParseRb_loop.simps)
    next
      case False
      with 1(2) get k have "PROTO_ParseRb_loop r1 p1 = (ret, rb', p', n)"
        by (subst (asm) PROTO_ParseRb_loop.simps) simp
      with 1(1) [OF get refl k [symmetric] refl False] fr show ?thesis by simp
    qed
  qed
qed

lemma queue_unread_Gets: "QUEUE_Gets stack q buf n = (ret, q', buf', len) \<Longrightarrow> queue_unread q q' = q"
  by (auto simp: QUEUE_Gets_def PROTO_ParseRb_def queue_unread_def split: prod.splits
      dest!: ParseRb_loop_frame)

section \<open>The queue of messages of at most n bytes\<close>

text \<open>The client always reads into a buffer of \<open>n\<close> bytes and never queues a longer message.\<close>

definition mq_puts :: "queue \<Rightarrow> bytes \<Rightarrow> bool \<times> queue" where
  "mq_puts q m = (let (r, q') = QUEUE_Puts q m (of_nat (length m)) in (r \<noteq> -1, q'))"

definition mq_gets :: "proto_parser \<Rightarrow> bytes \<Rightarrow> queue \<Rightarrow> (bytes \<times> queue) option" where
  "mq_gets stack buf q =
     (let (r, q', buf', len) = QUEUE_Gets stack q buf (length buf)
      in if r = 0 then Some (take (the len) buf', q') else None)"

lemma unat_of_nat_length: "n < 2 ^ 16 \<Longrightarrow> unat (of_nat n :: u16) = n"
  by (simp add: unsigned_of_nat take_bit_nat_eq_self)

lemma mq_msg_queue:
  assumes "length buf < 2 ^ 16"
  shows "msg_queue mq_puts (mq_gets stack buf) queue_holds (length \<circ> frame) queue_room
           (\<lambda>m. length m \<le> length buf)"
proof (unfold_locales, goal_cases)
  case (1 q ms m)
  with assms have "length m = unat (of_nat (length m) :: u16)" by (simp add: unat_of_nat_length)
  from QUEUE_Puts_fits [OF 1(1) this] 1(3) show ?case by (auto simp: mq_puts_def)
next
  case (2 q ms m)
  with assms have "length m = unat (of_nat (length m) :: u16)" by (simp add: unat_of_nat_length)
  from QUEUE_Puts_full [OF 2(1) this] 2(3) show ?case by (auto simp: mq_puts_def)
next
  case (3 q)
  then show ?case by (simp add: mq_gets_def QUEUE_Gets_empty)
next
  case (4 q m ms)
  with QUEUE_Gets_head [OF 4(1), of "length buf" buf stack] show ?case
    by (auto simp: mq_gets_def put_bytes_def min_def)
qed

text \<open>The client's work buffer has \<open>MQTT_BUF_SIZE\<close> = 2048 bytes.\<close>

interpretation mq: msg_queue mq_puts "mq_gets stack (replicate 2048 0)" queue_holds
  "length \<circ> frame" queue_room "\<lambda>m. length m \<le> 2048" for stack
  using mq_msg_queue [of "replicate 2048 0"] by simp

section \<open>Properties\<close>

text \<open>
  C7: messages come out of the queue in the order and with the contents they were put in.
  For every list of messages of at most 2048 bytes whose framed lengths sum to at most the
  queue's size, putting them all into a freshly initialised queue succeeds, and reading as
  many messages gives exactly that list and an empty queue, whatever bytes they contain
  (the three framing bytes included) and whatever the parser's uninitialised state.
\<close>

theorem queue_fifo_order:
  assumes "zalloc sz = Some buf" and "int (length buf) = sz" and "2 \<le> sz" and "sz < 2 ^ 15"
    and "\<forall>m \<in> set ms. length m \<le> 2048"
    and "int (sum_list (map (length \<circ> frame) ms)) \<le> sz"
  shows "\<exists>q' q''. puts_all mq_puts (QUEUE_Init zalloc q sz) ms = (True, q') \<and>
     get_n (mq_gets stack (replicate 2048 0)) q' (length ms) = Some (ms, q'') \<and> QUEUE_IsEmpty q''"
proof -
  from QUEUE_Init_holds [of zalloc sz buf q, OF assms(1,2,3,4)]
  have "queue_holds (QUEUE_Init zalloc q sz) []" "queue_room (QUEUE_Init zalloc q sz) = nat sz"
    by auto
  with mq.fifo [OF this(1) assms(5)] assms(3,6) show ?thesis
    using QUEUE_IsEmpty_holds by fastforce
qed

definition ex_zalloc :: "int \<Rightarrow> bytes option" where
  "ex_zalloc n = Some (replicate (nat n) 0)"

definition ex_queue :: queue where
  "ex_queue = \<lparr>q_buf = None, q_rb = \<lparr>p_o = [], p_r = 0, p_w = 0, fill_cnt = 0, rb_size = 0\<rparr>\<rparr>"

definition ex_parser :: proto_parser where
  "ex_parser = \<lparr>pp_buf = [], bufSize = 0, dataLen = 0, isEsc = True, isBegin = True,
     callback = False, cb_calls = 0\<rparr>"

lemma queue_fifo_order_witness:
  "\<exists>q' q''. puts_all mq_puts (QUEUE_Init ex_zalloc ex_queue 16) [[1, 0x7E, 2], [], [0x7D]] = (True, q') \<and>
     get_n (mq_gets ex_parser (replicate 2048 0)) q' 3 = Some ([[1, 0x7E, 2], [], [0x7D]], q'') \<and>
     QUEUE_IsEmpty q''"
  using queue_fifo_order [of ex_zalloc 16 "replicate 16 0" "[[1, 0x7E, 2], [], [0x7D]]" ex_queue
      ex_parser]
  by (simp add: ex_zalloc_def frame_def proto_special_def numeral_3_eq_3 del: puts_all.simps get_n.simps)

text \<open>
  C11: \<open>QUEUE_Puts\<close> is all or nothing. On a queue that holds the messages \<open>ms\<close> it
  appends the message and returns its framed length when the frame fits in the free space;
  otherwise it returns -1 and the queue still holds exactly \<open>ms\<close>, although
  \<open>PROTO_AddRb\<close> had written part of the frame.
\<close>

theorem QUEUE_Puts_all_or_nothing:
  assumes "queue_holds q ms" and "length msg = unat len"
  shows "\<exists>q'. queue_room q' = queue_room q \<and>
     (if sum_list (map (length \<circ> frame) ms) + length (frame msg) \<le> queue_room q
      then QUEUE_Puts q msg len = (int (length (frame msg)), q') \<and> queue_holds q' (ms @ [msg])
      else QUEUE_Puts q msg len = (-1, q') \<and> queue_holds q' ms)"
  proof (cases "sum_list (map (length \<circ> frame) ms) + length (frame msg) \<le> queue_room q")
  case True
  with QUEUE_Puts_fits [OF assms True] show ?thesis by auto
next
  case False
  with QUEUE_Puts_full [OF assms] show ?thesis by (simp add: not_le) blast
qed

lemma QUEUE_Puts_all_or_nothing_witness:
  "\<exists>q'. QUEUE_Puts (QUEUE_Init ex_zalloc ex_queue 4) [1, 0x7F, 2] 3 = (-1, q') \<and> queue_holds q' []"
proof -
  have "queue_holds (QUEUE_Init ex_zalloc ex_queue 4) []"
    and "queue_room (QUEUE_Init ex_zalloc ex_queue 4) = 4"
    using QUEUE_Init_holds [of ex_zalloc 4 "replicate 4 0" ex_queue] by (auto simp: ex_zalloc_def)
  with QUEUE_Puts_all_or_nothing [OF this(1), of "[1, 0x7F, 2]" 3] show ?thesis
    by (auto simp: frame_def proto_special_def)
qed

text \<open>
  \<open>QUEUE_Gets\<close> returns the oldest message, cut to the caller's buffer, removes its
  whole frame even when the message was cut, and leaves the rest of the queue; restoring
  the read pointer and the fill count afterwards gives the queue before the read.
\<close>

theorem QUEUE_Gets_removes_head:
  assumes "queue_holds q (msg # ms)" and "maxLen \<le> length buf"
  shows "\<exists>q'. QUEUE_Gets stack q buf maxLen =
      (0, q', take maxLen msg @ drop (min maxLen (length msg)) buf, Some (min maxLen (length msg))) \<and>
    queue_holds q' ms \<and> queue_unread q q' = q"
proof -
  from QUEUE_Gets_head [OF assms, of stack] obtain q' where q': "QUEUE_Gets stack q buf maxLen =
      (0, q', put_bytes buf 0 (take maxLen msg), Some (min maxLen (length msg)))"
    "queue_holds q' ms" by auto
  from queue_unread_Gets [OF q'(1)] q' show ?thesis
    by (auto simp: put_bytes_def min.commute)
qed

lemma QUEUE_Gets_removes_head_witness:
  "\<exists>q'. QUEUE_Gets ex_parser (snd (QUEUE_Puts (QUEUE_Init ex_zalloc ex_queue 8) [5, 0x7E, 6] 3)) [0, 0] 2 =
     (0, q', [5, 0x7E], Some 2) \<and> queue_holds q' []"
proof -
  have "queue_holds (QUEUE_Init ex_zalloc ex_queue 8) []"
    and "queue_room (QUEUE_Init ex_zalloc ex_queue 8) = 8"
    using QUEUE_Init_holds [of ex_zalloc 8 "replicate 8 0" ex_queue] by (auto simp: ex_zalloc_def)
  with QUEUE_Puts_fits [OF this(1), of "[5, 0x7E, 6]" 3]
  have "queue_holds (snd (QUEUE_Puts (QUEUE_Init ex_zalloc ex_queue 8) [5, 0x7E, 6] 3)) [[5, 0x7E, 6]]"
    by (auto simp: frame_def proto_special_def)
  from QUEUE_Gets_removes_head [OF this, of 2 "[0, 0]" ex_parser] show ?thesis by auto
qed

end
