(* ===== verification/MqttMsg.thy ===== *)
theory MqttMsg
  imports Prelude
begin

text \<open>
  The MQTT packet encoder and the accessors of received packets: \<open>mqtt/mqtt_msg.c\<close> and the
  inline getters of \<open>mqtt/include/mqtt_msg.h\<close>, for \<open>PROTOCOL_NAMEv31\<close>. A pointer into a
  buffer is an offset. Each \<open>mqtt_msg_...\<close> returns the address of the connection's own
  \<open>message\<close>, which is never NULL: here it returns the connection.

  The specification of the encoders is \<open>packet\<close>: the fixed header, the MQTT remaining
  length and the body. \<open>conn_ok\<close> is the invariant of the connection while a packet is
  built, \<open>conn_body\<close> the body written so far.
\<close>

section \<open>Types and constants\<close>

abbreviation (input) MQTT_MSG_TYPE_CONNECT :: nat where "MQTT_MSG_TYPE_CONNECT \<equiv> 1"
abbreviation (input) MQTT_MSG_TYPE_CONNACK :: nat where "MQTT_MSG_TYPE_CONNACK \<equiv> 2"
abbreviation (input) MQTT_MSG_TYPE_PUBLISH :: nat where "MQTT_MSG_TYPE_PUBLISH \<equiv> 3"
abbreviation (input) MQTT_MSG_TYPE_PUBACK :: nat where "MQTT_MSG_TYPE_PUBACK \<equiv> 4"
abbreviation (input) MQTT_MSG_TYPE_PUBREC :: nat where "MQTT_MSG_TYPE_PUBREC \<equiv> 5"
abbreviation (input) MQTT_MSG_TYPE_PUBREL :: nat where "MQTT_MSG_TYPE_PUBREL \<equiv> 6"
abbreviation (input) MQTT_MSG_TYPE_PUBCOMP :: nat where "MQTT_MSG_TYPE_PUBCOMP \<equiv> 7"
abbreviation (input) MQTT_MSG_TYPE_SUBSCRIBE :: nat where "MQTT_MSG_TYPE_SUBSCRIBE \<equiv> 8"
abbreviation (input) MQTT_MSG_TYPE_SUBACK :: nat where "MQTT_MSG_TYPE_SUBACK \<equiv> 9"
abbreviation (input) MQTT_MSG_TYPE_UNSUBSCRIBE :: nat where "MQTT_MSG_TYPE_UNSUBSCRIBE \<equiv> 10"
abbreviation (input) MQTT_MSG_TYPE_UNSUBACK :: nat where "MQTT_MSG_TYPE_UNSUBACK \<equiv> 11"
abbreviation (input) MQTT_MSG_TYPE_PINGREQ :: nat where "MQTT_MSG_TYPE_PINGREQ \<equiv> 12"
abbreviation (input) MQTT_MSG_TYPE_PINGRESP :: nat where "MQTT_MSG_TYPE_PINGRESP \<equiv> 13"
abbreviation (input) MQTT_MSG_TYPE_DISCONNECT :: nat where "MQTT_MSG_TYPE_DISCONNECT \<equiv> 14"

record mqtt_connection =
  msg_data :: "nat option"
  msg_length :: nat
  message_id :: u16
  cbuffer :: bytes
  buffer_length :: nat

record mqtt_connect_info =
  client_id :: "bytes option"
  username :: "bytes option"
  password :: "bytes option"
  will_topic :: "bytes option"
  will_message :: "bytes option"
  keepalive :: u32
  will_qos :: int
  will_retain :: int
  clean_session :: int

section \<open>Building blocks\<close>

definition append_bytes :: "mqtt_connection \<Rightarrow> bytes \<Rightarrow> mqtt_connection" where
  "append_bytes c xs =
     c\<lparr>cbuffer := put_bytes (cbuffer c) (msg_length c) xs, msg_length := msg_length c + length xs\<rparr>"

text \<open>\<open>append_string\<close> returns -1 and changes nothing when the string does not fit: \<open>None\<close>.\<close>

definition append_string :: "mqtt_connection \<Rightarrow> bytes \<Rightarrow> nat \<Rightarrow> mqtt_connection option" where
  "append_string c str len =
     (if msg_length c + len + 2 > buffer_length c then None
      else Some (append_bytes c ([hi8 (of_nat len), lo8 (of_nat len)] @ take len str)))"

text \<open>The loop of \<open>append_message_id\<close>: the counter skips 0 when it wraps.\<close>

function next_message_id :: "u16 \<Rightarrow> u16 \<Rightarrow> u16 \<times> u16" where
  "next_message_id counter mid =
     (if mid = 0 then next_message_id (counter + 1) (counter + 1) else (counter, mid))"
  by pat_completeness auto
termination
proof (relation "measure (\<lambda>(c, m). if m \<noteq> 0 then 0 else if c + 1 = 0 then 2 else 1)", goal_cases)
  case (2 counter mid)
  then show ?case by (cases "counter = - 1") (auto simp: add_eq_0_iff)
qed simp

declare next_message_id.simps [simp del]

definition append_message_id :: "mqtt_connection \<Rightarrow> u16 \<Rightarrow> u16 \<times> mqtt_connection" where
  "append_message_id c mid =
     (let (counter, mid) = next_message_id (message_id c) mid;
          c = c\<lparr>message_id := counter\<rparr>
      in if msg_length c + 2 > buffer_length c then (0, c)
         else (mid, append_bytes c [hi8 mid, lo8 mid]))"

definition init_message :: "mqtt_connection \<Rightarrow> mqtt_connection" where
  "init_message c = c\<lparr>msg_length := 3\<rparr>"

definition fail_message :: "mqtt_connection \<Rightarrow> mqtt_connection" where
  "fail_message c = c\<lparr>msg_data := Some 0, msg_length := 0\<rparr>"

definition fixed_header :: "nat \<Rightarrow> int \<Rightarrow> int \<Rightarrow> int \<Rightarrow> u8" where
  "fixed_header type dup qos retain =
     push_bit 4 (of_nat type AND 0x0f) OR push_bit 3 (of_int dup AND 1) OR
     push_bit 1 (of_int qos AND 3) OR (of_int retain AND 1)"

definition fini_message :: "mqtt_connection \<Rightarrow> nat \<Rightarrow> int \<Rightarrow> int \<Rightarrow> int \<Rightarrow> mqtt_connection" where
  "fini_message c type dup qos retain =
     (let remaining_length = msg_length c - 3
      in if remaining_length > 127
         then c\<lparr>cbuffer := put_bytes (cbuffer c) 0 [fixed_header type dup qos retain,
                  0x80 OR of_nat (remaining_length mod 128), of_nat (remaining_length div 128)],
                msg_length := remaining_length + 3, msg_data := Some 0\<rparr>
         else c\<lparr>cbuffer := put_bytes (cbuffer c) 1 [fixed_header type dup qos retain,
                  of_nat remaining_length],
                msg_length := remaining_length + 2, msg_data := Some 1\<rparr>)"

definition mqtt_msg_init :: "bytes \<Rightarrow> nat \<Rightarrow> mqtt_connection" where
  "mqtt_msg_init buffer buflen =
     \<lparr>msg_data = None, msg_length = 0, message_id = 0, cbuffer = buffer, buffer_length = buflen\<rparr>"

text \<open>The bytes of the finished message, \<open>message.data\<close> to \<open>message.length\<close>.\<close>

definition mqtt_bytes :: "mqtt_connection \<Rightarrow> bytes" where
  "mqtt_bytes c = (case msg_data c of None \<Rightarrow> [] | Some off \<Rightarrow> sub_bytes (cbuffer c) off (msg_length c))"

section \<open>Encoders\<close>

definition c_empty :: "bytes option \<Rightarrow> bool" where
  "c_empty s = (case s of None \<Rightarrow> True | Some str \<Rightarrow> str = [])"

definition or_flags :: "mqtt_connection \<Rightarrow> u8 \<Rightarrow> mqtt_connection" where
  "or_flags c f = c\<lparr>cbuffer := (cbuffer c)[12 := cbuffer c ! 12 OR f]\<rparr>"

text \<open>
  The stages of \<open>mqtt_msg_connect\<close>: the variable header at offset 3 (its flags are at
  offset 12), the client id, the will, the user name and the password. \<open>Inl\<close> carries the
  connection on which \<open>fail_message\<close> is called.
\<close>

definition connect_header :: "mqtt_connection \<Rightarrow> mqtt_connect_info \<Rightarrow> mqtt_connection + mqtt_connection" where
  "connect_header c info =
     (let c = init_message c
      in if msg_length c + 12 > buffer_length c then Inl c
         else
           let c = append_bytes c ([0, 6, 0x4D, 0x51, 0x49, 0x73, 0x64, 0x70, 3, 0,
                     ucast (drop_bit 8 (keepalive info)), ucast (keepalive info AND 0xff)]);
               c = (if clean_session info \<noteq> 0 then or_flags c 2 else c)
           in if c_empty (client_id info) then Inl c
              else
                let s = the (client_id info)
                in case append_string c s (length s) of None \<Rightarrow> Inl c | Some c \<Rightarrow> Inr c)"

definition connect_will :: "mqtt_connection \<Rightarrow> mqtt_connect_info \<Rightarrow> mqtt_connection + mqtt_connection" where
  "connect_will c info =
     (if c_empty (will_topic info) then Inr c
      else
        let t = the (will_topic info); m = the (will_message info)
        in case append_string c t (length t) of
             None \<Rightarrow> Inl c
           | Some c \<Rightarrow>
               (case append_string c m (length m) of
                  None \<Rightarrow> Inl c
                | Some c \<Rightarrow>
                    let c = or_flags c 4;
                        c = (if will_retain info \<noteq> 0 then or_flags c 32 else c)
                    in Inr (or_flags c (push_bit 3 (of_int (will_qos info) AND 3)))))"

definition connect_credential ::
  "mqtt_connection \<Rightarrow> bytes option \<Rightarrow> u8 \<Rightarrow> mqtt_connection + mqtt_connection" where
  "connect_credential c s flag =
     (if c_empty s then Inr c
      else case append_string c (the s) (length (the s)) of
             None \<Rightarrow> Inl c
           | Some c \<Rightarrow> Inr (or_flags c flag))"

definition mqtt_msg_connect :: "mqtt_connection \<Rightarrow> mqtt_connect_info \<Rightarrow> mqtt_connection" where
  "mqtt_msg_connect c info =
     (case connect_header c info of
        Inl c \<Rightarrow> fail_message c
      | Inr c \<Rightarrow>
          (case connect_will c info of
             Inl c \<Rightarrow> fail_message c
           | Inr c \<Rightarrow>
               (case connect_credential c (username info) 128 of
                  Inl c \<Rightarrow> fail_message c
                | Inr c \<Rightarrow>
                    (case connect_credential c (password info) 64 of
                       Inl c \<Rightarrow> fail_message c
                     | Inr c \<Rightarrow> fini_message c MQTT_MSG_TYPE_CONNECT 0 0 0))))"

text \<open>The second result of the next three encoders is the value stored through \<open>message_id\<close>.\<close>

definition mqtt_msg_publish ::
  "mqtt_connection \<Rightarrow> bytes option \<Rightarrow> bytes \<Rightarrow> nat \<Rightarrow> int \<Rightarrow> int \<Rightarrow> mqtt_connection \<times> u16 option" where
  "mqtt_msg_publish c topic data data_length qos retain =
     (let c = init_message c
      in if c_empty topic then (fail_message c, None)
         else case append_string c (the topic) (length (the topic)) of
           None \<Rightarrow> (fail_message c, None)
         | Some c \<Rightarrow>
             let (mid, c) = (if qos > 0 then append_message_id c 0 else (0, c))
             in if qos > 0 \<and> mid = 0 then (fail_message c, Some mid)
                else if msg_length c + data_length > buffer_length c then (fail_message c, Some mid)
                else (fini_message (append_bytes c (take data_length data))
                        MQTT_MSG_TYPE_PUBLISH 0 qos retain, Some mid))"

definition msg_with_id :: "mqtt_connection \<Rightarrow> u16 \<Rightarrow> nat \<Rightarrow> int \<Rightarrow> mqtt_connection" where
  "msg_with_id c mid type qos =
     (let (mid, c) = append_message_id (init_message c) mid
      in if mid = 0 then fail_message c else fini_message c type 0 qos 0)"

definition mqtt_msg_puback :: "mqtt_connection \<Rightarrow> u16 \<Rightarrow> mqtt_connection" where
  "mqtt_msg_puback c mid = msg_with_id c mid MQTT_MSG_TYPE_PUBACK 0"

definition mqtt_msg_pubrec :: "mqtt_connection \<Rightarrow> u16 \<Rightarrow> mqtt_connection" where
  "mqtt_msg_pubrec c mid = msg_with_id c mid MQTT_MSG_TYPE_PUBREC 0"

definition mqtt_msg_pubrel :: "mqtt_connection \<Rightarrow> u16 \<Rightarrow> mqtt_connection" where
  "mqtt_msg_pubrel c mid = msg_with_id c mid MQTT_MSG_TYPE_PUBREL 1"

definition mqtt_msg_pubcomp :: "mqtt_connection \<Rightarrow> u16 \<Rightarrow> mqtt_connection" where
  "mqtt_msg_pubcomp c mid = msg_with_id c mid MQTT_MSG_TYPE_PUBCOMP 0"

definition mqtt_msg_subscribe ::
  "mqtt_connection \<Rightarrow> bytes option \<Rightarrow> int \<Rightarrow> mqtt_connection \<times> u16 option" where
  "mqtt_msg_subscribe c topic qos =
     (let c = init_message c
      in if c_empty topic then (fail_message c, None)
         else
           let (mid, c) = append_message_id c 0
           in if mid = 0 then (fail_message c, Some mid)
              else case append_string c (the topic) (length (the topic)) of
                None \<Rightarrow> (fail_message c, Some mid)
              | Some c \<Rightarrow>
                  if msg_length c + 1 > buffer_length c then (fail_message c, Some mid)
                  else (fini_message (append_bytes c [of_int qos])
                          MQTT_MSG_TYPE_SUBSCRIBE 0 1 0, Some mid))"

definition mqtt_msg_unsubscribe ::
  "mqtt_connection \<Rightarrow> bytes option \<Rightarrow> mqtt_connection \<times> u16 option" where
  "mqtt_msg_unsubscribe c topic =
     (let c = init_message c
      in if c_empty topic then (fail_message c, None)
         else
           let (mid, c) = append_message_id c 0
           in if mid = 0 then (fail_message c, Some mid)
              else case append_string c (the topic) (length (the topic)) of
                None \<Rightarrow> (fail_message c, Some mid)
              | Some c \<Rightarrow> (fini_message c MQTT_MSG_TYPE_UNSUBSCRIBE 0 1 0, Some mid))"

definition mqtt_msg_pingreq :: "mqtt_connection \<Rightarrow> mqtt_connection" where
  "mqtt_msg_pingreq c = fini_message (init_message c) MQTT_MSG_TYPE_PINGREQ 0 0 0"

definition mqtt_msg_pingresp :: "mqtt_connection \<Rightarrow> mqtt_connection" where
  "mqtt_msg_pingresp c = fini_message (init_message c) MQTT_MSG_TYPE_PINGRESP 0 0 0"

definition mqtt_msg_disconnect :: "mqtt_connection \<Rightarrow> mqtt_connection" where
  "mqtt_msg_disconnect c = fini_message (init_message c) MQTT_MSG_TYPE_DISCONNECT 0 0 0"

section \<open>Accessors of a received packet\<close>

definition mqtt_get_type :: "bytes \<Rightarrow> nat" where
  "mqtt_get_type buffer = unat (drop_bit 4 (buffer ! 0 AND 0xf0))"

definition mqtt_get_connect_return_code :: "bytes \<Rightarrow> nat" where
  "mqtt_get_connect_return_code buffer = unat (buffer ! 3)"

definition mqtt_get_dup :: "bytes \<Rightarrow> nat" where
  "mqtt_get_dup buffer = unat (drop_bit 3 (buffer ! 0 AND 0x08))"

definition mqtt_get_qos :: "bytes \<Rightarrow> nat" where
  "mqtt_get_qos buffer = unat (drop_bit 1 (buffer ! 0 AND 0x06))"

definition mqtt_get_retain :: "bytes \<Rightarrow> nat" where
  "mqtt_get_retain buffer = unat (buffer ! 0 AND 0x01)"

text \<open>
  The loop the accessors share: it runs over the remaining length field and returns the
  offset after it with its value. The caller has bounded the field to four bytes, so the
  shifted sum stays below \<open>2 ^ 28\<close> and does not overflow the C \<open>int\<close>.
\<close>

function rl_loop :: "bytes \<Rightarrow> nat \<Rightarrow> nat \<Rightarrow> nat \<Rightarrow> nat \<times> nat" where
  "rl_loop buffer len i totlen =
     (if i < len then
        let totlen = totlen + push_bit (7 * (i - 1)) (unat (buffer ! i AND 0x7f))
        in if buffer ! i AND 0x80 = 0 then (i + 1, totlen) else rl_loop buffer len (i + 1) totlen
      else (i, totlen))"
  by pat_completeness auto
termination by (relation "measure (\<lambda>(_, len, i, _). len - i)") auto

declare rl_loop.simps [simp del]

definition mqtt_get_total_length :: "bytes \<Rightarrow> nat \<Rightarrow> nat" where
  "mqtt_get_total_length buffer len = (let (i, totlen) = rl_loop buffer len 1 0 in totlen + i)"

text \<open>The result is the pointer returned and the value left in \<open>*length\<close>.\<close>

definition mqtt_get_publish_topic :: "bytes \<Rightarrow> nat \<Rightarrow> nat option \<times> nat" where
  "mqtt_get_publish_topic buffer len =
     (let (i, totlen) = rl_loop buffer len 1 0
      in if i + 2 \<ge> len then (None, len)
         else
           let topiclen = unat (be16 (buffer ! i) (buffer ! (i + 1))); i = i + 2
           in if i + topiclen > len then (None, len) else (Some i, topiclen))"

definition mqtt_get_publish_data :: "bytes \<Rightarrow> nat \<Rightarrow> nat option \<times> nat" where
  "mqtt_get_publish_data buffer blength =
     (let (i, totlen) = rl_loop buffer blength 1 0; totlen = totlen + i
      in if i + 2 \<ge> blength then (None, 0)
         else
           let topiclen = unat (be16 (buffer ! i) (buffer ! (i + 1))); i = i + 2
           in if i + topiclen > blength then (None, 0)
              else
                let i = i + topiclen
                in if mqtt_get_qos buffer > 0 \<and> i + 2 \<ge> blength then (None, 0)
                   else
                     let i = (if mqtt_get_qos buffer > 0 then i + 2 else i)
                     in if totlen < i then (None, 0)
                        else (Some i, if totlen \<le> blength then totlen - i else blength - i))"

definition mqtt_get_id :: "bytes \<Rightarrow> nat \<Rightarrow> u16" where
  "mqtt_get_id buffer len =
     (if len < 1 then 0
      else if mqtt_get_type buffer = MQTT_MSG_TYPE_PUBLISH then
        let (i, _) = rl_loop buffer len 1 0
        in if i + 2 \<ge> len then 0
           else
             let topiclen = unat (be16 (buffer ! i) (buffer ! (i + 1))); i = i + 2
             in if i + topiclen \<ge> len then 0
                else
                  let i = i + topiclen
                  in if mqtt_get_qos buffer > 0
                     then if i + 2 \<ge> len then 0 else be16 (buffer ! i) (buffer ! (i + 1))
                     else 0
      else if mqtt_get_type buffer \<in> {MQTT_MSG_TYPE_PUBACK, MQTT_MSG_TYPE_PUBREC,
          MQTT_MSG_TYPE_PUBREL, MQTT_MSG_TYPE_PUBCOMP, MQTT_MSG_TYPE_SUBACK,
          MQTT_MSG_TYPE_UNSUBACK, MQTT_MSG_TYPE_SUBSCRIBE}
      then if len \<ge> 4 \<and> buffer ! 1 AND 0x80 = 0 then be16 (buffer ! 2) (buffer ! 3) else 0
      else 0)"

section \<open>The specification of the wire format\<close>

text \<open>
  The remaining length of MQTT: seven bits a byte, least significant group first, the top
  bit set on all but the last byte.
\<close>

fun remaining_length :: "nat \<Rightarrow> bytes" where
  "remaining_length n =
     (if n < 128 then [of_nat n] else of_nat (128 + n mod 128) # remaining_length (n div 128))"

declare remaining_length.simps [simp del]

definition packet :: "nat \<Rightarrow> int \<Rightarrow> int \<Rightarrow> int \<Rightarrow> bytes \<Rightarrow> bytes" where
  "packet type dup qos retain body =
     fixed_header type dup qos retain # remaining_length (length body) @ body"

definition mqtt_string :: "bytes \<Rightarrow> bytes" where
  "mqtt_string s = [hi8 (of_nat (length s)), lo8 (of_nat (length s))] @ s"

lemma length_mqtt_string [simp]: "length (mqtt_string s) = length s + 2"
  by (simp add: mqtt_string_def)

lemma remaining_length_small: "n \<le> 127 \<Longrightarrow> remaining_length n = [of_nat n]"
  by (simp add: remaining_length.simps)

lemma or_128: "(0x80 :: u8) OR of_nat (n mod 128) = of_nat (128 + n mod 128)"
proof -
  have "take_bit 7 (of_nat (n mod 128) :: u8) = of_nat (n mod 128)"
    by (simp add: take_bit_of_nat take_bit_nat_eq_self)
  then have "(0x80 :: u8) AND of_nat (n mod 128) = (0x80 :: u8) AND take_bit 7 (of_nat (n mod 128))" by simp
  also have "\<dots> = 0"
  proof -
    have "bit (0x80::u8) i \<Longrightarrow> i = 7" for i
      using bit_push_bit_iff[of 7 "1::u8" i] by (simp add: push_bit_eq_mult bit_1_iff)
    then show ?thesis
    by (intro bit_word_eqI) (auto simp: bit_simps)
  qed
  finally show ?thesis by (simp add: disjunctive_add_eq_or [symmetric])
qed

lemma remaining_length_two:
  "127 < n \<Longrightarrow> n \<le> 16383 \<Longrightarrow>
   remaining_length n = [0x80 OR of_nat (n mod 128), of_nat (n div 128)]"
  by (simp add: remaining_length.simps [of n] remaining_length_small or_128)

lemma length_remaining_length:
  "n \<le> 16383 \<Longrightarrow> length (remaining_length n) = (if n \<le> 127 then 1 else 2)"
  by (simp add: remaining_length_small remaining_length_two)

lemma length_packet: "length body \<le> 127 \<Longrightarrow> length (packet t d q r body) = 2 + length body"
  "127 < length body \<Longrightarrow> length body \<le> 16383 \<Longrightarrow> length (packet t d q r body) = 3 + length body"
  by (simp_all add: packet_def length_remaining_length)

lemma header_type: "drop_bit 4 (fixed_header t d q r AND 0xf0) = of_nat t AND 0x0f"
  unfolding fixed_header_def u8_eq_iff by (simp add: bit_simps)

lemma header_qos: "drop_bit 1 (fixed_header t d q r AND 0x06) = of_int q AND 3"
  unfolding fixed_header_def u8_eq_iff by (simp add: bit_simps bit_u8_double)

lemma header_retain: "fixed_header t d q r AND 0x01 = of_int r AND 1"
  unfolding fixed_header_def u8_eq_iff by (simp add: bit_simps)

lemma header_dup: "drop_bit 3 (fixed_header t d q r AND 0x08) = of_int d AND 1"
  unfolding fixed_header_def u8_eq_iff by (simp add: bit_simps)

lemma u8_and_mask: "(x :: u8) AND 0x0f = take_bit 4 x" "x AND 3 = take_bit 2 x"
  "x AND 1 = take_bit 1 x"
  by (simp_all only: take_bit_eq_mask mask_eq_exp_minus_1) simp_all

lemma packet_header:
  "t < 16 \<Longrightarrow> mqtt_get_type (packet t d q r body @ rest) = t"
  "0 \<le> q \<Longrightarrow> q < 4 \<Longrightarrow> mqtt_get_qos (packet t d q r body @ rest) = nat q"
proof -
  show "mqtt_get_type (packet t d q r body @ rest) = t" if "t < 16"
    using that by (simp only: packet_def mqtt_get_type_def header_type u8_and_mask append_Cons nth_Cons_0)
      (simp add: take_bit_of_nat unsigned_of_nat take_bit_nat_eq_self)
  show "mqtt_get_qos (packet t d q r body @ rest) = nat q" if "0 \<le> q" "q < 4"
  proof -
    from that obtain n where n: "q = int n" "n < 4" by (metis nonneg_int_cases of_nat_less_iff of_nat_numeral)
    then show ?thesis
      by (simp only: packet_def mqtt_get_qos_def header_qos u8_and_mask append_Cons nth_Cons_0)
        (simp add: take_bit_of_nat unsigned_of_nat take_bit_nat_eq_self)
  qed
qed

lemma packet_flags:
  "mqtt_get_dup (packet t 0 q r body @ rest) = 0"
  "mqtt_get_retain (packet t d q r body @ rest) = nat (r mod 2)"
proof -
  show "mqtt_get_dup (packet t 0 q r body @ rest) = 0"
    by (simp only: packet_def mqtt_get_dup_def header_dup append_Cons nth_Cons_0) simp
  have "uint (take_bit 1 (of_int r :: u8)) = take_bit 1 r"
  proof -
    have "uint (of_int r :: u8) = take_bit 8 r" by (simp add: take_bit_eq_mod uint_word_of_int)
    then show ?thesis by (simp only: unsigned_take_bit_eq) (simp add: take_bit_take_bit)
  qed
  also have "\<dots> = r mod 2" by (simp add: take_bit_eq_mod)
  finally have "nat (uint (take_bit 1 (of_int r :: u8))) = nat (r mod 2)" by (simp only:)
  then have "unat (of_int r AND 1 :: u8) = nat (r mod 2)" by (simp only: u8_and_mask unat_eq_nat_uint)
  then show "mqtt_get_retain (packet t d q r body @ rest) = nat (r mod 2)"
    by (simp only: packet_def mqtt_get_retain_def header_retain append_Cons nth_Cons_0)
qed

section \<open>Parsing the fixed header\<close>

lemma byte_and_127: "unat ((of_nat n :: u8) AND 127) = n mod 128"
proof -
  have "(of_nat n :: u8) AND 127 = take_bit 7 (of_nat n)"
    by (simp only: take_bit_eq_mask mask_eq_exp_minus_1) simp
  then show ?thesis
    by (simp only: unsigned_take_bit_eq unsigned_of_nat) (simp add: take_bit_eq_mod mod_mod_cancel)
qed

lemma byte_and_128: "(of_nat n :: u8) AND 128 = 0 \<longleftrightarrow> even (n div 128)"
proof -
  have "(128 :: u8) = 2 ^ 7" by simp
  then show ?thesis
    by (simp only: and_exp_eq_0_iff_not_bit bit_of_nat_iff) (simp add: bit_iff_odd)
qed

lemma rl_loop_packet:
  assumes "length body \<le> 16383" and "m = packet t d q r body"
  shows "rl_loop (m @ rest) (length m) 1 0 = (length m - length body, length body)"
proof (cases "length body \<le> 127")
  case True
  then have "even (length body div 128)" by simp
  then show ?thesis
    using True assms(2)
    by (simp add: packet_def remaining_length_small rl_loop.simps byte_and_127 byte_and_128)
next
  case False
  define n where "n = length body"
  have n: "127 < n" "n \<le> 16383" using False assms(1) by (simp_all add: n_def)
  have "(128 + n mod 128) div 128 = n mod 128 div 128 + 1" by (rule div_add_self1) simp
  then have "odd ((128 + n mod 128) div 128)" by simp
  moreover have "even (n div 128 div 128)"
    using n by (simp add: div_mult2_eq [symmetric])
  moreover have m: "m = fixed_header t d q r # of_nat (128 + n mod 128) # of_nat (n div 128) # body"
    using n by (simp add: assms(2) packet_def remaining_length_two or_128 flip: n_def)
  moreover have "(n div 128) mod 128 = n div 128" using n by simp
  ultimately show ?thesis
    using n_def
    by (simp add: rl_loop.simps [of _ _ "Suc 0"] rl_loop.simps [of _ _ "Suc (Suc 0)"]
        byte_and_127 byte_and_128 push_bit_eq_mult del: of_nat_add)
qed

lemma fixed_fields:
  assumes "length body \<le> 16383" and "m = packet t d q r body" and "i < length body"
  shows "(m @ rest) ! (length m - length body + i) = body ! i"
proof -
  have "m = take (length m - length body) m @ body"
    by (simp add: assms(2) packet_def)
  moreover have "length (take (length m - length body) m) = length m - length body" by simp
  ultimately have "m ! (length m - length body + i) = body ! i"
    by (metis nth_append_length_plus)
  moreover have "length m - length body + i < length m"
    using assms(3) by (auto simp: assms(2) packet_def)
  ultimately show ?thesis by (simp add: nth_append)
qed

section \<open>Parsing a publish packet\<close>

definition id_field :: "int \<Rightarrow> u16 \<Rightarrow> bytes" where
  "id_field qos mid = (if qos > 0 then [hi8 mid, lo8 mid] else [])"

definition publish_body :: "bytes \<Rightarrow> int \<Rightarrow> u16 \<Rightarrow> bytes \<Rightarrow> bytes" where
  "publish_body topic qos mid data = mqtt_string topic @ id_field qos mid @ data"

definition publish_packet :: "bytes \<Rightarrow> int \<Rightarrow> int \<Rightarrow> u16 \<Rightarrow> bytes \<Rightarrow> bytes" where
  "publish_packet topic qos retain mid data =
     packet MQTT_MSG_TYPE_PUBLISH 0 qos retain (publish_body topic qos mid data)"

lemma length_id_field: "length (id_field qos mid) = (if qos > 0 then 2 else 0)"
  by (simp add: id_field_def)

lemma length_publish_body:
  "length (publish_body topic qos mid data) =
     2 + length topic + (if qos > 0 then 2 else 0) + length data"
  by (simp add: publish_body_def length_id_field)

text \<open>What the accessors see of a buffer that starts with a publish packet.\<close>

lemma publish_packet_fields:
  assumes small: "length (publish_body topic qos mid data) \<le> 16383"
    and m: "m = publish_packet topic qos retain mid data"
    and h: "h = length m - length (publish_body topic qos mid data)"
  shows "rl_loop (m @ rest) (length m) 1 0 = (h, length (publish_body topic qos mid data))"
    and "length m = h + 2 + length topic + (if qos > 0 then 2 else 0) + length data"
    and "unat (be16 ((m @ rest) ! h) ((m @ rest) ! Suc h)) = length topic"
    and "sub_bytes (m @ rest) (h + 2) (length topic) = topic"
    and "qos > 0 \<Longrightarrow> be16 ((m @ rest) ! (h + 2 + length topic)) ((m @ rest) ! Suc (h + 2 + length topic)) = mid"
    and "sub_bytes (m @ rest) (h + 2 + length topic + length (id_field qos mid)) (length data) = data"
proof -
  let ?body = "publish_body topic qos mid data"
  from m have mp: "m = packet MQTT_MSG_TYPE_PUBLISH 0 qos retain ?body" by (simp add: publish_packet_def)
  show "rl_loop (m @ rest) (length m) 1 0 = (h, length ?body)"
    using rl_loop_packet [OF small mp] h by simp
  have "length ?body \<le> length m" by (simp add: mp packet_def)
  then have mb: "length m = h + length ?body" using h by simp
  show "length m = h + 2 + length topic + (if qos > 0 then 2 else 0) + length data"
    using mb by (simp add: length_publish_body)
  define pre where "pre = fixed_header MQTT_MSG_TYPE_PUBLISH 0 qos retain # remaining_length (length ?body)"
  have split: "m = pre @ ?body" by (simp add: pre_def mp packet_def)
  then have lp: "length pre = h" using mb by simp
  have tl: "length topic < 2 ^ 16" using small by (simp add: length_publish_body split: if_splits)
  have be: "be16 (hi8 (of_nat n)) (lo8 (of_nat n)) = of_nat n" for n by simp
  have nth: "(m @ rest) ! (h + i) = (?body @ rest) ! i" for i
    using lp by (simp add: split nth_append)
  have "(m @ rest) ! h = hi8 (of_nat (length topic))" "(m @ rest) ! Suc h = lo8 (of_nat (length topic))"
    using nth [of 0] nth [of 1] by (simp_all add: publish_body_def mqtt_string_def)
  then show "unat (be16 ((m @ rest) ! h) ((m @ rest) ! Suc h)) = length topic"
    using tl by (simp add: unsigned_of_nat take_bit_nat_eq_self)
  show "sub_bytes (m @ rest) (h + 2) (length topic) = topic"
    using lp by (simp add: sub_bytes_def split publish_body_def mqtt_string_def)
  show "sub_bytes (m @ rest) (h + 2 + length topic + length (id_field qos mid)) (length data) = data"
    using lp by (simp add: sub_bytes_def split publish_body_def mqtt_string_def)
  show "be16 ((m @ rest) ! (h + 2 + length topic)) ((m @ rest) ! Suc (h + 2 + length topic)) = mid"
    if "qos > 0"
  proof -
    have "(m @ rest) ! (h + (2 + length topic)) = hi8 mid" "(m @ rest) ! (h + (3 + length topic)) = lo8 mid"
      using that by (simp_all only: nth)
        (simp_all add: publish_body_def mqtt_string_def id_field_def nth_append)
    then show ?thesis by (simp add: numeral_3_eq_3 add.commute add.left_commute)
  qed
qed

lemma publish_packet_accessors:
  assumes topic: "topic \<noteq> []" and qos: "0 \<le> qos" "qos < 4"
    and small: "length (publish_body topic qos mid data) \<le> 16383"
    and m: "m = publish_packet topic qos retain mid data"
    and h: "h = length m - length (publish_body topic qos mid data)"
  shows "mqtt_get_total_length (m @ rest) (length m) = length m"
    and "mqtt_get_publish_topic (m @ rest) (length m) = (Some (h + 2), length topic)"
    and "mqtt_get_publish_data (m @ rest) (length m) =
      (if qos > 0 \<and> data = [] then (None, 0)
       else (Some (h + 2 + length topic + length (id_field qos mid)), length data))"
    and "mqtt_get_id (m @ rest) (length m) = (if qos > 0 \<and> data \<noteq> [] then mid else 0)"
proof -
  note f = publish_packet_fields [OF small m h]
  have ty: "mqtt_get_type (m @ rest) = MQTT_MSG_TYPE_PUBLISH" and q: "mqtt_get_qos (m @ rest) = nat qos"
    using qos packet_header by (simp_all add: m publish_packet_def)
  have tl: "0 < length topic" using topic by simp
  show "mqtt_get_total_length (m @ rest) (length m) = length m"
    unfolding mqtt_get_total_length_def f(1) prod.case using f(2) by (simp add: length_publish_body)
  show "mqtt_get_publish_topic (m @ rest) (length m) = (Some (h + 2), length topic)"
    unfolding mqtt_get_publish_topic_def f(1) prod.case using topic tl f(2,3)
    by (simp add: Let_def del: length_greater_0_conv)
  show "mqtt_get_publish_data (m @ rest) (length m) =
      (if qos > 0 \<and> data = [] then (None, 0)
       else (Some (h + 2 + length topic + length (id_field qos mid)), length data))"
    unfolding mqtt_get_publish_data_def f(1) prod.case q using topic tl f(2,3)
    by (simp add: Let_def length_publish_body length_id_field del: length_greater_0_conv)
  show "mqtt_get_id (m @ rest) (length m) = (if qos > 0 \<and> data \<noteq> [] then mid else 0)"
    unfolding mqtt_get_id_def f(1) prod.case q ty using topic tl f(2,3,5)
    by (simp add: Let_def length_publish_body length_id_field del: length_greater_0_conv)
qed

section \<open>The accessors read inside the message only\<close>

lemma rl_loop_append: "rl_loop (m @ rest) (length m) i n = rl_loop m (length m) i n"
proof (induction m "length m" i n rule: rl_loop.induct)
  case (1 buffer i n)
  show ?case
  proof (cases "i < length buffer")
    case True
    then have "(buffer @ rest) ! i = buffer ! i" by (simp add: nth_append)
    with 1 True show ?thesis by (simp add: rl_loop.simps [of "buffer @ rest"] rl_loop.simps [of buffer] Let_def)
  qed (simp add: rl_loop.simps)
qed

lemma mqtt_get_type_append [simp]: "m \<noteq> [] \<Longrightarrow> mqtt_get_type (m @ rest) = mqtt_get_type m"
  by (simp add: mqtt_get_type_def nth_append)

lemma mqtt_get_qos_append [simp]: "m \<noteq> [] \<Longrightarrow> mqtt_get_qos (m @ rest) = mqtt_get_qos m"
  by (simp add: mqtt_get_qos_def nth_append)

lemma mqtt_get_id_append [simp]:
  "m \<noteq> [] \<Longrightarrow> mqtt_get_id (m @ rest) (length m) = mqtt_get_id m (length m)"
  by (auto simp: mqtt_get_id_def rl_loop_append nth_append Let_def split: prod.splits)

section \<open>The encoders write the packets of the specification\<close>

text \<open>\<open>conn_buf\<close> holds between calls, \<open>conn_ok\<close> while a packet is being built.\<close>

definition conn_buf :: "mqtt_connection \<Rightarrow> bool" where
  "conn_buf c \<longleftrightarrow> length (cbuffer c) = buffer_length c \<and> 3 \<le> buffer_length c \<and> buffer_length c \<le> 16386"

definition conn_ok :: "mqtt_connection \<Rightarrow> bool" where
  "conn_ok c \<longleftrightarrow> conn_buf c \<and> 3 \<le> msg_length c \<and> msg_length c \<le> buffer_length c"

definition conn_body :: "mqtt_connection \<Rightarrow> bytes" where
  "conn_body c = sub_bytes (cbuffer c) 3 (msg_length c - 3)"

definition fresh_id :: "u16 \<Rightarrow> u16" where
  "fresh_id counter = (if counter + 1 = 0 then 1 else counter + 1)"

lemma fresh_id_nonzero [simp]: "fresh_id counter \<noteq> 0"
  by (simp add: fresh_id_def)

lemma next_message_id_eq:
  "next_message_id counter mid = (if mid = 0 then (fresh_id counter, fresh_id counter) else (counter, mid))"
  by (simp add: next_message_id.simps fresh_id_def)

lemma conn_ok_buf: "conn_ok c \<Longrightarrow> conn_buf c"
  by (simp add: conn_ok_def)

lemma init_message_ok:
  assumes "conn_buf c"
  shows "conn_ok (init_message c)" and "conn_body (init_message c) = []"
    and "msg_length (init_message c) = 3" and "buffer_length (init_message c) = buffer_length c"
    and "message_id (init_message c) = message_id c"
  using assms by (simp_all add: conn_ok_def conn_buf_def conn_body_def init_message_def)

lemma append_bytes_frame [simp]:
  "buffer_length (append_bytes c xs) = buffer_length c" "message_id (append_bytes c xs) = message_id c"
  "msg_length (append_bytes c xs) = msg_length c + length xs"
  by (simp_all add: append_bytes_def)

lemma append_bytes_ok:
  assumes "conn_ok c" and "msg_length c + length xs \<le> buffer_length c"
  shows "conn_ok (append_bytes c xs)" and "conn_body (append_bytes c xs) = conn_body c @ xs"
proof -
  from assms have off: "msg_length c + length xs \<le> length (cbuffer c)" and three: "3 \<le> msg_length c"
    by (auto simp: conn_ok_def conn_buf_def)
  then show "conn_ok (append_bytes c xs)"
    using assms by (simp add: conn_ok_def conn_buf_def append_bytes_def)
  show "conn_body (append_bytes c xs) = conn_body c @ xs"
    using three off
    by (simp add: conn_body_def append_bytes_def sub_bytes_def put_bytes_def drop_take)
qed

lemma length_conn_body: "conn_ok c \<Longrightarrow> length (conn_body c) = msg_length c - 3"
  by (simp add: conn_body_def conn_ok_def conn_buf_def)

lemma append_string_cases:
  assumes "conn_ok c"
  obtains (too_long) "append_string c s (length s) = None" "buffer_length c < msg_length c + length s + 2"
  | (fits) c' where "append_string c s (length s) = Some c'" "conn_ok c'"
      "conn_body c' = conn_body c @ mqtt_string s" "msg_length c' = msg_length c + length s + 2"
      "buffer_length c' = buffer_length c" "message_id c' = message_id c"
      "msg_length c + length s + 2 \<le> buffer_length c"
proof (cases "buffer_length c < msg_length c + length s + 2")
  case True
  then show ?thesis using too_long by (simp add: append_string_def)
next
  case False
  let ?c' = "append_bytes c (mqtt_string s)"
  have "append_string c s (length s) = Some ?c'"
    using False by (simp add: append_string_def mqtt_string_def)
  moreover have "msg_length c + length (mqtt_string s) \<le> buffer_length c" using False by simp
  note append_bytes_ok [OF assms this]
  ultimately show ?thesis using fits [of ?c'] False by simp
qed

lemma append_message_id_cases:
  assumes "conn_ok c" and "mid' = (if mid = 0 then fresh_id (message_id c) else mid)"
    and "counter = (if mid = 0 then fresh_id (message_id c) else message_id c)"
  obtains (too_long) "append_message_id c mid = (0, c\<lparr>message_id := counter\<rparr>)"
      "buffer_length c < msg_length c + 2"
  | (fits) c' where "append_message_id c mid = (mid', c')" "conn_ok c'" "mid' \<noteq> 0"
      "conn_body c' = conn_body c @ [hi8 mid', lo8 mid']" "msg_length c' = msg_length c + 2"
      "buffer_length c' = buffer_length c" "message_id c' = counter"
      "msg_length c + 2 \<le> buffer_length c"
proof (cases "buffer_length c < msg_length c + 2")
  case True
  with assms(2,3) show ?thesis
    using too_long by (simp add: append_message_id_def next_message_id_eq split: if_splits)
next
  case False
  define c1 where "c1 = c\<lparr>message_id := counter\<rparr>"
  let ?c' = "append_bytes c1 [hi8 mid', lo8 mid']"
  have c1: "conn_ok c1" "conn_body c1 = conn_body c" "msg_length c1 = msg_length c"
    "buffer_length c1 = buffer_length c" "message_id c1 = counter"
    using assms(1) by (simp_all add: c1_def conn_ok_def conn_buf_def conn_body_def)
  have "append_message_id c mid = (mid', ?c')"
    using False assms(2,3) by (simp add: append_message_id_def next_message_id_eq c1_def)
  moreover have "msg_length c1 + length [hi8 mid', lo8 mid'] \<le> buffer_length c1"
    using False c1 by simp
  note append_bytes_ok [OF c1(1) this]
  ultimately show ?thesis using fits [of ?c'] False c1 assms(2) by simp
qed

lemma fini_message_ok:
  assumes "conn_ok c"
  shows "mqtt_bytes (fini_message c t d q r) = packet t d q r (conn_body c)"
    and "conn_buf (fini_message c t d q r)"
    and "msg_length (fini_message c t d q r) \<noteq> 0"
    and "msg_data (fini_message c t d q r) \<noteq> None"
    and "message_id (fini_message c t d q r) = message_id c"
    and "buffer_length (fini_message c t d q r) = buffer_length c"
proof -
  from assms have c: "length (cbuffer c) = buffer_length c" "3 \<le> msg_length c"
    "msg_length c \<le> buffer_length c" "buffer_length c \<le> 16386"
    by (auto simp: conn_ok_def conn_buf_def)
  have len: "length (conn_body c) = msg_length c - 3" by (rule length_conn_body [OF assms])
  then show "mqtt_bytes (fini_message c t d q r) = packet t d q r (conn_body c)"
    using c
    by (auto simp: mqtt_bytes_def fini_message_def Let_def packet_def conn_body_def sub_bytes_def
        put_bytes_def remaining_length_small remaining_length_two not_less drop_Suc_Cons
        numeral_3_eq_3 numeral_2_eq_2 take_Cons' drop_take)
  show "conn_buf (fini_message c t d q r)"
    using c by (auto simp: fini_message_def Let_def conn_buf_def)
qed (auto simp: fini_message_def Let_def)

lemma fail_message_fields [simp]:
  "msg_length (fail_message c) = 0" "msg_data (fail_message c) \<noteq> None"
  "message_id (fail_message c) = message_id c"
  "buffer_length (fail_message c) = buffer_length c" "conn_buf (fail_message c) = conn_buf c"
  "mqtt_bytes (fail_message c) = []"
  by (simp_all add: fail_message_def conn_buf_def mqtt_bytes_def)

lemma conn_buf_message_id [simp]: "conn_buf (c\<lparr>message_id := n\<rparr>) = conn_buf c"
  by (simp add: conn_buf_def)

text \<open>Publish, the acknowledgements, subscribe and unsubscribe.\<close>

lemma mqtt_msg_publish_fits:
  assumes "conn_buf c" and "topic \<noteq> []"
    and "3 + length (publish_body topic qos mid data) \<le> buffer_length c"
    and "mid = (if qos > 0 then fresh_id (message_id c) else 0)"
  obtains c' where "mqtt_msg_publish c (Some topic) data (length data) qos retain = (c', Some mid)"
    "mqtt_bytes c' = publish_packet topic qos retain mid data" "conn_buf c'" "msg_length c' \<noteq> 0"
    "msg_data c' \<noteq> None" "buffer_length c' = buffer_length c"
    "message_id c' = (if qos > 0 then mid else message_id c)"
proof -
  note i = init_message_ok [OF assms(1)]
  obtain c1 where c1: "append_string (init_message c) topic (length topic) = Some c1" "conn_ok c1"
    "conn_body c1 = mqtt_string topic" "msg_length c1 = length topic + 5"
    "buffer_length c1 = buffer_length c" "message_id c1 = message_id c"
  proof (cases rule: append_string_cases [OF i(1), of topic])
    case 1
    with assms(3) i show ?thesis by (simp add: length_publish_body)
  next
    case (2 c1)
    with i that [of c1] show ?thesis by simp
  qed
  obtain c2 where c2: "(if qos > 0 then append_message_id c1 0 else (0, c1)) = (mid, c2)" "conn_ok c2"
    "conn_body c2 = mqtt_string topic @ id_field qos mid"
    "msg_length c2 = length topic + 5 + (if qos > 0 then 2 else 0)"
    "buffer_length c2 = buffer_length c" "message_id c2 = (if qos > 0 then mid else message_id c)"
  proof (cases "qos > 0")
    case True
    then have *: "mid = (if (0 :: u16) = 0 then fresh_id (message_id c1) else 0)"
      using assms(4) c1 by simp
    show ?thesis
    proof (cases rule: append_message_id_cases [OF c1(2) * refl])
      case 1
      with assms(3) c1 True show ?thesis by (simp add: length_publish_body)
    next
      case (2 c2)
      with that [of c2] c1 True assms(4) show ?thesis by (simp add: id_field_def)
    qed
  next
    case False
    with c1 assms(4) that [of c1] show ?thesis by (simp add: id_field_def)
  qed
  have room: "msg_length c2 + length data \<le> buffer_length c2"
    using assms(3) c2 by (simp add: length_publish_body)
  note a = append_bytes_ok [OF c2(2) room]
  note fm = fini_message_ok [OF a(1), of MQTT_MSG_TYPE_PUBLISH 0 qos retain]
  have "mid \<noteq> 0" if "qos > 0" using that assms(4) by simp
  then have "mqtt_msg_publish c (Some topic) data (length data) qos retain =
      (fini_message (append_bytes c2 data) MQTT_MSG_TYPE_PUBLISH 0 qos retain, Some mid)"
    using assms(2) room by (auto simp: mqtt_msg_publish_def c_empty_def c1(1) c2(1))
  then show ?thesis
    using that fm a(2) c2 by (simp add: publish_packet_def publish_body_def)
qed

lemma mqtt_msg_publish_too_long:
  assumes "conn_buf c" and "buffer_length c < 3 + length (publish_body topic qos mid data)"
  shows "\<exists>c' i. mqtt_msg_publish c (Some topic) data (length data) qos retain = (c', i) \<and>
           msg_length c' = 0 \<and> conn_buf c'"
proof (cases "topic = []")
  case True
  then show ?thesis
    using init_message_ok [OF assms(1)] by (auto simp: mqtt_msg_publish_def c_empty_def conn_ok_buf)
next
  case False
  note i = init_message_ok [OF assms(1)]
  show ?thesis
  proof (cases rule: append_string_cases [OF i(1), of topic])
    case 1
    with False show ?thesis
      using assms(1) i by (auto simp: mqtt_msg_publish_def c_empty_def conn_ok_buf)
  next
    case (2 c1)
    show ?thesis
    proof (cases "qos > 0")
      case True
      with False 2 assms i show ?thesis
        by (cases rule: append_message_id_cases [OF 2(2) refl refl, of 0])
          (auto simp: mqtt_msg_publish_def c_empty_def length_publish_body conn_ok_buf)
    next
      case False
      with \<open>topic \<noteq> []\<close> 2 assms i show ?thesis
        by (auto simp: mqtt_msg_publish_def c_empty_def length_publish_body conn_ok_buf)
    qed
  qed
qed

lemma msg_with_id_packet:
  assumes "conn_buf c" and "5 \<le> buffer_length c"
    and "mid' = (if mid = 0 then fresh_id (message_id c) else mid)"
  shows "mqtt_bytes (msg_with_id c mid t q) = packet t 0 q 0 [hi8 mid', lo8 mid']"
    and "conn_buf (msg_with_id c mid t q)" and "msg_length (msg_with_id c mid t q) \<noteq> 0"
    and "msg_data (msg_with_id c mid t q) \<noteq> None"
    and "buffer_length (msg_with_id c mid t q) = buffer_length c"
    and "message_id (msg_with_id c mid t q) = (if mid = 0 then mid' else message_id c)"
proof -
  note i = init_message_ok [OF assms(1)]
  from assms(3) i have m: "mid' = (if mid = 0 then fresh_id (message_id (init_message c)) else mid)"
    by simp
  obtain c1 where c1: "append_message_id (init_message c) mid = (mid', c1)" "conn_ok c1" "mid' \<noteq> 0"
    "conn_body c1 = [hi8 mid', lo8 mid']" "buffer_length c1 = buffer_length c"
    "message_id c1 = (if mid = 0 then fresh_id (message_id c) else message_id c)"
  proof (cases rule: append_message_id_cases [OF i(1) m refl])
    case 1
    with assms(2) i show ?thesis by simp
  next
    case (2 c1)
    with that [of c1] i show ?thesis by simp
  qed
  then have "msg_with_id c mid t q = fini_message c1 t 0 q 0"
    by (simp add: msg_with_id_def)
  with fini_message_ok [OF c1(2), of t 0 q 0] c1 assms(3)
  show "mqtt_bytes (msg_with_id c mid t q) = packet t 0 q 0 [hi8 mid', lo8 mid']"
    and "conn_buf (msg_with_id c mid t q)" and "msg_length (msg_with_id c mid t q) \<noteq> 0"
    and "msg_data (msg_with_id c mid t q) \<noteq> None"
    and "buffer_length (msg_with_id c mid t q) = buffer_length c"
    and "message_id (msg_with_id c mid t q) = (if mid = 0 then mid' else message_id c)"
    by simp_all
qed

lemma id_packet_accessors:
  assumes "t \<in> {4, 5, 6, 7, 8, 9, 11}" and "length body \<le> 127" and "m = packet t 0 q 0 (hi8 mid # lo8 mid # rest)"
    and "body = hi8 mid # lo8 mid # rest"
  shows "mqtt_get_id (m @ after) (length m) = mid" and "mqtt_get_type (m @ after) = t"
proof -
  show ty: "mqtt_get_type (m @ after) = t"
    using assms(1) unfolding assms(3) by (intro packet_header) auto
  have "(length rest + 2) div 128 = 0" using assms(2,4) by simp
  then have "(of_nat (Suc (Suc (length rest))) :: u8) AND 128 = 0"
    using byte_and_128 [of "length rest + 2"] by simp
  then show "mqtt_get_id (m @ after) (length m) = mid"
    using assms ty by (auto simp: mqtt_get_id_def packet_def remaining_length_small)
qed

lemma mqtt_msg_subscribe_fits:
  assumes "conn_buf c" and "topic \<noteq> []" and "length topic + 8 \<le> buffer_length c"
    and "mid = fresh_id (message_id c)"
  obtains c' where "mqtt_msg_subscribe c (Some topic) qos = (c', Some mid)"
    "mqtt_bytes c' = packet MQTT_MSG_TYPE_SUBSCRIBE 0 1 0 (hi8 mid # lo8 mid # mqtt_string topic @ [of_int qos])"
    "conn_buf c'" "msg_length c' \<noteq> 0" "msg_data c' \<noteq> None" "message_id c' = mid"
proof -
  note i = init_message_ok [OF assms(1)]
  show ?thesis
  proof (cases rule: append_message_id_cases [OF i(1) refl refl, of 0])
    case 1
    with assms(3) i show ?thesis by simp
  next
    case (2 c1)
    with i assms(4) have c1: "append_message_id (init_message c) 0 = (mid, c1)" "conn_ok c1"
      "conn_body c1 = [hi8 mid, lo8 mid]" "msg_length c1 = 5" "buffer_length c1 = buffer_length c"
      "message_id c1 = mid" "mid \<noteq> 0" by simp_all
    show ?thesis
    proof (cases rule: append_string_cases [OF c1(2), of topic])
      case 1
      with assms(3) c1 show ?thesis by simp
    next
      case (2 c2)
      have room: "msg_length c2 + length [of_int qos :: u8] \<le> buffer_length c2"
        using 2 c1 assms(3) by simp
      note a = append_bytes_ok [OF 2(2) room]
      note fm = fini_message_ok [OF a(1), of MQTT_MSG_TYPE_SUBSCRIBE 0 1 0]
      have "mqtt_msg_subscribe c (Some topic) qos =
          (fini_message (append_bytes c2 [of_int qos]) MQTT_MSG_TYPE_SUBSCRIBE 0 1 0, Some mid)"
        using assms(2) room c1 2 by (simp add: mqtt_msg_subscribe_def c_empty_def)
      then show ?thesis using that fm a(2) c1 2 by simp
    qed
  qed
qed

lemma mqtt_msg_unsubscribe_fits:
  assumes "conn_buf c" and "topic \<noteq> []" and "length topic + 7 \<le> buffer_length c"
    and "mid = fresh_id (message_id c)"
  obtains c' where "mqtt_msg_unsubscribe c (Some topic) = (c', Some mid)"
    "mqtt_bytes c' = packet MQTT_MSG_TYPE_UNSUBSCRIBE 0 1 0 (hi8 mid # lo8 mid # mqtt_string topic)"
    "conn_buf c'" "msg_length c' \<noteq> 0" "msg_data c' \<noteq> None" "message_id c' = mid"
proof -
  note i = init_message_ok [OF assms(1)]
  show ?thesis
  proof (cases rule: append_message_id_cases [OF i(1) refl refl, of 0])
    case 1
    with assms(3) i show ?thesis by simp
  next
    case (2 c1)
    with i assms(4) have c1: "append_message_id (init_message c) 0 = (mid, c1)" "conn_ok c1"
      "conn_body c1 = [hi8 mid, lo8 mid]" "msg_length c1 = 5" "buffer_length c1 = buffer_length c"
      "message_id c1 = mid" "mid \<noteq> 0" by simp_all
    show ?thesis
    proof (cases rule: append_string_cases [OF c1(2), of topic])
      case 1
      with assms(3) c1 show ?thesis by simp
    next
      case (2 c2)
      note fm = fini_message_ok [OF 2(2), of MQTT_MSG_TYPE_UNSUBSCRIBE 0 1 0]
      have "mqtt_msg_unsubscribe c (Some topic) =
          (fini_message c2 MQTT_MSG_TYPE_UNSUBSCRIBE 0 1 0, Some mid)"
        using assms(2) c1 2 by (simp add: mqtt_msg_unsubscribe_def c_empty_def)
      then show ?thesis using that fm c1 2 by simp
    qed
  qed
qed

lemma simple_msg_packet:
  assumes "conn_buf c"
  shows "mqtt_bytes (fini_message (init_message c) t d q r) = packet t d q r []"
  using fini_message_ok(1) [OF init_message_ok(1) [OF assms]] init_message_ok(2) [OF assms] by simp

section \<open>Every encoder keeps the buffer invariant\<close>

definition same_buf :: "mqtt_connection \<Rightarrow> mqtt_connection \<Rightarrow> bool" where
  "same_buf c c' \<longleftrightarrow> conn_buf c' \<and> buffer_length c' = buffer_length c"

lemma same_buf_trans: "same_buf a b \<Longrightarrow> same_buf b c \<Longrightarrow> same_buf a c"
  by (simp add: same_buf_def)

lemma same_buf_fail [simp]: "same_buf a (fail_message c) = same_buf a c"
  by (simp add: same_buf_def)

lemma same_buf_init: "conn_buf c \<Longrightarrow> same_buf c (init_message c) \<and> conn_ok (init_message c)"
  by (simp add: same_buf_def init_message_ok conn_ok_buf)

lemma same_buf_append:
  "conn_ok c \<Longrightarrow> msg_length c + n \<le> buffer_length c \<Longrightarrow>
   same_buf c (append_bytes c (take n xs)) \<and> conn_ok (append_bytes c (take n xs))"
  by (simp add: same_buf_def append_bytes_ok conn_ok_buf)

lemma same_buf_string:
  assumes "conn_ok c" and "append_string c s (length s) = Some c'"
  shows "same_buf c c' \<and> conn_ok c'"
  by (cases rule: append_string_cases [OF assms(1), of s]) (use assms in \<open>auto simp: same_buf_def conn_ok_buf\<close>)

lemma same_buf_id:
  assumes "conn_ok c" and "append_message_id c mid = (m, c')"
  shows "same_buf c c' \<and> conn_ok c'"
  by (cases rule: append_message_id_cases [OF assms(1) refl refl, of mid])
    (use assms in \<open>auto simp: same_buf_def conn_ok_buf conn_ok_def\<close>)

lemma same_buf_fini: "conn_ok c \<Longrightarrow> same_buf c (fini_message c t d q r)"
  by (simp add: same_buf_def fini_message_ok)

lemma same_buf_or_flags: "conn_ok c \<Longrightarrow> same_buf c (or_flags c f) \<and> conn_ok (or_flags c f)"
  by (simp add: same_buf_def or_flags_def conn_ok_def conn_buf_def)

lemmas same_buf_steps = same_buf_init same_buf_append same_buf_string same_buf_id same_buf_fini
  same_buf_or_flags

text \<open>A finished message lies inside the buffer.\<close>

definition msg_fits :: "mqtt_connection \<Rightarrow> bool" where
  "msg_fits c \<longleftrightarrow> (\<exists>off. msg_data c = Some off \<and> off + msg_length c \<le> buffer_length c)"

definition enc_ok :: "mqtt_connection \<Rightarrow> mqtt_connection \<Rightarrow> bool" where
  "enc_ok c c' \<longleftrightarrow> same_buf c c' \<and> msg_fits c'"

lemma enc_ok_fail [simp]: "enc_ok a (fail_message c) = same_buf a c"
  by (simp add: enc_ok_def msg_fits_def) (simp add: fail_message_def)

lemma enc_ok_fini: "conn_ok c \<Longrightarrow> same_buf a c \<Longrightarrow> enc_ok a (fini_message c t d q r)"
  using same_buf_fini [of c t d q r] same_buf_trans [of a c]
  by (auto simp: enc_ok_def msg_fits_def fini_message_def Let_def conn_ok_def)

lemma length_mqtt_bytes:
  "conn_buf c \<Longrightarrow> msg_fits c \<Longrightarrow> length (mqtt_bytes c) = msg_length c"
  by (auto simp: conn_buf_def msg_fits_def mqtt_bytes_def)

lemma enc_ok_publish:
  assumes "conn_buf c"
  shows "enc_ok c (fst (mqtt_msg_publish c topic data n qos retain))"
proof -
  have i: "same_buf c (init_message c)" "conn_ok (init_message c)" using same_buf_init assms by auto
  show ?thesis
  proof (cases "append_string (init_message c) (the topic) (length (the topic))")
    case None
    with i show ?thesis by (simp add: mqtt_msg_publish_def Let_def)
  next
    case (Some c1)
    note s = same_buf_string [OF i(2) Some]
    obtain mid c2 where id: "(if qos > 0 then append_message_id c1 0 else (0, c1)) = (mid, c2)"
      by (metis surj_pair)
    with s have c2: "same_buf c1 c2" "conn_ok c2"
      using same_buf_id [of c1 0 mid c2] by (auto simp: same_buf_def conn_ok_buf split: if_splits)
    have all: "same_buf c c2" using i s c2 by (auto simp: same_buf_def)
    show ?thesis
    proof (cases "buffer_length c2 < msg_length c2 + n")
      case True
      with i all id Some show ?thesis by (simp add: mqtt_msg_publish_def Let_def)
    next
      case False
      then have "same_buf c2 (append_bytes c2 (take n data))" "conn_ok (append_bytes c2 (take n data))"
        using same_buf_append [OF c2(2), of n data] by auto
      with all have "enc_ok c (fini_message (append_bytes c2 (take n data)) MQTT_MSG_TYPE_PUBLISH 0 qos retain)"
        by (meson enc_ok_fini same_buf_trans)
      with i all id Some False show ?thesis by (simp add: mqtt_msg_publish_def Let_def)
    qed
  qed
qed

lemma enc_ok_msg_with_id: "conn_buf c \<Longrightarrow> enc_ok c (msg_with_id c mid t q)"
proof -
  assume "conn_buf c"
  then have i: "same_buf c (init_message c)" "conn_ok (init_message c)" using same_buf_init by auto
  obtain m c1 where id: "append_message_id (init_message c) mid = (m, c1)" by (metis surj_pair)
  with same_buf_id [OF i(2) id] i have "same_buf c c1" "conn_ok c1" by (auto simp: same_buf_def)
  then show ?thesis by (simp add: msg_with_id_def id enc_ok_fini)
qed

lemma enc_ok_subscribe:
  assumes "conn_buf c"
  shows "enc_ok c (fst (mqtt_msg_subscribe c topic qos))"
    and "enc_ok c (fst (mqtt_msg_unsubscribe c topic))"
proof -
  have i: "same_buf c (init_message c)" "conn_ok (init_message c)" using same_buf_init assms by auto
  obtain m c1 where id: "append_message_id (init_message c) 0 = (m, c1)" by (metis surj_pair)
  with same_buf_id [OF i(2) id] i have c1: "same_buf c c1" "conn_ok c1" by (auto simp: same_buf_def)
  have "enc_ok c (fst (mqtt_msg_subscribe c topic qos)) \<and> enc_ok c (fst (mqtt_msg_unsubscribe c topic))"
  proof (cases "append_string c1 (the topic) (length (the topic))")
    case None
    with i c1 id show ?thesis by (simp add: mqtt_msg_subscribe_def mqtt_msg_unsubscribe_def Let_def)
  next
    case (Some c2)
    with same_buf_string [OF c1(2) Some] c1 have c2: "same_buf c c2" "conn_ok c2"
      by (auto simp: same_buf_def)
    then have c3: "enc_ok c (fini_message c2 t d q r)" for t d q r
      by (simp add: enc_ok_fini)
    have c4: "enc_ok c (fini_message (append_bytes c2 [of_int qos]) t d q r)"
      if "\<not> buffer_length c2 < Suc (msg_length c2)" for t d q r
      using same_buf_append [OF c2(2), of 1 "[of_int qos]"] enc_ok_fini same_buf_trans c2(1) that
      by (simp add: not_less)
    from i c1 c2 c3 c4 id Some show ?thesis
      by (simp add: mqtt_msg_subscribe_def mqtt_msg_unsubscribe_def Let_def)
  qed
  then show "enc_ok c (fst (mqtt_msg_subscribe c topic qos))"
    and "enc_ok c (fst (mqtt_msg_unsubscribe c topic))" by auto
qed

lemma enc_ok_simple: "conn_buf c \<Longrightarrow> enc_ok c (fini_message (init_message c) t d q r)"
  using same_buf_init by (simp add: enc_ok_fini)

section \<open>CONNECT\<close>

text \<open>
  The body of a CONNECT packet in MQTT 3.1: protocol name and version, flags, keep alive,
  then the client id and the optional will, user name and password.
\<close>

definition c_string :: "bytes option \<Rightarrow> bytes" where
  "c_string s = (if c_empty s then [] else mqtt_string (the s))"

definition connect_flags :: "mqtt_connect_info \<Rightarrow> u8" where
  "connect_flags info =
     (if clean_session info \<noteq> 0 then 2 else 0) OR
     (if c_empty (will_topic info) then 0
      else 4 OR (if will_retain info \<noteq> 0 then 32 else 0) OR push_bit 3 (of_int (will_qos info) AND 3)) OR
     (if c_empty (username info) then 0 else 128) OR
     (if c_empty (password info) then 0 else 64)"

definition connect_fixed :: "mqtt_connect_info \<Rightarrow> u8 \<Rightarrow> bytes" where
  "connect_fixed info flags =
     [0, 6, 0x4D, 0x51, 0x49, 0x73, 0x64, 0x70, 3, flags,
      ucast (drop_bit 8 (keepalive info)), ucast (keepalive info AND 0xff)]"

definition connect_tail :: "mqtt_connect_info \<Rightarrow> bytes" where
  "connect_tail info =
     c_string (client_id info) @
     (if c_empty (will_topic info) then []
      else mqtt_string (the (will_topic info)) @ mqtt_string (the (will_message info))) @
     c_string (username info) @ c_string (password info)"

definition connect_body :: "mqtt_connect_info \<Rightarrow> bytes" where
  "connect_body info = connect_fixed info (connect_flags info) @ connect_tail info"

text \<open>The state between the stages: the flags so far and the strings appended so far.\<close>

definition connecting :: "mqtt_connect_info \<Rightarrow> mqtt_connection \<Rightarrow> nat \<Rightarrow> u8 \<Rightarrow> bytes \<Rightarrow> bool" where
  "connecting info c cap flags tail \<longleftrightarrow>
     conn_ok c \<and> buffer_length c = cap \<and> conn_body c = connect_fixed info flags @ tail"

lemma length_connect_fixed [simp]: "length (connect_fixed info f) = 12"
  by (simp add: connect_fixed_def)

lemma connecting_length: "connecting info c cap f tail \<Longrightarrow> msg_length c = 15 + length tail"
  using length_conn_body [of c] by (auto simp: connecting_def conn_ok_def)

lemma connecting_or_flags:
  assumes "connecting info c cap f tail"
  shows "connecting info (or_flags c g) cap (f OR g) tail"
proof -
  from assms have ok: "conn_ok c" and b: "conn_body c = connect_fixed info f @ tail"
    and cap: "buffer_length c = cap" by (simp_all add: connecting_def)
  have len: "msg_length c = 15 + length tail" by (rule connecting_length [OF assms])
  have lb: "15 + length tail \<le> length (cbuffer c)" using ok len by (simp add: conn_ok_def conn_buf_def)
  have c12: "cbuffer c ! 12 = f"
    using arg_cong [OF b, of "\<lambda>xs. xs ! 9"] len lb
    by (simp add: conn_body_def nth_sub_bytes nth_append connect_fixed_def)
  have "conn_body (or_flags c g) = (conn_body c)[9 := f OR g]"
    using len lb by (simp add: conn_body_def or_flags_def sub_bytes_def c12 drop_update_swap
        take_update_swap)
  also have "\<dots> = connect_fixed info (f OR g) @ tail"
    by (simp add: b list_update_append connect_fixed_def)
  finally show ?thesis using same_buf_or_flags [OF ok] cap by (simp add: connecting_def same_buf_def)
qed

lemma connecting_string:
  assumes "connecting info c cap f tail"
  obtains "append_string c s (length s) = None" "cap < 15 + length tail + length (mqtt_string s)"
  | c' where "append_string c s (length s) = Some c'" "connecting info c' cap f (tail @ mqtt_string s)"
      "15 + length tail + length (mqtt_string s) \<le> cap"
proof -
  from assms have ok: "conn_ok c" and b: "conn_body c = connect_fixed info f @ tail"
    and cap: "buffer_length c = cap" by (simp_all add: connecting_def)
  show ?thesis
    by (cases rule: append_string_cases [OF ok, of s])
      (use that connecting_length [OF assms] b cap in \<open>auto simp: connecting_def\<close>)
qed

lemma connecting_credential:
  assumes "connecting info c cap f tail"
  obtains c' where "connect_credential c s g = Inl c'" "cap < 15 + length tail + length (c_string s)"
      "conn_buf c'" "buffer_length c' = cap"
  | c' where "connect_credential c s g = Inr c'"
      "connecting info c' cap (f OR (if c_empty s then 0 else g)) (tail @ c_string s)"
      "15 + length tail + length (c_string s) \<le> cap"
proof (cases "c_empty s")
  case True
  moreover have "15 + length tail \<le> cap"
    using connecting_length [OF assms] assms by (simp add: connecting_def conn_ok_def)
  ultimately show ?thesis using that(2) [of c] assms by (simp add: connect_credential_def c_string_def)
next
  case False
  show ?thesis
  proof (cases rule: connecting_string [OF assms, of "the s"])
    case 1
    with False assms that(1) [of c] show ?thesis
      by (simp add: connect_credential_def c_string_def connecting_def conn_ok_buf)
  next
    case (2 c')
    with False that(2) [of "or_flags c' g"] connecting_or_flags [OF 2(2), of g] show ?thesis
      by (simp add: connect_credential_def c_string_def)
  qed
qed

lemma connecting_will:
  assumes "connecting info c cap f tail"
  defines "ws \<equiv> (if c_empty (will_topic info) then []
      else mqtt_string (the (will_topic info)) @ mqtt_string (the (will_message info)))"
    and "wfl \<equiv> (if c_empty (will_topic info) then 0
      else 4 OR (if will_retain info \<noteq> 0 then 32 else 0) OR push_bit 3 (of_int (will_qos info) AND 3))"
  obtains c' where "connect_will c info = Inl c'" "cap < 15 + length tail + length ws"
      "conn_buf c'" "buffer_length c' = cap"
  | c' where "connect_will c info = Inr c'" "connecting info c' cap (f OR wfl) (tail @ ws)"
      "15 + length tail + length ws \<le> cap"
proof (cases "c_empty (will_topic info)")
  case True
  moreover have "15 + length tail \<le> cap"
    using connecting_length [OF assms(1)] assms(1) by (simp add: connecting_def conn_ok_def)
  ultimately show ?thesis using that(2) [of c] assms(1) by (simp add: connect_will_def ws_def wfl_def)
next
  case False
  let ?m = "the (will_message info)"
  show ?thesis
  proof (cases rule: connecting_string [OF assms(1), of "the (will_topic info)"])
    case 1
    with False assms(1) that(1) [of c] show ?thesis
      by (simp add: connect_will_def ws_def connecting_def conn_ok_buf)
  next
    case (2 c1)
    note c1 = 2
    show ?thesis
    proof (cases rule: connecting_string [OF c1(2), of ?m])
      case 1
      with False c1 that(1) [of c1] show ?thesis
        by (simp add: connect_will_def ws_def connecting_def conn_ok_buf)
    next
      case (2 c2)
      define c3 where "c3 = or_flags c2 4"
      define c4 where "c4 = (if will_retain info \<noteq> 0 then or_flags c3 32 else c3)"
      define c5 where "c5 = or_flags c4 (push_bit 3 (of_int (will_qos info) AND 3))"
      have c3: "connecting info c3 cap (f OR 4) (tail @ ws)"
        using connecting_or_flags [OF 2(2)] False by (simp add: c3_def ws_def)
      then have "connecting info c4 cap (f OR 4 OR (if will_retain info \<noteq> 0 then 32 else 0)) (tail @ ws)"
        using connecting_or_flags [OF c3, of 32] by (simp add: c4_def or.assoc)
      from connecting_or_flags [OF this] have "connecting info c5 cap (f OR wfl) (tail @ ws)"
        using False by (simp add: c5_def wfl_def or.assoc)
      moreover have "connect_will c info = Inr c5"
        using False c1 2 by (simp add: connect_will_def Let_def c3_def c4_def c5_def)
      ultimately show ?thesis
        using that(2) [of c5] 2(3) False by (simp add: ws_def)
    qed
  qed
qed

lemma connecting_header:
  assumes "conn_buf c"
  obtains c' where "connect_header c info = Inl c'"
      "c_empty (client_id info) \<or> buffer_length c < 15 + length (c_string (client_id info))"
      "conn_buf c'" "buffer_length c' = buffer_length c"
  | c' where "connect_header c info = Inr c'" "\<not> c_empty (client_id info)"
      "connecting info c' (buffer_length c) (if clean_session info \<noteq> 0 then 2 else 0)
        (c_string (client_id info))"
      "15 + length (c_string (client_id info)) \<le> buffer_length c"
proof (cases "buffer_length c < 15")
  case True
  with that(1) [of "init_message c"] init_message_ok [OF assms] show ?thesis
    by (simp add: connect_header_def conn_ok_buf)
next
  case False
  note i = init_message_ok [OF assms]
  define c1 where "c1 = append_bytes (init_message c) (connect_fixed info 0)"
  have "msg_length (init_message c) + length (connect_fixed info 0) \<le> buffer_length (init_message c)"
    using False i by simp
  from append_bytes_ok [OF i(1) this] i
  have "connecting info c1 (buffer_length c) 0 []" by (simp add: connecting_def c1_def)
  moreover define c2 where "c2 = (if clean_session info \<noteq> 0 then or_flags c1 2 else c1)"
  ultimately have c2: "connecting info c2 (buffer_length c) (if clean_session info \<noteq> 0 then 2 else 0) []"
    using connecting_or_flags [of info c1 "buffer_length c" 0 "[]" 2] by auto
  have hd: "connect_header c info =
      (if c_empty (client_id info) then Inl c2
       else case append_string c2 (the (client_id info)) (length (the (client_id info))) of
              None \<Rightarrow> Inl c2 | Some c \<Rightarrow> Inr c)"
    using False i by (simp add: connect_header_def Let_def c1_def c2_def connect_fixed_def split: option.split)
  show ?thesis
  proof (cases "c_empty (client_id info)")
    case True
    with hd c2 that(1) [of c2] show ?thesis by (simp add: connecting_def conn_ok_buf)
  next
    case ne: False
    show ?thesis
    proof (cases rule: connecting_string [OF c2, of "the (client_id info)"])
      case 1
      with hd c2 ne that(1) [of c2] show ?thesis by (simp add: connecting_def conn_ok_buf c_string_def)
    next
      case (2 c3)
      with hd ne that(2) [of c3] show ?thesis by (simp add: c_string_def)
    qed
  qed
qed

text \<open>The packet is built exactly when there is a client id and the whole body fits.\<close>

lemma mqtt_msg_connect_cases:
  assumes "conn_buf c"
    and fits_def: "fits \<longleftrightarrow> \<not> c_empty (client_id info) \<and> 3 + length (connect_body info) \<le> buffer_length c"
  shows "conn_buf (mqtt_msg_connect c info)"
    and "buffer_length (mqtt_msg_connect c info) = buffer_length c"
    and "fits \<Longrightarrow> mqtt_bytes (mqtt_msg_connect c info) =
           packet MQTT_MSG_TYPE_CONNECT 0 0 0 (connect_body info)"
    and "msg_length (mqtt_msg_connect c info) \<noteq> 0 \<longleftrightarrow> fits"
    and "msg_fits (mqtt_msg_connect c info)"
proof -
  let ?c = "mqtt_msg_connect c info"
  have fail_fits: "msg_fits (fail_message c0)" for c0
    by (simp add: msg_fits_def) (simp add: fail_message_def)
  have bl: "3 + length (connect_body info) = 15 + length (connect_tail info)"
    by (simp add: connect_body_def)
  have "conn_buf ?c \<and> buffer_length ?c = buffer_length c \<and> msg_fits ?c \<and>
      (if fits then mqtt_bytes ?c = packet MQTT_MSG_TYPE_CONNECT 0 0 0 (connect_body info) \<and> msg_length ?c \<noteq> 0
       else msg_length ?c = 0)"
  proof (cases rule: connecting_header [OF assms(1), of info])
    case (1 c1)
    then show ?thesis by (auto simp: mqtt_msg_connect_def fits_def bl connect_tail_def fail_fits)
  next
    case (2 c1)
    note h = this
    show ?thesis
    proof (cases rule: connecting_will [OF h(3)])
      case (1 c2)
      with h show ?thesis by (auto simp: mqtt_msg_connect_def fits_def bl connect_tail_def fail_fits)
    next
      case (2 c2)
      note w = this
      show ?thesis
      proof (cases rule: connecting_credential [OF w(2), of "username info" 128])
        case (1 c3)
        with h w show ?thesis by (auto simp: mqtt_msg_connect_def fits_def bl connect_tail_def fail_fits)
      next
        case (2 c3)
        note u = this
        show ?thesis
        proof (cases rule: connecting_credential [OF u(2), of "password info" 64])
          case (1 c4)
          with h w u show ?thesis by (auto simp: mqtt_msg_connect_def fits_def bl connect_tail_def fail_fits)
        next
          case (2 c4)
          then have ok: "conn_ok c4" "buffer_length c4 = buffer_length c"
            and body: "conn_body c4 = connect_body info"
            by (simp_all add: connecting_def connect_body_def connect_flags_def connect_tail_def or.assoc)
          have f: fits using h(2) 2(3) by (simp add: fits_def bl connect_tail_def)
          have "?c = fini_message c4 MQTT_MSG_TYPE_CONNECT 0 0 0"
            using h(1) w(1) u(1) 2(1) by (simp add: mqtt_msg_connect_def)
          moreover have "msg_fits (fini_message c4 MQTT_MSG_TYPE_CONNECT 0 0 0)"
            using enc_ok_fini [OF ok(1), of c4] ok(1) by (simp add: enc_ok_def same_buf_def conn_ok_buf)
          ultimately show ?thesis
            using fini_message_ok [OF ok(1), of MQTT_MSG_TYPE_CONNECT 0 0 0] ok body f by simp
        qed
      qed
    qed
  qed
  then show "conn_buf ?c" "buffer_length ?c = buffer_length c"
    "fits \<Longrightarrow> mqtt_bytes ?c = packet MQTT_MSG_TYPE_CONNECT 0 0 0 (connect_body info)"
    "msg_length ?c \<noteq> 0 \<longleftrightarrow> fits" "msg_fits ?c" by (auto split: if_splits)
qed

section \<open>Properties\<close>

text \<open>
  C26: a publish packet built by \<open>mqtt_msg_publish\<close> is read back by the accessors of a
  receive buffer that starts with it. Type, duplicate and retain flag, QoS, total length and
  topic are those given, and so are the payload and the message id (the one the encoder
  assigned, which is never 0 for a QoS above 0 even when the counter wraps), except for an
  empty payload with a QoS above 0: there the accessors find no payload and the id 0.
\<close>

theorem publish_roundtrip:
  assumes "conn_buf c" and "topic \<noteq> []" and "0 \<le> qos" and "qos \<le> 2"
    and "5 + length topic + (if qos > 0 then 2 else 0) + length data \<le> buffer_length c"
  shows "\<exists>c' mid off doff. mqtt_msg_publish c (Some topic) data (length data) qos retain = (c', Some mid) \<and>
     (qos > 0 \<longleftrightarrow> mid \<noteq> 0) \<and>
     (let m = mqtt_bytes c'; buf = m @ rest; len = length m
      in mqtt_get_type buf = MQTT_MSG_TYPE_PUBLISH \<and> mqtt_get_dup buf = 0 \<and>
         mqtt_get_qos buf = nat qos \<and> mqtt_get_retain buf = nat (retain mod 2) \<and>
         mqtt_get_total_length buf len = len \<and>
         mqtt_get_publish_topic buf len = (Some off, length topic) \<and>
         sub_bytes buf off (length topic) = topic \<and>
         (if qos > 0 \<and> data = []
          then mqtt_get_publish_data buf len = (None, 0) \<and> mqtt_get_id buf len = 0
          else mqtt_get_publish_data buf len = (Some doff, length data) \<and>
            sub_bytes buf doff (length data) = data \<and> mqtt_get_id buf len = mid))"
proof -
  define mid where "mid = (if qos > 0 then fresh_id (message_id c) else 0)"
  let ?b = "publish_body topic qos mid data"
  from assms(5) have fits: "3 + length ?b \<le> buffer_length c" by (simp add: length_publish_body)
  obtain c' where c': "mqtt_msg_publish c (Some topic) data (length data) qos retain = (c', Some mid)"
    "mqtt_bytes c' = publish_packet topic qos retain mid data"
    using mqtt_msg_publish_fits [OF assms(1,2) fits mid_def] by metis
  from fits assms(1) have small: "length ?b \<le> 16383" by (simp add: conn_buf_def)
  have q: "qos < 4" using assms(4) by simp
  note acc = publish_packet_accessors [OF assms(2,3) q small c'(2) refl]
  note fld = publish_packet_fields [OF small c'(2) refl]
  have "mqtt_get_type (mqtt_bytes c' @ rest) = MQTT_MSG_TYPE_PUBLISH"
    and "mqtt_get_qos (mqtt_bytes c' @ rest) = nat qos"
    unfolding c'(2) publish_packet_def using assms(3) q by (intro packet_header; simp)+
  moreover have "mqtt_get_dup (mqtt_bytes c' @ rest) = 0" "mqtt_get_retain (mqtt_bytes c' @ rest) = nat (retain mod 2)"
    unfolding c'(2) publish_packet_def by (rule packet_flags)+
  moreover have "mid \<noteq> 0 \<longleftrightarrow> qos > 0" by (simp add: mid_def)
  ultimately show ?thesis
    using c'(1) assms(3) acc(1-4) [of rest] fld(4,6) [of rest]
    by (cases "qos > 0 \<and> data = []") (auto simp: Let_def mid_def intro!: exI [of _ c'])
qed

definition ex_conn :: mqtt_connection where
  "ex_conn = mqtt_msg_init (replicate 32 0) 32"

lemma conn_buf_ex_conn: "conn_buf ex_conn"
  by (simp add: ex_conn_def mqtt_msg_init_def conn_buf_def)

lemma publish_roundtrip_witness:
  "\<exists>c' off doff. mqtt_msg_publish ex_conn (Some [0x61, 0x62]) [7, 8, 9] 3 1 1 = (c', Some 1) \<and>
     mqtt_get_retain (mqtt_bytes c' @ []) = 1 \<and> mqtt_get_id (mqtt_bytes c' @ []) (length (mqtt_bytes c')) = 1 \<and>
     mqtt_get_publish_topic (mqtt_bytes c' @ []) (length (mqtt_bytes c')) = (Some off, 2) \<and>
     sub_bytes (mqtt_bytes c' @ []) off 2 = [0x61, 0x62] \<and>
     mqtt_get_publish_data (mqtt_bytes c' @ []) (length (mqtt_bytes c')) = (Some doff, 3) \<and>
     sub_bytes (mqtt_bytes c' @ []) doff 3 = [7, 8, 9]"
proof -
  have "snd (mqtt_msg_publish ex_conn (Some [0x61, 0x62]) [7, 8, 9] 3 1 1) = Some 1"
    by code_simp
  with publish_roundtrip [OF conn_buf_ex_conn, of "[0x61, 0x62]" 1 "[7, 8, 9]" 1 "[]"]
  show ?thesis
    by (auto simp: ex_conn_def mqtt_msg_init_def Let_def numeral_2_eq_2 numeral_3_eq_3)
qed

text \<open>
  the encoder builds a publish packet exactly when the topic is not empty and the packet
  fits the buffer with its 3 reserved header bytes; otherwise the message length is 0, which
  every caller treats as a failure. The buffer keeps its size either way.
\<close>

theorem publish_fails_iff:
  assumes "conn_buf c"
  shows "(msg_length (fst (mqtt_msg_publish c (Some topic) data (length data) qos retain)) = 0 \<longleftrightarrow>
            topic = [] \<or>
            buffer_length c < 5 + length topic + (if qos > 0 then 2 else 0) + length data) \<and>
         conn_buf (fst (mqtt_msg_publish c (Some topic) data (length data) qos retain))"
proof (rule conjI)
  define mid where "mid = (if qos > 0 then fresh_id (message_id c) else 0)"
  let ?b = "publish_body topic qos mid data"
  have lb: "3 + length ?b = 5 + length topic + (if qos > 0 then 2 else 0) + length data"
    by (simp add: length_publish_body)
  show "msg_length (fst (mqtt_msg_publish c (Some topic) data (length data) qos retain)) = 0 \<longleftrightarrow>
      topic = [] \<or> buffer_length c < 5 + length topic + (if qos > 0 then 2 else 0) + length data"
  proof (cases "buffer_length c < 3 + length ?b")
    case True
    from mqtt_msg_publish_too_long [OF assms True, of retain] lb True show ?thesis by auto
  next
    case False
    then have fits: "3 + length ?b \<le> buffer_length c" by simp
    show ?thesis
    proof (cases "topic = []")
      case True
      then show ?thesis by (simp add: mqtt_msg_publish_def Let_def c_empty_def)
    next
      case ne: False
      from mqtt_msg_publish_fits [OF assms ne fits mid_def] obtain c' where
        "mqtt_msg_publish c (Some topic) data (length data) qos retain = (c', Some mid)"
        "msg_length c' \<noteq> 0" by metis
      with ne fits lb show ?thesis by simp
    qed
  qed
  show "conn_buf (fst (mqtt_msg_publish c (Some topic) data (length data) qos retain))"
    using enc_ok_publish [OF assms] by (simp add: enc_ok_def same_buf_def)
qed

lemma publish_fails_iff_witness:
  "msg_length (fst (mqtt_msg_publish ex_conn (Some (replicate 28 0x61)) [] 0 0 0)) = 0"
  using publish_fails_iff [OF conn_buf_ex_conn, of "replicate 28 0x61" "[]" 0 0]
  by (simp add: ex_conn_def mqtt_msg_init_def)

text \<open>
  \<open>mqtt_msg_connect\<close> writes exactly the CONNECT packet of MQTT 3.1 for the connect
  information, with the flag bits set for the parts that are present, whenever a client id
  is set and the packet fits; otherwise the message length is 0.
\<close>

theorem connect_packet_correct:
  assumes "conn_buf c"
  shows "if \<not> c_empty (client_id info) \<and> 15 + length (connect_tail info) \<le> buffer_length c
         then mqtt_bytes (mqtt_msg_connect c info) =
                packet MQTT_MSG_TYPE_CONNECT 0 0 0 (connect_fixed info (connect_flags info) @ connect_tail info)
         else msg_length (mqtt_msg_connect c info) = 0"
  using mqtt_msg_connect_cases(3,4) [OF assms refl, of info]
  by (auto simp: connect_body_def)

definition ex_info :: mqtt_connect_info where
  "ex_info = \<lparr>client_id = Some [0x4D], username = Some [0x75], password = None,
     will_topic = None, will_message = None, keepalive = 60, will_qos = 0, will_retain = 0,
     clean_session = 1\<rparr>"

lemma connect_packet_correct_witness:
  "mqtt_bytes (mqtt_msg_connect ex_conn ex_info) =
     [0x10, 18, 0, 6, 0x4D, 0x51, 0x49, 0x73, 0x64, 0x70, 3, 0x82, 0, 60, 0, 1, 0x4D, 0, 1, 0x75]"
proof -
  have "\<not> c_empty (client_id ex_info) \<and> 15 + length (connect_tail ex_info) \<le> buffer_length ex_conn"
    by code_simp
  with connect_packet_correct [OF conn_buf_ex_conn, of ex_info]
  have "mqtt_bytes (mqtt_msg_connect ex_conn ex_info) = packet MQTT_MSG_TYPE_CONNECT 0 0 0
      (connect_fixed ex_info (connect_flags ex_info) @ connect_tail ex_info)" by simp
  also have "\<dots> = [0x10, 18, 0, 6, 0x4D, 0x51, 0x49, 0x73, 0x64, 0x70, 3, 0x82, 0, 60, 0, 1, 0x4D, 0, 1, 0x75]"
    by code_simp
  finally show ?thesis .
qed

text \<open>
  the four acknowledgements carry the message id they answer, and the peer's
  \<open>mqtt_get_id\<close> reads it back, for every id but 0; for id 0 the packet carries a fresh id
  instead.
\<close>

theorem ack_carries_id:
  assumes "conn_buf c" and "5 \<le> buffer_length c"
    and "m \<in> {mqtt_bytes (mqtt_msg_puback c mid), mqtt_bytes (mqtt_msg_pubrec c mid),
                mqtt_bytes (mqtt_msg_pubrel c mid), mqtt_bytes (mqtt_msg_pubcomp c mid)}"
  shows "mqtt_get_id (m @ rest) (length m) = (if mid = 0 then fresh_id (message_id c) else mid) \<and>
         length m = 4"
proof -
  define mid' where "mid' = (if mid = 0 then fresh_id (message_id c) else mid)"
  note w = msg_with_id_packet(1) [OF assms(1,2) mid'_def]
  from assms(3) obtain t q where t: "t \<in> {4, 5, 6, 7, 8, 9, 11}"
    and m: "m = packet t 0 q 0 (hi8 mid' # lo8 mid' # [])"
    by (auto simp: mqtt_msg_puback_def mqtt_msg_pubrec_def mqtt_msg_pubrel_def mqtt_msg_pubcomp_def w)
  have "mqtt_get_id (m @ rest) (length m) = mid'"
    using id_packet_accessors(1) [OF t _ m refl, of rest] by simp
  moreover have "length m = 4" unfolding m by (subst length_packet) simp_all
  ultimately show ?thesis by (simp add: mid'_def)
qed

lemma ack_carries_id_witness:
  "mqtt_get_id (mqtt_bytes (mqtt_msg_puback ex_conn 0x1234) @ []) 4 = 0x1234"
proof -
  have "5 \<le> buffer_length ex_conn" by (simp add: ex_conn_def mqtt_msg_init_def)
  note a = ack_carries_id [OF conn_buf_ex_conn this, of "mqtt_bytes (mqtt_msg_puback ex_conn 0x1234)"
    "0x1234" "[]", OF insertI1]
  show ?thesis using conjunct1 [OF a] unfolding conjunct2 [OF a] by simp
qed

text \<open>
  an UNSUBSCRIBE packet carries a nonzero message id, but \<open>mqtt_get_id\<close> reads 0 from
  it, for every topic: its case list leaves \<open>MQTT_MSG_TYPE_UNSUBSCRIBE\<close> out. The client
  therefore waits for an UNSUBACK with id 0, and the broker's UNSUBACK never matches.
\<close>

theorem unsubscribe_id_unreadable:
  assumes "conn_buf c" and "topic \<noteq> []" and "length topic + 7 \<le> buffer_length c"
  shows "\<exists>c' mid. mqtt_msg_unsubscribe c (Some topic) = (c', Some mid) \<and> mid \<noteq> 0 \<and>
     mqtt_bytes c' = packet MQTT_MSG_TYPE_UNSUBSCRIBE 0 1 0 (hi8 mid # lo8 mid # mqtt_string topic) \<and>
     mqtt_get_type (mqtt_bytes c' @ rest) = MQTT_MSG_TYPE_UNSUBSCRIBE \<and>
     mqtt_get_id (mqtt_bytes c' @ rest) (length (mqtt_bytes c')) = 0"
proof -
  from mqtt_msg_unsubscribe_fits [OF assms refl] obtain c' where c':
    "mqtt_msg_unsubscribe c (Some topic) = (c', Some (fresh_id (message_id c)))"
    "mqtt_bytes c' = packet MQTT_MSG_TYPE_UNSUBSCRIBE 0 1 0
       (hi8 (fresh_id (message_id c)) # lo8 (fresh_id (message_id c)) # mqtt_string topic)" by metis
  have "mqtt_get_type (mqtt_bytes c' @ rest) = MQTT_MSG_TYPE_UNSUBSCRIBE"
    unfolding c'(2) by (rule packet_header) simp
  with c' show ?thesis by (auto simp: mqtt_get_id_def)
qed

lemma unsubscribe_id_unreadable_witness:
  "\<exists>c'. mqtt_msg_unsubscribe ex_conn (Some [0x61]) = (c', Some 1) \<and>
     mqtt_get_id (mqtt_bytes c' @ []) (length (mqtt_bytes c')) = 0"
proof -
  have "snd (mqtt_msg_unsubscribe ex_conn (Some [0x61])) = Some 1" by code_simp
  with unsubscribe_id_unreadable [OF conn_buf_ex_conn, of "[0x61]" "[]"] show ?thesis
    by (auto simp: ex_conn_def mqtt_msg_init_def)
qed

end
