(* ===== verification/MqttUtils.thy ===== *)
theory MqttUtils
  imports Prelude
begin

text \<open>
  The string helpers of \<open>mqtt/mqtt_utils.c\<close>. A C string is its bytes before the NUL; the
  C \<open>int\<close> that accumulates a number is 32 bits and wraps.
\<close>

abbreviation (input) is_digit :: "u8 \<Rightarrow> bool" where
  "is_digit c \<equiv> 48 \<le> c \<and> c \<le> 57"

section \<open>UTILS\_IsIPV4\<close>

text \<open>Segment count, character count and accumulator are \<open>uint8_t\<close>.\<close>

fun IsIPV4_loop :: "bytes \<Rightarrow> u8 \<Rightarrow> u8 \<Rightarrow> u8 \<Rightarrow> bool" where
  "IsIPV4_loop [] segs chcnt accum = (segs = 3 \<and> chcnt \<noteq> 0)"
| "IsIPV4_loop (c # cs) segs chcnt accum =
     (if c = 46 then
        if chcnt = 0 then False
        else if segs + 1 = 4 then False
        else IsIPV4_loop cs (segs + 1) 0 0
      else if \<not> is_digit c then False
      else
        let accum = ucast ((ucast accum :: u32) * 10 + ucast c - 48)
        in if unat accum > 255 then False else IsIPV4_loop cs segs (chcnt + 1) accum)"

definition UTILS_IsIPV4 :: "bytes option \<Rightarrow> bool" where
  "UTILS_IsIPV4 str = (case str of None \<Rightarrow> False | Some s \<Rightarrow> IsIPV4_loop s 0 0 0)"

section \<open>UTILS\_StrToIP\<close>

text \<open>
  One number: its digits, then a dot for the first three numbers and any character, the
  terminating NUL included, for the last. The result is the number and the rest.
\<close>

fun StrToIP_number :: "nat \<Rightarrow> bytes \<Rightarrow> u32 \<Rightarrow> (u32 \<times> bytes) option" where
  "StrToIP_number i [] n = (if i = 3 then Some (n, []) else None)"
| "StrToIP_number i (c # cs) n =
     (if is_digit c then StrToIP_number i cs (n * 10 + (ucast c - 48))
      else if (i < 3 \<and> c = 46) \<or> i = 3 then Some (n, cs)
      else None)"

text \<open>The bytes are stored as they are parsed, so a failure can leave some of them changed.\<close>

function StrToIP_loop :: "nat \<Rightarrow> bytes \<Rightarrow> bytes \<Rightarrow> bool \<times> bytes" where
  "StrToIP_loop i start ip =
     (if i < 4 then
        case StrToIP_number i start 0 of
          None \<Rightarrow> (False, ip)
        | Some (n, rest) \<Rightarrow>
            if sint n \<ge> 256 then (False, ip)
            else StrToIP_loop (i + 1) rest (ip[i := ucast n])
      else (True, ip))"
  by pat_completeness auto
termination by (relation "measure (\<lambda>(i, _). 4 - i)") auto

declare StrToIP_loop.simps [simp del]

definition UTILS_StrToIP :: "bytes \<Rightarrow> bytes \<Rightarrow> bool \<times> bytes" where
  "UTILS_StrToIP str ip = StrToIP_loop 0 str ip"

section \<open>UTILS\_Atoh\<close>

fun UTILS_Atoh_loop :: "bytes \<Rightarrow> u32 \<Rightarrow> u32" where
  "UTILS_Atoh_loop [] value = value"
| "UTILS_Atoh_loop (c # cs) value =
     (if c = 0 then value
      else if is_digit c then UTILS_Atoh_loop cs (push_bit 4 value OR (ucast c - 48))
      else if 65 \<le> c \<and> c \<le> 70 then UTILS_Atoh_loop cs (push_bit 4 value OR (ucast c - 65 + 10))
      else if 97 \<le> c \<and> c \<le> 102 then UTILS_Atoh_loop cs (push_bit 4 value OR (ucast c - 97 + 10))
      else value)"

definition UTILS_Atoh :: "bytes \<Rightarrow> u32" where
  "UTILS_Atoh s = UTILS_Atoh_loop s 0"

section \<open>Dotted quads\<close>

text \<open>The decimal digits of a byte and the dotted notation of four bytes.\<close>

definition digit :: "nat \<Rightarrow> u8" where
  "digit d = of_nat (48 + d)"

definition decimal :: "u8 \<Rightarrow> bytes" where
  "decimal b =
     (let n = unat b
      in if n < 10 then [digit n]
         else if n < 100 then [digit (n div 10), digit (n mod 10)]
         else [digit (n div 100), digit (n div 10 mod 10), digit (n mod 10)])"

definition dotted :: "u8 \<Rightarrow> u8 \<Rightarrow> u8 \<Rightarrow> u8 \<Rightarrow> bytes" where
  "dotted a b c d = decimal a @ 46 # decimal b @ 46 # decimal c @ 46 # decimal d"

lemma digit_simps:
  assumes "d < 10"
  shows "48 \<le> digit d" "digit d \<le> 57" "(ucast (digit d) :: u32) - 48 = of_nat d"
proof -
  have u: "unat (digit d) = 48 + d"
    using assms by (simp add: digit_def unsigned_of_nat take_bit_nat_eq_self del: of_nat_add)
  then show "48 \<le> digit d" "digit d \<le> 57" using assms by (simp_all add: word_le_nat_alt)
  have "(ucast (digit d) :: u32) = of_nat (48 + d)"
    by (simp only: u [symmetric]) simp
  then show "(ucast (digit d) :: u32) - 48 = of_nat d" by simp
qed

lemma StrToIP_number_decimal:
  assumes "rest = [] \<longrightarrow> i = 3" and "rest \<noteq> [] \<longrightarrow> hd rest = 46 \<and> i < 3"
  shows "StrToIP_number i (decimal b @ rest) 0 = Some (of_nat (unat b), tl rest)"
proof -
  have stop: "StrToIP_number i rest n = Some (n, tl rest)" for n
    using assms by (cases rest) (auto simp: word_le_nat_alt)
  have u: "unat b < 256" by simp
  consider "unat b < 10" | "10 \<le> unat b" "unat b < 100" | "100 \<le> unat b" by linarith
  then show ?thesis
  proof cases
    case 1
    then show ?thesis using stop by (simp add: decimal_def digit_simps Let_def)
  next
    case 2
    then have "unat b div 10 < 10" "unat b mod 10 < 10" by auto
    moreover have "of_nat (unat b div 10) * 10 + of_nat (unat b mod 10) = (of_nat (unat b) :: u32)"
      by (metis div_mult_mod_eq of_nat_add of_nat_mult of_nat_numeral)
    ultimately show ?thesis using 2 stop by (simp add: decimal_def digit_simps Let_def)
  next
    case 3
    have d: "unat b div 100 < 10" "unat b div 10 mod 10 < 10" "unat b mod 10 < 10"
      using less_mult_imp_div_less [of "unat b" 10 100] u by (simp_all del: unat_u8_less)
    have "(unat b div 100 * 10 + unat b div 10 mod 10) * 10 + unat b mod 10 = unat b"
      by (simp add: div_mult2_eq [of "unat b" 10 10, simplified])
    then have "(of_nat (unat b div 100) * 10 + of_nat (unat b div 10 mod 10)) * 10 +
        of_nat (unat b mod 10) = (of_nat (unat b) :: u32)"
      by (simp only: of_nat_add [symmetric] of_nat_mult [symmetric] of_nat_numeral [symmetric, where 'a = "32 word"])
    with d 3 stop show ?thesis by (simp add: decimal_def digit_simps Let_def)
  qed
qed

lemma sint_small_nat_u32: "n < 256 \<Longrightarrow> sint (of_nat n :: u32) = int n"
  by (simp add: signed_of_nat signed_take_bit_int_eq_self)

lemma ucast_byte_u32: "(ucast (of_nat (unat (b :: u8)) :: u32) :: u8) = b"
  by (rule bit_word_eqI) (auto simp: bit_simps dest: bit_imp_le_length)

lemma StrToIP_decimal:
  assumes "i < 4" and "rest = [] \<longrightarrow> i = 3" and "rest \<noteq> [] \<longrightarrow> hd rest = 46 \<and> i < 3"
  shows "StrToIP_loop i (decimal b @ rest) ip = StrToIP_loop (i + 1) (tl rest) (ip[i := b])"
proof -
  have n: "StrToIP_number i (decimal b @ rest) 0 = Some (of_nat (unat b), tl rest)"
    using assms(2,3) by (rule StrToIP_number_decimal)
  have "\<not> 256 \<le> sint (of_nat (unat b) :: u32)"
    using unat_u8_less [of b] by (simp only: sint_small_nat_u32)
  then show ?thesis
    using assms(1)
    by (subst StrToIP_loop.simps) (simp only: n option.case prod.case if_True if_False ucast_byte_u32)
qed

text \<open>
  \<open>UTILS_StrToIP\<close> accepts the dotted notation of every IPv4 address and stores its
  four bytes in order, which is what \<open>MQTT_Connect\<close> needs to skip the DNS lookup.
\<close>

theorem StrToIP_dotted: "UTILS_StrToIP (dotted a b c d) [w, x, y, z] = (True, [a, b, c, d])"
proof -
  have done4: "StrToIP_loop (Suc (Suc (Suc (Suc 0)))) r ip = (True, ip)" for r ip
    by (simp add: StrToIP_loop.simps)
  show ?thesis
  using StrToIP_decimal [of 3 "[]" d] StrToIP_decimal [of 2 "46 # decimal d" c]
    StrToIP_decimal [of 1 "46 # decimal c @ 46 # decimal d" b]
    StrToIP_decimal [of 0 "46 # decimal b @ 46 # decimal c @ 46 # decimal d" a]
  by (simp add: UTILS_StrToIP_def dotted_def done4 numeral_eq_Suc)
qed

text \<open>
  \<open>UTILS_IsIPV4\<close> never rejects a segment for being above 255, although it tests for
  it: the accumulator is a \<open>uint8_t\<close>, so the comparison with 255 is false for every byte.
  The loop decides only the shape, independently of the accumulator.
\<close>

theorem IsIPV4_ignores_range: "IsIPV4_loop s segs chcnt accum = IsIPV4_loop s segs chcnt 0"
proof (induction s arbitrary: segs chcnt accum)
  case (Cons c s)
  have no: "\<not> unat (x :: u8) > 255" for x using unat_u8_less [of x] by linarith
  show ?case
    unfolding IsIPV4_loop.simps Let_def if_not_P [OF no]
    by (subst Cons.IH, subst (3) Cons.IH) (rule refl)
qed simp

end
