(* ===== verification/MqttClient.thy ===== *)
theory MqttClient
  imports MsgQueue MqttMsg MqttUtils
begin

text \<open>
  The MQTT client of \<open>mqtt/mqtt.c\<close>, one definition per function, for a build without
  \<open>MQTT_SSL_ENABLE\<close> and \<open>DEBUG\<close>. The client record has the fields of \<open>MQTT_Client\<close>
  and its \<open>mqtt_state\<close>. Pointers that are only tested are \<open>bool\<close> (set or NULL); heap
  buffers are \<open>bytes option\<close>. \<open>out_buffer\<close> is the buffer of \<open>mqtt_connection\<close>, so
  only whether it is allocated is kept beside the connection. The one \<open>espconn\<close> is part of
  the client: \<open>con_reverse\<close> is its \<open>reverse\<close> pointer, which every handler reads the
  client from. \<open>eff\<close> is the trace of calls into the SDK and of the callbacks made.

  The SDK is a parameter \<open>mqtt_env\<close>: the result of a send and of a DNS lookup, the heap,
  the uninitialised stack of \<open>PROTO_ParseRb\<close>, and the calls back into this module that
  each of the application's callbacks makes (\<open>cb_script\<close>).
\<close>

section \<open>State\<close>

datatype tConnState =
  WIFI_INIT | WIFI_CONNECTING | WIFI_CONNECTING_ERROR | WIFI_CONNECTED | DNS_RESOLVE |
  TCP_DISCONNECTING | TCP_DISCONNECTED | TCP_RECONNECT_DISCONNECTING | TCP_RECONNECT_REQ |
  TCP_RECONNECT | TCP_CONNECTING | TCP_CONNECTING_ERROR | TCP_CONNECTED | MQTT_CONNECT_SEND |
  MQTT_CONNECT_SENDING | MQTT_SUBSCRIBE_SEND | MQTT_SUBSCRIBE_SENDING | MQTT_DATA |
  MQTT_KEEPALIVE_SEND | MQTT_PUBLISH_RECV | MQTT_PUBLISHING | MQTT_DELETING | MQTT_DELETED

datatype callback =
  ConnectedCb | DisconnectedCb | PublishedCb | PingrespCb | TimeoutCb
| DataCb "bytes option" nat "bytes option" nat

datatype effect =
  Post | Send bytes | TcpConnect | TcpDisconnect | TcpAbort | TcpDelete
| TimerArm | TimerDisarm | RegisterTask | Call callback

record mqtt_client =
  pCon :: bool
  con_reverse :: bool
  con_tcp :: bool
  remote_ip :: bytes
  security :: bool
  host :: "bytes option"
  port :: u32
  connect_info_set :: bool
  in_buffer :: "bytes option"
  out_buffer :: bool
  work_buffer :: "bytes option"
  in_buffer_used :: nat
  out_buffer_length :: nat
  message_length :: nat
  message_length_read :: nat
  outbound_message :: bool
  mqtt_conn :: mqtt_connection
  pending_msg_id :: u16
  pending_msg_type :: nat
  pending_publish_qos :: nat
  is_waiting_for_ack :: bool
  connect_info :: mqtt_connect_info
  connectedCb :: bool
  disconnectedCb :: bool
  publishedCb :: bool
  pingrespCb :: bool
  timeoutCb :: bool
  dataCb :: bool
  keepAliveTick :: u32
  reconnectTick :: u32
  connectTick :: u32
  sendTimeout :: u32
  pingrespTimeout :: u32
  is_waiting_for_pingresp :: bool
  publish_send_callback_pending :: bool
  connState :: tConnState
  msgQueue :: queue
  user_data :: bool
  eff :: "effect list"

text \<open>The calls an application callback makes on the client.\<close>

datatype api_call =
  ApiPublish "bytes option" "bytes option" int int int
| ApiSubscribe "bytes option" nat
| ApiUnSubscribe "bytes option"
| ApiPing
| ApiConnect
| ApiDisconnect
| ApiDeleteClient

datatype dns_result = DnsOk u32 | DnsInProgress | DnsFailed

record mqtt_env =
  espconn_send :: "bytes \<Rightarrow> int"
  dns_gethostbyname :: "bytes \<Rightarrow> dns_result"
  os_zalloc :: "nat \<Rightarrow> int \<Rightarrow> bytes option"
  env_stack :: proto_parser
  cb_script :: "callback \<Rightarrow> mqtt_client \<Rightarrow> api_call list"

abbreviation (input) MQTT_BUF_SIZE :: nat where "MQTT_BUF_SIZE \<equiv> 2048"
abbreviation (input) QUEUE_BUFFER_SIZE :: int where "QUEUE_BUFFER_SIZE \<equiv> 2048"
abbreviation (input) MQTT_SEND_TIMOUT :: u32 where "MQTT_SEND_TIMOUT \<equiv> 5"
abbreviation (input) MQTT_RECONNECT_TIMEOUT :: u32 where "MQTT_RECONNECT_TIMEOUT \<equiv> 5"
abbreviation (input) MQTT_CONNECT_TIMEOUT :: u32 where "MQTT_CONNECT_TIMEOUT \<equiv> 5"

definition emit :: "effect \<Rightarrow> mqtt_client \<Rightarrow> mqtt_client" where
  "emit e c = c\<lparr>eff := eff c @ [e]\<rparr>"

definition system_os_post :: "mqtt_client \<Rightarrow> mqtt_client" where
  "system_os_post c = emit Post c"

text \<open>Change of state followed by a post, as most error paths end.\<close>

definition goto :: "tConnState \<Rightarrow> mqtt_client \<Rightarrow> mqtt_client" where
  "goto st c = system_os_post (c\<lparr>connState := st\<rparr>)"

definition built :: "mqtt_client \<Rightarrow> bool" where
  "built c \<longleftrightarrow> msg_data (mqtt_conn c) \<noteq> None \<and> msg_length (mqtt_conn c) \<noteq> 0"

text \<open>A send of \<open>data\<close>: with security set the build without SSL refuses it.\<close>

definition tcp_send :: "mqtt_env \<Rightarrow> bytes \<Rightarrow> mqtt_client \<Rightarrow> int \<times> mqtt_client" where
  "tcp_send env data c =
     (if security c then (-1, c) else (espconn_send env data, emit (Send data) c))"

definition tcp_disconnect :: "mqtt_client \<Rightarrow> mqtt_client" where
  "tcp_disconnect c = (if security c then c else emit TcpDisconnect c)"

section \<open>Sending control packets\<close>

definition mqtt_send_direct :: "mqtt_env \<Rightarrow> mqtt_client \<Rightarrow> mqtt_client" where
  "mqtt_send_direct env c =
     (let message = outbound_message c;
          c = c\<lparr>outbound_message := False\<rparr>
      in if \<not> pCon c then goto TCP_RECONNECT c
         else if \<not> message \<or> \<not> built c then goto TCP_RECONNECT_DISCONNECTING c
         else
           let (result, c) = tcp_send env (mqtt_bytes (mqtt_conn c)) c
           in if result \<noteq> 0 then goto TCP_RECONNECT_DISCONNECTING c else c)"

definition mqtt_send_keepalive :: "mqtt_env \<Rightarrow> mqtt_client \<Rightarrow> mqtt_client" where
  "mqtt_send_keepalive env c =
     (if \<not> pCon c \<or> \<not> connect_info_set c then c
      else if is_waiting_for_pingresp c \<or> is_waiting_for_ack c \<or> sendTimeout c > 0
      then goto MQTT_DATA c
      else
        let c = c\<lparr>mqtt_conn := mqtt_msg_pingreq (mqtt_conn c), outbound_message := True\<rparr>
        in if \<not> built c then goto TCP_RECONNECT_DISCONNECTING (c\<lparr>outbound_message := False\<rparr>)
           else
             let (result, c) = tcp_send env (mqtt_bytes (mqtt_conn c)) c;
                 c = c\<lparr>outbound_message := False\<rparr>
             in if result = 0
                then goto MQTT_DATA (c\<lparr>keepAliveTick := 0, is_waiting_for_pingresp := True,
                                       pingrespTimeout := MQTT_SEND_TIMOUT\<rparr>)
                else goto TCP_RECONNECT_DISCONNECTING
                       (c\<lparr>is_waiting_for_pingresp := False, pingrespTimeout := 0\<rparr>))"

section \<open>Tearing down\<close>

definition mqtt_tcpclient_delete :: "mqtt_client \<Rightarrow> mqtt_client" where
  "mqtt_tcpclient_delete c =
     (let c = c\<lparr>in_buffer_used := 0, is_waiting_for_ack := False, pending_msg_id := 0,
                pending_msg_type := 0, sendTimeout := 0, is_waiting_for_pingresp := False,
                pingrespTimeout := 0, publish_send_callback_pending := False\<rparr>
      in if pCon c then (emit TcpDelete (emit TcpAbort c))\<lparr>pCon := False\<rparr> else c)"

definition mqtt_client_delete :: "mqtt_client \<Rightarrow> mqtt_client" where
  "mqtt_client_delete c =
     (let c = emit TimerDisarm c;
          c = (if pCon c then mqtt_tcpclient_delete c else c);
          c = c\<lparr>is_waiting_for_ack := False, sendTimeout := 0, is_waiting_for_pingresp := False,
                pingrespTimeout := 0, publish_send_callback_pending := False,
                host := None, user_data := False,
                in_buffer := None, out_buffer := False, work_buffer := None,
                outbound_message := False\<rparr>;
          c = c\<lparr>mqtt_conn := (mqtt_conn c)\<lparr>msg_data := None, msg_length := 0\<rparr>,
                connect_info := (connect_info c)\<lparr>client_id := None, username := None,
                  password := None, will_topic := None, will_message := None\<rparr>,
                msgQueue := (msgQueue c)\<lparr>q_buf := None\<rparr>\<rparr>
      in c\<lparr>connState := WIFI_INIT, connectedCb := False, disconnectedCb := False,
           publishedCb := False, timeoutCb := False, dataCb := False, pingrespCb := False\<rparr>)"

section \<open>Connecting\<close>

definition ip_bytes :: "u32 \<Rightarrow> bytes" where
  "ip_bytes a = [ucast (a AND 0xff), ucast (drop_bit 8 a AND 0xff),
                 ucast (drop_bit 16 a AND 0xff), ucast (drop_bit 24 a AND 0xff)]"

definition tcp_connect :: "mqtt_client \<Rightarrow> mqtt_client" where
  "tcp_connect c = (if security c then c else emit TcpConnect c)"

definition mqtt_dns_found :: "u32 option \<Rightarrow> mqtt_client \<Rightarrow> mqtt_client" where
  "mqtt_dns_found ipaddr c =
     (if \<not> con_reverse c then c
      else case ipaddr of
        None \<Rightarrow> c\<lparr>connState := TCP_RECONNECT_REQ\<rparr>
      | Some addr \<Rightarrow>
          if addr \<noteq> 0 then
            if \<not> pCon c \<or> \<not> con_tcp c then c
            else goto TCP_CONNECTING (tcp_connect (c\<lparr>remote_ip := ip_bytes addr\<rparr>))
          else system_os_post c)"

definition MQTT_Connect :: "mqtt_env \<Rightarrow> mqtt_client \<Rightarrow> mqtt_client" where
  "MQTT_Connect env c =
     (if host c = None \<or> in_buffer c = None \<or> \<not> out_buffer c \<or> work_buffer c = None then c
      else
        let c = (if pCon c then mqtt_tcpclient_delete c else c);
            c = c\<lparr>in_buffer_used := 0, pCon := True, con_tcp := True, con_reverse := True,
                  remote_ip := [0, 0, 0, 0],
                  keepAliveTick := 0, reconnectTick := 0, connectTick := 0,
                  is_waiting_for_ack := False, pending_msg_id := 0, pending_msg_type := 0,
                  sendTimeout := 0, is_waiting_for_pingresp := False, pingrespTimeout := 0,
                  publish_send_callback_pending := False\<rparr>;
            c = emit TimerArm (emit TimerDisarm c);
            (is_ip, ip) = UTILS_StrToIP (the (host c)) (remote_ip c);
            c = c\<lparr>remote_ip := ip\<rparr>
        in if is_ip then (tcp_connect c)\<lparr>connState := TCP_CONNECTING\<rparr>
           else case dns_gethostbyname env (the (host c)) of
             DnsOk addr \<Rightarrow> mqtt_dns_found (Some addr) c
           | DnsInProgress \<Rightarrow> goto TCP_CONNECTING c
           | DnsFailed \<Rightarrow> goto TCP_RECONNECT_REQ c)"

definition MQTT_Disconnect :: "mqtt_client \<Rightarrow> mqtt_client" where
  "MQTT_Disconnect c = emit TimerDisarm (goto TCP_DISCONNECTING c)"

definition MQTT_DeleteClient :: "mqtt_client \<Rightarrow> mqtt_client" where
  "MQTT_DeleteClient c = emit TimerDisarm (goto MQTT_DELETED c)"

section \<open>Queueing messages\<close>

text \<open>
  The common end of \<open>MQTT_Publish\<close>, \<open>MQTT_Subscribe\<close>, \<open>MQTT_UnSubscribe\<close> and
  \<open>MQTT_Ping\<close>: the built message is queued, or the call fails.
\<close>

definition queue_outbound :: "mqtt_client \<Rightarrow> bool \<times> mqtt_client" where
  "queue_outbound c =
     (let c = c\<lparr>outbound_message := True\<rparr>
      in if \<not> built c then (False, c\<lparr>outbound_message := False\<rparr>)
         else
           let (r, q) = QUEUE_Puts (msgQueue c) (mqtt_bytes (mqtt_conn c)) (of_nat (msg_length (mqtt_conn c)));
               c = c\<lparr>msgQueue := q, outbound_message := False\<rparr>
           in if r = -1 then (False, c) else (True, system_os_post c))"

definition MQTT_Publish ::
  "bytes option \<Rightarrow> bytes option \<Rightarrow> int \<Rightarrow> int \<Rightarrow> int \<Rightarrow> mqtt_client \<Rightarrow> bool \<times> mqtt_client" where
  "MQTT_Publish topic data data_length qos retain c =
     (if work_buffer c = None \<or> \<not> out_buffer c \<or> \<not> connect_info_set c \<or> q_buf (msgQueue c) = None \<or>
         topic = None \<or> data_length < 0 \<or> qos < 0 \<or> qos > 2 \<or> (data = None \<and> data_length > 0)
      then (False, c)
      else
        let data = (case data of None \<Rightarrow> [] | Some d \<Rightarrow> d)
        in queue_outbound
             (c\<lparr>mqtt_conn := fst (mqtt_msg_publish (mqtt_conn c) topic data (nat data_length) qos retain)\<rparr>))"

definition MQTT_Subscribe :: "bytes option \<Rightarrow> nat \<Rightarrow> mqtt_client \<Rightarrow> bool \<times> mqtt_client" where
  "MQTT_Subscribe topic qos c =
     (if work_buffer c = None \<or> \<not> out_buffer c \<or> q_buf (msgQueue c) = None \<or> topic = None \<or> qos > 2
      then (False, c)
      else queue_outbound (c\<lparr>mqtt_conn := fst (mqtt_msg_subscribe (mqtt_conn c) topic (int qos))\<rparr>))"

definition MQTT_UnSubscribe :: "bytes option \<Rightarrow> mqtt_client \<Rightarrow> bool \<times> mqtt_client" where
  "MQTT_UnSubscribe topic c =
     (if work_buffer c = None \<or> \<not> out_buffer c \<or> q_buf (msgQueue c) = None \<or> topic = None
      then (False, c)
      else queue_outbound (c\<lparr>mqtt_conn := fst (mqtt_msg_unsubscribe (mqtt_conn c) topic)\<rparr>))"

definition MQTT_Ping :: "mqtt_client \<Rightarrow> bool \<times> mqtt_client" where
  "MQTT_Ping c =
     (if work_buffer c = None \<or> \<not> out_buffer c \<or> q_buf (msgQueue c) = None then (False, c)
      else queue_outbound (c\<lparr>mqtt_conn := mqtt_msg_pingreq (mqtt_conn c)\<rparr>))"

section \<open>Callbacks\<close>

fun api_run :: "mqtt_env \<Rightarrow> api_call \<Rightarrow> mqtt_client \<Rightarrow> mqtt_client" where
  "api_run env (ApiPublish topic data n qos retain) c = snd (MQTT_Publish topic data n qos retain c)"
| "api_run env (ApiSubscribe topic qos) c = snd (MQTT_Subscribe topic qos c)"
| "api_run env (ApiUnSubscribe topic) c = snd (MQTT_UnSubscribe topic c)"
| "api_run env ApiPing c = snd (MQTT_Ping c)"
| "api_run env ApiConnect c = MQTT_Connect env c"
| "api_run env ApiDisconnect c = MQTT_Disconnect c"
| "api_run env ApiDeleteClient c = MQTT_DeleteClient c"

definition run_cb :: "mqtt_env \<Rightarrow> callback \<Rightarrow> mqtt_client \<Rightarrow> mqtt_client" where
  "run_cb env cb c = fold (api_run env) (cb_script env cb c) (emit (Call cb) c)"

section \<open>Receiving\<close>

text \<open>
  The length of the first packet in the buffer: 0 when its header is incomplete, -1 when the
  remaining length has more than four bytes. The sums stay below \<open>2 ^ 29\<close>.
\<close>

function packet_length_loop :: "bytes \<Rightarrow> nat \<Rightarrow> nat \<Rightarrow> nat \<Rightarrow> nat \<Rightarrow> int" where
  "packet_length_loop buffer len i remaining multiplier =
     (if i \<le> 4 then
        if i \<ge> len then 0
        else
          let remaining = remaining + unat (buffer ! i AND 0x7f) * multiplier
          in if buffer ! i AND 0x80 = 0 then int (i + 1 + remaining)
             else packet_length_loop buffer len (i + 1) remaining (multiplier * 128)
      else -1)"
  by pat_completeness auto
termination by (relation "measure (\<lambda>(_, _, i, _, _). 5 - i)") auto

declare packet_length_loop.simps [simp del]

definition mqtt_get_packet_length :: "bytes \<Rightarrow> nat \<Rightarrow> int" where
  "mqtt_get_packet_length buffer len = (if len < 2 then 0 else packet_length_loop buffer len 1 0 1)"

definition deliver_publish :: "mqtt_env \<Rightarrow> mqtt_client \<Rightarrow> mqtt_client" where
  "deliver_publish env c =
     (let message = the (in_buffer c);
          (topic, topic_length) = mqtt_get_publish_topic message (message_length_read c);
          (data, data_length) = mqtt_get_publish_data message (message_length_read c)
      in if dataCb c
         then run_cb env (DataCb (map_option (\<lambda>p. sub_bytes message p topic_length) topic) topic_length
                            (map_option (\<lambda>p. sub_bytes message p data_length) data) data_length) c
         else c)"

definition deliver_pingresp :: "mqtt_env \<Rightarrow> mqtt_client \<Rightarrow> mqtt_client" where
  "deliver_pingresp env c = (if pingrespCb c then run_cb env PingrespCb c else c)"

text \<open>The block that ends a queued message's exchange: the head leaves the queue.\<close>

definition finish_pending :: "mqtt_env \<Rightarrow> mqtt_client \<Rightarrow> mqtt_client" where
  "finish_pending env c =
     (let (r, q, work, n) = QUEUE_Gets (env_stack env) (msgQueue c) (the (work_buffer c)) MQTT_BUF_SIZE
      in c\<lparr>msgQueue := q, work_buffer := Some work, is_waiting_for_ack := False,
           pending_msg_id := 0, pending_msg_type := 0, sendTimeout := 0\<rparr>)"

text \<open>A packet received in state \<open>MQTT_CONNECT_SENDING\<close>.\<close>

definition recv_connect_sending :: "mqtt_env \<Rightarrow> nat \<Rightarrow> mqtt_client \<Rightarrow> mqtt_client" where
  "recv_connect_sending env msg_type c =
     (if msg_type \<noteq> MQTT_MSG_TYPE_CONNACK then c
      else if pending_msg_type c \<noteq> MQTT_MSG_TYPE_CONNECT then tcp_disconnect c
      else
        let c = c\<lparr>is_waiting_for_ack := False, pending_msg_type := 0, pending_msg_id := 0,
                  sendTimeout := 0\<rparr>
        in if mqtt_get_connect_return_code (the (in_buffer c)) = 0
           then
             let c = c\<lparr>connState := MQTT_DATA\<rparr>
             in if connectedCb c then run_cb env ConnectedCb c else c
           else tcp_disconnect c)"

text \<open>A packet received in state \<open>MQTT_DATA\<close> or \<open>MQTT_KEEPALIVE_SEND\<close>.\<close>

definition recv_data :: "mqtt_env \<Rightarrow> nat \<Rightarrow> nat \<Rightarrow> u16 \<Rightarrow> nat \<Rightarrow> mqtt_client \<Rightarrow> mqtt_client" where
  "recv_data env msg_type msg_qos msg_id len c =
     (let c = c\<lparr>message_length_read := len,
                message_length := mqtt_get_total_length (the (in_buffer c)) len\<rparr>
      in if msg_type = MQTT_MSG_TYPE_SUBACK then
           if pending_msg_type c = MQTT_MSG_TYPE_SUBSCRIBE \<and> pending_msg_id c = msg_id
           then finish_pending env c else c
         else if msg_type = MQTT_MSG_TYPE_UNSUBACK then
           if pending_msg_type c = MQTT_MSG_TYPE_UNSUBSCRIBE \<and> pending_msg_id c = msg_id
           then finish_pending env c else c
         else if msg_type = MQTT_MSG_TYPE_PUBLISH then
           let c = (if msg_qos = 1 then
                      mqtt_send_direct env
                        (c\<lparr>mqtt_conn := mqtt_msg_puback (mqtt_conn c) msg_id, outbound_message := True\<rparr>)
                    else if msg_qos = 2 then
                      mqtt_send_direct env
                        (c\<lparr>mqtt_conn := mqtt_msg_pubrec (mqtt_conn c) msg_id, outbound_message := True\<rparr>)
                    else c)
           in deliver_publish env c
         else if msg_type = MQTT_MSG_TYPE_PUBACK then
           if pending_msg_type c = MQTT_MSG_TYPE_PUBLISH \<and> pending_msg_id c = msg_id
           then finish_pending env c else c
         else if msg_type = MQTT_MSG_TYPE_PUBREC then
           if is_waiting_for_ack c \<and> pending_msg_id c = msg_id \<and>
              (pending_msg_type c = MQTT_MSG_TYPE_PUBLISH \<or> pending_msg_type c = MQTT_MSG_TYPE_PUBREL)
           then mqtt_send_direct env
                  (c\<lparr>pending_msg_type := MQTT_MSG_TYPE_PUBREL, sendTimeout := MQTT_SEND_TIMOUT,
                     mqtt_conn := mqtt_msg_pubrel (mqtt_conn c) msg_id, outbound_message := True\<rparr>)
           else c
         else if msg_type = MQTT_MSG_TYPE_PUBREL then
           mqtt_send_direct env
             (c\<lparr>mqtt_conn := mqtt_msg_pubcomp (mqtt_conn c) msg_id, outbound_message := True\<rparr>)
         else if msg_type = MQTT_MSG_TYPE_PUBCOMP then
           if pending_msg_type c = MQTT_MSG_TYPE_PUBREL \<and> pending_msg_id c = msg_id
           then finish_pending env c else c
         else if msg_type = MQTT_MSG_TYPE_PINGREQ then
           mqtt_send_direct env
             (c\<lparr>mqtt_conn := mqtt_msg_pingresp (mqtt_conn c), outbound_message := True\<rparr>)
         else if msg_type = MQTT_MSG_TYPE_PINGRESP then
           let c = c\<lparr>keepAliveTick := 0\<rparr>;
               c = (if is_waiting_for_pingresp c
                    then c\<lparr>is_waiting_for_pingresp := False, pingrespTimeout := 0\<rparr>
                    else if pending_msg_type c = MQTT_MSG_TYPE_PINGREQ \<and> is_waiting_for_ack c
                    then finish_pending env c else c)
           in deliver_pingresp env c
         else c)"

text \<open>
  \<open>mqtt_tcpclient_recv\<close> in two parts: the copy of the incoming bytes (\<open>None\<close> as data is
  the call from \<open>MQTT_Task\<close>; the flag says whether it goes on) and the processing of at
  most one complete packet.
\<close>

definition recv_append :: "bytes option \<Rightarrow> mqtt_client \<Rightarrow> bool \<times> mqtt_client" where
  "recv_append pdata c =
     (case pdata of
        None \<Rightarrow> (True, c)
      | Some d \<Rightarrow>
          if d = [] then (True, c)
          else if in_buffer_used c + length d > MQTT_BUF_SIZE then
            let c = c\<lparr>in_buffer_used := 0\<rparr>
            in (False, if pCon c then emit TcpDisconnect c else c)
          else if in_buffer c = None \<or> work_buffer c = None then
            (False, if pCon c then emit TcpDisconnect c else c)
          else (True, c\<lparr>in_buffer := Some (put_bytes (the (in_buffer c)) (in_buffer_used c) d),
                        in_buffer_used := in_buffer_used c + length d\<rparr>))"

definition recv_dispatch :: "mqtt_env \<Rightarrow> nat \<Rightarrow> mqtt_client \<Rightarrow> mqtt_client" where
  "recv_dispatch env len c =
     (let buf = the (in_buffer c);
          msg_type = mqtt_get_type buf;
          msg_qos = mqtt_get_qos buf;
          msg_id = mqtt_get_id buf len
      in if connState c = MQTT_CONNECT_SENDING then recv_connect_sending env msg_type c
         else if connState c = MQTT_DATA \<or> connState c = MQTT_KEEPALIVE_SEND
         then recv_data env msg_type msg_qos msg_id len c
         else c)"

definition recv_remove :: "nat \<Rightarrow> nat \<Rightarrow> mqtt_client \<Rightarrow> mqtt_client" where
  "recv_remove packet_length used_before_processing c =
     (if connState c = TCP_RECONNECT_DISCONNECTING then c\<lparr>in_buffer_used := 0\<rparr>
      else if in_buffer_used c \<noteq> used_before_processing \<or> in_buffer c = None
      then c\<lparr>in_buffer_used := 0\<rparr>
      else
        let used = in_buffer_used c - packet_length;
            buf = the (in_buffer c)
        in system_os_post
             (c\<lparr>in_buffer_used := used,
                in_buffer := Some (put_bytes buf 0 (sub_bytes buf packet_length used))\<rparr>))"

definition recv_process :: "mqtt_env \<Rightarrow> mqtt_client \<Rightarrow> mqtt_client" where
  "recv_process env c =
     (if in_buffer_used c > 0 then
        let packet_length = mqtt_get_packet_length (the (in_buffer c)) (in_buffer_used c)
        in if packet_length < 0 \<or> packet_length > int MQTT_BUF_SIZE then
             let c = c\<lparr>in_buffer_used := 0\<rparr>
             in if pCon c then emit TcpDisconnect c else c
           else if packet_length > 0 \<and> packet_length \<le> int (in_buffer_used c) then
             recv_remove (nat packet_length) (in_buffer_used c)
               (recv_dispatch env (nat packet_length) c)
           else system_os_post c
      else system_os_post c)"

definition mqtt_tcpclient_recv :: "mqtt_env \<Rightarrow> bytes option \<Rightarrow> mqtt_client \<Rightarrow> mqtt_client" where
  "mqtt_tcpclient_recv env pdata c =
     (if \<not> con_reverse c then c
      else
        let (go, c) = recv_append pdata c
        in if go then recv_process env c else c)"

section \<open>The other connection callbacks and the timer\<close>

definition mqtt_tcpclient_sent_cb :: "mqtt_env \<Rightarrow> mqtt_client \<Rightarrow> mqtt_client" where
  "mqtt_tcpclient_sent_cb env c =
     (if \<not> con_reverse c then c
      else
        let c = c\<lparr>keepAliveTick := 0\<rparr>;
            c = (if \<not> is_waiting_for_ack c then c\<lparr>sendTimeout := 0\<rparr> else c);
            c = (if publish_send_callback_pending c then
                   let c = c\<lparr>publish_send_callback_pending := False\<rparr>
                   in if (connState c = MQTT_DATA \<or> connState c = MQTT_KEEPALIVE_SEND) \<and> publishedCb c
                      then run_cb env PublishedCb c else c
                 else c)
        in system_os_post c)"

definition mqtt_timer_state :: "mqtt_env \<Rightarrow> mqtt_client \<Rightarrow> mqtt_client" where
  "mqtt_timer_state env c =
     (if connState c = MQTT_DATA then
        let c = c\<lparr>keepAliveTick := keepAliveTick c + 1\<rparr>
        in if keepAliveTick c > keepalive (connect_info c) div 2 \<and> \<not> is_waiting_for_pingresp c \<and>
              \<not> is_waiting_for_ack c \<and> sendTimeout c = 0
           then goto MQTT_KEEPALIVE_SEND c else c
      else if connState c = TCP_RECONNECT_REQ then
        let c = c\<lparr>reconnectTick := reconnectTick c + 1\<rparr>
        in if reconnectTick c > MQTT_RECONNECT_TIMEOUT then
             let c = goto TCP_RECONNECT (c\<lparr>reconnectTick := 0\<rparr>)
             in if timeoutCb c then run_cb env TimeoutCb c else c
           else c
      else if connState c = TCP_CONNECTING then
        let c = c\<lparr>connectTick := connectTick c + 1\<rparr>
        in if connectTick c > MQTT_CONNECT_TIMEOUT then
             let c = goto TCP_RECONNECT (c\<lparr>connectTick := 0\<rparr>)
             in if timeoutCb c then run_cb env TimeoutCb c else c
           else c
      else c)"

definition mqtt_timer :: "mqtt_env \<Rightarrow> mqtt_client \<Rightarrow> mqtt_client" where
  "mqtt_timer env c =
     (if \<not> connect_info_set c then c
      else
        let c = mqtt_timer_state env c;
            c = (if is_waiting_for_pingresp c \<and> pingrespTimeout c > 0 then
                   let c = c\<lparr>pingrespTimeout := pingrespTimeout c - 1\<rparr>
                   in if pingrespTimeout c = 0
                      then goto TCP_RECONNECT_DISCONNECTING (c\<lparr>is_waiting_for_pingresp := False\<rparr>)
                      else c
                 else c)
        in if sendTimeout c > 0 then
             let c = c\<lparr>sendTimeout := sendTimeout c - 1\<rparr>
             in if sendTimeout c = 0 then goto TCP_RECONNECT_DISCONNECTING c else c
           else c)"

definition mqtt_tcpclient_discon_cb :: "mqtt_env \<Rightarrow> mqtt_client \<Rightarrow> mqtt_client" where
  "mqtt_tcpclient_discon_cb env c =
     (if \<not> con_reverse c then c
      else
        let c = c\<lparr>in_buffer_used := 0, is_waiting_for_ack := False, pending_msg_id := 0,
                  pending_msg_type := 0, sendTimeout := 0, is_waiting_for_pingresp := False,
                  pingrespTimeout := 0, publish_send_callback_pending := False\<rparr>;
            c = (if connState c = TCP_DISCONNECTING then c\<lparr>connState := TCP_DISCONNECTED\<rparr>
                 else if connState c = MQTT_DELETING then c\<lparr>connState := MQTT_DELETED\<rparr>
                 else c\<lparr>connState := TCP_RECONNECT_REQ\<rparr>);
            c = (if disconnectedCb c then run_cb env DisconnectedCb c else c)
        in system_os_post c)"

definition mqtt_tcpclient_connect_cb :: "mqtt_env \<Rightarrow> mqtt_client \<Rightarrow> mqtt_client" where
  "mqtt_tcpclient_connect_cb env c =
     (if \<not> con_reverse c then c
      else if \<not> out_buffer c \<or> \<not> connect_info_set c then goto TCP_RECONNECT_DISCONNECTING c
      else
        let c = c\<lparr>mqtt_conn := mqtt_msg_connect
                    (mqtt_msg_init (cbuffer (mqtt_conn c)) (out_buffer_length c)) (connect_info c),
                  outbound_message := True\<rparr>
        in if \<not> built c then goto TCP_RECONNECT_DISCONNECTING (c\<lparr>outbound_message := False\<rparr>)
           else
             let m = mqtt_bytes (mqtt_conn c);
                 c = c\<lparr>pending_msg_type := mqtt_get_type m, pending_msg_id := mqtt_get_id m (msg_length (mqtt_conn c))\<rparr>;
                 (result, c) = tcp_send env m c;
                 c = c\<lparr>outbound_message := False\<rparr>
             in if result \<noteq> 0 then goto TCP_RECONNECT_DISCONNECTING (c\<lparr>sendTimeout := 0\<rparr>)
                else goto MQTT_CONNECT_SENDING
                       (c\<lparr>sendTimeout := MQTT_SEND_TIMOUT, is_waiting_for_ack := True\<rparr>))"

definition mqtt_tcpclient_recon_cb :: "mqtt_client \<Rightarrow> mqtt_client" where
  "mqtt_tcpclient_recon_cb c = (if \<not> con_reverse c then c else goto TCP_RECONNECT_REQ c)"

section \<open>The task\<close>

definition needs_ack :: "nat \<Rightarrow> nat \<Rightarrow> bool" where
  "needs_ack type qos \<longleftrightarrow>
     (type = MQTT_MSG_TYPE_PUBLISH \<and> qos > 0) \<or>
     type \<in> {MQTT_MSG_TYPE_SUBSCRIBE, MQTT_MSG_TYPE_UNSUBSCRIBE, MQTT_MSG_TYPE_PUBREL,
             MQTT_MSG_TYPE_PINGREQ}"

text \<open>Sending the head of the queue in state \<open>MQTT_DATA\<close>.\<close>

definition task_send :: "mqtt_env \<Rightarrow> mqtt_client \<Rightarrow> mqtt_client" where
  "task_send env c =
     (if \<not> pCon c \<or> QUEUE_IsEmpty (msgQueue c) \<or> sendTimeout c \<noteq> 0 then c
      else if is_waiting_for_ack c then c
      else if is_waiting_for_pingresp c then c
      else
        let q0 = msgQueue c;
            (r, q, dataBuffer, dataLen) =
              QUEUE_Gets (env_stack env) q0 (the (work_buffer c)) MQTT_BUF_SIZE;
            c = c\<lparr>msgQueue := q, work_buffer := Some dataBuffer\<rparr>
        in if r \<noteq> 0 then c
           else
             let type = mqtt_get_type dataBuffer;
                 qos = mqtt_get_qos dataBuffer;
                 waiting = needs_ack type qos;
                 c = c\<lparr>pending_msg_type := type,
                       pending_msg_id := mqtt_get_id dataBuffer (the dataLen),
                       pending_publish_qos := qos,
                       is_waiting_for_ack := waiting,
                       msgQueue := (if waiting then queue_unread q0 q else q),
                       sendTimeout := MQTT_SEND_TIMOUT,
                       publish_send_callback_pending := (type = MQTT_MSG_TYPE_PUBLISH)\<rparr>;
                 (result, c) = tcp_send env (take (the dataLen) dataBuffer) c;
                 c = (if result \<noteq> 0
                      then goto TCP_RECONNECT_DISCONNECTING
                             (c\<lparr>msgQueue := queue_unread q0 (msgQueue c), is_waiting_for_ack := False,
                                pending_msg_id := 0, pending_msg_type := 0, sendTimeout := 0,
                                publish_send_callback_pending := False\<rparr>)
                      else c)
             in c\<lparr>outbound_message := False\<rparr>)"

definition MQTT_Task :: "mqtt_env \<Rightarrow> mqtt_client \<Rightarrow> mqtt_client" where
  "MQTT_Task env c =
     (if work_buffer c = None then c
      else if in_buffer_used c > 0 \<and> connState c \<noteq> TCP_RECONNECT_DISCONNECTING \<and> pCon c \<and>
              (let pkt_len = mqtt_get_packet_length (the (in_buffer c)) (in_buffer_used c)
               in pkt_len > 0 \<and> pkt_len \<le> int (in_buffer_used c) \<and> pkt_len \<le> int MQTT_BUF_SIZE)
      then mqtt_tcpclient_recv env None c
      else case connState c of
        TCP_RECONNECT \<Rightarrow> (MQTT_Connect env (mqtt_tcpclient_delete c))\<lparr>connState := TCP_CONNECTING\<rparr>
      | MQTT_DELETING \<Rightarrow> (if pCon c then tcp_disconnect c else c)
      | TCP_DISCONNECTING \<Rightarrow> (if pCon c then tcp_disconnect c else c)
      | TCP_RECONNECT_DISCONNECTING \<Rightarrow> (if pCon c then tcp_disconnect c else c)
      | TCP_DISCONNECTED \<Rightarrow> mqtt_tcpclient_delete c
      | MQTT_DELETED \<Rightarrow> mqtt_client_delete c
      | MQTT_KEEPALIVE_SEND \<Rightarrow> mqtt_send_keepalive env c
      | MQTT_DATA \<Rightarrow> task_send env c
      | _ \<Rightarrow> c)"

section \<open>Initialisation\<close>

text \<open>
  The client after \<open>memset (mqttClient, 0, sizeof (MQTT_Client))\<close>, which leaves the
  static \<open>espconn\<close> alone.
\<close>

definition zero_info :: mqtt_connect_info where
  "zero_info = \<lparr>client_id = None, username = None, password = None, will_topic = None,
     will_message = None, keepalive = 0, will_qos = 0, will_retain = 0, clean_session = 0\<rparr>"

definition blank_client :: mqtt_client where
  "blank_client =
     \<lparr>pCon = False, con_reverse = False, con_tcp = False, remote_ip = [],
      security = False, host = None, port = 0, connect_info_set = False,
      in_buffer = None, out_buffer = False, work_buffer = None, in_buffer_used = 0,
      out_buffer_length = 0, message_length = 0, message_length_read = 0,
      outbound_message = False, mqtt_conn = mqtt_msg_init [] 0,
      pending_msg_id = 0, pending_msg_type = 0, pending_publish_qos = 0,
      is_waiting_for_ack = False, connect_info = zero_info,
      connectedCb = False, disconnectedCb = False, publishedCb = False, pingrespCb = False,
      timeoutCb = False, dataCb = False,
      keepAliveTick = 0, reconnectTick = 0, connectTick = 0, sendTimeout = 0, pingrespTimeout = 0,
      is_waiting_for_pingresp = False, publish_send_callback_pending = False,
      connState = WIFI_INIT,
      msgQueue = \<lparr>q_buf = None, q_rb = \<lparr>p_o = [], p_r = 0, p_w = 0, fill_cnt = 0, rb_size = 0\<rparr>\<rparr>,
      user_data = False, eff = []\<rparr>"

definition zero_client :: "mqtt_client \<Rightarrow> mqtt_client" where
  "zero_client c =
     blank_client\<lparr>con_reverse := con_reverse c, con_tcp := con_tcp c, remote_ip := remote_ip c,
                  eff := eff c\<rparr>"

text \<open>A copy of a C string on the heap: the \<open>k\<close>-th allocation of the call.\<close>

definition dup_string :: "mqtt_env \<Rightarrow> nat \<Rightarrow> bytes \<Rightarrow> bytes option" where
  "dup_string env k s = map_option (\<lambda>_. s) (os_zalloc env k (int (length s) + 1))"

definition MQTT_InitConnection ::
  "mqtt_env \<Rightarrow> bytes option \<Rightarrow> u32 \<Rightarrow> bool \<Rightarrow> mqtt_client \<Rightarrow> mqtt_client" where
  "MQTT_InitConnection env hst prt sec c =
     (case hst of
        None \<Rightarrow> c
      | Some h \<Rightarrow>
          let c = (zero_client c)\<lparr>host := dup_string env 0 h\<rparr>
          in if host c = None then c else c\<lparr>port := prt, security := sec\<rparr>)"

definition free_strings :: "mqtt_client \<Rightarrow> mqtt_client" where
  "free_strings c =
     c\<lparr>connect_info := (connect_info c)\<lparr>client_id := None, username := None, password := None\<rparr>\<rparr>"

text \<open>
  The strings of \<open>MQTT_InitClient\<close>, allocations 0 to 2: \<open>None\<close> when one fails, with those
  allocated before it freed.
\<close>

definition init_strings ::
  "mqtt_env \<Rightarrow> bytes option \<Rightarrow> bytes option \<Rightarrow> bytes option \<Rightarrow> mqtt_client \<Rightarrow> bool \<times> mqtt_client" where
  "init_strings env cid user pass c =
     (let c = c\<lparr>connect_info := zero_info\<rparr>
      in case cid of
           None \<Rightarrow> (False, c)
         | Some i \<Rightarrow>
             if dup_string env 0 i = None then (False, c)
             else
               let c = c\<lparr>connect_info := (connect_info c)\<lparr>client_id := dup_string env 0 i\<rparr>\<rparr>;
                   u = (case user of None \<Rightarrow> None | Some u \<Rightarrow> dup_string env 1 u);
                   p = (case pass of None \<Rightarrow> None | Some p \<Rightarrow> dup_string env 2 p)
               in if user \<noteq> None \<and> u = None then (False, free_strings c)
                  else
                    let c = c\<lparr>connect_info := (connect_info c)\<lparr>username := u\<rparr>\<rparr>
                    in if pass \<noteq> None \<and> p = None then (False, free_strings c)
                       else (True, c\<lparr>connect_info := (connect_info c)\<lparr>password := p\<rparr>\<rparr>))"

definition free_buffers :: "mqtt_client \<Rightarrow> mqtt_client" where
  "free_buffers c = free_strings (c\<lparr>in_buffer := None, out_buffer := False, work_buffer := None\<rparr>)"

definition MQTT_InitClient ::
  "mqtt_env \<Rightarrow> bytes option \<Rightarrow> bytes option \<Rightarrow> bytes option \<Rightarrow> u32 \<Rightarrow> int \<Rightarrow> mqtt_client \<Rightarrow> bool \<times> mqtt_client" where
  "MQTT_InitClient env cid user pass keepAliveTime cleanSession c =
     (let (ok, c) = init_strings env cid user pass c
      in if \<not> ok then (False, c)
         else
           let i = os_zalloc env 3 (int MQTT_BUF_SIZE);
               out = os_zalloc env 4 (int MQTT_BUF_SIZE);
               w = os_zalloc env 5 (int MQTT_BUF_SIZE);
               c = c\<lparr>connect_info := (connect_info c)\<lparr>keepalive := keepAliveTime,
                       clean_session := cleanSession\<rparr>,
                     in_buffer := i, in_buffer_used := 0, out_buffer := (out \<noteq> None),
                     out_buffer_length := MQTT_BUF_SIZE, work_buffer := w\<rparr>
           in if i = None \<or> out = None \<or> w = None then (False, free_buffers c)
              else
                let c = c\<lparr>connect_info_set := True, is_waiting_for_ack := False, pending_msg_id := 0,
                          is_waiting_for_pingresp := False, pingrespTimeout := 0,
                          publish_send_callback_pending := False,
                          mqtt_conn := mqtt_msg_init (the out) MQTT_BUF_SIZE\<rparr>;
                    c = c\<lparr>msgQueue := QUEUE_Init (os_zalloc env 6) (msgQueue c) QUEUE_BUFFER_SIZE\<rparr>
                in if q_buf (msgQueue c) = None then (False, free_buffers c)
                   else (True, system_os_post (emit RegisterTask c)))"

definition MQTT_InitLWT ::
  "mqtt_env \<Rightarrow> bytes option \<Rightarrow> bytes option \<Rightarrow> nat \<Rightarrow> nat \<Rightarrow> mqtt_client \<Rightarrow> mqtt_client" where
  "MQTT_InitLWT env topic msg qos retain c =
     (case (topic, msg) of
        (Some t, Some m) \<Rightarrow>
          if qos > 2 then c
          else
            let new_topic = dup_string env 0 t; new_message = dup_string env 1 m
            in if new_topic = None then c
               else if new_message = None then c
               else c\<lparr>connect_info := (connect_info c)\<lparr>will_topic := new_topic,
                      will_message := new_message, will_qos := int qos, will_retain := int retain\<rparr>\<rparr>
      | _ \<Rightarrow> c)"

definition MQTT_OnConnected :: "bool \<Rightarrow> mqtt_client \<Rightarrow> mqtt_client" where
  "MQTT_OnConnected cb c = c\<lparr>connectedCb := cb\<rparr>"

definition MQTT_OnDisconnected :: "bool \<Rightarrow> mqtt_client \<Rightarrow> mqtt_client" where
  "MQTT_OnDisconnected cb c = c\<lparr>disconnectedCb := cb\<rparr>"

definition MQTT_OnData :: "bool \<Rightarrow> mqtt_client \<Rightarrow> mqtt_client" where
  "MQTT_OnData cb c = c\<lparr>dataCb := cb\<rparr>"

definition MQTT_OnPublished :: "bool \<Rightarrow> mqtt_client \<Rightarrow> mqtt_client" where
  "MQTT_OnPublished cb c = c\<lparr>publishedCb := cb\<rparr>"

definition MQTT_OnPingResp :: "bool \<Rightarrow> mqtt_client \<Rightarrow> mqtt_client" where
  "MQTT_OnPingResp cb c = c\<lparr>pingrespCb := cb\<rparr>"

definition MQTT_OnTimeout :: "bool \<Rightarrow> mqtt_client \<Rightarrow> mqtt_client" where
  "MQTT_OnTimeout cb c = c\<lparr>timeoutCb := cb\<rparr>"

end
