(* ===== verification/MqttInv.thy ===== *)
theory MqttInv
  imports MqttClient
begin

text \<open>
  The invariant of the MQTT client and what each operation does to the queue of messages.
  \<open>cinv\<close> bounds the buffers and the timeouts, says that the buffers are allocated together
  with the queue, and that the queue holds whole messages. \<open>pend_ok\<close> relates the pending
  message type and id to the head of the queue while an acknowledgement is awaited.
\<close>

section \<open>The invariant\<close>

definition holds_msgs :: "mqtt_client \<Rightarrow> bytes list \<Rightarrow> bool" where
  "holds_msgs c ms \<longleftrightarrow>
     queue_holds (msgQueue c) ms \<and> queue_room (msgQueue c) = 2048 \<and> (\<forall>m \<in> set ms. m \<noteq> [])"

definition buf2048 :: "bytes option \<Rightarrow> bool" where
  "buf2048 b \<longleftrightarrow> (case b of None \<Rightarrow> True | Some xs \<Rightarrow> length xs = 2048)"

definition cinv :: "mqtt_client \<Rightarrow> bool" where
  "cinv c \<longleftrightarrow>
     buf2048 (in_buffer c) \<and> buf2048 (work_buffer c) \<and>
     (in_buffer c = None \<longleftrightarrow> work_buffer c = None) \<and> (out_buffer c \<longleftrightarrow> work_buffer c \<noteq> None) \<and>
     (0 < in_buffer_used c \<longrightarrow> in_buffer c \<noteq> None \<and> pCon c) \<and> in_buffer_used c \<le> 2048 \<and>
     (work_buffer c \<noteq> None \<longrightarrow>
        q_buf (msgQueue c) \<noteq> None \<and> (\<exists>ms. holds_msgs c ms) \<and>
        conn_buf (mqtt_conn c) \<and> buffer_length (mqtt_conn c) = 2048 \<and> out_buffer_length c = 2048) \<and>
     sendTimeout c \<le> 5 \<and> pingrespTimeout c \<le> 5"

text \<open>Updates of fields the invariant does not read.\<close>

lemma holds_msgs_frame [simp]:
  "holds_msgs (c\<lparr>connState := st\<rparr>) ms = holds_msgs c ms"
  "holds_msgs (c\<lparr>eff := e\<rparr>) ms = holds_msgs c ms"
  "holds_msgs (c\<lparr>outbound_message := b\<rparr>) ms = holds_msgs c ms"
  "holds_msgs (c\<lparr>pending_msg_id := i\<rparr>) ms = holds_msgs c ms"
  "holds_msgs (c\<lparr>pending_msg_type := n\<rparr>) ms = holds_msgs c ms"
  "holds_msgs (c\<lparr>pending_publish_qos := n\<rparr>) ms = holds_msgs c ms"
  "holds_msgs (c\<lparr>is_waiting_for_ack := b\<rparr>) ms = holds_msgs c ms"
  "holds_msgs (c\<lparr>is_waiting_for_pingresp := b\<rparr>) ms = holds_msgs c ms"
  "holds_msgs (c\<lparr>publish_send_callback_pending := b\<rparr>) ms = holds_msgs c ms"
  "holds_msgs (c\<lparr>keepAliveTick := t\<rparr>) ms = holds_msgs c ms"
  "holds_msgs (c\<lparr>reconnectTick := t\<rparr>) ms = holds_msgs c ms"
  "holds_msgs (c\<lparr>connectTick := t\<rparr>) ms = holds_msgs c ms"
  "holds_msgs (c\<lparr>sendTimeout := t\<rparr>) ms = holds_msgs c ms"
  "holds_msgs (c\<lparr>pingrespTimeout := t\<rparr>) ms = holds_msgs c ms"
  "holds_msgs (c\<lparr>message_length := n\<rparr>) ms = holds_msgs c ms"
  "holds_msgs (c\<lparr>message_length_read := n\<rparr>) ms = holds_msgs c ms"
  "holds_msgs (c\<lparr>in_buffer_used := n\<rparr>) ms = holds_msgs c ms"
  "holds_msgs (c\<lparr>in_buffer := ib\<rparr>) ms = holds_msgs c ms"
  "holds_msgs (c\<lparr>work_buffer := ib\<rparr>) ms = holds_msgs c ms"
  "holds_msgs (c\<lparr>mqtt_conn := mc\<rparr>) ms = holds_msgs c ms"
  "holds_msgs (c\<lparr>pCon := b\<rparr>) ms = holds_msgs c ms"
  "holds_msgs (c\<lparr>con_tcp := b\<rparr>) ms = holds_msgs c ms"
  "holds_msgs (c\<lparr>con_reverse := b\<rparr>) ms = holds_msgs c ms"
  "holds_msgs (c\<lparr>remote_ip := ip\<rparr>) ms = holds_msgs c ms"
  by (simp_all add: holds_msgs_def)

lemma cinv_frame [simp]:
  "cinv (c\<lparr>connState := st\<rparr>) = cinv c"
  "cinv (c\<lparr>eff := e\<rparr>) = cinv c"
  "cinv (c\<lparr>outbound_message := b\<rparr>) = cinv c"
  "cinv (c\<lparr>pending_msg_id := i\<rparr>) = cinv c"
  "cinv (c\<lparr>pending_msg_type := n\<rparr>) = cinv c"
  "cinv (c\<lparr>pending_publish_qos := n\<rparr>) = cinv c"
  "cinv (c\<lparr>is_waiting_for_ack := b\<rparr>) = cinv c"
  "cinv (c\<lparr>is_waiting_for_pingresp := b\<rparr>) = cinv c"
  "cinv (c\<lparr>publish_send_callback_pending := b\<rparr>) = cinv c"
  "cinv (c\<lparr>keepAliveTick := t\<rparr>) = cinv c"
  "cinv (c\<lparr>reconnectTick := t\<rparr>) = cinv c"
  "cinv (c\<lparr>connectTick := t\<rparr>) = cinv c"
  "cinv (c\<lparr>message_length := n\<rparr>) = cinv c"
  "cinv (c\<lparr>message_length_read := n\<rparr>) = cinv c"
  "cinv (c\<lparr>con_tcp := b\<rparr>) = cinv c"
  "cinv (c\<lparr>con_reverse := b\<rparr>) = cinv c"
  "cinv (c\<lparr>remote_ip := ip\<rparr>) = cinv c"
  by (simp_all add: cinv_def)

text \<open>Updates that need an argument.\<close>

lemma cinv_timeouts:
  "cinv c \<Longrightarrow> t \<le> 5 \<Longrightarrow> cinv (c\<lparr>sendTimeout := t\<rparr>)"
  "cinv c \<Longrightarrow> t \<le> 5 \<Longrightarrow> cinv (c\<lparr>pingrespTimeout := t\<rparr>)"
  "cinv c \<Longrightarrow> cinv (c\<lparr>in_buffer_used := 0\<rparr>)"
  by (auto simp: cinv_def)

lemma cinv_mqtt_conn:
  "cinv c \<Longrightarrow> same_buf (mqtt_conn c) m \<or> work_buffer c = None \<Longrightarrow> cinv (c\<lparr>mqtt_conn := m\<rparr>)"
  by (auto simp: cinv_def same_buf_def)

lemma cinv_emit [simp]: "cinv (emit e c) = cinv c"
  and cinv_post [simp]: "cinv (system_os_post c) = cinv c"
  and cinv_goto [simp]: "cinv (goto st c) = cinv c"
  and cinv_tcp_disconnect [simp]: "cinv (tcp_disconnect c) = cinv c"
  and cinv_tcp_connect [simp]: "cinv (tcp_connect c) = cinv c"
  and cinv_tcp_send [simp]: "cinv (snd (tcp_send env d c)) = cinv c"
  by (simp_all add: emit_def system_os_post_def goto_def tcp_disconnect_def tcp_connect_def tcp_send_def)

lemma cinv_pCon: "cinv c \<Longrightarrow> cinv (c\<lparr>pCon := True\<rparr>)"
  by (auto simp: cinv_def)

lemmas cinv_updates = cinv_timeouts cinv_pCon

text \<open>
  The fields that these elementary steps leave alone, as one collection of simplification
  rules for the proofs below.
\<close>

lemma elementary_fields [simp]:
  "work_buffer (emit e c) = work_buffer c" "work_buffer (goto st c) = work_buffer c"
  "work_buffer (system_os_post c) = work_buffer c" "work_buffer (tcp_connect c) = work_buffer c"
  "work_buffer (tcp_disconnect c) = work_buffer c" "work_buffer (snd (tcp_send env d c)) = work_buffer c"
  "holds_msgs (emit e c) ms = holds_msgs c ms" "holds_msgs (goto st c) ms = holds_msgs c ms"
  "holds_msgs (system_os_post c) ms = holds_msgs c ms" "holds_msgs (tcp_connect c) ms = holds_msgs c ms"
  "holds_msgs (tcp_disconnect c) ms = holds_msgs c ms" "holds_msgs (snd (tcp_send env d c)) ms = holds_msgs c ms"
  by (simp_all add: emit_def system_os_post_def goto_def tcp_disconnect_def tcp_connect_def tcp_send_def)

section \<open>Queue evolution\<close>

text \<open>
  \<open>evolves k c c'\<close>: unless the buffers were freed, the queue of \<open>c'\<close> is that of \<open>c\<close>
  without its first \<open>k\<close> messages and with some messages appended.
\<close>

definition evolves :: "nat \<Rightarrow> mqtt_client \<Rightarrow> mqtt_client \<Rightarrow> bool" where
  "evolves k c c' \<longleftrightarrow>
     cinv c' \<and> (work_buffer c = None \<longrightarrow> work_buffer c' = None) \<and>
     (\<forall>ms. work_buffer c' \<noteq> None \<and> holds_msgs c ms \<longrightarrow> (\<exists>new. holds_msgs c' (drop k ms @ new)))"

lemma evolves_cinv: "evolves k c c' \<Longrightarrow> cinv c'"
  by (simp add: evolves_def)

lemma evolves_same:
  "cinv c' \<Longrightarrow> work_buffer c' = work_buffer c \<Longrightarrow> (\<And>ms. holds_msgs c' ms = holds_msgs c ms) \<Longrightarrow> evolves 0 c c'"
  unfolding evolves_def by (auto intro: exI [of _ "[]"])

lemma evolves_refl [simp]: "evolves 0 c c = cinv c"
  using evolves_same [of c c] evolves_cinv by auto

lemma evolves_then:
  assumes "evolves k a b" and "evolves 0 b c"
  shows "evolves k a c"
  unfolding evolves_def
proof (intro conjI allI impI)
  show "cinv c" using assms(2) by (rule evolves_cinv)
  show "work_buffer c = None" if "work_buffer a = None"
    using that assms by (simp add: evolves_def)
  fix ms assume *: "work_buffer c \<noteq> None \<and> holds_msgs a ms"
  then have "work_buffer b \<noteq> None" using assms(2) by (auto simp: evolves_def)
  with * assms(1) obtain n1 where "holds_msgs b (drop k ms @ n1)" by (auto simp: evolves_def)
  with * assms(2) obtain n2 where "holds_msgs c ((drop k ms @ n1) @ n2)" by (auto simp: evolves_def)
  then show "\<exists>new. holds_msgs c (drop k ms @ new)" by auto
qed

text \<open>A step that starts from a client with the same queue.\<close>

lemma evolves_from:
  "evolves k d c' \<Longrightarrow> work_buffer d = work_buffer c \<Longrightarrow> (\<And>ms. holds_msgs d ms = holds_msgs c ms) \<Longrightarrow>
   evolves k c c'"
  by (simp add: evolves_def)

lemma evolves_to:
  "evolves k c d \<Longrightarrow> cinv c' \<Longrightarrow> work_buffer c' = work_buffer d \<Longrightarrow>
   (\<And>ms. holds_msgs c' ms = holds_msgs d ms) \<Longrightarrow> evolves k c c'"
  by (simp add: evolves_def)

lemma evolves_elementary [simp]:
  "evolves k c (emit e d) = evolves k c d" "evolves k c (goto st d) = evolves k c d"
  "evolves k c (system_os_post d) = evolves k c d" "evolves k c (tcp_disconnect d) = evolves k c d"
  "evolves k c (tcp_connect d) = evolves k c d" "evolves k c (snd (tcp_send env x d)) = evolves k c d"
  by (simp_all add: evolves_def)

lemma evolves_frame [simp]:
  "evolves k c (d\<lparr>connState := st\<rparr>) = evolves k c d"
  "evolves k c (d\<lparr>eff := e\<rparr>) = evolves k c d"
  "evolves k c (d\<lparr>outbound_message := b\<rparr>) = evolves k c d"
  "evolves k c (d\<lparr>pending_msg_id := i\<rparr>) = evolves k c d"
  "evolves k c (d\<lparr>pending_msg_type := n\<rparr>) = evolves k c d"
  "evolves k c (d\<lparr>pending_publish_qos := n\<rparr>) = evolves k c d"
  "evolves k c (d\<lparr>is_waiting_for_ack := b\<rparr>) = evolves k c d"
  "evolves k c (d\<lparr>is_waiting_for_pingresp := b\<rparr>) = evolves k c d"
  "evolves k c (d\<lparr>publish_send_callback_pending := b\<rparr>) = evolves k c d"
  "evolves k c (d\<lparr>keepAliveTick := t\<rparr>) = evolves k c d"
  "evolves k c (d\<lparr>reconnectTick := t\<rparr>) = evolves k c d"
  "evolves k c (d\<lparr>connectTick := t\<rparr>) = evolves k c d"
  "evolves k c (d\<lparr>message_length := n\<rparr>) = evolves k c d"
  "evolves k c (d\<lparr>message_length_read := n\<rparr>) = evolves k c d"
  "evolves k c (d\<lparr>con_tcp := b\<rparr>) = evolves k c d"
  "evolves k c (d\<lparr>con_reverse := b\<rparr>) = evolves k c d"
  "evolves k c (d\<lparr>remote_ip := ip\<rparr>) = evolves k c d"
  by (simp_all add: evolves_def)

lemma evolves_updates [simp]:
  "evolves k c d \<Longrightarrow> t \<le> 5 \<Longrightarrow> evolves k c (d\<lparr>sendTimeout := t\<rparr>)"
  "evolves k c d \<Longrightarrow> t \<le> 5 \<Longrightarrow> evolves k c (d\<lparr>pingrespTimeout := t\<rparr>)"
  "evolves k c d \<Longrightarrow> evolves k c (d\<lparr>in_buffer_used := 0\<rparr>)"
  "evolves k c d \<Longrightarrow> evolves k c (d\<lparr>pCon := True\<rparr>)"
  by (auto simp: evolves_def cinv_updates)

section \<open>Operations that leave the queue\<close>

lemma mqtt_send_direct_evolves:
  assumes "cinv c" shows "evolves 0 c (mqtt_send_direct env c)"
proof -
  obtain r c1 where s: "tcp_send env (mqtt_bytes (mqtt_conn c)) (c\<lparr>outbound_message := False\<rparr>) = (r, c1)"
    by (metis surj_pair)
  have "evolves 0 c (c\<lparr>outbound_message := False\<rparr>)" using assms by (intro evolves_same) simp_all
  moreover from this have "evolves 0 c c1"
    using evolves_elementary(6) [of 0 c env "mqtt_bytes (mqtt_conn c)" "c\<lparr>outbound_message := False\<rparr>"]
    by (simp add: s)
  ultimately show ?thesis by (simp add: mqtt_send_direct_def Let_def s)
qed

lemma mqtt_send_keepalive_evolves:
  assumes "cinv c" shows "evolves 0 c (mqtt_send_keepalive env c)"
proof -
  define c1 where "c1 = c\<lparr>mqtt_conn := mqtt_msg_pingreq (mqtt_conn c), outbound_message := True\<rparr>"
  have c1: "cinv c1" "work_buffer c1 = work_buffer c" "\<And>ms. holds_msgs c1 ms = holds_msgs c ms"
    using assms enc_ok_simple [of "mqtt_conn c" MQTT_MSG_TYPE_PINGREQ 0 0 0]
    by (auto simp: c1_def cinv_def mqtt_msg_pingreq_def enc_ok_def same_buf_def)
  obtain r c2 where s: "tcp_send env (mqtt_bytes (mqtt_conn c1)) c1 = (r, c2)"
    by (metis surj_pair)
  have c2: "cinv c2" "work_buffer c2 = work_buffer c" "\<And>ms. holds_msgs c2 ms = holds_msgs c ms"
    using s c1 elementary_fields(6,12) [of env "mqtt_bytes (mqtt_conn c1)" c1]
      cinv_tcp_send [of env "mqtt_bytes (mqtt_conn c1)" c1] by auto
  show ?thesis
    using assms c1 c2
    by (auto simp: mqtt_send_keepalive_def s Let_def c1_def [symmetric] intro!: evolves_same cinv_timeouts)
qed

lemma mqtt_tcpclient_delete_evolves:
  assumes "cinv c" shows "evolves 0 c (mqtt_tcpclient_delete c)"
  by (rule evolves_same)
    (use assms in \<open>auto simp: mqtt_tcpclient_delete_def Let_def cinv_def emit_def\<close>)

lemma mqtt_client_delete_evolves:
  assumes "cinv c" shows "evolves 0 c (mqtt_client_delete c)"
proof -
  define d where "d = (if pCon (emit TimerDisarm c) then mqtt_tcpclient_delete (emit TimerDisarm c) else emit TimerDisarm c)"
  have "cinv d"
    using assms mqtt_tcpclient_delete_evolves [of "emit TimerDisarm c"] by (auto simp: d_def evolves_cinv)
  moreover have "in_buffer_used d = 0"
    using assms by (auto simp: d_def mqtt_tcpclient_delete_def Let_def emit_def cinv_def)
  ultimately show ?thesis
    by (simp add: mqtt_client_delete_def Let_def d_def [symmetric] evolves_def)
      (simp add: cinv_def buf2048_def)
qed

lemma MQTT_Connect_evolves:
  assumes "cinv c" shows "evolves 0 c (MQTT_Connect env c)"
proof -
  define d where "d = (if pCon c then mqtt_tcpclient_delete c else c)"
  have d: "evolves 0 c d" using assms mqtt_tcpclient_delete_evolves by (simp add: d_def)
  define e where "e = emit TimerArm (emit TimerDisarm (d\<lparr>in_buffer_used := 0, pCon := True, con_tcp := True,
      con_reverse := True, remote_ip := [0, 0, 0, 0], keepAliveTick := 0, reconnectTick := 0,
      connectTick := 0, is_waiting_for_ack := False, pending_msg_id := 0, pending_msg_type := 0,
      sendTimeout := 0, is_waiting_for_pingresp := False, pingrespTimeout := 0,
      publish_send_callback_pending := False\<rparr>))"
  have e: "evolves 0 c e"
    using evolves_cinv [OF d] by (intro evolves_to [OF d]) (simp_all add: e_def cinv_updates)
  have ip: "evolves 0 c (e\<lparr>remote_ip := ip\<rparr>)" for ip
    using evolves_cinv [OF e] by (intro evolves_to [OF e]) simp_all
  have ip': "evolves 0 c (e\<lparr>remote_ip := ip, connState := st\<rparr>)" for ip st
    using evolves_cinv [OF e] by (intro evolves_to [OF e]) simp_all
  have st: "evolves 0 c (x\<lparr>connState := s\<rparr>)" if "evolves 0 c x" for x s
    using evolves_cinv [OF that] by (intro evolves_to [OF that]) simp_all
  have dns: "evolves 0 c (mqtt_dns_found a (e\<lparr>remote_ip := ip\<rparr>))" for a ip
    using ip ip' by (auto simp: mqtt_dns_found_def intro: st split: option.split)
  show ?thesis
    using assms ip ip' dns
    by (simp add: MQTT_Connect_def Let_def d_def [symmetric] e_def [symmetric] st
        split: prod.split dns_result.split)
qed

section \<open>Operations that append to the queue\<close>

lemma queue_outbound_evolves:
  assumes c: "cinv c" and w: "work_buffer c \<noteq> None" and e: "msg_fits (mqtt_conn c)"
  shows "evolves 0 c (snd (queue_outbound c))"
proof (cases "built c")
  case False
  then have "queue_outbound c = (False, c\<lparr>outbound_message := True, outbound_message := False\<rparr>)"
    by (simp add: queue_outbound_def built_def)
  with c show ?thesis by (auto intro: evolves_same)
next
  case True
  let ?m = "mqtt_bytes (mqtt_conn c)"
  from c w have cb: "conn_buf (mqtt_conn c)" "buffer_length (mqtt_conn c) = 2048"
    by (auto simp: cinv_def)
  have len: "length ?m = msg_length (mqtt_conn c)" by (rule length_mqtt_bytes [OF cb(1) e])
  have "msg_length (mqtt_conn c) \<le> 2048" using e cb by (auto simp: msg_fits_def)
  then have lw: "length ?m = unat (of_nat (msg_length (mqtt_conn c)) :: u16)"
    using len by (simp add: unat_of_nat_length)
  have ne: "?m \<noteq> []" using True len by (auto simp: built_def)
  obtain r q where put: "QUEUE_Puts (msgQueue c) ?m (of_nat (msg_length (mqtt_conn c))) = (r, q)"
    by (metis surj_pair)
  let ?c' = "c\<lparr>outbound_message := True, msgQueue := q, outbound_message := False\<rparr>"
  have eq: "snd (queue_outbound c) = (if r = -1 then ?c' else system_os_post ?c')"
    using True put by (auto simp: queue_outbound_def built_def Let_def)
  have step: "\<exists>new. holds_msgs ?c' (ms @ new)" "q_buf q = q_buf (msgQueue c)" if "holds_msgs c ms" for ms
  proof -
    from that have h: "queue_holds (msgQueue c) ms" "queue_room (msgQueue c) = 2048"
      "\<forall>m\<in>set ms. m \<noteq> []" by (simp_all add: holds_msgs_def)
    show "q_buf q = q_buf (msgQueue c)"
      using put by (auto simp: QUEUE_Puts_def Let_def split: prod.splits if_splits)
    show "\<exists>new. holds_msgs ?c' (ms @ new)"
    proof (cases "sum_list (map (length \<circ> frame) ms) + length (frame ?m) \<le> queue_room (msgQueue c)")
      case True
      from QUEUE_Puts_fits [OF h(1) lw True] put h ne show ?thesis
        by (intro exI [of _ "[?m]"]) (auto simp: holds_msgs_def)
    next
      case False
      with QUEUE_Puts_full [OF h(1) lw] put h show ?thesis
        by (intro exI [of _ "[]"]) (auto simp: holds_msgs_def)
    qed
  qed
  from c w obtain ms0 where "holds_msgs c ms0" by (auto simp: cinv_def)
  from step [OF this] c have "cinv ?c'"
    by (auto simp: cinv_def)
  then have "evolves 0 c ?c'" using step by (auto simp: evolves_def)
  then show ?thesis by (simp add: eq)
qed

lemma queue_conn_evolves:
  assumes "cinv c" and "work_buffer c \<noteq> None" and "enc_ok (mqtt_conn c) m"
  shows "evolves 0 c (snd (queue_outbound (c\<lparr>mqtt_conn := m\<rparr>)))"
proof -
  from assms have "cinv (c\<lparr>mqtt_conn := m\<rparr>)" by (auto intro: cinv_mqtt_conn simp: enc_ok_def)
  with queue_outbound_evolves [of "c\<lparr>mqtt_conn := m\<rparr>"] assms
  have "evolves 0 (c\<lparr>mqtt_conn := m\<rparr>) (snd (queue_outbound (c\<lparr>mqtt_conn := m\<rparr>)))"
    by (simp add: enc_ok_def)
  then show ?thesis by (rule evolves_from) simp_all
qed

lemma cinv_conn_buf: "cinv c \<Longrightarrow> work_buffer c \<noteq> None \<Longrightarrow> conn_buf (mqtt_conn c)"
  by (auto simp: cinv_def)

lemma api_run_evolves:
  assumes "cinv c" shows "evolves 0 c (api_run env a c)"
proof (cases a)
  case (ApiPublish topic data n qos retain)
  then show ?thesis
    using assms queue_conn_evolves [OF assms] enc_ok_publish cinv_conn_buf [OF assms]
    by (simp add: MQTT_Publish_def Let_def)
next
  case (ApiSubscribe topic qos)
  then show ?thesis
    using assms queue_conn_evolves [OF assms] enc_ok_subscribe(1) cinv_conn_buf [OF assms]
    by (simp add: MQTT_Subscribe_def)
next
  case (ApiUnSubscribe topic)
  then show ?thesis
    using assms queue_conn_evolves [OF assms] enc_ok_subscribe(2) cinv_conn_buf [OF assms]
    by (simp add: MQTT_UnSubscribe_def)
next
  case ApiPing
  then show ?thesis
    using assms queue_conn_evolves [OF assms] enc_ok_simple cinv_conn_buf [OF assms]
    by (simp add: MQTT_Ping_def mqtt_msg_pingreq_def)
next
  case ApiConnect
  then show ?thesis using assms MQTT_Connect_evolves by simp
next
  case ApiDisconnect
  then show ?thesis using assms by (simp add: MQTT_Disconnect_def)
next
  case ApiDeleteClient
  then show ?thesis using assms by (simp add: MQTT_DeleteClient_def)
qed

lemma fold_api_evolves: "cinv c \<Longrightarrow> evolves 0 c (fold (api_run env) as c)"
proof (induction as arbitrary: c)
  case (Cons a as)
  from api_run_evolves [OF Cons.prems, of env a] have e: "evolves 0 c (api_run env a c)" .
  from Cons.IH [OF evolves_cinv [OF e]] evolves_then [OF e] show ?case by simp
qed simp

lemma run_cb_evolves: "cinv c \<Longrightarrow> evolves 0 c (run_cb env cb c)"
  unfolding run_cb_def by (rule evolves_from [OF fold_api_evolves]) simp_all

lemma evolves_run_cb [simp]: "evolves k c d \<Longrightarrow> evolves k c (run_cb env cb d)"
  using evolves_then run_cb_evolves evolves_cinv by blast

section \<open>Receiving\<close>

lemma finish_pending_head:
  assumes c: "cinv c" and w: "work_buffer c \<noteq> None" and h: "holds_msgs c ms"
  shows "holds_msgs (finish_pending env c) (drop 1 ms)" and "cinv (finish_pending env c)"
proof -
  obtain wb where wb: "work_buffer c = Some wb" "length wb = 2048"
    using c w by (auto simp: cinv_def buf2048_def)
  obtain r q work n where g: "QUEUE_Gets (env_stack env) (msgQueue c) wb 2048 = (r, q, work, n)"
    by (metis prod_cases4)
  have *: "holds_msgs (finish_pending env c) (drop 1 ms) \<and> length work = 2048 \<and> q_buf q = q_buf (msgQueue c)"
  proof (cases ms)
    case Nil
    with h have e: "queue_holds (msgQueue c) []" by (simp add: holds_msgs_def)
    from QUEUE_Gets_empty [OF e] g wb h Nil show ?thesis
      by (simp add: finish_pending_def holds_msgs_def)
  next
    case (Cons m ms')
    with h have e: "queue_holds (msgQueue c) (m # ms')" by (simp add: holds_msgs_def)
    from QUEUE_Gets_head [OF e, of 2048 wb] g wb h Cons
    show ?thesis
      by (fastforce simp: finish_pending_def holds_msgs_def QUEUE_Gets_def min_def split: prod.splits)
  qed
  then show "holds_msgs (finish_pending env c) (drop 1 ms)" ..
  with * c w wb g show "cinv (finish_pending env c)"
    by (auto simp: cinv_def finish_pending_def buf2048_def)
qed

lemma finish_pending_evolves:
  assumes c: "cinv c" and w: "work_buffer c \<noteq> None"
  shows "evolves 1 c (finish_pending env c)"
proof -
  from c w obtain ms0 where "holds_msgs c ms0" by (auto simp: cinv_def)
  from finish_pending_head(2) [OF c w this] finish_pending_head(1) [OF c w] w
  show ?thesis by (auto simp: evolves_def intro: exI [of _ "[]"])
qed

lemma send_conn_evolves:
  assumes "cinv c" and "same_buf (mqtt_conn c) m"
  shows "evolves 0 c (mqtt_send_direct env (c\<lparr>mqtt_conn := m, outbound_message := True\<rparr>))"
  by (rule evolves_from [OF mqtt_send_direct_evolves])
    (use assms in \<open>auto intro: cinv_mqtt_conn\<close>)

lemma deliver_evolves:
  "cinv c \<Longrightarrow> evolves 0 c (deliver_publish env c)" "cinv c \<Longrightarrow> evolves 0 c (deliver_pingresp env c)"
  by (simp_all add: deliver_publish_def deliver_pingresp_def run_cb_evolves Let_def split: prod.split)

definition ack_matches :: "mqtt_client \<Rightarrow> nat \<Rightarrow> u16 \<Rightarrow> bool" where
  "ack_matches c type mid \<longleftrightarrow>
     (pending_msg_id c = mid \<and>
      (type, pending_msg_type c) \<in>
        {(MQTT_MSG_TYPE_SUBACK, MQTT_MSG_TYPE_SUBSCRIBE), (MQTT_MSG_TYPE_UNSUBACK, MQTT_MSG_TYPE_UNSUBSCRIBE),
         (MQTT_MSG_TYPE_PUBACK, MQTT_MSG_TYPE_PUBLISH), (MQTT_MSG_TYPE_PUBCOMP, MQTT_MSG_TYPE_PUBREL)}) \<or>
     (type = MQTT_MSG_TYPE_PINGRESP \<and> pending_msg_type c = MQTT_MSG_TYPE_PINGREQ \<and>
      is_waiting_for_ack c \<and> \<not> is_waiting_for_pingresp c)"

lemma ack_bufs:
  assumes "cinv c" and "work_buffer c \<noteq> None"
  shows "same_buf (mqtt_conn c) (mqtt_msg_puback (mqtt_conn c) i)"
    and "same_buf (mqtt_conn c) (mqtt_msg_pubrec (mqtt_conn c) i)"
    and "same_buf (mqtt_conn c) (mqtt_msg_pubrel (mqtt_conn c) i)"
    and "same_buf (mqtt_conn c) (mqtt_msg_pubcomp (mqtt_conn c) i)"
    and "same_buf (mqtt_conn c) (mqtt_msg_pingresp (mqtt_conn c))"
  using enc_ok_msg_with_id [OF cinv_conn_buf [OF assms]] enc_ok_simple [OF cinv_conn_buf [OF assms]]
  by (auto simp: enc_ok_def mqtt_msg_puback_def mqtt_msg_pubrec_def mqtt_msg_pubrel_def
      mqtt_msg_pubcomp_def mqtt_msg_pingresp_def)

lemma recv_data_evolves:
  assumes c0: "cinv c0" and w0: "work_buffer c0 \<noteq> None"
  shows "evolves (if ack_matches c0 type mid then 1 else 0) c0 (recv_data env type qos mid len c0)"
proof -
  define c where "c = c0\<lparr>message_length_read := len,
      message_length := mqtt_get_total_length (the (in_buffer c0)) len\<rparr>"
  have c: "cinv c" and w: "work_buffer c \<noteq> None" using c0 w0 by (simp_all add: c_def)
  have m: "ack_matches c type mid = ack_matches c0 type mid" by (simp add: c_def ack_matches_def)
  have fin: "evolves 1 c (finish_pending env c)" by (rule finish_pending_evolves [OF c w])
  have "evolves (if ack_matches c type mid then 1 else 0) c (recv_data env type qos mid len c0)"
  proof -
    consider (9) "type = 9" | (11) "type = 11" | (3) "type = 3" | (4) "type = 4" | (5) "type = 5"
      | (6) "type = 6" | (7) "type = 7" | (12) "type = 12" | (13) "type = 13"
      | (other) "type \<notin> {3, 4, 5, 6, 7, 9, 11, 12, 13}" by auto
    then show ?thesis
    proof cases
      case 3
      define d where "d = (if qos = 1 then
            mqtt_send_direct env (c\<lparr>mqtt_conn := mqtt_msg_puback (mqtt_conn c) mid, outbound_message := True\<rparr>)
          else if qos = 2 then
            mqtt_send_direct env (c\<lparr>mqtt_conn := mqtt_msg_pubrec (mqtt_conn c) mid, outbound_message := True\<rparr>)
          else c)"
      have d: "evolves 0 c d"
        using send_conn_evolves [OF c] ack_bufs [OF c w] c by (simp add: d_def)
      have "recv_data env type qos mid len c0 = deliver_publish env d"
        by (simp add: recv_data_def 3 c_def [symmetric] d_def Let_def)
      with evolves_then [OF d deliver_evolves(1) [OF evolves_cinv [OF d]]] 3 show ?thesis
        by (simp add: ack_matches_def)
    next
      case 5
      have "evolves 0 c (mqtt_send_direct env (c\<lparr>pending_msg_type := MQTT_MSG_TYPE_PUBREL,
          sendTimeout := 5, mqtt_conn := mqtt_msg_pubrel (mqtt_conn c) mid, outbound_message := True\<rparr>))"
        by (rule evolves_from [OF mqtt_send_direct_evolves])
          (use c w ack_bufs [OF c w] in \<open>auto intro!: cinv_mqtt_conn cinv_updates\<close>)
      with 5 c show ?thesis
        by (simp add: recv_data_def c_def [symmetric] ack_matches_def)
    next
      case 13
      define d where "d = c\<lparr>keepAliveTick := 0\<rparr>"
      define e where "e = (if is_waiting_for_pingresp d
                    then d\<lparr>is_waiting_for_pingresp := False, pingrespTimeout := 0\<rparr>
                    else if pending_msg_type d = MQTT_MSG_TYPE_PINGREQ \<and> is_waiting_for_ack d
                    then finish_pending env d else d)"
      have d: "cinv d" "work_buffer d \<noteq> None" using c w by (simp_all add: d_def)
      have "evolves (if ack_matches c type mid then 1 else 0) d e"
        using d finish_pending_evolves [OF d] 13
        by (auto simp: e_def ack_matches_def d_def intro!: evolves_same cinv_updates)
      then have e: "evolves (if ack_matches c type mid then 1 else 0) c e"
        by (rule evolves_from) (simp_all add: d_def)
      have "recv_data env type qos mid len c0 = deliver_pingresp env e"
        by (simp add: recv_data_def 13 c_def [symmetric] d_def e_def Let_def)
      with evolves_then [OF e deliver_evolves(2) [OF evolves_cinv [OF e]]] show ?thesis by simp
    next
      case 6
      with send_conn_evolves [OF c ack_bufs(4) [OF c w]] show ?thesis
        by (simp add: recv_data_def c_def [symmetric] ack_matches_def)
    next
      case 12
      with send_conn_evolves [OF c ack_bufs(5) [OF c w]] show ?thesis
        by (simp add: recv_data_def c_def [symmetric] ack_matches_def)
    qed (use fin c in \<open>simp_all add: recv_data_def c_def [symmetric] ack_matches_def\<close>)
  qed
  then show ?thesis
    unfolding m by (rule evolves_from) (simp_all add: c_def)
qed

lemma recv_connect_sending_evolves:
  assumes "cinv c" shows "evolves 0 c (recv_connect_sending env type c)"
proof -
  define d where "d = c\<lparr>is_waiting_for_ack := False, pending_msg_type := 0, pending_msg_id := 0,
      sendTimeout := 0\<rparr>"
  have d: "evolves 0 c d" using assms by (intro evolves_same) (simp_all add: d_def cinv_updates)
  have e: "evolves 0 c (d\<lparr>connState := MQTT_DATA\<rparr>)"
    using evolves_cinv [OF d] by (intro evolves_to [OF d]) simp_all
  with evolves_then [OF e run_cb_evolves [OF evolves_cinv [OF e]]] d assms show ?thesis
    by (simp add: recv_connect_sending_def Let_def d_def [symmetric])
qed

text \<open>The packet at the head of the receive buffer removes the head of the queue.\<close>

definition recv_drops :: "mqtt_client \<Rightarrow> bool" where
  "recv_drops c \<longleftrightarrow>
     (let buf = the (in_buffer c); plen = mqtt_get_packet_length buf (in_buffer_used c); len = nat plen
      in 0 < plen \<and> plen \<le> int (in_buffer_used c) \<and>
         (connState c = MQTT_DATA \<or> connState c = MQTT_KEEPALIVE_SEND) \<and>
         ack_matches c (mqtt_get_type buf) (mqtt_get_id buf len))"

lemma recv_process_evolves:
  assumes c: "cinv c"
  shows "evolves (if recv_drops c then 1 else 0) c (recv_process env c)"
proof (cases "0 < in_buffer_used c \<and>
    0 < mqtt_get_packet_length (the (in_buffer c)) (in_buffer_used c) \<and>
    mqtt_get_packet_length (the (in_buffer c)) (in_buffer_used c) \<le> int (in_buffer_used c)")
  case False
  have "evolves 0 c (c\<lparr>in_buffer_used := 0\<rparr>)" using c by (intro evolves_same) (simp_all add: cinv_updates)
  moreover have "\<not> recv_drops c" using False by (auto simp: recv_drops_def Let_def)
  ultimately show ?thesis using False c
    by (auto simp: recv_process_def Let_def not_less)
next
  case True
  define len where "len = nat (mqtt_get_packet_length (the (in_buffer c)) (in_buffer_used c))"
  define d where "d = recv_dispatch env len c"
  have le: "mqtt_get_packet_length (the (in_buffer c)) (in_buffer_used c) \<le> 2048"
    using True c by (auto simp: cinv_def)
  have w: "work_buffer c \<noteq> None" using True c by (auto simp: cinv_def)
  have d: "evolves (if recv_drops c then 1 else 0) c d"
    using recv_data_evolves [OF c w] recv_connect_sending_evolves [OF c] c
    using True by (auto simp: d_def recv_dispatch_def recv_drops_def Let_def len_def)
  have u0: "evolves (if recv_drops c then 1 else 0) c (d\<lparr>in_buffer_used := 0\<rparr>)"
    using evolves_cinv [OF d] by (intro evolves_to [OF d]) (simp_all add: cinv_updates)
  have "evolves (if recv_drops c then 1 else 0) c (recv_remove len (in_buffer_used c) d)"
  proof (cases "connState d = TCP_RECONNECT_DISCONNECTING \<or> in_buffer_used d \<noteq> in_buffer_used c \<or> in_buffer d = None")
    case True
    with u0 show ?thesis by (auto simp: recv_remove_def)
  next
    case False
    then obtain b where b: "in_buffer d = Some b" "in_buffer_used d = in_buffer_used c" by auto
    have "length b = 2048" and "in_buffer_used c \<le> 2048"
      using evolves_cinv [OF d] c b by (auto simp: cinv_def buf2048_def)
    moreover have "len \<le> in_buffer_used c" using True by (simp add: len_def nat_le_iff)
    ultimately have "length (put_bytes b 0 (sub_bytes b len (in_buffer_used c - len))) = 2048"
      by (subst length_put_bytes) simp_all
    then have "cinv (d\<lparr>in_buffer_used := in_buffer_used c - len,
        in_buffer := Some (put_bytes b 0 (sub_bytes b len (in_buffer_used c - len)))\<rparr>)"
      using evolves_cinv [OF d] b by (auto simp: cinv_def buf2048_def)
    from evolves_to [OF d this] have "evolves (if recv_drops c then 1 else 0) c (d\<lparr>in_buffer_used := in_buffer_used c - len,
        in_buffer := Some (put_bytes b 0 (sub_bytes b len (in_buffer_used c - len)))\<rparr>)"
      by simp
    with False b show ?thesis by (simp add: recv_remove_def Let_def)
  qed
  with True le show ?thesis
    by (simp add: recv_process_def Let_def len_def d_def)
qed

lemma recv_append_evolves:
  assumes "cinv c" and "pdata = None \<or> pCon c"
  shows "evolves 0 c (snd (recv_append pdata c))"
proof (cases pdata)
  case None
  with assms show ?thesis by (simp add: recv_append_def)
next
  case (Some d)
  show ?thesis
  proof (cases "d \<noteq> [] \<and> in_buffer_used c + length d \<le> 2048 \<and> in_buffer c \<noteq> None \<and> work_buffer c \<noteq> None")
    case True
    then obtain b where b: "in_buffer c = Some b" "length b = 2048"
      using assms(1) by (auto simp: cinv_def buf2048_def)
    let ?c' = "c\<lparr>in_buffer := Some (put_bytes b (in_buffer_used c) d),
        in_buffer_used := in_buffer_used c + length d\<rparr>"
    have "cinv ?c'"
      using assms True b Some by (auto simp: cinv_def buf2048_def)
    then have "evolves 0 c ?c'" by (rule evolves_same) simp_all
    with True Some b show ?thesis by (auto simp: recv_append_def)
  next
    case False
    have "evolves 0 c (c\<lparr>in_buffer_used := 0\<rparr>)"
      using assms by (intro evolves_same) (simp_all add: cinv_updates)
    with False Some assms show ?thesis by (auto simp: recv_append_def Let_def not_le)
  qed
qed

lemma mqtt_tcpclient_recv_evolves:
  assumes "cinv c" and "pdata = None \<or> pCon c"
  shows "evolves (if con_reverse c \<and> fst (recv_append pdata c) \<and> recv_drops (snd (recv_append pdata c))
                  then 1 else 0) c (mqtt_tcpclient_recv env pdata c)"
proof -
  obtain go d where d: "recv_append pdata c = (go, d)" by (metis surj_pair)
  with recv_append_evolves [OF assms] have e: "evolves 0 c d" by simp
  from recv_process_evolves [OF evolves_cinv [OF e]]
  have p: "evolves (if recv_drops d then 1 else 0) d (recv_process env d)" .
  have frame: "work_buffer d = work_buffer c" "holds_msgs d ms = holds_msgs c ms" for ms
    using d by (auto simp: recv_append_def Let_def split: option.splits if_splits)
  from evolves_from [OF p frame] e d assms show ?thesis
    by (auto simp: mqtt_tcpclient_recv_def)
qed

section \<open>The other handlers\<close>

lemma mqtt_tcpclient_sent_cb_evolves:
  "cinv c \<Longrightarrow> evolves 0 c (mqtt_tcpclient_sent_cb env c)"
  by (simp add: mqtt_tcpclient_sent_cb_def Let_def)

lemma mqtt_timer_state_evolves: "cinv c \<Longrightarrow> evolves 0 c (mqtt_timer_state env c)"
  by (simp add: mqtt_timer_state_def Let_def)

lemma dec_le_5: "0 < (t :: u32) \<Longrightarrow> t \<le> 5 \<Longrightarrow> t - 1 \<le> 5"
  using unat_minus_one [of t] by (auto simp: word_le_nat_alt)

lemma mqtt_timer_evolves:
  assumes "cinv c" shows "evolves 0 c (mqtt_timer env c)"
proof -
  define d where "d = mqtt_timer_state env c"
  have d: "evolves 0 c d" using assms by (simp add: d_def mqtt_timer_state_evolves)
  define e where "e = (if is_waiting_for_pingresp d \<and> pingrespTimeout d > 0 then
      (let d = d\<lparr>pingrespTimeout := pingrespTimeout d - 1\<rparr>
       in if pingrespTimeout d = 0
          then goto TCP_RECONNECT_DISCONNECTING (d\<lparr>is_waiting_for_pingresp := False\<rparr>) else d)
      else d)"
  have "pingrespTimeout d \<le> 5" using evolves_cinv [OF d] by (simp add: cinv_def)
  then have "evolves 0 c e"
    using evolves_cinv [OF d] dec_le_5 [of "pingrespTimeout d"]
    by (intro evolves_to [OF d]) (simp_all add: e_def Let_def cinv_updates)
  note e = this
  have "sendTimeout e \<le> 5" using evolves_cinv [OF e] by (simp add: cinv_def)
  then have f: "evolves 0 c (e\<lparr>sendTimeout := sendTimeout e - 1\<rparr>)" if "sendTimeout e > 0"
    using evolves_cinv [OF e] dec_le_5 [OF that]
    by (intro evolves_to [OF e]) (simp_all add: cinv_updates)
  have "mqtt_timer env c = (if \<not> connect_info_set c then c else
      if sendTimeout e > 0 then
        (let e = e\<lparr>sendTimeout := sendTimeout e - 1\<rparr>
         in if sendTimeout e = 0 then goto TCP_RECONNECT_DISCONNECTING e else e)
      else e)"
    by (simp only: mqtt_timer_def Let_def d_def e_def)
  with e f assms show ?thesis by (simp add: Let_def)
qed

lemma mqtt_tcpclient_discon_cb_evolves:
  "cinv c \<Longrightarrow> evolves 0 c (mqtt_tcpclient_discon_cb env c)"
  by (simp add: mqtt_tcpclient_discon_cb_def Let_def)

lemma mqtt_tcpclient_recon_cb_evolves: "cinv c \<Longrightarrow> evolves 0 c (mqtt_tcpclient_recon_cb c)"
  by (simp add: mqtt_tcpclient_recon_cb_def)

lemma mqtt_tcpclient_connect_cb_evolves:
  assumes "cinv c" shows "evolves 0 c (mqtt_tcpclient_connect_cb env c)"
proof (cases "con_reverse c \<and> out_buffer c \<and> connect_info_set c")
  case False
  with assms show ?thesis by (auto simp: mqtt_tcpclient_connect_cb_def)
next
  case True
  define m where "m = mqtt_msg_connect (mqtt_msg_init (cbuffer (mqtt_conn c)) (out_buffer_length c)) (connect_info c)"
  have w: "work_buffer c \<noteq> None" using True assms by (auto simp: cinv_def)
  have "conn_buf (mqtt_msg_init (cbuffer (mqtt_conn c)) (out_buffer_length c))"
    "out_buffer_length c = buffer_length (mqtt_conn c)"
    using assms w by (auto simp: cinv_def conn_buf_def mqtt_msg_init_def)
  with mqtt_msg_connect_cases(1,2) [OF _ refl, of _ "connect_info c"]
  have "same_buf (mqtt_conn c) m"
    by (auto simp: same_buf_def m_def) (simp add: mqtt_msg_init_def)
  then have "cinv (c\<lparr>mqtt_conn := m\<rparr>)" using assms by (auto intro: cinv_mqtt_conn)
  then have d: "evolves 0 c (c\<lparr>mqtt_conn := m\<rparr>)" by (rule evolves_same) simp_all
  note up = evolves_to [OF d]
  define e where "e = c\<lparr>mqtt_conn := m, outbound_message := True,
      pending_msg_type := mqtt_get_type (mqtt_bytes m), pending_msg_id := mqtt_get_id (mqtt_bytes m) (msg_length m)\<rparr>"
  have e: "evolves 0 c e" using evolves_cinv [OF d] by (intro up) (simp_all add: e_def)
  obtain r f where s: "tcp_send env (mqtt_bytes m) e = (r, f)" by (metis surj_pair)
  with e evolves_elementary(6) [of 0 c env "mqtt_bytes m" e] have f: "evolves 0 c f" by simp
  have g: "evolves 0 c (f\<lparr>outbound_message := False, sendTimeout := 0\<rparr>)"
    "evolves 0 c (f\<lparr>outbound_message := False, sendTimeout := 5, is_waiting_for_ack := True\<rparr>)"
    using evolves_cinv [OF f] by (auto intro!: evolves_to [OF f] simp: cinv_updates)
  have h: "evolves 0 c (c\<lparr>mqtt_conn := m, outbound_message := False\<rparr>)"
    using evolves_cinv [OF d] by (intro up) simp_all
  show ?thesis
    using True g h by (simp add: mqtt_tcpclient_connect_cb_def Let_def m_def [symmetric] e_def [symmetric] s)
qed

section \<open>The task\<close>

lemma holds_length:
  assumes "holds_msgs c ms" and "m \<in> set ms"
  shows "length m \<le> 2046" and "m \<noteq> []"
proof -
  from assms(2) obtain xs ys where s: "ms = xs @ m # ys" by (metis split_list)
  from assms(1) have h: "rb_wf (q_rb (msgQueue c))" "rb_list (q_rb (msgQueue c)) = concat (map frame ms)"
    "rb_capacity (q_rb (msgQueue c)) = 2048"
    by (simp_all add: holds_msgs_def queue_holds_def queue_room_def)
  have "length (frame m) \<le> length (concat (map frame ms))" by (simp add: s)
  also have "\<dots> \<le> 2048" using rb_list_le_capacity [OF h(1)] h(2,3) by simp
  finally show "length m \<le> 2046" using length_frame_bounds [of m] by linarith
  show "m \<noteq> []" using assms by (auto simp: holds_msgs_def)
qed

text \<open>The task sends exactly the head of the queue; what remains depends on the result.\<close>

definition after_send :: "mqtt_env \<Rightarrow> mqtt_client \<Rightarrow> bytes \<Rightarrow> queue \<Rightarrow> bytes \<Rightarrow> mqtt_client" where
  "after_send env c m q wb =
     (let type = mqtt_get_type m; w = needs_ack type (mqtt_get_qos m);
          c = c\<lparr>msgQueue := q, work_buffer := Some wb, pending_msg_type := type,
                pending_msg_id := mqtt_get_id m (length m), pending_publish_qos := mqtt_get_qos m,
                is_waiting_for_ack := w, msgQueue := (if w then msgQueue c else q), sendTimeout := 5,
                publish_send_callback_pending := (type = MQTT_MSG_TYPE_PUBLISH)\<rparr>
      in snd (tcp_send env m c))"

lemma task_send_head:
  assumes c: "cinv c" and w: "work_buffer c \<noteq> None" and h: "holds_msgs c (m # ms)"
    and idle: "pCon c" "sendTimeout c = 0" "\<not> is_waiting_for_ack c" "\<not> is_waiting_for_pingresp c"
  obtains q wb where "holds_msgs (c\<lparr>msgQueue := q\<rparr>) ms" "q_buf q = q_buf (msgQueue c)" "length wb = 2048"
    "task_send env c =
       (if security c \<or> espconn_send env m \<noteq> 0
        then (goto TCP_RECONNECT_DISCONNECTING
               ((after_send env c m q wb)\<lparr>msgQueue := msgQueue c, is_waiting_for_ack := False,
                  pending_msg_id := 0, pending_msg_type := 0, sendTimeout := 0,
                  publish_send_callback_pending := False\<rparr>))\<lparr>outbound_message := False\<rparr>
        else (after_send env c m q wb)\<lparr>outbound_message := False\<rparr>)"
proof -
  obtain wb where wb: "work_buffer c = Some wb" "length wb = 2048"
    using c w by (auto simp: cinv_def buf2048_def)
  from h have qh: "queue_holds (msgQueue c) (m # ms)" by (simp add: holds_msgs_def)
  note len = holds_length [OF h, of m, simplified]
  from QUEUE_Gets_head [OF qh, of 2048 wb "env_stack env"] wb(2) len(1) obtain q where
    g: "QUEUE_Gets (env_stack env) (msgQueue c) wb 2048 = (0, q, put_bytes wb 0 m, Some (length m))"
    and q: "queue_holds q ms" "queue_room q = queue_room (msgQueue c)"
    by (auto simp: min_def)
  have pb: "put_bytes wb 0 m = m @ drop (length m) wb" by (simp add: put_bytes_def)
  have un: "queue_unread (msgQueue c) q = msgQueue c" by (rule queue_unread_Gets [OF g])
  have un2: "queue_unread (msgQueue c) (msgQueue c) = msgQueue c" by (simp add: queue_unread_def)
  have ne: "\<not> QUEUE_IsEmpty (msgQueue c)" using QUEUE_IsEmpty_holds [OF qh] by simp
  have qb: "q_buf q = q_buf (msgQueue c)"
    using g by (auto simp: QUEUE_Gets_def split: prod.splits)
  have hq: "holds_msgs (c\<lparr>msgQueue := q\<rparr>) ms" using q h by (simp add: holds_msgs_def)
  have lw: "length (m @ drop (length m) wb) = 2048" using len(1) wb(2) by simp
  have eq: "task_send env c =
       (if security c \<or> espconn_send env m \<noteq> 0
        then (goto TCP_RECONNECT_DISCONNECTING
               ((after_send env c m q (m @ drop (length m) wb))\<lparr>msgQueue := msgQueue c, is_waiting_for_ack := False,
                  pending_msg_id := 0, pending_msg_type := 0, sendTimeout := 0,
                  publish_send_callback_pending := False\<rparr>))\<lparr>outbound_message := False\<rparr>
        else (after_send env c m q (m @ drop (length m) wb))\<lparr>outbound_message := False\<rparr>)"
    using idle ne len(2)
    by (simp add: task_send_def g wb(1) Let_def pb after_send_def tcp_send_def un un2 emit_def)
  show ?thesis by (rule that [OF hq qb lw eq])
qed

definition task_drops :: "mqtt_env \<Rightarrow> mqtt_client \<Rightarrow> bytes \<Rightarrow> bool" where
  "task_drops env c m \<longleftrightarrow>
     \<not> needs_ack (mqtt_get_type m) (mqtt_get_qos m) \<and> \<not> security c \<and> espconn_send env m = 0"

end
