(* ===== verification/MqttSteps.thy ===== *)
theory MqttSteps
  imports MqttInv
begin

text \<open>
  The step relation of the MQTT client, its reachable states, and what holds in all of them:
  the invariant of MqttInv and the bookkeeping of the acknowledgement awaited. The events are
  the entry points the SDK and the application call.
\<close>

section \<open>What is pending\<close>

definition pend :: "mqtt_client \<Rightarrow> bool \<times> nat \<times> u16" where
  "pend c = (is_waiting_for_ack c, pending_msg_type c, pending_msg_id c)"

definition cleared :: "mqtt_client \<Rightarrow> bool" where
  "cleared c \<longleftrightarrow> \<not> is_waiting_for_ack c \<and> pending_msg_type c = 0"

definition quiet :: "mqtt_client \<Rightarrow> mqtt_client \<Rightarrow> bool" where
  "quiet c c' \<longleftrightarrow> pend c' = pend c \<or> cleared c'"

lemma quiet_refl [simp]: "quiet c c"
  by (simp add: quiet_def)

lemma quiet_trans: "quiet a b \<Longrightarrow> quiet b c \<Longrightarrow> quiet a c"
  by (auto simp: quiet_def cleared_def pend_def)

lemma quiet_cleared: "quiet a b \<Longrightarrow> cleared a \<Longrightarrow> cleared b"
  by (auto simp: quiet_def cleared_def pend_def)

lemma pend_frame [simp]:
  "pend (c\<lparr>connState := st\<rparr>) = pend c"
  "pend (c\<lparr>eff := e\<rparr>) = pend c"
  "pend (c\<lparr>outbound_message := b\<rparr>) = pend c"
  "pend (c\<lparr>pending_publish_qos := n\<rparr>) = pend c"
  "pend (c\<lparr>is_waiting_for_pingresp := b\<rparr>) = pend c"
  "pend (c\<lparr>publish_send_callback_pending := b\<rparr>) = pend c"
  "pend (c\<lparr>keepAliveTick := t\<rparr>) = pend c"
  "pend (c\<lparr>reconnectTick := t\<rparr>) = pend c"
  "pend (c\<lparr>connectTick := t\<rparr>) = pend c"
  "pend (c\<lparr>sendTimeout := t\<rparr>) = pend c"
  "pend (c\<lparr>pingrespTimeout := t\<rparr>) = pend c"
  "pend (c\<lparr>message_length := n\<rparr>) = pend c"
  "pend (c\<lparr>message_length_read := n\<rparr>) = pend c"
  "pend (c\<lparr>in_buffer_used := n\<rparr>) = pend c"
  "pend (c\<lparr>in_buffer := ib\<rparr>) = pend c"
  "pend (c\<lparr>work_buffer := ib\<rparr>) = pend c"
  "pend (c\<lparr>mqtt_conn := mc\<rparr>) = pend c"
  "pend (c\<lparr>msgQueue := q\<rparr>) = pend c"
  "pend (c\<lparr>pCon := b\<rparr>) = pend c"
  "pend (c\<lparr>con_tcp := b\<rparr>) = pend c"
  "pend (c\<lparr>con_reverse := b\<rparr>) = pend c"
  "pend (c\<lparr>remote_ip := ip\<rparr>) = pend c"
  by (simp_all add: pend_def)

lemma pend_elementary [simp]:
  "pend (emit e c) = pend c" "pend (goto st c) = pend c" "pend (system_os_post c) = pend c"
  "pend (tcp_connect c) = pend c" "pend (tcp_disconnect c) = pend c"
  "pend (snd (tcp_send env d c)) = pend c"
  by (simp_all add: emit_def system_os_post_def goto_def tcp_disconnect_def tcp_connect_def tcp_send_def)

lemma quiet_cong: "pend d = pend c \<Longrightarrow> quiet c d"
  by (simp add: quiet_def)

lemma quiet_then: "quiet c d \<Longrightarrow> pend e = pend d \<Longrightarrow> quiet c e"
  by (auto simp: quiet_def cleared_def pend_def)

lemma quiet_eq: "pend e = pend d \<Longrightarrow> quiet c e = quiet c d"
  by (auto simp: quiet_def cleared_def pend_def)

lemma quiet_frame [simp]:
  "quiet c (d\<lparr>connState := st\<rparr>) = quiet c d"
  "quiet c (d\<lparr>eff := e\<rparr>) = quiet c d"
  "quiet c (d\<lparr>outbound_message := b\<rparr>) = quiet c d"
  "quiet c (d\<lparr>pending_publish_qos := n\<rparr>) = quiet c d"
  "quiet c (d\<lparr>is_waiting_for_pingresp := b\<rparr>) = quiet c d"
  "quiet c (d\<lparr>publish_send_callback_pending := b\<rparr>) = quiet c d"
  "quiet c (d\<lparr>keepAliveTick := t\<rparr>) = quiet c d"
  "quiet c (d\<lparr>reconnectTick := t\<rparr>) = quiet c d"
  "quiet c (d\<lparr>connectTick := t\<rparr>) = quiet c d"
  "quiet c (d\<lparr>sendTimeout := t\<rparr>) = quiet c d"
  "quiet c (d\<lparr>pingrespTimeout := t\<rparr>) = quiet c d"
  "quiet c (d\<lparr>message_length := n\<rparr>) = quiet c d"
  "quiet c (d\<lparr>message_length_read := n\<rparr>) = quiet c d"
  "quiet c (d\<lparr>in_buffer_used := n\<rparr>) = quiet c d"
  "quiet c (d\<lparr>in_buffer := ib\<rparr>) = quiet c d"
  "quiet c (d\<lparr>mqtt_conn := mc\<rparr>) = quiet c d"
  "quiet c (d\<lparr>pCon := b\<rparr>) = quiet c d"
  "quiet c (emit ev d) = quiet c d" "quiet c (goto st d) = quiet c d"
  "quiet c (system_os_post d) = quiet c d" "quiet c (tcp_disconnect d) = quiet c d"
  by (rule quiet_eq, simp)+

lemma pend_send_direct [simp]: "pend (mqtt_send_direct env c) = pend c"
proof -
  obtain r d where "tcp_send env (mqtt_bytes (mqtt_conn c)) (c\<lparr>outbound_message := False\<rparr>) = (r, d)"
    by (metis surj_pair)
  moreover from this have "pend d = pend c"
    using pend_elementary(6) [of env "mqtt_bytes (mqtt_conn c)" "c\<lparr>outbound_message := False\<rparr>"] by simp
  ultimately show ?thesis by (simp add: mqtt_send_direct_def Let_def)
qed

lemma pend_send_keepalive [simp]: "pend (mqtt_send_keepalive env c) = pend c"
proof -
  define d where "d = c\<lparr>mqtt_conn := mqtt_msg_pingreq (mqtt_conn c), outbound_message := True\<rparr>"
  obtain r e where s: "tcp_send env (mqtt_bytes (mqtt_conn d)) d = (r, e)" by (metis surj_pair)
  then have "pend e = pend c"
    using pend_elementary(6) [of env "mqtt_bytes (mqtt_conn d)" d] by (simp add: d_def)
  then show ?thesis
    by (simp add: mqtt_send_keepalive_def Let_def d_def [symmetric] s) (simp add: d_def)
qed

lemma quiet_delete: "cleared (mqtt_tcpclient_delete c)"
  by (simp add: mqtt_tcpclient_delete_def Let_def cleared_def emit_def)

lemma pend_dns_found [simp]: "pend (mqtt_dns_found a c) = pend c"
  by (simp add: mqtt_dns_found_def split: option.split)

lemma cleared_pend: "pend c = (False, 0, i) \<Longrightarrow> cleared c"
  by (simp add: pend_def cleared_def)

lemma quiet_eqs [simp]:
  "quiet c (tcp_connect d) = quiet c d" "quiet c (mqtt_dns_found a d) = quiet c d"
  "quiet c (d\<lparr>remote_ip := ip\<rparr>) = quiet c d"
  by (rule quiet_eq, simp)+

lemma cleared_quiet: "cleared d \<Longrightarrow> quiet c d"
  by (simp add: quiet_def)

lemma quiet_Connect: "quiet c (MQTT_Connect env c)"
proof -
  define d where "d = (if pCon c then mqtt_tcpclient_delete c else c)"
  define e where "e = d\<lparr>in_buffer_used := 0, pCon := True, con_tcp := True,
      con_reverse := True, remote_ip := [0, 0, 0, 0], keepAliveTick := 0, reconnectTick := 0,
      connectTick := 0, is_waiting_for_ack := False, pending_msg_id := 0, pending_msg_type := 0,
      sendTimeout := 0, is_waiting_for_pingresp := False, pingrespTimeout := 0,
      publish_send_callback_pending := False\<rparr>"
  have "quiet c e" by (intro cleared_quiet) (simp add: e_def cleared_def)
  then show ?thesis
    by (simp add: MQTT_Connect_def Let_def d_def [symmetric] e_def [symmetric]
        split: prod.split dns_result.split)
qed

lemma pend_queue_outbound [simp]: "pend (snd (queue_outbound c)) = pend c"
  by (simp add: queue_outbound_def Let_def split: prod.split)

lemma quiet_api: "quiet c (api_run env a c)"
  by (cases a)
    (simp_all add: MQTT_Publish_def MQTT_Subscribe_def MQTT_UnSubscribe_def MQTT_Ping_def Let_def
      quiet_Connect MQTT_Disconnect_def MQTT_DeleteClient_def quiet_cong)

lemma quiet_fold_api: "quiet c (fold (api_run env) as c)"
proof (induction as arbitrary: c)
  case (Cons a as)
  show ?case using quiet_trans [OF quiet_api Cons.IH] by simp
qed simp

lemma quiet_run_cb: "quiet c (run_cb env cb c)"
  using quiet_fold_api [of "emit (Call cb) c" env] by (auto simp: run_cb_def quiet_def)

lemma quiet_run_cb_then [simp]: "quiet c d \<Longrightarrow> quiet c (run_cb env cb d)"
  using quiet_trans quiet_run_cb by blast

section \<open>What each handler does to the pending acknowledgement\<close>

text \<open>A PUBREC moves a publish to its second half.\<close>

definition pubrec_step :: "mqtt_client \<Rightarrow> mqtt_client \<Rightarrow> bool" where
  "pubrec_step c c' \<longleftrightarrow>
     is_waiting_for_ack c \<and> pending_msg_type c \<in> {MQTT_MSG_TYPE_PUBLISH, MQTT_MSG_TYPE_PUBREL} \<and>
     pend c' = (True, MQTT_MSG_TYPE_PUBREL, pending_msg_id c)"

lemma cleared_finish_pending: "cleared (finish_pending env c)"
  by (simp add: finish_pending_def cleared_def split: prod.split)

lemma quiet_deliver [simp]:
  "quiet c d \<Longrightarrow> quiet c (deliver_publish env d)" "quiet c d \<Longrightarrow> quiet c (deliver_pingresp env d)"
  by (simp_all add: deliver_publish_def deliver_pingresp_def Let_def split: prod.split)

lemma recv_data_pend:
  "(quiet c (recv_data env type qos mid len c) \<or> pubrec_step c (recv_data env type qos mid len c)) \<and>
   (ack_matches c type mid \<longrightarrow> cleared (recv_data env type qos mid len c))"
proof -
  define d where "d = c\<lparr>message_length_read := len,
      message_length := mqtt_get_total_length (the (in_buffer c)) len\<rparr>"
  have d: "quiet c d" "pend d = pend c" by (simp_all add: d_def quiet_cong)
  have dq: "quiet c e" if "pend e = pend d" for e using that d by (simp add: quiet_def)
  consider "type \<in> {9, 11, 4, 7}" | (3) "type = 3" | (5) "type = 5"
    | (6) "type = 6" | (12) "type = 12" | (13) "type = 13"
    | (other) "type \<notin> {3, 4, 5, 6, 7, 9, 11, 12, 13}" by auto
  then show ?thesis
  proof cases
    case 1
    then have "type = 9 \<or> type = 11 \<or> type = 4 \<or> type = 7" by simp
    then have "recv_data env type qos mid len c = (if ack_matches d type mid then finish_pending env d else d)"
      unfolding recv_data_def Let_def d_def [symmetric] ack_matches_def
      by (elim disjE) (simp_all add: conj_commute)
    moreover have "ack_matches d type mid = ack_matches c type mid" by (simp add: d_def ack_matches_def)
    ultimately have "recv_data env type qos mid len c = (if ack_matches c type mid then finish_pending env d else d)"
      by simp
    with d cleared_finish_pending [of env d] show ?thesis by (auto simp: quiet_def)
  next
    case 3
    then show ?thesis
      by (simp add: recv_data_def d_def [symmetric] ack_matches_def Let_def dq)
  next
    case 5
    then show ?thesis
      by (auto simp: recv_data_def d_def [symmetric] ack_matches_def Let_def d pubrec_step_def)
        (simp_all add: pend_def d_def)
  next
    case 13
    define f where "f = d\<lparr>keepAliveTick := 0\<rparr>"
    define e where "e = (if is_waiting_for_pingresp f
                  then f\<lparr>is_waiting_for_pingresp := False, pingrespTimeout := 0\<rparr>
                  else if pending_msg_type f = MQTT_MSG_TYPE_PINGREQ \<and> is_waiting_for_ack f
                  then finish_pending env f else f)"
    have e: "quiet c e" "ack_matches c type mid \<Longrightarrow> cleared e"
      using cleared_finish_pending [of env f] 13 d(2)
      by (auto simp: e_def f_def ack_matches_def quiet_def d_def)
    have "recv_data env type qos mid len c = deliver_pingresp env e"
      using 13 by (simp add: recv_data_def d_def [symmetric] e_def f_def Let_def)
    with e show ?thesis
      using quiet_cleared [of e "deliver_pingresp env e"] by simp
  qed (simp_all add: recv_data_def d_def [symmetric] ack_matches_def Let_def dq)
qed

lemma recv_connect_sending_pend: "quiet c (recv_connect_sending env type c)"
proof -
  define d where "d = c\<lparr>is_waiting_for_ack := False, pending_msg_type := 0, pending_msg_id := 0,
      sendTimeout := 0\<rparr>"
  have d: "cleared d" by (simp add: d_def cleared_def)
  have q: "quiet c x" if "cleared x" for x using that by (simp add: quiet_def)
  have s: "cleared (d\<lparr>connState := s\<rparr>)" "cleared (tcp_disconnect d)" for s
    using d by (simp_all add: cleared_def tcp_disconnect_def emit_def)
  then show ?thesis
    using quiet_cleared [OF quiet_run_cb s(1)]
    using q [OF d] by (simp add: recv_connect_sending_def Let_def d_def [symmetric] q)
qed

lemma pubrec_step_then: "pubrec_step c d \<Longrightarrow> pend e = pend d \<Longrightarrow> pubrec_step c e"
  by (simp add: pubrec_step_def)

lemma pend_recv_remove [simp]: "pend (recv_remove n u c) = pend c"
  by (simp add: recv_remove_def Let_def)

lemma recv_process_pend:
  "(quiet c (recv_process env c) \<or> pubrec_step c (recv_process env c)) \<and>
   (0 < in_buffer_used c \<and> in_buffer_used c \<le> 2048 \<and> recv_drops c \<longrightarrow> cleared (recv_process env c))"
proof -
  define len where "len = nat (mqtt_get_packet_length (the (in_buffer c)) (in_buffer_used c))"
  define d where "d = recv_dispatch env len c"
  have d: "quiet c d \<or> pubrec_step c d"
    using recv_data_pend recv_connect_sending_pend
    by (auto simp: d_def recv_dispatch_def Let_def)
  have cl: "cleared d" if "recv_drops c"
    using that recv_data_pend by (auto simp: d_def len_def recv_dispatch_def recv_drops_def Let_def)
  have e: "quiet c (recv_remove n u d) \<or> pubrec_step c (recv_remove n u d)" for n u
    using d quiet_then pubrec_step_then by (metis pend_recv_remove)
  have f: "cleared (recv_remove n u d)" if "cleared d" for n u
    using that pend_recv_remove [of n u d] by (auto simp: pend_def cleared_def)
  have eq: "recv_process env c = (if in_buffer_used c > 0 then
        if mqtt_get_packet_length (the (in_buffer c)) (in_buffer_used c) < 0 \<or>
           mqtt_get_packet_length (the (in_buffer c)) (in_buffer_used c) > 2048
        then (if pCon c then emit TcpDisconnect (c\<lparr>in_buffer_used := 0\<rparr>) else c\<lparr>in_buffer_used := 0\<rparr>)
        else if mqtt_get_packet_length (the (in_buffer c)) (in_buffer_used c) > 0 \<and>
                mqtt_get_packet_length (the (in_buffer c)) (in_buffer_used c) \<le> int (in_buffer_used c)
        then recv_remove len (in_buffer_used c) d else system_os_post c
      else system_os_post c)"
    by (simp add: recv_process_def Let_def d_def len_def)
  show ?thesis
    unfolding eq using e f cl by (auto simp: recv_drops_def Let_def intro: quiet_cong)
qed

lemma pend_recv_append: "pend (snd (recv_append pdata c)) = pend c"
  by (simp add: recv_append_def Let_def split: option.split)

lemma quiet_sent_cb: "quiet c (mqtt_tcpclient_sent_cb env c)"
  by (simp add: mqtt_tcpclient_sent_cb_def Let_def)

lemma quiet_timer_state: "quiet c (mqtt_timer_state env c)"
  by (simp add: mqtt_timer_state_def Let_def)

lemma quiet_timer: "quiet c (mqtt_timer env c)"
proof -
  define d where "d = mqtt_timer_state env c"
  define e where "e = (if is_waiting_for_pingresp d \<and> pingrespTimeout d > 0 then
      (let d = d\<lparr>pingrespTimeout := pingrespTimeout d - 1\<rparr>
       in if pingrespTimeout d = 0
          then goto TCP_RECONNECT_DISCONNECTING (d\<lparr>is_waiting_for_pingresp := False\<rparr>) else d)
      else d)"
  have "quiet c d" by (simp add: d_def quiet_timer_state)
  then have e: "quiet c e" by (simp add: e_def Let_def)
  have "mqtt_timer env c = (if \<not> connect_info_set c then c else
      if sendTimeout e > 0 then
        (let e = e\<lparr>sendTimeout := sendTimeout e - 1\<rparr>
         in if sendTimeout e = 0 then goto TCP_RECONNECT_DISCONNECTING e else e)
      else e)"
    by (simp only: mqtt_timer_def Let_def d_def e_def)
  with e show ?thesis by (simp add: Let_def)
qed

lemma discon_cb_pend: "quiet c (mqtt_tcpclient_discon_cb env c)"
proof -
  define d where "d = c\<lparr>in_buffer_used := 0, is_waiting_for_ack := False, pending_msg_id := 0,
      pending_msg_type := 0, sendTimeout := 0, is_waiting_for_pingresp := False,
      pingrespTimeout := 0, publish_send_callback_pending := False\<rparr>"
  have "quiet c d" by (intro cleared_quiet) (simp add: d_def cleared_def)
  then show ?thesis by (simp add: mqtt_tcpclient_discon_cb_def Let_def d_def [symmetric])
qed

lemma quiet_recon_cb: "quiet c (mqtt_tcpclient_recon_cb c)"
  by (simp add: mqtt_tcpclient_recon_cb_def)

lemma connect_cb_pend:
  assumes "cinv c"
  shows "quiet c (mqtt_tcpclient_connect_cb env c) \<or>
         pending_msg_type (mqtt_tcpclient_connect_cb env c) = MQTT_MSG_TYPE_CONNECT"
proof -
  define m where "m = mqtt_msg_connect (mqtt_msg_init (cbuffer (mqtt_conn c)) (out_buffer_length c)) (connect_info c)"
  define d where "d = c\<lparr>mqtt_conn := m, outbound_message := True\<rparr>"
  show ?thesis
  proof (cases "con_reverse c \<and> out_buffer c \<and> connect_info_set c \<and> built d")
    case False
    then consider "\<not> (con_reverse c \<and> out_buffer c \<and> connect_info_set c)"
      | "con_reverse c \<and> out_buffer c \<and> connect_info_set c" "\<not> built d" by blast
    then have "quiet c (mqtt_tcpclient_connect_cb env c)"
    proof cases
      case 1
      then show ?thesis by (cases "con_reverse c") (simp_all add: mqtt_tcpclient_connect_cb_def)
    next
      case 2
      then have "mqtt_tcpclient_connect_cb env c =
          goto TCP_RECONNECT_DISCONNECTING (d\<lparr>outbound_message := False\<rparr>)"
        unfolding mqtt_tcpclient_connect_cb_def Let_def m_def [symmetric] d_def [symmetric] by simp
      then show ?thesis by (simp add: d_def)
    qed
    then show ?thesis ..
  next
    case True
    then have "work_buffer c \<noteq> None" using assms by (auto simp: cinv_def)
    then have "conn_buf (mqtt_msg_init (cbuffer (mqtt_conn c)) (out_buffer_length c))"
      using assms by (auto simp: cinv_def conn_buf_def mqtt_msg_init_def)
    from mqtt_msg_connect_cases(3,4) [OF this refl, of "connect_info c"] True
    have "mqtt_bytes m = packet MQTT_MSG_TYPE_CONNECT 0 0 0 (connect_body (connect_info c))"
      by (auto simp: m_def d_def built_def)
    with packet_header(1) [of MQTT_MSG_TYPE_CONNECT 0 0 0 "connect_body (connect_info c)" "[]"]
    have ty: "mqtt_get_type (mqtt_bytes m) = MQTT_MSG_TYPE_CONNECT" by simp
    have "pending_msg_type (mqtt_tcpclient_connect_cb env c) = mqtt_get_type (mqtt_bytes m)"
      using True
      by (auto simp: mqtt_tcpclient_connect_cb_def Let_def m_def [symmetric] built_def d_def
          tcp_send_def goto_def system_os_post_def emit_def)
    with ty show ?thesis by simp
  qed
qed

section \<open>The events and the reachable states\<close>

datatype event =
  EvTask | EvTimer | EvReceived bytes | EvSent | EvDisconnected | EvConnected | EvReconnect
| EvDnsFound "u32 option" | EvApi api_call
| EvInitLWT "bytes option" "bytes option" nat nat
| EvOnConnected bool | EvOnDisconnected bool | EvOnData bool | EvOnPublished bool
| EvOnPingResp bool | EvOnTimeout bool

text \<open>
  One event. Data arrives only on a connection the client holds: \<open>espconn_delete\<close> ends the
  callbacks of the old one.
\<close>

inductive mqtt_step :: "mqtt_env \<Rightarrow> mqtt_client \<Rightarrow> event \<Rightarrow> mqtt_client \<Rightarrow> bool" for env where
  task: "mqtt_step env c EvTask (MQTT_Task env c)"
| timer: "mqtt_step env c EvTimer (mqtt_timer env c)"
| received: "pCon c \<Longrightarrow> mqtt_step env c (EvReceived d) (mqtt_tcpclient_recv env (Some d) c)"
| sent: "mqtt_step env c EvSent (mqtt_tcpclient_sent_cb env c)"
| disconnected: "mqtt_step env c EvDisconnected (mqtt_tcpclient_discon_cb env c)"
| connected: "mqtt_step env c EvConnected (mqtt_tcpclient_connect_cb env c)"
| reconnect: "mqtt_step env c EvReconnect (mqtt_tcpclient_recon_cb c)"
| dns: "mqtt_step env c (EvDnsFound ip) (mqtt_dns_found ip c)"
| api: "mqtt_step env c (EvApi a) (api_run env a c)"
| lwt: "mqtt_step env c (EvInitLWT t m q r) (MQTT_InitLWT env t m q r c)"
| on_connected: "mqtt_step env c (EvOnConnected b) (MQTT_OnConnected b c)"
| on_disconnected: "mqtt_step env c (EvOnDisconnected b) (MQTT_OnDisconnected b c)"
| on_data: "mqtt_step env c (EvOnData b) (MQTT_OnData b c)"
| on_published: "mqtt_step env c (EvOnPublished b) (MQTT_OnPublished b c)"
| on_pingresp: "mqtt_step env c (EvOnPingResp b) (MQTT_OnPingResp b c)"
| on_timeout: "mqtt_step env c (EvOnTimeout b) (MQTT_OnTimeout b c)"

inductive_cases mqtt_stepE: "mqtt_step env c ev c'"
inductive_simps mqtt_step_task: "mqtt_step env c EvTask c'"
inductive_simps mqtt_step_received: "mqtt_step env c (EvReceived d) c'"

definition heap_ok :: "mqtt_env \<Rightarrow> bool" where
  "heap_ok env \<longleftrightarrow> (\<forall>k n b. 0 \<le> n \<longrightarrow> os_zalloc env k n = Some b \<longrightarrow> int (length b) = n)"

text \<open>A client after \<open>MQTT_InitConnection\<close> and a successful \<open>MQTT_InitClient\<close>.\<close>

definition initial :: "mqtt_client \<Rightarrow> bool" where
  "initial c \<longleftrightarrow>
     (\<exists>env h prt sec cid user pass ka cs c0. heap_ok env \<and>
        MQTT_InitClient env cid user pass ka cs (MQTT_InitConnection env (Some h) prt sec c0) = (True, c))"

inductive reachable :: "mqtt_client \<Rightarrow> bool" where
  start: "initial c \<Longrightarrow> reachable c"
| step: "reachable c \<Longrightarrow> mqtt_step env c ev c' \<Longrightarrow> reachable c'"

section \<open>The invariant of the pending acknowledgement\<close>

definition pend_for :: "mqtt_client \<Rightarrow> bytes \<Rightarrow> bool" where
  "pend_for c m \<longleftrightarrow>
     needs_ack (mqtt_get_type m) (mqtt_get_qos m) \<and>
     pending_msg_id c = mqtt_get_id m (length m) \<and>
     (pending_msg_type c = mqtt_get_type m \<or>
      pending_msg_type c = MQTT_MSG_TYPE_PUBREL \<and> mqtt_get_type m = MQTT_MSG_TYPE_PUBLISH)"

definition pend_ok :: "mqtt_client \<Rightarrow> bool" where
  "pend_ok c \<longleftrightarrow>
     (if is_waiting_for_ack c
      then pending_msg_type c = MQTT_MSG_TYPE_CONNECT \<or> (\<exists>m ms. holds_msgs c (m # ms) \<and> pend_for c m)
      else pending_msg_type c \<notin> {MQTT_MSG_TYPE_SUBSCRIBE, MQTT_MSG_TYPE_UNSUBSCRIBE,
             MQTT_MSG_TYPE_PUBREL, MQTT_MSG_TYPE_PINGREQ} \<and>
           (pending_msg_type c = MQTT_MSG_TYPE_PUBLISH \<longrightarrow> pending_msg_id c = 0))"

definition pinv :: "mqtt_client \<Rightarrow> bool" where
  "pinv c \<longleftrightarrow> cinv c \<and> (work_buffer c \<noteq> None \<longrightarrow> pend_ok c)"

lemma pinv_cleared: "cinv c \<Longrightarrow> cleared c \<Longrightarrow> pinv c"
  by (simp add: pinv_def pend_ok_def cleared_def)

lemma pend_for_cong:
  "pend c' = pend c \<Longrightarrow> pend_for c' m = pend_for c m"
  by (simp add: pend_for_def pend_def)

lemma pinv_head:
  assumes "pinv c" and "evolves 0 c c'" and "work_buffer c' \<noteq> None"
  shows "pend_ok c" and "\<And>m ms. holds_msgs c (m # ms) \<Longrightarrow> \<exists>new. holds_msgs c' (m # ms @ new)"
proof -
  from assms(2,3) have "work_buffer c \<noteq> None" by (auto simp: evolves_def)
  with assms(1) show "pend_ok c" by (simp add: pinv_def)
  show "\<exists>new. holds_msgs c' (m # ms @ new)" if "holds_msgs c (m # ms)" for m ms
    using assms(2,3) that by (force simp: evolves_def)
qed

lemma pinv_quiet:
  assumes p: "pinv c" and e: "evolves 0 c c'" and q: "quiet c c'"
  shows "pinv c'"
proof (cases "cleared c' \<or> work_buffer c' = None")
  case True
  then show ?thesis
    using pinv_cleared [OF evolves_cinv [OF e]] evolves_cinv [OF e] by (auto simp: pinv_def)
next
  case False
  then have pe: "pend c' = pend c" using q by (simp add: quiet_def)
  have w: "work_buffer c' \<noteq> None" using False by simp
  note h = pinv_head [OF p e w]
  have "pend_ok c'"
    using h pe pend_for_cong [OF pe]
    by (auto simp: pend_ok_def pend_def split: if_splits) metis+
  then show ?thesis using evolves_cinv [OF e] by (simp add: pinv_def)
qed

lemma pinv_pubrec:
  assumes p: "pinv c" and e: "evolves 0 c c'" and q: "pubrec_step c c'"
  shows "pinv c'"
proof (cases "work_buffer c' = None")
  case False
  note h = pinv_head [OF p e False]
  from q have f: "is_waiting_for_ack c" "pending_msg_type c = 3 \<or> pending_msg_type c = 6"
    "is_waiting_for_ack c'" "pending_msg_type c' = 6" "pending_msg_id c' = pending_msg_id c"
    by (auto simp: pubrec_step_def pend_def)
  with h(1) obtain m ms where m: "holds_msgs c (m # ms)" "pend_for c m"
    by (auto simp: pend_ok_def)
  with f have "pend_for c' m" by (auto simp: pend_for_def)
  with h(2) [OF m(1)] f have "pend_ok c'" by (auto simp: pend_ok_def)
  then show ?thesis using evolves_cinv [OF e] by (simp add: pinv_def)
qed (use evolves_cinv [OF e] in \<open>simp add: pinv_def\<close>)

lemma publish_qos0_id: "mqtt_get_type m = MQTT_MSG_TYPE_PUBLISH \<Longrightarrow> mqtt_get_qos m = 0 \<Longrightarrow> mqtt_get_id m n = 0"
  by (simp add: mqtt_get_id_def Let_def split: prod.split)

section \<open>Every step preserves the invariant\<close>

lemma pinv_cinv: "pinv c \<Longrightarrow> cinv c"
  by (simp add: pinv_def)

lemma pinv_recv:
  assumes p: "pinv c" and d: "pdata = None \<or> pCon c"
  shows "pinv (mqtt_tcpclient_recv env pdata c)"
proof -
  obtain go e where ra: "recv_append pdata c = (go, e)" by (metis surj_pair)
  have "evolves 0 c e" using recv_append_evolves [OF pinv_cinv [OF p] d] ra by simp
  moreover have "quiet c e" using pend_recv_append [of pdata c] ra by (simp add: quiet_cong)
  ultimately have e: "pinv e" using p by (rule pinv_quiet [rotated])
  have "pinv (recv_process env e)"
  proof (cases "recv_drops e")
    case True
    then have "0 < in_buffer_used e" by (auto simp: recv_drops_def Let_def)
    moreover have "in_buffer_used e \<le> 2048" using pinv_cinv [OF e] by (simp add: cinv_def)
    ultimately have "cleared (recv_process env e)" using True recv_process_pend by blast
    then show ?thesis
      using pinv_cleared evolves_cinv [OF recv_process_evolves [OF pinv_cinv [OF e]]] by blast
  next
    case False
    with recv_process_evolves [OF pinv_cinv [OF e]] have "evolves 0 e (recv_process env e)" by simp
    with recv_process_pend [of e env] show ?thesis
      using pinv_quiet [OF e] pinv_pubrec [OF e] by blast
  qed
  with e p show ?thesis by (simp add: mqtt_tcpclient_recv_def ra)
qed

text \<open>The task's send, once more: what the result means for the queue and for the pending state.\<close>

lemma task_send_idle:
  "\<not> (pCon c \<and> sendTimeout c = 0 \<and> \<not> is_waiting_for_ack c \<and> \<not> is_waiting_for_pingresp c) \<Longrightarrow> task_send env c = c"
  by (auto simp: task_send_def)

lemma task_send_empty: "cinv c \<Longrightarrow> holds_msgs c [] \<Longrightarrow> task_send env c = c"
  using QUEUE_IsEmpty_holds [of "msgQueue c" "[]"] by (simp add: task_send_def holds_msgs_def)

lemma task_send_result:
  assumes c: "cinv c" and w: "work_buffer c \<noteq> None" and h: "holds_msgs c (m # ms)"
    and idle: "pCon c" "sendTimeout c = 0" "\<not> is_waiting_for_ack c" "\<not> is_waiting_for_pingresp c"
  shows "cinv (task_send env c)"
    and "holds_msgs (task_send env c) (if task_drops env c m then ms else m # ms)"
    and "if security c \<or> espconn_send env m \<noteq> 0
         then cleared (task_send env c) \<and> connState (task_send env c) = TCP_RECONNECT_DISCONNECTING
         else pend (task_send env c) =
                (needs_ack (mqtt_get_type m) (mqtt_get_qos m), mqtt_get_type m, mqtt_get_id m (length m)) \<and>
              sendTimeout (task_send env c) = 5 \<and> connState (task_send env c) = connState c"
    and "eff (task_send env c) =
           eff c @ (if security c then [Post] else if espconn_send env m = 0 then [Send m] else [Send m, Post])"
proof -
  from task_send_head [OF c w h idle] obtain q wb where
    q: "holds_msgs (c\<lparr>msgQueue := q\<rparr>) ms" "q_buf q = q_buf (msgQueue c)" "length wb = 2048"
    and eq: "task_send env c =
       (if security c \<or> espconn_send env m \<noteq> 0
        then (goto TCP_RECONNECT_DISCONNECTING
               ((after_send env c m q wb)\<lparr>msgQueue := msgQueue c, is_waiting_for_ack := False,
                  pending_msg_id := 0, pending_msg_type := 0, sendTimeout := 0,
                  publish_send_callback_pending := False\<rparr>))\<lparr>outbound_message := False\<rparr>
        else (after_send env c m q wb)\<lparr>outbound_message := False\<rparr>)" by metis
  have hq: "queue_holds q ms" "queue_room q = 2048" "\<forall>m\<in>set ms. m \<noteq> []"
    using q(1) by (simp_all add: holds_msgs_def)
  show "holds_msgs (task_send env c) (if task_drops env c m then ms else m # ms)"
    using h hq
    by (auto simp: eq task_drops_def after_send_def tcp_send_def Let_def goto_def system_os_post_def
        emit_def holds_msgs_def)
  then have "\<exists>ms. holds_msgs (task_send env c) ms" by blast
  moreover have "q_buf (msgQueue (task_send env c)) = q_buf (msgQueue c)"
    using q(2) by (simp add: eq after_send_def tcp_send_def Let_def goto_def system_os_post_def emit_def)
  moreover have "work_buffer (task_send env c) = Some wb \<and> in_buffer (task_send env c) = in_buffer c \<and>
      out_buffer (task_send env c) = out_buffer c \<and> in_buffer_used (task_send env c) = in_buffer_used c \<and>
      pCon (task_send env c) = pCon c \<and> mqtt_conn (task_send env c) = mqtt_conn c \<and>
      out_buffer_length (task_send env c) = out_buffer_length c \<and> sendTimeout (task_send env c) \<le> 5 \<and>
      pingrespTimeout (task_send env c) = pingrespTimeout c"
    by (simp add: eq after_send_def tcp_send_def Let_def goto_def system_os_post_def emit_def)
  ultimately show "cinv (task_send env c)"
    using c w q(3) by (auto simp: cinv_def buf2048_def)
  show "if security c \<or> espconn_send env m \<noteq> 0
         then cleared (task_send env c) \<and> connState (task_send env c) = TCP_RECONNECT_DISCONNECTING
         else pend (task_send env c) =
                (needs_ack (mqtt_get_type m) (mqtt_get_qos m), mqtt_get_type m, mqtt_get_id m (length m)) \<and>
              sendTimeout (task_send env c) = 5 \<and> connState (task_send env c) = connState c"
    by (simp add: eq after_send_def tcp_send_def Let_def goto_def system_os_post_def emit_def cleared_def pend_def)
  show "eff (task_send env c) =
           eff c @ (if security c then [Post] else if espconn_send env m = 0 then [Send m] else [Send m, Post])"
    by (simp add: eq after_send_def tcp_send_def Let_def goto_def system_os_post_def emit_def)
qed

lemma pinv_task_send:
  assumes p: "pinv c" and w: "work_buffer c \<noteq> None"
  shows "pinv (task_send env c)"
proof (cases "pCon c \<and> sendTimeout c = 0 \<and> \<not> is_waiting_for_ack c \<and> \<not> is_waiting_for_pingresp c")
  case False
  with p show ?thesis by (simp add: task_send_idle)
next
  case True
  obtain ms0 where ms0: "holds_msgs c ms0" using pinv_cinv [OF p] w by (auto simp: cinv_def)
  show ?thesis
  proof (cases ms0)
    case Nil
    with p ms0 show ?thesis by (simp add: task_send_empty pinv_cinv)
  next
    case (Cons m ms)
    from True ms0 Cons
    have idle: "pCon c" "sendTimeout c = 0" "\<not> is_waiting_for_ack c" "\<not> is_waiting_for_pingresp c"
      and h: "holds_msgs c (m # ms)" by simp_all
    note r = task_send_result [OF pinv_cinv [OF p] w h idle, of env]
    show ?thesis
    proof (cases "security c \<or> espconn_send env m \<noteq> 0")
      case True
      with r(1,3) show ?thesis by (intro pinv_cleared) auto
    next
      case False
      then have pe: "pend (task_send env c) =
          (needs_ack (mqtt_get_type m) (mqtt_get_qos m), mqtt_get_type m, mqtt_get_id m (length m))"
        using r(3) by auto
      have "pend_ok (task_send env c)"
      proof (cases "needs_ack (mqtt_get_type m) (mqtt_get_qos m)")
        case True
        then have "holds_msgs (task_send env c) (m # ms)" using r(2) by (simp add: task_drops_def)
        moreover have "pend_for (task_send env c) m" using pe True by (simp add: pend_for_def pend_def)
        ultimately show ?thesis using pe True by (auto simp: pend_ok_def pend_def)
      next
        case na: False
        then have "mqtt_get_type m \<notin> {8, 10, 6, 12}" "mqtt_get_type m = 3 \<Longrightarrow> mqtt_get_qos m = 0"
          by (auto simp: needs_ack_def)
        with pe na show ?thesis
          using publish_qos0_id [of m "length m"] by (auto simp: pend_ok_def pend_def)
      qed
      with r(1) show ?thesis by (simp add: pinv_def)
    qed
  qed
qed

lemma MQTT_Task_other:
  assumes "cinv c" and "connState c \<noteq> MQTT_DATA"
    and "work_buffer c \<noteq> None"
    and "\<not> (in_buffer_used c > 0 \<and> connState c \<noteq> TCP_RECONNECT_DISCONNECTING \<and> pCon c \<and>
           (let n = mqtt_get_packet_length (the (in_buffer c)) (in_buffer_used c)
            in n > 0 \<and> n \<le> int (in_buffer_used c) \<and> n \<le> int MQTT_BUF_SIZE))"
  shows "evolves 0 c (MQTT_Task env c)"
    and "quiet c (MQTT_Task env c) \<or> work_buffer (MQTT_Task env c) = None"
proof -
  note del = mqtt_tcpclient_delete_evolves [OF assms(1)]
  have con: "evolves 0 c (MQTT_Connect env (mqtt_tcpclient_delete c))"
    using evolves_then [OF del MQTT_Connect_evolves [OF evolves_cinv [OF del]]] .
  have qc: "quiet c (MQTT_Connect env (mqtt_tcpclient_delete c))"
    using quiet_trans [OF cleared_quiet [OF quiet_delete] quiet_Connect] .
  have wd: "work_buffer (mqtt_client_delete c) = None"
    by (simp add: mqtt_client_delete_def Let_def)
  have ka: "quiet c (mqtt_send_keepalive env c)" by (simp add: quiet_cong)
  show "evolves 0 c (MQTT_Task env c)"
    unfolding MQTT_Task_def if_not_P [OF assms(3)] if_not_P [OF assms(4)]
    using assms(1,2) con del mqtt_client_delete_evolves [OF assms(1)] mqtt_send_keepalive_evolves [OF assms(1)]
    by (cases "connState c") simp_all
  show "quiet c (MQTT_Task env c) \<or> work_buffer (MQTT_Task env c) = None"
    unfolding MQTT_Task_def if_not_P [OF assms(3)] if_not_P [OF assms(4)]
    using assms(2) qc wd ka cleared_quiet [OF quiet_delete]
    by (cases "connState c") simp_all
qed

end
