(* ===== verification/MqttProps.thy ===== *)
theory MqttProps
  imports MqttSteps
begin

text \<open>
  The properties of the MQTT client in its reachable states: memory safety, delivery at
  least once, the order of sends, the timeouts, and the decoding of the packet length.
\<close>

section \<open>Every reachable state satisfies the invariant\<close>

lemma evolves_config [simp]:
  "cinv c \<Longrightarrow> evolves 0 c (c\<lparr>connectedCb := b\<rparr>)" "cinv c \<Longrightarrow> evolves 0 c (c\<lparr>disconnectedCb := b\<rparr>)"
  "cinv c \<Longrightarrow> evolves 0 c (c\<lparr>dataCb := b\<rparr>)" "cinv c \<Longrightarrow> evolves 0 c (c\<lparr>publishedCb := b\<rparr>)"
  "cinv c \<Longrightarrow> evolves 0 c (c\<lparr>pingrespCb := b\<rparr>)" "cinv c \<Longrightarrow> evolves 0 c (c\<lparr>timeoutCb := b\<rparr>)"
  "cinv c \<Longrightarrow> evolves 0 c (c\<lparr>connect_info := info\<rparr>)"
  by (rule evolves_same; auto simp: cinv_def holds_msgs_def)+

lemma quiet_config [simp]:
  "quiet c (c\<lparr>connectedCb := b\<rparr>)" "quiet c (c\<lparr>disconnectedCb := b\<rparr>)"
  "quiet c (c\<lparr>dataCb := b\<rparr>)" "quiet c (c\<lparr>publishedCb := b\<rparr>)"
  "quiet c (c\<lparr>pingrespCb := b\<rparr>)" "quiet c (c\<lparr>timeoutCb := b\<rparr>)" "quiet c (c\<lparr>connect_info := info\<rparr>)"
  by (simp_all add: quiet_def pend_def)

lemma evolves_lwt: "cinv c \<Longrightarrow> evolves 0 c (MQTT_InitLWT env t m q r c) \<and> quiet c (MQTT_InitLWT env t m q r c)"
  by (simp add: MQTT_InitLWT_def Let_def split: option.split)

definition task_takes_packet :: "mqtt_client \<Rightarrow> bool" where
  "task_takes_packet c \<longleftrightarrow>
     in_buffer_used c > 0 \<and> connState c \<noteq> TCP_RECONNECT_DISCONNECTING \<and> pCon c \<and>
     (let n = mqtt_get_packet_length (the (in_buffer c)) (in_buffer_used c)
      in n > 0 \<and> n \<le> int (in_buffer_used c) \<and> n \<le> int MQTT_BUF_SIZE)"

lemma MQTT_Task_cases:
  obtains (freed) "work_buffer c = None" "MQTT_Task env c = c"
  | (packet) "work_buffer c \<noteq> None" "task_takes_packet c" "MQTT_Task env c = mqtt_tcpclient_recv env None c"
  | (data) "work_buffer c \<noteq> None" "\<not> task_takes_packet c" "connState c = MQTT_DATA" "MQTT_Task env c = task_send env c"
  | (other) "work_buffer c \<noteq> None" "\<not> task_takes_packet c" "connState c \<noteq> MQTT_DATA"
proof -
  consider "work_buffer c = None" | "work_buffer c \<noteq> None" "task_takes_packet c"
    | "work_buffer c \<noteq> None" "\<not> task_takes_packet c" "connState c = MQTT_DATA"
    | "work_buffer c \<noteq> None" "\<not> task_takes_packet c" "connState c \<noteq> MQTT_DATA" by blast
  then show ?thesis
  proof cases
    case 1
    then show ?thesis by (intro freed) (simp_all add: MQTT_Task_def)
  next
    case 2
    then show ?thesis
      by (intro packet) (simp_all add: MQTT_Task_def task_takes_packet_def del: not_None_eq)
  next
    case 3
    then have "MQTT_Task env c = task_send env c"
      unfolding MQTT_Task_def task_takes_packet_def [symmetric] by auto
    with 3 show ?thesis by (intro data)
  qed (rule other)
qed

lemma pinv_task: "pinv c \<Longrightarrow> pinv (MQTT_Task env c)"
proof (cases rule: MQTT_Task_cases [of c env])
  case other
  assume p: "pinv c"
  note t = MQTT_Task_other [OF pinv_cinv [OF p] other(3,1) other(2) [unfolded task_takes_packet_def], of env]
  from t(2) show ?thesis
  proof
    assume "quiet c (MQTT_Task env c)"
    then show ?thesis using pinv_quiet [OF p t(1)] by simp
  next
    assume "work_buffer (MQTT_Task env c) = None"
    then show ?thesis using evolves_cinv [OF t(1)] by (simp add: pinv_def)
  qed
qed (simp_all add: pinv_recv pinv_task_send)

lemma step_pinv:
  assumes p: "pinv c" and s: "mqtt_step env c ev c'"
  shows "pinv c'"
proof -
  note ci = pinv_cinv [OF p]
  have con: "pinv (mqtt_tcpclient_connect_cb env c)"
    using connect_cb_pend [OF ci, of env]
  proof
    assume "quiet c (mqtt_tcpclient_connect_cb env c)"
    then show ?thesis using pinv_quiet [OF p mqtt_tcpclient_connect_cb_evolves [OF ci]] by simp
  next
    assume "pending_msg_type (mqtt_tcpclient_connect_cb env c) = MQTT_MSG_TYPE_CONNECT"
    then show ?thesis
      using evolves_cinv [OF mqtt_tcpclient_connect_cb_evolves [OF ci]] by (simp add: pinv_def pend_ok_def)
  qed
  have dns: "evolves 0 c (mqtt_dns_found ip c)" for ip
    using ci by (simp add: mqtt_dns_found_def split: option.split)
  note q = pinv_quiet [OF p]
  from s show ?thesis
    using con pinv_task [OF p] pinv_recv [OF p]
      q [OF mqtt_timer_evolves [OF ci] quiet_timer]
      q [OF mqtt_tcpclient_sent_cb_evolves [OF ci] quiet_sent_cb]
      q [OF mqtt_tcpclient_discon_cb_evolves [OF ci] discon_cb_pend]
      q [OF mqtt_tcpclient_recon_cb_evolves [OF ci] quiet_recon_cb]
      q [OF dns] q [OF api_run_evolves [OF ci] quiet_api]
      evolves_lwt [OF ci] q
    by (elim mqtt_stepE)
      (simp_all add: ci MQTT_OnConnected_def MQTT_OnDisconnected_def MQTT_OnData_def MQTT_OnPublished_def
        MQTT_OnPingResp_def MQTT_OnTimeout_def)
qed

lemma initial_pinv:
  assumes "initial c"
  shows "pinv c" and "holds_msgs c []" and "work_buffer c \<noteq> None"
proof -
  from assms obtain env h prt sec cid user pass ka cs c0 where heap: "heap_ok env"
    and c: "MQTT_InitClient env cid user pass ka cs (MQTT_InitConnection env (Some h) prt sec c0) = (True, c)"
    by (auto simp: initial_def)
  define a where "a = MQTT_InitConnection env (Some h) prt sec c0"
  have a: "sendTimeout a = 0" "\<not> pCon a" "in_buffer_used a = 0" "pending_msg_type a = 0"
    by (simp_all add: a_def MQTT_InitConnection_def zero_client_def blank_client_def Let_def)
  obtain ok b where ib: "init_strings env cid user pass a = (ok, b)" by (metis surj_pair)
  have b: "sendTimeout b = 0" "\<not> pCon b" "in_buffer_used b = 0" "pending_msg_type b = 0"
    using ib a by (auto simp: init_strings_def Let_def free_strings_def split: option.splits if_splits)
  from c ib a_def have ok: ok by (cases ok) (simp_all add: MQTT_InitClient_def)
  define q where "q = QUEUE_Init (os_zalloc env 6) (msgQueue b) 2048"
  from c ib ok obtain i out w where alloc: "os_zalloc env 3 2048 = Some i" "os_zalloc env 4 2048 = Some out"
      "os_zalloc env 5 2048 = Some w" and qb: "q_buf q \<noteq> None"
    and eq: "c = system_os_post (emit RegisterTask (b\<lparr>connect_info := (connect_info b)\<lparr>keepalive := ka,
                       clean_session := cs\<rparr>,
                     in_buffer := Some i, in_buffer_used := 0, out_buffer := True,
                     out_buffer_length := MQTT_BUF_SIZE, work_buffer := Some w,
                     connect_info_set := True, is_waiting_for_ack := False, pending_msg_id := 0,
                          is_waiting_for_pingresp := False, pingrespTimeout := 0,
                          publish_send_callback_pending := False,
                          mqtt_conn := mqtt_msg_init out MQTT_BUF_SIZE, msgQueue := q\<rparr>))"
    unfolding a_def [symmetric]
    by (auto simp: MQTT_InitClient_def Let_def a_def [symmetric] q_def split: if_splits)
  from qb obtain qbuf where qbuf: "os_zalloc env 6 2048 = Some qbuf"
    by (auto simp: q_def QUEUE_Init_def Let_def split: option.splits)
  have "length x = 2048" if "os_zalloc env k 2048 = Some x" for k x
    using heap [unfolded heap_ok_def, rule_format, of 2048 k x] that by simp
  then have len: "length i = 2048" "length out = 2048" "length w = 2048" "length qbuf = 2048"
    using alloc qbuf by blast+
  have hq: "queue_holds q [] \<and> queue_room q = 2048"
    using QUEUE_Init_holds [of "os_zalloc env 6" 2048 qbuf "msgQueue b"] qbuf len by (simp add: q_def)
  have hm: "holds_msgs (system_os_post (emit ev d)) ms = holds_msgs d ms" for ev d ms by simp
  show h: "holds_msgs c []" unfolding eq hm using hq by (simp add: holds_msgs_def)
  show w: "work_buffer c \<noteq> None" by (simp add: eq)
  have "\<exists>ms. holds_msgs c ms" using h by blast
  moreover have "in_buffer c = Some i" "work_buffer c = Some w" "out_buffer c" "in_buffer_used c = 0"
    "q_buf (msgQueue c) = q_buf q" "mqtt_conn c = mqtt_msg_init out 2048" "out_buffer_length c = 2048"
    "sendTimeout c = 0" "pingrespTimeout c = 0" "\<not> is_waiting_for_ack c" "pending_msg_type c = 0"
    using b by (simp_all add: eq system_os_post_def emit_def)
  ultimately show "pinv c"
    using len qb by (intro pinv_cleared) (auto simp: cinv_def buf2048_def conn_buf_def mqtt_msg_init_def cleared_def)
qed

lemma reachable_pinv: "reachable c \<Longrightarrow> pinv c"
  by (induction rule: reachable.induct) (blast intro: initial_pinv step_pinv)+

section \<open>The queue of a client is determined\<close>

lemma escape_no_end: "0x7F \<notin> set (proto_escape m)"
  using proto.stuff_only_mark [of "0x7F" m] by (auto simp: proto_special_def)

lemma frame_append_inject:
  assumes "frame m @ xs = frame n @ ys"
  shows "m = n" and "xs = ys"
proof -
  let ?P = "\<lambda>b. b \<noteq> (0x7F :: u8)"
  have tw: "takeWhile ?P (proto_escape k @ 0x7F # zs) = proto_escape k"
    "dropWhile ?P (proto_escape k @ 0x7F # zs) = 0x7F # zs" for k zs
    using escape_no_end [of k] by (subst takeWhile_append2 dropWhile_append2; fastforce)+
  from assms have eq: "proto_escape m @ 0x7F # xs = proto_escape n @ 0x7F # ys"
    by (simp add: frame_def)
  from arg_cong [OF eq, of "takeWhile ?P"] have "proto_escape m = proto_escape n" by (simp only: tw)
  then show "m = n" by (simp add: proto.stuff_inject)
  from arg_cong [OF eq, of "dropWhile ?P"] show "xs = ys" by (simp only: tw list.inject)
qed

lemma frames_inject: "concat (map frame ms) = concat (map frame ns) \<Longrightarrow> ms = ns"
proof (induction ms arbitrary: ns)
  case Nil
  then show ?case by (cases ns) auto
next
  case (Cons m ms)
  then obtain n ns' where ns: "ns = n # ns'" by (cases ns) auto
  with Cons.prems frame_append_inject [of m "concat (map frame ms)" n "concat (map frame ns')"]
  show ?case using Cons.IH by simp
qed

lemma holds_msgs_unique: "holds_msgs c ms \<Longrightarrow> holds_msgs c ns \<Longrightarrow> ms = ns"
  by (auto simp: holds_msgs_def queue_holds_def intro: frames_inject)

section \<open>Memory safety\<close>

text \<open>
  C1: in every reachable state of the client, whatever the broker, the TCP stack, the
  resolver, the heap and the application's callbacks do: the receive buffer has room for the
  bytes it claims to hold, every allocated buffer has its 2048 bytes and they are allocated
  together, the queue holds a sequence of whole nonempty messages of at most 2046 bytes, the
  acknowledgement the client waits for is that of the connection or of the message at the head
  of the queue, by type and id, and both timeouts are at most \<open>MQTT_SEND_TIMOUT\<close>.
\<close>

theorem client_state_safe:
  assumes "reachable c"
  shows "in_buffer_used c \<le> 2048 \<and>
    (in_buffer_used c > 0 \<longrightarrow> in_buffer c \<noteq> None \<and> pCon c) \<and>
    (\<forall>b. in_buffer c = Some b \<or> work_buffer c = Some b \<longrightarrow> length b = 2048) \<and>
    (in_buffer c = None \<longleftrightarrow> work_buffer c = None) \<and> (out_buffer c \<longleftrightarrow> work_buffer c \<noteq> None) \<and>
    (work_buffer c \<noteq> None \<longrightarrow>
       length (cbuffer (mqtt_conn c)) = 2048 \<and> buffer_length (mqtt_conn c) = 2048 \<and>
       (\<exists>ms. queue_holds (msgQueue c) ms \<and> (\<forall>m \<in> set ms. m \<noteq> [] \<and> length m \<le> 2046) \<and>
         (is_waiting_for_ack c \<longrightarrow>
            pending_msg_type c = MQTT_MSG_TYPE_CONNECT \<or>
            ms \<noteq> [] \<and> needs_ack (mqtt_get_type (hd ms)) (mqtt_get_qos (hd ms)) \<and>
            pending_msg_id c = mqtt_get_id (hd ms) (length (hd ms)) \<and>
            (pending_msg_type c = mqtt_get_type (hd ms) \<or>
             pending_msg_type c = MQTT_MSG_TYPE_PUBREL \<and> mqtt_get_type (hd ms) = MQTT_MSG_TYPE_PUBLISH)))) \<and>
    sendTimeout c \<le> 5 \<and> pingrespTimeout c \<le> 5"
proof -
  have p: "pinv c" by (rule reachable_pinv [OF assms])
  then have c: "cinv c" by (rule pinv_cinv)
  have "\<exists>ms. queue_holds (msgQueue c) ms \<and> (\<forall>m \<in> set ms. m \<noteq> [] \<and> length m \<le> 2046) \<and>
      (is_waiting_for_ack c \<longrightarrow> pending_msg_type c = MQTT_MSG_TYPE_CONNECT \<or> ms \<noteq> [] \<and> pend_for c (hd ms))"
    if w: "work_buffer c \<noteq> None"
  proof -
    obtain ms where ms: "holds_msgs c ms" using c w by (auto simp: cinv_def)
    have "pend_ok c" using p w by (simp add: pinv_def)
    then consider "\<not> is_waiting_for_ack c \<or> pending_msg_type c = MQTT_MSG_TYPE_CONNECT"
      | m r where "holds_msgs c (m # r)" "pend_for c m"
      by (auto simp: pend_ok_def split: if_splits)
    then show ?thesis
    proof cases
      case 1
      then show ?thesis using ms holds_length [OF ms] by (auto simp: holds_msgs_def)
    next
      case 2
      then show ?thesis using holds_length [OF 2(1)]
        by (intro exI [of _ "m # r"]) (auto simp: holds_msgs_def)
    qed
  qed
  with c show ?thesis
    by (auto simp: cinv_def buf2048_def conn_buf_def pend_for_def split: option.splits)
qed

text \<open>A concrete environment and client, for the witnesses.\<close>

definition ex_env :: mqtt_env where
  "ex_env = \<lparr>espconn_send = (\<lambda>_. 0), dns_gethostbyname = (\<lambda>_. DnsInProgress),
     os_zalloc = (\<lambda>_ n. Some (replicate (nat n) 0)), env_stack = ex_parser, cb_script = (\<lambda>_ _. [])\<rparr>"

definition ex_client0 :: mqtt_client where
  "ex_client0 = snd (MQTT_InitClient ex_env (Some [0x4D]) None None 60 0
     (MQTT_InitConnection ex_env (Some [0x68]) 1883 False
       blank_client))"

lemma ex_client0_initial: "initial ex_client0"
proof -
  have "heap_ok ex_env" by (simp add: heap_ok_def ex_env_def)
  moreover have "fst (MQTT_InitClient ex_env (Some [0x4D]) None None 60 0
     (MQTT_InitConnection ex_env (Some [0x68]) 1883 False
       blank_client))"
    by (simp add: MQTT_InitClient_def init_strings_def ex_env_def dup_string_def
        QUEUE_Init_def Let_def split: option.split)
  ultimately show ?thesis
    unfolding initial_def ex_client0_def by (metis prod.collapse)
qed

lemma client_state_safe_witness:
  "in_buffer_used (MQTT_Connect ex_env ex_client0) \<le> 2048 \<and> sendTimeout (MQTT_Connect ex_env ex_client0) \<le> 5 \<and>
   map_option length (work_buffer (MQTT_Connect ex_env ex_client0)) \<in> {None, Some 2048}"
proof -
  have "reachable (api_run ex_env ApiConnect ex_client0)"
    by (rule reachable.step [OF reachable.start [OF ex_client0_initial] mqtt_step.api])
  from client_state_safe [OF this] show ?thesis
    by (cases "work_buffer (MQTT_Connect ex_env ex_client0)") simp_all
qed

section \<open>Delivery at least once\<close>

definition acknowledges :: "bytes \<Rightarrow> nat \<Rightarrow> u16 \<Rightarrow> bool" where
  "acknowledges m type mid \<longleftrightarrow>
     (mid = mqtt_get_id m (length m) \<and>
      (type, mqtt_get_type m) \<in>
        {(MQTT_MSG_TYPE_SUBACK, MQTT_MSG_TYPE_SUBSCRIBE), (MQTT_MSG_TYPE_UNSUBACK, MQTT_MSG_TYPE_UNSUBSCRIBE),
         (MQTT_MSG_TYPE_PUBACK, MQTT_MSG_TYPE_PUBLISH), (MQTT_MSG_TYPE_PUBCOMP, MQTT_MSG_TYPE_PUBLISH),
         (MQTT_MSG_TYPE_PUBCOMP, MQTT_MSG_TYPE_PUBREL)}) \<or>
     (type = MQTT_MSG_TYPE_PINGRESP \<and> mqtt_get_type m = MQTT_MSG_TYPE_PINGREQ)"

text \<open>The receive buffer after the bytes of an event were copied, and its first packet.\<close>

definition rx_client :: "event \<Rightarrow> mqtt_client \<Rightarrow> mqtt_client" where
  "rx_client ev c = snd (recv_append (case ev of EvReceived d \<Rightarrow> Some d | _ \<Rightarrow> None) c)"

definition rx_type :: "event \<Rightarrow> mqtt_client \<Rightarrow> nat" where
  "rx_type ev c = mqtt_get_type (the (in_buffer (rx_client ev c)))"

definition rx_id :: "event \<Rightarrow> mqtt_client \<Rightarrow> u16" where
  "rx_id ev c =
     (let e = rx_client ev c; buf = the (in_buffer e)
      in mqtt_get_id buf (nat (mqtt_get_packet_length buf (in_buffer_used e))))"

lemma ack_matches_pending:
  assumes "pend_ok c" and "holds_msgs c (m # ms)" and "ack_matches c type mid"
  shows "if is_waiting_for_ack c then acknowledges m type mid
         else type = MQTT_MSG_TYPE_PUBACK \<and> mid = 0"
proof (cases "is_waiting_for_ack c")
  case True
  then have "pending_msg_type c = 1 \<or> (\<exists>m ms. holds_msgs c (m # ms) \<and> pend_for c m)"
    using assms(1) by (simp add: pend_ok_def)
  then show ?thesis
  proof
    assume "pending_msg_type c = 1"
    with assms(3) show ?thesis by (auto simp: ack_matches_def)
  next
    assume "\<exists>m ms. holds_msgs c (m # ms) \<and> pend_for c m"
    then have "pend_for c m" using holds_msgs_unique [OF assms(2)] by auto
    with assms(3) True show ?thesis
      by (auto simp: pend_for_def ack_matches_def acknowledges_def)
  qed
next
  case False
  with assms(1,3) show ?thesis by (auto simp: pend_ok_def ack_matches_def)
qed

lemma evolves_keeps_head:
  "evolves 0 c c' \<Longrightarrow> holds_msgs c (m # ms) \<Longrightarrow> work_buffer c' \<noteq> None \<Longrightarrow> \<exists>new. holds_msgs c' (m # ms @ new)"
  by (force simp: evolves_def)

lemma recv_head:
  assumes p: "pinv c" and d: "pdata = None \<or> pCon c" and h: "holds_msgs c (m # ms)"
    and w: "work_buffer c \<noteq> None" "work_buffer (mqtt_tcpclient_recv env pdata c) \<noteq> None"
    and ev: "snd (recv_append pdata c) = rx_client ev c"
  shows "(\<exists>new. holds_msgs (mqtt_tcpclient_recv env pdata c) (m # ms @ new)) \<or>
     (\<exists>new. holds_msgs (mqtt_tcpclient_recv env pdata c) (ms @ new)) \<and>
     (if is_waiting_for_ack c then acknowledges m (rx_type ev c) (rx_id ev c)
      else rx_type ev c = MQTT_MSG_TYPE_PUBACK \<and> rx_id ev c = 0)"
proof (cases "con_reverse c \<and> fst (recv_append pdata c) \<and> recv_drops (snd (recv_append pdata c))")
  case False
  with mqtt_tcpclient_recv_evolves [OF pinv_cinv [OF p] d, of env]
  have "evolves 0 c (mqtt_tcpclient_recv env pdata c)" by (simp only: if_False)
  from evolves_keeps_head [OF this h w(2)] show ?thesis by blast
next
  case True
  with mqtt_tcpclient_recv_evolves [OF pinv_cinv [OF p] d, of env]
  have "evolves 1 c (mqtt_tcpclient_recv env pdata c)" by simp
  then have "\<exists>new. holds_msgs (mqtt_tcpclient_recv env pdata c) (ms @ new)"
    using h w(2) by (force simp: evolves_def)
  moreover have "ack_matches (rx_client ev c) (rx_type ev c) (rx_id ev c)"
    using True ev by (simp add: recv_drops_def Let_def rx_type_def rx_id_def)
  then have "ack_matches c (rx_type ev c) (rx_id ev c)"
    using ev [symmetric] by (auto simp: ack_matches_def recv_append_def Let_def emit_def split: option.splits if_splits)
  moreover have "pend_ok c" using p w(1) by (simp add: pinv_def)
  ultimately show ?thesis using ack_matches_pending [OF _ h] by blast
qed

section \<open>Publishing\<close>

lemma queue_outbound_packet:
  assumes c: "cinv c" and w: "work_buffer c \<noteq> None" and h: "holds_msgs c ms"
    and m: "mqtt_bytes m = pkt" "msg_data m \<noteq> None" "msg_length m \<noteq> 0" "enc_ok (mqtt_conn c) m"
  defines "r \<equiv> queue_outbound (c\<lparr>mqtt_conn := m\<rparr>)"
  shows "if sum_list (map (length \<circ> frame) ms) + length (frame pkt) \<le> 2048
         then fst r \<and> holds_msgs (snd r) (ms @ [pkt]) else \<not> fst r \<and> holds_msgs (snd r) ms"
proof -
  have cb: "conn_buf m" "buffer_length m = 2048" "msg_fits m"
    using m(4) c w by (auto simp: enc_ok_def same_buf_def cinv_def)
  have len: "length pkt = msg_length m" using length_mqtt_bytes [OF cb(1,3)] m(1) by simp
  have "msg_length m \<le> 2048" using cb by (auto simp: msg_fits_def)
  then have lw: "length pkt = unat (of_nat (msg_length m) :: u16)"
    using len by (simp add: unat_of_nat_length)
  have ne: "pkt \<noteq> []" using len m(3) by auto
  have qh: "queue_holds (msgQueue c) ms" "queue_room (msgQueue c) = 2048" "\<forall>m\<in>set ms. m \<noteq> []"
    using h by (simp_all add: holds_msgs_def)
  obtain k q where put: "QUEUE_Puts (msgQueue c) pkt (of_nat (msg_length m)) = (k, q)" by (metis surj_pair)
  have rr: "r = (if k = -1 then (False, c\<lparr>mqtt_conn := m, outbound_message := True, msgQueue := q, outbound_message := False\<rparr>)
      else (True, system_os_post (c\<lparr>mqtt_conn := m, outbound_message := True, msgQueue := q, outbound_message := False\<rparr>)))"
    using m put by (auto simp: r_def queue_outbound_def built_def Let_def)
  show ?thesis
  proof (cases "sum_list (map (length \<circ> frame) ms) + length (frame pkt) \<le> queue_room (msgQueue c)")
    case True
    from QUEUE_Puts_fits [OF qh(1) lw True] put qh ne True show ?thesis
      by (auto simp: rr holds_msgs_def system_os_post_def emit_def)
  next
    case False
    with QUEUE_Puts_full [OF qh(1) lw] put qh show ?thesis
      by (auto simp: rr holds_msgs_def)
  qed
qed

text \<open>
  C22: \<open>MQTT_Publish\<close> queues exactly one message, the publish packet for the arguments with
  a fresh message id, and returns TRUE, when the packet fits the 2048-byte output buffer and
  its frame fits the rest of the queue. Otherwise it returns FALSE and the queue holds the
  messages it held.
\<close>

theorem MQTT_Publish_queues:
  assumes r: "reachable c" and w: "work_buffer c \<noteq> None" and i: "connect_info_set c"
    and h: "holds_msgs c ms" and q: "0 \<le> qos" "qos \<le> 2" and t: "topic \<noteq> []"
    and m: "m = publish_packet topic qos retain
                  (if qos > 0 then fresh_id (message_id (mqtt_conn c)) else 0) data"
  shows "let (ok, c') = MQTT_Publish (Some topic) (Some data) (int (length data)) qos retain c
         in if 5 + length topic + (if qos > 0 then 2 else 0) + length data \<le> 2048 \<and>
               sum_list (map (length \<circ> frame) ms) + length (frame m) \<le> 2048
            then ok \<and> holds_msgs c' (ms @ [m])
            else \<not> ok \<and> holds_msgs c' ms"
proof -
  have c: "cinv c" using reachable_pinv [OF r] by (rule pinv_cinv)
  have bufs: "conn_buf (mqtt_conn c)" "buffer_length (mqtt_conn c) = 2048" "out_buffer c"
    "q_buf (msgQueue c) \<noteq> None" using c w by (auto simp: cinv_def)
  define mid where "mid = (if qos > 0 then fresh_id (message_id (mqtt_conn c)) else 0)"
  define e where "e = fst (mqtt_msg_publish (mqtt_conn c) (Some topic) data (length data) qos retain)"
  have enc: "enc_ok (mqtt_conn c) e" using enc_ok_publish [OF bufs(1)] by (simp add: e_def)
  have pub: "MQTT_Publish (Some topic) (Some data) (int (length data)) qos retain c =
      queue_outbound (c\<lparr>mqtt_conn := e\<rparr>)"
    using w i q bufs by (auto simp: MQTT_Publish_def e_def)
  have lb: "3 + length (publish_body topic qos mid data) =
      5 + length topic + (if qos > 0 then 2 else 0) + length data"
    by (simp add: length_publish_body)
  show ?thesis
  proof (cases "3 + length (publish_body topic qos mid data) \<le> buffer_length (mqtt_conn c)")
    case True
    obtain c' where c': "mqtt_msg_publish (mqtt_conn c) (Some topic) data (length data) qos retain = (c', Some mid)"
      "mqtt_bytes c' = publish_packet topic qos retain mid data" "msg_length c' \<noteq> 0" "msg_data c' \<noteq> None"
      using mqtt_msg_publish_fits [OF bufs(1) t True mid_def] by metis
    then have "e = c'" by (simp add: e_def)
    with queue_outbound_packet [OF c w h _ _ _ enc, of m] c' True lb bufs m
    show ?thesis
      unfolding pub by (auto simp: mid_def split: prod.split if_splits)
  next
    case False
    then have "msg_length e = 0"
      using mqtt_msg_publish_too_long [OF bufs(1), of topic qos mid data retain] by (auto simp: e_def)
    then have "queue_outbound (c\<lparr>mqtt_conn := e\<rparr>) = (False, c\<lparr>mqtt_conn := e, outbound_message := True, outbound_message := False\<rparr>)"
      by (simp add: queue_outbound_def built_def Let_def)
    with False lb bufs h show ?thesis unfolding pub by simp
  qed
qed

text \<open>The witness client with one QoS 1 message queued.\<close>

definition ex_msg :: bytes where
  "ex_msg = publish_packet [0x61] 1 0 1 [0x7E]"

definition ex_client1 :: mqtt_client where
  "ex_client1 = api_run ex_env (ApiPublish (Some [0x61]) (Some [0x7E]) 1 1 0) ex_client0"

lemma ex_client0_fields: "connect_info_set ex_client0" "message_id (mqtt_conn ex_client0) = 0"
  by (simp_all add: ex_client0_def MQTT_InitClient_def init_strings_def ex_env_def dup_string_def
      QUEUE_Init_def Let_def MQTT_InitConnection_def zero_client_def blank_client_def emit_def
      system_os_post_def mqtt_msg_init_def split: option.split)

lemma ex_msg_eq: "ex_msg = [0x32, 6, 0, 1, 0x61, 0, 1, 0x7E]"
  unfolding ex_msg_def by code_simp

lemma MQTT_Publish_queues_witness:
  "holds_msgs (snd (MQTT_Publish (Some [0x61]) (Some [0x7E]) (int (length [0x7E :: u8])) 1 0 ex_client0)) ([] @ [ex_msg])"
proof -
  have m: "ex_msg = publish_packet [0x61] 1 0
      (if (1::int) > 0 then fresh_id (message_id (mqtt_conn ex_client0)) else 0) [0x7E]"
    by (simp add: ex_msg_def ex_client0_fields fresh_id_def)
  have room: "5 + length [0x61 :: u8] + (if (1::int) > 0 then 2 else 0) + length [0x7E :: u8] \<le> 2048 \<and>
      sum_list (map (length \<circ> frame) []) + length (frame ex_msg) \<le> 2048"
    by (simp add: ex_msg_eq frame_def proto_special_def)
  show ?thesis
    using MQTT_Publish_queues [OF reachable.start [OF ex_client0_initial] initial_pinv(3) [OF ex_client0_initial]
      ex_client0_fields(1) initial_pinv(2) [OF ex_client0_initial] _ _ _ m]
    unfolding if_P [OF room] by (simp add: Let_def split: prod.splits)
qed

lemma ex_client1_reachable: "reachable ex_client1"
  unfolding ex_client1_def
  by (rule reachable.step [OF reachable.start [OF ex_client0_initial] mqtt_step.api])

text \<open>
  C4: delivery at least once. As long as the client keeps its buffers, a queued message that
  needs an acknowledgement (PUBLISH with QoS above 0, SUBSCRIBE, UNSUBSCRIBE, PING) stays at the
  head of the queue in every step, unless that step processes a received packet. If the client
  is waiting for an acknowledgement, that packet is the acknowledgement of this very message,
  with its id. A client that is not waiting loses its head to a stray PUBACK whose id reads as
  0, and to nothing else.
\<close>

theorem unacked_message_stays_queued:
  assumes r: "reachable c" and s: "mqtt_step env c ev c'"
    and h: "holds_msgs c (m # ms)" and n: "needs_ack (mqtt_get_type m) (mqtt_get_qos m)"
    and w: "work_buffer c \<noteq> None" and w': "work_buffer c' \<noteq> None"
  shows "(\<exists>new. holds_msgs c' (m # ms @ new)) \<or>
     (\<exists>new. holds_msgs c' (ms @ new)) \<and>
     (if is_waiting_for_ack c then acknowledges m (rx_type ev c) (rx_id ev c)
      else rx_type ev c = MQTT_MSG_TYPE_PUBACK \<and> rx_id ev c = 0)"
proof -
  have p: "pinv c" using r by (rule reachable_pinv)
  note ci = pinv_cinv [OF p]
  note keep = evolves_keeps_head [OF _ h]
  have dns: "evolves 0 c (mqtt_dns_found ip c)" for ip
    using ci by (simp add: mqtt_dns_found_def split: option.split)
  have tsk: ?thesis if ev: "ev = EvTask" "c' = MQTT_Task env c"
  proof (cases rule: MQTT_Task_cases [of c env])
    case freed
    with w show ?thesis by simp
  next
    case packet
    have "snd (recv_append None c) = rx_client ev c" by (simp add: ev rx_client_def)
    from recv_head [OF p _ h w _ this, of env] packet(3) ev w' show ?thesis by simp
  next
    case data
    show ?thesis
    proof (cases "pCon c \<and> sendTimeout c = 0 \<and> \<not> is_waiting_for_ack c \<and> \<not> is_waiting_for_pingresp c")
      case True
      then have "holds_msgs c' (m # ms)"
        using task_send_result(2) [OF ci w h, of env] n by (simp add: ev data(4) task_drops_def)
      then show ?thesis by (metis append_Nil2)
    next
      case False
      with h have "holds_msgs c' (m # ms @ [])" by (simp add: ev data(4) task_send_idle)
      then show ?thesis by blast
    qed
  next
    case other
    note t = MQTT_Task_other [OF ci other(3,1) other(2) [unfolded task_takes_packet_def], of env]
    from keep [OF t(1)] w' ev show ?thesis by blast
  qed
  have recv: ?thesis if ev: "ev = EvReceived d" "c' = mqtt_tcpclient_recv env (Some d) c" "pCon c" for d
  proof -
    have "snd (recv_append (Some d) c) = rx_client ev c" by (simp add: ev rx_client_def)
    from recv_head [OF p _ h w _ this, of env] ev w' show ?thesis by simp
  qed
  from s show ?thesis
  proof (cases rule: mqtt_step.cases)
    case task
    with tsk show ?thesis by simp
  next
    case received
    with recv show ?thesis by simp
  qed (use keep w' ci dns mqtt_timer_evolves [OF ci] mqtt_tcpclient_sent_cb_evolves [OF ci]
        mqtt_tcpclient_discon_cb_evolves [OF ci] mqtt_tcpclient_connect_cb_evolves [OF ci]
        mqtt_tcpclient_recon_cb_evolves [OF ci] api_run_evolves [OF ci] evolves_lwt [OF ci]
      in \<open>simp add: MQTT_OnConnected_def MQTT_OnDisconnected_def MQTT_OnData_def MQTT_OnPublished_def
        MQTT_OnPingResp_def MQTT_OnTimeout_def\<close>)+
qed


lemma ex_client1_holds: "holds_msgs ex_client1 [ex_msg]"
proof -
  have c: "cinv ex_client0" using pinv_cinv [OF initial_pinv(1) [OF ex_client0_initial]] .
  note w = initial_pinv(3,2) [OF ex_client0_initial]
  define e where "e = fst (mqtt_msg_publish (mqtt_conn ex_client0) (Some [0x61]) [0x7E] 1 1 0)"
  have cb: "conn_buf (mqtt_conn ex_client0)" "buffer_length (mqtt_conn ex_client0) = 2048"
    "out_buffer ex_client0" "q_buf (msgQueue ex_client0) \<noteq> None"
    using c w(1) by (auto simp: cinv_def)
  have enc: "enc_ok (mqtt_conn ex_client0) e" using enc_ok_publish [OF cb(1)] by (simp add: e_def)
  have fits: "3 + length (publish_body [0x61] 1 1 [0x7E]) \<le> buffer_length (mqtt_conn ex_client0)"
    using cb by (simp add: length_publish_body)
  have mid: "(1 :: u16) = (if (1::int) > 0 then fresh_id (message_id (mqtt_conn ex_client0)) else 0)"
    by (simp add: ex_client0_fields fresh_id_def)
  obtain c' where
    "mqtt_msg_publish (mqtt_conn ex_client0) (Some [0x61]) [0x7E] (length [0x7E :: u8]) 1 0 = (c', Some 1)"
    "mqtt_bytes c' = ex_msg" "msg_length c' \<noteq> 0" "msg_data c' \<noteq> None"
    using mqtt_msg_publish_fits [OF cb(1) _ fits mid, of 0] unfolding ex_msg_def
    by (metis list.distinct(1))
  then have e: "mqtt_bytes e = ex_msg" "msg_length e \<noteq> 0" "msg_data e \<noteq> None" by (simp_all add: e_def)
  have "ex_client1 = snd (queue_outbound (ex_client0\<lparr>mqtt_conn := e\<rparr>))"
    using w(1) cb ex_client0_fields
    by (auto simp: ex_client1_def MQTT_Publish_def e_def)
  with queue_outbound_packet [OF c w e(1,3,2) enc]
  show ?thesis by (simp add: ex_msg_eq frame_def proto_special_def)
qed

lemma ex_client1_work: "work_buffer ex_client1 \<noteq> None"
  using initial_pinv(3) [OF ex_client0_initial]
  by (simp add: ex_client1_def MQTT_Publish_def queue_outbound_def Let_def split: prod.split)

lemma ex_msg_needs_ack: "needs_ack (mqtt_get_type ex_msg) (mqtt_get_qos ex_msg)"
  unfolding ex_msg_eq by code_simp

section \<open>Sending in order, one message at a time\<close>

text \<open>
  C15: in state \<open>MQTT_DATA\<close>, with no received packet waiting, \<open>MQTT_Task\<close> sends exactly the
  oldest queued message, and only when no acknowledgement, no PINGRESP and no send is
  outstanding. The message stays queued unless it needs no acknowledgement and the send
  succeeded; a refused send makes the connection reconnect with the queue unchanged.
\<close>

theorem task_sends_oldest_message:
  assumes c: "cinv c" and h: "holds_msgs c (m # ms)" and w: "work_buffer c \<noteq> None"
    and s: "connState c = MQTT_DATA" and n: "\<not> task_takes_packet c" and sec: "\<not> security c"
  shows "if pCon c \<and> sendTimeout c = 0 \<and> \<not> is_waiting_for_ack c \<and> \<not> is_waiting_for_pingresp c
         then
           if espconn_send env m = 0
           then eff (MQTT_Task env c) = eff c @ [Send m] \<and>
                is_waiting_for_ack (MQTT_Task env c) = needs_ack (mqtt_get_type m) (mqtt_get_qos m) \<and>
                holds_msgs (MQTT_Task env c)
                  (if needs_ack (mqtt_get_type m) (mqtt_get_qos m) then m # ms else ms)
           else eff (MQTT_Task env c) = eff c @ [Send m, Post] \<and>
                holds_msgs (MQTT_Task env c) (m # ms) \<and>
                connState (MQTT_Task env c) = TCP_RECONNECT_DISCONNECTING
         else MQTT_Task env c = c"
proof -
  have t: "MQTT_Task env c = task_send env c"
    using w n s by (cases rule: MQTT_Task_cases [of c env]) auto
  show ?thesis
  proof (cases "pCon c \<and> sendTimeout c = 0 \<and> \<not> is_waiting_for_ack c \<and> \<not> is_waiting_for_pingresp c")
    case True
    then show ?thesis
      using task_send_result [OF c w h, of env] sec
      by (auto simp: t task_drops_def pend_def)
  next
    case False
    show ?thesis unfolding if_not_P [OF False] t by (rule task_send_idle [OF False])
  qed
qed

section \<open>Timeouts\<close>

lemma ex_client1_cinv: "cinv ex_client1"
  by (rule pinv_cinv [OF reachable_pinv [OF ex_client1_reachable]])

definition ex_client2 :: mqtt_client where
  "ex_client2 = ex_client1\<lparr>in_buffer_used := 0, pCon := True, connState := MQTT_DATA,
     sendTimeout := 0, is_waiting_for_ack := False, is_waiting_for_pingresp := False,
     security := False, eff := []\<rparr>"

lemma ex_client2_facts: "cinv ex_client2" "holds_msgs ex_client2 [ex_msg]" "work_buffer ex_client2 \<noteq> None"
proof -
  have "holds_msgs (c\<lparr>security := s\<rparr>) ms = holds_msgs c ms" for c s ms by (simp add: holds_msgs_def)
  moreover have "cinv (c\<lparr>security := s\<rparr>) = cinv c" for c s by (simp add: cinv_def holds_msgs_def)
  ultimately show "cinv ex_client2" "holds_msgs ex_client2 [ex_msg]" "work_buffer ex_client2 \<noteq> None"
    using ex_client1_cinv ex_client1_holds ex_client1_work by (simp_all add: ex_client2_def cinv_updates)
qed

lemma task_sends_oldest_message_witness:
  "eff (MQTT_Task ex_env ex_client2) = [Send [0x32, 6, 0, 1, 0x61, 0, 1, 0x7E]] \<and>
   is_waiting_for_ack (MQTT_Task ex_env ex_client2) \<and> holds_msgs (MQTT_Task ex_env ex_client2) [ex_msg]"
proof -
  have "connState ex_client2 = MQTT_DATA" "\<not> task_takes_packet ex_client2" "\<not> security ex_client2"
    by (simp_all add: ex_client2_def task_takes_packet_def)
  from task_sends_oldest_message [OF ex_client2_facts(1,2,3) this, of ex_env]
  show ?thesis
    using ex_msg_needs_ack by (simp add: ex_client2_def ex_env_def) (simp add: ex_msg_eq)
qed

lemma timer_ticks:
  assumes "connect_info_set c" and "is_waiting_for_ack c" and "sendTimeout c = of_nat n" and "n \<le> 5"
    and "connState c \<in> {MQTT_DATA, MQTT_KEEPALIVE_SEND, MQTT_CONNECT_SENDING, TCP_RECONNECT_DISCONNECTING}"
  shows "if n = 0 then True else
     connect_info_set (mqtt_timer env c) \<and> is_waiting_for_ack (mqtt_timer env c) \<and>
     sendTimeout (mqtt_timer env c) = of_nat (n - 1) \<and>
     (if n = 1 then connState (mqtt_timer env c) = TCP_RECONNECT_DISCONNECTING
      else connState (mqtt_timer env c) \<in> {connState c, TCP_RECONNECT_DISCONNECTING}) \<and>
     msgQueue (mqtt_timer env c) = msgQueue c"
proof (cases n)
  case (Suc k)
  define d where "d = mqtt_timer_state env c"
  have d: "connect_info_set d" "is_waiting_for_ack d" "sendTimeout d = of_nat n"
    "connState d = connState c" "msgQueue d = msgQueue c"
    using assms by (auto simp: d_def mqtt_timer_state_def Let_def)
  define e where "e = (if is_waiting_for_pingresp d \<and> pingrespTimeout d > 0 then
      (let d = d\<lparr>pingrespTimeout := pingrespTimeout d - 1\<rparr>
       in if pingrespTimeout d = 0
          then goto TCP_RECONNECT_DISCONNECTING (d\<lparr>is_waiting_for_pingresp := False\<rparr>) else d)
      else d)"
  have e: "connect_info_set e" "is_waiting_for_ack e" "sendTimeout e = of_nat n"
    "connState e \<in> {connState c, TCP_RECONNECT_DISCONNECTING}" "msgQueue e = msgQueue c"
    using d by (auto simp: e_def Let_def goto_def system_os_post_def emit_def)
  have eq: "mqtt_timer env c = (if sendTimeout e > 0 then
        (let e = e\<lparr>sendTimeout := sendTimeout e - 1\<rparr>
         in if sendTimeout e = 0 then goto TCP_RECONNECT_DISCONNECTING e else e)
      else e)"
    using assms(1) by (simp add: mqtt_timer_def Let_def d_def e_def)
  from Suc assms(4) have "n \<in> {1, 2, 3, 4, 5}" by auto
  with e Suc show ?thesis
    by (auto simp: eq Let_def goto_def system_os_post_def emit_def)
qed simp

lemma timer_funpow:
  assumes "connect_info_set c" and "is_waiting_for_ack c" and "sendTimeout c = of_nat n" and "n \<le> 5"
    and "0 < n"
    and "connState c \<in> {MQTT_DATA, MQTT_KEEPALIVE_SEND, MQTT_CONNECT_SENDING, TCP_RECONNECT_DISCONNECTING}"
  shows "connState ((mqtt_timer env ^^ n) c) = TCP_RECONNECT_DISCONNECTING \<and>
         msgQueue ((mqtt_timer env ^^ n) c) = msgQueue c"
  using assms
proof (induction n arbitrary: c)
  case (Suc n)
  note t = timer_ticks [OF Suc.prems(1-4,6), of env]
  show ?case
  proof (cases "n = 0")
    case True
    with t show ?thesis by simp
  next
    case False
    then have n: "0 < n" by simp
    from t have d: "connect_info_set (mqtt_timer env c)" "is_waiting_for_ack (mqtt_timer env c)"
      "sendTimeout (mqtt_timer env c) = of_nat n" "msgQueue (mqtt_timer env c) = msgQueue c"
      "connState (mqtt_timer env c) \<in> {connState c, TCP_RECONNECT_DISCONNECTING}"
      using False by (simp_all split: if_splits)
    then have st: "connState (mqtt_timer env c) \<in> {MQTT_DATA, MQTT_KEEPALIVE_SEND,
        MQTT_CONNECT_SENDING, TCP_RECONNECT_DISCONNECTING}"
      using Suc.prems(6) by auto
    have "n \<le> 5" using Suc.prems(4) by simp
    from Suc.IH [OF d(1,2,3) this n st] d(4) show ?thesis
      by (simp only: funpow_Suc_right comp_apply)
  qed
qed simp

text \<open>
  C19: an acknowledgement that does not come is noticed. If the client waits for one with
  \<open>sendTimeout\<close> running, then after that many ticks of the one-second timer without any
  other event, at most five, it is in state \<open>TCP_RECONNECT_DISCONNECTING\<close>, and the queue
  still holds the unacknowledged message for the next connection.
\<close>

theorem ack_timeout_forces_reconnect:
  assumes "cinv c" and "connect_info_set c" and "is_waiting_for_ack c" and "sendTimeout c \<noteq> 0"
    and "connState c \<in> {MQTT_DATA, MQTT_KEEPALIVE_SEND, MQTT_CONNECT_SENDING, TCP_RECONNECT_DISCONNECTING}"
  shows "unat (sendTimeout c) \<le> 5 \<and>
     connState ((mqtt_timer env ^^ unat (sendTimeout c)) c) = TCP_RECONNECT_DISCONNECTING \<and>
     msgQueue ((mqtt_timer env ^^ unat (sendTimeout c)) c) = msgQueue c"
proof -
  have "sendTimeout c \<le> 5" using assms(1) by (simp add: cinv_def)
  then have n: "unat (sendTimeout c) \<le> 5" by (simp add: word_le_nat_alt)
  have "0 < unat (sendTimeout c)" using assms(4) by (simp add: unat_gt_0)
  with timer_funpow [OF assms(2,3) _ n _ assms(5), of env] n show ?thesis by simp
qed

lemma ack_timeout_forces_reconnect_witness:
  "connState ((mqtt_timer ex_env ^^ 5) (ex_client2\<lparr>connect_info_set := True, is_waiting_for_ack := True,
     sendTimeout := 5\<rparr>)) = TCP_RECONNECT_DISCONNECTING"
proof -
  have "cinv (c\<lparr>connect_info_set := s\<rparr>) = cinv c" for c s by (simp add: cinv_def holds_msgs_def)
  then have "cinv (ex_client2\<lparr>connect_info_set := True, is_waiting_for_ack := True, sendTimeout := 5\<rparr>)"
    using ex_client2_facts by (simp add: cinv_updates)
  from ack_timeout_forces_reconnect [OF this, of ex_env] show ?thesis
    by (simp add: ex_client2_def)
qed

section \<open>The length of a received packet\<close>

lemma rl_packet_length:
  "length rest \<le> K \<Longrightarrow> n < 128 ^ (5 - i) \<Longrightarrow> 1 \<le> i \<Longrightarrow> i \<le> 4 \<Longrightarrow> i + length (remaining_length n) \<le> u \<Longrightarrow>
   drop i buf = remaining_length n @ rest \<Longrightarrow>
   packet_length_loop buf u i r mult = int (i + length (remaining_length n) + r + n * mult)"
proof (induction n arbitrary: i r mult rule: remaining_length.induct)
  case (1 n)
  have i: "i < length buf"
    using 1(7) by (metis append_is_Nil_conv drop_all linorder_not_less remaining_length.simps
        list.distinct(1))
  then have hd: "buf ! i = hd (drop i buf)" by (simp add: hd_drop_conv_nth)
  show ?case
  proof (cases "n < 128")
    case True
    then have rl: "remaining_length n = [of_nat n]" by (simp add: remaining_length_small)
    with 1(7) hd have b: "buf ! i = of_nat n" by simp
    have "even (n div 128)" using True by simp
    with True 1(4-6) rl show ?thesis
      by (subst packet_length_loop.simps) (simp add: b byte_and_127 byte_and_128 Let_def)
  next
    case False
    then have rl: "remaining_length n = of_nat (128 + n mod 128) # remaining_length (n div 128)"
      by (subst remaining_length.simps) simp
    with 1(7) hd have b: "buf ! i = of_nat (128 + n mod 128)" by simp
    have "(128 + n mod 128) div 128 = n mod 128 div 128 + 1" by (rule div_add_self1) simp
    then have odd: "odd ((128 + n mod 128) div 128)" by simp
    have md: "(128 + n mod 128) mod 128 = n mod 128" by simp
    have i3: "i \<le> 3"
    proof (rule ccontr)
      assume "\<not> i \<le> 3"
      with 1(5) have "i = 4" by simp
      with 1(3) False show False by simp
    qed
    have "n div 128 < 128 ^ (5 - Suc i)"
    proof -
      have "5 - i = Suc (5 - Suc i)" using i3 by simp
      with 1(3) have "n < 128 ^ (5 - Suc i) * 128" by simp
      then show ?thesis by (simp add: less_mult_imp_div_less)
    qed
    moreover have "drop (Suc i) buf = remaining_length (n div 128) @ rest"
      using 1(7) rl by (metis drop_Suc tl_drop append_Cons list.sel(3))
    moreover have "Suc i + length (remaining_length (n div 128)) \<le> u" using 1(6) rl by simp
    ultimately have "packet_length_loop buf u (Suc i) (r + n mod 128 * mult) (mult * 128) =
        int (Suc i + length (remaining_length (n div 128)) + (r + n mod 128 * mult) + n div 128 * (mult * 128))"
      using 1(1) [OF False 1(2)] i3 by simp
    moreover have "n * mult = (n div 128 * 128 + n mod 128) * mult" by (simp only: div_mult_mod_eq)
    moreover have "(n div 128 * 128 + n mod 128) * mult = n mod 128 * mult + n div 128 * (mult * 128)"
      by (simp only: distrib_right mult.assoc mult.commute [of 128] add.commute)
    ultimately have "packet_length_loop buf u (Suc i) (r + n mod 128 * mult) (mult * 128) =
        int (Suc i + length (remaining_length (n div 128)) + r + n * mult)"
      by linarith
    then show ?thesis
      using 1(5,6) rl
      by (subst packet_length_loop.simps) (simp add: b byte_and_127 byte_and_128 Let_def odd md del: of_nat_add)
  qed
qed

text \<open>
  for every MQTT packet, of any type and with a body of any length below \<open>2 ^ 28\<close> (the
  largest the format allows), \<open>mqtt_get_packet_length\<close> computes the length of the whole
  packet as soon as its fixed header is in the buffer, whatever bytes follow.
\<close>

theorem packet_length_correct:
  assumes "length body < 2 ^ 28" and "m = packet t d q r body"
    and "1 + length (remaining_length (length body)) \<le> used"
  shows "mqtt_get_packet_length (m @ rest) used = int (length m)"
proof -
  have "drop 1 (m @ rest) = remaining_length (length body) @ body @ rest"
    by (simp add: assms(2) packet_def)
  moreover have "length body < 128 ^ (5 - 1)" using assms(1) by simp
  ultimately have "packet_length_loop (m @ rest) used 1 0 1 =
      int (1 + length (remaining_length (length body)) + 0 + length body * 1)"
    using assms(3) by (intro rl_packet_length [of "body @ rest" "length (body @ rest)"]) simp_all
  moreover have "1 \<le> length (remaining_length (length body))"
    by (subst remaining_length.simps) simp
  ultimately show ?thesis
    using assms(2,3) by (simp add: mqtt_get_packet_length_def packet_def)
qed

lemma packet_length_correct_witness:
  "mqtt_get_packet_length (packet 3 0 1 0 (replicate 300 7) @ [1, 2]) 3 = 303"
  using packet_length_correct [of "replicate 300 7" _ 3 0 1 0 3 "[1, 2]"]
  by (simp add: length_remaining_length length_packet)

section \<open>An acknowledgement without a request\<close>

text \<open>
  after a QoS 0 publish was sent the pending type stays PUBLISH with id 0 although
  nothing is awaited, so a PUBACK with id 0 removes the next queued message, which was never
  sent, whatever its QoS.
\<close>

theorem stray_puback_drops_unsent:
  assumes "cinv c" and "work_buffer c \<noteq> None" and "con_reverse c" and "pCon c"
    and "connState c = MQTT_DATA" and "in_buffer_used c = 0" and "\<not> is_waiting_for_ack c"
    and "pending_msg_type c = MQTT_MSG_TYPE_PUBLISH" and "pending_msg_id c = 0"
    and "holds_msgs c (m # ms)"
  shows "holds_msgs (mqtt_tcpclient_recv env (Some [0x40, 2, 0, 0]) c) ms \<and>
         eff (mqtt_tcpclient_recv env (Some [0x40, 2, 0, 0]) c) = eff c @ [Post]"
proof -
  define d where "d = [0x40, 2, 0, 0 :: u8]"
  obtain b where b: "in_buffer c = Some b" "length b = 2048"
    using assms(1,2) by (auto simp: cinv_def buf2048_def)
  define e where "e = c\<lparr>in_buffer := Some (d @ drop 4 b), in_buffer_used := 4\<rparr>"
  have ap: "recv_append (Some d) c = (True, e)"
    using assms(2,6) b by (simp add: recv_append_def d_def e_def put_bytes_def numeral_eq_Suc)
  have len: "mqtt_get_packet_length (d @ drop 4 b) 4 = 4"
    by (simp add: d_def mqtt_get_packet_length_def packet_length_loop.simps)
  have ty: "mqtt_get_type (d @ drop 4 b) = 4" and id: "mqtt_get_id (d @ drop 4 b) 4 = 0"
    by (simp_all add: d_def mqtt_get_type_def mqtt_get_id_def be16_def)
  have "cinv (snd (recv_append (Some d) c))"
    using evolves_cinv [OF recv_append_evolves [OF assms(1), of "Some d"]] assms(4) by simp
  then have ce: "cinv e" by (simp add: ap)
  define f where "f = e\<lparr>message_length_read := 4,
      message_length := mqtt_get_total_length (d @ drop 4 b) 4\<rparr>"
  have f: "cinv f" "work_buffer f \<noteq> None" "holds_msgs f (m # ms)"
    using ce assms(2,10) by (simp_all add: f_def e_def)
  have disp: "recv_dispatch env 4 e = finish_pending env f"
    using assms(5,8,9) by (simp add: recv_dispatch_def e_def ty id recv_data_def f_def Let_def)
  have fields: "connState (finish_pending env f) = MQTT_DATA" "in_buffer_used (finish_pending env f) = 4"
    "in_buffer (finish_pending env f) = Some (d @ drop 4 b)" "eff (finish_pending env f) = eff c"
    using assms(5) by (simp_all add: finish_pending_def f_def e_def split: prod.split)
  have proc: "recv_process env e = system_os_post ((finish_pending env f)\<lparr>in_buffer_used := 0,
      in_buffer := Some (put_bytes (d @ drop 4 b) 0 (sub_bytes (d @ drop 4 b) 4 0))\<rparr>)"
    using len disp fields by (simp add: recv_process_def recv_remove_def Let_def e_def)
  have "mqtt_tcpclient_recv env (Some d) c = recv_process env e"
    using assms(3) by (simp add: mqtt_tcpclient_recv_def ap)
  then show ?thesis
    using finish_pending_head(1) [OF f, of env] fields(4)
    by (simp add: proc d_def [symmetric] system_os_post_def emit_def)
qed

lemma stray_puback_drops_unsent_witness:
  "holds_msgs (mqtt_tcpclient_recv ex_env (Some [0x40, 2, 0, 0])
     (ex_client1\<lparr>con_reverse := True, pCon := True, in_buffer_used := 0, connState := MQTT_DATA,
        is_waiting_for_ack := False, pending_msg_type := 3, pending_msg_id := 0\<rparr>)) []"
proof -
  have "cinv ex_client1" by (rule pinv_cinv [OF reachable_pinv [OF ex_client1_reachable]])
  then show ?thesis
    using ex_client1_work ex_client1_holds
    by (intro conjunct1 [OF stray_puback_drops_unsent [where m = ex_msg]]) (simp_all add: cinv_updates)
qed

text \<open>Witnesses on the client with one message queued.\<close>

lemma unacked_message_stays_queued_witness:
  "(\<exists>new. holds_msgs (mqtt_tcpclient_recon_cb ex_client1) (ex_msg # new)) \<or>
   (\<exists>new. holds_msgs (mqtt_tcpclient_recon_cb ex_client1) new)"
proof -
  have "work_buffer (mqtt_tcpclient_recon_cb ex_client1) \<noteq> None"
    using ex_client1_work by (simp add: mqtt_tcpclient_recon_cb_def)
  from unacked_message_stays_queued [OF ex_client1_reachable mqtt_step.reconnect [of ex_env] ex_client1_holds
      ex_msg_needs_ack ex_client1_work this]
  show ?thesis by auto
qed

end
