(* ===== verification/Utils.thy ===== *)
theory Utils
  imports Prelude
begin

text \<open>
  \<open>user/utils.c\<close>: the CRC that protects the meter protocols, the decimal helpers of the
  value formatter, the escaping of query strings and the conversion of hexadecimal keys.
  C strings are byte lists without the NUL; \<open>int\<close> values are 32-bit words.
\<close>

section \<open>CRC-CCITT\<close>

definition ccit_crc16_table :: "u16 list" where
  "ccit_crc16_table =
   [0x0000, 0x1021, 0x2042, 0x3063, 0x4084, 0x50a5, 0x60c6, 0x70e7,
    0x8108, 0x9129, 0xa14a, 0xb16b, 0xc18c, 0xd1ad, 0xe1ce, 0xf1ef,
    0x1231, 0x0210, 0x3273, 0x2252, 0x52b5, 0x4294, 0x72f7, 0x62d6,
    0x9339, 0x8318, 0xb37b, 0xa35a, 0xd3bd, 0xc39c, 0xf3ff, 0xe3de,
    0x2462, 0x3443, 0x0420, 0x1401, 0x64e6, 0x74c7, 0x44a4, 0x5485,
    0xa56a, 0xb54b, 0x8528, 0x9509, 0xe5ee, 0xf5cf, 0xc5ac, 0xd58d,
    0x3653, 0x2672, 0x1611, 0x0630, 0x76d7, 0x66f6, 0x5695, 0x46b4,
    0xb75b, 0xa77a, 0x9719, 0x8738, 0xf7df, 0xe7fe, 0xd79d, 0xc7bc,
    0x48c4, 0x58e5, 0x6886, 0x78a7, 0x0840, 0x1861, 0x2802, 0x3823,
    0xc9cc, 0xd9ed, 0xe98e, 0xf9af, 0x8948, 0x9969, 0xa90a, 0xb92b,
    0x5af5, 0x4ad4, 0x7ab7, 0x6a96, 0x1a71, 0x0a50, 0x3a33, 0x2a12,
    0xdbfd, 0xcbdc, 0xfbbf, 0xeb9e, 0x9b79, 0x8b58, 0xbb3b, 0xab1a,
    0x6ca6, 0x7c87, 0x4ce4, 0x5cc5, 0x2c22, 0x3c03, 0x0c60, 0x1c41,
    0xedae, 0xfd8f, 0xcdec, 0xddcd, 0xad2a, 0xbd0b, 0x8d68, 0x9d49,
    0x7e97, 0x6eb6, 0x5ed5, 0x4ef4, 0x3e13, 0x2e32, 0x1e51, 0x0e70,
    0xff9f, 0xefbe, 0xdfdd, 0xcffc, 0xbf1b, 0xaf3a, 0x9f59, 0x8f78,
    0x9188, 0x81a9, 0xb1ca, 0xa1eb, 0xd10c, 0xc12d, 0xf14e, 0xe16f,
    0x1080, 0x00a1, 0x30c2, 0x20e3, 0x5004, 0x4025, 0x7046, 0x6067,
    0x83b9, 0x9398, 0xa3fb, 0xb3da, 0xc33d, 0xd31c, 0xe37f, 0xf35e,
    0x02b1, 0x1290, 0x22f3, 0x32d2, 0x4235, 0x5214, 0x6277, 0x7256,
    0xb5ea, 0xa5cb, 0x95a8, 0x8589, 0xf56e, 0xe54f, 0xd52c, 0xc50d,
    0x34e2, 0x24c3, 0x14a0, 0x0481, 0x7466, 0x6447, 0x5424, 0x4405,
    0xa7db, 0xb7fa, 0x8799, 0x97b8, 0xe75f, 0xf77e, 0xc71d, 0xd73c,
    0x26d3, 0x36f2, 0x0691, 0x16b0, 0x6657, 0x7676, 0x4615, 0x5634,
    0xd94c, 0xc96d, 0xf90e, 0xe92f, 0x99c8, 0x89e9, 0xb98a, 0xa9ab,
    0x5844, 0x4865, 0x7806, 0x6827, 0x18c0, 0x08e1, 0x3882, 0x28a3,
    0xcb7d, 0xdb5c, 0xeb3f, 0xfb1e, 0x8bf9, 0x9bd8, 0xabbb, 0xbb9a,
    0x4a75, 0x5a54, 0x6a37, 0x7a16, 0x0af1, 0x1ad0, 0x2ab3, 0x3a92,
    0xfd2e, 0xed0f, 0xdd6c, 0xcd4d, 0xbdaa, 0xad8b, 0x9de8, 0x8dc9,
    0x7c26, 0x6c07, 0x5c64, 0x4c45, 0x3ca2, 0x2c83, 0x1ce0, 0x0cc1,
    0xef1f, 0xff3e, 0xcf5d, 0xdf7c, 0xaf9b, 0xbfba, 0x8fd9, 0x9ff8,
    0x6e17, 0x7e36, 0x4e55, 0x5e74, 0x2e93, 0x3eb2, 0x0ed1, 0x1ef0]"

fun ccit_crc16 :: "u16 \<Rightarrow> bytes \<Rightarrow> u16" where
  "ccit_crc16 crc16 [] = crc16"
| "ccit_crc16 crc16 (d # data) =
     ccit_crc16 (push_bit 8 crc16 XOR
       ccit_crc16_table ! unat ((drop_bit 8 crc16 XOR ucast d) AND 0x00FF)) data"

text \<open>
  The reference: division by the polynomial \<open>x^16 + x^12 + x^5 + 1\<close>, one bit at a time.
\<close>

definition crc_bit :: "u16 \<Rightarrow> u16" where
  "crc_bit c = (if bit c 15 then push_bit 1 c XOR 0x1021 else push_bit 1 c)"

definition crc_byte :: "u16 \<Rightarrow> u8 \<Rightarrow> u16" where
  "crc_byte c b = (crc_bit ^^ 8) (c XOR push_bit 8 (ucast b))"

lemma crc_bit_xor: "crc_bit (a XOR b) = crc_bit a XOR crc_bit b"
  by (rule bit_word_eqI) (auto simp: crc_bit_def bit_simps)

lemma crc_bits_xor: "(crc_bit ^^ n) (a XOR b) = (crc_bit ^^ n) a XOR (crc_bit ^^ n) b"
  by (induction n) (simp_all add: crc_bit_xor)

lemma xor_right_inject: "a XOR c = b XOR c \<longleftrightarrow> a = (b :: u16)"
proof
  assume "a XOR c = b XOR c"
  then have "(a XOR c) XOR c = (b XOR c) XOR c" by (rule arg_cong)
  then show "a = b" by (simp only: xor.assoc xor_self_eq xor.right_neutral)
qed simp

lemma crc_bit_inject: "crc_bit a = crc_bit b \<longleftrightarrow> a = b"
proof
  assume eq: "crc_bit a = crc_bit b"
  have top: "bit (crc_bit c) 0 = bit c 15" for c
    by (simp only: crc_bit_def bit_xor_iff if_distrib [of "\<lambda>x. bit x 0"]) (simp add: bit_0)
  with eq have 15: "bit a 15 = bit b 15" by metis
  have "push_bit 1 a = push_bit 1 b"
  proof (cases "bit a 15")
    case True
    with eq 15 have "push_bit 1 a XOR 0x1021 = push_bit 1 b XOR 0x1021"
      by (simp add: crc_bit_def)
    then show ?thesis by (simp only: xor_right_inject)
  next
    case False
    with eq 15 show ?thesis by (simp add: crc_bit_def)
  qed
  then have pushed: "bit (push_bit 1 a) (Suc n) = bit (push_bit 1 b) (Suc n)" for n by (rule arg_cong)
  have shift: "bit a n = bit b n" if "n < 15" for n
    using that pushed [of n] by (simp only: bit_push_bit_iff) simp
  show "a = b"
  proof (rule bit_word_eqI)
    fix n assume "n < LENGTH(16)"
    then show "bit a n = bit b n"
      using shift [of n] 15 by (cases "n = 15") auto
  qed
qed simp

lemma crc_bits_inject: "(crc_bit ^^ n) a = (crc_bit ^^ n) b \<longleftrightarrow> a = b"
  by (induction n) (simp_all add: crc_bit_inject)

text \<open>The table by doubling: the second half of each power of two is the first, xored.\<close>

definition crc_table :: "nat \<Rightarrow> u16 list" where
  "crc_table n = map (\<lambda>i. (crc_bit ^^ 8) (push_bit 8 (of_nat i))) [0..<2 ^ n]"

lemma crc_table_0: "crc_table 0 = [0]"
  by (simp add: crc_table_def crc_bit_def numeral_eq_Suc)

lemma crc_table_Suc:
  assumes "n < 8"
  shows "crc_table (Suc n) =
    crc_table n @ map (\<lambda>w. w XOR (crc_bit ^^ 8) (push_bit 8 (2 ^ n))) (crc_table n)"
proof -
  have upt: "[0..<2 ^ Suc n] = [0..<2 ^ n] @ map (\<lambda>i. i + 2 ^ n) [0..<2 ^ n]"
    using map_add_upt [of "2 ^ n" "2 ^ n"] upt_add_eq_append [of 0 "2 ^ n" "2 ^ n"]
    by (simp add: mult_2)
  have "(of_nat (i + 2 ^ n) :: u16) = of_nat i XOR 2 ^ n" if "i < 2 ^ n" for i
  proof -
    have "take_bit n i = i" using that by (rule take_bit_nat_eq_self)
    then have "\<not> bit i n" by (metis bit_take_bit_iff less_irrefl)
    then have "(of_nat i :: u16) AND 2 ^ n = 0"
      by (simp add: and_exp_eq_0_iff_not_bit bit_of_nat_iff)
    then have "(of_nat i :: u16) + 2 ^ n = of_nat i XOR 2 ^ n"
      by (rule disjunctive_add_eq_xor)
    then show ?thesis by simp
  qed
  then have "(crc_bit ^^ 8) (push_bit 8 (of_nat (i + 2 ^ n))) =
      (crc_bit ^^ 8) (push_bit 8 (of_nat i)) XOR (crc_bit ^^ 8) (push_bit 8 (2 ^ n))"
    if "i < 2 ^ n" for i
    using that by (simp only: push_bit_xor crc_bits_xor)
  then show ?thesis
    unfolding crc_table_def upt map_append map_map o_def
    by (intro arg_cong2 [of _ _ _ _ "(@)"] refl map_cong) simp_all
qed

lemma funpow_comm: "(f ^^ m) ((f ^^ n) x) = (f ^^ n) ((f ^^ m) x)"
proof -
  have "(f ^^ (m + n)) x = (f ^^ (n + m)) x" by (simp only: add.commute)
  then show ?thesis by (simp only: funpow_add o_apply)
qed

lemma crc_bits_powers: "(crc_bit ^^ 8) (push_bit 8 (2 ^ n)) = (crc_bit ^^ n) 0x1021" if "n < 8"
proof -
  have *: "m \<le> 7 \<Longrightarrow> (crc_bit ^^ m) 0x100 = 2 ^ (8 + m)" for m
  proof (induction m)
    case (Suc m)
    then have "\<not> bit (2 ^ (8 + m) :: u16) 15" by (auto simp: bit_simps bit_exp_iff)
    with Suc show ?case by (simp add: crc_bit_def [of "256 * 2 ^ m"] power_add)
  qed simp
  have "push_bit 8 (2 ^ n) = (crc_bit ^^ n) 0x100"
    using that * [of n] by (simp add: push_bit_eq_mult power_add)
  then have "(crc_bit ^^ 8) (push_bit 8 (2 ^ n)) = (crc_bit ^^ n) ((crc_bit ^^ 8) 0x100)"
    by (simp only: funpow_comm)
  also have "(crc_bit ^^ 8) 0x100 = crc_bit ((crc_bit ^^ 7) 0x100)"
  proof -
    have "8 = Suc 7" by simp
    then show ?thesis by (simp only: funpow.simps o_apply)
  qed
  also have "\<dots> = 0x1021"
    using * [of 7] by (simp add: crc_bit_def)
  finally show ?thesis .
qed

lemma crc_table_double:
  "n < 8 \<Longrightarrow> crc_table (Suc n) =
     crc_table n @ map (\<lambda>w. w XOR (crc_bit ^^ n) 0x1021) (crc_table n)"
  by (simp add: crc_table_Suc crc_bits_powers)

lemma crc_table_entries: "ccit_crc16_table = crc_table 8"
proof -
  have Suc: "(crc_bit ^^ Suc n) c = crc_bit ((crc_bit ^^ n) c)" for n c by simp
  have "crc_bit 0x1021 = 0x2042" and "crc_bit 0x2042 = 0x4084" and "crc_bit 0x4084 = 0x8108"
    and "crc_bit 0x8108 = 0x1231" and "crc_bit 0x1231 = 0x2462" and "crc_bit 0x2462 = 0x48c4"
    and "crc_bit 0x48c4 = 0x9188"
    by (simp_all add: crc_bit_def)
  then have "crc_table (Suc (Suc (Suc (Suc (Suc (Suc (Suc (Suc 0)))))))) = ccit_crc16_table"
    unfolding ccit_crc16_table_def
    by (simp add: crc_table_double crc_table_0 Suc del: funpow.simps(2))
  then show ?thesis by (simp add: numeral_eq_Suc)
qed

lemma crc_bits_low: "(crc_bit ^^ 8) (take_bit 8 c) = push_bit 8 c"
proof -
  have *: "n \<le> 8 \<Longrightarrow> (crc_bit ^^ n) (take_bit 8 c) = push_bit n (take_bit 8 c)" for n
  proof (induction n)
    case (Suc n)
    then have "\<not> bit (push_bit n (take_bit 8 c)) 15" by (auto simp: bit_simps)
    with Suc show ?case by (simp add: crc_bit_def)
  qed simp
  show ?thesis
    by (simp only: * order_refl) (rule bit_word_eqI, auto simp: bit_simps)
qed

lemma crc_step:
  "push_bit 8 c XOR ccit_crc16_table ! unat ((drop_bit 8 c XOR ucast d) AND 0x00FF) = crc_byte c d"
proof -
  let ?x = "(drop_bit 8 c XOR ucast d) AND 0x00FF :: u16"
  have lt: "unat ?x < 256"
  proof -
    have "?x = take_bit 8 (drop_bit 8 c XOR ucast d)" by (rule and_255)
    then show ?thesis
      by (simp only: unsigned_take_bit_eq) (simp add: take_bit_eq_mod [where 'a = nat])
  qed
  have "c XOR push_bit 8 (ucast d) = take_bit 8 c XOR push_bit 8 ?x"
    unfolding and_255
    by (rule bit_word_eqI) (auto simp: bit_simps dest: bit_imp_le_length)
  then have "crc_byte c d = push_bit 8 c XOR (crc_bit ^^ 8) (push_bit 8 ?x)"
    unfolding crc_byte_def by (simp only: crc_bits_xor crc_bits_low)
  with lt show ?thesis by (simp add: crc_table_entries crc_table_def)
qed

lemma crc_reference: "ccit_crc16 c data = foldl crc_byte c data"
  by (induction data arbitrary: c) (simp_all only: ccit_crc16.simps crc_step foldl.simps)

lemma ccit_crc16_append: "ccit_crc16 c (xs @ ys) = ccit_crc16 (ccit_crc16 c xs) ys"
  by (simp add: crc_reference)

lemma ccit_crc16_inject: "ccit_crc16 c xs = ccit_crc16 d xs \<longleftrightarrow> c = d"
proof (induction xs arbitrary: c d)
  case (Cons x xs)
  with Cons show ?case
    by (simp only: ccit_crc16.simps crc_step) (simp only: crc_byte_def crc_bits_inject xor_right_inject)
qed simp

text \<open>Two bytes at once: the state and the big-endian word enter together.\<close>

lemma ccit_crc16_two: "ccit_crc16 c [h, l] = (crc_bit ^^ 16) (c XOR be16 h l)"
proof -
  have step: "(crc_bit ^^ 8) c XOR push_bit 8 (ucast l) = (crc_bit ^^ 8) (c XOR ucast l)" for c
  proof -
    have "take_bit 8 (ucast l :: u16) = ucast l"
      by (rule bit_word_eqI) (auto simp: bit_simps dest: bit_imp_le_length)
    with crc_bits_low [of "ucast l"] show ?thesis by (simp add: crc_bits_xor)
  qed
  have or: "push_bit 8 (ucast h) XOR (ucast l :: u16) = be16 h l"
    unfolding be16_def
    by (rule bit_word_eqI) (auto simp: bit_simps dest: bit_imp_le_length)
  have "ccit_crc16 c [h, l] = (crc_bit ^^ 8) ((crc_bit ^^ 8) (c XOR (push_bit 8 (ucast h) XOR ucast l)))"
    by (simp only: ccit_crc16.simps crc_step) (simp only: crc_byte_def step xor.assoc)
  also have "\<dots> = (crc_bit ^^ (8 + 8)) (c XOR be16 h l)"
    by (simp only: funpow_add o_apply or [symmetric])
  finally show ?thesis by simp
qed

lemma crc_residue: "ccit_crc16 c (xs @ [hi8 (ccit_crc16 c xs), lo8 (ccit_crc16 c xs)]) = 0"
proof -
  have "(crc_bit ^^ n) 0 = 0" for n by (induction n) (simp_all add: crc_bit_def)
  then show ?thesis by (simp add: ccit_crc16_append ccit_crc16_two del: ccit_crc16.simps)
qed

text \<open>
  C30: the table-driven CRC is the bitwise division by the CCITT polynomial, a message
  followed by its CRC divides without remainder, and every corruption that is confined to
  two neighbouring bytes changes the CRC, whatever surrounds them.
\<close>

theorem ccit_crc16_correct:
  "ccit_crc16 c data = foldl crc_byte c data \<and>
   ccit_crc16 c (data @ [hi8 (ccit_crc16 c data), lo8 (ccit_crc16 c data)]) = 0 \<and>
   (ccit_crc16 c (pre @ [h, l] @ post) = ccit_crc16 c (pre @ [h', l'] @ post) \<longleftrightarrow> h = h' \<and> l = l')"
proof (intro conjI)
  have "s XOR be16 h l = s XOR be16 h' l' \<longleftrightarrow> be16 h l = be16 h' l'" for s
    using xor_right_inject [of "be16 h l" s "be16 h' l'"] by (simp only: xor.commute)
  moreover have "be16 h l = be16 h' l' \<longleftrightarrow> h = h' \<and> l = l'"
    by (metis hi8_be16 lo8_be16)
  ultimately show "ccit_crc16 c (pre @ [h, l] @ post) = ccit_crc16 c (pre @ [h', l'] @ post) \<longleftrightarrow> h = h' \<and> l = l'"
    by (simp add: ccit_crc16_append ccit_crc16_two ccit_crc16_inject crc_bits_inject del: ccit_crc16.simps append.simps)
qed (rule crc_reference crc_residue)+

section \<open>Decimal helpers\<close>

fun int_pow_loop :: "u32 \<Rightarrow> nat \<Rightarrow> u32 \<Rightarrow> u32" where
  "int_pow_loop x 0 result = result"
| "int_pow_loop x (Suc n) result = int_pow_loop x n (result * x)"

definition int_pow :: "u32 \<Rightarrow> int \<Rightarrow> u32" where
  "int_pow x y = (if y = 0 then 1 else int_pow_loop x (nat (y - 1)) x)"

fun digits_loop :: "nat \<Rightarrow> nat \<Rightarrow> nat" where
  "digits_loop un digits = (if un > 0 then digits_loop (un div 10) (digits + 1) else digits)"

declare digits_loop.simps [simp del]

definition decimal_number_length :: "u32 \<Rightarrow> nat" where
  "decimal_number_length n =
     (if n = 0 then 1
      else if sint n < 0 then digits_loop (unat (- n)) 1
      else digits_loop (unat n) 0)"

text \<open>The digits that \<open>%u\<close> prints, and the number a digit string stands for.\<close>

definition digit_char :: "nat \<Rightarrow> u8" where
  "digit_char d = of_nat (48 + d)"

fun udigits :: "nat \<Rightarrow> bytes" where
  "udigits n = (if n < 10 then [digit_char n] else udigits (n div 10) @ [digit_char (n mod 10)])"

declare udigits.simps [simp del]

definition dec_value :: "nat list \<Rightarrow> nat" where
  "dec_value ds = foldl (\<lambda>a d. 10 * a + d) 0 ds"

abbreviation is_digits :: "nat list \<Rightarrow> bool" where
  "is_digits ds \<equiv> list_all (\<lambda>d. d < 10) ds"

lemma int_pow_loop_power: "int_pow_loop x n r = r * x ^ n"
  by (induction n arbitrary: r) (simp_all add: ac_simps)

lemma int_pow_power: "0 \<le> y \<Longrightarrow> int_pow x y = x ^ nat y"
proof -
  assume y: "0 \<le> y"
  show ?thesis
  proof (cases "y = 0")
    case False
    with y have "nat y = Suc (nat (y - 1))" by simp
    with False show ?thesis by (simp add: int_pow_def int_pow_loop_power)
  qed (simp add: int_pow_def)
qed

lemma digits_loop_length: "0 < n \<Longrightarrow> digits_loop n d = d + length (udigits n)"
proof (induction n d rule: digits_loop.induct)
  case (1 n d)
  show ?case
  proof (cases "n < 10")
    case True
    then show ?thesis using 1 by (simp add: digits_loop.simps [of n] digits_loop.simps [of 0] udigits.simps [of n])
  next
    case False
    with 1 show ?thesis by (simp add: digits_loop.simps [of n] udigits.simps [of n])
  qed
qed

lemma decimal_number_length_udigits:
  assumes "0 \<le> sint n"
  shows "decimal_number_length n = length (udigits (unat n))"
proof (cases "n = 0")
  case True
  then show ?thesis by (simp add: decimal_number_length_def udigits.simps [of 0])
next
  case False
  then have "0 < unat n" by (simp add: unat_gt_0)
  with False assms show ?thesis by (simp add: decimal_number_length_def digits_loop_length)
qed

lemma length_udigits_pos [simp]: "0 < length (udigits n)"
  by (subst udigits.simps) simp

lemma length_udigits_le: "n < 10 ^ k \<Longrightarrow> 0 < k \<Longrightarrow> length (udigits n) \<le> k"
proof (induction k arbitrary: n)
  case (Suc k)
  show ?case
  proof (cases "n < 10")
    case True
    then show ?thesis by (simp add: udigits.simps [of n])
  next
    case False
    with Suc.prems have "0 < k" by (cases k) auto
    moreover have "n div 10 < 10 ^ k" using Suc.prems by (simp add: less_mult_imp_div_less)
    ultimately show ?thesis using False Suc.IH [of "n div 10"] by (simp add: udigits.simps [of n])
  qed
qed simp

lemma length_udigits_u32: "length (udigits (unat (w :: u32))) \<le> 10"
proof (rule length_udigits_le)
  have "unat w < 2 ^ 32" using unsigned_less [of w] by simp
  then show "unat w < 10 ^ 10" by simp
qed simp

lemma unat_digit_char: "d < 10 \<Longrightarrow> unat (digit_char d) = 48 + d"
  by (simp only: digit_char_def unat_of_nat) simp

lemma dec_value_snoc: "dec_value (ds @ [d]) = 10 * dec_value ds + d"
  by (simp add: dec_value_def)

lemma dec_value_Nil [simp]: "dec_value [] = 0"
  by (simp add: dec_value_def)

section \<open>Volumes in litres\<close>

text \<open>
  \<open>multiply_str_by_1000\<close> turns the digits of a volume in cubic metres into litres: the
  loop collects the integer part in an array of 33 bytes and adds up to three decimals.
  \<open>None\<close> when the integer part does not fit the array, which the code does not check.
  \<open>atoi\<close> is the library function (digits with an optional sign after white space). For a number that
  \<open>int\<close> does not hold, where the standard leaves the result open, the model wraps around.
\<close>

fun atoi_digits :: "bytes \<Rightarrow> u32 \<Rightarrow> u32" where
  "atoi_digits [] acc = acc"
| "atoi_digits (c # cs) acc =
     (if 0x30 \<le> c \<and> c \<le> 0x39 then atoi_digits cs (10 * acc + (ucast c - 0x30)) else acc)"

fun atoi :: "bytes \<Rightarrow> u32" where
  "atoi (c # cs) =
     (if c = 0x20 \<or> (0x09 \<le> c \<and> c \<le> 0x0D) then atoi cs
      else if c = 0x2D then - atoi_digits cs 0
      else if c = 0x2B then atoi_digits cs 0
      else atoi_digits (c # cs) 0)"
| "atoi [] = 0"

fun multiply_loop :: "bytes \<Rightarrow> bytes \<Rightarrow> u32 \<Rightarrow> nat \<Rightarrow> bool \<Rightarrow> bytes \<times> u32" where
  "multiply_loop [] int_str result_frac pos_frac dec_separator = (int_str, result_frac)"
| "multiply_loop (c # cs) int_str result_frac pos_frac dec_separator =
     (if \<not> pos_frac < 3 then (int_str, result_frac)
      else if c = 0x2E then multiply_loop cs int_str result_frac pos_frac True
      else if \<not> dec_separator then multiply_loop cs (int_str @ [c]) result_frac pos_frac dec_separator
      else multiply_loop cs int_str
             (result_frac + (ucast c - 0x30) * int_pow 10 (2 - int pos_frac)) (pos_frac + 1) dec_separator)"

definition multiply_str_by_1000 :: "bytes \<Rightarrow> bytes option" where
  "multiply_str_by_1000 str =
     (let (int_str, result_frac) = multiply_loop str [] 0 0 False
      in if length int_str > 32 then None
         else Some (udigits (unat (1000 * atoi int_str + result_frac))))"

definition digit_string :: "nat list \<Rightarrow> bytes" where
  "digit_string ds = map digit_char ds"

text \<open>The first three decimals, padded with zeros.\<close>

definition milli :: "nat list \<Rightarrow> nat" where
  "milli fs = dec_value (take 3 (fs @ [0, 0, 0]))"

lemma digit_char_u32: "d < 10 \<Longrightarrow> ucast (digit_char d) - 0x30 = (of_nat d :: u32)"
proof -
  assume "d < 10"
  then have "(ucast (digit_char d) :: u32) = of_nat (48 + d)"
    by (simp only: word_unat_eq_iff unsigned_ucast_eq unat_of_nat unat_digit_char)
      (simp add: take_bit_eq_mod)
  then show ?thesis by simp
qed

lemma digit_char_range:
  assumes "d < 10"
  shows "0x30 \<le> digit_char d" and "digit_char d \<le> 0x39" and "digit_char d \<noteq> 0x2E"
    and "digit_char d \<noteq> 0x20" and "\<not> (0x09 \<le> digit_char d \<and> digit_char d \<le> 0x0D)"
    and "digit_char d \<noteq> 0x2D" and "digit_char d \<noteq> 0x2B"
  using unat_digit_char [OF assms] assms by (auto simp: word_le_nat_alt dest!: arg_cong [of _ _ unat])

lemma atoi_digits_value:
  "is_digits ds \<Longrightarrow> atoi_digits (digit_string ds) (of_nat (dec_value es)) = of_nat (dec_value (es @ ds))"
proof (induction ds arbitrary: es)
  case (Cons d ds)
  then have "10 * of_nat (dec_value es) + (of_nat d :: u32) = of_nat (dec_value (es @ [d]))"
    by (simp add: dec_value_snoc)
  with Cons.prems Cons.IH [of "es @ [d]"] show ?case
    by (simp add: digit_string_def digit_char_range digit_char_u32)
qed (simp add: digit_string_def)

lemma atoi_value: "is_digits ds \<Longrightarrow> atoi (digit_string ds) = of_nat (dec_value ds)"
proof (cases ds)
  case (Cons d ds')
  assume "is_digits ds"
  then show ?thesis
    using atoi_digits_value [of ds "[]"] Cons
    by (simp add: digit_string_def digit_char_range del: atoi_digits.simps)
qed (simp add: digit_string_def)

lemma multiply_loop_int:
  "is_digits ds \<Longrightarrow>
   multiply_loop (digit_string ds @ s) i f 0 False = multiply_loop s (i @ digit_string ds) f 0 False"
  by (induction ds arbitrary: i) (simp_all add: digit_string_def digit_char_range)

lemma multiply_loop_done: "multiply_loop s i f (Suc (Suc (Suc n))) sep = (i, f)"
  by (cases s) auto

lemma multiply_loop_frac:
  assumes "is_digits fs"
  shows "multiply_loop (digit_string fs) i 0 0 True = (i, of_nat (milli fs))"
proof -
  have pow: "int_pow 10 2 = 100" "int_pow 10 1 = 10" "int_pow 10 0 = 1"
    by (simp_all add: int_pow_power)
  consider "fs = []" | a where "fs = [a]" | a b where "fs = [a, b]"
    | a b c gs where "fs = a # b # c # gs"
    by (metis list.exhaust)
  then show ?thesis
    using assms
    by cases (auto simp: digit_string_def milli_def dec_value_def digit_char_range digit_char_u32 pow
        multiply_loop_done algebra_simps)
qed

text \<open>
  \<open>multiply_str_by_1000\<close> of the digits \<open>ds\<close>, a decimal point and the digits \<open>fs\<close> is the
  decimal form of the number \<open>ds.fs\<close> cut to three decimals and multiplied by 1000, modulo
  \<open>2 ^ 32\<close>; without a decimal point it is 1000 times the number.
\<close>

theorem multiply_str_by_1000_correct:
  assumes "is_digits ds" and "is_digits fs" and "length ds \<le> 32"
  shows "multiply_str_by_1000 (digit_string ds @ 0x2E # digit_string fs) =
           Some (udigits ((1000 * dec_value ds + milli fs) mod 2 ^ 32)) \<and>
         multiply_str_by_1000 (digit_string ds) = Some (udigits ((1000 * dec_value ds) mod 2 ^ 32))"
proof -
  have len: "length (digit_string ds) \<le> 32" using assms(3) by (simp add: digit_string_def)
  have u: "unat (1000 * of_nat m + of_nat n :: u32) = (1000 * m + n) mod 2 ^ 32" for m n
  proof -
    have "1000 * of_nat m + of_nat n = (of_nat (1000 * m + n) :: u32)" by simp
    then show ?thesis by (simp only: unat_of_nat) simp
  qed
  have "multiply_loop (digit_string ds @ 0x2E # digit_string fs) [] 0 0 False =
      (digit_string ds, of_nat (milli fs))"
    using assms by (simp add: multiply_loop_int multiply_loop_frac)
  moreover have "multiply_loop (digit_string ds) [] 0 0 False = (digit_string ds, of_nat 0)"
    using multiply_loop_int [OF assms(1), of "[]"] by simp
  ultimately show ?thesis
    using len u [of "dec_value ds" "milli fs"] u [of "dec_value ds" 0]
    by (simp only: multiply_str_by_1000_def Let_def prod.case atoi_value [OF assms(1)] not_less [symmetric]
        if_False add_0_right simp_thms)
qed

text \<open>The witness: 12.34 cubic metres.\<close>

theorem multiply_str_by_1000_correct_witness:
  "multiply_str_by_1000 [0x31, 0x32, 0x2E, 0x33, 0x34] = Some [0x31, 0x32, 0x33, 0x34, 0x30]"
  using multiply_str_by_1000_correct [of "[1, 2]" "[3, 4]"]
  by (simp add: digit_string_def milli_def dec_value_def udigits.simps digit_char_def)

section \<open>Flash size and restart\<close>

text \<open>The size from the JEDEC id; \<open>None\<close> is a shift by more than the width.\<close>

definition spi_flash_size :: "u32 \<Rightarrow> u32 option" where
  "spi_flash_size jedec =
     (let manufacturer_id = jedec AND 0xff; size_id = unat (drop_bit 16 jedec AND 0xff)
      in if manufacturer_id \<in> {0xef, 0xe0, 0x1c, 0x20, 0x85, 0xc8}
         then (if size_id < 32 then Some (push_bit size_id 1) else None)
         else Some 0)"

datatype restart_effect =
  HttpdStop | CaptdnsStop | SetMyAutoConnect bool | WifiDestroy | LedDestroy | CronDestroy
| StopWatchdog | RestartTimerDisarm | RestartTimerArm nat
| WifiStationDisconnect | WifiSetOpmodeNull | SystemRestart

record restart_state =
  system_restart_pending :: bool
  restart_log :: "restart_effect list"

definition system_restart_defered :: "restart_state \<Rightarrow> restart_state" where
  "system_restart_defered s =
     (if system_restart_pending s then s
      else s\<lparr>system_restart_pending := True,
             restart_log := restart_log s @
               [HttpdStop, CaptdnsStop, SetMyAutoConnect False, WifiDestroy, LedDestroy,
                CronDestroy, StopWatchdog, RestartTimerDisarm, RestartTimerArm 3000]\<rparr>)"

definition system_restart_defered_timer_func :: "restart_state \<Rightarrow> restart_state" where
  "system_restart_defered_timer_func s =
     s\<lparr>restart_log := restart_log s @ [WifiStationDisconnect, WifiSetOpmodeNull, SystemRestart]\<rparr>"

lemma restart_once:
  "system_restart_defered (system_restart_defered s) = system_restart_defered s"
  by (simp add: system_restart_defered_def)

section \<open>Query strings\<close>

text \<open>
  One pass of \<open>query_string_escape\<close> replaces a character by three, from left to right:
  \<open>pre\<close> is what is in front of the scan pointer. It stops with -1, the string changed so
  far, when the buffer of \<open>room\<close> bytes has no room for two more characters.
\<close>

fun escape_pass :: "u8 \<Rightarrow> bytes \<Rightarrow> nat \<Rightarrow> bytes \<Rightarrow> bytes \<Rightarrow> bool \<times> bytes" where
  "escape_pass ch rep room pre [] = (True, pre)"
| "escape_pass ch rep room pre (c # cs) =
     (if c = ch then
        if length pre + length (c # cs) + 2 \<ge> room then (False, pre @ c # cs)
        else escape_pass ch rep room (pre @ rep) cs
      else escape_pass ch rep room (pre @ [c]) cs)"

definition query_string_escape :: "bytes \<Rightarrow> nat \<Rightarrow> int \<times> bytes" where
  "query_string_escape str room =
     (let (ok, s) = escape_pass 0x26 [0x25, 0x32, 0x36] room [] str
      in if \<not> ok then (-1, s)
         else
           let (ok, s) = escape_pass 0x3D [0x25, 0x33, 0x44] room [] s
           in if ok then (int (length s), s) else (-1, s))"

fun unescape_pass :: "u8 \<Rightarrow> u8 \<Rightarrow> u8 \<Rightarrow> bytes \<Rightarrow> bytes" where
  "unescape_pass h l ch (a # b # c # cs) =
     (if a = 0x25 \<and> b = h \<and> c = l then ch # unescape_pass h l ch cs
      else a # unescape_pass h l ch (b # c # cs))"
| "unescape_pass h l ch cs = cs"

definition query_string_unescape :: "bytes \<Rightarrow> int \<times> bytes" where
  "query_string_unescape str =
     (let s = unescape_pass 0x32 0x36 0x26 str;
          s = unescape_pass 0x33 0x64 0x3D s;
          s = unescape_pass 0x33 0x44 0x3D s
      in (int (length s), s))"

definition replace_all :: "u8 \<Rightarrow> bytes \<Rightarrow> bytes \<Rightarrow> bytes" where
  "replace_all ch rep s = concat (map (\<lambda>c. if c = ch then rep else [c]) s)"

lemma replace_all_simps [simp]:
  "replace_all ch rep [] = []"
  "replace_all ch rep (c # cs) = (if c = ch then rep else [c]) @ replace_all ch rep cs"
  by (simp_all add: replace_all_def)

lemma escape_pass_fits:
  assumes "length rep = 3" and "length pre + length (replace_all ch rep s) < room"
  shows "escape_pass ch rep room pre s = (True, pre @ replace_all ch rep s)"
  using assms(2)
proof (induction s arbitrary: pre)
  case (Cons c s)
  have "length s \<le> length (replace_all ch rep s)"
    using assms(1) by (induction s) auto
  with Cons assms(1) show ?case by auto
qed simp

lemma length_replace_all: "length rep = 3 \<Longrightarrow> length s \<le> length (replace_all ch rep s)"
  by (induction s) auto

definition query_escaped :: "bytes \<Rightarrow> bytes" where
  "query_escaped s = replace_all 0x3D [0x25, 0x33, 0x44] (replace_all 0x26 [0x25, 0x32, 0x36] s)"

lemma query_string_escape_fits:
  assumes "length (query_escaped s) < room"
  shows "query_string_escape s room = (int (length (query_escaped s)), query_escaped s)"
proof -
  have "length (replace_all 0x26 [0x25, 0x32, 0x36] s) \<le> length (query_escaped s)"
    unfolding query_escaped_def by (rule length_replace_all) simp
  with assms show ?thesis
    by (simp add: query_string_escape_def escape_pass_fits query_escaped_def)
qed

lemma unescape_pass_Cons: "a \<noteq> 0x25 \<Longrightarrow> unescape_pass h l ch (a # s) = a # unescape_pass h l ch s"
  by (cases s; cases "tl s") auto

lemma unescape_amp:
  "0x25 \<notin> set s \<Longrightarrow>
   unescape_pass 0x32 0x36 0x26 (query_escaped s) = replace_all 0x3D [0x25, 0x33, 0x44] s"
  by (induction s) (auto simp: query_escaped_def unescape_pass_Cons)

lemma unescape_eq_lower:
  "0x25 \<notin> set s \<Longrightarrow>
   unescape_pass 0x33 0x64 0x3D (replace_all 0x3D [0x25, 0x33, 0x44] s) =
   replace_all 0x3D [0x25, 0x33, 0x44] s"
  by (induction s) (auto simp: unescape_pass_Cons)

lemma unescape_eq_upper:
  "0x25 \<notin> set s \<Longrightarrow>
   unescape_pass 0x33 0x44 0x3D (replace_all 0x3D [0x25, 0x33, 0x44] s) = s"
  by (induction s) (auto simp: unescape_pass_Cons)

lemma escaped_no_specials: "0x26 \<notin> set (query_escaped s) \<and> 0x3D \<notin> set (query_escaped s)"
  unfolding query_escaped_def by (induction s) auto

lemma query_string_unescape_escaped:
  "0x25 \<notin> set s \<Longrightarrow> query_string_unescape (query_escaped s) = (int (length s), s)"
  by (simp add: query_string_unescape_def unescape_amp unescape_eq_lower unescape_eq_upper)

text \<open>
  a value without \<open>%\<close> whose escaped form fits the buffer comes back unchanged from
  escaping and unescaping, and the escaped form has no \<open>&\<close> or \<open>=\<close>, so it cannot break
  out of its parameter. (A \<open>%\<close> is not escaped: \<open>%26\<close> comes back as \<open>&\<close>.)
\<close>

theorem query_string_roundtrip:
  assumes "0x25 \<notin> set s" and "length (query_escaped s) < room"
  shows "query_string_escape s room = (int (length (query_escaped s)), query_escaped s) \<and>
         0x26 \<notin> set (query_escaped s) \<and> 0x3D \<notin> set (query_escaped s) \<and>
         query_string_unescape (query_escaped s) = (int (length s), s) \<and>
         query_string_unescape [0x25, 0x32, 0x36] = (1, [0x26])"
proof (intro conjI)
  show "query_string_unescape (query_escaped s) = (int (length s), s)"
    using assms(1) by (rule query_string_unescape_escaped)
qed (use assms in \<open>simp_all add: query_string_escape_fits escaped_no_specials query_string_unescape_def\<close>)

text \<open>The witness: the value \<open>a&b=c\<close> in a buffer of 16 bytes.\<close>

theorem query_string_roundtrip_witness:
  "query_string_escape [0x61, 0x26, 0x62, 0x3D, 0x63] 16 =
     (9, [0x61, 0x25, 0x32, 0x36, 0x62, 0x25, 0x33, 0x44, 0x63]) \<and>
   query_string_unescape [0x61, 0x25, 0x32, 0x36, 0x62, 0x25, 0x33, 0x44, 0x63] =
     (5, [0x61, 0x26, 0x62, 0x3D, 0x63])"
  using query_string_roundtrip [of "[0x61, 0x26, 0x62, 0x3D, 0x63]" 16]
  by (simp add: query_escaped_def)

section \<open>Hexadecimal keys\<close>

definition hex_char_to_val :: "u8 \<Rightarrow> int" where
  "hex_char_to_val c =
     (let v = uint c
      in if 48 \<le> v \<and> v \<le> 57 then v - 48
         else if 97 \<le> v \<and> v \<le> 102 then v - 97 + 10
         else if 65 \<le> v \<and> v \<le> 70 then v - 65 + 10
         else -1)"

definition char_at :: "bytes \<Rightarrow> nat \<Rightarrow> u8" where
  "char_at s i = (if i < length s then s ! i else 0)"

text \<open>The two passes: the check of all characters, then the conversion.\<close>

fun hex_check :: "bytes \<Rightarrow> nat \<Rightarrow> nat \<Rightarrow> bool" where
  "hex_check hex i 0 \<longleftrightarrow> True"
| "hex_check hex i (Suc n) \<longleftrightarrow>
     (if char_at hex (2 * i) = 0 \<or> char_at hex (2 * i + 1) = 0 then False
      else if hex_char_to_val (char_at hex (2 * i)) < 0 \<or>
              hex_char_to_val (char_at hex (2 * i + 1)) < 0 then False
      else hex_check hex (Suc i) n)"

fun hex_convert :: "bytes \<Rightarrow> nat \<Rightarrow> nat \<Rightarrow> bytes \<Rightarrow> bytes" where
  "hex_convert hex i 0 out = out"
| "hex_convert hex i (Suc n) out =
     hex_convert hex (Suc i) n
       (out[i := word_of_int ((hex_char_to_val (char_at hex (2 * i)) * 16) OR
                              hex_char_to_val (char_at hex (2 * i + 1)))])"

definition hex_to_bytes :: "bytes option \<Rightarrow> bytes option \<Rightarrow> nat \<Rightarrow> bool \<times> bytes option" where
  "hex_to_bytes hex out len =
     (case (hex, out) of
        (Some h, Some b) \<Rightarrow>
          if hex_check h 0 len then (True, Some (hex_convert h 0 len b)) else (False, Some b)
      | _ \<Rightarrow> (False, out))"

definition hex_digit :: "nat \<Rightarrow> u8" where
  "hex_digit d = (if d < 10 then of_nat (48 + d) else of_nat (87 + d))"

definition hex_of :: "bytes \<Rightarrow> bytes" where
  "hex_of bs = concat (map (\<lambda>b. [hex_digit (unat b div 16), hex_digit (unat b mod 16)]) bs)"

lemma unat_hex_digit: "d < 16 \<Longrightarrow> unat (hex_digit d) = (if d < 10 then 48 + d else 87 + d)"
  by (cases "d < 10"; simp only: hex_digit_def unat_of_nat if_True if_False; simp)

lemma uint_hex_digit:
  "d < 16 \<Longrightarrow> uint (hex_digit d) = (if d < 10 then 48 + int d else 87 + int d)"
  using unat_hex_digit [of d] by (cases "d < 10") (simp_all add: uint_nat del: uint_nat [symmetric])

lemma hex_digit_val: "d < 16 \<Longrightarrow> hex_char_to_val (hex_digit d) = int d"
  by (cases "d < 10") (simp_all add: hex_char_to_val_def uint_hex_digit)

lemma hex_digit_nonzero: "d < 16 \<Longrightarrow> hex_digit d \<noteq> 0"
  using unat_hex_digit [of d] by (cases "d < 10") auto

lemma u8_nibbles: "unat (b :: u8) div 16 < 16" "unat (b :: u8) mod 16 < 16"
  using unat_u8_less [of b] by (auto intro: less_mult_imp_div_less)

lemma length_hex_of [simp]: "length (hex_of bs) = 2 * length bs"
  by (induction bs) (auto simp: hex_of_def)

lemma hex_of_nth:
  "i < length bs \<Longrightarrow> hex_of bs ! (2 * i) = hex_digit (unat (bs ! i) div 16) \<and>
                     hex_of bs ! (2 * i + 1) = hex_digit (unat (bs ! i) mod 16)"
proof (induction bs arbitrary: i)
  case (Cons b bs)
  then show ?case by (cases i) (auto simp: hex_of_def)
qed simp

lemma char_at_hex_of:
  assumes "i < length bs"
  shows "char_at (hex_of bs @ rest) (2 * i) = hex_digit (unat (bs ! i) div 16)"
    and "char_at (hex_of bs @ rest) (2 * i + 1) = hex_digit (unat (bs ! i) mod 16)"
  using assms hex_of_nth [OF assms] by (auto simp: char_at_def nth_append)

lemma hex_nibbles: "word_of_int (int (unat (b :: u8) div 16) * 16 OR int (unat b mod 16)) = b"
proof -
  have "int (unat b div 16) * 16 OR int (unat b mod 16) =
      int (unat b div 16) * 16 + int (unat b mod 16)"
  proof -
    have "int (unat b div 16) * 16 AND int (unat b mod 16) = 0"
    proof (rule bit_eqI)
      fix n
      have "int (unat b div 16) * 16 = push_bit 4 (int (unat b div 16))"
        by (simp add: push_bit_eq_mult)
      moreover have "int (unat b mod 16) = take_bit 4 (int (unat b))"
        by (simp add: take_bit_eq_mod zmod_int)
      ultimately show "bit (int (unat b div 16) * 16 AND int (unat b mod 16)) n = bit (0 :: int) n"
        by (simp only: bit_and_iff bit_push_bit_iff bit_take_bit_iff) auto
    qed
    then show ?thesis by (simp add: disjunctive_add_eq_or)
  qed
  also have "\<dots> = int (unat b div 16 * 16 + unat b mod 16)" by (simp only: of_nat_add of_nat_mult of_nat_numeral)
  also have "\<dots> = int (unat b)" by (simp only: div_mult_mod_eq)
  finally have "word_of_int (int (unat b div 16) * 16 OR int (unat b mod 16)) = (word_of_int (int (unat b)) :: u8)"
    by (rule arg_cong)
  then show ?thesis by simp
qed

lemma hex_check_hex_of: "i + n \<le> length bs \<Longrightarrow> hex_check (hex_of bs @ rest) i n"
proof (induction n arbitrary: i)
  case (Suc n)
  then have i: "i < length bs" by simp
  show ?case
    using Suc by (simp add: char_at_hex_of [OF i, simplified] hex_digit_val hex_digit_nonzero u8_nibbles)
qed simp

lemma hex_convert_hex_of:
  "i + n = length bs \<Longrightarrow> length out = length bs \<Longrightarrow> take i out = take i bs \<Longrightarrow>
   hex_convert (hex_of bs @ rest) i n out = bs"
proof (induction n arbitrary: i out)
  case (Suc n)
  then have i: "i < length bs" by simp
  have "take (Suc i) (out[i := bs ! i]) = take (Suc i) bs"
    using Suc.prems i by (simp add: take_Suc_list_update take_Suc_conv_app_nth)
  then show ?case
    using Suc.IH [of "Suc i" "out[i := bs ! i]"] Suc.prems
    by (simp add: char_at_hex_of [OF i, simplified] hex_digit_val hex_nibbles u8_nibbles)
qed simp

lemma hex_checkD:
  "hex_check hex i n \<Longrightarrow> k < n \<Longrightarrow>
   2 * (i + k) + 1 < length hex \<and> 0 \<le> hex_char_to_val (char_at hex (2 * (i + k))) \<and>
   0 \<le> hex_char_to_val (char_at hex (2 * (i + k) + 1))"
proof (induction n arbitrary: i k)
  case (Suc n)
  from Suc.prems(1) have "char_at hex (2 * i + 1) \<noteq> 0" by (auto split: if_splits)
  then have "2 * i + 1 < length hex" by (auto simp: char_at_def split: if_splits)
  with Suc show ?case by (cases k) (auto split: if_splits dest: Suc.IH [of "Suc i"])
qed simp

text \<open>
  \<open>hex_to_bytes\<close> reads back every byte string from its hexadecimal form (whatever
  follows it), and when it refuses a text it has not touched the output; it accepts only
  texts with at least \<open>2 * len\<close> characters.
\<close>

theorem hex_to_bytes_correct:
  "length out = length bs \<Longrightarrow>
   hex_to_bytes (Some (hex_of bs @ rest)) (Some out) (length bs) = (True, Some bs) \<and>
   (fst (hex_to_bytes (Some h) (Some out) len) \<longrightarrow> 2 * len \<le> length h) \<and>
   (\<not> fst (hex_to_bytes hx o' len) \<longrightarrow> snd (hex_to_bytes hx o' len) = o')"
proof (intro conjI impI)
  assume "length out = length bs"
  then show "hex_to_bytes (Some (hex_of bs @ rest)) (Some out) (length bs) = (True, Some bs)"
    by (simp add: hex_to_bytes_def hex_check_hex_of hex_convert_hex_of)
next
  assume "fst (hex_to_bytes (Some h) (Some out) len)"
  then have "hex_check h 0 len" by (auto simp: hex_to_bytes_def split: if_splits)
  from hex_checkD [OF this, of "len - 1"] show "2 * len \<le> length h" by (cases len) auto
next
  assume "\<not> fst (hex_to_bytes hx o' len)"
  then show "snd (hex_to_bytes hx o' len) = o'"
    by (auto simp: hex_to_bytes_def split: option.splits if_splits)
qed

theorem hex_to_bytes_correct_witness:
  "hex_to_bytes (Some [0x61, 0x30, 0x30, 0x66]) (Some [0, 0]) 2 = (True, Some [0xa0, 0x0f])"
proof -
  have "hex_of [0xa0, 0x0f] = [0x61, 0x30, 0x30, 0x66]"
    by (simp add: hex_of_def hex_digit_def)
  then show ?thesis
    using hex_to_bytes_correct [of "[0, 0]" "[0xa0, 0x0f]" "[]"] by (simp add: numeral_2_eq_2)
qed

end
