(* ===== verification/Tinyprintf.thy ===== *)
theory Tinyprintf
  imports Utils
begin

text \<open>
  \<open>user/tinyprintf.c\<close>: the formatted output every topic and message of the firmware is made
  with. An argument of the caller is a \<open>fmt_arg\<close>; a format is a string without its NUL. Reading an
  argument that was not passed, or the format behind its NUL, is the result \<open>None\<close>.
\<close>

section \<open>Numbers\<close>

text \<open>
  \<open>ulli2a\<close>, \<open>uli2a\<close> and \<open>ui2a\<close> are the same code for three types: the largest power of the base
  that is not above the number, then the digits. The value \<open>None\<close> is a loop that does not end.
\<close>

partial_function (option) u2a_scale :: "'a::len word \<Rightarrow> 'a word \<Rightarrow> 'a word \<Rightarrow> 'a word option" where
  "u2a_scale num base d = (if base \<le> num div d then u2a_scale num base (d * base) else Some d)"

definition digit_out :: "bool \<Rightarrow> nat \<Rightarrow> u8" where
  "digit_out uc dgt = of_nat (dgt + (if dgt < 10 then 48 else (if uc then 65 else 97) - 10))"

partial_function (option) u2a_loop :: "bool \<Rightarrow> 'a::len word \<Rightarrow> 'a word \<Rightarrow> 'a word \<Rightarrow> nat \<Rightarrow> bytes option" where
  "u2a_loop uc num base d n =
     (if d \<noteq> 0 then
        let dgt = unat (num div d); num = num mod d; d = d div base
        in if n \<noteq> 0 \<or> dgt > 0 \<or> d = 0
           then Option.bind (u2a_loop uc num base d (n + 1)) (\<lambda>bf. Some (digit_out uc dgt # bf))
           else u2a_loop uc num base d n
      else Some [])"

definition ulli2a :: "bool \<Rightarrow> u64 \<Rightarrow> u64 \<Rightarrow> bytes option" where
  "ulli2a uc num base = Option.bind (u2a_scale num base 1) (\<lambda>d. u2a_loop uc num base d 0)"

definition uli2a :: "bool \<Rightarrow> u32 \<Rightarrow> u32 \<Rightarrow> bytes option" where
  "uli2a uc num base = Option.bind (u2a_scale num base 1) (\<lambda>d. u2a_loop uc num base d 0)"

definition ui2a :: "bool \<Rightarrow> u32 \<Rightarrow> u32 \<Rightarrow> bytes option" where
  "ui2a uc num base = Option.bind (u2a_scale num base 1) (\<lambda>d. u2a_loop uc num base d 0)"

text \<open>The signed ones: the sign to display, and the digits of the magnitude.\<close>

definition lli2a :: "u64 \<Rightarrow> u64 \<Rightarrow> (bool \<times> bytes) option" where
  "lli2a num base =
     (if num <s 0 then map_option (Pair True) (ulli2a False (- num) base) else map_option (Pair False) (ulli2a False num base))"

definition li2a :: "u32 \<Rightarrow> u32 \<Rightarrow> (bool \<times> bytes) option" where
  "li2a num base =
     (if num <s 0 then map_option (Pair True) (uli2a False (- num) base) else map_option (Pair False) (uli2a False num base))"

definition i2a :: "u32 \<Rightarrow> u32 \<Rightarrow> (bool \<times> bytes) option" where
  "i2a num base =
     (if num <s 0 then map_option (Pair True) (ui2a False (- num) base) else map_option (Pair False) (ui2a False num base))"

lemma scale_no_overflow:
  fixes num base d :: "'a::len word"
  assumes "base \<le> num div d"
  shows "unat (d * base) = unat d * unat base" and "unat d * unat base \<le> unat num"
proof -
  have "unat base \<le> unat num div unat d" using assms by (simp add: word_le_nat_alt unat_div)
  then show *: "unat d * unat base \<le> unat num"
    by (metis mult.commute mult_le_mono1 order_trans times_div_less_eq_dividend)
  have "unat num < 2 ^ LENGTH('a)" by simp
  with * have "unat d * unat base < 2 ^ LENGTH('a)" by linarith
  then show "unat (d * base) = unat d * unat base" by (simp add: unat_word_ariths)
qed

text \<open>The reference: the digits of a number in a base, most significant first.\<close>

function digits_in :: "bool \<Rightarrow> nat \<Rightarrow> nat \<Rightarrow> bytes" where
  "digits_in uc b n =
     (if n < b \<or> b < 2 then [digit_out uc n] else digits_in uc b (n div b) @ [digit_out uc (n mod b)])"
  by pat_completeness auto
termination by (relation "measure (\<lambda>(uc, b, n). n)") auto

declare digits_in.simps [simp del]

lemma digits_in_10: "digits_in uc 10 n = udigits n"
proof (induction n rule: udigits.induct)
  case (1 n)
  then show ?case by (simp add: digits_in.simps [of uc 10 n] udigits.simps [of n] digit_out_def digit_char_def)
qed

primrec fixed_digits :: "bool \<Rightarrow> nat \<Rightarrow> nat \<Rightarrow> nat \<Rightarrow> bytes" where
  "fixed_digits uc b 0 m = [digit_out uc m]"
| "fixed_digits uc b (Suc k) m = digit_out uc (m div b ^ Suc k) # fixed_digits uc b k (m mod b ^ Suc k)"

lemma fixed_digits_back:
  "0 < b \<Longrightarrow> fixed_digits uc b (Suc k) m = fixed_digits uc b k (m div b) @ [digit_out uc (m mod b)]"
proof (induction k arbitrary: m)
  case (Suc k)
  let ?r = "m mod b ^ Suc (Suc k)"
  have r: "?r = b * (m div b mod b ^ Suc k) + m mod b"
    unfolding power_Suc [of b "Suc k"] by (rule mod_mult2_eq)
  then have "?r div b = m div b mod b ^ Suc k" "?r mod b = m mod b"
    using Suc.prems by simp_all
  moreover have "m div b ^ Suc (Suc k) = m div b div b ^ Suc k"
    by (simp add: div_mult2_eq)
  ultimately show ?case
    using Suc.IH [OF Suc.prems, of ?r]
    by (simp only: fixed_digits.simps(2) [of uc b "Suc k"] append_Cons) (simp only: fixed_digits.simps append_Cons)
qed simp

lemma digits_in_fixed:
  "2 \<le> b \<Longrightarrow> m < b ^ Suc k \<Longrightarrow> k = 0 \<or> b ^ k \<le> m \<Longrightarrow> digits_in uc b m = fixed_digits uc b k m"
proof (induction k arbitrary: m)
  case 0
  then show ?case by (simp add: digits_in.simps [of uc b m])
next
  case (Suc k)
  then have "b ^ Suc k \<le> m" by simp
  moreover have "b \<le> b ^ Suc k" using Suc.prems(1) by simp
  ultimately have "\<not> m < b" by linarith
  have "b ^ k \<le> m div b"
    using div_le_mono [OF \<open>b ^ Suc k \<le> m\<close>, of b] Suc.prems(1) by simp
  moreover have "m div b < b ^ Suc k"
    using Suc.prems(1,2) by (intro less_mult_imp_div_less) (simp add: mult.commute)
  ultimately have "digits_in uc b (m div b) = fixed_digits uc b k (m div b)"
    using Suc.IH [of "m div b"] Suc.prems(1) by simp
  then show ?case
    using \<open>\<not> m < b\<close> Suc.prems(1) by (simp only: digits_in.simps [of uc b m] fixed_digits_back) simp
qed

lemma u2a_loop_fixed:
  fixes num base d :: "'a::len word"
  assumes "1 < unat base" and "n \<noteq> 0 \<or> k = 0 \<or> unat d \<le> unat num"
  shows "unat d = unat base ^ k \<Longrightarrow> u2a_loop uc num base d n = Some (fixed_digits uc (unat base) k (unat num))"
  using assms(2)
proof (induction k arbitrary: num d n)
  case 0
  then have "d \<noteq> 0" "unat (d div base) = 0" "unat (num div d) = unat num"
    using assms(1) by (auto simp: unat_div)
  then show ?case
    using assms(1) by (simp add: u2a_loop.simps [of uc num base d n] u2a_loop.simps [of uc _ base 0] unat_eq_zero)
next
  case (Suc k)
  have d: "d \<noteq> 0" "unat (d div base) = unat base ^ k" "d div base \<noteq> 0"
    using Suc.prems(1) assms(1) by (auto simp: unat_div unat_eq_zero [symmetric])
  have "n \<noteq> 0 \<or> unat (num div d) > 0"
    using Suc.prems(2) d(1) by (auto simp: unat_div unat_gt_0 div_greater_zero_iff)
  moreover have "u2a_loop uc (num mod d) base (d div base) (n + 1) =
      Some (fixed_digits uc (unat base) k (unat (num mod d)))"
    using d by (intro Suc.IH) auto
  ultimately show ?case
    using d Suc.prems(1) by (simp add: u2a_loop.simps [of uc num base d n] Let_def unat_div unat_mod)
qed

lemma u2a_scale_power:
  fixes num base d :: "'a::len word"
  shows "1 < unat base \<Longrightarrow> unat d = unat base ^ j \<Longrightarrow> j = 0 \<or> unat d \<le> unat num \<Longrightarrow>
    \<exists>s k. u2a_scale num base d = Some s \<and> unat s = unat base ^ k \<and> unat num < unat base ^ Suc k \<and>
      (k = 0 \<or> unat base ^ k \<le> unat num)"
proof (induction "unat num - unat d" arbitrary: d j rule: less_induct)
  case less
  have "0 < unat base ^ j" using less.prems(1) by (intro zero_less_power) linarith
  then have d: "0 < unat d" using less.prems(2) by simp
  show ?case
  proof (cases "base \<le> num div d")
    case True
    note s = scale_no_overflow [OF True]
    have "unat d < unat d * unat base" using d less.prems(1) by simp
    then have "unat num - unat (d * base) < unat num - unat d" using s by linarith
    moreover have "unat (d * base) = unat base ^ Suc j" using s less.prems(2) by (simp add: mult.commute)
    moreover have "Suc j = 0 \<or> unat (d * base) \<le> unat num" using s by simp
    ultimately have "\<exists>s k. u2a_scale num base (d * base) = Some s \<and> unat s = unat base ^ k \<and>
        unat num < unat base ^ Suc k \<and> (k = 0 \<or> unat base ^ k \<le> unat num)"
      using less.prems(1) by (intro less.hyps [where j = "Suc j"])
    then show ?thesis
      using True by (simp only: u2a_scale.simps [of num base d] if_True)
  next
    case False
    then have "unat num div unat d < unat base" by (simp add: word_le_nat_alt unat_div)
    then have "unat num < unat base * unat d" using d by (simp add: div_less_iff_less_mult)
    then show ?thesis
      using False less.prems(2,3) by (intro exI [of _ d] exI [of _ j]) (simp add: u2a_scale.simps [of num base d])
  qed
qed

lemma u2a_digits_in:
  fixes num base :: "'a::len word"
  assumes "1 < unat base" and "unat (1 :: 'a word) = 1"
  shows "Option.bind (u2a_scale num base 1) (\<lambda>d. u2a_loop uc num base d 0) =
    Some (digits_in uc (unat base) (unat num))"
proof -
  obtain s k where k: "u2a_scale num base 1 = Some s" "unat s = unat base ^ k" "unat num < unat base ^ Suc k"
    "k = 0 \<or> unat base ^ k \<le> unat num"
    using u2a_scale_power [OF assms(1), of 1 0 num] assms(2) by auto
  have "u2a_loop uc num base s 0 = Some (fixed_digits uc (unat base) k (unat num))"
    using k by (intro u2a_loop_fixed [OF assms(1)]) auto
  also have "fixed_digits uc (unat base) k (unat num) = digits_in uc (unat base) (unat num)"
    using k assms(1) by (intro digits_in_fixed [symmetric]) auto
  finally show ?thesis using k(1) by simp
qed

lemmas numbers_in =
  u2a_digits_in [where 'a = 64, folded ulli2a_def]
  u2a_digits_in [where 'a = 32, folded uli2a_def]
  u2a_digits_in [where 'a = 32, folded ui2a_def]

lemma decimal_out: "ulli2a uc num64 10 = Some (udigits (unat num64))" "uli2a uc num 10 = Some (udigits (unat num))"
    "ui2a uc num 10 = Some (udigits (unat num))"
  by (simp_all add: numbers_in digits_in_10)

section \<open>The fields of a conversion\<close>

record param =
  p_lz :: bool
  p_alt :: bool
  p_uc :: bool
  p_align_left :: bool
  p_width :: int
  p_sign :: u8
  p_base :: nat
  p_prec :: int

text \<open>The settings at a \<open>%\<close>: the base and the case of the digits keep their last value.\<close>

definition reset_param :: "param \<Rightarrow> param" where
  "reset_param p =
     p\<lparr>p_lz := False, p_alt := False, p_width := 0, p_align_left := False, p_sign := 0, p_prec := 6\<rparr>"

text \<open>
  \<open>ch = *(fmt++)\<close>: the format that is left is \<open>None\<close> once its NUL was read, and reading on is an
  access behind the string.
\<close>

fun fetch :: "bytes option \<Rightarrow> (u8 \<times> bytes option) option" where
  "fetch None = None"
| "fetch (Some []) = Some (0, None)"
| "fetch (Some (c # cs)) = Some (c, Some cs)"

fun parse_flags :: "bytes \<Rightarrow> param \<Rightarrow> u8 \<times> bytes option \<times> param" where
  "parse_flags [] p = (0, None, p)"
| "parse_flags (ch # fmt) p =
     (if ch = 0x2D then parse_flags fmt (p\<lparr>p_align_left := True\<rparr>)
      else if ch = 0x30 then parse_flags fmt (p\<lparr>p_lz := True\<rparr>)
      else if ch = 0x23 then parse_flags fmt (p\<lparr>p_alt := True\<rparr>)
      else if ch = 0x2B then parse_flags fmt (p\<lparr>p_sign := 1\<rparr>)
      else (ch, Some fmt, p))"

definition is_digit :: "u8 \<Rightarrow> bool" where
  "is_digit ch \<longleftrightarrow> 0x30 \<le> ch \<and> ch \<le> 0x39"

definition a2d :: "u8 \<Rightarrow> int" where
  "a2d ch =
     (if is_digit ch then uint ch - 48
      else if 0x61 \<le> ch \<and> ch \<le> 0x66 then uint ch - 97 + 10
      else if 0x41 \<le> ch \<and> ch \<le> 0x46 then uint ch - 65 + 10
      else -1)"

fun a2u :: "u8 \<Rightarrow> bytes \<Rightarrow> u32 \<Rightarrow> u32 \<Rightarrow> u8 \<times> bytes option \<times> u32" where
  "a2u ch src b num =
     (if 0 \<le> a2d ch \<and> a2d ch \<le> uint b then
        let num = num * b + word_of_int (a2d ch)
        in (case src of [] \<Rightarrow> (0, None, num) | c # cs \<Rightarrow> a2u c cs b num)
      else (ch, Some src, num))"

fun skip_digits :: "bytes \<Rightarrow> u8 \<times> bytes option" where
  "skip_digits [] = (0, None)"
| "skip_digits (ch # fmt) = (if is_digit ch then skip_digits fmt else (ch, Some fmt))"

definition parse_width :: "u8 \<Rightarrow> bytes option \<Rightarrow> param \<Rightarrow> u8 \<times> bytes option \<times> param" where
  "parse_width ch fmt p =
     (case fmt of
        Some src \<Rightarrow>
          if is_digit ch then (case a2u ch src 10 0 of (ch, fmt, num) \<Rightarrow> (ch, fmt, p\<lparr>p_width := sint num\<rparr>))
          else (ch, fmt, p)
      | None \<Rightarrow> (ch, fmt, p))"

definition parse_precision :: "u8 \<Rightarrow> bytes option \<Rightarrow> param \<Rightarrow> (u8 \<times> bytes option \<times> param) option" where
  "parse_precision ch fmt p =
     (if ch = 0x2E then
        (case fetch fmt of
           None \<Rightarrow> None
         | Some (ch, fmt) \<Rightarrow>
             let p = (if is_digit ch then p\<lparr>p_prec := uint ch - 48\<rparr> else p)
             in (case fmt of
                   None \<Rightarrow> None
                 | Some fmt \<Rightarrow> (case skip_digits fmt of (ch, fmt) \<Rightarrow> Some (ch, fmt, p))))
      else Some (ch, fmt, p))"

definition parse_length :: "u8 \<Rightarrow> bytes option \<Rightarrow> (u8 \<times> bytes option \<times> nat) option" where
  "parse_length ch fmt =
     (if ch = 0x7A then map_option (\<lambda>(ch, fmt). (ch, fmt, 1)) (fetch fmt)
      else if ch = 0x6C then
        (case fetch fmt of
           None \<Rightarrow> None
         | Some (ch, fmt) \<Rightarrow>
             if ch = 0x6C then map_option (\<lambda>(ch, fmt). (ch, fmt, 2)) (fetch fmt) else Some (ch, fmt, 1))
      else Some (ch, fmt, 0))"

text \<open>From the character behind \<open>%\<close> to the conversion: its letter, the rest and the settings.\<close>

definition parse_spec :: "bytes \<Rightarrow> param \<Rightarrow> (u8 \<times> bytes option \<times> param \<times> nat) option" where
  "parse_spec fmt p =
     (case parse_flags fmt p of (ch, fmt, p) \<Rightarrow>
        (case parse_width ch fmt p of (ch, fmt, p) \<Rightarrow>
           (case parse_precision ch fmt p of
              None \<Rightarrow> None
            | Some (ch, fmt, p) \<Rightarrow>
                (case parse_length ch fmt of
                   None \<Rightarrow> None
                 | Some (ch, fmt, lng) \<Rightarrow> Some (ch, fmt, p, lng)))))"

section \<open>Conversions\<close>

text \<open>
  What \<open>%f\<close> reads of a \<open>double\<close>: whether it is negative, the integer part of its absolute value,
  and the integer part of its fraction multiplied with a power of ten.
\<close>

record double_arg =
  dbl_negative :: bool
  dbl_int :: nat
  dbl_scaled :: "nat \<Rightarrow> nat"

datatype fmt_arg = Arg32 u32 | Arg64 u64 | ArgStr bytes | ArgDouble double_arg

fun putchw_room :: "bytes \<Rightarrow> int \<Rightarrow> int" where
  "putchw_room [] n = n"
| "putchw_room (c # bf) n = (if n > 0 then putchw_room bf (n - 1) else n)"

definition putchw :: "param \<Rightarrow> bytes \<Rightarrow> bytes" where
  "putchw p bf =
     (let n = putchw_room bf (p_width p);
          n = (if p_sign p \<noteq> 0 then n - 1 else n);
          n = (if p_alt p \<and> p_base p = 16 then n - 2 else if p_alt p \<and> p_base p = 8 then n - 1 else n)
      in (if \<not> p_lz p \<and> \<not> p_align_left p then replicate (nat n) 0x20 else []) @
         (if p_sign p \<noteq> 0 then [p_sign p] else []) @
         (if p_alt p \<and> p_base p = 16 then [0x30, if p_uc p then 0x58 else 0x78]
          else if p_alt p \<and> p_base p = 8 then [0x30] else []) @
         (if p_lz p then replicate (nat n) 0x30 else []) @
         bf @
         (if \<not> p_lz p \<and> p_align_left p then replicate (nat n) 0x20 else []))"

fun unsigned_out :: "nat \<Rightarrow> param \<Rightarrow> fmt_arg list \<Rightarrow> (bytes \<times> fmt_arg list) option" where
  "unsigned_out lng p (Arg64 w # va) =
     (if lng = 2 then map_option (\<lambda>bf. (putchw p bf, va)) (ulli2a (p_uc p) w (of_nat (p_base p))) else None)"
| "unsigned_out lng p (Arg32 w # va) =
     (if lng = 2 then None
      else if lng = 1 then map_option (\<lambda>bf. (putchw p bf, va)) (uli2a (p_uc p) w (of_nat (p_base p)))
      else map_option (\<lambda>bf. (putchw p bf, va)) (ui2a (p_uc p) w (of_nat (p_base p))))"
| "unsigned_out lng p va = None"

definition signed_field :: "param \<Rightarrow> bool \<times> bytes \<Rightarrow> bytes" where
  "signed_field p r = (case r of (neg, bf) \<Rightarrow> putchw (if neg then p\<lparr>p_sign := 0x2D\<rparr> else p) bf)"

fun signed_out :: "nat \<Rightarrow> param \<Rightarrow> fmt_arg list \<Rightarrow> (bytes \<times> fmt_arg list) option" where
  "signed_out lng p (Arg64 w # va) =
     (if lng = 2 then map_option (\<lambda>r. (signed_field p r, va)) (lli2a w (of_nat (p_base p))) else None)"
| "signed_out lng p (Arg32 w # va) =
     (if lng = 2 then None
      else if lng = 1 then map_option (\<lambda>r. (signed_field p r, va)) (li2a w (of_nat (p_base p)))
      else map_option (\<lambda>r. (signed_field p r, va)) (i2a w (of_nat (p_base p))))"
| "signed_out lng p va = None"

fun temp_digits :: "nat \<Rightarrow> nat list" where
  "temp_digits fpart = (if fpart = 0 then [] else fpart mod 10 # temp_digits (fpart div 10))"

declare temp_digits.simps [simp del]

fun fraction_loop :: "(nat \<Rightarrow> nat) \<Rightarrow> nat \<Rightarrow> nat \<Rightarrow> nat \<Rightarrow> bytes \<times> nat" where
  "fraction_loop scaled 0 ffactor fpart = ([], fpart)"
| "fraction_loop scaled (Suc n) ffactor fpart =
     (let ffactor = ffactor * 10; fpart = scaled ffactor
      in case fraction_loop scaled n ffactor fpart of
           (zs, r) \<Rightarrow> ((if fpart = 0 then [0x30] else []) @ zs, r))"

definition double_out :: "param \<Rightarrow> double_arg \<Rightarrow> bytes" where
  "double_out p fval =
     (let signs = (if dbl_negative fval then [0x2D] else if p_sign p \<noteq> 0 then [0x2B] else []);
          w = (if signs = [] then p_width p else p_width p - 1);
          digits = temp_digits (dbl_int fval);
          fiter = int (length digits) - 1;
          w = (if fiter = -1 then w - 1 else w);
          fill = nat (w - (p_prec p + fiter + 2));
          (zeroes, fpart) = fraction_loop (dbl_scaled fval) (nat (p_prec p)) 1 0
      in (if p_lz p then signs @ replicate fill 0x30 else replicate fill 0x20 @ signs) @
         (if fiter = -1 then [0x30] else []) @ map digit_char (rev digits) @ [0x2E] @
         zeroes @ map digit_char (rev (temp_digits fpart)))"

definition convert :: "u8 \<Rightarrow> nat \<Rightarrow> param \<Rightarrow> fmt_arg list \<Rightarrow> (bytes \<times> param \<times> fmt_arg list) option" where
  "convert ch lng p va =
     (if ch = 0x75 then
        let p = p\<lparr>p_base := 10\<rparr> in map_option (\<lambda>(out, va). (out, p, va)) (unsigned_out lng p va)
      else if ch = 0x64 \<or> ch = 0x69 then
        let p = p\<lparr>p_base := 10\<rparr> in map_option (\<lambda>(out, va). (out, p, va)) (signed_out lng p va)
      else if ch = 0x70 \<or> ch = 0x78 \<or> ch = 0x58 then
        let lng = (if ch = 0x70 then 0 else lng);
            p = (if ch = 0x70 then p\<lparr>p_alt := True\<rparr> else p);
            p = p\<lparr>p_base := 16, p_uc := (ch = 0x58)\<rparr>
        in map_option (\<lambda>(out, va). (out, p, va)) (unsigned_out lng p va)
      else if ch = 0x6F then
        let p = p\<lparr>p_base := 8\<rparr> in map_option (\<lambda>(out, va). (out, p, va)) (unsigned_out 0 p va)
      else if ch = 0x63 then
        (case va of Arg32 w # va \<Rightarrow> Some ([ucast w], p, va) | _ \<Rightarrow> None)
      else if ch = 0x73 then
        (case va of ArgStr s # va \<Rightarrow> Some (putchw p s, p, va) | _ \<Rightarrow> None)
      else if ch = 0x25 then Some ([ch], p, va)
      else if ch = 0x66 \<or> ch = 0x46 then
        (case va of ArgDouble d # va \<Rightarrow> Some (double_out p d, p, va) | _ \<Rightarrow> None)
      else Some ([], p, va))"

section \<open>The format\<close>

lemma a2u_rest: "a2u ch src b num = (ch', Some rest, num') \<Longrightarrow> length rest \<le> length src"
proof (induction src arbitrary: ch num)
  case Nil
  then show ?case by (auto simp: Let_def split: if_splits)
next
  case (Cons c src)
  then show ?case by (fastforce simp: Let_def a2u.simps [of ch "c # src"] simp del: a2u.simps split: if_splits)
qed

lemma parse_flags_rest: "parse_flags fmt p = (ch, Some rest, p') \<Longrightarrow> length rest < length fmt"
  by (induction fmt p rule: parse_flags.induct) (auto split: if_splits)

lemma skip_digits_rest: "skip_digits fmt = (ch, Some rest) \<Longrightarrow> length rest < length fmt"
  by (induction fmt) (auto split: if_splits)

lemma fetch_rest: "fetch fmt = Some (ch, Some rest) \<Longrightarrow> \<exists>f. fmt = Some f \<and> length rest < length f"
  by (cases fmt rule: fetch.cases) auto

lemma parse_width_rest:
  "parse_width ch fmt p = (ch', Some rest, p') \<Longrightarrow> \<exists>f. fmt = Some f \<and> length rest \<le> length f"
  by (auto simp: parse_width_def simp del: a2u.simps dest: a2u_rest split: option.splits if_splits prod.splits)

lemma parse_precision_rest:
  "parse_precision ch fmt p = Some (ch', Some rest, p') \<Longrightarrow> \<exists>f. fmt = Some f \<and> length rest \<le> length f"
  by (fastforce simp: parse_precision_def Let_def dest: fetch_rest skip_digits_rest
      split: option.splits if_splits prod.splits)

lemma parse_length_rest:
  "parse_length ch fmt = Some (ch', Some rest, lng) \<Longrightarrow> \<exists>f. fmt = Some f \<and> length rest \<le> length f"
  by (fastforce simp: parse_length_def dest: fetch_rest split: option.splits if_splits prod.splits)

lemma parse_spec_rest:
  "parse_spec fmt p = Some (ch, Some rest, p', lng) \<Longrightarrow> length rest < length fmt"
  by (fastforce simp: parse_spec_def dest: parse_flags_rest parse_width_rest parse_precision_rest parse_length_rest
      split: option.splits prod.splits)

function tfp_format :: "param \<Rightarrow> bytes \<Rightarrow> fmt_arg list \<Rightarrow> bytes option" where
  "tfp_format p [] va = Some []"
| "tfp_format p (ch # fmt) va =
     (if ch \<noteq> 0x25 then map_option ((#) ch) (tfp_format p fmt va)
      else
        (case parse_spec fmt (reset_param p) of
           None \<Rightarrow> None
         | Some (ch, rest, p, lng) \<Rightarrow>
             if ch = 0 then Some []
             else
               (case convert ch lng p va of
                  None \<Rightarrow> None
                | Some (out, p, va) \<Rightarrow>
                    (case rest of
                       None \<Rightarrow> None
                     | Some fmt \<Rightarrow> map_option ((@) out) (tfp_format p fmt va)))))"
  by pat_completeness auto
termination
  by (relation "measure (\<lambda>(p, fmt, va). length fmt)") (auto dest: parse_spec_rest)

text \<open>The settings before the first conversion: \<open>struct param\<close> is not initialised; no conversion reads what it does not set.\<close>

definition fresh_param :: param where
  "fresh_param = \<lparr>p_lz = False, p_alt = False, p_uc = False, p_align_left = False, p_width = 0, p_sign = 0,
     p_base = 0, p_prec = 6\<rparr>"

section \<open>Formatting into a buffer\<close>

record putcf_data =
  dest_capacity :: nat
  dest :: bytes
  num_chars :: nat

definition vsnprintf_putcf :: "u8 \<Rightarrow> putcf_data \<Rightarrow> putcf_data" where
  "vsnprintf_putcf c data =
     (let data = (if num_chars data < dest_capacity data then data\<lparr>dest := (dest data)[num_chars data := c]\<rparr> else data)
      in data\<lparr>num_chars := num_chars data + 1\<rparr>)"

definition tfp_vsnprintf :: "bytes \<Rightarrow> nat \<Rightarrow> bytes \<Rightarrow> fmt_arg list \<Rightarrow> (nat \<times> bytes) option" where
  "tfp_vsnprintf str sz fmt ap =
     (if sz < 1 then Some (0, str)
      else
        map_option (\<lambda>out.
          let data = fold vsnprintf_putcf out \<lparr>dest_capacity = sz - 1, dest = str, num_chars = 0\<rparr>;
              str = (if num_chars data < dest_capacity data then (dest data)[num_chars data := 0]
                     else (dest data)[dest_capacity data := 0])
          in (num_chars data, str)) (tfp_format fresh_param fmt ap))"

definition tfp_snprintf :: "bytes \<Rightarrow> nat \<Rightarrow> bytes \<Rightarrow> fmt_arg list \<Rightarrow> (nat \<times> bytes) option" where
  "tfp_snprintf str sz fmt args = tfp_vsnprintf str sz fmt args"

text \<open>\<open>tfp_vsprintf\<close> has no limit: \<open>None\<close> is also the write behind the buffer.\<close>

definition tfp_vsprintf :: "bytes \<Rightarrow> bytes \<Rightarrow> fmt_arg list \<Rightarrow> (nat \<times> bytes) option" where
  "tfp_vsprintf str fmt ap =
     (case tfp_format fresh_param fmt ap of
        None \<Rightarrow> None
      | Some out \<Rightarrow> if length out < length str then Some (length out, put_bytes str 0 (out @ [0])) else None)"

lemma fold_putcf:
  "n + length out \<ge> n \<Longrightarrow> cap \<le> length str \<Longrightarrow>
   fold vsnprintf_putcf out \<lparr>dest_capacity = cap, dest = str, num_chars = n\<rparr> =
     \<lparr>dest_capacity = cap, dest = put_bytes str (min n cap) (take (cap - n) out), num_chars = n + length out\<rparr>"
proof (induction out arbitrary: n str)
  case (Cons c out)
  show ?case
  proof (cases "n < cap")
    case True
    then have "put_bytes (str[n := c]) (Suc n) (take (cap - Suc n) out) = put_bytes str n (c # take (cap - Suc n) out)"
      using Cons.prems by (intro put_bytes_Cons) simp
    moreover have "take (cap - n) (c # out) = c # take (cap - Suc n) out"
      using True by (simp add: take_Cons')
    ultimately show ?thesis
      using True Cons by (simp add: vsnprintf_putcf_def)
  next
    case False
    then show ?thesis using Cons by (simp add: vsnprintf_putcf_def min_def)
  qed
qed simp

lemma tfp_vsnprintf_exact:
  assumes "tfp_format fresh_param fmt ap = Some out" and "1 \<le> sz" and "sz \<le> length str"
  shows "tfp_vsnprintf str sz fmt ap = Some (length out, put_bytes str 0 (take (sz - 1) out @ [0]))"
proof -
  let ?d = "fold vsnprintf_putcf out \<lparr>dest_capacity = sz - 1, dest = str, num_chars = 0\<rparr>"
  have d: "?d = \<lparr>dest_capacity = sz - 1, dest = put_bytes str 0 (take (sz - 1) out), num_chars = length out\<rparr>"
    using assms(3) by (subst fold_putcf) simp_all
  have room: "sz - 1 < length str" using assms(2,3) by linarith
  have "take (sz - 1) out = out" if "length out < sz - 1" using that by simp
  have n: "length (take (sz - 1) out) = min (length out) (sz - 1)" by simp
  have ended: "(put_bytes str 0 (take (sz - 1) out))[min (length out) (sz - 1) := 0] =
      put_bytes str 0 (take (sz - 1) out @ [0])"
  proof -
    have l: "length (put_bytes str 0 (take (sz - 1) out)) = length str" using room by simp
    have "put_bytes (put_bytes str 0 (take (sz - 1) out)) (0 + length (take (sz - 1) out)) [0] =
        put_bytes str 0 (take (sz - 1) out @ [0])"
      using room by (intro put_bytes_append) simp_all
    moreover have "put_bytes b k [0] = b[k := 0]" if "k < length b" for b :: bytes and k
      using that by (simp add: put_bytes_def upd_conv_take_nth_drop)
    ultimately show ?thesis using room l by simp
  qed
  show ?thesis
  proof (cases "length out < sz - 1")
    case True
    then show ?thesis using assms(1,2) ended d by (simp add: tfp_vsnprintf_def Let_def min_def)
  next
    case False
    then show ?thesis using assms(1,2) ended d by (simp add: tfp_vsnprintf_def Let_def min_def split: if_splits)
  qed
qed

section \<open>What the conversions print\<close>

lemma putchw_room_width: "putchw_room bf n = (if n < int (length bf) then min n 0 else n - int (length bf))"
  by (induction bf n rule: putchw_room.induct) auto

lemma putchw_plain:
  "\<not> p_alt p \<Longrightarrow> p_sign p = 0 \<Longrightarrow> \<not> p_align_left p \<Longrightarrow>
   putchw p bf = replicate (nat (p_width p) - length bf) (if p_lz p then 0x30 else 0x20) @ bf"
  by (auto simp: putchw_def putchw_room_width nat_diff_distrib')

lemmas param_defs = reset_param_def fresh_param_def
lemmas parse_defs = parse_spec_def parse_width_def parse_precision_def parse_length_def is_digit_def a2d_def

declare tfp_format.simps [simp del]

lemma format_Nil: "tfp_format p [] va = Some []"
  by (simp add: tfp_format.simps)

lemma format_literal: "ch \<noteq> 0x25 \<Longrightarrow> tfp_format p (ch # fmt) va = map_option ((#) ch) (tfp_format p fmt va)"
  by (simp add: tfp_format.simps)

lemma literal_format:
  "0x25 \<notin> set s \<Longrightarrow> tfp_format p (s @ fmt) va = map_option ((@) s) (tfp_format p fmt va)"
proof (induction s)
  case Nil
  then show ?case by (cases "tfp_format p fmt va") simp_all
next
  case (Cons c s)
  then show ?case by (cases "tfp_format p fmt va") (simp_all add: format_literal)
qed

lemma format_u: "tfp_format p (0x25 # 0x75 # fmt) (Arg32 w # va) =
    map_option ((@) (udigits (unat w))) (tfp_format ((reset_param p)\<lparr>p_base := 10\<rparr>) fmt va)"
  by (simp add: tfp_format.simps parse_defs convert_def putchw_plain param_defs decimal_out)

lemma format_7u: "tfp_format p (0x25 # 0x30 # 0x37 # 0x75 # fmt) (Arg32 w # va) =
    map_option ((@) (replicate (7 - length (udigits (unat w))) 0x30 @ udigits (unat w)))
      (tfp_format ((reset_param p)\<lparr>p_lz := True, p_width := 7, p_base := 10\<rparr>) fmt va)"
  by (simp add: tfp_format.simps parse_defs convert_def putchw_plain param_defs decimal_out)

lemma format_llu: "tfp_format p (0x25 # 0x6C # 0x6C # 0x75 # fmt) (Arg64 w # va) =
    map_option ((@) (udigits (unat w))) (tfp_format ((reset_param p)\<lparr>p_base := 10\<rparr>) fmt va)"
  by (simp add: tfp_format.simps parse_defs convert_def putchw_plain param_defs decimal_out)

lemma format_s: "tfp_format p (0x25 # 0x73 # fmt) (ArgStr s # va) =
    map_option ((@) s) (tfp_format (reset_param p) fmt va)"
  by (simp add: tfp_format.simps parse_defs convert_def putchw_plain param_defs)

lemma format_percent: "tfp_format p (0x25 # 0x25 # fmt) va = map_option ((@) [0x25]) (tfp_format (reset_param p) fmt va)"
  by (simp add: tfp_format.simps parse_defs convert_def param_defs)

lemma format_x: "tfp_format p (0x25 # 0x78 # fmt) (Arg32 w # va) =
    map_option ((@) (digits_in False 16 (unat w))) (tfp_format ((reset_param p)\<lparr>p_base := 16, p_uc := False\<rparr>) fmt va)"
  by (simp add: tfp_format.simps parse_defs convert_def putchw_plain param_defs numbers_in)

text \<open>Signed numbers: the minimum is negated to itself and still printed right.\<close>

definition sdigits :: "int \<Rightarrow> bytes" where
  "sdigits i = (if i < 0 then 0x2D # udigits (nat (- i)) else udigits (nat i))"

lemma unat_negative:
  fixes w :: "'a::len word"
  assumes "w <s 0"
  shows "unat (- w) = nat (- sint w)"
proof -
  have neg: "sint w < 0" using assms by (simp add: word_sless_alt)
  have "- sint w \<le> 2 ^ (LENGTH('a) - 1)" using sint_ge [of w] by simp
  also have "\<dots> < 2 ^ LENGTH('a)" by (rule power_strict_increasing) simp_all
  finally have "uint (word_of_int (- sint w) :: 'a word) = - sint w"
    using neg by (intro word_of_int_inverse [where 'a = 'a]) simp_all
  moreover have "word_of_int (- sint w) = - w" by simp
  ultimately show ?thesis by (metis unat_eq_nat_uint)
qed

lemma unat_nonnegative:
  fixes w :: "'a::len word"
  assumes "\<not> w <s 0"
  shows "unat w = nat (sint w)"
proof -
  have "0 \<le> sint w" using assms by (simp add: word_sless_alt not_less)
  have "sint w < 2 ^ (LENGTH('a) - 1)" using sint_lt [of w] by simp
  also have "\<dots> < (2 :: int) ^ LENGTH('a)" by (rule power_strict_increasing) simp_all
  finally have "uint (word_of_int (sint w) :: 'a word) = sint w"
    using \<open>0 \<le> sint w\<close> by (intro word_of_int_inverse [where 'a = 'a]) simp_all
  then have "uint w = sint w" by simp
  then show ?thesis by (simp add: unat_eq_nat_uint)
qed

lemma format_d: "tfp_format p (0x25 # 0x64 # fmt) (Arg32 w # va) =
    map_option ((@) (sdigits (sint w))) (tfp_format ((reset_param p)\<lparr>p_base := 10\<rparr>) fmt va)"
proof (cases "w <s 0")
  case True
  then have "sint w < 0" by (simp add: word_sless_alt)
  then show ?thesis
    using unat_negative [OF True] True
    by (simp add: tfp_format.simps parse_defs convert_def putchw_def putchw_room_width param_defs decimal_out signed_field_def
        i2a_def sdigits_def)
next
  case False
  then have "\<not> sint w < 0" by (simp add: word_sless_alt)
  then show ?thesis
    using unat_nonnegative [OF False] False
    by (simp add: tfp_format.simps parse_defs convert_def putchw_plain param_defs decimal_out signed_field_def
        i2a_def sdigits_def)
qed

lemmas format_simps = format_Nil format_literal format_u format_7u format_llu format_s format_percent format_x format_d

lemma replicate_numeral: "replicate (numeral k) x = x # replicate (pred_numeral k) x"
  by (simp add: numeral_eq_Suc)

section \<open>Decimals of a double\<close>

lemma temp_digits_in: "0 < v \<Longrightarrow> map digit_char (rev (temp_digits v)) = digits_in uc 10 v"
proof (induction v rule: temp_digits.induct)
  case (1 v)
  have "digit_out uc (v mod 10) = digit_char (v mod 10)" by (simp add: digit_out_def digit_char_def)
  then show ?case
    using 1 by (cases "v < 10") (simp_all add: temp_digits.simps [of v] temp_digits.simps [of 0] digits_in.simps [of uc 10 v])
qed

lemma fraction_loop_zeroes:
  assumes "\<And>k. k \<le> N \<Longrightarrow> scaled (10 ^ k) = v div 10 ^ (N - k)" and "n \<le> N" and "f = 10 ^ (N - n)"
    and "n = 0 \<longrightarrow> fp = v"
  shows "fraction_loop scaled n f fp = (concat (map (\<lambda>j. if v < 10 ^ j then [0x30] else []) (rev [0..<n])), v)"
  using assms(2-)
proof (induction n arbitrary: f fp)
  case (Suc n)
  then have "10 ^ (N - n) = f * 10" by (simp add: Suc_diff_Suc flip: power_Suc2)
  moreover have "scaled (10 ^ (N - n)) = v div 10 ^ n"
    using assms(1) [of "N - n"] Suc.prems(1) by simp
  moreover have "(v div 10 ^ n = 0) = (v < 10 ^ n)" by (simp add: div_eq_0_iff)
  moreover have "n = 0 \<longrightarrow> v div 10 ^ n = v" by simp
  ultimately show ?case
    using Suc.IH [of "f * 10" "v div 10 ^ n"] Suc.prems by (simp add: Let_def)
qed simp

lemma zeroes_and_digits:
  "v < 10 ^ Suc n \<Longrightarrow>
   concat (map (\<lambda>j. if v < 10 ^ j then [0x30] else []) (rev [0..<Suc n])) @ map digit_char (rev (temp_digits v)) =
   fixed_digits False 10 n v"
proof (induction n)
  case 0
  then show ?case
    by (cases "v = 0") (simp_all add: temp_digits.simps [of v] temp_digits.simps [of 0] digit_out_def digit_char_def)
next
  case (Suc n)
  show ?case
  proof (cases "v < 10 ^ Suc n")
    case True
    have "v mod 10 ^ Suc n = v" "v div 10 ^ Suc n = 0" using True by simp_all
    moreover have "digit_out False 0 = 0x30" by (simp add: digit_out_def)
    ultimately show ?thesis using Suc.IH [OF True] True by (simp only: fixed_digits.simps) simp
  next
    case False
    have "\<not> v < 10 ^ j" if "j \<le> Suc n" for j
    proof -
      have "(10::nat) ^ j \<le> 10 ^ Suc n" by (rule power_increasing) (use that in simp_all)
      with False show ?thesis by linarith
    qed
    then have none: "concat (map (\<lambda>j. if v < 10 ^ j then [0x30] else []) (rev [0..<Suc (Suc n)])) = ([] :: bytes)"
      by (simp only: concat_eq_Nil_conv set_map set_rev) auto
    have "0 < v" using False by (cases v) auto
    have "digits_in False 10 v = fixed_digits False 10 (Suc n) v"
      using False Suc.prems by (intro digits_in_fixed) simp_all
    then show ?thesis
      by (simp only: none append_Nil temp_digits_in [OF \<open>0 < v\<close>, of False])
  qed
qed

text \<open>\<open>%.3f\<close>: the integer part and exactly three decimals, rounded towards zero.\<close>

lemma format_3f:
  assumes "\<And>k. k \<le> 3 \<Longrightarrow> dbl_scaled d (10 ^ k) = v div 10 ^ (3 - k)" and "v < 1000"
  shows "tfp_format p (0x25 # 0x2E # 0x33 # 0x66 # fmt) (ArgDouble d # va) =
    map_option ((@) ((if dbl_negative d then [0x2D] else []) @ udigits (dbl_int d) @ [0x2E] @ fixed_digits False 10 2 v))
      (tfp_format ((reset_param p)\<lparr>p_prec := 3\<rparr>) fmt va)"
proof -
  have loop: "fraction_loop (dbl_scaled d) 3 1 0 = (concat (map (\<lambda>j. if v < 10 ^ j then [0x30] else []) (rev [0..<3])), v)"
    by (rule fraction_loop_zeroes [where N = 3]) (use assms in simp_all)
  have "(if temp_digits (dbl_int d) = [] then [0x30] else []) @ map digit_char (rev (temp_digits (dbl_int d))) = udigits (dbl_int d)"
    using temp_digits_in [of "dbl_int d" False]
    by (cases "dbl_int d = 0") (simp_all add: temp_digits.simps [of "dbl_int d"] temp_digits.simps [of 0] digits_in_10
        udigits.simps [of 0] digit_char_def)
  moreover have "double_out (reset_param p\<lparr>p_prec := 3\<rparr>) d = (if dbl_negative d then [0x2D] else []) @
      ((if temp_digits (dbl_int d) = [] then [0x30] else []) @ map digit_char (rev (temp_digits (dbl_int d)))) @ [0x2E] @
      (concat (map (\<lambda>j. if v < 10 ^ j then [0x30] else []) (rev [0..<3])) @ map digit_char (rev (temp_digits v)))"
    by (simp add: double_out_def param_defs loop [unfolded One_nat_def] Let_def)
  moreover have "concat (map (\<lambda>j. if v < 10 ^ j then [0x30] else []) (rev [0..<3])) @ map digit_char (rev (temp_digits v)) =
      fixed_digits False 10 2 v"
  proof -
    have three: "Suc 2 = (3::nat)" by simp
    have "v < 10 ^ 3" using assms(2) by simp
    then show ?thesis by (rule zeroes_and_digits [of v 2, unfolded three])
  qed
  ultimately have "double_out (reset_param p\<lparr>p_prec := 3\<rparr>) d =
      (if dbl_negative d then [0x2D] else []) @ udigits (dbl_int d) @ [0x2E] @ fixed_digits False 10 2 v"
    by (simp only:)
  then show ?thesis by (simp add: tfp_format.simps parse_defs convert_def)
qed

section \<open>Properties\<close>

lemma length_digits_in: "n < b ^ k \<Longrightarrow> 0 < k \<Longrightarrow> 2 \<le> b \<Longrightarrow> length (digits_in uc b n) \<le> k"
proof (induction uc b n arbitrary: k rule: digits_in.induct)
  case (1 uc b n)
  show ?case
  proof (cases "n < b")
    case True
    then show ?thesis using 1(3) by (simp add: digits_in.simps [of uc b n])
  next
    case False
    with 1(2,3) obtain k' where k: "k = Suc k'" by (cases k) auto
    moreover have "k' \<noteq> 0" using False 1(2) k by (cases k') auto
    ultimately have k: "k = Suc k'" "0 < k'" by simp_all
    then have "n div b < b ^ k'" using 1(2,4) by (simp add: div_less_iff_less_mult mult.commute)
    then show ?thesis using False 1 k by (simp add: digits_in.simps [of uc b n])
  qed
qed

text \<open>
  The conversion of numbers ends for every number and each base the formatter uses, gives
  its digits in that base without leading zeroes, and with the NUL they fit the buffer of 23
  bytes; a signed number is its sign and the digits of its magnitude, the minimum included.
\<close>

theorem number_conversion_ends:
  assumes "b = 8 \<or> b = 10 \<or> b = 16"
  shows "ulli2a uc w (of_nat b) = Some (digits_in uc b (unat w)) \<and> uli2a uc v (of_nat b) = Some (digits_in uc b (unat v)) \<and>
    ui2a uc v (of_nat b) = Some (digits_in uc b (unat v)) \<and>
    length (digits_in uc b (unat w)) + 1 \<le> 23 \<and> length (digits_in uc b (unat v)) + 1 \<le> 23 \<and>
    lli2a w 10 = Some (sint w < 0, udigits (nat \<bar>sint w\<bar>)) \<and> i2a v 10 = Some (sint v < 0, udigits (nat \<bar>sint v\<bar>))"
proof -
  have b: "unat (of_nat b :: u64) = b" "unat (of_nat b :: u32) = b" "2 \<le> b" "8 \<le> b" using assms by auto
  have "unat w < 2 ^ 64" "unat v < 2 ^ 32" using unsigned_less [of w] unsigned_less [of v] by simp_all
  then have "unat w < 8 ^ 22" "unat v < 8 ^ 22" by simp_all
  moreover have "(8::nat) ^ 22 \<le> b ^ 22" using b(4) by (rule power_mono) simp
  ultimately have "length (digits_in uc b (unat w)) \<le> 22" "length (digits_in uc b (unat v)) \<le> 22"
    using b(3) by (auto intro!: length_digits_in)
  moreover have "lli2a w 10 = Some (sint w < 0, udigits (nat \<bar>sint w\<bar>))"
    using unat_negative [of w] unat_nonnegative [of w]
    by (cases "w <s 0") (simp_all add: lli2a_def decimal_out word_sless_alt)
  moreover have "i2a v 10 = Some (sint v < 0, udigits (nat \<bar>sint v\<bar>))"
    using unat_negative [of v] unat_nonnegative [of v]
    by (cases "v <s 0") (simp_all add: i2a_def decimal_out word_sless_alt)
  ultimately show ?thesis
    using b numbers_in(1) [of "of_nat b" uc w] numbers_in(2,3) [of "of_nat b" uc v] by simp
qed

theorem number_conversion_ends_witness:
  "ulli2a True 0xfe 16 = Some (ascii ''FE'') \<and> i2a 0x80000000 10 = Some (True, udigits 2147483648)"
  using number_conversion_ends [of 16 True "0xfe" "0x80000000"]
  by (simp add: digits_in.simps digit_out_def ascii_def)

text \<open>
  Formatting into a buffer never writes behind the size given, always leaves a string that is
  ended inside it, keeps what is behind it, and returns the length of the whole output, so that a
  result below the size means that nothing was cut.
\<close>

theorem snprintf_bounded:
  assumes "tfp_format fresh_param fmt args = Some out" and "1 \<le> n" and "n \<le> length str"
    and "tfp_snprintf str n fmt args = Some (r, str')"
  shows "r = length out \<and> length str' = length str \<and> drop n str' = drop n str \<and>
    take (min r (n - 1)) str' = take (n - 1) out \<and> str' ! min r (n - 1) = 0"
proof -
  have s: "r = length out" "str' = put_bytes str 0 (take (n - 1) out @ [0])"
    using tfp_vsnprintf_exact [OF assms(1-3)] assms(4) by (simp_all add: tfp_snprintf_def)
  have l: "length (take (n - 1) out @ [0]) = min (length out) (n - 1) + 1" by simp
  have fits: "0 + length (take (n - 1) out @ [0]) \<le> length str" using assms(2,3) by simp
  have "length str' = length str" using s fits by simp
  moreover have "drop n str' = drop n str"
  proof -
    have "drop n str' = drop (n - length (take (n - 1) out @ [0])) (drop (length (take (n - 1) out @ [0])) str)"
      using assms(2) l unfolding s put_bytes_def by (simp only: take_0 append_Nil drop_append) simp
    also have "\<dots> = drop n str" using assms(2) l by (simp add: drop_drop)
    finally show ?thesis .
  qed
  moreover have "take (min r (n - 1)) str' = take (n - 1) out"
    using assms(2,3) by (simp add: s put_bytes_def min_def)
  moreover have "str' ! min r (n - 1) = 0"
    using assms(2,3) by (simp add: s put_bytes_def min_def nth_append)
  ultimately show ?thesis using s by simp
qed

theorem snprintf_bounded_witness:
  "case tfp_snprintf (replicate 8 1) 6 (ascii ''/ping/v2/%07u/%llu'') [Arg32 5, Arg64 17] of
     None \<Rightarrow> False
   | Some (r, str') \<Rightarrow> r = 19 \<and> take 5 str' = ascii ''/ping'' \<and> str' ! 5 = 0 \<and> drop 6 str' = [1, 1]"
proof -
  have f: "tfp_format fresh_param (ascii ''/ping/v2/%07u/%llu'') [Arg32 5, Arg64 17] = Some (ascii ''/ping/v2/0000005/17'')"
    by (simp add: ascii_def format_simps udigits.simps digit_char_def replicate_numeral)
  then obtain r str' where s: "tfp_snprintf (replicate 8 1) 6 (ascii ''/ping/v2/%07u/%llu'') [Arg32 5, Arg64 17] = Some (r, str')"
    using tfp_vsnprintf_exact [OF f, of 6 "replicate 8 1"] by (simp only: tfp_snprintf_def) simp
  have r: "r = 19" using snprintf_bounded [OF f _ _ s] by (simp add: ascii_def)
  have "min 19 (6 - 1) = (5::nat)" by simp
  then show ?thesis using snprintf_bounded [OF f _ _ s] unfolding r s by (simp add: ascii_def replicate_numeral)
qed

end
