(* ===== verification/Kmp.thy ===== *)
theory Kmp
  imports Fifo Utils
begin

text \<open>
  \<open>user/kamstrup/kmp.c\<close>: the Kamstrup meter protocol. Requests are built in the caller's
  frame buffer (a byte list of at least 1024 bytes): payload, CRC, byte stuffing, start and
  stop byte. Replies are unstuffed in place, checked and decoded into registers. The module
  variables are the record \<open>kmp\<close>; \<open>None\<close> is an access outside an array.
\<close>

section \<open>State and byte stuffing\<close>

abbreviation (input) KMP_FRAME_L :: nat where "KMP_FRAME_L \<equiv> 1024"

record kmp =
  kmp_frame :: bytes
  kmp_frame_length :: nat
  kmp_data_length :: nat

definition kmp_special :: "u8 \<Rightarrow> bool" where
  "kmp_special b \<longleftrightarrow> b = 0x80 \<or> b = 0x40 \<or> b = 0x0d \<or> b = 0x06 \<or> b = 0x1b"

definition kmp_flip :: "u8 \<Rightarrow> u8" where
  "kmp_flip b = b XOR 0xff"

interpretation kmp: byte_stuffing kmp_special "0x1b" kmp_flip
  by unfold_locales (auto simp: kmp_special_def kmp_flip_def xor.assoc)

abbreviation kmp_stuff :: "bytes \<Rightarrow> bytes" where
  "kmp_stuff \<equiv> stuff kmp_special 0x1b kmp_flip"

definition kmp_crc16 :: "kmp \<Rightarrow> u16" where
  "kmp_crc16 k = ccit_crc16 0x0000 (sub_bytes (kmp_frame k) 1 (kmp_data_length k))"

fun stuff_loop :: "bytes \<Rightarrow> bytes \<Rightarrow> bytes" where
  "stuff_loop [] stuffed_data = stuffed_data"
| "stuff_loop (b # bs) stuffed_data =
     (if b = 0x80 \<or> b = 0x40 \<or> b = 0x0d \<or> b = 0x06 \<or> b = 0x1b
      then stuff_loop bs (stuffed_data @ [0x1b, b XOR 0xff])
      else stuff_loop bs (stuffed_data @ [b]))"

definition kmp_byte_stuff :: "kmp \<Rightarrow> kmp option" where
  "kmp_byte_stuff k =
     (let stuffed = stuff_loop (sub_bytes (kmp_frame k) 1 (kmp_frame_length k - 1)) [];
          j = length stuffed
      in if j > KMP_FRAME_L then None
         else if j \<le> KMP_FRAME_L - 1 \<and> j > 0 then
           Some (k\<lparr>kmp_frame := put_bytes (kmp_frame k) 1 stuffed, kmp_frame_length := j + 1,
                   kmp_data_length := j\<rparr>)
         else Some k)"

text \<open>
  The loop of \<open>kmp_byte_unstuff\<close> from index \<open>i\<close>; \<open>None\<close> when it reads behind the buffer.
\<close>

function unstuff_loop :: "bytes \<Rightarrow> nat \<Rightarrow> nat \<Rightarrow> bytes \<Rightarrow> bytes option" where
  "unstuff_loop frame i len unstuffed_data =
     (if i < len then
        if frame ! i = 0x1b then
          if i + 1 < length frame
          then unstuff_loop frame (i + 2) len (unstuffed_data @ [(frame ! (i + 1)) XOR 0xff])
          else None
        else unstuff_loop frame (i + 1) len (unstuffed_data @ [frame ! i])
      else Some unstuffed_data)"
  by auto
termination by (relation "measure (\<lambda>(frame, i, len, u). len - i)") auto

declare unstuff_loop.simps [simp del]

definition kmp_byte_unstuff :: "kmp \<Rightarrow> kmp option" where
  "kmp_byte_unstuff k =
     (case unstuff_loop (kmp_frame k) 1 (kmp_frame_length k) [] of
        None \<Rightarrow> None
      | Some unstuffed \<Rightarrow>
          let j = length unstuffed
          in if j > KMP_FRAME_L then None
             else if j \<le> KMP_FRAME_L - 1 \<and> j > 0 then
               Some (k\<lparr>kmp_frame := put_bytes (kmp_frame k) 1 unstuffed, kmp_frame_length := j + 1,
                       kmp_data_length := j\<rparr>)
             else Some k)"

section \<open>Requests\<close>

text \<open>The steps the three request builders share: clear, CRC with stuffing, stop byte.\<close>

definition kmp_clear :: "bytes \<Rightarrow> kmp" where
  "kmp_clear frame =
     \<lparr>kmp_frame = put_bytes frame 0 (replicate KMP_FRAME_L 0), kmp_frame_length = 0,
      kmp_data_length = 0\<rparr>"

definition kmp_put :: "nat \<Rightarrow> u8 \<Rightarrow> kmp \<Rightarrow> kmp" where
  "kmp_put i b k = k\<lparr>kmp_frame := (kmp_frame k)[i := b]\<rparr>"

definition kmp_put_crc16 :: "kmp \<Rightarrow> kmp" where
  "kmp_put_crc16 k =
     (let crc16 = kmp_crc16 k; n = kmp_frame_length k
      in (kmp_put (n + 1) (lo8 crc16) (kmp_put n (hi8 crc16) k))\<lparr>kmp_frame_length := n + 2\<rparr>)"

definition kmp_stop :: "kmp \<Rightarrow> nat \<times> kmp" where
  "kmp_stop k =
     (let n = kmp_frame_length k
      in (n + 1, (kmp_put n 0x0d k)\<lparr>kmp_frame_length := n + 1\<rparr>))"

definition kmp_get_type :: "bytes \<Rightarrow> (nat \<times> kmp) option" where
  "kmp_get_type frame =
     (let k = kmp_put 2 0x01 (kmp_put 1 0x3f (kmp_put 0 0x80 (kmp_clear frame)));
          k = k\<lparr>kmp_frame_length := 3, kmp_data_length := 2\<rparr>;
          k = kmp_put_crc16 k;
          k = k\<lparr>kmp_data_length := kmp_data_length k + 2\<rparr>
      in map_option kmp_stop (kmp_byte_stuff k))"

definition kmp_get_serial :: "bytes \<Rightarrow> (nat \<times> kmp) option" where
  "kmp_get_serial frame =
     (let k = kmp_put 2 0x02 (kmp_put 1 0x3f (kmp_put 0 0x80 (kmp_clear frame)));
          k = k\<lparr>kmp_frame_length := 3, kmp_data_length := 2\<rparr>;
          k = kmp_put_crc16 k;
          k = k\<lparr>kmp_data_length := kmp_data_length k + 2\<rparr>
      in map_option kmp_stop (kmp_byte_stuff k))"

definition kmp_set_clock :: "bytes \<Rightarrow> u64 \<Rightarrow> nat" where
  "kmp_set_clock frame unix_time = 0"

fun put_registers :: "u16 list \<Rightarrow> nat \<Rightarrow> kmp \<Rightarrow> kmp" where
  "put_registers [] i k = k"
| "put_registers (r # rs) i k =
     put_registers rs (i + 1) (kmp_put (3 + 2 * i + 2) (lo8 r) (kmp_put (3 + 2 * i + 1) (hi8 r) k))"

definition kmp_get_register :: "bytes \<Rightarrow> u16 list \<Rightarrow> (nat \<times> kmp) option" where
  "kmp_get_register frame register_list =
     (let n = (if length register_list > 8 then 8 else length register_list);
          k = kmp_put 2 0x10 (kmp_put 1 0x3f (kmp_put 0 0x80 (kmp_clear frame)));
          k = kmp_put 3 (of_nat n) k;
          k = k\<lparr>kmp_frame_length := 4, kmp_data_length := 3\<rparr>;
          k = put_registers (take n register_list) 0 k;
          k = k\<lparr>kmp_frame_length := kmp_frame_length k + 2 * n,
                kmp_data_length := kmp_data_length k + 2 * n\<rparr>;
          k = kmp_put_crc16 k
      in map_option kmp_stop (kmp_byte_stuff k))"

section \<open>Replies\<close>

record kmp_response_register =
  rid :: u16
  unit_code :: u8
  reg_length :: u8
  si_ex :: u8
  reg_value :: u32

record kmp_response =
  kmp_response_serial :: u32
  kmp_response_meter_type :: u32
  kmp_response_sw_revision :: u32
  kmp_response_register_list :: "kmp_response_register list"

definition zero_register :: kmp_response_register where
  "zero_register = \<lparr>rid = 0, unit_code = 0, reg_length = 0, si_ex = 0, reg_value = 0\<rparr>"

definition zero_response :: kmp_response where
  "zero_response =
     \<lparr>kmp_response_serial = 0, kmp_response_meter_type = 0, kmp_response_sw_revision = 0,
      kmp_response_register_list = replicate 8 zero_register\<rparr>"

definition word2 :: "bytes \<Rightarrow> nat \<Rightarrow> u32" where
  "word2 f i = push_bit 8 (ucast (f ! i)) + ucast (f ! (i + 1))"

definition word4 :: "bytes \<Rightarrow> nat \<Rightarrow> u32" where
  "word4 f i = push_bit 24 (ucast (f ! i)) + push_bit 16 (ucast (f ! (i + 1))) +
               push_bit 8 (ucast (f ! (i + 2))) + ucast (f ! (i + 3))"

definition decode_register :: "bytes \<Rightarrow> nat \<Rightarrow> kmp_response_register" where
  "decode_register f idx =
     \<lparr>rid = ucast (word2 f idx), unit_code = f ! (idx + 2), reg_length = f ! (idx + 3),
      si_ex = f ! (idx + 4), reg_value = word4 f (idx + 5)\<rparr>"

text \<open>The loop over the registers of a reply: there is room for eight.\<close>

fun decode_registers :: "bytes \<Rightarrow> nat \<Rightarrow> nat \<Rightarrow> kmp_response_register list \<Rightarrow>
    kmp_response_register list option" where
  "decode_registers f i 0 regs = Some regs"
| "decode_registers f i (Suc n) regs =
     (if i < 8 then decode_registers f (i + 1) n (regs[i := decode_register f (9 * i + 3)])
      else None)"

definition kmp_decode_frame :: "bytes \<Rightarrow> nat \<Rightarrow> (int \<times> kmp_response \<times> kmp) option" where
  "kmp_decode_frame frame frame_length =
     (let k = \<lparr>kmp_frame = frame, kmp_frame_length = frame_length, kmp_data_length = 0\<rparr>;
          response = zero_response
      in if frame_length = 0 then Some (0, response, k)
         else if frame_length = 1 then Some (0, response, k)
         else if frame_length < 6 then Some (0, response, k)
         else if frame ! (frame_length - 1) = 0x0d then
           case kmp_byte_unstuff k of
             None \<Rightarrow> None
           | Some k \<Rightarrow>
               let k = k\<lparr>kmp_data_length := kmp_frame_length k - 4\<rparr>;
                   f = kmp_frame k; n = kmp_frame_length k;
                   crc16 = kmp_crc16 k;
                   kmp_frame_crc16 = be16 (f ! (n - 3)) (f ! (n - 2))
               in if kmp_frame_crc16 \<noteq> crc16 then Some (-1, response, k)
                  else if f ! 2 = 0x01 then
                    Some (1, response\<lparr>kmp_response_meter_type := word2 f 3,
                                      kmp_response_sw_revision := word2 f 5\<rparr>, k)
                  else if f ! 2 = 0x02 then
                    Some (1, response\<lparr>kmp_response_serial := word4 f 3\<rparr>, k)
                  else if f ! 2 = 0x10 then
                    if kmp_data_length k > 2 then
                      map_option (\<lambda>regs. (1, response\<lparr>kmp_response_register_list := regs\<rparr>, k))
                        (decode_registers f 0 ((kmp_data_length k - 2) div 9)
                           (kmp_response_register_list response))
                    else Some (0, response, k)
                  else if f ! 2 = 0x11 then Some (1, response, k)
                  else Some (0, response, k)
         else Some (0, response, k))"

section \<open>Values and units\<close>

datatype value_string = NotSupported | Written bytes | OutOfBounds

text \<open>
  \<open>leading_zeroes\<close> has 16 bytes; its loop runs \<open>exponent - decimal_number_length frac\<close>
  times, a difference of unsigned numbers that is huge when the exponent is 0.
\<close>

definition kmp_value_to_string :: "u32 \<Rightarrow> u8 \<Rightarrow> value_string" where
  "kmp_value_to_string v si =
     (let sign_i = bit si 7; sign_e = bit si 6; exponent = unat (si AND 0x3f)
      in if exponent > 9 then NotSupported
         else
           let factor = int_pow 10 (int exponent);
               sg = (if sign_i then [0x2D] else [])
           in if sign_e then
                let result_int = v div factor;
                    result_frac = v - result_int * factor;
                    zeroes = unat (of_nat exponent - of_nat (decimal_number_length result_frac) :: u32)
                in if zeroes \<ge> 16 then OutOfBounds
                   else Written (sg @ udigits (unat result_int) @ [0x2E] @
                                 replicate zeroes 0x30 @ udigits (unat result_frac))
              else Written (sg @ udigits (unat (v * factor))))"

definition kmp_unit_to_string :: "u8 \<Rightarrow> string" where
  "kmp_unit_to_string u =
     (if u = 0x01 then ''Wh'' else if u = 0x02 then ''kWh'' else if u = 0x03 then ''MWh''
      else if u = 0x08 then ''Gj'' else if u = 0x0c then ''Gcal'' else if u = 0x16 then ''kW''
      else if u = 0x17 then ''MW'' else if u = 0x25 then ''C'' else if u = 0x26 then ''K''
      else if u = 0x27 then ''l'' else if u = 0x28 then ''m3'' else if u = 0x29 then ''l/h''
      else if u = 0x2a then ''m3/h'' else if u = 0x2b then ''m3xC'' else if u = 0x2c then ''ton''
      else if u = 0x2d then ''ton/h'' else if u = 0x2e then ''h'' else if u = 0x2f then ''clock''
      else if u = 0x30 then ''date1'' else if u = 0x32 then ''date3'' else if u = 0x33 then ''number''
      else if u = 0x34 then ''bar'' else ''unknown'')"

section \<open>Frames\<close>

text \<open>The frame of a payload: the specification of the encoder.\<close>

definition kmp_crc_bytes :: "bytes \<Rightarrow> bytes" where
  "kmp_crc_bytes p = [hi8 (ccit_crc16 0 p), lo8 (ccit_crc16 0 p)]"

definition kmp_link :: "u8 \<Rightarrow> bytes \<Rightarrow> bytes" where
  "kmp_link start q = start # kmp_stuff q @ [0x0d]"

definition kmp_packet :: "u8 \<Rightarrow> bytes \<Rightarrow> bytes" where
  "kmp_packet start p = kmp_link start (p @ kmp_crc_bytes p)"

lemma length_kmp_crc_bytes [simp]: "length (kmp_crc_bytes p) = 2"
  by (simp add: kmp_crc_bytes_def)

lemma stuff_loop_stuff: "stuff_loop bs acc = acc @ kmp_stuff bs"
  by (induction bs arbitrary: acc) (auto simp: kmp_special_def kmp_flip_def)

lemma sub_bytes_Cons:
  "i < len \<Longrightarrow> len \<le> length f \<Longrightarrow> sub_bytes f i (len - i) = f ! i # sub_bytes f (i + 1) (len - (i + 1))"
proof -
  assume "i < len" "len \<le> length f"
  then have "len - i = Suc (len - (i + 1))" and "drop i f = f ! i # drop (i + 1) f"
    by (auto simp: Cons_nth_drop_Suc)
  then show ?thesis by (simp add: sub_bytes_def)
qed

lemma unstuff_loop_unstuff:
  "i \<le> len \<Longrightarrow> len \<le> length f \<Longrightarrow> (i < len \<longrightarrow> f ! (len - 1) \<noteq> 0x1b) \<Longrightarrow>
   unstuff_loop f i len acc = Some (acc @ unstuff 0x1b kmp_flip (sub_bytes f i (len - i)))"
proof (induction f i len acc rule: unstuff_loop.induct)
  case (1 f i len acc)
  show ?case
  proof (cases "i < len")
    case False
    with 1 show ?thesis by (simp add: unstuff_loop.simps)
  next
    case True
    note cons = sub_bytes_Cons [OF True 1(4)]
    show ?thesis
    proof (cases "f ! i = 0x1b")
      case esc: True
      with True 1(5) have "i \<noteq> len - 1" by auto
      with True have i1: "i + 1 < len" by simp
      from esc True i1 1 have "unstuff_loop f (i + 2) len (acc @ [f ! (i + 1) XOR 0xff]) =
          Some ((acc @ [f ! (i + 1) XOR 0xff]) @ unstuff 0x1b kmp_flip (sub_bytes f (i + 2) (len - (i + 2))))"
        by (intro 1(1)) auto
      with esc True i1 1(4) cons sub_bytes_Cons [OF i1 1(4)] show ?thesis
        by (simp add: unstuff_loop.simps [of f i] kmp_flip_def [of "f ! Suc i"])
    next
      case False
      from False True 1 have "unstuff_loop f (i + 1) len (acc @ [f ! i]) =
          Some ((acc @ [f ! i]) @ unstuff 0x1b kmp_flip (sub_bytes f (i + 1) (len - (i + 1))))"
        by (intro 1(2)) auto
      with False True cons show ?thesis
        by (simp add: unstuff_loop.simps [of f i] kmp.unstuff_Cons_plain)
    qed
  qed
qed


text \<open>What stuffing leaves: a frame that starts with the start byte and the stuffed payload.\<close>

lemma kmp_byte_stuff_frame:
  assumes "1024 \<le> length (kmp_frame k)" and "kmp_frame_length k = length q + 1"
    and "sub_bytes (kmp_frame k) 1 (length q) = q" and "q \<noteq> []" and "2 * length q \<le> 1000"
  shows "\<exists>k'. map_option kmp_stop (kmp_byte_stuff k) = Some (length (kmp_link s q), k') \<and>
           kmp_frame_length k' = length (kmp_link s q) \<and>
           take (length (kmp_link s q)) (kmp_frame k') = kmp_link (kmp_frame k ! 0) q"
proof -
  let ?q = "kmp_stuff q"
  have len: "length ?q \<le> 1000" "length q \<le> length ?q" using kmp.length_stuff_bounds [of q] assms(5) by auto
  have "?q \<noteq> []" using len assms(4) by auto
  with assms len have stuffed: "kmp_byte_stuff k =
      Some (k\<lparr>kmp_frame := put_bytes (kmp_frame k) 1 ?q, kmp_frame_length := length ?q + 1,
              kmp_data_length := length ?q\<rparr>)"
    by (simp add: kmp_byte_stuff_def stuff_loop_stuff Let_def)
  have "take 1 (kmp_frame k) = [kmp_frame k ! 0]"
    using assms(1) by (cases "kmp_frame k") auto
  then have "take (length ?q + 2) ((put_bytes (kmp_frame k) 1 ?q)[length ?q + 1 := 0x0d]) =
      kmp_link (kmp_frame k ! 0) q"
    using assms(1) len take_put_bytes [of 1 ?q "kmp_frame k"]
    by (simp add: take_Suc_list_update kmp_link_def)
  with stuffed show ?thesis
    by (simp add: kmp_stop_def kmp_put_def kmp_link_def Let_def)
qed

text \<open>A payload \<open>p\<close> in the frame behind the start byte: what the request builders prepare.\<close>

definition holds_payload :: "kmp \<Rightarrow> bytes \<Rightarrow> bool" where
  "holds_payload k p \<longleftrightarrow> 1024 \<le> length (kmp_frame k) \<and> kmp_frame k ! 0 = 0x80 \<and>
     sub_bytes (kmp_frame k) 1 (length p) = p \<and> kmp_frame_length k = length p + 1 \<and>
     kmp_data_length k = length p \<and> p \<noteq> [] \<and> length p \<le> 400"

lemma kmp_put_crc16_payload:
  assumes "holds_payload k p"
  shows "sub_bytes (kmp_frame (kmp_put_crc16 k)) 1 (length p + 2) = p @ kmp_crc_bytes p"
    and "kmp_frame_length (kmp_put_crc16 k) = length p + 3"
    and "length (kmp_frame (kmp_put_crc16 k)) = length (kmp_frame k)"
    and "kmp_frame (kmp_put_crc16 k) ! 0 = 0x80"
proof -
  have crc: "kmp_crc16 k = ccit_crc16 0 p"
    using assms by (simp add: kmp_crc16_def holds_payload_def)
  let ?f = "kmp_frame k"
  have "drop 1 ?f = p @ drop (length p + 1) ?f"
    using assms append_take_drop_id [of "length p" "drop 1 ?f"]
    by (simp add: holds_payload_def sub_bytes_def)
  moreover have "2 \<le> length (drop (length p + 1) ?f)"
    using assms by (auto simp: holds_payload_def)
  then obtain a b rest where "drop (length p + 1) ?f = a # b # rest"
    by (metis Suc_le_length_iff numeral_2_eq_2)
  ultimately have f: "drop 1 ?f = p @ a # b # rest" by simp
  obtain s where s: "?f = s # p @ a # b # rest"
    using f assms by (cases ?f) (auto simp: holds_payload_def)
  then show "sub_bytes (kmp_frame (kmp_put_crc16 k)) 1 (length p + 2) = p @ kmp_crc_bytes p"
    and "kmp_frame_length (kmp_put_crc16 k) = length p + 3"
    and "length (kmp_frame (kmp_put_crc16 k)) = length (kmp_frame k)"
    and "kmp_frame (kmp_put_crc16 k) ! 0 = 0x80"
    using assms crc
    by (simp_all add: kmp_put_crc16_def kmp_put_def holds_payload_def Let_def sub_bytes_def
        list_update_append kmp_crc_bytes_def nth_append)
qed

lemma kmp_request_frame:
  assumes "holds_payload k p"
  shows "\<exists>k'. map_option kmp_stop (kmp_byte_stuff ((kmp_put_crc16 k)\<lparr>kmp_data_length := d\<rparr>)) =
             Some (length (kmp_packet 0x80 p), k') \<and>
           kmp_frame_length k' = length (kmp_packet 0x80 p) \<and>
           take (length (kmp_packet 0x80 p)) (kmp_frame k') = kmp_packet 0x80 p"
  using kmp_byte_stuff_frame [of "(kmp_put_crc16 k)\<lparr>kmp_data_length := d\<rparr>" "p @ kmp_crc_bytes p" "0x80"]
    assms kmp_put_crc16_payload [OF assms]
  by (simp add: kmp_packet_def holds_payload_def)

lemma kmp_clear_frame:
  assumes "1024 \<le> length frame"
  shows "length (kmp_frame (kmp_clear frame)) = length frame"
    and "\<exists>rest. kmp_frame (kmp_clear frame) = replicate 1024 0 @ rest"
  using assms by (auto simp: kmp_clear_def put_bytes_def)

lemma kmp_put_fields [simp]:
  "kmp_frame (kmp_put i b k) = (kmp_frame k)[i := b]"
  "kmp_frame_length (kmp_put i b k) = kmp_frame_length k"
  "kmp_data_length (kmp_put i b k) = kmp_data_length k"
  by (simp_all add: kmp_put_def)

text \<open>A start of the frame written byte by byte is the payload.\<close>

lemma kmp_header_payload:
  assumes "1024 \<le> length frame" and "kmp_frame_length k = 3" and "kmp_data_length k = 2"
    and "kmp_frame k = kmp_frame (kmp_put 2 c (kmp_put 1 d (kmp_put 0 0x80 (kmp_clear frame))))"
  shows "holds_payload k [d, c]"
proof -
  obtain rest where "kmp_frame (kmp_clear frame) = replicate 1024 0 @ rest"
    using kmp_clear_frame(2) [OF assms(1)] by blast
  moreover have "replicate 1024 (0 :: u8) = 0 # 0 # 0 # replicate 1021 0"
  proof -
    have "1024 = Suc (Suc (Suc 1021))" by simp
    then show ?thesis by (simp only: replicate.simps)
  qed
  ultimately show ?thesis
    using assms by (simp add: holds_payload_def sub_bytes_def)
qed

lemma put_registers_fields [simp]:
  "kmp_frame_length (put_registers rs i k) = kmp_frame_length k"
  "kmp_data_length (put_registers rs i k) = kmp_data_length k"
  "length (kmp_frame (put_registers rs i k)) = length (kmp_frame k)"
  by (induction rs arbitrary: i k) simp_all

definition register_bytes :: "u16 list \<Rightarrow> bytes" where
  "register_bytes rs = concat (map (\<lambda>r. [hi8 r, lo8 r]) rs)"

lemma length_register_bytes [simp]: "length (register_bytes rs) = 2 * length rs"
  by (induction rs) (simp_all add: register_bytes_def)

lemma put_registers_frame:
  "4 + 2 * (i + length rs) \<le> length (kmp_frame k) \<Longrightarrow>
   take (4 + 2 * (i + length rs)) (kmp_frame (put_registers rs i k)) =
   take (4 + 2 * i) (kmp_frame k) @ register_bytes rs"
proof (induction rs arbitrary: i k)
  case (Cons r rs)
  let ?k = "kmp_put (3 + 2 * i + 2) (lo8 r) (kmp_put (3 + 2 * i + 1) (hi8 r) k)"
  have "take (4 + 2 * (i + 1)) (kmp_frame ?k) = take (4 + 2 * i) (kmp_frame k) @ [hi8 r, lo8 r]"
    using Cons.prems by (simp add: take_Suc_list_update numeral_eq_Suc)
  then show ?case
    using Cons.IH [of "i + 1" ?k] Cons.prems by (simp add: register_bytes_def)
qed (simp add: register_bytes_def)

lemma kmp_short_request:
  assumes "1024 \<le> length frame"
  shows "\<exists>k. (let k = kmp_put 2 c (kmp_put 1 0x3f (kmp_put 0 0x80 (kmp_clear frame)));
              k = k\<lparr>kmp_frame_length := 3, kmp_data_length := 2\<rparr>;
              k = kmp_put_crc16 k;
              k = k\<lparr>kmp_data_length := kmp_data_length k + 2\<rparr>
          in map_option kmp_stop (kmp_byte_stuff k)) = Some (length (kmp_packet 0x80 [0x3f, c]), k) \<and>
          take (kmp_frame_length k) (kmp_frame k) = kmp_packet 0x80 [0x3f, c]"
proof -
  let ?k = "(kmp_put 2 c (kmp_put 1 0x3f (kmp_put 0 0x80 (kmp_clear frame))))
              \<lparr>kmp_frame_length := 3, kmp_data_length := 2\<rparr>"
  have "holds_payload ?k [0x3f, c]" by (rule kmp_header_payload [OF assms]) simp_all
  from kmp_request_frame [OF this] show ?thesis unfolding Let_def by metis
qed

lemma kmp_register_request:
  assumes "1024 \<le> length frame" and "n = min 8 (length ids)"
  defines "p \<equiv> [0x3f, 0x10, of_nat n] @ register_bytes (take n ids)"
  shows "\<exists>k. kmp_get_register frame ids = Some (length (kmp_packet 0x80 p), k) \<and>
             take (kmp_frame_length k) (kmp_frame k) = kmp_packet 0x80 p"
proof -
  let ?h = "kmp_put 3 (of_nat n) (kmp_put 2 0x10 (kmp_put 1 0x3f (kmp_put 0 0x80 (kmp_clear frame))))
              \<lparr>kmp_frame_length := 4, kmp_data_length := 3\<rparr>"
  let ?r = "put_registers (take n ids) 0 ?h"
  let ?k = "?r\<lparr>kmp_frame_length := kmp_frame_length ?r + 2 * n,
               kmp_data_length := kmp_data_length ?r + 2 * n\<rparr>"
  obtain rest where "kmp_frame (kmp_clear frame) = replicate 1024 0 @ rest"
    using kmp_clear_frame(2) [OF assms(1)] by blast
  moreover have "replicate 1024 (0 :: u8) = 0 # 0 # 0 # 0 # replicate 1020 0"
  proof -
    have "1024 = Suc (Suc (Suc (Suc 1020)))" by simp
    then show ?thesis by (simp only: replicate.simps)
  qed
  ultimately have h: "take 4 (kmp_frame ?h) = [0x80, 0x3f, 0x10, of_nat n]"
    by simp
  have n: "length (take n ids) = n" "n \<le> 8" using assms(2) by auto
  have len: "1024 \<le> length (kmp_frame ?h)"
    using kmp_clear_frame(1) [OF assms(1)] assms(1) by simp
  have "take (4 + 2 * n) (kmp_frame ?r) = 0x80 # p"
    using put_registers_frame [of 0 "take n ids" ?h] n len h by (simp add: p_def)
  moreover have "length p = 3 + 2 * n" using n by (simp add: p_def)
  ultimately have "take (Suc (length p)) (kmp_frame ?k) = 0x80 # p" by simp
  moreover have "kmp_frame ?k = kmp_frame ?k ! 0 # drop 1 (kmp_frame ?k)"
  proof -
    have "length (kmp_frame ?k) = length (kmp_frame ?h)" by simp
    with len have "kmp_frame ?k \<noteq> []" by (metis list.size(3) not_numeral_le_zero)
    then obtain x xs where "kmp_frame ?k = x # xs" by (meson neq_Nil_conv)
    then show ?thesis by (simp only: nth_Cons_0 drop_Suc_Cons One_nat_def drop_0)
  qed
  ultimately have "kmp_frame ?k ! 0 = 0x80" and "take (length p) (drop 1 (kmp_frame ?k)) = p"
    by (metis list.inject take_Suc_Cons)+
  with len n have "holds_payload ?k p"
    by (simp add: holds_payload_def sub_bytes_def p_def)
  from kmp_request_frame [OF this, of "kmp_data_length (kmp_put_crc16 ?k)"]
  have "\<exists>k. map_option kmp_stop (kmp_byte_stuff (kmp_put_crc16 ?k)) = Some (length (kmp_packet 0x80 p), k) \<and>
            take (kmp_frame_length k) (kmp_frame k) = kmp_packet 0x80 p"
    by auto
  moreover have "(if length ids > 8 then 8 else length ids) = n" using assms(2) by auto
  ultimately show ?thesis by (simp only: kmp_get_register_def Let_def)
qed

text \<open>
  the requests on the wire. In a buffer of at least 1024 bytes the builders leave the
  start byte, the stuffed payload with its CRC and the stop byte, and return its length:
  payload \<open>3f 01\<close> for the type, \<open>3f 02\<close> for the serial number, \<open>3f 10 n\<close> and the first
  \<open>n\<close> (at most eight) register ids for a register request. They never run out of the buffer.
\<close>

theorem kmp_requests_correct:
  assumes "1024 \<le> length frame" and "n = min 8 (length ids)"
  shows "(\<exists>k. kmp_get_type frame = Some (length (kmp_packet 0x80 [0x3f, 0x01]), k) \<and>
            take (kmp_frame_length k) (kmp_frame k) = kmp_packet 0x80 [0x3f, 0x01]) \<and>
         (\<exists>k. kmp_get_serial frame = Some (length (kmp_packet 0x80 [0x3f, 0x02]), k) \<and>
            take (kmp_frame_length k) (kmp_frame k) = kmp_packet 0x80 [0x3f, 0x02]) \<and>
         (let p = [0x3f, 0x10, of_nat n] @ register_bytes (take n ids)
          in \<exists>k. kmp_get_register frame ids = Some (length (kmp_packet 0x80 p), k) \<and>
               take (kmp_frame_length k) (kmp_frame k) = kmp_packet 0x80 p)"
  using kmp_short_request [OF assms(1)] kmp_register_request [OF assms]
  unfolding kmp_get_type_def kmp_get_serial_def Let_def by blast

text \<open>The witness: registers 60 and 1004 in a fresh buffer; the CRC of the type request is \<open>058a\<close>.\<close>

theorem kmp_requests_correct_witness:
  "(\<exists>k. kmp_get_type (replicate 1024 0) = Some (length (kmp_packet 0x80 [0x3f, 0x01]), k) \<and>
      take (kmp_frame_length k) (kmp_frame k) = kmp_packet 0x80 [0x3f, 0x01]) \<and>
   kmp_packet 0x80 [0x3f, 0x01] = [0x80, 0x3f, 0x01, 0x05, 0x8a, 0x0d] \<and>
   (\<exists>k. kmp_get_register (replicate 1024 0) [60, 1004] =
          Some (length (kmp_packet 0x80 [0x3f, 0x10, 2, 0, 60, 3, 236]), k) \<and>
      take (kmp_frame_length k) (kmp_frame k) = kmp_packet 0x80 [0x3f, 0x10, 2, 0, 60, 3, 236])"
proof -
  have "kmp_packet 0x80 [0x3f, 0x01] = [0x80, 0x3f, 0x01, 0x05, 0x8a, 0x0d]"
    by (simp add: kmp_packet_def kmp_link_def kmp_crc_bytes_def kmp_special_def hi8_def lo8_def
        ccit_crc16_table_def)
  moreover have "register_bytes [60, 1004] = [0, 60, 3, 236]"
    by (simp add: register_bytes_def hi8_def lo8_def)
  ultimately show ?thesis
    using kmp_requests_correct [of "replicate 1024 0" 2 "[60, 1004]"] by (simp add: Let_def)
qed

section \<open>Replies on the wire\<close>

lemma length_unstuff: "length (unstuff m f xs) \<le> length xs"
  by (induction m f xs rule: unstuff.induct) auto

text \<open>
  What \<open>kmp_byte_unstuff\<close> leaves of a received frame: start byte, the bytes \<open>w\<close> between
  start and stop byte, stop byte, whatever follows in the buffer.
\<close>

lemma kmp_byte_unstuff_wire:
  assumes "frame = s # w @ 0x0d # rest" and "unstuff 0x1b kmp_flip (w @ [0x0d]) = q @ [0x0d]"
    and "length q \<le> 1022"
    and "k = \<lparr>kmp_frame = frame, kmp_frame_length = length w + 2, kmp_data_length = 0\<rparr>"
  shows "\<exists>rest'. kmp_byte_unstuff k =
           Some \<lparr>kmp_frame = s # q @ 0x0d # rest', kmp_frame_length = length q + 2,
                 kmp_data_length = length q + 1\<rparr>"
proof -
  let ?n = "length w + 2"
  have sub: "sub_bytes frame 1 (?n - 1) = w @ [0x0d]"
    by (simp add: assms(1) sub_bytes_def)
  have last: "frame ! (?n - 1) = 0x0d"
    by (simp add: assms(1) nth_append)
  have "unstuff_loop frame 1 ?n [] = Some ([] @ unstuff 0x1b kmp_flip (sub_bytes frame 1 (?n - 1)))"
    by (rule unstuff_loop_unstuff) (simp_all only: last, simp_all add: assms(1))
  then have loop: "unstuff_loop frame 1 ?n [] = Some (q @ [0x0d])"
    by (simp only: sub assms(2) append_Nil)
  have "put_bytes frame 1 (q @ [0x0d]) = s # q @ 0x0d # drop (length q + 2) frame"
    by (simp add: put_bytes_def assms(1))
  with loop assms(3) show ?thesis
    by (simp add: kmp_byte_unstuff_def assms(4) Let_def)
qed

definition decoded :: "bytes \<Rightarrow> nat \<Rightarrow> (int \<times> kmp_response) option" where
  "decoded frame n = map_option (\<lambda>(r, response, k). (r, response)) (kmp_decode_frame frame n)"

text \<open>The application layer of \<open>kmp_decode_frame\<close>, on the payload.\<close>

definition decode_payload :: "bytes \<Rightarrow> bytes \<Rightarrow> (int \<times> kmp_response) option" where
  "decode_payload f p =
     (if f ! 2 = 0x01 then
        Some (1, zero_response\<lparr>kmp_response_meter_type := word2 f 3, kmp_response_sw_revision := word2 f 5\<rparr>)
      else if f ! 2 = 0x02 then Some (1, zero_response\<lparr>kmp_response_serial := word4 f 3\<rparr>)
      else if f ! 2 = 0x10 then
        if length p > 2 then
          map_option (\<lambda>regs. (1, zero_response\<lparr>kmp_response_register_list := regs\<rparr>))
            (decode_registers f 0 ((length p - 2) div 9) (replicate 8 zero_register))
        else Some (0, zero_response)
      else if f ! 2 = 0x11 then Some (1, zero_response)
      else Some (0, zero_response))"

lemma kmp_decode_core:
  assumes un: "kmp_byte_unstuff \<lparr>kmp_frame = F, kmp_frame_length = N, kmp_data_length = 0\<rparr> =
      Some \<lparr>kmp_frame = f, kmp_frame_length = length p + 4, kmp_data_length = length p + 3\<rparr>"
    and N: "6 \<le> N" "F ! (N - 1) = 0x0d"
    and f: "sub_bytes f 1 (length p) = p" "f ! (length p + 1) = h" "f ! (length p + 2) = l"
  shows "decoded F N =
      (if be16 h l = ccit_crc16 0 p then decode_payload f p else Some (-1, zero_response))"
proof -
  have regs: "kmp_response_register_list zero_response = replicate 8 zero_register"
    by (simp add: zero_response_def)
  have n: "N \<noteq> 0" "N \<noteq> Suc 0" "\<not> N < 6" "F ! (N - Suc 0) = 0x0d" using N by auto
  note [simp] = n un [simplified] kmp_crc16_def f [simplified]
  show ?thesis
    by (cases "be16 h l = ccit_crc16 0 p")
      (simp_all add: decoded_def kmp_decode_frame_def decode_payload_def Let_def regs
        option.map_comp comp_def)
qed

lemma kmp_decode_wire:
  assumes "unstuff 0x1b kmp_flip (w @ [0x0d]) = (p @ [h, l]) @ [0x0d]"
    and "length p \<le> 1020" and "2 \<le> length p"
  shows "\<exists>rest'. decoded (s # w @ 0x0d # rest) (length w + 2) =
           (if be16 h l = ccit_crc16 0 p then decode_payload (s # p @ [h, l, 0x0d] @ rest') p
            else Some (-1, zero_response))"
proof -
  let ?q = "p @ [h, l]"
  obtain rest' where un: "kmp_byte_unstuff
      \<lparr>kmp_frame = s # w @ 0x0d # rest, kmp_frame_length = length w + 2, kmp_data_length = 0\<rparr> =
      Some \<lparr>kmp_frame = s # ?q @ 0x0d # rest', kmp_frame_length = length p + 4,
            kmp_data_length = length p + 3\<rparr>"
    using kmp_byte_unstuff_wire [OF refl assms(1) _ refl, of s rest] assms(2) by auto
  have "decoded (s # w @ 0x0d # rest) (length w + 2) =
      (if be16 h l = ccit_crc16 0 p then decode_payload (s # ?q @ 0x0d # rest') p
       else Some (-1, zero_response))"
  proof (rule kmp_decode_core [OF un])
    show "6 \<le> length w + 2"
      using length_unstuff [of "0x1b" kmp_flip "w @ [0x0d]"] assms(1,3) by simp
  qed (simp_all add: sub_bytes_def nth_append)
  then show ?thesis by auto
qed

lemma kmp_decode_link:
  assumes "length p \<le> 1020" and "2 \<le> length p"
  shows "\<exists>rest'. decoded (kmp_link s (p @ [h, l]) @ rest) (length (kmp_link s (p @ [h, l]))) =
           (if be16 h l = ccit_crc16 0 p then decode_payload (s # p @ [h, l, 0x0d] @ rest') p
            else Some (-1, zero_response))"
proof -
  have "unstuff 0x1b kmp_flip (kmp_stuff (p @ [h, l]) @ [0x0d]) = (p @ [h, l]) @ [0x0d]"
    by (simp only: kmp.unstuff_stuff_append) simp
  from kmp_decode_wire [OF this assms, of s rest] show ?thesis by (simp add: kmp_link_def)
qed

text \<open>A register in the form the decoder reads: four value bytes whatever the length field says.\<close>

definition register_reply :: "kmp_response_register \<Rightarrow> bytes" where
  "register_reply r = [hi8 (rid r), lo8 (rid r), unit_code r, reg_length r, si_ex r] @ bytes32 (reg_value r)"

lemma word2_nth: "f ! i = hi8 w \<Longrightarrow> f ! (i + 1) = lo8 w \<Longrightarrow> word2 f i = ucast w"
proof -
  assume "f ! i = hi8 w" "f ! (i + 1) = lo8 w"
  moreover have "push_bit 8 (ucast (hi8 w)) + ucast (lo8 w) = (ucast w :: u32)"
  proof -
    have "push_bit 8 (ucast (hi8 w)) AND ucast (lo8 w) = (0 :: u32)"
      by (rule bit_word_eqI) (auto simp: bit_simps dest: bit_imp_le_length)
    then have "push_bit 8 (ucast (hi8 w)) + ucast (lo8 w) = (push_bit 8 (ucast (hi8 w)) OR ucast (lo8 w) :: u32)"
      by (rule disjunctive_add_eq_or)
    also have "\<dots> = ucast w"
    proof (rule bit_word_eqI)
      fix n
      show "bit (push_bit 8 (ucast (hi8 w)) OR ucast (lo8 w) :: u32) n = bit (ucast w :: u32) n"
        by (cases "n < 8") (auto simp: hi8_def lo8_def and_255 bit_simps dest: bit_imp_le_length)
    qed
    finally show ?thesis .
  qed
  ultimately show ?thesis by (simp add: word2_def)
qed

lemma word4_bytes32:
  assumes "sub_bytes f i 4 = bytes32 v" and "i + 4 \<le> length f"
  shows "word4 f i = v"
proof -
  have "f ! (i + j) = bytes32 v ! j" if "j < 4" for j
    using assms that nth_sub_bytes [of i 4 f j] by simp
  from this [of 0] this [of 1] this [of 2] this [of 3] show ?thesis
    by (simp add: word4_def be32_add bytes32_def be32_bytes32 del: push_bit_numeral)
qed

lemma decode_register_reply:
  assumes "sub_bytes f i 9 = register_reply r" and "i + 9 \<le> length f"
  shows "decode_register f i = r"
proof -
  have nth: "f ! (i + j) = register_reply r ! j" if "j < 9" for j
    using assms that nth_sub_bytes [of i 9 f j] by simp
  have "sub_bytes f (i + 5) 4 = bytes32 (reg_value r)"
  proof -
    have "sub_bytes f (i + 5) 4 = drop 5 (sub_bytes f i 9)"
      by (simp add: sub_bytes_def drop_take add.commute)
    then show ?thesis using assms(1) by (simp add: register_reply_def)
  qed
  then have "word4 f (i + 5) = reg_value r"
    using assms(2) by (intro word4_bytes32) auto
  moreover have "word2 f i = ucast (rid r)"
    using nth [of 0] nth [of 1] by (intro word2_nth) (simp_all add: register_reply_def)
  moreover have "ucast (ucast (rid r) :: u32) = rid r"
    by (rule bit_word_eqI) (auto simp: bit_simps)
  ultimately show ?thesis
    using nth [of 2] nth [of 3] nth [of 4]
    by (simp add: decode_register_def register_reply_def numeral_eq_Suc)
qed

lemma length_register_reply [simp]: "length (register_reply r) = 9"
  by (simp add: register_reply_def)

lemma length_replies: "length (concat (map register_reply rs)) = 9 * length rs"
  by (induction rs) simp_all

lemma sub_bytes_replies:
  "i < length rs \<Longrightarrow> sub_bytes (concat (map register_reply rs) @ rest) (9 * i) 9 = register_reply (rs ! i)"
proof (induction rs arbitrary: i)
  case (Cons r rs)
  then show ?case by (cases i) (simp_all add: sub_bytes_def)
qed simp

lemma decode_registers_replies:
  assumes "\<And>j. j < length rs \<Longrightarrow> decode_register f (9 * j + 3) = rs ! j"
  shows "length regs = 8 \<Longrightarrow> i + n = length rs \<Longrightarrow> length rs \<le> 8 \<Longrightarrow> take i regs = take i rs \<Longrightarrow>
    drop (length rs) regs = drop (length rs) (replicate 8 zero_register) \<Longrightarrow>
    decode_registers f i n regs = Some (rs @ replicate (8 - length rs) zero_register)"
proof (induction n arbitrary: i regs)
  case 0
  then have "take (length rs) regs = rs" by simp
  with 0 show ?case using append_take_drop_id [of "length rs" regs] by simp
next
  case (Suc n)
  let ?regs = "regs[i := decode_register f (9 * i + 3)]"
  have "take (i + 1) ?regs = take (i + 1) rs"
    using Suc.prems assms [of i] by (simp add: take_Suc_list_update take_Suc_conv_app_nth)
  moreover have "drop (length rs) ?regs = drop (length rs) regs"
    using Suc.prems by simp
  ultimately show ?case using Suc.IH [of ?regs "i + 1"] Suc.prems by simp
qed

lemma decode_registers_overflow: "i \<le> 8 \<Longrightarrow> 8 < i + n \<Longrightarrow> decode_registers f i n regs = None"
  by (induction n arbitrary: i regs) auto

lemma decode_payload_registers:
  assumes "f = s # dst # 0x10 # concat (map register_reply rs) @ rest" and "rs \<noteq> []"
    and "p = dst # 0x10 # concat (map register_reply rs)"
  shows "decode_payload f p =
    (if length rs \<le> 8
     then Some (1, zero_response\<lparr>kmp_response_register_list := rs @ replicate (8 - length rs) zero_register\<rparr>)
     else None)"
proof -
  have nth: "decode_register f (9 * j + 3) = rs ! j" if "j < length rs" for j
  proof (rule decode_register_reply)
    have "drop (9 * j + 3) f = drop (9 * j) (concat (map register_reply rs) @ rest)"
      by (simp add: assms(1) numeral_3_eq_3)
    then show "sub_bytes f (9 * j + 3) 9 = register_reply (rs ! j)"
      using sub_bytes_replies [OF that, of rest] by (simp only: sub_bytes_def)
    show "9 * j + 3 + 9 \<le> length f" using that by (simp add: assms(1) length_replies)
  qed
  have n: "(length p - 2) div 9 = length rs" "2 < length p"
    using assms(2) by (auto simp: assms(3) length_replies)
  have cid: "f ! 2 = 0x10" by (simp add: assms(1))
  show ?thesis
  proof (cases "length rs \<le> 8")
    case True
    then have "decode_registers f 0 (length rs) (replicate 8 zero_register) =
        Some (rs @ replicate (8 - length rs) zero_register)"
      by (intro decode_registers_replies nth) auto
    with True n cid show ?thesis by (simp add: decode_payload_def)
  next
    case False
    then show ?thesis using n cid
      by (simp add: decode_payload_def decode_registers_overflow)
  qed
qed

lemma decoded_register_reply:
  assumes "rs \<noteq> []" and "length rs \<le> 100"
    and "frame = kmp_packet s (dst # 0x10 # concat (map register_reply rs))"
  shows "decoded (frame @ rest) (length frame) =
    (if length rs \<le> 8
     then Some (1, zero_response\<lparr>kmp_response_register_list := rs @ replicate (8 - length rs) zero_register\<rparr>)
     else None)"
proof -
  let ?p = "dst # 0x10 # concat (map register_reply rs)"
  have "length ?p \<le> 1020" "2 \<le> length ?p" using assms(2) by (simp_all add: length_replies)
  from kmp_decode_link [OF this, of s "hi8 (ccit_crc16 0 ?p)" "lo8 (ccit_crc16 0 ?p)" rest]
  obtain rest' where "decoded (frame @ rest) (length frame) =
      decode_payload (s # ?p @ [hi8 (ccit_crc16 0 ?p), lo8 (ccit_crc16 0 ?p), 0x0d] @ rest') ?p"
    by (auto simp: assms(3) kmp_packet_def kmp_crc_bytes_def)
  then show ?thesis using decode_payload_registers [OF _ assms(1) refl] by simp
qed

text \<open>
  A register as the protocol sends it: the length field says how many bytes of the value
  follow, most significant first.
\<close>

definition value_bytes :: "nat \<Rightarrow> u32 \<Rightarrow> bytes" where
  "value_bytes n v = map (\<lambda>i. ucast (drop_bit (8 * (n - 1 - i)) v)) [0..<n]"

definition wire_register :: "kmp_response_register \<Rightarrow> bytes" where
  "wire_register r =
     [hi8 (rid r), lo8 (rid r), unit_code r, reg_length r, si_ex r] @ value_bytes (unat (reg_length r)) (reg_value r)"

lemma wire_register_4:
  assumes "reg_length r = 4"
  shows "wire_register r = register_reply r"
proof -
  have "unat (4 :: u8) = 4" and "[0..<4 :: nat] = [0, 1, 2, 3]" by (simp_all add: upt_rec)
  then show ?thesis
    using assms by (simp add: wire_register_def register_reply_def value_bytes_def bytes32_def)
qed

lemma wire_registers_4:
  "\<forall>r \<in> set rs. reg_length r = 4 \<Longrightarrow> concat (map wire_register rs) = concat (map register_reply rs)"
  by (induction rs) (simp_all add: wire_register_4)

lemma length_wire_register: "length (wire_register r) = 5 + unat (reg_length r)"
  by (simp add: wire_register_def value_bytes_def)

lemma decoded_short_register:
  assumes "reg_length r < 4" and "frame = kmp_packet s (dst # 0x10 # wire_register r)"
  shows "decoded (frame @ rest) (length frame) = Some (1, zero_response)"
proof -
  let ?p = "dst # 0x10 # wire_register r"
  have n: "unat (reg_length r) < 4" using assms(1) by (simp add: word_less_nat_alt)
  then have "length ?p \<le> 1020" "2 \<le> length ?p" by (simp_all add: length_wire_register)
  from kmp_decode_link [OF this, of s "hi8 (ccit_crc16 0 ?p)" "lo8 (ccit_crc16 0 ?p)" rest]
  obtain rest' where "decoded (frame @ rest) (length frame) =
      decode_payload (s # ?p @ [hi8 (ccit_crc16 0 ?p), lo8 (ccit_crc16 0 ?p), 0x0d] @ rest') ?p"
    by (auto simp: assms(2) kmp_packet_def kmp_crc_bytes_def)
  then show ?thesis using n
    by (simp add: decode_payload_def length_wire_register zero_response_def)
qed

text \<open>
  C32: a register reply from the meter decodes to exactly the registers it carries, for any
  start byte and destination, one to eight registers and values of four bytes, the rest of the
  response zero. With more than eight registers (up to a hundred) the decoder writes outside
  the response. The length field of a register is not obeyed: one register whose value is
  shorter than four bytes is answered with success and no register at all.
\<close>

theorem kmp_decode_registers:
  assumes "rs \<noteq> []" and "length rs \<le> 100" and "\<forall>r \<in> set rs. reg_length r = 4"
    and "frame = kmp_packet s (dst # 0x10 # concat (map wire_register rs))"
    and "reg_length short < 4" and "short_frame = kmp_packet s (dst # 0x10 # wire_register short)"
  shows "decoded (frame @ rest) (length frame) =
      (if length rs \<le> 8
       then Some (1, zero_response\<lparr>kmp_response_register_list := rs @ replicate (8 - length rs) zero_register\<rparr>)
       else None) \<and>
    decoded (short_frame @ rest) (length short_frame) = Some (1, zero_response)"
proof
  from assms(4) have "frame = kmp_packet s (dst # 0x10 # concat (map register_reply rs))"
    by (simp only: wire_registers_4 [OF assms(3)])
  with assms(1,2) show "decoded (frame @ rest) (length frame) =
      (if length rs \<le> 8
       then Some (1, zero_response\<lparr>kmp_response_register_list := rs @ replicate (8 - length rs) zero_register\<rparr>)
       else None)"
    by (rule decoded_register_reply)
qed (rule decoded_short_register [OF assms(5,6)])

definition ex_register :: kmp_response_register where
  "ex_register = \<lparr>rid = 60, unit_code = 0x03, reg_length = 4, si_ex = 0x43, reg_value = 12345\<rparr>"

text \<open>The witness: one register, \<open>12.345 MWh\<close>, in the bytes of the wire.\<close>

theorem kmp_decode_registers_witness:
  "kmp_packet 0x40 [0x3f, 0x10, 0, 60, 3, 4, 0x43, 0, 0, 0x30, 0x39] =
     [0x40, 0x3f, 0x10, 0, 60, 3, 4, 0x43, 0, 0, 0x30, 0x39, 0x34, 0xff, 0x0d] \<and>
   decoded [0x40, 0x3f, 0x10, 0, 60, 3, 4, 0x43, 0, 0, 0x30, 0x39, 0x34, 0xff, 0x0d] 15 =
     Some (1, zero_response\<lparr>kmp_response_register_list := ex_register # replicate 7 zero_register\<rparr>)"
proof -
  let ?short = "ex_register\<lparr>reg_length := 2\<rparr>"
  have p: "0x3f # 0x10 # concat (map wire_register [ex_register]) =
      [0x3f, 0x10, 0, 60, 3, 4, 0x43, 0, 0, 0x30, 0x39]"
    by (simp add: wire_register_4 register_reply_def ex_register_def hi8_def lo8_def bytes32_def)
  have f: "kmp_packet 0x40 [0x3f, 0x10, 0, 60, 3, 4, 0x43, 0, 0, 0x30, 0x39] =
     [0x40, 0x3f, 0x10, 0, 60, 3, 4, 0x43, 0, 0, 0x30, 0x39, 0x34, 0xff, 0x0d]"
    by (simp add: kmp_packet_def kmp_link_def kmp_crc_bytes_def kmp_special_def hi8_def lo8_def
        ccit_crc16_table_def)
  have "decoded (kmp_packet 0x40 (0x3f # 0x10 # concat (map wire_register [ex_register])) @ [])
      (length (kmp_packet 0x40 (0x3f # 0x10 # concat (map wire_register [ex_register])))) =
    (if length [ex_register] \<le> 8
     then Some (1, zero_response\<lparr>kmp_response_register_list := [ex_register] @ replicate (8 - length [ex_register]) zero_register\<rparr>)
     else None)"
    by (rule kmp_decode_registers [OF _ _ _ refl _ refl, of _ ?short, THEN conjunct1])
      (simp_all add: ex_register_def)
  then have "decoded [0x40, 0x3f, 0x10, 0, 60, 3, 4, 0x43, 0, 0, 0x30, 0x39, 0x34, 0xff, 0x0d] 15 =
     Some (1, zero_response\<lparr>kmp_response_register_list := ex_register # replicate 7 zero_register\<rparr>)"
    unfolding p f by (simp add: eval_nat_numeral)
  with f show ?thesis by simp
qed

text \<open>
  the replies to the type and serial number requests decode to the numbers they carry.
\<close>

theorem kmp_decode_type_serial:
  assumes "type_frame = kmp_packet s [dst, 0x01, hi8 t, lo8 t, hi8 r, lo8 r]"
    and "serial_frame = kmp_packet s ([dst, 0x02] @ bytes32 n)"
  shows "decoded (type_frame @ rest) (length type_frame) =
           Some (1, zero_response\<lparr>kmp_response_meter_type := ucast t, kmp_response_sw_revision := ucast r\<rparr>) \<and>
         decoded (serial_frame @ rest) (length serial_frame) =
           Some (1, zero_response\<lparr>kmp_response_serial := n\<rparr>)"
proof (intro conjI)
  let ?p = "[dst, 0x01, hi8 t, lo8 t, hi8 r, lo8 r]"
  obtain rest' where "decoded (type_frame @ rest) (length type_frame) =
      decode_payload (s # ?p @ [hi8 (ccit_crc16 0 ?p), lo8 (ccit_crc16 0 ?p), 0x0d] @ rest') ?p"
    using kmp_decode_link [of ?p s "hi8 (ccit_crc16 0 ?p)" "lo8 (ccit_crc16 0 ?p)" rest]
    by (auto simp: assms(1) kmp_packet_def kmp_crc_bytes_def simp del: ccit_crc16.simps)
  then show "decoded (type_frame @ rest) (length type_frame) =
      Some (1, zero_response\<lparr>kmp_response_meter_type := ucast t, kmp_response_sw_revision := ucast r\<rparr>)"
    by (simp add: decode_payload_def word2_nth numeral_eq_Suc del: ccit_crc16.simps)
next
  let ?p = "[dst, 0x02] @ bytes32 n"
  obtain rest' where "decoded (serial_frame @ rest) (length serial_frame) =
      decode_payload (s # ?p @ [hi8 (ccit_crc16 0 ?p), lo8 (ccit_crc16 0 ?p), 0x0d] @ rest') ?p"
    using kmp_decode_link [of ?p s "hi8 (ccit_crc16 0 ?p)" "lo8 (ccit_crc16 0 ?p)" rest]
    by (auto simp: assms(2) kmp_packet_def kmp_crc_bytes_def simp del: ccit_crc16.simps)
  moreover have "word4 (s # ?p @ z) 3 = n" for z
    by (rule word4_bytes32) (simp_all add: sub_bytes_def bytes32_def numeral_eq_Suc)
  ultimately show "decoded (serial_frame @ rest) (length serial_frame) =
      Some (1, zero_response\<lparr>kmp_response_serial := n\<rparr>)"
    by (simp add: decode_payload_def del: ccit_crc16.simps)
qed

theorem kmp_decode_type_serial_witness:
  "decoded (kmp_packet 0x40 [0x3f, 0x01, 0x05, 0x60, 0x02, 0x01]) 10 =
     Some (1, zero_response\<lparr>kmp_response_meter_type := 0x0560, kmp_response_sw_revision := 0x0201\<rparr>)"
proof -
  have l: "length (kmp_packet 0x40 [0x3f, 0x01, 0x05, 0x60, 0x02, 0x01]) = 10"
    by (simp add: kmp_packet_def kmp_link_def kmp_crc_bytes_def kmp_special_def hi8_def lo8_def
        ccit_crc16_table_def)
  have "[0x3f, 0x01, hi8 0x0560, lo8 0x0560, hi8 0x0201, lo8 0x0201] = [0x3f, 0x01, 0x05, 0x60, 0x02, 0x01]"
    by (simp add: hi8_def lo8_def)
  with kmp_decode_type_serial [OF refl refl, where s = "0x40" and dst = "0x3f" and t = "0x0560" and r = "0x0201" and rest = "[]"] l
  show ?thesis by simp
qed











section \<open>Values on display\<close>

lemma udigits_digits: "\<exists>ds. udigits n = digit_string ds \<and> is_digits ds \<and> dec_value ds = n"
proof (induction n rule: udigits.induct)
  case (1 n)
  show ?case
  proof (cases "n < 10")
    case True
    then show ?thesis
      by (intro exI [of _ "[n]"]) (simp add: udigits.simps [of n] digit_string_def dec_value_def)
  next
    case False
    with 1 obtain ds where "udigits (n div 10) = digit_string ds" "is_digits ds" "dec_value ds = n div 10"
      by blast
    with False show ?thesis
      by (intro exI [of _ "ds @ [n mod 10]"])
        (simp add: udigits.simps [of n] digit_string_def dec_value_snoc)
  qed
qed

lemma dec_value_append: "dec_value (xs @ ys) = dec_value xs * 10 ^ length ys + dec_value ys"
proof (induction ys rule: rev_induct)
  case (snoc y ys)
  then show ?case by (simp add: dec_value_snoc algebra_simps flip: append_assoc)
qed simp

lemma dec_value_zeroes: "dec_value (replicate n 0) = 0"
  by (induction n) (simp_all add: dec_value_snoc flip: replicate_append_same)

lemma sint_nonneg:
  assumes "unat (w :: u32) < 2 ^ 31"
  shows "0 \<le> sint w"
proof -
  have "int (unat w) < int (2 ^ 31)" using assms by (simp only: of_nat_less_iff)
  then have "uint w < 2 ^ 31" by (simp only: uint_nat of_nat_power of_nat_numeral)
  then have "signed_take_bit (LENGTH(32) - Suc 0) (uint w) = uint w"
    using unsigned_greater_eq [of w] by (intro signed_take_bit_int_eq_self) (simp_all add: order_trans [of _ 0])
  then show ?thesis by (simp only: sint_uint) simp
qed

lemma kmp_value_frac:
  assumes "e = unat (si AND 0x3f)" and "e \<le> 9" and "bit si 6"
    and "i = v div int_pow 10 (int e)" and "f = v - i * int_pow 10 (int e)"
    and "zs = unat (of_nat e - of_nat (decimal_number_length f) :: u32)"
  shows "kmp_value_to_string v si =
    (if zs \<ge> 16 then OutOfBounds
     else Written ((if bit si 7 then [0x2D] else []) @ udigits (unat i) @ [0x2E] @
                   replicate zs 0x30 @ udigits (unat f)))"
  using assms(2,3)
  by (simp only: kmp_value_to_string_def Let_def assms(1,4,5,6) if_True if_False not_less simp_thms
      flip: not_less)

text \<open>
  a register value with a negative exponent \<open>e\<close> from 1 to 9 is displayed exactly: sign,
  digits, point and exactly \<open>e\<close> decimals, and the digits read without the point are the
  value. With a positive exponent the product is taken modulo \<open>2 ^ 32\<close>; exponents above 9
  are refused, and a negative exponent 0 overruns the array of leading zeroes.
\<close>

theorem kmp_value_to_string_exact:
  assumes "e = unat (si AND 0x3f)"
    and "sg = (if bit si 7 then [0x2D] else [])"
  shows "(bit si 6 \<and> 1 \<le> e \<and> e \<le> 9 \<longrightarrow>
            (\<exists>ip fp. kmp_value_to_string v si = Written (sg @ digit_string ip @ [0x2E] @ digit_string fp) \<and>
               is_digits (ip @ fp) \<and> length fp = e \<and> dec_value (ip @ fp) = unat v)) \<and>
         (\<not> bit si 6 \<and> e \<le> 9 \<longrightarrow>
            kmp_value_to_string v si = Written (sg @ udigits (unat v * 10 ^ e mod 2 ^ 32))) \<and>
         (9 < e \<longrightarrow> kmp_value_to_string v si = NotSupported) \<and>
         (bit si 6 \<and> e = 0 \<longrightarrow> kmp_value_to_string v si = OutOfBounds)"
proof -
  have pow: "unat (int_pow 10 (int e)) = 10 ^ e" if "e \<le> 9"
  proof -
    have "(10 :: nat) ^ e \<le> 10 ^ 9" using that by (intro power_increasing) auto
    then have "(10 :: nat) ^ e < 2 ^ 32" by simp
    moreover have "int_pow 10 (int e) = of_nat (10 ^ e)" by (simp add: int_pow_power)
    ultimately show ?thesis by (simp only: unat_of_nat) simp
  qed
  have frac: "\<exists>ip fp. kmp_value_to_string v si = Written (sg @ digit_string ip @ [0x2E] @ digit_string fp) \<and>
      is_digits (ip @ fp) \<and> length fp = e \<and> dec_value (ip @ fp) = unat v"
    if e: "bit si 6" "1 \<le> e" "e \<le> 9"
  proof -
    define i f where "i = unat v div 10 ^ e" and "f = unat v mod 10 ^ e"
    let ?int = "v div int_pow 10 (int e)"
    let ?frac = "v - ?int * int_pow 10 (int e)"
    have int: "unat ?int = i" by (simp add: i_def unat_div pow e)
    have frac: "?frac = v mod int_pow 10 (int e)" by (simp add: minus_div_mult_eq_mod)
    then have f: "unat ?frac = f" by (simp add: f_def unat_mod pow e)
    have f_less: "f < 10 ^ e" by (simp add: f_def)
    moreover have "(10 :: nat) ^ e \<le> 10 ^ 9" using e by (intro power_increasing) auto
    ultimately have "unat ?frac < 2 ^ 31" using f by simp
    then have "0 \<le> sint ?frac" by (rule sint_nonneg)
    then have dl: "decimal_number_length ?frac = length (udigits f)"
      by (simp add: decimal_number_length_udigits f)
    have le: "length (udigits f) \<le> e" using f_less e by (intro length_udigits_le) auto
    then have z: "unat (of_nat e - of_nat (length (udigits f)) :: u32) = e - length (udigits f)"
      using e by (simp only: of_nat_diff [OF le, symmetric] unat_of_nat) simp
    obtain ip where ip: "udigits i = digit_string ip" "is_digits ip" "dec_value ip = i"
      using udigits_digits by blast
    obtain ff where ff: "udigits f = digit_string ff" "is_digits ff" "dec_value ff = f"
      using udigits_digits by blast
    let ?fp = "replicate (e - length ff) 0 @ ff"
    have lff: "length ff = length (udigits f)" by (simp add: ff(1) digit_string_def)
    have "digit_string ?fp = replicate (e - length (udigits f)) 0x30 @ udigits f"
      by (simp add: digit_string_def ff(1) digit_char_def)
    moreover have "kmp_value_to_string v si =
        (if e - length (udigits f) \<ge> 16 then OutOfBounds
         else Written (sg @ udigits i @ [0x2E] @ replicate (e - length (udigits f)) 0x30 @ udigits f))"
      using kmp_value_frac [OF assms(1) e(3,1) refl refl refl, of v]
      unfolding dl z int f assms(2) .
    moreover have "\<not> e - length (udigits f) \<ge> 16" using e by arith
    ultimately have "kmp_value_to_string v si = Written (sg @ digit_string ip @ [0x2E] @ digit_string ?fp)"
      by (simp only: ip(1) if_False)
    moreover have "dec_value (ip @ ?fp) = unat v"
      using le lff by (simp add: dec_value_append dec_value_zeroes ip ff i_def f_def div_mult_mod_eq)
    moreover have "is_digits (ip @ ?fp)" using ip ff by (auto simp: list_all_iff)
    moreover have "length ?fp = e" using le lff by simp
    ultimately show ?thesis by blast
  qed
  have whole: "kmp_value_to_string v si = Written (sg @ udigits (unat v * 10 ^ e mod 2 ^ 32))"
    if "\<not> bit si 6" "e \<le> 9"
    using that by (simp add: kmp_value_to_string_def Let_def assms(2) unat_word_ariths pow flip: assms(1))
  have zero: "kmp_value_to_string v si = OutOfBounds" if "bit si 6" "e = 0"
    using that
    by (simp add: kmp_value_to_string_def Let_def assms(2) int_pow_power decimal_number_length_def
        unsigned_minus_1_eq_mask mask_eq_exp_minus_1 flip: assms(1))
  have big: "kmp_value_to_string v si = NotSupported" if "9 < e"
    using that by (simp add: kmp_value_to_string_def Let_def flip: assms(1))
  show ?thesis using frac whole zero big by blast
qed

text \<open>The witness: 12345 with \<open>si_ex = 0x43\<close> is \<open>12.345\<close>, 5 with \<open>0xc2\<close> is \<open>-0.05\<close>.\<close>

theorem kmp_value_to_string_exact_witness:
  "(\<exists>ip fp. kmp_value_to_string 12345 0x43 = Written (digit_string ip @ [0x2E] @ digit_string fp) \<and>
      is_digits (ip @ fp) \<and> length fp = 3 \<and> dec_value (ip @ fp) = 12345) \<and>
   kmp_value_to_string 5 0x40 = OutOfBounds \<and>
   kmp_value_to_string 5 0x02 = Written [0x35, 0x30, 0x30]"
  using kmp_value_to_string_exact [OF refl refl, of "0x43" 12345]
    kmp_value_to_string_exact [OF refl refl, of "0x40" 5]
    kmp_value_to_string_exact [OF refl refl, of "0x02" 5]
  by (simp add: udigits.simps digit_char_def)

end
