(* ===== verification/Aes.thy ===== *)
theory Aes
  imports Prelude
begin

text \<open>
  \<open>user/crypto/aes.c\<close>: AES-128. The state is the 16 bytes of a block in memory order, so
  \<open>(*state)[i][j]\<close> is element \<open>4 * i + j\<close>; the round keys are the array \<open>RoundKey\<close>. The
  CBC functions work on one memory with offsets for output, input and IV, because the
  firmware encrypts in place and keeps the IV in the same buffer. What the mode needs of
  the cipher is the locale \<open>block_cipher\<close>.
\<close>

section \<open>Tables\<close>

definition sbox :: bytes where
  "sbox =
   [0x63, 0x7c, 0x77, 0x7b, 0xf2, 0x6b, 0x6f, 0xc5, 0x30, 0x01, 0x67, 0x2b, 0xfe, 0xd7, 0xab, 0x76,
    0xca, 0x82, 0xc9, 0x7d, 0xfa, 0x59, 0x47, 0xf0, 0xad, 0xd4, 0xa2, 0xaf, 0x9c, 0xa4, 0x72, 0xc0,
    0xb7, 0xfd, 0x93, 0x26, 0x36, 0x3f, 0xf7, 0xcc, 0x34, 0xa5, 0xe5, 0xf1, 0x71, 0xd8, 0x31, 0x15,
    0x04, 0xc7, 0x23, 0xc3, 0x18, 0x96, 0x05, 0x9a, 0x07, 0x12, 0x80, 0xe2, 0xeb, 0x27, 0xb2, 0x75,
    0x09, 0x83, 0x2c, 0x1a, 0x1b, 0x6e, 0x5a, 0xa0, 0x52, 0x3b, 0xd6, 0xb3, 0x29, 0xe3, 0x2f, 0x84,
    0x53, 0xd1, 0x00, 0xed, 0x20, 0xfc, 0xb1, 0x5b, 0x6a, 0xcb, 0xbe, 0x39, 0x4a, 0x4c, 0x58, 0xcf,
    0xd0, 0xef, 0xaa, 0xfb, 0x43, 0x4d, 0x33, 0x85, 0x45, 0xf9, 0x02, 0x7f, 0x50, 0x3c, 0x9f, 0xa8,
    0x51, 0xa3, 0x40, 0x8f, 0x92, 0x9d, 0x38, 0xf5, 0xbc, 0xb6, 0xda, 0x21, 0x10, 0xff, 0xf3, 0xd2,
    0xcd, 0x0c, 0x13, 0xec, 0x5f, 0x97, 0x44, 0x17, 0xc4, 0xa7, 0x7e, 0x3d, 0x64, 0x5d, 0x19, 0x73,
    0x60, 0x81, 0x4f, 0xdc, 0x22, 0x2a, 0x90, 0x88, 0x46, 0xee, 0xb8, 0x14, 0xde, 0x5e, 0x0b, 0xdb,
    0xe0, 0x32, 0x3a, 0x0a, 0x49, 0x06, 0x24, 0x5c, 0xc2, 0xd3, 0xac, 0x62, 0x91, 0x95, 0xe4, 0x79,
    0xe7, 0xc8, 0x37, 0x6d, 0x8d, 0xd5, 0x4e, 0xa9, 0x6c, 0x56, 0xf4, 0xea, 0x65, 0x7a, 0xae, 0x08,
    0xba, 0x78, 0x25, 0x2e, 0x1c, 0xa6, 0xb4, 0xc6, 0xe8, 0xdd, 0x74, 0x1f, 0x4b, 0xbd, 0x8b, 0x8a,
    0x70, 0x3e, 0xb5, 0x66, 0x48, 0x03, 0xf6, 0x0e, 0x61, 0x35, 0x57, 0xb9, 0x86, 0xc1, 0x1d, 0x9e,
    0xe1, 0xf8, 0x98, 0x11, 0x69, 0xd9, 0x8e, 0x94, 0x9b, 0x1e, 0x87, 0xe9, 0xce, 0x55, 0x28, 0xdf,
    0x8c, 0xa1, 0x89, 0x0d, 0xbf, 0xe6, 0x42, 0x68, 0x41, 0x99, 0x2d, 0x0f, 0xb0, 0x54, 0xbb, 0x16]"

definition rsbox :: bytes where
  "rsbox =
   [0x52, 0x09, 0x6a, 0xd5, 0x30, 0x36, 0xa5, 0x38, 0xbf, 0x40, 0xa3, 0x9e, 0x81, 0xf3, 0xd7, 0xfb,
    0x7c, 0xe3, 0x39, 0x82, 0x9b, 0x2f, 0xff, 0x87, 0x34, 0x8e, 0x43, 0x44, 0xc4, 0xde, 0xe9, 0xcb,
    0x54, 0x7b, 0x94, 0x32, 0xa6, 0xc2, 0x23, 0x3d, 0xee, 0x4c, 0x95, 0x0b, 0x42, 0xfa, 0xc3, 0x4e,
    0x08, 0x2e, 0xa1, 0x66, 0x28, 0xd9, 0x24, 0xb2, 0x76, 0x5b, 0xa2, 0x49, 0x6d, 0x8b, 0xd1, 0x25,
    0x72, 0xf8, 0xf6, 0x64, 0x86, 0x68, 0x98, 0x16, 0xd4, 0xa4, 0x5c, 0xcc, 0x5d, 0x65, 0xb6, 0x92,
    0x6c, 0x70, 0x48, 0x50, 0xfd, 0xed, 0xb9, 0xda, 0x5e, 0x15, 0x46, 0x57, 0xa7, 0x8d, 0x9d, 0x84,
    0x90, 0xd8, 0xab, 0x00, 0x8c, 0xbc, 0xd3, 0x0a, 0xf7, 0xe4, 0x58, 0x05, 0xb8, 0xb3, 0x45, 0x06,
    0xd0, 0x2c, 0x1e, 0x8f, 0xca, 0x3f, 0x0f, 0x02, 0xc1, 0xaf, 0xbd, 0x03, 0x01, 0x13, 0x8a, 0x6b,
    0x3a, 0x91, 0x11, 0x41, 0x4f, 0x67, 0xdc, 0xea, 0x97, 0xf2, 0xcf, 0xce, 0xf0, 0xb4, 0xe6, 0x73,
    0x96, 0xac, 0x74, 0x22, 0xe7, 0xad, 0x35, 0x85, 0xe2, 0xf9, 0x37, 0xe8, 0x1c, 0x75, 0xdf, 0x6e,
    0x47, 0xf1, 0x1a, 0x71, 0x1d, 0x29, 0xc5, 0x89, 0x6f, 0xb7, 0x62, 0x0e, 0xaa, 0x18, 0xbe, 0x1b,
    0xfc, 0x56, 0x3e, 0x4b, 0xc6, 0xd2, 0x79, 0x20, 0x9a, 0xdb, 0xc0, 0xfe, 0x78, 0xcd, 0x5a, 0xf4,
    0x1f, 0xdd, 0xa8, 0x33, 0x88, 0x07, 0xc7, 0x31, 0xb1, 0x12, 0x10, 0x59, 0x27, 0x80, 0xec, 0x5f,
    0x60, 0x51, 0x7f, 0xa9, 0x19, 0xb5, 0x4a, 0x0d, 0x2d, 0xe5, 0x7a, 0x9f, 0x93, 0xc9, 0x9c, 0xef,
    0xa0, 0xe0, 0x3b, 0x4d, 0xae, 0x2a, 0xf5, 0xb0, 0xc8, 0xeb, 0xbb, 0x3c, 0x83, 0x53, 0x99, 0x61,
    0x17, 0x2b, 0x04, 0x7e, 0xba, 0x77, 0xd6, 0x26, 0xe1, 0x69, 0x14, 0x63, 0x55, 0x21, 0x0c, 0x7d]"

definition Rcon :: bytes where
  "Rcon =
   [0x8d, 0x01, 0x02, 0x04, 0x08, 0x10, 0x20, 0x40, 0x80, 0x1b, 0x36, 0x6c, 0xd8, 0xab, 0x4d, 0x9a,
    0x2f, 0x5e, 0xbc, 0x63, 0xc6, 0x97, 0x35, 0x6a, 0xd4, 0xb3, 0x7d, 0xfa, 0xef, 0xc5, 0x91, 0x39,
    0x72, 0xe4, 0xd3, 0xbd, 0x61, 0xc2, 0x9f, 0x25, 0x4a, 0x94, 0x33, 0x66, 0xcc, 0x83, 0x1d, 0x3a,
    0x74, 0xe8, 0xcb, 0x8d, 0x01, 0x02, 0x04, 0x08, 0x10, 0x20, 0x40, 0x80, 0x1b, 0x36, 0x6c, 0xd8,
    0xab, 0x4d, 0x9a, 0x2f, 0x5e, 0xbc, 0x63, 0xc6, 0x97, 0x35, 0x6a, 0xd4, 0xb3, 0x7d, 0xfa, 0xef,
    0xc5, 0x91, 0x39, 0x72, 0xe4, 0xd3, 0xbd, 0x61, 0xc2, 0x9f, 0x25, 0x4a, 0x94, 0x33, 0x66, 0xcc,
    0x83, 0x1d, 0x3a, 0x74, 0xe8, 0xcb, 0x8d, 0x01, 0x02, 0x04, 0x08, 0x10, 0x20, 0x40, 0x80, 0x1b,
    0x36, 0x6c, 0xd8, 0xab, 0x4d, 0x9a, 0x2f, 0x5e, 0xbc, 0x63, 0xc6, 0x97, 0x35, 0x6a, 0xd4, 0xb3,
    0x7d, 0xfa, 0xef, 0xc5, 0x91, 0x39, 0x72, 0xe4, 0xd3, 0xbd, 0x61, 0xc2, 0x9f, 0x25, 0x4a, 0x94,
    0x33, 0x66, 0xcc, 0x83, 0x1d, 0x3a, 0x74, 0xe8, 0xcb, 0x8d, 0x01, 0x02, 0x04, 0x08, 0x10, 0x20,
    0x40, 0x80, 0x1b, 0x36, 0x6c, 0xd8, 0xab, 0x4d, 0x9a, 0x2f, 0x5e, 0xbc, 0x63, 0xc6, 0x97, 0x35,
    0x6a, 0xd4, 0xb3, 0x7d, 0xfa, 0xef, 0xc5, 0x91, 0x39, 0x72, 0xe4, 0xd3, 0xbd, 0x61, 0xc2, 0x9f,
    0x25, 0x4a, 0x94, 0x33, 0x66, 0xcc, 0x83, 0x1d, 0x3a, 0x74, 0xe8, 0xcb, 0x8d, 0x01, 0x02, 0x04,
    0x08, 0x10, 0x20, 0x40, 0x80, 0x1b, 0x36, 0x6c, 0xd8, 0xab, 0x4d, 0x9a, 0x2f, 0x5e, 0xbc, 0x63,
    0xc6, 0x97, 0x35, 0x6a, 0xd4, 0xb3, 0x7d, 0xfa, 0xef, 0xc5, 0x91, 0x39, 0x72, 0xe4, 0xd3, 0xbd,
    0x61, 0xc2, 0x9f, 0x25, 0x4a, 0x94, 0x33, 0x66, 0xcc, 0x83, 0x1d, 0x3a, 0x74, 0xe8, 0xcb]"

definition getSBoxValue :: "u8 \<Rightarrow> u8" where
  "getSBoxValue num = sbox ! unat num"

definition getSBoxInvert :: "u8 \<Rightarrow> u8" where
  "getSBoxInvert num = rsbox ! unat num"

section \<open>Key expansion\<close>

abbreviation (input) Nr :: nat where "Nr \<equiv> 10"

text \<open>The words 4 to 43: \<open>n\<close> is the number of words left, \<open>44 - i\<close>.\<close>

definition key_temp :: "bytes \<Rightarrow> nat \<Rightarrow> bytes" where
  "key_temp rk i =
     (let tempa = sub_bytes rk ((i - 1) * 4) 4
      in if i mod 4 = 0 then
           let k = tempa ! 0;
               tempa = tempa[0 := tempa ! 1];
               tempa = tempa[1 := tempa ! 2];
               tempa = tempa[2 := tempa ! 3];
               tempa = tempa[3 := k];
               tempa = map getSBoxValue tempa
           in tempa[0 := (tempa ! 0) XOR (Rcon ! (i div 4))]
         else tempa)"

fun KeyExpansion_loop :: "nat \<Rightarrow> nat \<Rightarrow> bytes \<Rightarrow> bytes" where
  "KeyExpansion_loop i 0 rk = rk"
| "KeyExpansion_loop i (Suc n) rk =
     (let tempa = key_temp rk i;
          rk = rk[i * 4 + 0 := rk ! ((i - 4) * 4 + 0) XOR tempa ! 0];
          rk = rk[i * 4 + 1 := rk ! ((i - 4) * 4 + 1) XOR tempa ! 1];
          rk = rk[i * 4 + 2 := rk ! ((i - 4) * 4 + 2) XOR tempa ! 2];
          rk = rk[i * 4 + 3 := rk ! ((i - 4) * 4 + 3) XOR tempa ! 3]
      in KeyExpansion_loop (i + 1) n rk)"

definition KeyExpansion :: "bytes \<Rightarrow> bytes \<Rightarrow> bytes" where
  "KeyExpansion key rk = KeyExpansion_loop 4 40 (put_bytes rk 0 (take 16 key))"

section \<open>Rounds\<close>

definition AddRoundKey :: "bytes \<Rightarrow> nat \<Rightarrow> bytes \<Rightarrow> bytes" where
  "AddRoundKey rk r s = map2 (XOR) s (sub_bytes rk (r * 16) 16)"

definition SubBytes :: "bytes \<Rightarrow> bytes" where
  "SubBytes s = map getSBoxValue s"

definition InvSubBytes :: "bytes \<Rightarrow> bytes" where
  "InvSubBytes s = map getSBoxInvert s"

definition ShiftRows :: "bytes \<Rightarrow> bytes" where
  "ShiftRows s =
     (let temp = s ! 1;
          s = s[1 := s ! 5]; s = s[5 := s ! 9]; s = s[9 := s ! 13]; s = s[13 := temp];
          temp = s ! 2; s = s[2 := s ! 10]; s = s[10 := temp];
          temp = s ! 6; s = s[6 := s ! 14]; s = s[14 := temp];
          temp = s ! 3;
          s = s[3 := s ! 15]; s = s[15 := s ! 11]; s = s[11 := s ! 7]; s = s[7 := temp]
      in s)"

definition InvShiftRows :: "bytes \<Rightarrow> bytes" where
  "InvShiftRows s =
     (let temp = s ! 13;
          s = s[13 := s ! 9]; s = s[9 := s ! 5]; s = s[5 := s ! 1]; s = s[1 := temp];
          temp = s ! 2; s = s[2 := s ! 10]; s = s[10 := temp];
          temp = s ! 6; s = s[6 := s ! 14]; s = s[14 := temp];
          temp = s ! 3;
          s = s[3 := s ! 7]; s = s[7 := s ! 11]; s = s[11 := s ! 15]; s = s[15 := temp]
      in s)"

definition xtime :: "u8 \<Rightarrow> u8" where
  "xtime x = push_bit 1 x XOR ((drop_bit 7 x AND 1) * 0x1b)"

definition Multiply :: "u8 \<Rightarrow> u8 \<Rightarrow> u8" where
  "Multiply x y =
     ((y AND 1) * x) XOR
     ((drop_bit 1 y AND 1) * xtime x) XOR
     ((drop_bit 2 y AND 1) * xtime (xtime x)) XOR
     ((drop_bit 3 y AND 1) * xtime (xtime (xtime x))) XOR
     ((drop_bit 4 y AND 1) * xtime (xtime (xtime (xtime x))))"

text \<open>One turn of the loops of \<open>MixColumns\<close> and \<open>InvMixColumns\<close>.\<close>

definition mix_column :: "nat \<Rightarrow> bytes \<Rightarrow> bytes" where
  "mix_column i s =
     (let t = s ! (4 * i);
          Tmp = s ! (4 * i) XOR s ! (4 * i + 1) XOR s ! (4 * i + 2) XOR s ! (4 * i + 3);
          Tm = xtime (s ! (4 * i) XOR s ! (4 * i + 1));
          s = s[4 * i := s ! (4 * i) XOR (Tm XOR Tmp)];
          Tm = xtime (s ! (4 * i + 1) XOR s ! (4 * i + 2));
          s = s[4 * i + 1 := s ! (4 * i + 1) XOR (Tm XOR Tmp)];
          Tm = xtime (s ! (4 * i + 2) XOR s ! (4 * i + 3));
          s = s[4 * i + 2 := s ! (4 * i + 2) XOR (Tm XOR Tmp)];
          Tm = xtime (s ! (4 * i + 3) XOR t)
      in s[4 * i + 3 := s ! (4 * i + 3) XOR (Tm XOR Tmp)])"

definition MixColumns :: "bytes \<Rightarrow> bytes" where
  "MixColumns s = mix_column 3 (mix_column 2 (mix_column 1 (mix_column 0 s)))"

definition inv_mix_column :: "nat \<Rightarrow> bytes \<Rightarrow> bytes" where
  "inv_mix_column i s =
     (let a = s ! (4 * i); b = s ! (4 * i + 1); c = s ! (4 * i + 2); d = s ! (4 * i + 3);
          s = s[4 * i := Multiply a 0x0e XOR Multiply b 0x0b XOR Multiply c 0x0d XOR Multiply d 0x09];
          s = s[4 * i + 1 := Multiply a 0x09 XOR Multiply b 0x0e XOR Multiply c 0x0b XOR Multiply d 0x0d];
          s = s[4 * i + 2 := Multiply a 0x0d XOR Multiply b 0x09 XOR Multiply c 0x0e XOR Multiply d 0x0b]
      in s[4 * i + 3 := Multiply a 0x0b XOR Multiply b 0x0d XOR Multiply c 0x09 XOR Multiply d 0x0e])"

definition InvMixColumns :: "bytes \<Rightarrow> bytes" where
  "InvMixColumns s = inv_mix_column 3 (inv_mix_column 2 (inv_mix_column 1 (inv_mix_column 0 s)))"

text \<open>The loops over the rounds: \<open>Cipher\<close> counts up to \<open>Nr - 1\<close>, \<open>InvCipher\<close> down to 1.\<close>

fun cipher_rounds :: "bytes \<Rightarrow> nat \<Rightarrow> nat \<Rightarrow> bytes \<Rightarrow> bytes" where
  "cipher_rounds rk r 0 s = s"
| "cipher_rounds rk r (Suc n) s =
     cipher_rounds rk (r + 1) n (AddRoundKey rk r (MixColumns (ShiftRows (SubBytes s))))"

definition Cipher :: "bytes \<Rightarrow> bytes \<Rightarrow> bytes" where
  "Cipher rk s =
     (let s = AddRoundKey rk 0 s;
          s = cipher_rounds rk 1 (Nr - 1) s;
          s = SubBytes s;
          s = ShiftRows s
      in AddRoundKey rk Nr s)"

fun inv_cipher_rounds :: "bytes \<Rightarrow> nat \<Rightarrow> bytes \<Rightarrow> bytes" where
  "inv_cipher_rounds rk 0 s = s"
| "inv_cipher_rounds rk (Suc r) s =
     inv_cipher_rounds rk r (InvMixColumns (AddRoundKey rk (Suc r) (InvSubBytes (InvShiftRows s))))"

definition InvCipher :: "bytes \<Rightarrow> bytes \<Rightarrow> bytes" where
  "InvCipher rk s =
     (let s = AddRoundKey rk Nr s;
          s = inv_cipher_rounds rk (Nr - 1) s;
          s = InvShiftRows s;
          s = InvSubBytes s
      in AddRoundKey rk 0 s)"

section \<open>Each step has its inverse\<close>

lemma sbox_inverse_table: "map (\<lambda>b. rsbox ! unat b) sbox = map of_nat [0..<256]"
  unfolding sbox_def rsbox_def by (simp add: upt_conv_Cons)

lemma bit_xtime: "bit (xtime x) n \<longleftrightarrow> n < 8 \<and> (0 < n \<and> bit x (n - 1)) \<noteq> (bit x 7 \<and> n \<in> {0, 1, 3, 4})"
proof -
  have seven: "(drop_bit 7 x AND 1) * 0x1b = (if bit x 7 then 0x1b else 0)"
    by (simp add: and_one_eq bit_iff_odd_drop_bit mod_2_eq_odd)
  show ?thesis
    unfolding xtime_def seven bit_xor_iff bit_push_bit_iff
    by (cases "n < 8") (auto simp: eval_nat_numeral less_Suc_eq bit_Suc dest: bit_imp_le_length)
qed

lemma xtime_xor: "xtime (x XOR y) = xtime x XOR xtime y"
  by (rule bit_word_eqI) (auto simp: bit_xtime bit_xor_iff)

lemma list16: "length s = 16 \<Longrightarrow> \<exists>a b c d e f g h i j k l m n p q. s = [a,b,c,d,e,f,g,h,i,j,k,l,m,n,p,q]"
  by (auto simp: eval_nat_numeral length_Suc_conv)

lemma InvShiftRows_ShiftRows: "length s = 16 \<Longrightarrow> InvShiftRows (ShiftRows s) = s"
  by (drule list16) (auto simp: InvShiftRows_def ShiftRows_def Let_def)

lemma Multiply_const:
  "Multiply x 0x0e = xtime x XOR xtime (xtime x) XOR xtime (xtime (xtime x))"
  "Multiply x 0x0b = x XOR xtime x XOR xtime (xtime (xtime x))"
  "Multiply x 0x0d = x XOR xtime (xtime x) XOR xtime (xtime (xtime x))"
  "Multiply x 0x09 = x XOR xtime (xtime (xtime x))"
  by (simp_all add: Multiply_def)

lemma xor_cancel: "a XOR (a XOR b) = (b :: u8)"
  by (simp flip: xor.assoc)

lemmas xor_ac = xor.assoc xor.commute xor.left_commute xor_cancel

text \<open>The matrices of the two column steps are inverse to each other.\<close>

lemma column_inverse:
  fixes a b c d :: u8
  defines "T \<equiv> a XOR b XOR c XOR d"
  defines "a' \<equiv> a XOR (xtime (a XOR b) XOR T)" and "b' \<equiv> b XOR (xtime (b XOR c) XOR T)"
    and "c' \<equiv> c XOR (xtime (c XOR d) XOR T)" and "d' \<equiv> d XOR (xtime (d XOR a) XOR T)"
  shows "Multiply a' 0x0e XOR Multiply b' 0x0b XOR Multiply c' 0x0d XOR Multiply d' 0x09 = a"
    and "Multiply a' 0x09 XOR Multiply b' 0x0e XOR Multiply c' 0x0b XOR Multiply d' 0x0d = b"
    and "Multiply a' 0x0d XOR Multiply b' 0x09 XOR Multiply c' 0x0e XOR Multiply d' 0x0b = c"
    and "Multiply a' 0x0b XOR Multiply b' 0x0d XOR Multiply c' 0x09 XOR Multiply d' 0x0e = d"
  by (simp_all only: a'_def b'_def c'_def d'_def T_def Multiply_const xtime_xor xor_ac
      xor_self_eq xor.right_neutral xor.left_neutral)

definition mixed :: "u8 \<Rightarrow> u8 \<Rightarrow> u8 \<Rightarrow> u8" where
  "mixed x y T = x XOR (xtime (x XOR y) XOR T)"

definition mixed_column :: "u8 \<Rightarrow> u8 \<Rightarrow> u8 \<Rightarrow> u8 \<Rightarrow> bytes" where
  "mixed_column a b c d =
     [mixed a b (a XOR b XOR c XOR d), mixed b c (a XOR b XOR c XOR d),
      mixed c d (a XOR b XOR c XOR d), mixed d a (a XOR b XOR c XOR d)]"

lemma MixColumns_list:
  "MixColumns [a, b, c, d, e, f, g, h, i, j, k, l, m, n, p, q] =
   mixed_column a b c d @ mixed_column e f g h @ mixed_column i j k l @ mixed_column m n p q"
  by (simp add: MixColumns_def mix_column_def Let_def mixed_column_def mixed_def)

lemma InvMixColumns_list:
  "InvMixColumns (x @ y) = inv_mix_column 3 (inv_mix_column 2 (inv_mix_column 1 (inv_mix_column 0 (x @ y))))"
  by (simp add: InvMixColumns_def)

lemma inv_mix_column_list:
  "inv_mix_column 0 (mixed_column a b c d @ s) = a # b # c # d # s"
  "length x = 4 \<Longrightarrow> inv_mix_column 1 (x @ mixed_column a b c d @ s) = x @ a # b # c # d # s"
  "length x = 8 \<Longrightarrow> inv_mix_column 2 (x @ mixed_column a b c d @ s) = x @ a # b # c # d # s"
  "length x = 12 \<Longrightarrow> inv_mix_column 3 (x @ mixed_column a b c d @ s) = x @ a # b # c # d # s"
  using column_inverse [of a b c d]
  by (simp_all add: inv_mix_column_def Let_def mixed_column_def mixed_def list_update_append nth_append)

lemma InvMixColumns_MixColumns: "length s = 16 \<Longrightarrow> InvMixColumns (MixColumns s) = s"
proof -
  assume "length s = 16"
  from list16 [OF this] obtain a b c d e f g h i j k l m n p q
    where s: "s = [a, b, c, d, e, f, g, h, i, j, k, l, m, n, p, q]" by (elim exE) (rule that)
  show ?thesis
    unfolding s MixColumns_list InvMixColumns_def
    using inv_mix_column_list(2) [of "[a, b, c, d]"] inv_mix_column_list(3) [of "[a, b, c, d, e, f, g, h]"]
      inv_mix_column_list(4) [of "[a, b, c, d, e, f, g, h, i, j, k, l]" _ _ _ _ "[]"]
    by (simp add: inv_mix_column_list(1))
qed

lemma length_mix_column [simp]: "length (mix_column i s) = length s"
  by (simp add: mix_column_def Let_def)

lemma sbox_inverse: "getSBoxInvert (getSBoxValue b) = b"
proof -
  have l: "length sbox = 256" by (simp add: sbox_def)
  have "map (\<lambda>b. rsbox ! unat b) sbox ! unat b = map of_nat [0..<256] ! unat b"
    by (simp only: sbox_inverse_table)
  then show ?thesis by (simp add: l getSBoxInvert_def getSBoxValue_def)
qed

lemma InvSubBytes_SubBytes: "InvSubBytes (SubBytes s) = s"
  by (simp add: InvSubBytes_def SubBytes_def sbox_inverse comp_def)

lemma length_steps [simp]:
  "length (SubBytes s) = length s" "length (InvSubBytes s) = length s"
  "length (ShiftRows s) = length s" "length (InvShiftRows s) = length s"
  "length (MixColumns s) = length s"
  by (simp_all add: SubBytes_def InvSubBytes_def ShiftRows_def InvShiftRows_def Let_def MixColumns_def)

lemma length_AddRoundKey [simp]:
  "length rk = 176 \<Longrightarrow> r \<le> 10 \<Longrightarrow> length s = 16 \<Longrightarrow> length (AddRoundKey rk r s) = 16"
  by (simp add: AddRoundKey_def)

lemma AddRoundKey_twice:
  assumes "length rk = 176" and "r \<le> 10" and "length s = 16"
  shows "AddRoundKey rk r (AddRoundKey rk r s) = s"
proof -
  have "length (sub_bytes rk (r * 16) 16) = length s" using assms by simp
  then have "map2 (XOR) (map2 (XOR) s (sub_bytes rk (r * 16) 16)) (sub_bytes rk (r * 16) 16) = s"
    by (induction rule: list_induct2) (simp_all add: xor.assoc)
  then show ?thesis by (simp add: AddRoundKey_def)
qed

lemma cipher_rounds_inverse:
  assumes rk: "length rk = 176"
  shows "r + n \<le> 10 \<Longrightarrow> length s = 16 \<Longrightarrow>
    length (cipher_rounds rk r n s) = 16"
  by (induction n arbitrary: r s) (simp_all add: rk)

text \<open>The last round of a run is the first the inverse undoes.\<close>

lemma cipher_rounds_snoc:
  "cipher_rounds rk r (Suc n) s =
   AddRoundKey rk (r + n) (MixColumns (ShiftRows (SubBytes (cipher_rounds rk r n s))))"
  by (induction n arbitrary: r s) simp_all

lemma inv_cipher_rounds_cipher_rounds:
  assumes rk: "length rk = 176"
  shows "n \<le> 9 \<Longrightarrow> length s = 16 \<Longrightarrow>
    InvSubBytes (InvShiftRows (inv_cipher_rounds rk n (ShiftRows (SubBytes (cipher_rounds rk 1 n s))))) = s"
proof (induction n)
  case 0
  then show ?case by (simp add: InvShiftRows_ShiftRows InvSubBytes_SubBytes)
next
  case (Suc n)
  let ?t = "cipher_rounds rk 1 n s"
  have t: "length ?t = 16" using Suc.prems by (simp add: cipher_rounds_inverse [OF rk])
  have "inv_cipher_rounds rk (Suc n) (ShiftRows (SubBytes (cipher_rounds rk 1 (Suc n) s))) =
      inv_cipher_rounds rk n (ShiftRows (SubBytes ?t))"
    using Suc.prems t
    by (simp add: cipher_rounds_snoc [of rk "Suc 0"] InvShiftRows_ShiftRows InvSubBytes_SubBytes
        AddRoundKey_twice rk InvMixColumns_MixColumns del: cipher_rounds.simps)
  with Suc show ?case by simp
qed

lemma InvCipher_Cipher:
  assumes "length rk = 176" and "length s = 16"
  shows "InvCipher rk (Cipher rk s) = s"
proof -
  let ?s = "AddRoundKey rk 0 s"
  have s: "length ?s = 16" using assms by simp
  have "InvSubBytes (InvShiftRows (inv_cipher_rounds rk 9 (ShiftRows (SubBytes (cipher_rounds rk 1 9 ?s))))) = ?s"
    using assms s by (intro inv_cipher_rounds_cipher_rounds) auto
  moreover have "length (ShiftRows (SubBytes (cipher_rounds rk 1 9 ?s))) = 16"
    using assms s by (simp add: cipher_rounds_inverse)
  ultimately show ?thesis
    using assms by (simp add: Cipher_def InvCipher_def Let_def AddRoundKey_twice)
qed

lemma length_Cipher: "length rk = 176 \<Longrightarrow> length s = 16 \<Longrightarrow> length (Cipher rk s) = 16"
  by (simp add: Cipher_def Let_def cipher_rounds_inverse)

section \<open>Block chaining\<close>

record aes =
  RoundKey :: bytes
  Iv :: nat

fun copy_loop :: "bytes \<Rightarrow> nat \<Rightarrow> nat \<Rightarrow> nat \<Rightarrow> nat \<Rightarrow> bytes" where
  "copy_loop mem out inp i 0 = mem"
| "copy_loop mem out inp i (Suc n) = copy_loop (mem[out + i := mem ! (inp + i)]) out inp (i + 1) n"

definition BlockCopy :: "bytes \<Rightarrow> nat \<Rightarrow> nat \<Rightarrow> bytes" where
  "BlockCopy mem out inp = copy_loop mem out inp 0 16"

fun xor_loop :: "bytes \<Rightarrow> nat \<Rightarrow> nat \<Rightarrow> nat \<Rightarrow> nat \<Rightarrow> bytes" where
  "xor_loop mem buf iv i 0 = mem"
| "xor_loop mem buf iv i (Suc n) =
     xor_loop (mem[buf + i := mem ! (buf + i) XOR mem ! (iv + i)]) buf iv (i + 1) n"

definition XorWithIv :: "bytes \<Rightarrow> nat \<Rightarrow> nat \<Rightarrow> bytes" where
  "XorWithIv mem buf iv = xor_loop mem buf iv 0 16"

text \<open>A cipher applied to the state at an address.\<close>

definition on_block :: "(bytes \<Rightarrow> bytes) \<Rightarrow> bytes \<Rightarrow> nat \<Rightarrow> bytes" where
  "on_block f mem out = put_bytes mem out (f (sub_bytes mem out 16))"

text \<open>The common start of the two functions: the copy, the key and the IV.\<close>

definition cbc_start :: "aes \<Rightarrow> bytes option \<Rightarrow> nat option \<Rightarrow> aes" where
  "cbc_start a key iv =
     (let a = (case key of None \<Rightarrow> a | Some k \<Rightarrow> a\<lparr>RoundKey := KeyExpansion k (RoundKey a)\<rparr>)
      in case iv of None \<Rightarrow> a | Some v \<Rightarrow> a\<lparr>Iv := v\<rparr>)"

text \<open>The loops, \<open>n\<close> blocks: \<open>i\<close> runs from 0 by 16 below \<open>length\<close>.\<close>

fun cbc_encrypt_loop :: "nat \<Rightarrow> aes \<Rightarrow> bytes \<Rightarrow> nat \<Rightarrow> nat \<Rightarrow> aes \<times> bytes \<times> nat \<times> nat" where
  "cbc_encrypt_loop 0 a mem out inp = (a, mem, out, inp)"
| "cbc_encrypt_loop (Suc n) a mem out inp =
     (let mem = BlockCopy mem out inp;
          mem = XorWithIv mem out (Iv a);
          mem = on_block (Cipher (RoundKey a)) mem out
      in cbc_encrypt_loop n (a\<lparr>Iv := out\<rparr>) mem (out + 16) (inp + 16))"

fun cbc_decrypt_loop :: "nat \<Rightarrow> aes \<Rightarrow> bytes \<Rightarrow> nat \<Rightarrow> nat \<Rightarrow> aes \<times> bytes \<times> nat \<times> nat" where
  "cbc_decrypt_loop 0 a mem out inp = (a, mem, out, inp)"
| "cbc_decrypt_loop (Suc n) a mem out inp =
     (let mem = BlockCopy mem out inp;
          mem = on_block (InvCipher (RoundKey a)) mem out;
          mem = XorWithIv mem out (Iv a)
      in cbc_decrypt_loop n (a\<lparr>Iv := inp\<rparr>) mem (out + 16) (inp + 16))"

definition block_count :: "nat \<Rightarrow> nat" where
  "block_count len = (len + 15) div 16"

definition AES128_CBC_encrypt_buffer ::
    "aes \<Rightarrow> bytes \<Rightarrow> nat \<Rightarrow> nat \<Rightarrow> nat \<Rightarrow> bytes option \<Rightarrow> nat option \<Rightarrow> aes \<times> bytes" where
  "AES128_CBC_encrypt_buffer a mem out inp len key iv =
     (let remainders = len mod 16;
          mem = BlockCopy mem out inp;
          a = cbc_start a key iv;
          (a, mem, out, inp) = cbc_encrypt_loop (block_count len) a mem out inp
      in if remainders \<noteq> 0 then
           let mem = BlockCopy mem out inp;
               mem = put_bytes mem (out + remainders) (replicate (16 - remainders) 0)
           in (a, on_block (Cipher (RoundKey a)) mem out)
         else (a, mem))"

definition AES128_CBC_decrypt_buffer ::
    "aes \<Rightarrow> bytes \<Rightarrow> nat \<Rightarrow> nat \<Rightarrow> nat \<Rightarrow> bytes option \<Rightarrow> nat option \<Rightarrow> aes \<times> bytes" where
  "AES128_CBC_decrypt_buffer a mem out inp len key iv =
     (let remainders = len mod 16;
          mem = BlockCopy mem out inp;
          a = cbc_start a key iv;
          (a, mem, out, inp) = cbc_decrypt_loop (block_count len) a mem out inp
      in if remainders \<noteq> 0 then
           let mem = BlockCopy mem out inp;
               mem = put_bytes mem (out + remainders) (replicate (16 - remainders) 0)
           in (a, on_block (InvCipher (RoundKey a)) mem out)
         else (a, mem))"

definition AES128_ECB_encrypt :: "aes \<Rightarrow> bytes \<Rightarrow> nat \<Rightarrow> bytes \<Rightarrow> nat \<Rightarrow> aes \<times> bytes" where
  "AES128_ECB_encrypt a mem inp key out =
     (let mem = BlockCopy mem out inp;
          a = a\<lparr>RoundKey := KeyExpansion key (RoundKey a)\<rparr>
      in (a, on_block (Cipher (RoundKey a)) mem out))"

definition AES128_ECB_decrypt :: "aes \<Rightarrow> bytes \<Rightarrow> nat \<Rightarrow> bytes \<Rightarrow> nat \<Rightarrow> aes \<times> bytes" where
  "AES128_ECB_decrypt a mem inp key out =
     (let mem = BlockCopy mem out inp;
          a = a\<lparr>RoundKey := KeyExpansion key (RoundKey a)\<rparr>
      in (a, on_block (InvCipher (RoundKey a)) mem out))"

text \<open>The mode on byte strings, the specification of the loops.\<close>

fun cbc_encrypt :: "(bytes \<Rightarrow> bytes) \<Rightarrow> bytes \<Rightarrow> nat \<Rightarrow> bytes \<Rightarrow> bytes" where
  "cbc_encrypt E iv 0 p = []"
| "cbc_encrypt E iv (Suc n) p =
     (let c = E (map2 (XOR) (take 16 p) iv) in c @ cbc_encrypt E c n (drop 16 p))"

fun cbc_decrypt :: "(bytes \<Rightarrow> bytes) \<Rightarrow> bytes \<Rightarrow> nat \<Rightarrow> bytes \<Rightarrow> bytes" where
  "cbc_decrypt D iv 0 c = []"
| "cbc_decrypt D iv (Suc n) c =
     map2 (XOR) (D (take 16 c)) iv @ cbc_decrypt D (take 16 c) n (drop 16 c)"

lemma map2_xor_twice: "length (s :: bytes) = length k \<Longrightarrow> map2 (XOR) (map2 (XOR) s k) k = s"
  by (induction rule: list_induct2) (simp_all add: xor.assoc)

locale block_cipher =
  fixes E D :: "bytes \<Rightarrow> bytes"
  assumes decrypt_encrypt: "length b = 16 \<Longrightarrow> D (E b) = b"
    and length_encrypt: "length b = 16 \<Longrightarrow> length (E b) = 16"
begin

lemma encrypt_inject: "length b = 16 \<Longrightarrow> length c = 16 \<Longrightarrow> E b = E c \<longleftrightarrow> b = c"
  using decrypt_encrypt by metis

lemma length_cbc_encrypt:
  "length p = 16 * n \<Longrightarrow> length iv = 16 \<Longrightarrow> length (cbc_encrypt E iv n p) = 16 * n"
  by (induction n arbitrary: iv p) (simp_all add: Let_def length_encrypt)

lemma cbc_roundtrip:
  "length p = 16 * n \<Longrightarrow> length iv = 16 \<Longrightarrow> cbc_decrypt D iv n (cbc_encrypt E iv n p) = p"
proof (induction n arbitrary: iv p)
  case (Suc n)
  have p: "length (take 16 p) = 16" using Suc.prems by simp
  let ?c = "E (map2 (XOR) (take 16 p) iv)"
  have c: "length ?c = 16" using p Suc.prems by (simp add: length_encrypt)
  then have "cbc_decrypt D iv (Suc n) (cbc_encrypt E iv (Suc n) p) =
      map2 (XOR) (map2 (XOR) (take 16 p) iv) iv @ cbc_decrypt D ?c n (cbc_encrypt E ?c n (drop 16 p))"
    using p Suc.prems by (simp add: Let_def decrypt_encrypt)
  also have "\<dots> = take 16 p @ drop 16 p"
    using Suc c p by (simp only: map2_xor_twice) simp
  finally show ?case by simp
qed simp

end

definition round_keys :: "bytes \<Rightarrow> bytes" where
  "round_keys key = KeyExpansion key (replicate 176 0)"

lemma length_KeyExpansion_loop [simp]: "length (KeyExpansion_loop i n rk) = length rk"
  by (induction n arbitrary: i rk) (simp_all add: Let_def)

lemma length_KeyExpansion: "16 \<le> length rk \<Longrightarrow> length (KeyExpansion key rk) = length rk"
  by (simp add: KeyExpansion_def)

lemma length_round_keys [simp]: "length (round_keys key) = 176"
  by (simp add: round_keys_def length_KeyExpansion)

interpretation aes: block_cipher "Cipher (round_keys key)" "InvCipher (round_keys key)" for key
  by unfold_locales (simp_all add: InvCipher_Cipher length_Cipher)

lemma KeyExpansion_loop_cong:
  "4 \<le> i \<Longrightarrow> 4 * (i + n) \<le> length rk \<Longrightarrow> length rk' = length rk \<Longrightarrow> take (4 * i) rk = take (4 * i) rk' \<Longrightarrow>
   take (4 * (i + n)) (KeyExpansion_loop i n rk) = take (4 * (i + n)) (KeyExpansion_loop i n rk')"
proof (induction n arbitrary: i rk rk')
  case (Suc n)
  define step where "step r = r[i * 4 + 0 := r ! ((i - 4) * 4 + 0) XOR key_temp r i ! 0,
      i * 4 + 1 := r ! ((i - 4) * 4 + 1) XOR key_temp r i ! 1,
      i * 4 + 2 := r ! ((i - 4) * 4 + 2) XOR key_temp r i ! 2,
      i * 4 + 3 := r ! ((i - 4) * 4 + 3) XOR key_temp r i ! 3]" for r
  have nth: "rk ! j = rk' ! j" if "j < 4 * i" for j
    using Suc.prems(4) that by (metis nth_take)
  have temp: "key_temp rk i = key_temp rk' i"
  proof -
    have "sub_bytes rk ((i - 1) * 4) 4 = sub_bytes rk' ((i - 1) * 4) 4"
      using Suc.prems nth by (intro nth_equalityI) (auto simp: nth_sub_bytes)
    then show ?thesis by (simp add: key_temp_def)
  qed
  have loop: "KeyExpansion_loop i (Suc n) r = KeyExpansion_loop (i + 1) n (step r)"
    if "length r = length rk" for r
    using Suc.prems that by (simp add: step_def Let_def)
  have "take (4 * (i + 1)) (step rk) = take (4 * (i + 1)) (step rk')"
  proof (rule nth_equalityI)
    fix j assume "j < length (take (4 * (i + 1)) (step rk))"
    then consider "j < 4 * i" | "j = i * 4 + 0" | "j = i * 4 + 1" | "j = i * 4 + 2" | "j = i * 4 + 3"
      by fastforce
    then show "take (4 * (i + 1)) (step rk) ! j = take (4 * (i + 1)) (step rk') ! j"
      using Suc.prems nth by cases (simp_all add: step_def temp diff_mult_distrib)
  qed (simp add: step_def Suc.prems)
  then show ?case
    using Suc.IH [of "i + 1" "step rk" "step rk'"] Suc.prems
    by (simp add: loop step_def del: KeyExpansion_loop.simps)
qed simp

lemma KeyExpansion_fresh:
  assumes "length key = 16" and "length rk = 176"
  shows "KeyExpansion key rk = round_keys key"
proof -
  let ?a = "put_bytes rk 0 (take 16 key)" and ?b = "put_bytes (replicate 176 0) 0 (take 16 key)"
  have "take (4 * (4 + 40)) (KeyExpansion_loop 4 40 ?a) = take (4 * (4 + 40)) (KeyExpansion_loop 4 40 ?b)"
    by (rule KeyExpansion_loop_cong) (use assms in \<open>simp_all add: put_bytes_def\<close>)
  then show ?thesis using assms by (simp add: KeyExpansion_def round_keys_def)
qed

lemma copy_loop_same: "copy_loop mem p p i n = mem"
  by (induction n arbitrary: i) simp_all

lemma copy_loop_disjoint:
  "inp + i + n \<le> out + i \<or> out + i + n \<le> inp + i \<Longrightarrow> inp + i + n \<le> length mem \<Longrightarrow>
   out + i + n \<le> length mem \<Longrightarrow>
   copy_loop mem out inp i n = put_bytes mem (out + i) (sub_bytes mem (inp + i) n)"
proof (induction n arbitrary: i mem)
  case (Suc n)
  let ?m = "mem[out + i := mem ! (inp + i)]"
  have "copy_loop ?m out inp (i + 1) n = put_bytes ?m (out + (i + 1)) (sub_bytes ?m (inp + (i + 1)) n)"
    using Suc.prems by (intro Suc.IH) auto
  also have "sub_bytes ?m (inp + (i + 1)) n = sub_bytes mem (inp + (i + 1)) n"
    using Suc.prems by (intro sub_bytes_list_update) auto
  finally show ?case
    using Suc.prems by (simp add: put_bytes_Cons sub_bytes_Suc)
qed simp

lemma xor_loop_disjoint:
  "iv + i + n \<le> buf + i \<or> buf + i + n \<le> iv + i \<Longrightarrow> iv + i + n \<le> length mem \<Longrightarrow>
   buf + i + n \<le> length mem \<Longrightarrow>
   xor_loop mem buf iv i n =
   put_bytes mem (buf + i) (map2 (XOR) (sub_bytes mem (buf + i) n) (sub_bytes mem (iv + i) n))"
proof (induction n arbitrary: i mem)
  case (Suc n)
  let ?m = "mem[buf + i := mem ! (buf + i) XOR mem ! (iv + i)]"
  have "xor_loop ?m buf iv (i + 1) n = put_bytes ?m (buf + (i + 1))
      (map2 (XOR) (sub_bytes ?m (buf + (i + 1)) n) (sub_bytes ?m (iv + (i + 1)) n))"
    using Suc.prems by (intro Suc.IH) auto
  also have "sub_bytes ?m (iv + (i + 1)) n = sub_bytes mem (iv + (i + 1)) n"
    using Suc.prems by (intro sub_bytes_list_update) auto
  also have "sub_bytes ?m (buf + (i + 1)) n = sub_bytes mem (buf + (i + 1)) n"
    by (intro sub_bytes_list_update) auto
  finally show ?case
    using Suc.prems by (simp add: put_bytes_Cons sub_bytes_Suc)
qed simp

text \<open>Encryption in place, the IV directly in front of the text.\<close>

lemma cbc_encrypt_loop_in_place:
  assumes rk: "RoundKey a = round_keys key"
  shows "length iv = 16 \<Longrightarrow> length p = 16 * n \<Longrightarrow> Iv a = length pre \<Longrightarrow> o' = length pre + 16 \<Longrightarrow>
   cbc_encrypt_loop n a (pre @ iv @ p @ post) o' o' =
     (a\<lparr>Iv := length pre + 16 * n\<rparr>, pre @ iv @ cbc_encrypt (Cipher (round_keys key)) iv n p @ post,
      o' + 16 * n, o' + 16 * n)"
  using rk
proof (induction n arbitrary: a iv p pre o')
  case (Suc n)
  let ?m = "pre @ iv @ p @ post"
  let ?x = "map2 (XOR) (take 16 p) iv"
  let ?c = "Cipher (round_keys key) ?x"
  have p: "length (take 16 p) = 16" using Suc.prems(2) by simp
  have x: "length ?x = 16" using p Suc.prems(1) by simp
  have c: "length ?c = 16" using x by (simp add: length_Cipher)
  have sub: "sub_bytes ?m o' 16 = take 16 p" "sub_bytes ?m (length pre) 16 = iv"
    using Suc.prems by (simp_all add: sub_bytes_def)
  have "XorWithIv (BlockCopy ?m o' o') o' (Iv a) = put_bytes ?m o' ?x"
    using Suc.prems sub
    by (simp add: XorWithIv_def BlockCopy_def copy_loop_same xor_loop_disjoint)
  moreover have "sub_bytes (put_bytes ?m o' ?x) o' 16 = ?x"
    using sub_bytes_put_bytes_same [of o' ?x ?m] x Suc.prems by simp
  moreover have "put_bytes (put_bytes ?m o' ?x) o' ?c = put_bytes ?m o' ?c"
    using x c Suc.prems by (intro put_bytes_overwrite) auto
  moreover have "put_bytes ?m o' ?c = (pre @ iv) @ ?c @ drop 16 p @ post"
    using Suc.prems c by (simp add: put_bytes_def)
  ultimately have step: "on_block (Cipher (RoundKey a)) (XorWithIv (BlockCopy ?m o' o') o' (Iv a)) o' =
      (pre @ iv) @ ?c @ drop 16 p @ post"
    by (simp only: on_block_def Suc.prems(5))
  have "cbc_encrypt_loop n (a\<lparr>Iv := o'\<rparr>) ((pre @ iv) @ ?c @ drop 16 p @ post) (o' + 16) (o' + 16) =
      (a\<lparr>Iv := o', Iv := length (pre @ iv) + 16 * n\<rparr>,
       (pre @ iv) @ ?c @ cbc_encrypt (Cipher (round_keys key)) ?c n (drop 16 p) @ post,
       o' + 16 + 16 * n, o' + 16 + 16 * n)"
    using Suc.prems c by (intro Suc.IH) auto
  moreover have "cbc_encrypt_loop (Suc n) a ?m o' o' =
      cbc_encrypt_loop n (a\<lparr>Iv := o'\<rparr>) ((pre @ iv) @ ?c @ drop 16 p @ post) (o' + 16) (o' + 16)"
    by (simp only: cbc_encrypt_loop.simps Let_def step)
  ultimately show ?case
    using Suc.prems(1) by (simp add: Let_def add.assoc)
qed simp

lemma length_inv_steps [simp]: "length (InvMixColumns s) = length s"
  by (simp add: InvMixColumns_def inv_mix_column_def Let_def)

lemma length_inv_cipher_rounds:
  "length rk = 176 \<Longrightarrow> n \<le> 9 \<Longrightarrow> length s = 16 \<Longrightarrow> length (inv_cipher_rounds rk n s) = 16"
  by (induction n arbitrary: s) simp_all

lemma length_InvCipher: "length rk = 176 \<Longrightarrow> length s = 16 \<Longrightarrow> length (InvCipher rk s) = 16"
  by (simp add: InvCipher_def Let_def length_inv_cipher_rounds)

lemma cbc_decrypt_loop_disjoint:
  assumes rk: "RoundKey a = round_keys key"
  shows "out + 16 * n \<le> inp \<or> inp + 16 * n \<le> out \<Longrightarrow> Iv a + 16 \<le> out \<or> out + 16 * n \<le> Iv a \<Longrightarrow>
    out + 16 * n \<le> length mem \<Longrightarrow> inp + 16 * n \<le> length mem \<Longrightarrow> Iv a + 16 \<le> length mem \<Longrightarrow>
    fst (snd (cbc_decrypt_loop n a mem out inp)) =
    put_bytes mem out (cbc_decrypt (InvCipher (round_keys key)) (sub_bytes mem (Iv a) 16) n (sub_bytes mem inp (16 * n)))"
  using rk
proof (induction n arbitrary: a mem out inp)
  case (Suc n)
  let ?D = "InvCipher (round_keys key)"
  let ?c = "sub_bytes mem inp 16" and ?iv = "sub_bytes mem (Iv a) 16"
  let ?x = "map2 (XOR) (?D ?c) ?iv"
  have c: "length ?c = 16" "length ?iv = 16" using Suc.prems by simp_all
  then have d: "length (?D ?c) = 16" "length ?x = 16" by (simp_all add: length_InvCipher)
  have out: "out + 16 \<le> length mem" using Suc.prems(3) by simp
  have 1: "BlockCopy mem out inp = put_bytes mem out ?c"
    using Suc.prems copy_loop_disjoint [of inp 0 16 out mem] by (auto simp: BlockCopy_def)
  have "sub_bytes (put_bytes mem out ?c) out 16 = ?c"
    using sub_bytes_put_bytes_same [of out ?c mem] c out by simp
  then have 2: "on_block ?D (put_bytes mem out ?c) out = put_bytes mem out (?D ?c)"
    using c d out by (simp add: on_block_def put_bytes_overwrite)
  have "sub_bytes (put_bytes mem out (?D ?c)) out 16 = ?D ?c"
    using sub_bytes_put_bytes_same [of out "?D ?c" mem] d out by simp
  moreover have "sub_bytes (put_bytes mem out (?D ?c)) (Iv a) 16 = ?iv"
    using Suc.prems d by (intro sub_bytes_put_bytes_other) auto
  ultimately have 3: "XorWithIv (put_bytes mem out (?D ?c)) out (Iv a) = put_bytes mem out ?x"
    using Suc.prems d xor_loop_disjoint [of "Iv a" 0 16 out "put_bytes mem out (?D ?c)"]
    by (auto simp: XorWithIv_def put_bytes_overwrite)
  let ?m = "put_bytes mem out ?x"
  have "fst (snd (cbc_decrypt_loop n (a\<lparr>Iv := inp\<rparr>) ?m (out + 16) (inp + 16))) =
      put_bytes ?m (out + 16) (cbc_decrypt ?D (sub_bytes ?m (Iv (a\<lparr>Iv := inp\<rparr>)) 16) n
        (sub_bytes ?m (inp + 16) (16 * n)))"
    using Suc.prems d by (intro Suc.IH) auto
  also have "sub_bytes ?m (Iv (a\<lparr>Iv := inp\<rparr>)) 16 = ?c"
    using Suc.prems d sub_bytes_put_bytes_other [of out ?x mem inp 16] by auto
  also have "sub_bytes ?m (inp + 16) (16 * n) = sub_bytes mem (inp + 16) (16 * n)"
    using Suc.prems d by (intro sub_bytes_put_bytes_other) auto
  also have "put_bytes ?m (out + 16) (cbc_decrypt ?D ?c n (sub_bytes mem (inp + 16) (16 * n))) =
      put_bytes mem out (?x @ cbc_decrypt ?D ?c n (sub_bytes mem (inp + 16) (16 * n)))"
    using d out by (intro put_bytes_append) auto
  also have "?x @ cbc_decrypt ?D ?c n (sub_bytes mem (inp + 16) (16 * n)) =
      cbc_decrypt ?D ?iv (Suc n) (sub_bytes mem inp (16 * Suc n))"
    by (simp add: sub_bytes_def drop_take add.commute)
  finally show ?case
    by (simp only: cbc_decrypt_loop.simps Let_def 1 Suc.prems(6) 2 3)
qed simp

definition cbc_E :: "bytes \<Rightarrow> bytes \<Rightarrow> bytes" where
  "cbc_E key = Cipher (round_keys key)"

definition cbc_D :: "bytes \<Rightarrow> bytes \<Rightarrow> bytes" where
  "cbc_D key = InvCipher (round_keys key)"

lemma block_count_16 [simp]: "block_count (16 * n) = n"
  by (simp add: block_count_def)

lemma AES128_CBC_encrypt_in_place:
  assumes "length key = 16" and "length (RoundKey a) = 176" and "length iv = 16" and "length p = 16 * n"
  shows "snd (AES128_CBC_encrypt_buffer a (pre @ iv @ p @ post) (length pre + 16) (length pre + 16) (16 * n)
           (Some key) (Some (length pre))) = pre @ iv @ cbc_encrypt (cbc_E key) iv n p @ post"
    and "length (RoundKey (fst (AES128_CBC_encrypt_buffer a (pre @ iv @ p @ post) (length pre + 16)
           (length pre + 16) (16 * n) (Some key) (Some (length pre))))) = 176"
proof -
  let ?a = "cbc_start a (Some key) (Some (length pre))"
  have a: "RoundKey ?a = round_keys key" "Iv ?a = length pre"
    using assms by (simp_all add: cbc_start_def KeyExpansion_fresh)
  note loop = cbc_encrypt_loop_in_place [OF a(1) assms(3,4) a(2) refl, of post]
  show "snd (AES128_CBC_encrypt_buffer a (pre @ iv @ p @ post) (length pre + 16) (length pre + 16) (16 * n)
           (Some key) (Some (length pre))) = pre @ iv @ cbc_encrypt (cbc_E key) iv n p @ post"
    by (simp add: AES128_CBC_encrypt_buffer_def BlockCopy_def copy_loop_same loop cbc_E_def Let_def)
  show "length (RoundKey (fst (AES128_CBC_encrypt_buffer a (pre @ iv @ p @ post) (length pre + 16)
           (length pre + 16) (16 * n) (Some key) (Some (length pre))))) = 176"
    by (simp add: AES128_CBC_encrypt_buffer_def BlockCopy_def copy_loop_same loop Let_def a)
qed

lemma AES128_CBC_decrypt_disjoint:
  assumes "length key = 16" and "length (RoundKey a) = 176" and "0 < n"
    and "out + 16 * n \<le> inp \<or> inp + 16 * n \<le> out" and "iv + 16 \<le> out \<or> out + 16 * n \<le> iv"
    and "out + 16 * n \<le> length mem" and "inp + 16 * n \<le> length mem" and "iv + 16 \<le> length mem"
  shows "snd (AES128_CBC_decrypt_buffer a mem out inp (16 * n) (Some key) (Some iv)) =
    put_bytes mem out (cbc_decrypt (cbc_D key) (sub_bytes mem iv 16) n (sub_bytes mem inp (16 * n)))"
proof -
  let ?a = "cbc_start a (Some key) (Some iv)"
  let ?c = "sub_bytes mem inp 16"
  let ?m = "put_bytes mem out ?c"
  have a: "RoundKey ?a = round_keys key" "Iv ?a = iv"
    using assms by (simp_all add: cbc_start_def KeyExpansion_fresh)
  have c: "length ?c = 16" "16 \<le> 16 * n" using assms by auto
  have len: "length (cbc_decrypt (cbc_D key) u m v) = 16 * m" if "length u = 16" "length v = 16 * m" for u m v
    using that by (induction m arbitrary: u v) (simp_all add: cbc_D_def length_InvCipher)
  have copy: "BlockCopy mem out inp = ?m"
    using assms copy_loop_disjoint [of inp 0 16 out mem] c by (auto simp: BlockCopy_def)
  have "fst (snd (cbc_decrypt_loop n ?a ?m out inp)) =
      put_bytes ?m out (cbc_decrypt (cbc_D key) (sub_bytes ?m iv 16) n (sub_bytes ?m inp (16 * n)))"
    unfolding cbc_D_def using cbc_decrypt_loop_disjoint [OF a(1), of out n inp ?m] assms c a by auto
  also have "sub_bytes ?m iv 16 = sub_bytes mem iv 16"
    using assms c by (intro sub_bytes_put_bytes_other) auto
  also have "sub_bytes ?m inp (16 * n) = sub_bytes mem inp (16 * n)"
    using assms c by (intro sub_bytes_put_bytes_other) auto
  finally have "fst (snd (cbc_decrypt_loop n ?a ?m out inp)) =
      put_bytes mem out (cbc_decrypt (cbc_D key) (sub_bytes mem iv 16) n (sub_bytes mem inp (16 * n)))"
    using assms c by (simp add: put_bytes_overwrite len)
  then show ?thesis
    by (cases "cbc_decrypt_loop n ?a ?m out inp")
      (simp add: AES128_CBC_decrypt_buffer_def copy Let_def)
qed

lemma cbc_decrypt_loop_key: "RoundKey (fst (cbc_decrypt_loop n a mem out inp)) = RoundKey a"
  by (induction n arbitrary: a mem out inp) (simp_all add: Let_def)

lemma AES128_CBC_decrypt_key:
  assumes "length (RoundKey a) = 176"
  shows "length (RoundKey (fst (AES128_CBC_decrypt_buffer a mem out inp l (Some key) (Some iv)))) = 176"
proof -
  let ?a = "cbc_start a (Some key) (Some iv)"
  have "RoundKey (fst (AES128_CBC_decrypt_buffer a mem out inp l (Some key) (Some iv))) = RoundKey ?a"
    using cbc_decrypt_loop_key [of "block_count l" ?a "BlockCopy mem out inp" out inp]
    by (auto simp: AES128_CBC_decrypt_buffer_def Let_def split: prod.split)
  then show ?thesis using assms by (simp add: cbc_start_def length_KeyExpansion)
qed

text \<open>
  C37: the cipher is invertible for every key, and decrypting what the CBC mode encrypted
  gives the text back: a text of any number of blocks, encrypted in place behind its IV with
  \<open>AES128_CBC_encrypt_buffer\<close>, is recovered by \<open>AES128_CBC_decrypt_buffer\<close> in any buffer
  that does not overlap the ciphertext or the IV, and no other byte changes.
\<close>

theorem aes_cbc_roundtrip:
  assumes "length key = 16" and "length (RoundKey a) = 176" and "length (RoundKey b) = 176"
    and "length iv = 16" and "length p = 16 * n" and "0 < n" and "16 * n \<le> length dst"
  shows "snd (AES128_CBC_decrypt_buffer b
            (dst @ snd (AES128_CBC_encrypt_buffer a (pre @ iv @ p @ post) (length pre + 16) (length pre + 16)
               (16 * n) (Some key) (Some (length pre))))
            0 (length dst + length pre + 16) (16 * n) (Some key) (Some (length dst + length pre))) =
         p @ drop (16 * n) dst @ pre @ iv @ cbc_encrypt (cbc_E key) iv n p @ post \<and>
         (length s = 16 \<longrightarrow> InvCipher (round_keys key) (Cipher (round_keys key) s) = s)"
proof -
  let ?c = "cbc_encrypt (cbc_E key) iv n p"
  let ?mem = "dst @ pre @ iv @ ?c @ post"
  have c: "length ?c = 16 * n"
    unfolding cbc_E_def by (rule aes.length_cbc_encrypt) (use assms in simp_all)
  have iv: "sub_bytes ?mem (length dst + length pre) 16 = iv"
    using assms by (simp add: sub_bytes_def)
  have ct: "sub_bytes ?mem (length dst + length pre + 16) (16 * n) = ?c"
    using assms c by (simp add: sub_bytes_def)
  have "cbc_decrypt (cbc_D key) iv n ?c = p"
    unfolding cbc_E_def cbc_D_def by (rule aes.cbc_roundtrip) (use assms in simp_all)
  then have "snd (AES128_CBC_decrypt_buffer b ?mem 0 (length dst + length pre + 16) (16 * n) (Some key)
      (Some (length dst + length pre))) = put_bytes ?mem 0 p"
    using AES128_CBC_decrypt_disjoint [of key b n 0 "length dst + length pre + 16" "length dst + length pre" ?mem]
      assms c iv ct by simp
  then show ?thesis
    using assms by (simp add: AES128_CBC_encrypt_in_place aes.decrypt_encrypt put_bytes_def)
qed

text \<open>The witness: two blocks under the key of sixteen zero bytes.\<close>

theorem aes_cbc_roundtrip_witness:
  "snd (AES128_CBC_decrypt_buffer \<lparr>RoundKey = replicate 176 0, Iv = 0\<rparr>
      (replicate 40 7 @ snd (AES128_CBC_encrypt_buffer \<lparr>RoundKey = replicate 176 0, Iv = 0\<rparr>
         (replicate 16 1 @ replicate 32 2) 16 16 32 (Some (replicate 16 0)) (Some 0)))
      0 56 32 (Some (replicate 16 0)) (Some 40)) =
   replicate 32 2 @ replicate 8 7 @ replicate 16 1 @
     cbc_encrypt (cbc_E (replicate 16 0)) (replicate 16 1) 2 (replicate 32 2)"
proof -
  have "drop 32 (replicate 40 (7 :: u8)) = replicate 8 7" by simp
  then show ?thesis
    using aes_cbc_roundtrip [where key = "replicate 16 0" and a = "\<lparr>RoundKey = replicate 176 0, Iv = 0\<rparr>"
      and b = "\<lparr>RoundKey = replicate 176 0, Iv = 0\<rparr>" and iv = "replicate 16 1" and p = "replicate 32 2" and n = 2
      and dst = "replicate 40 7" and pre = "[]" and post = "[]"] by simp
qed

end
