(* ===== verification/Sha256.thy ===== *)
theory Sha256
  imports Prelude
begin

text \<open>
  \<open>user/crypto/sha256.c\<close>: the streaming SHA-256. The context's 64-byte buffer doubles as
  the message schedule of sixteen words, stored in host byte order (little endian), and a
  block may be the buffer itself, so the code overwrites its input while it reads it. The
  reference is the standard: a schedule of 64 words, one padding, one pass over the blocks.
\<close>

section \<open>Functions and constants\<close>

definition R :: "nat \<Rightarrow> u32 \<Rightarrow> u32" where
  "R b x = drop_bit b x"

definition S32 :: "nat \<Rightarrow> u32 \<Rightarrow> u32" where
  "S32 b x = drop_bit b x OR push_bit (32 - b) x"

definition Ch :: "u32 \<Rightarrow> u32 \<Rightarrow> u32 \<Rightarrow> u32" where
  "Ch x y z = (x AND y) XOR (NOT x AND z)"

definition Maj :: "u32 \<Rightarrow> u32 \<Rightarrow> u32 \<Rightarrow> u32" where
  "Maj x y z = (x AND y) XOR (x AND z) XOR (y AND z)"

definition Sigma0_256 :: "u32 \<Rightarrow> u32" where
  "Sigma0_256 x = S32 2 x XOR S32 13 x XOR S32 22 x"

definition Sigma1_256 :: "u32 \<Rightarrow> u32" where
  "Sigma1_256 x = S32 6 x XOR S32 11 x XOR S32 25 x"

definition sigma0_256 :: "u32 \<Rightarrow> u32" where
  "sigma0_256 x = S32 7 x XOR S32 18 x XOR R 3 x"

definition sigma1_256 :: "u32 \<Rightarrow> u32" where
  "sigma1_256 x = S32 17 x XOR S32 19 x XOR R 10 x"

definition K256 :: "u32 list" where
  "K256 =
   [0x428a2f98, 0x71374491, 0xb5c0fbcf, 0xe9b5dba5, 0x3956c25b, 0x59f111f1, 0x923f82a4, 0xab1c5ed5,
    0xd807aa98, 0x12835b01, 0x243185be, 0x550c7dc3, 0x72be5d74, 0x80deb1fe, 0x9bdc06a7, 0xc19bf174,
    0xe49b69c1, 0xefbe4786, 0x0fc19dc6, 0x240ca1cc, 0x2de92c6f, 0x4a7484aa, 0x5cb0a9dc, 0x76f988da,
    0x983e5152, 0xa831c66d, 0xb00327c8, 0xbf597fc7, 0xc6e00bf3, 0xd5a79147, 0x06ca6351, 0x14292967,
    0x27b70a85, 0x2e1b2138, 0x4d2c6dfc, 0x53380d13, 0x650a7354, 0x766a0abb, 0x81c2c92e, 0x92722c85,
    0xa2bfe8a1, 0xa81a664b, 0xc24b8b70, 0xc76c51a3, 0xd192e819, 0xd6990624, 0xf40e3585, 0x106aa070,
    0x19a4c116, 0x1e376c08, 0x2748774c, 0x34b0bcb5, 0x391c0cb3, 0x4ed8aa4a, 0x5b9cca4f, 0x682e6ff3,
    0x748f82ee, 0x78a5636f, 0x84c87814, 0x8cc70208, 0x90befffa, 0xa4506ceb, 0xbef9a3f7, 0xc67178f2]"

definition sha256_initial_hash_value :: "u32 list" where
  "sha256_initial_hash_value =
   [0x6a09e667, 0xbb67ae85, 0x3c6ef372, 0xa54ff53a,
    0x510e527f, 0x9b05688c, 0x1f83d9ab, 0x5be0cd19]"

section \<open>The context\<close>

record sha256_ctx =
  sha_state :: "u32 list"
  bitcount :: u64
  sha_buffer :: bytes

definition sha256_init :: "sha256_ctx \<Rightarrow> sha256_ctx" where
  "sha256_init context =
     \<lparr>sha_state = sha256_initial_hash_value, bitcount = 0, sha_buffer = replicate 64 0\<rparr>"

text \<open>The words of the buffer, in host byte order.\<close>

definition W_get :: "bytes \<Rightarrow> nat \<Rightarrow> u32" where
  "W_get buf j = be32 (buf ! (4 * j + 3)) (buf ! (4 * j + 2)) (buf ! (4 * j + 1)) (buf ! (4 * j))"

definition W_put :: "bytes \<Rightarrow> nat \<Rightarrow> u32 \<Rightarrow> bytes" where
  "W_put buf j w = put_bytes buf (4 * j) (rev (bytes32 w))"

type_synonym regs = "u32 \<times> u32 \<times> u32 \<times> u32 \<times> u32 \<times> u32 \<times> u32 \<times> u32"

text \<open>One application of the compression function to the registers.\<close>

definition sha_round :: "u32 \<Rightarrow> u32 \<Rightarrow> regs \<Rightarrow> regs" where
  "sha_round k w r =
     (case r of (a, b, c, d, e, f, g, h) \<Rightarrow>
        let T1 = h + Sigma1_256 e + Ch e f g + k + w;
            T2 = Sigma0_256 a + Maj a b c
        in (T1 + T2, a, b, c, d + T1, e, f, g))"

text \<open>
  The first loop, \<open>j\<close> from 0 to 15: \<open>src\<close> is the block, \<open>None\<close> for the buffer itself.
\<close>

fun load_loop :: "bytes option \<Rightarrow> nat \<Rightarrow> nat \<Rightarrow> bytes \<Rightarrow> regs \<Rightarrow> bytes \<times> regs" where
  "load_loop src j 0 buf r = (buf, r)"
| "load_loop src j (Suc n) buf r =
     (let data = (case src of None \<Rightarrow> buf | Some d \<Rightarrow> d);
          w = be32 (data ! (4 * j)) (data ! (4 * j + 1)) (data ! (4 * j + 2)) (data ! (4 * j + 3));
          buf = W_put buf j w
      in load_loop src (j + 1) n buf (sha_round (K256 ! j) (W_get buf j) r))"

text \<open>The second loop, \<open>j\<close> from 16 to 63.\<close>

fun expand_loop :: "nat \<Rightarrow> nat \<Rightarrow> bytes \<Rightarrow> regs \<Rightarrow> bytes \<times> regs" where
  "expand_loop j 0 buf r = (buf, r)"
| "expand_loop j (Suc n) buf r =
     (let s0 = sigma0_256 (W_get buf ((j + 1) mod 16));
          s1 = sigma1_256 (W_get buf ((j + 14) mod 16));
          buf = W_put buf (j mod 16) (W_get buf (j mod 16) + (s1 + W_get buf ((j + 9) mod 16) + s0))
      in expand_loop (j + 1) n buf (sha_round (K256 ! j) (W_get buf (j mod 16)) r))"

definition regs_of :: "u32 list \<Rightarrow> regs" where
  "regs_of s = (s ! 0, s ! 1, s ! 2, s ! 3, s ! 4, s ! 5, s ! 6, s ! 7)"

definition add_regs :: "u32 list \<Rightarrow> regs \<Rightarrow> u32 list" where
  "add_regs s r =
     (case r of (a, b, c, d, e, f, g, h) \<Rightarrow>
        [s ! 0 + a, s ! 1 + b, s ! 2 + c, s ! 3 + d, s ! 4 + e, s ! 5 + f, s ! 6 + g, s ! 7 + h])"

definition sha256_transform :: "sha256_ctx \<Rightarrow> bytes option \<Rightarrow> sha256_ctx" where
  "sha256_transform context data =
     (let (buf, r) = load_loop data 0 16 (sha_buffer context) (regs_of (sha_state context));
          (buf, r) = expand_loop 16 48 buf r
      in context\<lparr>sha_state := add_regs (sha_state context) r, sha_buffer := buf\<rparr>)"

definition usedspace :: "sha256_ctx \<Rightarrow> nat" where
  "usedspace context = unat (drop_bit 3 (bitcount context)) mod 64"

definition add_bits :: "nat \<Rightarrow> sha256_ctx \<Rightarrow> sha256_ctx" where
  "add_bits n context = context\<lparr>bitcount := bitcount context + ucast (push_bit 3 (of_nat n :: u32))\<rparr>"

function update_loop :: "sha256_ctx \<Rightarrow> bytes \<Rightarrow> sha256_ctx \<times> bytes" where
  "update_loop context data =
     (if length data \<ge> 64
      then update_loop (add_bits 64 (sha256_transform context (Some (take 64 data)))) (drop 64 data)
      else (context, data))"
  by auto
termination by (relation "measure (\<lambda>(c, d). length d)") auto

declare update_loop.simps [simp del]

definition update_tail :: "sha256_ctx \<Rightarrow> bytes \<Rightarrow> sha256_ctx" where
  "update_tail context data =
     (let (context, data) = update_loop context data
      in if length data > 0
         then add_bits (length data) (context\<lparr>sha_buffer := put_bytes (sha_buffer context) 0 data\<rparr>)
         else context)"

definition sha256_update :: "sha256_ctx \<Rightarrow> bytes \<Rightarrow> sha256_ctx" where
  "sha256_update context data =
     (if length data = 0 then context
      else
        let used = usedspace context
        in if used > 0 then
             let freespace = 64 - used
             in if length data \<ge> freespace then
                  let context = context\<lparr>sha_buffer := put_bytes (sha_buffer context) used (take freespace data)\<rparr>;
                      context = add_bits freespace context;
                      context = sha256_transform context None
                  in update_tail context (drop freespace data)
                else add_bits (length data)
                       (context\<lparr>sha_buffer := put_bytes (sha_buffer context) used data\<rparr>)
           else update_tail context data)"

definition REVERSE32 :: "u32 \<Rightarrow> u32" where
  "REVERSE32 w =
     (let tmp = drop_bit 16 w OR push_bit 16 w
      in drop_bit 8 (tmp AND 0xff00ff00) OR push_bit 8 (tmp AND 0x00ff00ff))"

definition REVERSE64 :: "u64 \<Rightarrow> u64" where
  "REVERSE64 w =
     (let tmp = drop_bit 32 w OR push_bit 32 w;
          tmp = drop_bit 8 (tmp AND 0xff00ff00ff00ff00) OR push_bit 8 (tmp AND 0x00ff00ff00ff00ff)
      in drop_bit 16 (tmp AND 0xffff0000ffff0000) OR push_bit 16 (tmp AND 0x0000ffff0000ffff))"

text \<open>A 64-bit value as the host stores it.\<close>

definition le64_bytes :: "u64 \<Rightarrow> bytes" where
  "le64_bytes w = map (\<lambda>k. ucast (drop_bit (8 * k) w)) [0, 1, 2, 3, 4, 5, 6, 7]"

definition digest_word :: "u32 \<Rightarrow> bytes" where
  "digest_word w =
     (let w = REVERSE32 w
      in [ucast (w AND 0xff), ucast (drop_bit 8 w AND 0xff), ucast (drop_bit 16 w AND 0xff),
          ucast (drop_bit 24 w AND 0xff)])"

definition sha256_pad :: "sha256_ctx \<Rightarrow> sha256_ctx" where
  "sha256_pad context =
     (let used = usedspace context
      in if used > 0 then
           let context = context\<lparr>sha_buffer := (sha_buffer context)[used := 0x80]\<rparr>;
               used = used + 1
           in if used \<le> 56 then
                context\<lparr>sha_buffer := put_bytes (sha_buffer context) used (replicate (56 - used) 0)\<rparr>
              else
                let context = (if used < 64
                       then context\<lparr>sha_buffer := put_bytes (sha_buffer context) used (replicate (64 - used) 0)\<rparr>
                       else context);
                    context = sha256_transform context None
                in context\<lparr>sha_buffer := put_bytes (sha_buffer context) 0 (replicate 56 0)\<rparr>
         else
           context\<lparr>sha_buffer := (put_bytes (sha_buffer context) 0 (replicate 56 0))[0 := 0x80]\<rparr>)"

definition zero_ctx :: sha256_ctx where
  "zero_ctx = \<lparr>sha_state = replicate 8 0, bitcount = 0, sha_buffer = replicate 64 0\<rparr>"

definition sha256_final :: "sha256_ctx \<Rightarrow> sha256_ctx \<times> bytes" where
  "sha256_final context =
     (let count = REVERSE64 (bitcount context);
          context = sha256_pad context;
          context = context\<lparr>bitcount := count,
                      sha_buffer := put_bytes (sha_buffer context) 56 (le64_bytes count)\<rparr>;
          context = sha256_transform context None
      in (zero_ctx, concat (map digest_word (sha_state context))))"

definition sha256_raw :: "bytes \<Rightarrow> bytes" where
  "sha256_raw data = snd (sha256_final (sha256_update (sha256_init zero_ctx) data))"

definition sha2_hex_digits :: bytes where
  "sha2_hex_digits = [0x30, 0x31, 0x32, 0x33, 0x34, 0x35, 0x36, 0x37, 0x38, 0x39,
                      0x61, 0x62, 0x63, 0x64, 0x65, 0x66]"

definition sha256_end :: "sha256_ctx \<Rightarrow> sha256_ctx \<times> bytes" where
  "sha256_end context =
     (let (context, digest) = sha256_final context
      in (context, concat (map (\<lambda>d. [sha2_hex_digits ! unat (drop_bit 4 (d AND 0xf0)),
                                     sha2_hex_digits ! unat (d AND 0x0f)]) digest) @ [0]))"

definition sha256_data :: "bytes \<Rightarrow> bytes" where
  "sha256_data data = snd (sha256_end (sha256_update (sha256_init zero_ctx) data))"

section \<open>The standard\<close>

fun schedule :: "bytes \<Rightarrow> nat \<Rightarrow> u32" where
  "schedule blk t =
     (if t < 16 then be32 (blk ! (4 * t)) (blk ! (4 * t + 1)) (blk ! (4 * t + 2)) (blk ! (4 * t + 3))
      else sigma1_256 (schedule blk (t - 2)) + schedule blk (t - 7) +
           sigma0_256 (schedule blk (t - 15)) + schedule blk (t - 16))"

declare schedule.simps [simp del]

definition compress :: "u32 list \<Rightarrow> bytes \<Rightarrow> u32 list" where
  "compress st blk =
     add_regs st (fold (\<lambda>t. sha_round (K256 ! t) (schedule blk t)) [0..<64] (regs_of st))"

function hash_blocks :: "u32 list \<Rightarrow> bytes \<Rightarrow> u32 list" where
  "hash_blocks st bs =
     (if length bs < 64 then st else hash_blocks (compress st (take 64 bs)) (drop 64 bs))"
  by auto
termination by (relation "measure (\<lambda>(s, b). length b)") auto

declare hash_blocks.simps [simp del]

definition be64_bytes :: "u64 \<Rightarrow> bytes" where
  "be64_bytes w = rev (le64_bytes w)"

definition sha_padding :: "nat \<Rightarrow> bytes" where
  "sha_padding len = 0x80 # replicate ((119 - len mod 64) mod 64) 0 @ be64_bytes (of_nat (8 * len))"

definition SHA256 :: "bytes \<Rightarrow> bytes" where
  "SHA256 msg =
     concat (map bytes32 (hash_blocks sha256_initial_hash_value (msg @ sha_padding (length msg))))"

section \<open>Byte order\<close>

lemma le64_REVERSE64: "le64_bytes (REVERSE64 w) = be64_bytes w"
  by (simp add: le64_bytes_def be64_bytes_def REVERSE64_def Let_def u8_eq_iff bit_simps)
    (auto dest: bit_imp_le_length)

lemma digest_word_bytes32: "digest_word w = bytes32 w"
  by (simp add: digest_word_def bytes32_def REVERSE32_def Let_def u8_eq_iff bit_simps)
    (auto dest: bit_imp_le_length)

lemma W_get_W_put:
  assumes "4 * j + 4 \<le> length buf" and "4 * i + 4 \<le> length buf"
  shows "W_get (W_put buf j w) i = (if i = j then w else W_get buf i)"
proof (cases "i = j")
  case True
  then show ?thesis using assms
    by (simp add: W_get_def W_put_def nth_put_bytes_inside bytes32_def be32_bytes32)
next
  case False
  then have "4 * i + k < 4 * j \<or> 4 * j + 4 \<le> 4 * i + k" if "k < 4" for k using that by arith
  then have "put_bytes buf (4 * j) (rev (bytes32 w)) ! (4 * i + k) = buf ! (4 * i + k)" if "k < 4" for k
    using that assms by (intro nth_put_bytes_outside) auto
  from this [of 0] this [of 1] this [of 2] this [of 3] show ?thesis
    using False by (simp add: W_get_def W_put_def)
qed

lemma length_W_put [simp]: "4 * j + 4 \<le> length buf \<Longrightarrow> length (W_put buf j w) = length buf"
  by (simp add: W_put_def)

lemma W_put_nth:
  "4 * j + 4 \<le> length buf \<Longrightarrow> 4 * j + 4 \<le> k \<Longrightarrow> k < length buf \<Longrightarrow> W_put buf j w ! k = buf ! k"
  unfolding W_put_def by (intro nth_put_bytes_outside) auto

section \<open>The compression in place\<close>

definition sha_rounds :: "bytes \<Rightarrow> nat \<Rightarrow> nat \<Rightarrow> regs \<Rightarrow> regs" where
  "sha_rounds blk j n r = fold (\<lambda>t. sha_round (K256 ! t) (schedule blk t)) [j..<j + n] r"

lemma sha_rounds_simps:
  "sha_rounds blk j 0 r = r"
  "sha_rounds blk j (Suc n) r = sha_rounds blk (j + 1) n (sha_round (K256 ! j) (schedule blk j) r)"
  "sha_rounds blk (j + n) m (sha_rounds blk j n r) = sha_rounds blk j (n + m) r"
proof -
  show "sha_rounds blk j 0 r = r" by (simp add: sha_rounds_def)
  have "[j..<j + Suc n] = j # [j + 1..<j + 1 + n]" by (simp add: upt_conv_Cons)
  then show "sha_rounds blk j (Suc n) r = sha_rounds blk (j + 1) n (sha_round (K256 ! j) (schedule blk j) r)"
    by (simp add: sha_rounds_def)
  have "[j..<j + (n + m)] = [j..<j + n] @ [j + n..<j + n + m]"
    using upt_add_eq_append [of j "j + n" m] by (simp add: add.assoc)
  then show "sha_rounds blk (j + n) m (sha_rounds blk j n r) = sha_rounds blk j (n + m) r"
    by (simp add: sha_rounds_def)
qed

lemma compress_rounds: "compress st blk = add_regs st (sha_rounds blk 0 64 (regs_of st))"
  by (simp add: compress_def sha_rounds_def)

lemma schedule_low:
  "t < 16 \<Longrightarrow> schedule blk t = be32 (blk ! (4 * t)) (blk ! (4 * t + 1)) (blk ! (4 * t + 2)) (blk ! (4 * t + 3))"
  by (simp add: schedule.simps)

lemma schedule_high:
  "16 \<le> t \<Longrightarrow> schedule blk t =
     schedule blk (t - 16) + (sigma1_256 (schedule blk (t - 2)) + schedule blk (t - 7) +
       sigma0_256 (schedule blk (t - 15)))"
  by (subst schedule.simps) (simp add: ac_simps)

lemma load_loop_schedule:
  "j + n \<le> 16 \<Longrightarrow> length buf = 64 \<Longrightarrow> (\<forall>i < j. W_get buf i = schedule blk i) \<Longrightarrow>
   (case src of None \<Rightarrow> (\<forall>k. 4 * j \<le> k \<longrightarrow> k < 64 \<longrightarrow> buf ! k = blk ! k) | Some d \<Rightarrow> d = blk) \<Longrightarrow>
   \<exists>buf'. load_loop src j n buf r = (buf', sha_rounds blk j n r) \<and> length buf' = 64 \<and>
     (\<forall>i < j + n. W_get buf' i = schedule blk i)"
proof (induction n arbitrary: j buf r)
  case (Suc n)
  let ?d = "case src of None \<Rightarrow> buf | Some d \<Rightarrow> d"
  let ?w = "be32 (?d ! (4 * j)) (?d ! (4 * j + 1)) (?d ! (4 * j + 2)) (?d ! (4 * j + 3))"
  let ?buf = "W_put buf j ?w"
  have w: "?w = schedule blk j"
    using Suc.prems by (cases src) (simp_all add: schedule_low)
  have get: "W_get ?buf i = (if i = j then schedule blk j else W_get buf i)" if "i < 16" for i
    using that Suc.prems w by (simp add: W_get_W_put)
  have "\<exists>buf'. load_loop src (j + 1) n ?buf (sha_round (K256 ! j) (schedule blk j) r) =
        (buf', sha_rounds blk (j + 1) n (sha_round (K256 ! j) (schedule blk j) r)) \<and> length buf' = 64 \<and>
        (\<forall>i < j + 1 + n. W_get buf' i = schedule blk i)"
  proof (rule Suc.IH)
    show "\<forall>i < j + 1. W_get ?buf i = schedule blk i" using get Suc.prems by auto
    show "case src of None \<Rightarrow> \<forall>k. 4 * (j + 1) \<le> k \<longrightarrow> k < 64 \<longrightarrow> ?buf ! k = blk ! k | Some d \<Rightarrow> d = blk"
      using Suc.prems by (cases src) (auto simp: W_put_nth)
  qed (use Suc.prems in auto)
  moreover have "W_get ?buf j = schedule blk j" using get Suc.prems by auto
  ultimately show ?case by (simp add: Let_def sha_rounds_simps)
qed (simp add: sha_rounds_simps)

lemma expand_loop_schedule:
  "16 \<le> j \<Longrightarrow> length buf = 64 \<Longrightarrow> (\<forall>i. j - 16 \<le> i \<longrightarrow> i < j \<longrightarrow> W_get buf (i mod 16) = schedule blk i) \<Longrightarrow>
   \<exists>buf'. expand_loop j n buf r = (buf', sha_rounds blk j n r) \<and> length buf' = 64"
proof (induction n arbitrary: j buf r)
  case (Suc n)
  have slot: "W_get buf ((j + 1) mod 16) = schedule blk (j - 15)"
    "W_get buf ((j + 14) mod 16) = schedule blk (j - 2)"
    "W_get buf ((j + 9) mod 16) = schedule blk (j - 7)"
    "W_get buf (j mod 16) = schedule blk (j - 16)"
  proof -
    have "(j + 1) mod 16 = (j - 15) mod 16" "(j + 14) mod 16 = (j - 2) mod 16"
      "(j + 9) mod 16 = (j - 7) mod 16" "j mod 16 = (j - 16) mod 16"
      using Suc.prems(1) by (simp_all add: mod_eq_dvd_iff_nat)
    moreover have "W_get buf (i mod 16) = schedule blk i" if "j - 16 \<le> i" "i < j" for i
      using Suc.prems(3) that by blast
    ultimately show "W_get buf ((j + 1) mod 16) = schedule blk (j - 15)"
      "W_get buf ((j + 14) mod 16) = schedule blk (j - 2)"
      "W_get buf ((j + 9) mod 16) = schedule blk (j - 7)"
      "W_get buf (j mod 16) = schedule blk (j - 16)"
      using Suc.prems(1) by (simp_all only:) (simp_all only: diff_le_mono2 diff_less zero_less_numeral)
  qed
  let ?w = "W_get buf (j mod 16) + (sigma1_256 (W_get buf ((j + 14) mod 16)) + W_get buf ((j + 9) mod 16) +
      sigma0_256 (W_get buf ((j + 1) mod 16)))"
  have w: "?w = schedule blk j" by (simp only: slot schedule_high [OF Suc.prems(1)])
  let ?buf = "W_put buf (j mod 16) ?w"
  have m: "4 * (i mod 16) + 4 \<le> length buf" for i :: nat
    using mod_less_divisor [of 16 i] Suc.prems(2) by linarith
  have get: "W_get ?buf (i mod 16) = (if i mod 16 = j mod 16 then schedule blk j else W_get buf (i mod 16))" for i
    by (simp only: W_get_W_put [OF m m] w)
  have "\<exists>buf'. expand_loop (j + 1) n ?buf (sha_round (K256 ! j) (schedule blk j) r) =
        (buf', sha_rounds blk (j + 1) n (sha_round (K256 ! j) (schedule blk j) r)) \<and> length buf' = 64"
  proof (rule Suc.IH)
    show "\<forall>i. j + 1 - 16 \<le> i \<longrightarrow> i < j + 1 \<longrightarrow> W_get ?buf (i mod 16) = schedule blk i"
    proof (intro allI impI)
      fix i assume i: "j + 1 - 16 \<le> i" "i < j + 1"
      show "W_get ?buf (i mod 16) = schedule blk i"
      proof (cases "i = j")
        case True
        with get [of j] show ?thesis by (simp only: refl if_True)
      next
        case False
        then have "\<not> 16 dvd j - i" using i by (auto dest: dvd_imp_le)
        then have "i mod 16 \<noteq> j mod 16" using i False mod_eq_dvd_iff_nat [of i j 16] by auto
        with get [of i] have "W_get ?buf (i mod 16) = W_get buf (i mod 16)" by (simp only: if_False)
        moreover have "W_get buf (i mod 16) = schedule blk i" using i False Suc.prems(3) by simp
        ultimately show ?thesis by (simp only:)
      qed
    qed
  qed (use Suc.prems m [of j] in auto)
  moreover have "W_get ?buf (j mod 16) = schedule blk j" using get [of j] by (simp only: refl if_True)
  ultimately show ?case by (simp only: expand_loop.simps Let_def sha_rounds_simps)
qed (simp add: sha_rounds_simps)

lemma sha256_transform_compress:
  assumes "length (sha_buffer c) = 64" and "blk = (case src of None \<Rightarrow> sha_buffer c | Some d \<Rightarrow> d)"
  shows "sha_state (sha256_transform c src) = compress (sha_state c) blk"
    and "length (sha_buffer (sha256_transform c src)) = 64"
    and "bitcount (sha256_transform c src) = bitcount c"
proof -
  let ?r = "regs_of (sha_state c)"
  obtain b where b: "load_loop src 0 16 (sha_buffer c) ?r = (b, sha_rounds blk 0 16 ?r)" "length b = 64"
    "\<forall>i < 16. W_get b i = schedule blk i"
    using load_loop_schedule [of 0 16 "sha_buffer c" blk src ?r] assms by (cases src) auto
  have "\<exists>b'. expand_loop 16 48 b (sha_rounds blk 0 16 ?r) = (b', sha_rounds blk 16 48 (sha_rounds blk 0 16 ?r)) \<and> length b' = 64"
    using b by (intro expand_loop_schedule) auto
  then obtain b' where b': "expand_loop 16 48 b (sha_rounds blk 0 16 ?r) = (b', sha_rounds blk 0 64 ?r)" "length b' = 64"
    using sha_rounds_simps(3) [of blk 0 16 48 ?r] by auto
  show "sha_state (sha256_transform c src) = compress (sha_state c) blk"
    and "length (sha_buffer (sha256_transform c src)) = 64"
    and "bitcount (sha256_transform c src) = bitcount c"
    by (simp_all add: sha256_transform_def b b' compress_rounds)
qed

section \<open>Streaming\<close>

text \<open>
  The context after a message: the full blocks are in the state, the rest in the buffer,
  whose other bytes may hold anything.
\<close>

definition sha_holds :: "sha256_ctx \<Rightarrow> bytes \<Rightarrow> bool" where
  "sha_holds c m \<longleftrightarrow>
     sha_state c = hash_blocks sha256_initial_hash_value m \<and>
     bitcount c = of_nat (8 * length m) \<and> length (sha_buffer c) = 64 \<and>
     take (length m mod 64) (sha_buffer c) = drop (length m - length m mod 64) m"

lemma hash_blocks_append:
  "64 dvd length m \<Longrightarrow> hash_blocks st (m @ xs) = hash_blocks (hash_blocks st m) xs"
proof (induction st m rule: hash_blocks.induct)
  case (1 st m)
  show ?case
  proof (cases "length m < 64")
    case True
    with 1(2) have "m = []" by (auto dest: dvd_imp_le)
    then show ?thesis by (simp add: hash_blocks.simps [of st "[]"])
  next
    case False
    have "64 dvd length (drop 64 m)" using 1(2) False by auto
    with False 1(1) have "hash_blocks (compress st (take 64 m)) (drop 64 m @ xs) =
        hash_blocks (hash_blocks (compress st (take 64 m)) (drop 64 m)) xs" by blast
    moreover have "hash_blocks st (m @ xs) = hash_blocks (compress st (take 64 m)) (drop 64 m @ xs)"
      using False by (simp add: hash_blocks.simps [of st "m @ xs"])
    moreover have "hash_blocks st m = hash_blocks (compress st (take 64 m)) (drop 64 m)"
      using False by (simp add: hash_blocks.simps [of st m])
    ultimately show ?thesis by simp
  qed
qed

lemma hash_blocks_short: "length xs < 64 \<Longrightarrow> hash_blocks st xs = st"
  by (simp add: hash_blocks.simps)

lemma hash_blocks_one: "length xs = 64 \<Longrightarrow> hash_blocks st xs = compress st xs"
  by (simp add: hash_blocks.simps [of st xs] hash_blocks_short)

lemma add_bits_fields [simp]:
  "sha_state (add_bits n c) = sha_state c" "sha_buffer (add_bits n c) = sha_buffer c"
  by (simp_all add: add_bits_def)

lemma ucast_of_nat_small: "m < 2 ^ 32 \<Longrightarrow> ucast (of_nat m :: u32) = (of_nat m :: u64)"
  by (simp only: word_unat_eq_iff unsigned_ucast_eq unat_of_nat) (simp add: take_bit_eq_mod)

lemma bitcount_add_bits:
  assumes "n < 2 ^ 29"
  shows "bitcount (add_bits n c) = bitcount c + of_nat (8 * n)"
proof -
  have "push_bit 3 (of_nat n :: u32) = of_nat (8 * n)"
    by (simp add: push_bit_eq_mult)
  moreover have "8 * n < 2 ^ 32" using assms by simp
  ultimately show ?thesis by (simp only: add_bits_def ucast_of_nat_small) simp
qed

lemma sha_holds_usedspace:
  assumes "sha_holds c m" and "length m < 2 ^ 61"
  shows "usedspace c = length m mod 64"
proof -
  have "unat (bitcount c) = 8 * length m"
    using assms by (simp only: sha_holds_def unat_of_nat) simp
  then show ?thesis by (simp only: usedspace_def unsigned_drop_bit_eq) (use assms(2) in \<open>simp add: drop_bit_eq_div take_bit_nat_eq_self\<close>)
qed

lemma sha_holds_blocks:
  assumes "64 dvd length f" and "length r < 64"
  shows "sha_holds c (f @ r) \<longleftrightarrow>
     sha_state c = hash_blocks sha256_initial_hash_value f \<and>
     bitcount c = of_nat (8 * length f + 8 * length r) \<and> length (sha_buffer c) = 64 \<and>
     take (length r) (sha_buffer c) = r"
proof -
  have "(length f + length r) mod 64 = length r"
    using assms by (auto elim!: dvdE)
  then show ?thesis
    using assms by (simp add: sha_holds_def hash_blocks_append hash_blocks_short distrib_left)
qed

lemma split_blocks:
  obtains f r where "m = f @ r" and "64 dvd length (f :: bytes)" and "length r < 64"
proof
  let ?k = "length m - length m mod 64"
  show "m = take ?k m @ drop ?k m" by simp
  show "64 dvd length (take ?k m)" by (simp add: dvd_minus_mod)
  have "length (drop ?k m) = length m mod 64" by simp
  then show "length (drop ?k m) < 64" by simp
qed

lemma sha_holds_init: "sha_holds (sha256_init c) []"
  by (simp add: sha_holds_def sha256_init_def hash_blocks_short)

lemma sha_holds_usedspace_blocks:
  assumes "sha_holds c (f @ r)" and "64 dvd length f" and "length r < 64" and "length f + length r < 2 ^ 61"
  shows "usedspace c = length r"
proof -
  have "(length f + length r) mod 64 = length r" using assms(2,3) by (auto elim!: dvdE)
  then show ?thesis using sha_holds_usedspace [OF assms(1)] assms(4) by simp
qed

text \<open>Bytes are added to a part-filled buffer.\<close>

lemma sha_holds_fill:
  assumes "sha_holds c (f @ r)" and "64 dvd length f" and "length r + length d < 64"
  shows "sha_holds (add_bits (length d) (c\<lparr>sha_buffer := put_bytes (sha_buffer c) (length r) d\<rparr>)) (f @ r @ d)"
proof -
  have "sha_holds c (f @ r) \<longleftrightarrow>
     sha_state c = hash_blocks sha256_initial_hash_value f \<and>
     bitcount c = of_nat (8 * length f + 8 * length r) \<and> length (sha_buffer c) = 64 \<and>
     take (length r) (sha_buffer c) = r"
    using assms by (intro sha_holds_blocks) auto
  then have c: "sha_state c = hash_blocks sha256_initial_hash_value f"
     "bitcount c = of_nat (8 * length f + 8 * length r)" "length (sha_buffer c) = 64"
     "take (length r) (sha_buffer c) = r"
    using assms(1) by auto
  have "take (length r + length d) (put_bytes (sha_buffer c) (length r) d) = r @ d"
    using assms c by (simp add: take_put_bytes)
  with assms c show ?thesis
    by (subst sha_holds_blocks) (simp_all add: bitcount_add_bits algebra_simps)
qed

text \<open>A block is completed in the buffer, or taken from the data.\<close>

lemma sha_holds_complete:
  assumes "sha_holds c (f @ r)" and "64 dvd length f" and "length r + length d = 64"
    and "length r < 64"
  shows "sha_holds (sha256_transform (add_bits (length d)
           (c\<lparr>sha_buffer := put_bytes (sha_buffer c) (length r) d\<rparr>)) None) (f @ r @ d)"
proof -
  have c: "sha_state c = hash_blocks sha256_initial_hash_value f"
     "bitcount c = of_nat (8 * length f + 8 * length r)" "length (sha_buffer c) = 64"
     "take (length r) (sha_buffer c) = r"
    using assms sha_holds_blocks [of f r c] by auto
  let ?c = "add_bits (length d) (c\<lparr>sha_buffer := put_bytes (sha_buffer c) (length r) d\<rparr>)"
  have buf: "put_bytes (sha_buffer c) (length r) d = r @ d"
    using c assms by (simp add: put_bytes_def)
  have rd: "length (r @ d) = 64" using assms(3) by simp
  then have "64 dvd length (f @ r @ d)" using assms(2) by simp
  then have *: "sha_holds c' (f @ r @ d) \<longleftrightarrow>
     sha_state c' = hash_blocks sha256_initial_hash_value (f @ r @ d) \<and>
     bitcount c' = of_nat (8 * length (f @ r @ d)) \<and> length (sha_buffer c') = 64" for c'
    using sha_holds_blocks [of "f @ r @ d" "[]" c'] by simp
  have "length (sha_buffer ?c) = 64" "r @ d = sha_buffer ?c"
    using buf rd by simp_all
  then have "sha_state (sha256_transform ?c None) = compress (sha_state c) (r @ d)"
    "length (sha_buffer (sha256_transform ?c None)) = 64"
    "bitcount (sha256_transform ?c None) = bitcount ?c"
    using sha256_transform_compress [of ?c "r @ d" None] by simp_all
  moreover have "hash_blocks sha256_initial_hash_value (f @ r @ d) = compress (sha_state c) (r @ d)"
    by (simp only: hash_blocks_append [OF assms(2)] hash_blocks_one [OF rd] c)
  moreover have "bitcount ?c = of_nat (8 * length (f @ r @ d))"
  proof -
    have "length d < 2 ^ 29" using assms(3) by simp
    then show ?thesis by (simp add: bitcount_add_bits c(2))
  qed
  ultimately show ?thesis by (simp only: *)
qed

lemma sha_holds_block:
  assumes "sha_holds c f" and "64 dvd length f" and "length d = 64"
  shows "sha_holds (add_bits 64 (sha256_transform c (Some d))) (f @ d)"
  using assms sha_holds_blocks [of f "[]" c]
    sha_holds_blocks [of "f @ d" "[]" "add_bits 64 (sha256_transform c (Some d))"]
  by (simp add: sha256_transform_compress [where blk = d] bitcount_add_bits
      hash_blocks_append hash_blocks_one algebra_simps)

lemma sha_holds_update_loop:
  "sha_holds c f \<Longrightarrow> 64 dvd length f \<Longrightarrow>
   \<exists>c' g r. update_loop c d = (c', r) \<and> d = g @ r \<and> length r < 64 \<and> 64 dvd length (f @ g) \<and>
     sha_holds c' (f @ g)"
proof (induction c d arbitrary: f rule: update_loop.induct)
  case (1 c d)
  show ?case
  proof (cases "64 \<le> length d")
    case True
    let ?c = "add_bits 64 (sha256_transform c (Some (take 64 d)))"
    have "sha_holds ?c (f @ take 64 d)" using 1 True by (intro sha_holds_block) auto
    moreover have "64 dvd length (f @ take 64 d)" using 1(3) True by simp
    ultimately have "\<exists>c' g r. update_loop ?c (drop 64 d) = (c', r) \<and> drop 64 d = g @ r \<and>
        length r < 64 \<and> 64 dvd length ((f @ take 64 d) @ g) \<and> sha_holds c' ((f @ take 64 d) @ g)"
      using 1(1) True by blast
    then obtain c' g r where *: "update_loop ?c (drop 64 d) = (c', r)" "drop 64 d = g @ r"
        "length r < 64" "64 dvd length (f @ take 64 d @ g)" "sha_holds c' (f @ take 64 d @ g)"
      by auto
    have "d = (take 64 d @ g) @ r" using *(2) append_take_drop_id [of 64 d] by simp
    moreover have "update_loop c d = (c', r)" using True *(1) by (simp add: update_loop.simps [of c d])
    ultimately show ?thesis using *(3-5) by blast
  next
    case False
    then have "update_loop c d = (c, d) \<and> d = [] @ d \<and> length d < 64 \<and> 64 dvd length (f @ []) \<and> sha_holds c (f @ [])"
      using 1(2,3) by (simp add: update_loop.simps [of c d])
    then show ?thesis by blast
  qed
qed

lemma sha_holds_update_tail:
  assumes "sha_holds c f" and "64 dvd length f"
  shows "sha_holds (update_tail c d) (f @ d)"
proof -
  obtain c' g r where *: "update_loop c d = (c', r)" "d = g @ r" "length r < 64"
      "64 dvd length (f @ g)" "sha_holds c' (f @ g)"
    using sha_holds_update_loop [OF assms, of d] by blast
  then show ?thesis
    using sha_holds_fill [of c' "f @ g" "[]" r] by (auto simp: update_tail_def)
qed

lemma sha_holds_update:
  assumes "sha_holds c m" and "length m < 2 ^ 61"
  shows "sha_holds (sha256_update c d) (m @ d)"
proof -
  obtain f r where m: "m = f @ r" "64 dvd length f" "length r < 64" by (rule split_blocks)
  have used: "usedspace c = length r"
    using sha_holds_usedspace_blocks [of c f r] assms m by simp
  show ?thesis
  proof (cases "d = [] \<or> r = []")
    case True
    then show ?thesis
      using assms m used sha_holds_update_tail [of c f d] by (auto simp: sha256_update_def)
  next
    case False
    show ?thesis
    proof (cases "64 - length r \<le> length d")
      case True
      let ?h = "take (64 - length r) d"
      let ?c = "sha256_transform (add_bits (length ?h) (c\<lparr>sha_buffer := put_bytes (sha_buffer c) (length r) ?h\<rparr>)) None"
      have "sha_holds ?c (f @ r @ ?h)" using assms m True by (intro sha_holds_complete) auto
      moreover have "64 dvd length (f @ r @ ?h)" using m True by simp
      ultimately have "sha_holds (update_tail ?c (drop (64 - length r) d)) ((f @ r @ ?h) @ drop (64 - length r) d)"
        by (rule sha_holds_update_tail)
      moreover have "length ?h = 64 - length r" using True by simp
      ultimately show ?thesis using True False used m
        by (simp only: sha256_update_def Let_def) simp
    next
      case lt: False
      then show ?thesis using sha_holds_fill [of c f r d] assms m False used
        by (simp add: sha256_update_def Let_def)
    qed
  qed
qed

section \<open>Padding and the digest\<close>

lemma put_after_mark:
  assumes "length r < n" and "n \<le> 64" and "length buf = 64" and "take (length r) buf = r"
  shows "take n (put_bytes (buf[length r := 0x80]) (length r + 1) (replicate (n - (length r + 1)) 0)) =
           r @ 0x80 # replicate (n - (length r + 1)) (0 :: u8)"
    and "length (put_bytes (buf[length r := 0x80]) (length r + 1) (replicate (n - (length r + 1)) 0)) = 64"
proof -
  obtain k where "n = length r + 1 + k" using assms(1) by (metis add.commute less_imp_Suc_add add_Suc_right plus_1_eq_Suc add.assoc)
  with assms show "take n (put_bytes (buf[length r := 0x80]) (length r + 1) (replicate (n - (length r + 1)) 0)) =
      r @ 0x80 # replicate (n - (length r + 1)) (0 :: u8)"
    by (simp add: put_bytes_def take_Suc_list_update)
qed (use assms in simp)

lemma sha256_pad_short:
  assumes "usedspace c = length r" and "length r < 56" and "length (sha_buffer c) = 64"
    and "take (length r) (sha_buffer c) = r"
  shows "sha_state (sha256_pad c) = sha_state c"
    and "length (sha_buffer (sha256_pad c)) = 64"
    and "take 56 (sha_buffer (sha256_pad c)) = r @ 0x80 # replicate (55 - length r) 0"
proof -
  show "sha_state (sha256_pad c) = sha_state c"
    using assms by (simp add: sha256_pad_def Let_def)
  show "length (sha_buffer (sha256_pad c)) = 64"
    using assms by (simp add: sha256_pad_def Let_def)
  show "take 56 (sha_buffer (sha256_pad c)) = r @ 0x80 # replicate (55 - length r) 0"
  proof (cases "r = []")
    case True
    have "put_bytes (sha_buffer c) 0 (replicate 56 0) = replicate 56 0 @ drop 56 (sha_buffer c)"
      by (simp add: put_bytes_def)
    moreover have "replicate 56 (0 :: u8) = 0 # replicate 55 0"
      by (simp flip: replicate_Suc)
    ultimately show ?thesis using True assms by (simp add: sha256_pad_def)
  next
    case False
    have "take 56 (put_bytes ((sha_buffer c)[length r := 0x80]) (length r + 1) (replicate (56 - (length r + 1)) 0)) =
        r @ 0x80 # replicate (56 - (length r + 1)) 0"
      using assms by (intro put_after_mark) auto
    then show ?thesis using False assms by (simp add: sha256_pad_def Let_def)
  qed
qed

lemma sha256_pad_long:
  assumes "usedspace c = length r" and "56 \<le> length r" and "length r < 64"
    and "length (sha_buffer c) = 64" and "take (length r) (sha_buffer c) = r"
  shows "sha_state (sha256_pad c) = compress (sha_state c) (r @ 0x80 # replicate (63 - length r) 0)"
    and "length (sha_buffer (sha256_pad c)) = 64"
    and "take 56 (sha_buffer (sha256_pad c)) = replicate 56 0"
proof -
  let ?b = "put_bytes ((sha_buffer c)[length r := 0x80]) (length r + 1) (replicate (64 - (length r + 1)) 0)"
  let ?c = "sha256_transform (c\<lparr>sha_buffer := ?b\<rparr>) None"
  have b: "length ?b = 64" "take 64 ?b = r @ 0x80 # replicate (64 - (length r + 1)) 0"
    using assms put_after_mark [of r 64 "sha_buffer c"] by auto
  then have b': "?b = r @ 0x80 # replicate (63 - length r) 0"
    by simp
  have pad: "sha256_pad c = ?c\<lparr>sha_buffer := put_bytes (sha_buffer ?c) 0 (replicate 56 0)\<rparr>"
  proof (cases "length r = 63")
    case True
    with assms show ?thesis by (simp add: sha256_pad_def Let_def)
  next
    case False
    have "r \<noteq> []" "\<not> length r + 1 \<le> 56" using assms(2) by auto
    with False assms show ?thesis by (simp add: sha256_pad_def Let_def)
  qed
  have t: "sha_state ?c = compress (sha_state c) (r @ 0x80 # replicate (63 - length r) 0)"
    "length (sha_buffer ?c) = 64"
    using sha256_transform_compress [of "c\<lparr>sha_buffer := ?b\<rparr>" ?b None] b b' by simp_all
  show "sha_state (sha256_pad c) = compress (sha_state c) (r @ 0x80 # replicate (63 - length r) 0)"
    and "length (sha_buffer (sha256_pad c)) = 64"
    and "take 56 (sha_buffer (sha256_pad c)) = replicate 56 0"
    using t take_put_bytes [of 0 "replicate 56 0" "sha_buffer ?c"] by (simp_all add: pad)
qed

lemma hash_blocks_padded:
  assumes "64 dvd length f" and "length r < 64"
    and "length f + length r = n" and "h = hash_blocks st f"
  shows "hash_blocks st ((f @ r) @ sha_padding n) =
    (if length r < 56 then compress h ((r @ 0x80 # replicate (55 - length r) 0) @ be64_bytes (of_nat (8 * n)))
     else compress (compress h (r @ 0x80 # replicate (63 - length r) 0))
       (replicate 56 0 @ be64_bytes (of_nat (8 * n))))"
proof -
  let ?l = "be64_bytes (of_nat (8 * n))"
  have l: "length ?l = 8" by (simp add: be64_bytes_def le64_bytes_def)
  have n: "n mod 64 = length r" using assms by (auto elim!: dvdE)
  have split: "hash_blocks st (f @ r @ sha_padding n) = hash_blocks h (r @ sha_padding n)"
    by (simp only: hash_blocks_append [OF assms(1)] assms(4))
  show ?thesis
  proof (cases "length r < 56")
    case True
    then have "(119 - n mod 64) mod 64 = 55 - length r"
      unfolding n by (simp add: mod_if)
    then have "r @ sha_padding n = (r @ 0x80 # replicate (55 - length r) 0) @ ?l"
      by (simp add: sha_padding_def)
    moreover have "length ((r @ 0x80 # replicate (55 - length r) 0) @ ?l) = 64" using True l by simp
    ultimately have "hash_blocks h (r @ sha_padding n) = compress h ((r @ 0x80 # replicate (55 - length r) 0) @ ?l)"
      by (simp only: hash_blocks_one)
    then show ?thesis using True by (simp only: append_assoc split if_True)
  next
    case False
    let ?b = "r @ 0x80 # replicate (63 - length r) 0"
    have "(119 - n mod 64) mod 64 = 119 - length r"
      using False unfolding n by (simp add: mod_if)
    moreover have "119 - length r = (63 - length r) + 56" using assms(2) by simp
    then have "replicate (119 - length r) (0 :: u8) = replicate (63 - length r) 0 @ replicate 56 0"
      by (simp only: replicate_add)
    ultimately have "r @ sha_padding n = ?b @ (replicate 56 0 @ ?l)"
      by (simp only: sha_padding_def append_assoc append_Cons)
    moreover have "length ?b = 64" using assms(2) by simp
    then have "hash_blocks h (?b @ x) = hash_blocks (compress h ?b) x" for x
      using hash_blocks_append [of ?b h x] hash_blocks_one [of ?b h] by simp
    moreover have "length (replicate 56 0 @ ?l) = 64" using l by simp
    ultimately have "hash_blocks h (r @ sha_padding n) = compress (compress h ?b) (replicate 56 0 @ ?l)"
      by (simp only: hash_blocks_one)
    then show ?thesis using False by (simp only: append_assoc split if_False)
  qed
qed

lemma sha256_final_digest:
  assumes "sha_holds c m" and "length m < 2 ^ 61"
  shows "sha256_final c = (zero_ctx, SHA256 m)"
proof -
  obtain f r where m: "m = f @ r" "64 dvd length f" "length r < 64" by (rule split_blocks)
  let ?n = "length m"
  have used: "usedspace c = length r"
    using sha_holds_usedspace_blocks [of c f r] assms m by simp
  have c: "sha_state c = hash_blocks sha256_initial_hash_value f" "bitcount c = of_nat (8 * ?n)"
    "length (sha_buffer c) = 64" "take (length r) (sha_buffer c) = r"
    using assms m sha_holds_blocks [of f r c] by auto
  let ?l = "be64_bytes (of_nat (8 * ?n))"
  let ?p = "sha256_pad c"
  let ?c = "?p\<lparr>bitcount := REVERSE64 (bitcount c), sha_buffer := put_bytes (sha_buffer ?p) 56 ?l\<rparr>"
  have l: "length ?l = 8" by (simp add: be64_bytes_def le64_bytes_def)
  have p: "length (sha_buffer ?p) = 64"
    using sha256_pad_short(2) [OF used _ c(3,4)] sha256_pad_long(2) [OF used _ m(3) c(3,4)] by linarith
  have buf: "sha_buffer ?c = take 56 (sha_buffer ?p) @ ?l" "length (sha_buffer ?c) = 64"
    using p l by (simp_all add: put_bytes_def)
  have "sha_state (sha256_transform ?c None) = compress (sha_state ?p) (take 56 (sha_buffer ?p) @ ?l)"
    using sha256_transform_compress(1) [OF buf(2), of "take 56 (sha_buffer ?p) @ ?l" None] buf(1) by simp
  also have "\<dots> = hash_blocks sha256_initial_hash_value (m @ sha_padding ?n)"
  proof (cases "length r < 56")
    case True
    with sha256_pad_short [OF used True c(3,4)] hash_blocks_padded [OF m(2,3) _ c(1), of ?n] m(1)
    show ?thesis by simp
  next
    case False
    then have "56 \<le> length r" by simp
    with sha256_pad_long [OF used _ m(3) c(3,4)] hash_blocks_padded [OF m(2,3) _ c(1), of ?n] m(1) False
    show ?thesis by simp
  qed
  finally show ?thesis
    by (simp add: sha256_final_def Let_def c(2) le64_REVERSE64 SHA256_def digest_word_bytes32 cong: map_cong)
qed

section \<open>The interface\<close>

text \<open>
  What a client of a streaming digest relies on: a relation between the context and the bytes
  so far, kept by every update, whose final step gives the digest. A keyed digest built on it
  has the same interface.
\<close>

locale streaming_hash =
  fixes init :: "'c \<Rightarrow> 'c"
    and update :: "'c \<Rightarrow> bytes \<Rightarrow> 'c"
    and final :: "'c \<Rightarrow> 'c \<times> bytes"
    and cleared :: 'c
    and hash :: "bytes \<Rightarrow> bytes"
    and holds :: "'c \<Rightarrow> bytes \<Rightarrow> bool"
    and limit :: nat
  assumes init_holds: "holds (init c) []"
    and update_holds: "holds c m \<Longrightarrow> length m < limit \<Longrightarrow> holds (update c d) (m @ d)"
    and final_hash: "holds c m \<Longrightarrow> length m < limit \<Longrightarrow> final c = (cleared, hash m)"
begin

lemma updates_hold:
  "holds c m \<Longrightarrow> length m + length (concat ds) < limit \<Longrightarrow>
   holds (fold (\<lambda>d c. update c d) ds c) (m @ concat ds)"
proof (induction ds arbitrary: c m)
  case (Cons d ds)
  have "holds (update c d) (m @ d)"
    using Cons.prems by (intro update_holds) auto
  then show ?case using Cons.IH [of "update c d" "m @ d"] Cons.prems(2) by (simp add: add.assoc)
qed simp

lemma streaming:
  "length (concat ds) < limit \<Longrightarrow>
   final (fold (\<lambda>d c. update c d) ds (init c)) = (cleared, hash (concat ds))"
  using updates_hold [OF init_holds, of ds c] by (auto intro: final_hash)

lemma one_update: "length d < limit \<Longrightarrow> final (update (init c) d) = (cleared, hash d)"
  using streaming [of "[d]" c] by simp

lemma two_updates:
  "length d + length e < limit \<Longrightarrow> final (update (update (init c) d) e) = (cleared, hash (d @ e))"
  using streaming [of "[d, e]" c] by simp

end

interpretation sha: streaming_hash sha256_init sha256_update sha256_final zero_ctx SHA256 sha_holds "2 ^ 61"
  by unfold_locales (simp_all only: sha_holds_init sha_holds_update sha256_final_digest)

section \<open>Correctness\<close>

text \<open>
  C36: However a message is cut into updates, and whatever the memory the context was made in
  held, the streaming code returns the SHA-256 of the standard and leaves a cleared context.
  The length is bounded by what the 64-bit bit counter can hold.
\<close>

theorem sha256_streaming_correct:
  assumes "length (concat chunks) < 2 ^ 61"
  shows "sha256_final (fold (\<lambda>d c. sha256_update c d) chunks (sha256_init context)) =
    (zero_ctx, SHA256 (concat chunks))"
  using assms by (rule sha.streaming)

theorem sha256_streaming_correct_witness:
  "sha256_final (fold (\<lambda>d c. sha256_update c d) [[0x61], replicate 100 0x62, [0x63]] (sha256_init zero_ctx)) =
    (zero_ctx, SHA256 (0x61 # replicate 100 0x62 @ [0x63]))"
  using sha256_streaming_correct [of "[[0x61], replicate 100 0x62, [0x63]]" zero_ctx] by simp

lemma sha256_raw_correct: "length data < 2 ^ 61 \<Longrightarrow> sha256_raw data = SHA256 data"
  by (simp only: sha256_raw_def sha.one_update snd_conv)

lemma length_SHA256 [simp]: "length (SHA256 m) = 32"
proof -
  have "length (hash_blocks st bs) = 8" if "length st = 8" for st :: "u32 list" and bs
    using that
  proof (induction st bs rule: hash_blocks.induct)
    case (1 st bs)
    have "length (compress st b) = 8" for b
      by (simp add: compress_def add_regs_def split: prod.split)
    with 1 show ?case by (simp add: hash_blocks.simps [of st bs])
  qed
  then have "length (hash_blocks sha256_initial_hash_value bs) = 8" for bs
    by (simp add: sha256_initial_hash_value_def)
  then show ?thesis
    by (simp add: SHA256_def length_concat o_def bytes32_def sum_list_triv)
qed

end
