(* ===== verification/Crypto.thy ===== *)
theory Crypto
  imports Aes Sha256
begin

text \<open>
  \<open>user/crypto/hmac-sha256.c\<close> and \<open>user/crypto/crypto.c\<close>: the keyed digest, and the
  combination the firmware protects every MQTT message with: HMAC of the topic, the IV and the
  ciphertext, then the IV, then the AES-CBC ciphertext of the padded message. The random IV is
  a parameter (\<open>os_get_random\<close> belongs to the SDK).
\<close>

section \<open>The keyed digest\<close>

record hmac_sha256_ctx =
  o_key_pad :: bytes
  ctx :: sha256_ctx

definition key_pad :: "bytes \<Rightarrow> bytes" where
  "key_pad key =
     put_bytes (replicate 64 0) 0 (if length key > 64 then sha256_raw key else key)"

definition hmac_sha256_init :: "bytes \<Rightarrow> hmac_sha256_ctx \<Rightarrow> hmac_sha256_ctx" where
  "hmac_sha256_init key hctx =
     (let i_key_pad = key_pad key;
          hctx = hctx\<lparr>o_key_pad := map (\<lambda>b. b XOR 0x5c) i_key_pad\<rparr>;
          i_key_pad = map (\<lambda>b. b XOR 0x36) i_key_pad;
          hctx = hctx\<lparr>ctx := sha256_init (ctx hctx)\<rparr>
      in hctx\<lparr>ctx := sha256_update (ctx hctx) i_key_pad\<rparr>)"

definition hmac_sha256_update :: "hmac_sha256_ctx \<Rightarrow> bytes \<Rightarrow> hmac_sha256_ctx" where
  "hmac_sha256_update hctx msg = hctx\<lparr>ctx := sha256_update (ctx hctx) msg\<rparr>"

definition zero_hctx :: hmac_sha256_ctx where
  "zero_hctx = \<lparr>o_key_pad = replicate 64 0, ctx = zero_ctx\<rparr>"

definition hmac_sha256_final :: "hmac_sha256_ctx \<Rightarrow> hmac_sha256_ctx \<times> bytes" where
  "hmac_sha256_final hctx =
     (let (c, hash) = sha256_final (ctx hctx);
          c = sha256_init c;
          c = sha256_update c (o_key_pad hctx);
          c = sha256_update c hash;
          (c, hmac) = sha256_final c
      in (zero_hctx, hmac))"

definition hmac_sha256 :: "bytes \<Rightarrow> bytes \<Rightarrow> bytes" where
  "hmac_sha256 key msg =
     snd (hmac_sha256_final (hmac_sha256_update (hmac_sha256_init key zero_hctx) msg))"

text \<open>The standard.\<close>

definition HMAC :: "bytes \<Rightarrow> bytes \<Rightarrow> bytes" where
  "HMAC key msg =
     (let key = (if length key > 64 then SHA256 key else key);
          key = key @ replicate (64 - length key) 0
      in SHA256 (map (\<lambda>b. b XOR 0x5c) key @ SHA256 (map (\<lambda>b. b XOR 0x36) key @ msg)))"

lemma key_pad_block:
  "length key < 2 ^ 61 \<Longrightarrow>
   key_pad key = (let key = (if length key > 64 then SHA256 key else key) in key @ replicate (64 - length key) 0)"
  by (simp add: key_pad_def sha256_raw_correct put_bytes_def)

lemma length_key_pad: "length key < 2 ^ 61 \<Longrightarrow> length (key_pad key) = 64"
  by (simp add: key_pad_block Let_def)

definition hmac_holds :: "bytes \<Rightarrow> hmac_sha256_ctx \<Rightarrow> bytes \<Rightarrow> bool" where
  "hmac_holds key h m \<longleftrightarrow>
     length key < 2 ^ 61 \<longrightarrow>
     sha_holds (ctx h) (map (\<lambda>b. b XOR 0x36) (key_pad key) @ m) \<and>
     o_key_pad h = map (\<lambda>b. b XOR 0x5c) (key_pad key)"

definition hmac_limit :: "bytes \<Rightarrow> nat" where
  "hmac_limit key = (if length key < 2 ^ 61 then 2 ^ 61 - 64 else 0)"

lemma hmac_sha256_final_HMAC:
  assumes "hmac_holds key h m" and "length m < hmac_limit key"
  shows "hmac_sha256_final h = (zero_hctx, HMAC key m)"
proof -
  have key: "length key < 2 ^ 61" and m: "64 + length m < 2 ^ 61"
    using assms(2) by (auto simp: hmac_limit_def split: if_splits)
  let ?i = "map (\<lambda>b. b XOR 0x36) (key_pad key)" and ?o = "map (\<lambda>b. b XOR 0x5c) (key_pad key)"
  have "sha_holds (ctx h) (?i @ m)" and o: "o_key_pad h = ?o"
    using assms(1) key by (simp_all add: hmac_holds_def)
  then have inner: "sha256_final (ctx h) = (zero_ctx, SHA256 (?i @ m))"
    using m key by (intro sha256_final_digest) (simp_all add: length_key_pad)
  have "length ?o + length (SHA256 (?i @ m)) < 2 ^ 61"
    using key by (simp add: length_key_pad)
  then have "sha256_final (sha256_update (sha256_update (sha256_init zero_ctx) ?o) (SHA256 (?i @ m))) =
      (zero_ctx, SHA256 (?o @ SHA256 (?i @ m)))"
    by (rule sha.two_updates)
  moreover have "SHA256 (?o @ SHA256 (?i @ m)) = HMAC key m"
    by (simp add: HMAC_def key_pad_block [OF key] Let_def)
  ultimately show ?thesis
    by (simp only: hmac_sha256_final_def inner o Let_def prod.case)
qed

interpretation hmac: streaming_hash "hmac_sha256_init key" hmac_sha256_update hmac_sha256_final
    zero_hctx "HMAC key" "hmac_holds key" "hmac_limit key" for key
proof unfold_locales
  show "hmac_holds key (hmac_sha256_init key c) []" for c
  proof (unfold hmac_holds_def, intro impI)
    let ?i = "map (\<lambda>b. b XOR 0x36) (key_pad key)"
    have "sha_holds (sha256_update (sha256_init (ctx c)) ?i) ([] @ ?i)"
      by (rule sha_holds_update) (simp_all add: sha_holds_init)
    then show "sha_holds (ctx (hmac_sha256_init key c)) (?i @ []) \<and>
        o_key_pad (hmac_sha256_init key c) = map (\<lambda>b. b XOR 0x5c) (key_pad key)"
      by (simp add: hmac_sha256_init_def Let_def)
  qed
  show "hmac_holds key (hmac_sha256_update c d) (m @ d)"
    if "hmac_holds key c m" "length m < hmac_limit key" for c m d
  proof -
    have "length key < 2 ^ 61" "64 + length m < 2 ^ 61"
      using that(2) by (auto simp: hmac_limit_def split: if_splits)
    then show ?thesis
      using that(1) sha_holds_update [of "ctx c" "map (\<lambda>b. b XOR 0x36) (key_pad key) @ m" d]
      by (simp add: hmac_holds_def hmac_sha256_update_def length_key_pad)
  qed
  show "hmac_sha256_final c = (zero_hctx, HMAC key m)"
    if "hmac_holds key c m" "length m < hmac_limit key" for c m
    using that by (rule hmac_sha256_final_HMAC)
qed

lemma length_HMAC [simp]: "length (HMAC key m) = 32"
  by (simp add: HMAC_def Let_def)

section \<open>The combination\<close>

record crypto =
  sha256_hash :: bytes
  aes_key :: bytes
  hmac_sha256_key :: bytes
  aes_static :: aes

definition init_aes_hmac_combined :: "bytes \<Rightarrow> crypto \<Rightarrow> crypto" where
  "init_aes_hmac_combined key cr =
     (let master_key = take 16 key;
          cr = cr\<lparr>sha256_hash := sha256_raw master_key\<rparr>;
          cr = cr\<lparr>aes_key := take 16 (sha256_hash cr)\<rparr>
      in cr\<lparr>hmac_sha256_key := sub_bytes (sha256_hash cr) 16 16\<rparr>)"

definition encrypt_aes_hmac_combined ::
    "crypto \<Rightarrow> bytes \<Rightarrow> bytes \<Rightarrow> bytes \<Rightarrow> bytes \<Rightarrow> crypto \<times> bytes \<times> nat" where
  "encrypt_aes_hmac_combined cr iv dst topic message =
     (let message_l = length message;
          dst = put_bytes dst 32 iv;
          pad = 16 - message_l mod 16;
          padded_len = message_l + pad;
          dst = put_bytes dst (32 + 16) message;
          dst = put_bytes dst (32 + 16 + message_l) (replicate pad (of_nat pad));
          (a, dst) = AES128_CBC_encrypt_buffer (aes_static cr) dst (32 + 16) (32 + 16) padded_len
                       (Some (aes_key cr)) (Some 32);
          total_len = 32 + 16 + padded_len;
          hctx = hmac_sha256_init (hmac_sha256_key cr) zero_hctx;
          hctx = hmac_sha256_update hctx topic;
          hctx = hmac_sha256_update hctx (sub_bytes dst 32 (total_len - 32));
          (hctx, hmac) = hmac_sha256_final hctx
      in (cr\<lparr>aes_static := a\<rparr>, put_bytes dst 0 hmac, total_len))"

definition padding_ok :: "bytes \<Rightarrow> nat \<Rightarrow> u8 \<Rightarrow> bool" where
  "padding_ok dst encrypted_len pad \<longleftrightarrow> (\<forall>i < unat pad. dst ! (encrypted_len - 1 - i) = pad)"

definition decrypt_aes_hmac_combined ::
    "crypto \<Rightarrow> bytes \<Rightarrow> bytes \<Rightarrow> bytes \<Rightarrow> nat \<Rightarrow> crypto \<times> bytes \<times> nat" where
  "decrypt_aes_hmac_combined cr dst topic message message_l =
     (if message_l < 32 + 16 then (cr, dst, 0)
      else
        let hctx = hmac_sha256_init (hmac_sha256_key cr) zero_hctx;
            hctx = hmac_sha256_update hctx topic;
            hctx = hmac_sha256_update hctx (sub_bytes message 32 (message_l - 32));
            (hctx, calculated_hmac_sha256) = hmac_sha256_final hctx
        in if calculated_hmac_sha256 \<noteq> take 32 message then (cr, dst, 0)
           else
             let encrypted_len = message_l - (32 + 16);
                 (a, mem) = AES128_CBC_decrypt_buffer (aes_static cr) (message @ dst) (length message) (32 + 16)
                              encrypted_len (Some (aes_key cr)) (Some 32);
                 dst = drop (length message) mem;
                 cr = cr\<lparr>aes_static := a\<rparr>
             in if encrypted_len = 0 then (cr, dst, 0)
                else
                  let pad = dst ! (encrypted_len - 1)
                  in if pad = 0 \<or> pad > 16 then (cr, dst, 0)
                     else if \<not> padding_ok dst encrypted_len pad then (cr, dst, 0)
                     else (cr, dst, encrypted_len - unat pad))"

definition padded :: "bytes \<Rightarrow> bytes" where
  "padded message = message @ replicate (16 - length message mod 16) (of_nat (16 - length message mod 16))"

definition keys_ok :: "crypto \<Rightarrow> bool" where
  "keys_ok cr \<longleftrightarrow> length (aes_key cr) = 16 \<and> length (hmac_sha256_key cr) = 16 \<and> length (RoundKey (aes_static cr)) = 176"

lemma length_padded: "length (padded m) = 16 * (length m div 16 + 1)"
proof -
  have "n + (16 - n mod 16) = 16 * (n div 16 + 1)" for n :: nat by presburger
  then show ?thesis by (simp add: padded_def)
qed

lemma hmac_of_message:
  assumes "keys_ok cr" and "length topic + length text < 2 ^ 60"
  shows "hmac_sha256_final (hmac_sha256_update (hmac_sha256_update (hmac_sha256_init (hmac_sha256_key cr) zero_hctx) topic) text) =
    (zero_hctx, HMAC (hmac_sha256_key cr) (topic @ text))"
proof -
  have "length topic + length text < hmac_limit (hmac_sha256_key cr)"
    using assms by (simp add: hmac_limit_def keys_ok_def)
  then show ?thesis by (rule hmac.two_updates)
qed

text \<open>What an encrypted message consists of.\<close>

definition envelope :: "crypto \<Rightarrow> bytes \<Rightarrow> bytes \<Rightarrow> bytes \<Rightarrow> bytes" where
  "envelope cr iv topic message =
     (let body = iv @ cbc_encrypt (cbc_E (aes_key cr)) iv (length message div 16 + 1) (padded message)
      in HMAC (hmac_sha256_key cr) (topic @ body) @ body)"

lemma length_envelope:
  "length iv = 16 \<Longrightarrow> length (envelope cr iv topic m) = 48 + 16 * (length m div 16 + 1)"
  unfolding envelope_def cbc_E_def Let_def using aes.length_cbc_encrypt [OF length_padded, of iv "aes_key cr" m]
  by simp

text \<open>The buffer in front of the encryption.\<close>

lemma plaintext_in_place:
  assumes "length iv = 16" and "48 + length (padded m) \<le> length dst"
  shows "put_bytes (put_bytes (put_bytes dst 32 iv) (32 + 16) m) (32 + 16 + length m)
           (replicate (16 - length m mod 16) (of_nat (16 - length m mod 16))) =
         take 32 dst @ iv @ padded m @ drop (48 + length (padded m)) dst"
proof -
  let ?pad = "replicate (16 - length m mod 16) (of_nat (16 - length m mod 16)) :: bytes"
  have len: "48 + length m + length ?pad \<le> length dst" using assms(2) by (simp add: padded_def)
  have "put_bytes (put_bytes dst 32 iv) (32 + 16) m = put_bytes dst 32 (iv @ m)"
    using assms len by (intro put_bytes_append) auto
  moreover have "put_bytes (put_bytes dst 32 (iv @ m)) (32 + 16 + length m) ?pad = put_bytes dst 32 ((iv @ m) @ ?pad)"
    using assms len by (intro put_bytes_append) auto
  ultimately show ?thesis using assms(1) by (simp add: put_bytes_def padded_def)
qed

lemma encrypt_envelope:
  assumes "keys_ok cr" and "length iv = 16" and "48 + length (padded m) \<le> length dst"
    and "length topic + length m < 2 ^ 59"
  obtains a where
    "encrypt_aes_hmac_combined cr iv dst topic m =
       (cr\<lparr>aes_static := a\<rparr>, envelope cr iv topic m @ drop (48 + length (padded m)) dst, 48 + length (padded m))"
    and "length (RoundKey a) = 176"
proof -
  let ?p = "padded m" and ?n = "length m div 16 + 1"
  let ?post = "drop (48 + length ?p) dst" and ?pre = "take 32 dst"
  let ?c = "cbc_encrypt (cbc_E (aes_key cr)) iv ?n ?p"
  have p: "length ?p = 16 * ?n" by (rule length_padded)
  have pad: "length m + (16 - length m mod 16) = 16 * ?n" using p by (simp add: padded_def)
  have pre: "length ?pre = 32" using assms(3) by simp
  have c: "length ?c = 16 * ?n" unfolding cbc_E_def by (rule aes.length_cbc_encrypt) (use assms p in simp_all)
  let ?r = "AES128_CBC_encrypt_buffer (aes_static cr) (?pre @ iv @ ?p @ ?post) (32 + 16) (32 + 16) (16 * ?n)
      (Some (aes_key cr)) (Some 32)"
  obtain a where r: "?r = (a, ?pre @ iv @ ?c @ ?post)" and a: "length (RoundKey a) = 176"
    using AES128_CBC_encrypt_in_place [where key = "aes_key cr" and a = "aes_static cr" and iv = iv and p = ?p
        and n = ?n and pre = ?pre and post = ?post] assms p pre
    by (cases ?r) (simp add: keys_ok_def)
  let ?total = "32 + 16 + 16 * ?n"
  have body: "sub_bytes (?pre @ iv @ ?c @ ?post) 32 (?total - 32) = iv @ ?c"
    using pre c assms(2) by (simp add: sub_bytes_def)
  have "length topic + length (iv @ ?c) < 2 ^ 60" using assms(2,4) c by simp
  note mac = hmac_of_message [OF assms(1) this]
  let ?h = "HMAC (hmac_sha256_key cr) (topic @ iv @ ?c)"
  have "put_bytes (?pre @ iv @ ?c @ ?post) 0 ?h = ?h @ iv @ ?c @ ?post"
    using pre by (simp add: put_bytes_def)
  then have "encrypt_aes_hmac_combined cr iv dst topic m =
       (cr\<lparr>aes_static := a\<rparr>, ?h @ iv @ ?c @ ?post, ?total)"
    unfolding encrypt_aes_hmac_combined_def Let_def plaintext_in_place [OF assms(2,3)] pad
    by (simp only: r prod.case body mac)
  then show thesis using a that by (simp only: envelope_def Let_def p append_assoc) simp
qed

text \<open>Decryption of an authentic message.\<close>

lemma padding_ok_padded:
  assumes "take (length (padded m)) dst = padded m"
  shows "dst ! (length (padded m) - 1) = of_nat (16 - length m mod 16)"
    and "padding_ok dst (length (padded m)) (of_nat (16 - length m mod 16))"
proof -
  let ?k = "16 - length m mod 16"
  have k: "0 < ?k" "?k \<le> 16" by auto
  have len: "length (padded m) = length m + ?k" by (simp add: padded_def)
  have nth: "dst ! (length (padded m) - 1 - i) = of_nat ?k" if "i < ?k" for i
  proof -
    have "dst ! (length (padded m) - 1 - i) = take (length (padded m)) dst ! (length (padded m) - 1 - i)"
      using that len by (intro nth_take [symmetric]) linarith
    also have "\<dots> = padded m ! (length m + (?k - 1 - i))"
      using that len unfolding assms by (intro arg_cong [where f = "(!) (padded m)"]) linarith
    also have "\<dots> = of_nat ?k"
      unfolding padded_def nth_append_length_plus using that by simp
    finally show ?thesis .
  qed
  show "dst ! (length (padded m) - 1) = of_nat ?k" using nth [of 0] k by simp
  have "unat (of_nat ?k :: u8) = ?k" using k by (simp only: unat_of_nat) simp
  then show "padding_ok dst (length (padded m)) (of_nat ?k)"
    using nth by (simp only: padding_ok_def) blast
qed

lemma decrypt_envelope:
  assumes "keys_ok cr" and "length iv = 16" and "length (padded m) \<le> length dst"
    and "length topic + length m < 2 ^ 59" and "length msg = 48 + length (padded m)"
    and "msg = envelope cr iv topic m"
  shows "snd (decrypt_aes_hmac_combined cr dst topic (msg @ rest) (length msg)) =
    (put_bytes dst 0 (padded m), length m)"
proof -
  let ?p = "padded m" and ?n = "length m div 16 + 1"
  let ?c = "cbc_encrypt (cbc_E (aes_key cr)) iv ?n ?p"
  let ?k = "16 - length m mod 16"
  have p: "length ?p = 16 * ?n" by (rule length_padded)
  have c: "length ?c = 16 * ?n" unfolding cbc_E_def by (rule aes.length_cbc_encrypt) (use assms p in simp_all)
  let ?h = "HMAC (hmac_sha256_key cr) (topic @ iv @ ?c)"
  have msg: "msg = ?h @ iv @ ?c" unfolding assms(6) by (simp only: envelope_def Let_def)
  have body: "sub_bytes (msg @ rest) 32 (length msg - 32) = iv @ ?c"
    and tag: "take 32 (msg @ rest) = ?h"
    unfolding msg by (simp_all add: sub_bytes_def)
  have "length topic + length (iv @ ?c) < 2 ^ 60" using assms(2,4) c by simp
  note mac = hmac_of_message [OF assms(1) this]
  let ?mem = "(msg @ rest) @ dst" and ?o = "length (msg @ rest)"
  let ?r = "AES128_CBC_decrypt_buffer (aes_static cr) ?mem ?o (32 + 16) (16 * ?n) (Some (aes_key cr)) (Some 32)"
  have "sub_bytes ?mem 32 16 = iv" "sub_bytes ?mem (32 + 16) (16 * ?n) = ?c"
    unfolding msg using assms(2) c by (simp_all add: sub_bytes_def)
  moreover have "cbc_decrypt (cbc_D (aes_key cr)) iv ?n ?c = ?p"
    unfolding cbc_E_def cbc_D_def by (rule aes.cbc_roundtrip) (use assms p in simp_all)
  moreover have "snd ?r = put_bytes ?mem ?o
      (cbc_decrypt (cbc_D (aes_key cr)) (sub_bytes ?mem 32 16) ?n (sub_bytes ?mem (32 + 16) (16 * ?n)))"
    by (rule AES128_CBC_decrypt_disjoint) (use assms p in \<open>auto simp: keys_ok_def\<close>)
  ultimately have "snd ?r = put_bytes ?mem ?o ?p" by simp
  also have "\<dots> = (msg @ rest) @ put_bytes dst 0 ?p"
    using assms(3) by (simp add: put_bytes_def)
  finally obtain a where r: "?r = (a, (msg @ rest) @ put_bytes dst 0 ?p)" by (cases ?r) simp
  let ?dst = "put_bytes dst 0 ?p"
  have d: "drop ?o ((msg @ rest) @ ?dst) = ?dst" by (simp only: append_eq_conv_conj [symmetric] drop_append) simp
  have enc: "length msg - (32 + 16) = length ?p" using assms(5) by simp
  have long: "\<not> length msg < 32 + 16" "length ?p \<noteq> 0" using assms(5) p by simp_all
  have "take (length ?p) ?dst = ?p" by (simp add: put_bytes_def)
  note pad = padding_ok_padded [OF this]
  have k: "unat (of_nat ?k :: u8) = ?k" by (simp only: unat_of_nat) simp
  then have "(of_nat ?k :: u8) \<noteq> 0" "\<not> (of_nat ?k :: u8) > 16"
    by (simp_all only: word_less_nat_alt unat_eq_zero [symmetric] k) simp_all
  moreover have "length ?p - ?k = length m" by (simp add: padded_def)
  ultimately show ?thesis
    using long pad k
    by (simp only: decrypt_aes_hmac_combined_def Let_def body tag mac prod.case enc p [symmetric] r [folded p] d
        if_False simp_thms snd_conv)
qed

lemma decrypt_static:
  assumes "decrypt_aes_hmac_combined cr dst topic msg l = (cr', out, n)" and "keys_ok cr"
  obtains a where "cr' = cr\<lparr>aes_static := a\<rparr>" and "length (RoundKey a) = 176"
proof -
  let ?r = "AES128_CBC_decrypt_buffer (aes_static cr) (msg @ dst) (length msg) (32 + 16) (l - (32 + 16))
      (Some (aes_key cr)) (Some 32)"
  obtain h' hm where h: "hmac_sha256_final (hmac_sha256_update (hmac_sha256_update (hmac_sha256_init (hmac_sha256_key cr) zero_hctx) topic)
      (sub_bytes msg 32 (l - 32))) = (h', hm)" by (rule prod.exhaust)
  obtain a mem where r: "?r = (a, mem)" by (rule prod.exhaust)
  have ok: "length (RoundKey (aes_static cr)) = 176" "length (RoundKey a) = 176"
    using assms(2) AES128_CBC_decrypt_key [of "aes_static cr" "msg @ dst" "length msg" "32 + 16" "l - (32 + 16)" "aes_key cr" 32]
    by (simp_all only: keys_ok_def r fst_conv)
  have "cr' = cr \<or> cr' = cr\<lparr>aes_static := a\<rparr>"
    using assms(1) unfolding decrypt_aes_hmac_combined_def Let_def h r prod.case
    by (auto simp only: prod.inject split: if_splits)
  then show thesis using that [of "aes_static cr"] that [of a] ok by (elim disjE) simp_all
qed

lemma decrypt_tag:
  assumes "keys_ok cr" and "length topic + length msg < 2 ^ 60" and "l \<le> length msg"
    and "decrypt_aes_hmac_combined cr dst topic msg l = (cr', out, n)" and "n \<noteq> 0 \<or> out \<noteq> dst"
  shows "48 \<le> l \<and> take 32 msg = HMAC (hmac_sha256_key cr) (topic @ sub_bytes msg 32 (l - 32))"
proof -
  have l: "48 \<le> l" using assms(4,5) by (cases "48 \<le> l") (auto simp: decrypt_aes_hmac_combined_def)
  have "length topic + length (sub_bytes msg 32 (l - 32)) < 2 ^ 60"
    using assms(2,3) l by simp
  note mac = hmac_of_message [OF assms(1) this]
  have "decrypt_aes_hmac_combined cr dst topic msg l = (cr, dst, 0)"
    if "take 32 msg \<noteq> HMAC (hmac_sha256_key cr) (topic @ sub_bytes msg 32 (l - 32))"
    using l that by (auto simp: decrypt_aes_hmac_combined_def mac Let_def)
  then show ?thesis using l assms(4,5) by auto
qed

lemma decrypt_length:
  assumes "decrypt_aes_hmac_combined cr dst topic msg l = (cr', out, n)"
  shows "n \<le> l - 48"
  using assms by (auto simp: decrypt_aes_hmac_combined_def Let_def split: prod.splits if_splits)
lemma keys_ok_init:
  "length key \<ge> 16 \<Longrightarrow> length (RoundKey (aes_static cr)) = 176 \<Longrightarrow> keys_ok (init_aes_hmac_combined key cr)"
  by (simp add: init_aes_hmac_combined_def Let_def keys_ok_def sha256_raw_correct)

lemma hmac_sha256_correct:
  "length key < 2 ^ 61 \<Longrightarrow> length msg < 2 ^ 61 - 64 \<Longrightarrow> hmac_sha256 key msg = HMAC key msg"
  unfolding hmac_sha256_def by (subst hmac.one_update) (simp_all add: hmac_limit_def)

lemma envelope_cong:
  "aes_key cr = aes_key cr' \<Longrightarrow> hmac_sha256_key cr = hmac_sha256_key cr' \<Longrightarrow>
   envelope cr iv topic m = envelope cr' iv topic m"
  by (simp add: envelope_def)

section \<open>Properties\<close>

text \<open>
  C12: What one device encrypts, a device with the same keys decrypts: for every topic, IV and
  message (with room for the overhead of at most 64 bytes that \<open>AES_HMAC_OVERHEAD\<close> promises) the
  message comes back with its length, nothing behind the encrypted message is changed, and the
  buffers keep their size.
\<close>

theorem encrypted_message_roundtrip:
  assumes "keys_ok cr" and "keys_ok cr2" and "aes_key cr2 = aes_key cr"
    and "hmac_sha256_key cr2 = hmac_sha256_key cr" and "length iv = 16"
    and "length m + 64 \<le> length buf" and "length m + 16 \<le> length dst"
    and "length topic + length m < 2 ^ 59"
  shows "case encrypt_aes_hmac_combined cr iv buf topic m of (cr', msg, l) \<Rightarrow>
    l \<le> length m + 64 \<and> length msg = length buf \<and> drop l msg = drop l buf \<and> keys_ok cr' \<and>
    (case decrypt_aes_hmac_combined cr2 dst topic msg l of (cr2', out, n) \<Rightarrow>
       n = length m \<and> take n out = m \<and> length out = length dst)"
proof -
  let ?l = "48 + length (padded m)"
  have l: "length (padded m) \<le> length m + 16" "length m \<le> length (padded m)" by (auto simp: padded_def)
  obtain a where e: "encrypt_aes_hmac_combined cr iv buf topic m =
      (cr\<lparr>aes_static := a\<rparr>, envelope cr iv topic m @ drop ?l buf, ?l)" and a: "length (RoundKey a) = 176"
    using encrypt_envelope [of cr iv m buf topic] assms l by auto
  have len: "length (envelope cr iv topic m) = ?l"
    using length_envelope [OF assms(5)] length_padded by simp
  have "snd (decrypt_aes_hmac_combined cr2 dst topic (envelope cr iv topic m @ drop ?l buf) (length (envelope cr iv topic m))) =
      (put_bytes dst 0 (padded m), length m)"
    using assms l len envelope_cong [of cr2 cr iv topic m] by (intro decrypt_envelope [where iv = iv]) auto
  then obtain cr2' where "decrypt_aes_hmac_combined cr2 dst topic (envelope cr iv topic m @ drop ?l buf) ?l =
      (cr2', put_bytes dst 0 (padded m), length m)"
    using len by (metis prod.collapse)
  moreover have "take (length m) (put_bytes dst 0 (padded m)) = m"
    by (simp add: put_bytes_def padded_def)
  ultimately show ?thesis
    using e a l len assms by (simp add: keys_ok_def)
qed

definition sample_keys :: crypto where
  "sample_keys = \<lparr>sha256_hash = replicate 32 0, aes_key = replicate 16 3, hmac_sha256_key = replicate 16 4,
     aes_static = \<lparr>RoundKey = replicate 176 0, Iv = 0\<rparr>\<rparr>"

theorem encrypted_message_roundtrip_witness:
  "case encrypt_aes_hmac_combined sample_keys (replicate 16 9) (replicate 100 0) [0x2F] [0x68, 0x69, 0] of (cr', msg, l) \<Rightarrow>
    l \<le> 67 \<and> length msg = 100 \<and> drop l msg = drop l (replicate 100 0) \<and> keys_ok cr' \<and>
    (case decrypt_aes_hmac_combined sample_keys (replicate 32 0) [0x2F] msg l of (cr2', out, n) \<Rightarrow>
       n = 3 \<and> take n out = [0x68, 0x69, 0] \<and> length out = 32)"
proof -
  have "keys_ok sample_keys" by (simp add: keys_ok_def sample_keys_def)
  then show ?thesis
    using encrypted_message_roundtrip [of sample_keys sample_keys "replicate 16 9" "[0x68, 0x69, 0]"
      "replicate 100 0" "replicate 32 0" "[0x2F]"] by (simp split: prod.splits)
qed

text \<open>
  C8: Nothing unauthenticated is used: when decryption reports a message, or writes the
  destination at all, the first 32 bytes are the HMAC, under the device's key, of exactly the
  topic, the IV and the ciphertext that were received; and a reported message comes with a
  padding of 1 to 16 bytes, all of them equal to their number.
\<close>

theorem decrypted_message_authentic:
  assumes "keys_ok cr" and "length topic + length msg < 2 ^ 60" and "l \<le> length msg"
    and "decrypt_aes_hmac_combined cr dst topic msg l = (cr', out, n)"
    and "n \<noteq> 0 \<or> out \<noteq> dst"
  shows "48 \<le> l \<and> take 32 msg = HMAC (hmac_sha256_key cr) (topic @ sub_bytes msg 32 (l - 32)) \<and>
    (n \<noteq> 0 \<longrightarrow> (\<exists>pad. 1 \<le> pad \<and> pad \<le> 16 \<and> l = 48 + n + pad \<and>
       (\<forall>i < pad. out ! (n + i) = of_nat pad)))"
proof -
  have l: "48 \<le> l" and tag: "take 32 msg = HMAC (hmac_sha256_key cr) (topic @ sub_bytes msg 32 (l - 32))"
    using decrypt_tag [OF assms] by simp_all
  have "length topic + length (sub_bytes msg 32 (l - 32)) < 2 ^ 60"
    using assms(2,3) l by simp
  note mac = hmac_of_message [OF assms(1) this]
  have "\<exists>pad. 1 \<le> pad \<and> pad \<le> 16 \<and> l = 48 + n + pad \<and> (\<forall>i < pad. out ! (n + i) = of_nat pad)" if n: "n \<noteq> 0"
  proof -
    have nl: "\<not> l < 32 + 16" using l by simp
    let ?p = "out ! (l - 48 - 1)"
    have "?p \<noteq> 0" "\<not> ?p > 16" "padding_ok out (l - 48) ?p" "n = l - 48 - unat ?p" "l \<noteq> 48"
      using assms(4) n nl
      by (auto simp: decrypt_aes_hmac_combined_def mac tag Let_def split: prod.splits if_splits)
    then have p: "1 \<le> unat ?p" "unat ?p \<le> 16" "padding_ok out (l - 48) ?p" "l = 48 + n + unat ?p"
      using n l by (auto simp: unat_gt_0 word_le_nat_alt not_less Suc_le_eq)
    have "out ! (n + i) = ?p" if "i < unat ?p" for i
    proof -
      have "l - 48 - 1 - (unat ?p - 1 - i) = n + i" using that p(1,4) by linarith
      moreover have "out ! (l - 48 - 1 - (unat ?p - 1 - i)) = ?p"
        using p(3) [unfolded padding_ok_def, rule_format, of "unat ?p - 1 - i"] that by simp
      ultimately show ?thesis by simp
    qed
    then show ?thesis using p by (intro exI [of _ "unat ?p"]) simp
  qed
  with l tag show ?thesis by blast
qed

theorem decrypted_message_authentic_witness:
  "take 32 (envelope sample_keys (replicate 16 9) [0x2F] [0x68, 0x69, 0]) =
   HMAC (replicate 16 4) ([0x2F] @ sub_bytes (envelope sample_keys (replicate 16 9) [0x2F] [0x68, 0x69, 0]) 32 32)"
proof -
  let ?m = "[0x68, 0x69, 0] :: bytes"
  let ?msg = "envelope sample_keys (replicate 16 9) [0x2F] ?m"
  have ok: "keys_ok sample_keys" by (simp add: keys_ok_def sample_keys_def)
  have len: "length (padded ?m) = 16" "length ?msg = 64" by (simp_all add: length_padded length_envelope)
  have "snd (decrypt_aes_hmac_combined sample_keys (replicate 32 0) [0x2F] (?msg @ []) (length ?msg)) =
      (put_bytes (replicate 32 0) 0 (padded ?m), length ?m)"
    using ok len by (intro decrypt_envelope [where iv = "replicate 16 9"]) simp_all
  then obtain cr' where "decrypt_aes_hmac_combined sample_keys (replicate 32 0) [0x2F] ?msg 64 =
      (cr', put_bytes (replicate 32 0) 0 (padded ?m), 3)"
    using len by (metis append_Nil2 length_Cons list.size(3) numeral_3_eq_3 prod.collapse)
  then show ?thesis
    using decrypted_message_authentic [OF ok, of "[0x2F]" ?msg 64] len by (simp add: sample_keys_def)
qed

end
