(* ===== verification/KmpRequest.thy ===== *)
theory KmpRequest
  imports RingBuf Kmp Crypto
begin

text \<open>
  \<open>user/kamstrup/kmp_request.c\<close>: the UART receive queue, the task that turns a meter's
  reply into an encrypted MQTT sample, and the timers that send the requests. The heat meter
  build is modelled (no \<open>FLOW_METER\<close>, no \<open>DEBUG\<close> option). What the code does to its
  environment is a list of events; the heap size, the time and the random IV are inputs.
\<close>

section \<open>The receive queue\<close>

record kmp_fifo =
  fifo_head :: nat
  fifo_tail :: nat
  fifo_buffer :: bytes
  fifo_buffer_fill_count :: nat

abbreviation (input) QUEUE_SIZE :: nat where
  "QUEUE_SIZE \<equiv> 256"

definition kmp_fifo_in_use :: "kmp_fifo \<Rightarrow> nat" where
  "kmp_fifo_in_use f = fifo_buffer_fill_count f"

definition kmp_fifo_put :: "kmp_fifo \<Rightarrow> u8 \<Rightarrow> kmp_fifo option" where
  "kmp_fifo_put f c =
     (if kmp_fifo_in_use f \<noteq> QUEUE_SIZE then
        let f = f\<lparr>fifo_buffer := (fifo_buffer f)[fifo_head f mod QUEUE_SIZE := c], fifo_head := fifo_head f + 1\<rparr>;
            f = (if fifo_head f = QUEUE_SIZE then f\<lparr>fifo_head := 0\<rparr> else f)
        in Some (f\<lparr>fifo_buffer_fill_count := fifo_buffer_fill_count f + 1\<rparr>)
      else None)"

definition kmp_fifo_get :: "kmp_fifo \<Rightarrow> (u8 \<times> kmp_fifo) option" where
  "kmp_fifo_get f =
     (if kmp_fifo_in_use f \<noteq> 0 then
        let c = fifo_buffer f ! (fifo_tail f mod QUEUE_SIZE);
            f = f\<lparr>fifo_tail := fifo_tail f + 1\<rparr>;
            f = (if fifo_tail f = QUEUE_SIZE then f\<lparr>fifo_tail := 0\<rparr> else f)
        in Some (c, f\<lparr>fifo_buffer_fill_count := fifo_buffer_fill_count f - 1\<rparr>)
      else None)"

definition kmp_fifo_snoop :: "kmp_fifo \<Rightarrow> nat \<Rightarrow> u8 option" where
  "kmp_fifo_snoop f pos =
     (if kmp_fifo_in_use f > pos then Some (fifo_buffer f ! ((fifo_tail f + pos) mod QUEUE_SIZE)) else None)"

text \<open>The queue as the ring buffer of the MQTT client.\<close>

definition as_ringbuf :: "kmp_fifo \<Rightarrow> ringbuf" where
  "as_ringbuf f =
     \<lparr>p_o = fifo_buffer f, p_r = fifo_tail f, p_w = fifo_head f,
      fill_cnt = int (fifo_buffer_fill_count f), rb_size = 256\<rparr>"

definition fifo_ok :: "kmp_fifo \<Rightarrow> bool" where
  "fifo_ok f \<longleftrightarrow> rb_wf (as_ringbuf f)"

definition fifo_bytes :: "kmp_fifo \<Rightarrow> bytes" where
  "fifo_bytes f = rb_list (as_ringbuf f)"

lemma fifo_okD:
  assumes "fifo_ok f"
  shows "length (fifo_buffer f) = 256" and "fifo_head f < 256" and "fifo_tail f < 256"
    and "fifo_buffer_fill_count f \<le> 256"
  using assms by (auto simp: fifo_ok_def rb_wf_def as_ringbuf_def)

lemma kmp_fifo_put_ringbuf:
  "fifo_ok f \<Longrightarrow> map_option as_ringbuf (kmp_fifo_put f c) = RINGBUF_Put (as_ringbuf f) c"
  using fifo_okD [of f]
  by (auto simp: kmp_fifo_put_def RINGBUF_Put_def as_ringbuf_def kmp_fifo_in_use_def Let_def)

lemma kmp_fifo_get_ringbuf:
  "fifo_ok f \<Longrightarrow> map_option (\<lambda>(c, f). (c, as_ringbuf f)) (kmp_fifo_get f) = RINGBUF_Get (as_ringbuf f)"
  using fifo_okD [of f]
  by (auto simp: kmp_fifo_get_def RINGBUF_Get_def as_ringbuf_def kmp_fifo_in_use_def Let_def)

lemma kmp_fifo_snoop_ringbuf:
  "fifo_ok f \<Longrightarrow> kmp_fifo_snoop f pos = (if pos < length (fifo_bytes f) then Some (fifo_bytes f ! pos) else None)"
  using fifo_okD [of f]
  by (auto simp: kmp_fifo_snoop_def fifo_bytes_def rb_list_def rb_cell_def as_ringbuf_def kmp_fifo_in_use_def)

interpretation kf: bounded_fifo kmp_fifo_put kmp_fifo_get fifo_bytes "\<lambda>f. 256" fifo_ok
proof (unfold_locales, goal_cases)
  case (1 f b)
  then obtain r where "RINGBUF_Put (as_ringbuf f) b = Some r" "rb_wf r" "rb_list r = rb_list (as_ringbuf f) @ [b]"
    using rb.put_room [of "as_ringbuf f" b] fifo_okD [of f]
    by (auto simp: fifo_ok_def fifo_bytes_def rb_capacity_def as_ringbuf_def)
  then show ?case
    using kmp_fifo_put_ringbuf [OF 1(1), of b] by (auto simp: fifo_ok_def fifo_bytes_def)
next
  case (2 f b)
  then show ?case
    using kmp_fifo_put_ringbuf [OF 2(1), of b] rb.put_full [of "as_ringbuf f" b] fifo_okD [of f]
    by (auto simp: fifo_ok_def fifo_bytes_def rb_capacity_def as_ringbuf_def)
next
  case (3 f)
  then show ?case
    using kmp_fifo_get_ringbuf [OF 3(1)] rb.get_empty [of "as_ringbuf f"]
    by (auto simp: fifo_ok_def fifo_bytes_def)
next
  case (4 f b bs)
  then obtain r where "RINGBUF_Get (as_ringbuf f) = Some (b, r)" "rb_wf r" "rb_list r = bs"
    using rb.get_cons [of "as_ringbuf f" b bs] by (auto simp: fifo_ok_def fifo_bytes_def)
  then show ?case
    using kmp_fifo_get_ringbuf [OF 4(1)] by (auto simp: fifo_ok_def fifo_bytes_def)
qed

text \<open>
  The UART receive queue, with its own indices, wrap-around and count, refines the ring
  buffer of the MQTT client, operation by operation: the same bytes are accepted, refused,
  delivered and looked at, in the order they came, and the invariant is kept.
\<close>

theorem kmp_fifo_refines_ringbuf:
  assumes "fifo_ok f"
  shows "map_option as_ringbuf (kmp_fifo_put f c) = RINGBUF_Put (as_ringbuf f) c \<and>
         map_option (\<lambda>(c, f). (c, as_ringbuf f)) (kmp_fifo_get f) = RINGBUF_Get (as_ringbuf f) \<and>
         kmp_fifo_snoop f pos = (if pos < length (fifo_bytes f) then Some (fifo_bytes f ! pos) else None) \<and>
         (case kmp_fifo_put f c of
            None \<Rightarrow> length (fifo_bytes f) = 256
          | Some f' \<Rightarrow> fifo_ok f' \<and> fifo_bytes f' = fifo_bytes f @ [c]) \<and>
         (case kmp_fifo_get f of
            None \<Rightarrow> fifo_bytes f = []
          | Some (b, f') \<Rightarrow> fifo_ok f' \<and> fifo_bytes f = b # fifo_bytes f')"
proof -
  have "length (fifo_bytes f) \<le> 256"
    using fifo_okD [OF assms] by (simp add: fifo_bytes_def as_ringbuf_def)
  then have "case kmp_fifo_put f c of
            None \<Rightarrow> length (fifo_bytes f) = 256
          | Some f' \<Rightarrow> fifo_ok f' \<and> fifo_bytes f' = fifo_bytes f @ [c]"
  proof (cases "kmp_fifo_put f c")
    case None
    then show ?thesis using kf.put_NoneD [OF assms None] \<open>length (fifo_bytes f) \<le> 256\<close> by simp
  next
    case (Some f')
    then show ?thesis using kf.put_SomeD [OF assms Some] by simp
  qed
  moreover have "case kmp_fifo_get f of
            None \<Rightarrow> fifo_bytes f = []
          | Some (b, f') \<Rightarrow> fifo_ok f' \<and> fifo_bytes f = b # fifo_bytes f'"
  proof (cases "kmp_fifo_get f")
    case None
    then have "fifo_bytes f = []" using kf.get_cons [OF assms] by (cases "fifo_bytes f") auto
    then show ?thesis using None by simp
  next
    case (Some r)
    then show ?thesis using kf.get_SomeD [OF assms, of "fst r" "snd r"] by (auto split: prod.split)
  qed
  ultimately show ?thesis
    using assms by (simp add: kmp_fifo_put_ringbuf kmp_fifo_get_ringbuf kmp_fifo_snoop_ringbuf)
qed

definition full_queue :: kmp_fifo where
  "full_queue = \<lparr>fifo_head = 3, fifo_tail = 3, fifo_buffer = replicate 256 7, fifo_buffer_fill_count = 256\<rparr>"

theorem kmp_fifo_refines_ringbuf_witness:
  "kmp_fifo_put full_queue 1 = None \<and> length (fifo_bytes full_queue) = 256 \<and>
   RINGBUF_Put (as_ringbuf full_queue) 1 = None"
proof -
  have "fifo_ok full_queue"
    by (simp add: fifo_ok_def rb_wf_def as_ringbuf_def full_queue_def)
  moreover have "kmp_fifo_put full_queue 1 = None"
    by (simp add: kmp_fifo_put_def kmp_fifo_in_use_def full_queue_def)
  ultimately show ?thesis
    using kmp_fifo_refines_ringbuf [of full_queue 1] by simp
qed

section \<open>State and events\<close>

datatype kmp_timer = kmp_get_serial_timer | kmp_get_register_timer | kmp_receive_timeout_timer

datatype kmp_event =
    TimerDisarm kmp_timer
  | TimerArm kmp_timer nat
  | UartTx bytes
  | MeterIsReady
  | MeterSentData
  | Publish bytes bytes nat nat

text \<open>\<open>Publish topic message qos retain\<close> is the call of \<open>MQTT_Publish\<close>.\<close>

record kmp_request =
  kmp_serial :: u32
  meter_is_ready_cb_set :: bool
  meter_is_ready_cb_called :: bool
  meter_sent_data_cb_set :: bool
  fifo :: kmp_fifo
  req_frame :: bytes
  req_frame_length :: nat
  register_list :: "u16 list"
  mqtt_client_set :: bool
  kmp_requests_sent :: u32
  task_message :: bytes
  req_keys :: crypto

section \<open>The sample\<close>

text \<open>
  One \<open>name=value unit&\<close>, written with \<open>tfp_snprintf\<close> into at most 128 bytes with the
  terminating zero. \<open>None\<close> is the write outside an array in \<open>kmp_value_to_string\<close>.
\<close>

definition sample_part :: "string \<Rightarrow> kmp_response_register \<Rightarrow> bytes option" where
  "sample_part name r =
     (let unit_string = ascii (kmp_unit_to_string (unit_code r))
      in case kmp_value_to_string (reg_value r) (si_ex r) of
           Written v \<Rightarrow> Some (take 127 (ascii name @ [0x3D] @ v @ [0x20] @ unit_string @ [0x26]))
         | NotSupported \<Rightarrow> Some (take 127 (ascii name @ ascii ''=NaN '' @ unit_string @ [0x26]))
         | OutOfBounds \<Rightarrow> None)"

fun sample_parts :: "(string \<times> kmp_response_register) list \<Rightarrow> bytes \<Rightarrow> bytes option" where
  "sample_parts [] message = Some message"
| "sample_parts ((name, r) # ps) message =
     (case sample_part name r of None \<Rightarrow> None | Some s \<Rightarrow> sample_parts ps (message @ s))"

definition sample_message :: "u32 \<Rightarrow> kmp_response_register list \<Rightarrow> bytes option" where
  "sample_message heap rs =
     sample_parts
       [(''t1'', rs ! 3), (''t2'', rs ! 4), (''tdif'', rs ! 5), (''flow1'', rs ! 6), (''effect1'', rs ! 7),
        (''hr'', rs ! 2), (''v1'', rs ! 1), (''e1'', rs ! 0)]
       (take 127 (ascii ''heap='' @ udigits (unat heap) @ [0x26]))"

definition sample_topic :: "u32 \<Rightarrow> u64 \<Rightarrow> bytes" where
  "sample_topic serial time =
     take 127 (ascii ''/sample/v2/'' @ udigits (unat serial) @ [0x2F] @ take 63 (udigits (unat time)))"

section \<open>The task\<close>

text \<open>The loop that empties the queue into the message buffer: \<open>n\<close> is the room left.\<close>

fun drain :: "nat \<Rightarrow> kmp_fifo \<Rightarrow> bytes \<times> kmp_fifo" where
  "drain 0 f = (case kmp_fifo_get f of None \<Rightarrow> ([], f) | Some (c, f) \<Rightarrow> ([], f))"
| "drain (Suc n) f =
     (case kmp_fifo_get f of
        None \<Rightarrow> ([], f)
      | Some (c, f) \<Rightarrow> (case drain n f of (cs, f) \<Rightarrow> (c # cs, f)))"

definition publish_sample ::
    "u64 \<Rightarrow> u32 \<Rightarrow> bytes \<Rightarrow> kmp_response \<Rightarrow> kmp_request \<Rightarrow> (kmp_event list \<times> kmp_request) option" where
  "publish_sample current_unix_time heap iv response q =
     (let topic = sample_topic (kmp_serial q) current_unix_time
      in case sample_message heap (kmp_response_register_list response) of
           None \<Rightarrow> None
         | Some text \<Rightarrow>
             let cleartext = take 1023 text;
                 (keys, message, message_l) =
                   encrypt_aes_hmac_combined (req_keys q) iv (replicate 1088 0) topic (cleartext @ [0]);
                 q = q\<lparr>req_keys := keys, task_message := message\<rparr>;
                 publish = (if mqtt_client_set q \<and> kmp_serial q \<noteq> 0 \<and> message_l > 1
                            then [Publish topic (take message_l message) 2 0] else []);
                 sent = (if meter_sent_data_cb_set q then [MeterSentData] else [])
             in Some (publish @ sent, q\<lparr>kmp_requests_sent := 0\<rparr>))"

definition kmp_received_task ::
    "u64 \<Rightarrow> u32 \<Rightarrow> bytes \<Rightarrow> kmp_request \<Rightarrow> (kmp_event list \<times> kmp_request) option" where
  "kmp_received_task current_unix_time heap iv q =
     (let message = put_bytes (task_message q) 0 (replicate 1024 0);
          (received, f) = drain 1024 (fifo q);
          message = put_bytes message 0 received;
          q = q\<lparr>fifo := f\<rparr>
      in case kmp_decode_frame message (length received) of
           None \<Rightarrow> None
         | Some (r, response, k) \<Rightarrow>
             let q = q\<lparr>task_message := kmp_frame k\<rparr>
             in if r > 0 then
                  let (ready, q) =
                        (if meter_is_ready_cb_set q \<and> \<not> meter_is_ready_cb_called q
                         then ([MeterIsReady], q\<lparr>meter_is_ready_cb_called := True\<rparr>) else ([], q))
                  in if kmp_response_serial response \<noteq> 0
                     then Some (ready, q\<lparr>kmp_serial := kmp_response_serial response\<rparr>)
                     else map_option (\<lambda>(ev, q). (ready @ ev, q))
                            (publish_sample current_unix_time heap iv response q)
                else Some ([], q))"

section \<open>Requests and registration\<close>

definition kmp_request_init :: "kmp_request \<Rightarrow> kmp_request" where
  "kmp_request_init q =
     q\<lparr>fifo := (fifo q)\<lparr>fifo_head := 0, fifo_tail := 0\<rparr>, kmp_requests_sent := 0\<rparr>"

definition kmp_set_mqtt_client :: "kmp_request \<Rightarrow> kmp_request" where
  "kmp_set_mqtt_client q = q\<lparr>mqtt_client_set := True\<rparr>"

definition kmp_register_meter_is_ready_cb :: "kmp_request \<Rightarrow> kmp_request" where
  "kmp_register_meter_is_ready_cb q = q\<lparr>meter_is_ready_cb_set := True\<rparr>"

definition kmp_register_meter_sent_data_cb :: "kmp_request \<Rightarrow> kmp_request" where
  "kmp_register_meter_sent_data_cb q = q\<lparr>meter_sent_data_cb_set := True\<rparr>"

definition kmp_get_received_serial :: "kmp_request \<Rightarrow> u32" where
  "kmp_get_received_serial q = kmp_serial q"

definition kmp_get_serial_timer_func :: "kmp_request \<Rightarrow> (kmp_event list \<times> kmp_request) option" where
  "kmp_get_serial_timer_func q =
     map_option (\<lambda>(n, k). ([UartTx (take n (kmp_frame k))], q\<lparr>req_frame := kmp_frame k, req_frame_length := n\<rparr>))
       (kmp_get_serial (req_frame q))"

definition heat_registers :: "u16 list" where
  "heat_registers = [0x3c, 0x44, 0x3EC, 0x56, 0x57, 0x59, 0x4A, 0x50]"

definition kmp_get_register_timer_func :: "kmp_request \<Rightarrow> (kmp_event list \<times> kmp_request) option" where
  "kmp_get_register_timer_func q =
     (let q = q\<lparr>register_list := heat_registers\<rparr>
      in map_option (\<lambda>(n, k). ([UartTx (take n (kmp_frame k))], q\<lparr>req_frame := kmp_frame k, req_frame_length := n\<rparr>))
           (kmp_get_register (req_frame q) (register_list q)))"

definition kmp_request_send :: "bool \<Rightarrow> kmp_request \<Rightarrow> kmp_event list \<times> kmp_request" where
  "kmp_request_send ota_in_progress q =
     (if ota_in_progress then ([], q)
      else
        let q = q\<lparr>kmp_requests_sent := kmp_requests_sent q + 1\<rparr>;
            q = q\<lparr>kmp_requests_sent := 0\<rparr>
        in ([TimerDisarm kmp_get_serial_timer, TimerArm kmp_get_serial_timer 0,
             TimerDisarm kmp_get_register_timer, TimerArm kmp_get_register_timer 400,
             TimerDisarm kmp_receive_timeout_timer, TimerArm kmp_receive_timeout_timer 2000], q))"

definition kmp_receive_timeout_timer_func :: "bool \<Rightarrow> kmp_request \<Rightarrow> kmp_event list \<times> kmp_request" where
  "kmp_receive_timeout_timer_func ota_in_progress q =
     (if kmp_requests_sent q > 0 then kmp_request_send ota_in_progress q else ([], q))"

definition kmp_request_destroy :: "kmp_event list" where
  "kmp_request_destroy =
     [TimerDisarm kmp_get_serial_timer, TimerDisarm kmp_get_register_timer, TimerDisarm kmp_receive_timeout_timer]"

section \<open>The sample fits its buffers\<close>

lemma length_udigits_word: "length (udigits (unat (w :: u32))) \<le> 10"
  by (rule length_udigits_u32)

lemma length_udigits_u64: "length (udigits (unat (w :: u64))) \<le> 20"
proof -
  have "unat w < 2 ^ 64" using unsigned_less [of w] by simp
  then have "unat w < 10 ^ 20" by simp
  then show ?thesis by (rule length_udigits_le) simp
qed

lemma length_value_string:
  assumes "kmp_value_to_string v si = Written s"
  shows "length s \<le> 37"
proof -
  have d: "length (udigits (unat (w :: u32))) \<le> 10" for w by (rule length_udigits_u32)
  show ?thesis
    using assms d [of "v div int_pow 10 (int (unat (si AND 0x3f)))"]
      d [of "v - v div int_pow 10 (int (unat (si AND 0x3f))) * int_pow 10 (int (unat (si AND 0x3f)))"]
      d [of "v * int_pow 10 (int (unat (si AND 0x3f)))"]
    by (auto simp: kmp_value_to_string_def Let_def split: if_splits)
qed

lemma length_unit_string: "length (kmp_unit_to_string u) \<le> 7"
  by (simp add: kmp_unit_to_string_def)

text \<open>The part of the sample without the limit of \<open>tfp_snprintf\<close>.\<close>

definition part_text :: "string \<Rightarrow> kmp_response_register \<Rightarrow> bytes" where
  "part_text name r =
     ascii name @ [0x3D] @
     (case kmp_value_to_string (reg_value r) (si_ex r) of Written v \<Rightarrow> v | _ \<Rightarrow> ascii ''NaN'') @
     [0x20] @ ascii (kmp_unit_to_string (unit_code r)) @ [0x26]"

definition displayable :: "kmp_response_register \<Rightarrow> bool" where
  "displayable r \<longleftrightarrow> kmp_value_to_string (reg_value r) (si_ex r) \<noteq> OutOfBounds"

lemma length_part_text: "length name \<le> 7 \<Longrightarrow> length (part_text name r) \<le> 54"
  using length_unit_string [of "unit_code r"] length_value_string [of "reg_value r" "si_ex r"]
  by (auto simp: part_text_def split: value_string.split)

lemma sample_part_text:
  assumes "length name \<le> 7"
  shows "sample_part name r = (if displayable r then Some (part_text name r) else None)"
proof -
  have "take 127 (part_text name r) = part_text name r"
    using length_part_text [OF assms, of r] by simp
  then show ?thesis
    by (auto simp: sample_part_def part_text_def displayable_def ascii_def Let_def split: value_string.split)
qed

lemma sample_parts_text:
  "(\<forall>(name, r) \<in> set ps. length name \<le> 7) \<Longrightarrow>
   sample_parts ps m =
     (if \<forall>(name, r) \<in> set ps. displayable r
      then Some (m @ concat (map (\<lambda>(name, r). part_text name r) ps)) else None)"
proof (induction ps arbitrary: m)
  case (Cons p ps)
  then show ?case by (cases p) (auto simp: sample_part_text)
qed simp

definition sample_text :: "u32 \<Rightarrow> kmp_response_register list \<Rightarrow> bytes" where
  "sample_text heap rs =
     ascii ''heap='' @ udigits (unat heap) @ [0x26] @
     part_text ''t1'' (rs ! 3) @ part_text ''t2'' (rs ! 4) @ part_text ''tdif'' (rs ! 5) @
     part_text ''flow1'' (rs ! 6) @ part_text ''effect1'' (rs ! 7) @ part_text ''hr'' (rs ! 2) @
     part_text ''v1'' (rs ! 1) @ part_text ''e1'' (rs ! 0)"

lemma length_sample_text: "length (sample_text heap rs) \<le> 448"
  unfolding sample_text_def
  using length_udigits_u32 [of heap] length_part_text [of "''t1''" "rs ! 3"] length_part_text [of "''t2''" "rs ! 4"]
    length_part_text [of "''tdif''" "rs ! 5"] length_part_text [of "''flow1''" "rs ! 6"]
    length_part_text [of "''effect1''" "rs ! 7"] length_part_text [of "''hr''" "rs ! 2"]
    length_part_text [of "''v1''" "rs ! 1"] length_part_text [of "''e1''" "rs ! 0"]
  by simp

lemma sample_message_text:
  assumes "length rs = 8"
  shows "sample_message heap rs = (if \<forall>r \<in> set rs. displayable r then Some (sample_text heap rs) else None)"
proof -
  have h: "take 127 (ascii ''heap='' @ udigits (unat heap) @ [0x26]) = ascii ''heap='' @ udigits (unat heap) @ [0x26]"
    using length_udigits_u32 [of heap] by simp
  obtain a b c d e f g i where "rs = [a, b, c, d, e, f, g, i]"
    using assms by (auto simp: length_Suc_conv numeral_eq_Suc)
  then show ?thesis
    unfolding sample_message_def h sample_text_def
    by (subst sample_parts_text) (auto simp: numeral_eq_Suc)
qed

lemma sample_topic_short:
  "sample_topic serial time = ascii ''/sample/v2/'' @ udigits (unat serial) @ [0x2F] @ udigits (unat time)"
  "length (sample_topic serial time) \<le> 42"
  using length_udigits_u32 [of serial] length_udigits_u64 [of time] by (simp_all add: sample_topic_def)

section \<open>The task on a register reply\<close>

lemma drain_all:
  "fifo_ok f \<Longrightarrow> length (fifo_bytes f) \<le> n \<Longrightarrow>
   \<exists>f'. drain n f = (fifo_bytes f, f') \<and> fifo_ok f' \<and> fifo_bytes f' = []"
proof (induction n arbitrary: f)
  case 0
  then show ?case using kf.get_empty [of f] by simp
next
  case (Suc n)
  show ?case
  proof (cases "fifo_bytes f")
    case Nil
    then show ?thesis using kf.get_empty [of f] Suc.prems by simp
  next
    case (Cons b bs)
    then obtain f1 where f1: "kmp_fifo_get f = Some (b, f1)" "fifo_ok f1" "fifo_bytes f1 = bs"
      using kf.get_cons [OF Suc.prems(1)] by blast
    then obtain f' where "drain n f1 = (bs, f')" "fifo_ok f'" "fifo_bytes f' = []"
      using Suc.IH [of f1] Suc.prems(2) Cons by auto
    then show ?thesis using f1 Cons by simp
  qed
qed

definition req_ok :: "kmp_request \<Rightarrow> bool" where
  "req_ok q \<longleftrightarrow> fifo_ok (fifo q) \<and> length (req_frame q) = 1024 \<and> length (task_message q) = 1088 \<and>
     keys_ok (req_keys q) \<and> kmp_requests_sent q = 0"

lemma kmp_byte_stuff_length:
  "kmp_byte_stuff k = Some k' \<Longrightarrow> 1024 \<le> length (kmp_frame k) \<Longrightarrow> length (kmp_frame k') = length (kmp_frame k)"
  by (auto simp: kmp_byte_stuff_def Let_def split: if_splits)

lemma kmp_byte_unstuff_length:
  "kmp_byte_unstuff k = Some k' \<Longrightarrow> 1024 \<le> length (kmp_frame k) \<Longrightarrow> length (kmp_frame k') = length (kmp_frame k)"
  by (auto simp: kmp_byte_unstuff_def Let_def split: if_splits option.splits)

lemma length_kmp_put_crc16 [simp]: "length (kmp_frame (kmp_put_crc16 k)) = length (kmp_frame k)"
  by (simp add: kmp_put_crc16_def Let_def)

lemma length_put_registers [simp]: "length (kmp_frame (put_registers rs i k)) = length (kmp_frame k)"
  by (induction rs arbitrary: i k) simp_all

lemma kmp_requests_length:
  assumes "1024 \<le> length frame"
  shows "kmp_get_serial frame = Some (n, k) \<Longrightarrow> length (kmp_frame k) = length frame"
    and "kmp_get_register frame ids = Some (n, k) \<Longrightarrow> length (kmp_frame k) = length frame"
  using assms kmp_clear_frame(1) [OF assms]
  by (auto simp: kmp_get_serial_def kmp_get_register_def kmp_stop_def Let_def dest!: kmp_byte_stuff_length)

lemma kmp_decode_frame_length:
  assumes "1024 \<le> length frame"
  shows "kmp_decode_frame frame n = Some (r, response, k) \<Longrightarrow> length (kmp_frame k) = length frame"
  using assms
  by (auto simp: kmp_decode_frame_def Let_def dest!: kmp_byte_unstuff_length split: if_splits option.splits)

text \<open>What the task publishes for a response without a serial number.\<close>

lemma publish_sample_envelope:
  assumes ok: "req_ok q" and "length iv = 16"
    and "length (kmp_response_register_list response) = 8"
    and "\<forall>r \<in> set (kmp_response_register_list response). displayable r"
    and "text = sample_text heap (kmp_response_register_list response)"
    and "topic = sample_topic (kmp_serial q) time"
  shows "\<exists>a. length (RoundKey a) = 176 \<and>
    publish_sample time heap iv response q =
      Some ((if mqtt_client_set q \<and> kmp_serial q \<noteq> 0
             then [Publish topic (envelope (req_keys q) iv topic (text @ [0])) 2 0] else []) @
            (if meter_sent_data_cb_set q then [MeterSentData] else []),
            q\<lparr>req_keys := (req_keys q)\<lparr>aes_static := a\<rparr>,
              task_message := put_bytes (replicate 1088 0) 0 (envelope (req_keys q) iv topic (text @ [0]))\<rparr>)"
proof -
  let ?m = "text @ [0]" and ?e = "envelope (req_keys q) iv topic (text @ [0])"
  have keys: "keys_ok (req_keys q)" and sent: "kmp_requests_sent q = 0" using ok by (simp_all add: req_ok_def)
  have st: "sample_message heap (kmp_response_register_list response) = Some text" "take 1023 text = text"
    using sample_message_text [OF assms(3)] assms(4,5) by (auto simp: order_trans [OF length_sample_text])
  have len: "length text \<le> 448" using length_sample_text assms(5) by simp
  have topic: "length topic \<le> 42" using sample_topic_short(2) assms(6) by simp
  have pl: "length (padded ?m) \<le> length ?m + 16" "0 < length (padded ?m)" by (simp_all add: padded_def)
  then have room: "48 + length (padded ?m) \<le> length (replicate 1088 (0 :: u8))"
    and bound: "length topic + length ?m < 2 ^ 59" using len topic by simp_all
  obtain a where e: "encrypt_aes_hmac_combined (req_keys q) iv (replicate 1088 0) topic ?m =
      ((req_keys q)\<lparr>aes_static := a\<rparr>, ?e @ drop (48 + length (padded ?m)) (replicate 1088 0), 48 + length (padded ?m))"
    and a: "length (RoundKey a) = 176"
    using encrypt_envelope [OF keys assms(2) room bound] by blast
  have "length ?e = 48 + length (padded ?m)"
    using length_envelope [OF assms(2), of "req_keys q" topic ?m] by (simp add: length_padded)
  then have whole: "?e @ drop (48 + length (padded ?m)) (replicate 1088 0) = put_bytes (replicate 1088 0) 0 ?e"
    and tk: "take (48 + length (padded ?m)) (put_bytes (replicate 1088 0) 0 ?e) = ?e"
    by (simp_all add: put_bytes_def)
  have "q\<lparr>req_keys := x, task_message := y, kmp_requests_sent := 0\<rparr> = q\<lparr>req_keys := x, task_message := y\<rparr>" for x y
    using sent by simp
  then show ?thesis
    using a by (intro exI [of _ a])
      (simp add: publish_sample_def assms(6) [symmetric] st e [unfolded whole] tk Let_def)
qed

text \<open>The task reads the whole queue and decodes it as one frame.\<close>

lemma task_reads_queue:
  assumes "req_ok q"
  obtains f where "drain 1024 (fifo q) = (fifo_bytes (fifo q), f)" and "fifo_ok f" and "fifo_bytes f = []"
    and "length (fifo_bytes (fifo q)) \<le> 256"
proof -
  have ok: "fifo_ok (fifo q)" using assms by (simp add: req_ok_def)
  then have "length (fifo_bytes (fifo q)) \<le> 256"
    using fifo_okD [OF ok] by (simp add: fifo_bytes_def as_ringbuf_def)
  moreover from this obtain f where "drain 1024 (fifo q) = (fifo_bytes (fifo q), f)" "fifo_ok f" "fifo_bytes f = []"
    using drain_all [OF ok, of 1024] by auto
  ultimately show thesis using that by blast
qed

lemma task_buffer:
  assumes "length m = 1088" and "length bs \<le> 256"
  shows "put_bytes (put_bytes m 0 (replicate 1024 0)) 0 bs = bs @ drop (length bs) (put_bytes m 0 (replicate 1024 0))"
  using assms by (simp add: put_bytes_def)

lemma decoded_frame:
  "decoded frame n = Some (r, response) \<Longrightarrow> \<exists>k. kmp_decode_frame frame n = Some (r, response, k)"
  by (auto simp: decoded_def)

text \<open>
  C16: From the wire to the broker. When the receive queue holds the meter's reply with one to
  eight registers, whose values can be displayed, the task empties the queue, publishes exactly
  one message with QoS 2, not retained, under \<open>/sample/v2/<serial>/<time>\<close>, then tells the main
  program; and whoever holds the keys decrypts that message to the sample text of exactly
  these registers, none of it cut off. Without a serial number or an MQTT client nothing is
  published.
\<close>

theorem kmp_reply_is_published:
  assumes "req_ok q" and "length iv = 16"
    and "fifo_bytes (fifo q) = kmp_packet s (dst # 0x10 # concat (map register_reply rs))"
    and "rs \<noteq> []" and "length rs \<le> 8"
    and "regs = rs @ replicate (8 - length rs) zero_register" and "\<forall>r \<in> set regs. displayable r"
    and "topic = ascii ''/sample/v2/'' @ udigits (unat (kmp_serial q)) @ [0x2F] @ udigits (unat time)"
    and "keys_ok keys" and "aes_key keys = aes_key (req_keys q)"
    and "hmac_sha256_key keys = hmac_sha256_key (req_keys q)" and "length (sample_text heap regs) + 17 \<le> length buf"
  shows "\<exists>payload q'.
    kmp_received_task time heap iv q =
      Some ((if meter_is_ready_cb_set q \<and> \<not> meter_is_ready_cb_called q then [MeterIsReady] else []) @
            (if mqtt_client_set q \<and> kmp_serial q \<noteq> 0 then [Publish topic payload 2 0] else []) @
            (if meter_sent_data_cb_set q then [MeterSentData] else []), q') \<and>
    req_ok q' \<and> fifo_bytes (fifo q') = [] \<and> kmp_serial q' = kmp_serial q \<and>
    (case decrypt_aes_hmac_combined keys buf topic payload (length payload) of (keys', cleartext, n) \<Rightarrow>
       take n cleartext = sample_text heap regs @ [0])"
proof -
  let ?frame = "kmp_packet s (dst # 0x10 # concat (map register_reply rs))"
  let ?resp = "zero_response\<lparr>kmp_response_register_list := regs\<rparr>"
  let ?m = "sample_text heap regs @ [0]"
  let ?e = "envelope (req_keys q) iv topic ?m"
  obtain f where f: "drain 1024 (fifo q) = (?frame, f)" "fifo_ok f" "fifo_bytes f = []" "length ?frame \<le> 256"
    using task_reads_queue [OF assms(1)] assms(3) by metis
  have msg: "length (task_message q) = 1088" using assms(1) by (simp add: req_ok_def)
  let ?buf = "?frame @ drop (length ?frame) (put_bytes (task_message q) 0 (replicate 1024 0))"
  have buf: "put_bytes (put_bytes (task_message q) 0 (replicate 1024 0)) 0 ?frame = ?buf"
    using task_buffer [OF msg f(4)] .
  have "decoded ?buf (length ?frame) = Some (1, ?resp)"
    using decoded_register_reply [OF assms(4) _ refl, of s dst] assms(5,6) by simp
  then obtain k where k: "kmp_decode_frame ?buf (length ?frame) = Some (1, ?resp, k)"
    using decoded_frame by blast
  have "length ?buf = 1088" using msg f(4) by simp
  then have klen: "length (kmp_frame k) = 1088" using kmp_decode_frame_length [OF _ k] by simp
  define q1 where "q1 = q\<lparr>fifo := f, task_message := kmp_frame k\<rparr>"
  define q2 where "q2 = (if meter_is_ready_cb_set q \<and> \<not> meter_is_ready_cb_called q
      then q1\<lparr>meter_is_ready_cb_called := True\<rparr> else q1)"
  have q2: "req_ok q2" "kmp_serial q2 = kmp_serial q" "mqtt_client_set q2 = mqtt_client_set q"
    "meter_sent_data_cb_set q2 = meter_sent_data_cb_set q" "req_keys q2 = req_keys q" "fifo q2 = f"
    using assms(1) f(2) klen by (auto simp: q2_def q1_def req_ok_def)
  have topic: "topic = sample_topic (kmp_serial q2) time" using assms(8) q2(2) sample_topic_short(1) by simp
  have regs: "length (kmp_response_register_list ?resp) = 8" "kmp_response_register_list ?resp = regs"
    using assms(5,6) by simp_all
  obtain a where a: "length (RoundKey a) = 176"
    and pub: "publish_sample time heap iv ?resp q2 =
      Some ((if mqtt_client_set q2 \<and> kmp_serial q2 \<noteq> 0 then [Publish topic ?e 2 0] else []) @
            (if meter_sent_data_cb_set q2 then [MeterSentData] else []),
            q2\<lparr>req_keys := (req_keys q2)\<lparr>aes_static := a\<rparr>, task_message := put_bytes (replicate 1088 0) 0 ?e\<rparr>)"
    using publish_sample_envelope [OF q2(1) assms(2) regs(1) _ refl topic, of heap] assms(7) regs(2) q2(5) by auto
  define q' where "q' = q2\<lparr>req_keys := (req_keys q2)\<lparr>aes_static := a\<rparr>, task_message := put_bytes (replicate 1088 0) 0 ?e\<rparr>"
  have sz: "length ?m \<le> 449" "length (padded ?m) \<le> length ?m + 16"
    using length_sample_text [of heap regs] by (simp_all add: padded_def)
  have e: "length ?e = 48 + length (padded ?m)"
    using length_envelope [OF assms(2), of "req_keys q" topic ?m] by (simp add: length_padded)
  have "req_ok q'" using q2(1) a e sz by (simp add: q'_def req_ok_def keys_ok_def)
  moreover have "kmp_received_task time heap iv q =
      Some ((if meter_is_ready_cb_set q \<and> \<not> meter_is_ready_cb_called q then [MeterIsReady] else []) @
            (if mqtt_client_set q \<and> kmp_serial q \<noteq> 0 then [Publish topic ?e 2 0] else []) @
            (if meter_sent_data_cb_set q then [MeterSentData] else []), q')"
  proof -
    have serial: "kmp_response_serial ?resp = 0" by (simp add: zero_response_def)
    have "kmp_received_task time heap iv q =
        map_option (\<lambda>(ev, q). ((if meter_is_ready_cb_set q1 \<and> \<not> meter_is_ready_cb_called q1 then [MeterIsReady] else []) @ ev, q))
          (publish_sample time heap iv ?resp q2)"
      unfolding kmp_received_task_def f(1) Let_def prod.case buf k option.case q2_def
      by (simp add: q1_def serial del: kmp_response.update_convs)
    also have "\<dots> = Some ((if meter_is_ready_cb_set q1 \<and> \<not> meter_is_ready_cb_called q1 then [MeterIsReady] else []) @
            (if mqtt_client_set q2 \<and> kmp_serial q2 \<noteq> 0 then [Publish topic ?e 2 0] else []) @
            (if meter_sent_data_cb_set q2 then [MeterSentData] else []), q')"
      by (simp only: pub option.map prod.case q'_def)
    finally show ?thesis by (simp add: q2(2-4)) (simp add: q1_def)
  qed
  moreover have "snd (decrypt_aes_hmac_combined keys buf topic (?e @ []) (length ?e)) = (put_bytes buf 0 (padded ?m), length ?m)"
    using assms(2,9,12) sz e sample_topic_short(2) [of "kmp_serial q2" time] topic
    by (intro decrypt_envelope [where iv = iv] envelope_cong) (simp_all add: assms(10,11))
  then have "case decrypt_aes_hmac_combined keys buf topic ?e (length ?e) of (keys', cleartext, n) \<Rightarrow>
      take n cleartext = ?m"
    by (auto simp: put_bytes_def padded_def split: prod.splits)
  ultimately show ?thesis
    using q2(2,6) f(3) by (intro exI [of _ ?e] exI [of _ q']) (simp add: q'_def)
qed

definition sample_request :: kmp_request where
  "sample_request =
     \<lparr>kmp_serial = 6615731, meter_is_ready_cb_set = True, meter_is_ready_cb_called = True,
      meter_sent_data_cb_set = True,
      fifo = \<lparr>fifo_head = 15, fifo_tail = 0,
              fifo_buffer = [0x40, 0x3f, 0x10, 0, 60, 3, 4, 0x43, 0, 0, 0x30, 0x39, 0x34, 0xff, 0x0d] @ replicate 241 0,
              fifo_buffer_fill_count = 15\<rparr>,
      req_frame = replicate 1024 0, req_frame_length = 0, register_list = [], mqtt_client_set = True,
      kmp_requests_sent = 0, task_message = replicate 1088 0, req_keys = sample_keys\<rparr>"

theorem kmp_reply_is_published_witness:
  "\<exists>payload q'.
     kmp_received_task 1700000000 40000 (replicate 16 9) sample_request =
       Some ([Publish (ascii ''/sample/v2/6615731/1700000000'') payload 2 0, MeterSentData], q') \<and>
     (case decrypt_aes_hmac_combined sample_keys (replicate 512 0) (ascii ''/sample/v2/6615731/1700000000'')
         payload (length payload) of (keys', cleartext, n) \<Rightarrow>
        take n cleartext = ascii (''heap=40000&t1=0 unknown&t2=0 unknown&tdif=0 unknown&flow1=0 unknown&'' @
          ''effect1=0 unknown&hr=0 unknown&v1=0 unknown&e1=12.345 MWh&'') @ [0])"
proof -
  let ?regs = "[ex_register] @ replicate (8 - length [ex_register]) zero_register"
  have ok: "req_ok sample_request"
    by (simp add: req_ok_def sample_request_def fifo_ok_def rb_wf_def as_ringbuf_def keys_ok_def sample_keys_def)
  have p: "0x3f # 0x10 # concat (map register_reply [ex_register]) =
      [0x3f, 0x10, 0, 60, 3, 4, 0x43, 0, 0, 0x30, 0x39]"
    by (simp add: register_reply_def ex_register_def hi8_def lo8_def bytes32_def)
  have f: "kmp_packet 0x40 [0x3f, 0x10, 0, 60, 3, 4, 0x43, 0, 0, 0x30, 0x39] =
     [0x40, 0x3f, 0x10, 0, 60, 3, 4, 0x43, 0, 0, 0x30, 0x39, 0x34, 0xff, 0x0d]"
    by (simp add: kmp_packet_def kmp_link_def kmp_crc_bytes_def kmp_special_def hi8_def lo8_def
        ccit_crc16_table_def)
  have fifo: "fifo_bytes (fifo sample_request) = kmp_packet 0x40 (0x3f # 0x10 # concat (map register_reply [ex_register]))"
    unfolding p f by (simp add: fifo_bytes_def rb_list_def rb_cell_def as_ringbuf_def sample_request_def upt_rec)
  have ex: "kmp_value_to_string 12345 0x43 = Written (ascii ''12.345'')"
    and zero: "kmp_value_to_string 0 0 = Written (ascii ''0'')"
  proof -
    have "unat (0x43 AND 0x3f :: u8) = 3" "bit (0x43 :: u8) 6" "\<not> bit (0x43 :: u8) 7" by simp_all
    then have "kmp_value_to_string 12345 0x43 =
        (let zeroes = unat (3 - of_nat (decimal_number_length (12345 - 12345 div 1000 * 1000)) :: u32)
         in if zeroes \<ge> 16 then OutOfBounds
            else Written (udigits (unat (12345 div 1000 :: u32)) @ [0x2E] @ replicate zeroes 0x30 @
              udigits (unat (12345 - 12345 div 1000 * 1000 :: u32))))"
      by (simp only: kmp_value_to_string_def Let_def) (simp add: int_pow_power)
    moreover have "decimal_number_length 345 = 3"
      by (simp add: decimal_number_length_def digits_loop.simps)
    ultimately show "kmp_value_to_string 12345 0x43 = Written (ascii ''12.345'')"
      by (simp add: udigits.simps digit_char_def ascii_def)
    show "kmp_value_to_string 0 0 = Written (ascii ''0'')"
      by (simp add: kmp_value_to_string_def int_pow_power udigits.simps digit_char_def ascii_def)
  qed
  have disp: "\<forall>r \<in> set ?regs. displayable r"
    using ex zero by (auto simp: displayable_def ex_register_def zero_register_def)
  have regs: "?regs = [ex_register, zero_register, zero_register, zero_register, zero_register, zero_register,
      zero_register, zero_register]" by (simp add: numeral_eq_Suc)
  have st: "sample_text 40000 ?regs = ascii (''heap=40000&t1=0 unknown&t2=0 unknown&tdif=0 unknown&flow1=0 unknown&'' @
          ''effect1=0 unknown&hr=0 unknown&v1=0 unknown&e1=12.345 MWh&'')"
    unfolding regs sample_text_def part_text_def
    by (simp add: ex_register_def zero_register_def ex zero kmp_unit_to_string_def ascii_def udigits.simps digit_char_def)
  have topic: "ascii ''/sample/v2/6615731/1700000000'' =
      ascii ''/sample/v2/'' @ udigits (unat (kmp_serial sample_request)) @ [0x2F] @ udigits (unat (1700000000 :: u64))"
    by (simp add: sample_request_def ascii_def udigits.simps digit_char_def)
  have fields: "meter_is_ready_cb_called sample_request" "mqtt_client_set sample_request"
    "meter_sent_data_cb_set sample_request" "kmp_serial sample_request = 6615731"
    "req_keys sample_request = sample_keys" "keys_ok sample_keys"
    using ok by (simp_all add: sample_request_def req_ok_def)
  have len: "length (sample_text 40000 ?regs) + 17 \<le> length (replicate 512 (0 :: u8))"
    unfolding st by simp
  have "\<exists>payload q'.
    kmp_received_task 1700000000 40000 (replicate 16 9) sample_request =
      Some ((if meter_is_ready_cb_set sample_request \<and> \<not> meter_is_ready_cb_called sample_request then [MeterIsReady] else []) @
            (if mqtt_client_set sample_request \<and> kmp_serial sample_request \<noteq> 0
             then [Publish (ascii ''/sample/v2/6615731/1700000000'') payload 2 0] else []) @
            (if meter_sent_data_cb_set sample_request then [MeterSentData] else []), q') \<and>
    req_ok q' \<and> fifo_bytes (fifo q') = [] \<and> kmp_serial q' = kmp_serial sample_request \<and>
    (case decrypt_aes_hmac_combined sample_keys (replicate 512 0) (ascii ''/sample/v2/6615731/1700000000'')
        payload (length payload) of (keys', cleartext, n) \<Rightarrow> take n cleartext = sample_text 40000 ?regs @ [0])"
    by (rule kmp_reply_is_published [OF ok _ fifo _ _ refl disp topic fields(6) _ _ len]) (simp_all add: fields)
  then show ?thesis unfolding st by (simp only: fields simp_thms if_True if_False append_Nil append_Cons) auto
qed

section \<open>Runs\<close>

text \<open>
  The firmware's calls in any order: bytes from the UART interrupt, the task, the timers, and
  the functions the main program calls. A step of the task or of a timer is only there when it
  stays inside its arrays (\<open>Some\<close>).
\<close>

inductive kmp_step :: "kmp_request \<Rightarrow> kmp_event list \<Rightarrow> kmp_request \<Rightarrow> bool" where
  uart_accepted: "kmp_fifo_put (fifo q) c = Some f \<Longrightarrow> kmp_step q [] (q\<lparr>fifo := f\<rparr>)"
| uart_dropped: "kmp_fifo_put (fifo q) c = None \<Longrightarrow> kmp_step q [] q"
| received: "length iv = 16 \<Longrightarrow> kmp_received_task time heap iv q = Some (ev, q') \<Longrightarrow> kmp_step q ev q'"
| send: "kmp_request_send ota q = (ev, q') \<Longrightarrow> kmp_step q ev q'"
| serial_timer: "kmp_get_serial_timer_func q = Some (ev, q') \<Longrightarrow> kmp_step q ev q'"
| register_timer: "kmp_get_register_timer_func q = Some (ev, q') \<Longrightarrow> kmp_step q ev q'"
| timeout_timer: "kmp_receive_timeout_timer_func ota q = (ev, q') \<Longrightarrow> kmp_step q ev q'"
| set_client: "kmp_step q [] (kmp_set_mqtt_client q)"
| ready_cb: "kmp_step q [] (kmp_register_meter_is_ready_cb q)"
| sent_cb: "kmp_step q [] (kmp_register_meter_sent_data_cb q)"
| destroy: "kmp_step q kmp_request_destroy q"

inductive kmp_run :: "kmp_request \<Rightarrow> kmp_event list \<Rightarrow> kmp_request \<Rightarrow> bool" where
  kmp_run_refl: "kmp_run q [] q"
| kmp_run_step: "kmp_run q ev q1 \<Longrightarrow> kmp_step q1 ev' q2 \<Longrightarrow> kmp_run q (ev @ ev') q2"

lemma publish_sample_ok:
  assumes "req_ok q" and "length iv = 16" and "length (kmp_response_register_list response) = 8"
    and "publish_sample time heap iv response q = Some (ev, q')"
  shows "req_ok q'"
proof -
  have d: "\<forall>r \<in> set (kmp_response_register_list response). displayable r"
    using assms(4) sample_message_text [OF assms(3), of heap]
    by (auto simp: publish_sample_def Let_def split: if_splits option.splits)
  let ?m = "sample_text heap (kmp_response_register_list response) @ [0]"
  let ?e = "envelope (req_keys q) iv (sample_topic (kmp_serial q) time) ?m"
  have "length ?e \<le> 1088"
    using length_envelope [OF assms(2), of "req_keys q" "sample_topic (kmp_serial q) time" ?m]
      length_sample_text [of heap "kmp_response_register_list response"] by simp
  then show ?thesis
    using publish_sample_envelope [OF assms(1-3) d refl refl, of time heap] assms(1,4)
    by (auto simp: req_ok_def keys_ok_def)
qed

lemma length_decode_registers: "decode_registers f i n regs = Some regs' \<Longrightarrow> length regs' = length regs"
  by (induction n arbitrary: i regs) (auto split: if_splits)

lemma kmp_decode_frame_registers:
  "kmp_decode_frame frame n = Some (r, response, k) \<Longrightarrow> length (kmp_response_register_list response) = 8"
  by (auto simp: kmp_decode_frame_def Let_def zero_response_def dest!: length_decode_registers
      split: if_splits option.splits)

lemma kmp_received_task_ok:
  assumes "req_ok q" and "length iv = 16" and "kmp_received_task time heap iv q = Some (ev, q')"
  shows "req_ok q'"
proof -
  obtain f where f: "drain 1024 (fifo q) = (fifo_bytes (fifo q), f)" "fifo_ok f" "length (fifo_bytes (fifo q)) \<le> 256"
    using task_reads_queue [OF assms(1)] by metis
  let ?bs = "fifo_bytes (fifo q)"
  let ?buf = "put_bytes (put_bytes (task_message q) 0 (replicate 1024 0)) 0 ?bs"
  have len: "length ?buf = 1088" using assms(1) f(3) by (simp add: req_ok_def)
  obtain r response k where k: "kmp_decode_frame ?buf (length ?bs) = Some (r, response, k)"
    using assms(3) by (auto simp: kmp_received_task_def f(1) Let_def split: option.splits)
  let ?q = "q\<lparr>fifo := f, task_message := kmp_frame k\<rparr>"
  have ok: "req_ok ?q" "req_ok (?q\<lparr>meter_is_ready_cb_called := b\<rparr>)" "req_ok (?q\<lparr>kmp_serial := s\<rparr>)"
      "req_ok (?q\<lparr>meter_is_ready_cb_called := b, kmp_serial := s\<rparr>)" for b s
    using assms(1) f(2) kmp_decode_frame_length [OF _ k] len by (simp_all add: req_ok_def)
  show ?thesis
    using assms(3) ok publish_sample_ok [OF _ assms(2) kmp_decode_frame_registers [OF k]]
    by (auto simp: kmp_received_task_def f(1) k Let_def split: if_splits) (use ok in blast)+
qed

lemma kmp_step_ok:
  assumes "kmp_step q ev q'" and "req_ok q"
  shows "req_ok q'"
  using assms
proof cases
  case (uart_accepted c f)
  then show ?thesis using kf.put_SomeD(1) [of "fifo q" c f] assms(2) by (simp add: req_ok_def)
next
  case (received iv time heap)
  then show ?thesis using kmp_received_task_ok assms(2) by blast
next
  case serial_timer
  then show ?thesis using kmp_requests_length(1) [of "req_frame q"] assms(2)
    by (auto simp: kmp_get_serial_timer_func_def req_ok_def)
next
  case register_timer
  then show ?thesis using kmp_requests_length(2) [of "req_frame q"] assms(2)
    by (auto simp: kmp_get_register_timer_func_def req_ok_def Let_def)
next
  case (send ota)
  then show ?thesis using assms(2) by (auto simp: kmp_request_send_def req_ok_def Let_def split: if_splits)
next
  case (timeout_timer ota)
  then show ?thesis using assms(2) by (auto simp: kmp_receive_timeout_timer_func_def req_ok_def)
qed (use assms(2) in \<open>auto simp: req_ok_def kmp_set_mqtt_client_def kmp_register_meter_is_ready_cb_def
      kmp_register_meter_sent_data_cb_def\<close>)

lemma kmp_run_ok: "kmp_run q ev q' \<Longrightarrow> req_ok q \<Longrightarrow> req_ok q'"
  by (induction rule: kmp_run.induct) (auto intro: kmp_step_ok)

text \<open>
  In every run from a well-formed state the queue, the frame and the message buffer stay
  well formed and the keys usable, and the retransmission never happens: \<open>kmp_request_send\<close>
  counts the request and sets the counter back to 0 before it returns, so whenever the
  two-second timer fires it does nothing, and a lost request or reply is only repeated when
  the main program asks again.
\<close>

theorem kmp_never_retransmits:
  assumes "req_ok q" and "kmp_run q ev q'"
  shows "req_ok q' \<and> kmp_receive_timeout_timer_func ota q' = ([], q')"
  using kmp_run_ok [OF assms(2,1)] by (simp add: req_ok_def kmp_receive_timeout_timer_func_def)

theorem kmp_never_retransmits_witness:
  "kmp_receive_timeout_timer_func False (snd (kmp_request_send False sample_request)) =
     ([], snd (kmp_request_send False sample_request)) \<and>
   TimerArm kmp_receive_timeout_timer 2000 \<in> set (fst (kmp_request_send False sample_request))"
proof -
  have "req_ok sample_request"
    by (simp add: req_ok_def sample_request_def fifo_ok_def rb_wf_def as_ringbuf_def keys_ok_def sample_keys_def)
  moreover have "kmp_step sample_request (fst (kmp_request_send False sample_request)) (snd (kmp_request_send False sample_request))"
    by (rule kmp_step.send) simp
  then have "kmp_run sample_request ([] @ fst (kmp_request_send False sample_request)) (snd (kmp_request_send False sample_request))"
    by (rule kmp_run_step [OF kmp_run_refl])
  ultimately show ?thesis
    using kmp_never_retransmits [of sample_request "[] @ fst (kmp_request_send False sample_request)"]
    by (simp add: kmp_request_send_def)
qed

text \<open>
  The timers of a request send the two frames of the protocol: the serial number request
  at once and, 0.4 seconds later, the request for the eight registers of a heat meter.
\<close>

lemma kmp_get_frame_length:
  "kmp_get_serial frame = Some (n, k) \<Longrightarrow> n = kmp_frame_length k"
  "kmp_get_register frame ids = Some (n, k) \<Longrightarrow> n = kmp_frame_length k"
  by (auto simp: kmp_get_serial_def kmp_get_register_def kmp_stop_def Let_def)

lemma kmp_request_timers_send:
  assumes "req_ok q"
  shows "\<exists>q'. kmp_get_serial_timer_func q = Some ([UartTx (kmp_packet 0x80 [0x3f, 0x02])], q')"
    and "\<exists>q'. kmp_get_register_timer_func q =
       Some ([UartTx (kmp_packet 0x80 ([0x3f, 0x10, 8] @ register_bytes heat_registers))], q')"
proof -
  have frame: "1024 \<le> length (req_frame q)" using assms by (simp add: req_ok_def)
  have "\<exists>k. kmp_get_serial (req_frame q) = Some (length (kmp_packet 0x80 [0x3f, 0x02]), k) \<and>
      take (kmp_frame_length k) (kmp_frame k) = kmp_packet 0x80 [0x3f, 0x02]"
    unfolding kmp_get_serial_def by (rule kmp_short_request [OF frame])
  then obtain k where "kmp_get_serial (req_frame q) = Some (length (kmp_packet 0x80 [0x3f, 0x02]), k)"
    "take (length (kmp_packet 0x80 [0x3f, 0x02])) (kmp_frame k) = kmp_packet 0x80 [0x3f, 0x02]"
    using kmp_get_frame_length(1) by metis
  then show "\<exists>q'. kmp_get_serial_timer_func q = Some ([UartTx (kmp_packet 0x80 [0x3f, 0x02])], q')"
    by (simp add: kmp_get_serial_timer_func_def)
  have "take 8 heat_registers = heat_registers" "min 8 (length heat_registers) = 8"
    by (simp_all add: heat_registers_def)
  then obtain k where "kmp_get_register (req_frame q) heat_registers =
        Some (length (kmp_packet 0x80 ([0x3f, 0x10, 8] @ register_bytes heat_registers)), k)"
    "take (length (kmp_packet 0x80 ([0x3f, 0x10, 8] @ register_bytes heat_registers))) (kmp_frame k) =
       kmp_packet 0x80 ([0x3f, 0x10, 8] @ register_bytes heat_registers)"
    using kmp_register_request [OF frame refl, of heat_registers] kmp_get_frame_length(2)
    by (metis of_nat_numeral)
  then show "\<exists>q'. kmp_get_register_timer_func q =
      Some ([UartTx (kmp_packet 0x80 ([0x3f, 0x10, 8] @ register_bytes heat_registers))], q')"
    by (simp add: kmp_get_register_timer_func_def Let_def del: append.simps)
qed

end
