(* ===== verification/UnixTime.thy ===== *)
theory UnixTime
  imports Prelude
begin

text \<open>
  \<open>user/unix_time.c\<close>: the 64-bit Unix time built from the 32-bit timestamp of the SDK's
  SNTP client, and the uptime, which counts seconds itself until the first time answer. The
  timestamp \<open>sntp_get_current_timestamp\<close> returns is an input; the timers are flags.
\<close>

record unix_time =
  init_time :: u64
  current_unix_time :: u64
  ntp_offline_second_counter :: u64
  last_sntp_raw :: u32
  epoch_overflow_offset :: u64
  sntp_check_timer :: bool
  ntp_offline_second_counter_timer :: bool
  sntp_running :: bool

definition get_unix_time :: "u32 \<Rightarrow> unix_time \<Rightarrow> u64 \<times> unix_time" where
  "get_unix_time sntp_raw s =
     (if sntp_raw = 0 then (0, s)
      else
        let s = (if sntp_raw < last_sntp_raw s \<and> last_sntp_raw s > 0xF0000000
                 then s\<lparr>epoch_overflow_offset := epoch_overflow_offset s + 0x100000000\<rparr> else s);
            s = s\<lparr>last_sntp_raw := sntp_raw\<rparr>;
            s = s\<lparr>current_unix_time := epoch_overflow_offset s + ucast sntp_raw\<rparr>
        in (current_unix_time s, s))"

definition sntp_check_timer_func :: "u32 \<Rightarrow> unix_time \<Rightarrow> unix_time" where
  "sntp_check_timer_func sntp_raw s =
     (let (t, s) = get_unix_time sntp_raw s;
          s = s\<lparr>current_unix_time := t\<rparr>
      in if current_unix_time s = 0 then s\<lparr>sntp_check_timer := True\<rparr>
         else
           let s = s\<lparr>sntp_check_timer := False, ntp_offline_second_counter_timer := False\<rparr>
           in if init_time s = 0 then s\<lparr>init_time := current_unix_time s\<rparr> else s)"

definition ntp_offline_second_counter_timer_func :: "unix_time \<Rightarrow> unix_time" where
  "ntp_offline_second_counter_timer_func s =
     s\<lparr>ntp_offline_second_counter := ntp_offline_second_counter s + 1\<rparr>"

definition init_unix_time :: "unix_time \<Rightarrow> unix_time" where
  "init_unix_time s =
     s\<lparr>last_sntp_raw := 0, epoch_overflow_offset := 0, sntp_running := True, sntp_check_timer := True,
       ntp_offline_second_counter := 0, ntp_offline_second_counter_timer := True\<rparr>"

definition get_uptime :: "u32 \<Rightarrow> unix_time \<Rightarrow> u64 \<times> unix_time" where
  "get_uptime sntp_raw s =
     (let (t, s) = get_unix_time sntp_raw s;
          s = s\<lparr>current_unix_time := t\<rparr>
      in if init_time s = 0 then (ntp_offline_second_counter s, s)
         else (current_unix_time s - init_time s + ntp_offline_second_counter s, s))"

definition destroy_unix_time :: "unix_time \<Rightarrow> unix_time" where
  "destroy_unix_time s =
     s\<lparr>sntp_check_timer := False, ntp_offline_second_counter_timer := False, sntp_running := False\<rparr>"

section \<open>The clock behind the timestamp\<close>

text \<open>
  \<open>tracks t s\<close>: the state after a reading at the true time \<open>t\<close>. The SNTP client shows the
  low 32 bits of the time.
\<close>

definition sntp_raw_at :: "nat \<Rightarrow> u32" where
  "sntp_raw_at t = of_nat t"

definition tracks :: "nat \<Rightarrow> unix_time \<Rightarrow> bool" where
  "tracks t s \<longleftrightarrow> last_sntp_raw s = sntp_raw_at t \<and> epoch_overflow_offset s = of_nat (t - t mod 2 ^ 32)"

lemma unat_sntp_raw_at: "unat (sntp_raw_at t) = t mod 2 ^ 32"
  by (simp only: sntp_raw_at_def unat_of_nat) simp

lemma ucast_sntp_raw_at: "ucast (sntp_raw_at t) = (of_nat (t mod 2 ^ 32) :: u64)"
  by (simp only: word_unat_eq_iff unsigned_ucast_eq unat_sntp_raw_at unat_of_nat) (simp add: take_bit_eq_mod)

lemma same_time: "of_nat (t - t mod 2 ^ 32) + of_nat (t mod 2 ^ 32) = (of_nat t :: u64)"
  by (simp flip: of_nat_add)

text \<open>Between two readings less than \<open>2 ^ 28\<close> seconds apart the low word wraps at most once.\<close>

lemma low_word_wraps:
  fixes t t' :: nat
  assumes "t \<le> t'" and "t' < t + 2 ^ 28"
  shows "t' mod 2 ^ 32 < t mod 2 ^ 32 \<Longrightarrow>
      t' - t' mod 2 ^ 32 = t - t mod 2 ^ 32 + 2 ^ 32 \<and> 0xF0000000 < t mod 2 ^ 32"
    and "\<not> t' mod 2 ^ 32 < t mod 2 ^ 32 \<Longrightarrow> t' - t' mod 2 ^ 32 = t - t mod 2 ^ 32"
proof -
  define q r q' r' where defs: "q = t div 2 ^ 32" "r = t mod 2 ^ 32" "q' = t' div 2 ^ 32" "r' = t' mod 2 ^ 32"
  have t: "t = 4294967296 * q + r" "t' = 4294967296 * q' + r'" "r < 4294967296" "r' < 4294967296"
    unfolding defs by simp_all
  note b = assms(1) assms(2) [simplified] t(3,4)
  have sub: "t - r = 4294967296 * q" "t' - r' = 4294967296 * q'" using t by simp_all
  show "t' - t' mod 2 ^ 32 = t - t mod 2 ^ 32 + 2 ^ 32 \<and> 0xF0000000 < t mod 2 ^ 32" if "t' mod 2 ^ 32 < t mod 2 ^ 32"
  proof -
    have r: "r' < r" using that by (simp only: defs)
    have "q < q'" using b r t(1,2) by (intro notI [THEN not_le_imp_less]) linarith
    moreover have "q' < q + 2" using b r t(1,2) by (intro notI [THEN not_le_imp_less]) linarith
    ultimately have q: "q' = q + 1" by simp
    then have "0xF0000000 < r" using b t(1,2) by simp
    moreover have "t' - r' = t - r + 4294967296" using sub q by simp
    ultimately show ?thesis unfolding defs by simp
  qed
  show "t' - t' mod 2 ^ 32 = t - t mod 2 ^ 32" if "\<not> t' mod 2 ^ 32 < t mod 2 ^ 32"
  proof -
    have r: "r \<le> r'" using that by (simp only: defs not_less)
    have "q \<le> q'" using b r t(1,2) by (intro notI [THEN leI]) linarith
    moreover have "q' \<le> q" using b r t(1,2) by (intro notI [THEN leI]) linarith
    ultimately have "t' - r' = t - r" using sub by simp
    then show ?thesis unfolding defs by simp
  qed
qed

lemma get_unix_time_tracks:
  assumes "tracks t s" and "t \<le> t'" and "t' < t + 2 ^ 28" and "t' mod 2 ^ 32 \<noteq> 0"
  shows "\<exists>s'. get_unix_time (sntp_raw_at t') s = (of_nat t', s') \<and> tracks t' s' \<and>
    init_time s' = init_time s \<and> ntp_offline_second_counter s' = ntp_offline_second_counter s"
proof -
  let ?M = "2 ^ 32 :: nat"
  have raw: "sntp_raw_at t' \<noteq> 0"
    using assms(4) unat_sntp_raw_at [of t'] by (metis unat_0)
  have cmp: "sntp_raw_at t' < last_sntp_raw s \<longleftrightarrow> t' mod ?M < t mod ?M"
    "last_sntp_raw s > 0xF0000000 \<longleftrightarrow> t mod ?M > 0xF0000000"
    using assms(1) by (simp_all only: tracks_def word_less_nat_alt unat_sntp_raw_at) simp_all
  have off: "epoch_overflow_offset s = of_nat (t - t mod ?M)" using assms(1) by (simp add: tracks_def)
  show ?thesis
  proof (cases "t' mod ?M < t mod ?M")
    case True
    have "t' - t' mod ?M = t - t mod ?M + ?M" and big: "t mod ?M > 0xF0000000"
      using low_word_wraps(1) [OF assms(2,3) True] by (simp_all only:)
    then have "of_nat (t' - t' mod ?M) = (of_nat (t - t mod ?M) + 0x100000000 :: u64)"
      by (simp only: of_nat_add) simp
    then show ?thesis
      using True big raw cmp off same_time [of t']
      by (simp add: get_unix_time_def Let_def tracks_def ucast_sntp_raw_at)
  next
    case False
    have "t' - t' mod ?M = t - t mod ?M"
      by (rule low_word_wraps(2) [OF assms(2,3) False])
    then show ?thesis
      using False raw cmp off same_time [of t']
      by (simp add: get_unix_time_def Let_def tracks_def ucast_sntp_raw_at)
  qed
qed

section \<open>Readings\<close>

fun readings :: "u32 list \<Rightarrow> unix_time \<Rightarrow> u64 list \<times> unix_time" where
  "readings [] s = ([], s)"
| "readings (r # rs) s =
     (let (t, s) = get_unix_time r s; (ts, s) = readings rs s in (t # ts, s))"

text \<open>
  The true times of successive readings: never backwards, and less than \<open>2 ^ 28\<close> seconds
  (eight and a half years) after the last reading that showed a time. In the one second of an
  epoch in which the timestamp is 0 a reading shows no time.
\<close>

fun clock_run :: "nat \<Rightarrow> nat list \<Rightarrow> bool" where
  "clock_run t [] = True"
| "clock_run t (u # us) = (t \<le> u \<and> u < t + 2 ^ 28 \<and> clock_run (if u mod 2 ^ 32 = 0 then t else u) us)"

definition shown_time :: "nat \<Rightarrow> u64" where
  "shown_time u = (if u mod 2 ^ 32 = 0 then 0 else of_nat u)"

lemma get_unix_time_none: "get_unix_time 0 s = (0, s)"
  by (simp add: get_unix_time_def)

lemma sntp_raw_at_0: "u mod 2 ^ 32 = 0 \<Longrightarrow> sntp_raw_at u = 0"
  using unat_sntp_raw_at [of u] by (metis unat_eq_zero)

lemma readings_track:
  "tracks t s \<Longrightarrow> clock_run t us \<Longrightarrow> fst (readings (map sntp_raw_at us) s) = map shown_time us"
proof (induction us arbitrary: t s)
  case (Cons u us)
  show ?case
  proof (cases "u mod 2 ^ 32 = 0")
    case True
    then have "fst (readings (map sntp_raw_at us) s) = map shown_time us"
      using Cons.prems by (intro Cons.IH [of t]) simp_all
    then show ?thesis
      using sntp_raw_at_0 [OF True] True by (simp add: get_unix_time_none split_beta shown_time_def)
  next
    case False
    then obtain s' where s': "get_unix_time (sntp_raw_at u) s = (of_nat u, s')" "tracks u s'"
      using get_unix_time_tracks [of t s u] Cons.prems by auto
    then have "fst (readings (map sntp_raw_at us) s') = map shown_time us"
      using Cons.prems False by (intro Cons.IH [of u]) simp_all
    then show ?thesis using s' False by (simp add: split_beta shown_time_def)
  qed
qed simp

lemma readings_none: "fst (readings (replicate n 0 @ rs) s) = replicate n 0 @ fst (readings rs s)"
  by (induction n) (simp_all add: get_unix_time_none split_beta)

lemma get_unix_time_first:
  assumes "last_sntp_raw s = 0" and "epoch_overflow_offset s = 0" and "0 < t" and "t < 2 ^ 32"
  shows "\<exists>s'. get_unix_time (sntp_raw_at t) s = (of_nat t, s') \<and> tracks t s'"
proof -
  have "sntp_raw_at t \<noteq> 0" using assms(3,4) unat_sntp_raw_at [of t] by (metis mod_less not_less0 unat_0)
  then show ?thesis
    using assms ucast_sntp_raw_at [of t] by (simp add: get_unix_time_def Let_def tracks_def)
qed

text \<open>
  C34: The 64-bit time is right past the year 2106: readings before the first answer of the time
  server return 0 (no time); when that answer comes before the first wrap of the timestamp
  (\<open>t < 2 ^ 32\<close>), every later reading returns the true time, however often the 32-bit timestamp
  wraps around, as long as time does not run backwards and each reading is less than
  \<open>2 ^ 28\<close> seconds after the last one that showed a time. The exception is stated too: a
  reading in the one second of each epoch in which the timestamp is 0 returns 0.
\<close>

theorem unix_time_survives_rollover:
  assumes "0 < t" and "t < 2 ^ 32" and "clock_run t us"
  shows "fst (readings (replicate n 0 @ map sntp_raw_at (t # us)) (init_unix_time s)) =
    replicate n 0 @ map (\<lambda>u. if u mod 2 ^ 32 = 0 then 0 else of_nat u) (t # us)"
proof -
  obtain s' where "get_unix_time (sntp_raw_at t) (init_unix_time s) = (of_nat t, s')" "tracks t s'"
    using get_unix_time_first [of "init_unix_time s" t] assms by (auto simp: init_unix_time_def)
  then show ?thesis
    using readings_track [OF _ assms(3)] assms(1,2) by (auto simp: readings_none split_beta shown_time_def)
qed

definition booted :: unix_time where
  "booted = \<lparr>init_time = 0, current_unix_time = 0, ntp_offline_second_counter = 0, last_sntp_raw = 0,
     epoch_overflow_offset = 0, sntp_check_timer = False, ntp_offline_second_counter_timer = False,
     sntp_running = False\<rparr>"

theorem unix_time_survives_rollover_witness:
  "fst (readings [0, 0xFFFFFFFE, 0, 5, 60] (init_unix_time booted)) =
     [0, 0xFFFFFFFE, 0, 0x100000005, 0x10000003C]"
proof -
  have "map sntp_raw_at [4294967294, 4294967296, 4294967301, 4294967356] = [0xFFFFFFFE, 0, 5, 60]"
    by (simp add: sntp_raw_at_def)
  then show ?thesis
    using unix_time_survives_rollover [of 4294967294 "[4294967296, 4294967301, 4294967356]" 1 booted] by simp
qed

section \<open>Uptime\<close>

text \<open>Before the first answer the uptime counts the seconds; from it on it follows the time.\<close>

lemma get_uptime_offline:
  "init_time s = 0 \<Longrightarrow> fst (get_uptime r s) = ntp_offline_second_counter s"
  by (auto simp: get_uptime_def get_unix_time_def Let_def)

lemma get_uptime_synced:
  assumes "tracks t s" and "init_time s = of_nat t0" and "0 < t0" and "t0 < 2 ^ 63" and "t0 \<le> t"
    and "t \<le> t'" and "t' < t + 2 ^ 28" and "t' mod 2 ^ 32 \<noteq> 0"
  shows "\<exists>s'. get_uptime (sntp_raw_at t') s = (of_nat (t' - t0) + ntp_offline_second_counter s, s') \<and>
    tracks t' s' \<and> init_time s' = init_time s \<and> ntp_offline_second_counter s' = ntp_offline_second_counter s"
proof -
  obtain s1 where s1: "get_unix_time (sntp_raw_at t') s = (of_nat t', s1)" "tracks t' s1"
    "init_time s1 = init_time s" "ntp_offline_second_counter s1 = ntp_offline_second_counter s"
    using get_unix_time_tracks [OF assms(1,6-8)] by auto
  have "unat (of_nat t0 :: u64) = t0" using assms(4) by (simp only: unat_of_nat) simp
  then have "(of_nat t0 :: u64) \<noteq> 0" using assms(3) by (metis less_numeral_extra(3) unat_0)
  moreover have "(of_nat (t' - t0) :: u64) = of_nat t' - of_nat t0" using assms(5,6) by (intro of_nat_diff) simp
  ultimately show ?thesis
    using s1 assms(2) by (simp add: get_uptime_def Let_def tracks_def)
qed

text \<open>
  At the moment of the first answer nothing jumps: the offline counter stops, \<open>init_time\<close>
  is that moment, and the uptime is the counter.
\<close>

lemma sntp_answer_keeps_uptime:
  assumes "tracks t s" and "init_time s = 0" and "t \<le> t'" and "t' < t + 2 ^ 28" and "t' mod 2 ^ 32 \<noteq> 0"
    and "t' < 2 ^ 64"
  shows "fst (get_uptime (sntp_raw_at t') (sntp_check_timer_func (sntp_raw_at t') s)) = ntp_offline_second_counter s"
    and "\<not> ntp_offline_second_counter_timer (sntp_check_timer_func (sntp_raw_at t') s)"
proof -
  have raw: "sntp_raw_at t' \<noteq> 0" using assms(5) unat_sntp_raw_at [of t'] by (metis unat_0)
  obtain s1 where s1: "get_unix_time (sntp_raw_at t') s = (of_nat t', s1)" "tracks t' s1"
    "init_time s1 = init_time s" "ntp_offline_second_counter s1 = ntp_offline_second_counter s"
    using get_unix_time_tracks [OF assms(1,3-5)] by auto
  have "t' \<noteq> 0" using assms(5) by (intro notI) simp
  moreover have "unat (of_nat t' :: u64) = t'" using assms(6) by (simp only: unat_of_nat) simp
  ultimately have t': "(of_nat t' :: u64) \<noteq> 0" by (metis unat_0)
  have again: "get_unix_time (sntp_raw_at t') x = (epoch_overflow_offset x + ucast (sntp_raw_at t'),
      x\<lparr>current_unix_time := epoch_overflow_offset x + ucast (sntp_raw_at t')\<rparr>)"
    if "last_sntp_raw x = sntp_raw_at t'" for x
    using that raw by (simp add: get_unix_time_def Let_def)
  show "fst (get_uptime (sntp_raw_at t') (sntp_check_timer_func (sntp_raw_at t') s)) = ntp_offline_second_counter s"
    using s1 t' assms(2) same_time [of t']
    by (simp add: sntp_check_timer_func_def get_uptime_def Let_def again tracks_def ucast_sntp_raw_at)
  show "\<not> ntp_offline_second_counter_timer (sntp_check_timer_func (sntp_raw_at t') s)"
    using s1 t' by (simp add: sntp_check_timer_func_def Let_def)
qed

end
