(* ===== verification/Watchdog.thy ===== *)
theory Watchdog
  imports UnixTime
begin

text \<open>
  \<open>user/watchdog.c\<close>: the software watchdogs. The list has \<open>WATCHDOG_MAX\<close> slots of which the
  first \<open>watchdog_list_len\<close> are in use; a timer looks at every slot once a second. The calls
  into the SDK, the LED and the WiFi module are events; the uptime (\<open>get_uptime\<close> of
  \<open>UnixTime\<close>) is an input of the operations that read it.
\<close>

datatype watchdog_type = NOT_ENABLED | REBOOT | NETWORK_RESTART

record watchdog_t =
  wd_id :: u32
  wd_type :: watchdog_type
  wd_timeout :: u32
  last_reset :: u32

abbreviation (input) WATCHDOG_MAX :: nat where
  "WATCHDOG_MAX \<equiv> 2"

datatype opmode = NULL_MODE | STATION_MODE | SOFTAP_MODE | STATIONAP_MODE

datatype watchdog_event =
    SaveRtcData
  | SystemRestartDefered
  | LedPatternB
  | LedStopPattern
  | WifiStopScan
  | SetMyAutoConnect bool
  | WifiStationDisconnect
  | WifiSetOpmode opmode
  | WifiDefault
  | WifiFallbackForceResetState
  | WifiStartScanLong
  | ReconnectTimer nat
  | Gpio16Set bool

record watchdog =
  watchdog_list :: "watchdog_t list"
  watchdog_list_len :: nat
  watchdog_timer :: bool
  status_led_timer :: bool
  wifi_reconnect_timer :: bool
  disconnect_count :: u32

definition empty_slot :: watchdog_t where
  "empty_slot = \<lparr>wd_id = 0, wd_type = NOT_ENABLED, wd_timeout = 0, last_reset = 0\<rparr>"

definition init_watchdog :: "watchdog \<Rightarrow> watchdog" where
  "init_watchdog w = w\<lparr>watchdog_list := replicate WATCHDOG_MAX empty_slot, watchdog_list_len := 0\<rparr>"

definition start_watchdog :: "watchdog \<Rightarrow> watchdog_event list \<times> watchdog" where
  "start_watchdog w = ([Gpio16Set True], w\<lparr>watchdog_timer := True, status_led_timer := True\<rparr>)"

definition stop_watchdog :: "watchdog \<Rightarrow> watchdog" where
  "stop_watchdog w = w\<lparr>watchdog_timer := False, status_led_timer := False, wifi_reconnect_timer := False\<rparr>"

definition status_led_timer_func :: "bool \<Rightarrow> watchdog_event list" where
  "status_led_timer_func gpio16 = [Gpio16Set (\<not> gpio16)]"

definition add_watchdog :: "u64 \<Rightarrow> u32 \<Rightarrow> watchdog_type \<Rightarrow> u32 \<Rightarrow> watchdog \<Rightarrow> bool \<times> watchdog" where
  "add_watchdog uptime i ty timeout w =
     (if watchdog_list_len w < WATCHDOG_MAX then
        (True, w\<lparr>watchdog_list := (watchdog_list w)[watchdog_list_len w :=
                   \<lparr>wd_id = i, wd_type = ty, wd_timeout = timeout, last_reset = ucast uptime\<rparr>],
                 watchdog_list_len := watchdog_list_len w + 1\<rparr>)
      else (False, w))"

text \<open>The two loops of \<open>remove_watchdog\<close>: \<open>n\<close> slots are left.\<close>

fun find_watchdog :: "u32 \<Rightarrow> watchdog_t list \<Rightarrow> nat \<Rightarrow> nat \<Rightarrow> nat" where
  "find_watchdog i ws k 0 = k"
| "find_watchdog i ws k (Suc n) = (if wd_id (ws ! k) = i then k else find_watchdog i ws (k + 1) n)"

fun shift_down :: "watchdog_t list \<Rightarrow> nat \<Rightarrow> nat \<Rightarrow> watchdog_t list" where
  "shift_down ws k 0 = ws"
| "shift_down ws k (Suc n) = shift_down (ws[k := ws ! (k + 1)]) (k + 1) n"

definition remove_watchdog :: "u32 \<Rightarrow> watchdog \<Rightarrow> bool \<times> watchdog" where
  "remove_watchdog wid w =
     (let ws = watchdog_list w; len = watchdog_list_len w
      in if len = 0 then (False, w)
         else
           let i = find_watchdog wid ws 0 len
           in if i = len then (False, w)
              else
                let ws = shift_down ws i (len - 1 - i);
                    ws = ws[len - 1 := empty_slot]
                in (True, w\<lparr>watchdog_list := ws, watchdog_list_len := len - 1\<rparr>))"

definition reset_watchdog :: "u64 \<Rightarrow> u32 \<Rightarrow> watchdog \<Rightarrow> watchdog" where
  "reset_watchdog uptime i w =
     w\<lparr>watchdog_list := map (\<lambda>e. if wd_id e = i then e\<lparr>last_reset := ucast uptime\<rparr> else e) (watchdog_list w)\<rparr>"

definition force_reset_wifi :: "watchdog \<Rightarrow> watchdog_event list \<times> watchdog" where
  "force_reset_wifi w =
     ([LedPatternB, WifiStopScan, SetMyAutoConnect False, WifiStationDisconnect, WifiSetOpmode NULL_MODE,
       ReconnectTimer 6000],
      w\<lparr>wifi_reconnect_timer := True, disconnect_count := disconnect_count w + 1\<rparr>)"

definition wifi_reconnect_timer_func ::
    "bool \<Rightarrow> bool \<Rightarrow> opmode \<Rightarrow> watchdog \<Rightarrow> watchdog_event list \<times> watchdog" where
  "wifi_reconnect_timer_func scan_is_running ap_enabled op w =
     (if scan_is_running then ([ReconnectTimer 1000], w\<lparr>wifi_reconnect_timer := True\<rparr>)
      else
        let mode = (if ap_enabled then STATIONAP_MODE else STATION_MODE)
        in ((if op \<noteq> mode then [WifiSetOpmode mode] else []) @
            [LedStopPattern, SetMyAutoConnect True, WifiDefault, WifiFallbackForceResetState, WifiStartScanLong],
            w\<lparr>wifi_reconnect_timer := False\<rparr>))"

text \<open>One pass of the loop of the timer, and the timer.\<close>

definition check_watchdog :: "u64 \<Rightarrow> nat \<Rightarrow> watchdog \<Rightarrow> watchdog_event list \<times> watchdog" where
  "check_watchdog uptime i w =
     (let e = watchdog_list w ! i
      in if wd_type e = NOT_ENABLED \<or> last_reset e = 0 then ([], w)
         else if uptime - ucast (last_reset e) > ucast (wd_timeout e) then
           let (ev, w) =
                 (case wd_type e of
                    REBOOT \<Rightarrow> ([SaveRtcData, SystemRestartDefered], w)
                  | NETWORK_RESTART \<Rightarrow> force_reset_wifi w
                  | NOT_ENABLED \<Rightarrow> ([], w))
           in (ev, w\<lparr>watchdog_list := (watchdog_list w)[i := e\<lparr>last_reset := ucast uptime\<rparr>]\<rparr>)
         else ([], w))"

fun check_loop :: "u64 \<Rightarrow> nat \<Rightarrow> nat \<Rightarrow> watchdog \<Rightarrow> watchdog_event list \<times> watchdog" where
  "check_loop uptime i 0 w = ([], w)"
| "check_loop uptime i (Suc n) w =
     (let (ev, w) = check_watchdog uptime i w; (ev', w) = check_loop uptime (i + 1) n w
      in (ev @ ev', w))"

definition watchdog_timer_func :: "u64 \<Rightarrow> watchdog \<Rightarrow> watchdog_event list \<times> watchdog" where
  "watchdog_timer_func uptime w = check_loop uptime 0 WATCHDOG_MAX w"

section \<open>The list of watchdogs\<close>

definition wd_ok :: "watchdog \<Rightarrow> bool" where
  "wd_ok w \<longleftrightarrow> length (watchdog_list w) = WATCHDOG_MAX \<and> watchdog_list_len w \<le> WATCHDOG_MAX \<and>
     (\<forall>i. watchdog_list_len w \<le> i \<longrightarrow> i < WATCHDOG_MAX \<longrightarrow> wd_type (watchdog_list w ! i) = NOT_ENABLED)"

definition entries :: "watchdog \<Rightarrow> watchdog_t list" where
  "entries w = take (watchdog_list_len w) (watchdog_list w)"

fun remove_first :: "u32 \<Rightarrow> watchdog_t list \<Rightarrow> watchdog_t list" where
  "remove_first i [] = []"
| "remove_first i (e # es) = (if wd_id e = i then es else e # remove_first i es)"

lemma wd_cases:
  assumes "wd_ok w"
  obtains (none) a b where "watchdog_list w = [a, b]" "watchdog_list_len w = 0" "wd_type a = NOT_ENABLED" "wd_type b = NOT_ENABLED"
    | (one) a b where "watchdog_list w = [a, b]" "watchdog_list_len w = 1" "wd_type b = NOT_ENABLED"
    | (two) a b where "watchdog_list w = [a, b]" "watchdog_list_len w = 2"
proof -
  obtain a b where l: "watchdog_list w = [a, b]"
    using assms by (auto simp: wd_ok_def numeral_2_eq_2 length_Suc_conv)
  have "watchdog_list_len w = 0 \<or> watchdog_list_len w = 1 \<or> watchdog_list_len w = 2"
    using assms by (auto simp: wd_ok_def)
  moreover have "wd_type b = NOT_ENABLED" if "watchdog_list_len w \<le> 1"
    using assms that l by (auto simp: wd_ok_def dest: spec [where x = 1])
  moreover have "wd_type a = NOT_ENABLED" if "watchdog_list_len w = 0"
    using assms that l by (auto simp: wd_ok_def dest: spec [where x = 0])
  ultimately show thesis using l none one two by auto
qed

lemma wd_ok_list:
  "watchdog_list w = [a, b] \<Longrightarrow> wd_ok w \<longleftrightarrow> watchdog_list_len w \<le> 2 \<and>
     (watchdog_list_len w \<le> 1 \<longrightarrow> wd_type b = NOT_ENABLED) \<and> (watchdog_list_len w = 0 \<longrightarrow> wd_type a = NOT_ENABLED)"
  by (auto simp: wd_ok_def less_Suc_eq numeral_2_eq_2 nth_Cons')

lemma watchdog_list_add:
  assumes "wd_ok w"
  shows "case add_watchdog uptime i ty timeout w of (ok, w') \<Rightarrow>
       wd_ok w' \<and> ok = (length (entries w) < 2) \<and>
       entries w' = entries w @ (if ok then [\<lparr>wd_id = i, wd_type = ty, wd_timeout = timeout, last_reset = ucast uptime\<rparr>] else [])"
  using assms by (cases w rule: wd_cases) (simp_all add: add_watchdog_def entries_def wd_ok_list)

text \<open>
  C38: The array of slots implements a list of at most two watchdogs: adding appends, and is
  refused exactly when two are there; removing takes out the first with the id and closes
  the gap, and is refused exactly when there is none; feeding changes nothing but the time of
  those with the id. The slots behind the list stay disabled, so the timer never acts on a
  watchdog that was not added or has been removed.
\<close>

theorem watchdog_list_refines:
  assumes "wd_ok w"
  shows "wd_ok (init_watchdog v) \<and> entries (init_watchdog v) = [] \<and>
    (case add_watchdog uptime i ty timeout w of (ok, w') \<Rightarrow>
       wd_ok w' \<and> ok = (length (entries w) < 2) \<and>
       entries w' = entries w @ (if ok then [\<lparr>wd_id = i, wd_type = ty, wd_timeout = timeout, last_reset = ucast uptime\<rparr>] else [])) \<and>
    (case remove_watchdog i w of (ok, w') \<Rightarrow>
       wd_ok w' \<and> ok = (\<exists>e \<in> set (entries w). wd_id e = i) \<and> entries w' = remove_first i (entries w)) \<and>
    wd_ok (reset_watchdog uptime i w) \<and>
    entries (reset_watchdog uptime i w) =
      map (\<lambda>e. if wd_id e = i then e\<lparr>last_reset := ucast uptime\<rparr> else e) (entries w)"
proof -
  have "wd_ok (init_watchdog v) \<and> entries (init_watchdog v) = []"
    by (simp add: init_watchdog_def wd_ok_def entries_def empty_slot_def nth_Cons' numeral_2_eq_2)
  moreover have "case add_watchdog uptime i ty timeout w of (ok, w') \<Rightarrow>
       wd_ok w' \<and> ok = (length (entries w) < 2) \<and>
       entries w' = entries w @ (if ok then [\<lparr>wd_id = i, wd_type = ty, wd_timeout = timeout, last_reset = ucast uptime\<rparr>] else [])"
    using assms by (rule watchdog_list_add)
  moreover have "case remove_watchdog i w of (ok, w') \<Rightarrow>
       wd_ok w' \<and> ok = (\<exists>e \<in> set (entries w). wd_id e = i) \<and> entries w' = remove_first i (entries w)"
    using assms by (cases w rule: wd_cases)
      (simp_all add: remove_watchdog_def entries_def wd_ok_list empty_slot_def Let_def numeral_2_eq_2)
  moreover have "wd_ok (reset_watchdog uptime i w)"
    using assms by (cases w rule: wd_cases) (simp_all add: reset_watchdog_def wd_ok_list)
  moreover have "entries (reset_watchdog uptime i w) =
      map (\<lambda>e. if wd_id e = i then e\<lparr>last_reset := ucast uptime\<rparr> else e) (entries w)"
    by (simp add: reset_watchdog_def entries_def take_map)
  ultimately show ?thesis by blast
qed

definition mqtt_watchdog :: watchdog_t where
  "mqtt_watchdog = \<lparr>wd_id = 1, wd_type = NETWORK_RESTART, wd_timeout = 120, last_reset = 1000\<rparr>"

definition reboot_watchdog :: watchdog_t where
  "reboot_watchdog = \<lparr>wd_id = 2, wd_type = REBOOT, wd_timeout = 86400, last_reset = 1000\<rparr>"

definition two_watchdogs :: watchdog where
  "two_watchdogs =
     \<lparr>watchdog_list = [mqtt_watchdog, reboot_watchdog], watchdog_list_len = 2, watchdog_timer = True,
      status_led_timer = True, wifi_reconnect_timer = False, disconnect_count = 0\<rparr>"

lemma two_watchdogs_ok: "wd_ok two_watchdogs"
  by (simp add: wd_ok_def two_watchdogs_def)

theorem watchdog_list_refines_witness:
  "entries (snd (remove_watchdog 1 two_watchdogs)) = [reboot_watchdog] \<and>
   fst (add_watchdog 5 3 REBOOT 60 two_watchdogs) = False \<and>
   wd_ok (snd (remove_watchdog 1 two_watchdogs))"
proof -
  have "entries two_watchdogs = [mqtt_watchdog, reboot_watchdog]"
    by (simp add: entries_def two_watchdogs_def)
  then show ?thesis
    using watchdog_list_refines [OF two_watchdogs_ok, where v = two_watchdogs and i = 1]
      watchdog_list_refines [OF two_watchdogs_ok, where v = two_watchdogs and i = 3 and uptime = 5 and ty = REBOOT and timeout = 60]
    by (simp add: split_beta mqtt_watchdog_def)
qed

section \<open>When a watchdog acts\<close>

definition starved :: "u64 \<Rightarrow> watchdog_t \<Rightarrow> bool" where
  "starved uptime e \<longleftrightarrow> wd_type e \<noteq> NOT_ENABLED \<and> last_reset e \<noteq> 0 \<and>
     (unat uptime < unat (last_reset e) \<or> unat (last_reset e) + unat (wd_timeout e) < unat uptime)"

definition watchdog_action :: "watchdog_t \<Rightarrow> watchdog_event list" where
  "watchdog_action e =
     (case wd_type e of
        NOT_ENABLED \<Rightarrow> []
      | REBOOT \<Rightarrow> [SaveRtcData, SystemRestartDefered]
      | NETWORK_RESTART \<Rightarrow> [LedPatternB, WifiStopScan, SetMyAutoConnect False, WifiStationDisconnect,
          WifiSetOpmode NULL_MODE, ReconnectTimer 6000])"

lemma unat_u32_bound: "unat (w :: u32) < 4294967296"
  using unsigned_less [of w] by simp

lemma unat_ucast_u64: "unat (ucast (w :: u32) :: u64) = unat w"
  by (simp only: unsigned_ucast_eq) (simp add: take_bit_nat_eq_self less_trans [OF unat_u32_bound])

text \<open>The 64-bit difference of the code, with the 32-bit time of the last reset.\<close>

lemma overdue_exact:
  "uptime - ucast (r :: u32) > (ucast (t :: u32) :: u64) \<longleftrightarrow>
   unat uptime < unat r \<or> unat r + unat t < unat uptime"
proof (cases "unat uptime < unat r")
  case True
  have "unat (uptime - ucast r) = unat uptime + 2 ^ 64 - unat r"
    using True unat_sub_if' [of uptime "ucast r"] by (simp add: unat_ucast_u64)
  then show ?thesis
    using True unat_u32_bound [of r] unat_u32_bound [of t] by (simp add: word_less_nat_alt unat_ucast_u64)
next
  case False
  then have "unat (uptime - ucast r) = unat uptime - unat r"
    using unat_sub_if' [of uptime "ucast r"] by (simp add: unat_ucast_u64)
  then show ?thesis
    using False by (auto simp: word_less_nat_alt unat_ucast_u64)
qed

lemma check_watchdog_exact:
  "fst (check_watchdog uptime i w) =
     (if starved uptime (watchdog_list w ! i) then watchdog_action (watchdog_list w ! i) else [])"
  "watchdog_list (snd (check_watchdog uptime i w)) =
     (if starved uptime (watchdog_list w ! i)
      then (watchdog_list w)[i := (watchdog_list w ! i)\<lparr>last_reset := ucast uptime\<rparr>] else watchdog_list w)"
  "watchdog_list_len (snd (check_watchdog uptime i w)) = watchdog_list_len w"
  by (auto simp: check_watchdog_def overdue_exact starved_def watchdog_action_def force_reset_wifi_def Let_def
      split: watchdog_type.splits)

text \<open>
  C31: Once a second exactly the starved watchdogs act, each with its own action and once,
  and are restarted; the others are left alone. Starved means: enabled, with a time of the
  last reset other than 0, and more than its timeout behind - or ahead of the present
  uptime, so a clock that is set back lets every watchdog act at once.
\<close>

theorem watchdog_timer_exact:
  assumes "wd_ok w" and "watchdog_timer_func uptime w = (ev, w')"
  shows "ev = concat (map (\<lambda>e. if starved uptime e then watchdog_action e else []) (watchdog_list w)) \<and>
    watchdog_list w' = map (\<lambda>e. if starved uptime e then e\<lparr>last_reset := ucast uptime\<rparr> else e) (watchdog_list w) \<and>
    wd_ok w' \<and> (\<forall>e \<in> set (entries w). \<not> starved uptime e) = (ev = [])"
proof -
  obtain a b where l: "watchdog_list w = [a, b]"
    using assms(1) by (auto simp: wd_ok_def numeral_2_eq_2 length_Suc_conv)
  let ?w1 = "snd (check_watchdog uptime 0 w)" and ?w2 = "snd (check_watchdog uptime 1 (snd (check_watchdog uptime 0 w)))"
  have r: "ev = fst (check_watchdog uptime 0 w) @ fst (check_watchdog uptime 1 ?w1)" "w' = ?w2"
    using assms(2) by (simp_all add: watchdog_timer_func_def numeral_2_eq_2 split_beta Let_def)
  have ev: "ev = concat (map (\<lambda>e. if starved uptime e then watchdog_action e else []) (watchdog_list w))"
    by (simp add: r check_watchdog_exact l)
  moreover have list: "watchdog_list w' = map (\<lambda>e. if starved uptime e then e\<lparr>last_reset := ucast uptime\<rparr> else e) (watchdog_list w)"
    by (simp add: r check_watchdog_exact l)
  moreover have "wd_ok w'"
    using assms(1) list l wd_ok_list [OF l] by (simp add: wd_ok_list r(2) check_watchdog_exact)
  moreover have act: "watchdog_action e \<noteq> []" if "starved uptime e" for e
    using that by (simp add: watchdog_action_def starved_def split: watchdog_type.split)
  have "(\<forall>e \<in> set (entries w). \<not> starved uptime e) = (ev = [])"
    using assms(1) by (cases w rule: wd_cases) (auto simp: ev entries_def dest: act, auto simp: starved_def)
  ultimately show ?thesis by blast
qed

theorem watchdog_timer_exact_witness:
  "fst (watchdog_timer_func 1120 two_watchdogs) = [] \<and>
   fst (watchdog_timer_func 1121 two_watchdogs) = watchdog_action mqtt_watchdog \<and>
   fst (watchdog_timer_func 999 two_watchdogs) = watchdog_action mqtt_watchdog @ [SaveRtcData, SystemRestartDefered]"
proof -
  have l: "watchdog_list two_watchdogs = [mqtt_watchdog, reboot_watchdog]" by (simp add: two_watchdogs_def)
  have s: "starved 1121 mqtt_watchdog" "\<not> starved 1121 reboot_watchdog" "\<not> starved 1120 mqtt_watchdog"
    "\<not> starved 1120 reboot_watchdog" "starved 999 mqtt_watchdog" "starved 999 reboot_watchdog"
    by (simp_all add: starved_def mqtt_watchdog_def reboot_watchdog_def)
  have "watchdog_action reboot_watchdog = [SaveRtcData, SystemRestartDefered]"
    by (simp add: watchdog_action_def reboot_watchdog_def)
  then show ?thesis
    using watchdog_timer_exact [OF two_watchdogs_ok surjective_pairing, of 1120]
      watchdog_timer_exact [OF two_watchdogs_ok surjective_pairing, of 1121]
      watchdog_timer_exact [OF two_watchdogs_ok surjective_pairing, of 999] l s by simp
qed

text \<open>A watchdog added in the first second after start-up is never looked at.\<close>

lemma watchdog_added_at_zero_sleeps:
  "wd_ok w \<Longrightarrow> length (entries w) < 2 \<Longrightarrow>
   \<not> starved uptime (last (entries (snd (add_watchdog 0 i ty timeout w))))"
  using watchdog_list_add [where w = w and uptime = 0 and i = i and ty = ty and timeout = timeout] by (auto simp: starved_def split_beta)

end
