(* ===== verification/AcOut.thy ===== *)
theory AcOut
  imports Prelude
begin

text \<open>
  \<open>user/ac/ac_out.c\<close>: the outputs of the thermo actuator. GPIO 14 and 15 are the two levels;
  the build options \<open>THERMO_NO\<close> (the actuator closes when powered), \<open>THERMO_ON_AC_2\<close> and
  \<open>LED_ON_AC\<close> are the fields of a configuration. Timers are the armed delay in milliseconds,
  and the requests to the LED and to save the configuration are events.
\<close>

record ac_config =
  thermo_no :: bool
  thermo_on_ac_2 :: bool
  led_on_ac :: bool

datatype ac_event = LedPatternA | LedPatternB | LedStop | LedOff | LedOn | CfgSaveDefered

datatype ac_pwm_state_t = ON | OFF

record ac_out =
  gpio14 :: bool
  gpio15 :: bool
  ac_test_timer :: bool
  ac_out_off_timer :: "nat option"
  ac_pwm_timer :: "u32 option"
  ac_pwm_duty_cycle :: u32
  ac_pwm_state :: ac_pwm_state_t
  ac_thermo_state :: u8

definition led :: "ac_config \<Rightarrow> ac_event \<Rightarrow> ac_event list" where
  "led c e = (if led_on_ac c then [e] else [])"

definition ac_test_timer_func :: "ac_config \<Rightarrow> ac_out \<Rightarrow> ac_event list \<times> ac_out" where
  "ac_test_timer_func c a =
     (if gpio14 a then (led c LedPatternB, a\<lparr>gpio14 := False\<rparr>)
      else (led c LedPatternA, a\<lparr>gpio14 := True\<rparr>))"

definition ac_out_off_timer_func :: "ac_config \<Rightarrow> ac_out \<Rightarrow> ac_event list \<times> ac_out" where
  "ac_out_off_timer_func c a =
     (let a = a\<lparr>gpio14 := False, ac_out_off_timer := None\<rparr>;
          a = (if thermo_on_ac_2 c then a\<lparr>gpio15 := False\<rparr> else a)
      in (LedStop # led c LedOff, a))"

definition ac_pwm_timer_func :: "ac_config \<Rightarrow> ac_out \<Rightarrow> ac_event list \<times> ac_out" where
  "ac_pwm_timer_func c a =
     (case ac_pwm_state a of
        OFF \<Rightarrow>
          let a = a\<lparr>ac_pwm_state := ON\<rparr>;
              (ev, a) = (if ac_pwm_duty_cycle a > 0 then (led c LedOn, a\<lparr>gpio14 := \<not> thermo_no c\<rparr>) else ([], a))
          in (ev, a\<lparr>ac_pwm_timer := Some (ac_pwm_duty_cycle a * 10)\<rparr>)
      | ON \<Rightarrow>
          let a = a\<lparr>ac_pwm_state := OFF\<rparr>;
              (ev, a) = (if ac_pwm_duty_cycle a < 1000 then (led c LedOff, a\<lparr>gpio14 := thermo_no c\<rparr>) else ([], a))
          in (ev, a\<lparr>ac_pwm_timer := Some ((1000 - ac_pwm_duty_cycle a) * 10)\<rparr>))"

definition ac_test :: "ac_config \<Rightarrow> ac_out \<Rightarrow> ac_event list \<times> ac_out" where
  "ac_test c a =
     (let a = a\<lparr>gpio14 := True\<rparr>;
          a = (if thermo_on_ac_2 c then a\<lparr>gpio15 := False\<rparr> else a)
      in (led c LedPatternA, a\<lparr>ac_test_timer := True\<rparr>))"

definition ac_off :: "ac_out \<Rightarrow> ac_out" where
  "ac_off a = a\<lparr>ac_test_timer := False, ac_out_off_timer := Some 0\<rparr>"

definition ac_motor_valve_open :: "ac_config \<Rightarrow> ac_out \<Rightarrow> ac_event list \<times> ac_out" where
  "ac_motor_valve_open c a = (led c LedPatternA, (ac_off a)\<lparr>gpio14 := True, ac_out_off_timer := Some 60000\<rparr>)"

definition ac_motor_valve_close :: "ac_config \<Rightarrow> ac_out \<Rightarrow> ac_event list \<times> ac_out" where
  "ac_motor_valve_close c a = (led c LedPatternB, (ac_off a)\<lparr>ac_out_off_timer := Some 60000\<rparr>)"

definition set_thermo :: "ac_config \<Rightarrow> bool \<Rightarrow> ac_out \<Rightarrow> ac_out" where
  "set_thermo c level a = (let a = a\<lparr>gpio14 := level\<rparr> in if thermo_on_ac_2 c then a\<lparr>gpio15 := level\<rparr> else a)"

definition ac_thermo_open :: "ac_config \<Rightarrow> ac_out \<Rightarrow> ac_event list \<times> ac_out" where
  "ac_thermo_open c a =
     (let a = set_thermo c (\<not> thermo_no c) a
      in if ac_thermo_state a = 0 then (led c LedPatternB @ [CfgSaveDefered], a\<lparr>ac_thermo_state := 1\<rparr>)
         else (led c LedPatternB, a))"

definition ac_thermo_close :: "ac_config \<Rightarrow> ac_out \<Rightarrow> ac_event list \<times> ac_out" where
  "ac_thermo_close c a =
     (let a = set_thermo c (thermo_no c) a
      in if ac_thermo_state a \<noteq> 0 then (led c LedPatternA @ [CfgSaveDefered], a\<lparr>ac_thermo_state := 0\<rparr>)
         else (led c LedPatternA, a))"

definition ac_thermo_pwm :: "ac_config \<Rightarrow> u32 \<Rightarrow> ac_out \<Rightarrow> ac_event list \<times> ac_out" where
  "ac_thermo_pwm c duty_cycle a = (led c LedStop, a\<lparr>ac_pwm_duty_cycle := duty_cycle, ac_pwm_timer := Some 0\<rparr>)"

section \<open>Pulse width\<close>

definition valve_open :: "ac_config \<Rightarrow> ac_out \<Rightarrow> bool" where
  "valve_open c a \<longleftrightarrow> gpio14 a \<noteq> thermo_no c"

text \<open>
  \<open>n\<close> firings of the PWM timer: after each, the level of the valve and how long it is held.
\<close>

fun pwm_run :: "ac_config \<Rightarrow> nat \<Rightarrow> ac_out \<Rightarrow> (bool \<times> nat) list" where
  "pwm_run c 0 a = []"
| "pwm_run c (Suc n) a =
     (let a = snd (ac_pwm_timer_func c a)
      in (valve_open c a, case ac_pwm_timer a of None \<Rightarrow> 0 | Some ms \<Rightarrow> unat ms) # pwm_run c n a)"

fun open_time :: "(bool \<times> nat) list \<Rightarrow> nat" where
  "open_time [] = 0"
| "open_time ((on, ms) # xs) = (if on then ms else 0) + open_time xs"

fun total_time :: "(bool \<times> nat) list \<Rightarrow> nat" where
  "total_time [] = 0"
| "total_time ((on, ms) # xs) = ms + total_time xs"


lemma ac_pwm_timer_func_fields:
  "ac_pwm_duty_cycle (snd (ac_pwm_timer_func c a)) = ac_pwm_duty_cycle a"
  "ac_pwm_state (snd (ac_pwm_timer_func c a)) = (case ac_pwm_state a of ON \<Rightarrow> OFF | OFF \<Rightarrow> ON)"
  by (simp_all add: ac_pwm_timer_func_def Let_def split: ac_pwm_state_t.split)

lemma pwm_times:
  assumes "unat d \<le> 1000"
  shows "unat (d * 10) = 10 * unat d" and "unat ((1000 - d) * 10 :: u32) = 10 * (1000 - unat d)"
proof -
  have "unat (1000 - d) = 1000 - unat d"
    using assms unat_sub_if' [of 1000 d] by simp
  moreover have ten: "unat (x * 10 :: u32) = 10 * unat x" if "unat x \<le> 1000" for x
    using that by (simp add: unat_word_ariths)
  ultimately have "unat ((1000 - d) * 10) = 10 * unat (1000 - d)" by (intro ten) simp
  then show "unat ((1000 - d) * 10 :: u32) = 10 * (1000 - unat d)"
    using \<open>unat (1000 - d) = 1000 - unat d\<close> by simp
  show "unat (d * 10) = 10 * unat d" by (rule ten [OF assms])
qed

lemma pwm_fire:
  assumes "unat (ac_pwm_duty_cycle a) \<le> 1000" and "d = unat (ac_pwm_duty_cycle a)"
  shows "ac_pwm_state a = OFF \<Longrightarrow>
      ac_pwm_timer (snd (ac_pwm_timer_func c a)) = Some (ac_pwm_duty_cycle a * 10) \<and>
      valve_open c (snd (ac_pwm_timer_func c a)) = (0 < d \<or> valve_open c a)"
    and "ac_pwm_state a = ON \<Longrightarrow>
      ac_pwm_timer (snd (ac_pwm_timer_func c a)) = Some ((1000 - ac_pwm_duty_cycle a) * 10) \<and>
      valve_open c (snd (ac_pwm_timer_func c a)) = (\<not> d < 1000 \<and> valve_open c a)"
proof -
  have "ac_pwm_duty_cycle a > 0 \<longleftrightarrow> 0 < d" "ac_pwm_duty_cycle a < 1000 \<longleftrightarrow> d < 1000"
    using assms(2) by (auto simp: word_less_nat_alt unat_gt_0)
  then show "ac_pwm_state a = OFF \<Longrightarrow>
      ac_pwm_timer (snd (ac_pwm_timer_func c a)) = Some (ac_pwm_duty_cycle a * 10) \<and>
      valve_open c (snd (ac_pwm_timer_func c a)) = (0 < d \<or> valve_open c a)"
    and "ac_pwm_state a = ON \<Longrightarrow>
      ac_pwm_timer (snd (ac_pwm_timer_func c a)) = Some ((1000 - ac_pwm_duty_cycle a) * 10) \<and>
      valve_open c (snd (ac_pwm_timer_func c a)) = (\<not> d < 1000 \<and> valve_open c a)"
    by (auto simp: ac_pwm_timer_func_def Let_def valve_open_def)
qed

lemma pwm_two_firings:
  assumes "unat (ac_pwm_duty_cycle a) \<le> 1000" and "d = unat (ac_pwm_duty_cycle a)"
    and "b = snd (ac_pwm_timer_func c a)" and "e = snd (ac_pwm_timer_func c b)"
  shows "pwm_run c (Suc (Suc n)) a = pwm_run c (Suc (Suc 0)) a @ pwm_run c n e"
    and "open_time (pwm_run c (Suc (Suc 0)) a) = 10 * d"
    and "total_time (pwm_run c (Suc (Suc 0)) a) = 10000"
    and "ac_pwm_duty_cycle e = ac_pwm_duty_cycle a"
proof -
  have b: "ac_pwm_duty_cycle b = ac_pwm_duty_cycle a" "ac_pwm_state b = (case ac_pwm_state a of ON \<Rightarrow> OFF | OFF \<Rightarrow> ON)"
    and e: "ac_pwm_duty_cycle e = ac_pwm_duty_cycle a"
    using assms(3,4) by (simp_all add: ac_pwm_timer_func_fields)
  have run: "pwm_run c (Suc (Suc m)) a =
      (valve_open c b, case ac_pwm_timer b of None \<Rightarrow> 0 | Some ms \<Rightarrow> unat ms) #
      (valve_open c e, case ac_pwm_timer e of None \<Rightarrow> 0 | Some ms \<Rightarrow> unat ms) # pwm_run c m e" for m
    using assms(3,4) by (simp add: Let_def)
  then show "pwm_run c (Suc (Suc n)) a = pwm_run c (Suc (Suc 0)) a @ pwm_run c n e"
    using run [of n] run [of 0] by (simp only: append_Cons append_Nil pwm_run.simps(1))
  have "unat (ac_pwm_duty_cycle b) \<le> 1000" "d = unat (ac_pwm_duty_cycle b)" using b assms(1,2) by simp_all
  note f = pwm_fire [OF assms(1,2), of c, folded assms(3)] pwm_fire [OF this, of c, folded assms(4)]
  note t = pwm_times [OF assms(1), folded assms(2)]
  show "open_time (pwm_run c (Suc (Suc 0)) a) = 10 * d"
    using f t b assms(1,2) unfolding run by (cases "ac_pwm_state a") auto
  show "total_time (pwm_run c (Suc (Suc 0)) a) = 10000"
    using f t b assms(1,2) unfolding run by (cases "ac_pwm_state a") auto
  show "ac_pwm_duty_cycle e = ac_pwm_duty_cycle a" by (rule e)
qed

lemma times_append: "open_time (xs @ ys) = open_time xs + open_time ys" "total_time (xs @ ys) = total_time xs + total_time ys"
  by (induction xs) auto

lemma pwm_periods:
  "unat (ac_pwm_duty_cycle a) \<le> 1000 \<Longrightarrow>
   open_time (pwm_run c (2 * n) a) = 10 * unat (ac_pwm_duty_cycle a) * n \<and> total_time (pwm_run c (2 * n) a) = 10000 * n"
proof (induction n arbitrary: a)
  case (Suc n)
  let ?e = "snd (ac_pwm_timer_func c (snd (ac_pwm_timer_func c a)))"
  note two = pwm_two_firings [OF Suc.prems refl refl refl, of c]
  have "open_time (pwm_run c (2 * n) ?e) = 10 * unat (ac_pwm_duty_cycle a) * n \<and> total_time (pwm_run c (2 * n) ?e) = 10000 * n"
    using Suc.IH [of ?e] Suc.prems two(4) by simp
  moreover have "pwm_run c (2 * Suc n) a = pwm_run c (Suc (Suc 0)) a @ pwm_run c (2 * n) ?e"
    using two(1) [of "2 * n"] by simp
  ultimately show ?case using two(2,3) by (simp only: times_append) (simp add: algebra_simps)
qed simp

text \<open>
  The slow pulse width modulation is exact: after \<open>ac_thermo_pwm\<close> with a duty cycle of 0 to
  1000, from any state of the outputs, every two firings of the timer last ten seconds, and the
  valve is open for exactly the duty cycle's share of them, for both kinds of actuator.
\<close>

theorem ac_pwm_exact:
  assumes "unat duty \<le> 1000" and "b = snd (ac_thermo_pwm c duty a)"
  shows "ac_pwm_timer b = Some 0 \<and> total_time (pwm_run c (2 * n) b) = 10000 * n \<and>
    open_time (pwm_run c (2 * n) b) * 1000 = unat duty * total_time (pwm_run c (2 * n) b)"
  using pwm_periods [of b c n] assms by (simp add: ac_thermo_pwm_def)

definition idle_outputs :: ac_out where
  "idle_outputs =
     \<lparr>gpio14 = False, gpio15 = False, ac_test_timer = False, ac_out_off_timer = None, ac_pwm_timer = None,
      ac_pwm_duty_cycle = 0, ac_pwm_state = OFF, ac_thermo_state = 0\<rparr>"

theorem ac_pwm_exact_witness:
  "open_time (pwm_run \<lparr>thermo_no = True, thermo_on_ac_2 = False, led_on_ac = True\<rparr> (2 * 3)
     (snd (ac_thermo_pwm \<lparr>thermo_no = True, thermo_on_ac_2 = False, led_on_ac = True\<rparr> 250 idle_outputs))) = 7500"
  using ac_pwm_exact [OF _ refl, of 250 "\<lparr>thermo_no = True, thermo_on_ac_2 = False, led_on_ac = True\<rparr>" idle_outputs 3]
  by simp

section \<open>Opening and closing\<close>

text \<open>
  Opening and closing leave the output at the level that opens or closes the actuator that
  is built in, record that state for the next start, and ask for the configuration to be saved
  exactly when it changed.
\<close>

lemma ac_thermo_set_correct:
  "(case ac_thermo_open c a of (ev, b) \<Rightarrow>
      valve_open c b \<and> ac_thermo_state b \<noteq> 0 \<and> (CfgSaveDefered \<in> set ev \<longleftrightarrow> ac_thermo_state a = 0) \<and>
      (thermo_on_ac_2 c \<longrightarrow> gpio15 b = gpio14 b)) \<and>
   (case ac_thermo_close c a of (ev, b) \<Rightarrow>
      \<not> valve_open c b \<and> ac_thermo_state b = 0 \<and> (CfgSaveDefered \<in> set ev \<longleftrightarrow> ac_thermo_state a \<noteq> 0) \<and>
      (thermo_on_ac_2 c \<longrightarrow> gpio15 b = gpio14 b))"
  by (simp add: ac_thermo_open_def ac_thermo_close_def set_thermo_def valve_open_def led_def Let_def)

text \<open>
  Neither stops the timers of the test or of the PWM, so a running test or PWM moves the valve
  away from the recorded state.
\<close>

lemma thermo_keeps_timers:
  "ac_pwm_timer (snd (ac_thermo_close c a)) = ac_pwm_timer a"
  "ac_test_timer (snd (ac_thermo_close c a)) = ac_test_timer a"
  "ac_pwm_timer (ac_off a) = ac_pwm_timer a"
  by (simp_all add: ac_thermo_close_def set_thermo_def ac_off_def Let_def)

end
