(* ===== verification/Cron.thy ===== *)
theory Cron
  imports Utils Watchdog "HOL-Library.Signed_Division"
begin

text \<open>
  \<open>user/cron/cron.c\<close>: the jobs a user stores over MQTT and the timer that runs them once a
  minute in Danish local time. \<open>gmtime\<close>, \<open>strstr\<close>, \<open>strtok_r\<close> and \<open>atoi\<close> of the C library are
  modelled as far as the code uses them; the actions of a job are events.
\<close>

section \<open>Broken-down time\<close>

record tm =
  tm_sec :: nat
  tm_min :: nat
  tm_hour :: nat
  tm_mday :: nat
  tm_mon :: nat
  tm_wday :: nat

definition leap_year :: "nat \<Rightarrow> bool" where
  "leap_year y \<longleftrightarrow> y mod 4 = 0 \<and> (y mod 100 \<noteq> 0 \<or> y mod 400 = 0)"

definition month_lengths :: "nat \<Rightarrow> nat list" where
  "month_lengths y = [31, if leap_year y then 29 else 28, 31, 30, 31, 30, 31, 31, 30, 31, 30, 31]"

function year_and_day :: "nat \<Rightarrow> nat \<Rightarrow> nat \<times> nat" where
  "year_and_day y d =
     (let n = (if leap_year y then 366 else 365) in if d < n then (y, d) else year_and_day (y + 1) (d - n))"
  by auto
termination by (relation "measure (\<lambda>(y, d). d)") auto

declare year_and_day.simps [simp del]

fun month_and_day :: "nat list \<Rightarrow> nat \<Rightarrow> nat \<Rightarrow> nat \<times> nat" where
  "month_and_day [] m d = (m, d)"
| "month_and_day (n # ns) m d = (if d < n then (m, d) else month_and_day ns (m + 1) (d - n))"

definition gmtime :: "nat \<Rightarrow> tm" where
  "gmtime t =
     (let days = t div 86400; s = t mod 86400;
          (y, yd) = year_and_day 1970 days;
          (m, md) = month_and_day (month_lengths y) 0 yd
      in \<lparr>tm_sec = s mod 60, tm_min = s div 60 mod 60, tm_hour = s div 3600, tm_mday = md + 1,
          tm_mon = m, tm_wday = (days + 4) mod 7\<rparr>)"

section \<open>Daylight saving\<close>

text \<open>The decision of \<open>minute_timer_func\<close>, on the time in UTC + 1.\<close>

definition cron_dst :: "tm \<Rightarrow> bool" where
  "cron_dst dt =
     (if tm_mon dt < 2 \<or> tm_mon dt > 9 then False
      else if tm_mon dt > 2 \<and> tm_mon dt < 9 then True
      else
        let previous_sunday = int (tm_mday dt) - int (tm_wday dt);
            s = tm_hour dt * 3600 + tm_min dt * 60 + tm_sec dt
        in if tm_mon dt = 2 then
             if previous_sunday \<ge> 25 then if tm_wday dt = 0 then s \<ge> 7200 else True else False
           else
             if previous_sunday \<ge> 25 then if tm_wday dt = 0 then s < 3600 else False else True)"

text \<open>
  The rule of the European Union, in UTC + 1: summer time from two o'clock on the last Sunday of
  March to two o'clock on the last Sunday of October (one o'clock UTC on both days).
\<close>

definition last_sunday :: "tm \<Rightarrow> nat" where
  "last_sunday dt = 31 - (tm_wday dt + (31 - tm_mday dt)) mod 7"

definition before_change :: "tm \<Rightarrow> bool" where
  "before_change dt \<longleftrightarrow>
     tm_mday dt < last_sunday dt \<or> (tm_mday dt = last_sunday dt \<and> tm_hour dt < 2)"

definition eu_dst :: "tm \<Rightarrow> bool" where
  "eu_dst dt \<longleftrightarrow>
     (2 < tm_mon dt \<and> tm_mon dt < 9) \<or> (tm_mon dt = 2 \<and> \<not> before_change dt) \<or> (tm_mon dt = 9 \<and> before_change dt)"

definition tm_ok :: "tm \<Rightarrow> bool" where
  "tm_ok dt \<longleftrightarrow> tm_sec dt < 60 \<and> tm_min dt < 60 \<and> tm_hour dt < 24 \<and> 1 \<le> tm_mday dt \<and> tm_mday dt \<le> 31 \<and>
     tm_mon dt < 12 \<and> tm_wday dt < 7"

lemma week_arith:
  fixes w k r q :: nat
  assumes "w + k = 7 * q + r" and "r < 7" and "w < 7" and "k \<le> 30"
  shows "31 - k < 31 - r \<longleftrightarrow> int (31 - k) - int w < 25"
    and "31 - k = 31 - r \<longleftrightarrow> 25 \<le> 31 - k \<and> w = 0"
proof -
  consider "q = 0" | "1 \<le> q" by linarith
  then show "31 - k < 31 - r \<longleftrightarrow> int (31 - k) - int w < 25"
    and "31 - k = 31 - r \<longleftrightarrow> 25 \<le> 31 - k \<and> w = 0"
    using assms by (cases; simp; linarith?)+
qed

lemma last_sunday_is:
  assumes "tm_ok dt"
  shows "tm_mday dt = last_sunday dt \<longleftrightarrow> tm_wday dt = 0 \<and> 25 \<le> tm_mday dt"
    and "tm_mday dt < last_sunday dt \<longleftrightarrow> int (tm_mday dt) - int (tm_wday dt) < 25"
proof -
  define w k where wk: "w = tm_wday dt" "k = 31 - tm_mday dt"
  note d = week_arith [of w k "(w + k) div 7" "(w + k) mod 7"]
  have "tm_mday dt = 31 - k" "last_sunday dt = 31 - (w + k) mod 7" "k \<le> 30" "w < 7"
    using assms by (auto simp: wk last_sunday_def tm_ok_def)
  then show "tm_mday dt = last_sunday dt \<longleftrightarrow> tm_wday dt = 0 \<and> 25 \<le> tm_mday dt"
    and "tm_mday dt < last_sunday dt \<longleftrightarrow> int (tm_mday dt) - int (tm_wday dt) < 25"
    using d by (auto simp: wk(1) [symmetric])
qed

lemma cron_dst_eu:
  assumes "tm_ok dt"
  shows "cron_dst dt = (eu_dst dt \<and> \<not> (tm_mon dt = 9 \<and> tm_wday dt = 0 \<and> 25 \<le> tm_mday dt \<and> tm_hour dt = 1))"
proof -
  have ok: "1 \<le> tm_mday dt" "tm_mday dt \<le> 31" "tm_wday dt < 7" "tm_hour dt < 24" "tm_min dt < 60" "tm_sec dt < 60"
    using assms by (simp_all add: tm_ok_def)
  have s: "tm_hour dt * 3600 + tm_min dt * 60 + tm_sec dt < 3600 \<longleftrightarrow> tm_hour dt = 0"
    "7200 \<le> tm_hour dt * 3600 + tm_min dt * 60 + tm_sec dt \<longleftrightarrow> 2 \<le> tm_hour dt"
    using ok(5,6) by linarith+
  show ?thesis
    using last_sunday_is [OF assms] s by (auto simp: cron_dst_def eu_dst_def before_change_def Let_def not_le)
qed

lemma month_and_day_ok:
  "month_and_day ns m d = (m', d') \<Longrightarrow> d < sum_list ns \<Longrightarrow> (\<forall>n \<in> set ns. n \<le> 31) \<Longrightarrow>
   m' < m + length ns \<and> d' < 31"
proof (induction ns m d rule: month_and_day.induct)
  case (2 n ns m d)
  then show ?case by (cases "d < n") auto
qed simp

lemma year_and_day_ok: "year_and_day y d = (y', d') \<Longrightarrow> d' < (if leap_year y' then 366 else 365)"
proof (induction y d rule: year_and_day.induct)
  case (1 y d)
  show ?case
  proof (cases "d < (if leap_year y then 366 else 365)")
    case True
    then show ?thesis using 1(2) by (simp add: year_and_day.simps [of y d] Let_def)
  next
    case False
    then show ?thesis
      using 1(1) [OF refl] 1(2) by (simp add: year_and_day.simps [of y d] Let_def)
  qed
qed

lemma gmtime_ok: "tm_ok (gmtime t)"
proof -
  obtain y yd where y: "year_and_day 1970 (t div 86400) = (y, yd)" by (cases "year_and_day 1970 (t div 86400)")
  obtain m md where m: "month_and_day (month_lengths y) 0 yd = (m, md)" by (cases "month_and_day (month_lengths y) 0 yd")
  have "yd < sum_list (month_lengths y)"
    using year_and_day_ok [OF y] by (auto simp: month_lengths_def split: if_splits)
  then have "m < 12 \<and> md < 31"
    using month_and_day_ok [OF m] by (auto simp: month_lengths_def split: if_splits)
  moreover have "t mod 86400 div 3600 < 24"
    using mod_less_divisor [of 86400 t] by (simp add: div_less_iff_less_mult)
  ultimately show ?thesis using y m by (simp add: gmtime_def tm_ok_def Let_def)
qed

text \<open>
  The local time of the cron jobs follows the rule of the European Union but for one hour a
  year: at every time the code decides for summer time exactly when the rule does, except in
  the hour from one to two o'clock (UTC + 1) on the last Sunday of October, which is still
  summer time and which the code already takes for winter time.
\<close>

theorem cron_dst_rule:
  "cron_dst (gmtime t) =
   (eu_dst (gmtime t) \<and>
    \<not> (tm_mon (gmtime t) = 9 \<and> tm_mday (gmtime t) = last_sunday (gmtime t) \<and> tm_hour (gmtime t) = 1))"
proof -
  have "tm_mday (gmtime t) = last_sunday (gmtime t) \<longleftrightarrow> tm_wday (gmtime t) = 0 \<and> 25 \<le> tm_mday (gmtime t)"
    using gmtime_ok [of t] last_sunday_is by blast
  then show ?thesis using cron_dst_eu [OF gmtime_ok] by auto
qed

text \<open>29 February 2000, 12:34:56, a Tuesday.\<close>

lemma gmtime_example:
  "gmtime 951827696 = \<lparr>tm_sec = 56, tm_min = 34, tm_hour = 12, tm_mday = 29, tm_mon = 1, tm_wday = 2\<rparr>"
proof -
  have "year_and_day 1970 11016 = (2000, 59)"
    by (simp add: year_and_day.simps leap_year_def)
  then show ?thesis by (simp add: gmtime_def month_lengths_def leap_year_def)
qed

section \<open>Jobs\<close>

record cron_job_t =
  minute :: bytes
  hour :: bytes
  day_of_month :: bytes
  month :: bytes
  day_of_week :: bytes
  command :: bytes
  command_params :: bytes

definition empty_job :: cron_job_t where
  "empty_job = \<lparr>minute = [], hour = [], day_of_month = [], month = [], day_of_week = [], command = [], command_params = []\<rparr>"

datatype cron_event =
    MinuteTimer nat bool
  | AcThermoOpen
  | AcThermoClose
  | CfgSaveSsidPwd bytes
  | MqttFlashError
  | MqttDisconnect
  | CronSetOpmode opmode
  | SoftapConfig
  | CfgSave
  | CronCfgSaveDefered
  | AcOff
  | AcTest

record cron =
  cron_n :: nat
  cron_job_list :: "cron_job_t list"
  sec_drift :: nat
  wifi_opmode :: opmode
  ap_enabled :: bool
  mqtt_pcon :: bool

definition clear_cron_jobs :: "cron \<Rightarrow> cron_event list \<times> cron" where
  "clear_cron_jobs s =
     ([CronCfgSaveDefered], s\<lparr>cron_n := 0, cron_job_list := (cron_job_list s)[0 := empty_job]\<rparr>)"

text \<open>The conditions of a field and of a job at a time.\<close>

definition field_any :: "bytes \<Rightarrow> bool" where
  "field_any f \<longleftrightarrow> strncmp_eq f (ascii ''*'') 8 \<or> strncmp_eq f [] 8"

definition field_matches :: "bytes \<Rightarrow> nat \<Rightarrow> bool" where
  "field_matches f v \<longleftrightarrow> field_any f \<or> of_nat v = atoi f"

definition weekday_matches :: "bytes \<Rightarrow> nat \<Rightarrow> bool" where
  "weekday_matches f v \<longleftrightarrow> field_any f \<or> int v = sint (atoi f) smod 7"

definition run_command :: "tm \<Rightarrow> cron_job_t \<Rightarrow> nat" where
  "run_command dt j =
     (if field_matches (hour j) (tm_hour dt) then 1 else 0) +
     (if field_matches (minute j) (tm_min dt) then 1 else 0) +
     (if field_matches (day_of_month j) (tm_mday dt) then 1 else 0) +
     (if field_matches (month j) (tm_mon dt + 1) then 1 else 0) +
     (if weekday_matches (day_of_week j) (tm_wday dt) then 1 else 0)"

text \<open>The commands; \<open>saved\<close> says whether \<open>cfg_save_ssid_pwd\<close> succeeds.\<close>

definition execute :: "bool \<Rightarrow> cron_job_t \<Rightarrow> cron \<Rightarrow> cron_event list \<times> cron" where
  "execute saved j s =
     (let is = (\<lambda>c. strncmp_eq (command j) (ascii c) 32)
      in if is ''open'' then ([AcThermoOpen], s)
         else if is ''close'' then ([AcThermoClose], s)
         else if is ''set_ssid_pwd'' then
           (CfgSaveSsidPwd (command_params j) # (if saved then [] else [MqttFlashError]), s)
         else if is ''reconnect'' then (if mqtt_pcon s then [MqttDisconnect] else [], s)
         else if is ''start_ap'' then
           if wifi_opmode s \<noteq> STATIONAP_MODE then
             let s = s\<lparr>wifi_opmode := STATIONAP_MODE\<rparr>; ev = [CronSetOpmode STATIONAP_MODE, SoftapConfig]
             in if \<not> ap_enabled s then (ev @ [CfgSave], s\<lparr>ap_enabled := True\<rparr>) else (ev, s)
           else ([], s)
         else if is ''stop_ap'' then
           if wifi_opmode s \<noteq> STATION_MODE then
             let s = s\<lparr>wifi_opmode := STATION_MODE\<rparr>; ev = [CronSetOpmode STATION_MODE]
             in if ap_enabled s then (ev @ [CfgSave], s\<lparr>ap_enabled := False\<rparr>) else (ev, s)
           else ([], s)
         else if is ''clear_cron'' then clear_cron_jobs s
         else if is ''off'' then ([AcOff], s)
         else if is ''test'' then ([AcTest], s)
         else ([], s))"

text \<open>
  The loop over the jobs, from index \<open>i\<close>. The number of jobs is read in every pass and only
  ever drops (\<open>clear_cron\<close>), so the number at the start bounds the passes.
\<close>

fun run_jobs :: "bool \<Rightarrow> tm \<Rightarrow> nat \<Rightarrow> nat \<Rightarrow> cron \<Rightarrow> cron_event list \<times> cron" where
  "run_jobs saved dt 0 i s = ([], s)"
| "run_jobs saved dt (Suc k) i s =
     (if i < cron_n s then
        let j = cron_job_list s ! i;
            (ev, s) = (if run_command dt j = 5 then execute saved j s else ([], s));
            (ev', s) = run_jobs saved dt k (i + 1) s
        in (ev @ ev', s)
      else ([], s))"

definition minute_timer_func :: "bool \<Rightarrow> bool \<Rightarrow> nat \<Rightarrow> cron \<Rightarrow> cron_event list \<times> cron" where
  "minute_timer_func saved ota_in_progress now s =
     (if ota_in_progress then ([], s)
      else if now = 0 then ([], s)
      else
        let unix_time = now + 3600;
            dt = gmtime unix_time;
            dt = (if cron_dst dt then gmtime (unix_time + 3600) else dt);
            (ev, s) = (if tm_sec dt = 0 then
                         if sec_drift s \<noteq> 0 then ([MinuteTimer 60000 True], s\<lparr>sec_drift := 0\<rparr>) else ([], s)
                       else
                         let s = s\<lparr>sec_drift := 60 - tm_sec dt\<rparr>
                         in ([MinuteTimer (sec_drift s * 1000) False], s));
            (ev', s) = run_jobs saved dt (cron_n s) 0 s
        in (ev @ ev', s))"

section \<open>What should run\<close>

text \<open>
  The specification does not use the code's decisions. A field is a wildcard, empty, or a
  decimal number (digits behind the number are all it takes, as in \<open>5x\<close>); \<open>stored_field\<close> are the
  fields it speaks of: what fits the eight bytes and is no wildcard begins with a digit.
\<close>

definition digit_byte :: "u8 \<Rightarrow> bool" where
  "digit_byte c \<longleftrightarrow> 0x30 \<le> c \<and> c \<le> 0x39"

definition leading_number :: "bytes \<Rightarrow> nat" where
  "leading_number f = dec_value (map (\<lambda>c. unat c - 48) (takeWhile digit_byte f))"

definition stored_field :: "bytes \<Rightarrow> bool" where
  "stored_field f \<longleftrightarrow> length f \<le> 7 \<and> (f = [] \<or> f = ascii ''*'' \<or> digit_byte (hd f))"

definition allows :: "bytes \<Rightarrow> nat \<Rightarrow> bool" where
  "allows f v \<longleftrightarrow> f = [] \<or> f = ascii ''*'' \<or> leading_number f = v"

definition allows_weekday :: "bytes \<Rightarrow> nat \<Rightarrow> bool" where
  "allows_weekday f v \<longleftrightarrow> f = [] \<or> f = ascii ''*'' \<or> leading_number f mod 7 = v"

definition stored_job :: "cron_job_t \<Rightarrow> bool" where
  "stored_job j \<longleftrightarrow> stored_field (minute j) \<and> stored_field (hour j) \<and> stored_field (day_of_month j) \<and>
     stored_field (month j) \<and> stored_field (day_of_week j)"

definition scheduled :: "tm \<Rightarrow> cron_job_t \<Rightarrow> bool" where
  "scheduled dt j \<longleftrightarrow>
     allows (minute j) (tm_min dt) \<and> allows (hour j) (tm_hour dt) \<and> allows (day_of_month j) (tm_mday dt) \<and>
     allows (month j) (tm_mon dt + 1) \<and> allows_weekday (day_of_week j) (tm_wday dt)"

text \<open>
  Danish time: UTC + 1, and an hour more in summer, but not in the last hour of summer time
  (\<open>cron_dst_rule\<close>).
\<close>

definition last_summer_hour :: "tm \<Rightarrow> bool" where
  "last_summer_hour dt \<longleftrightarrow> tm_mon dt = 9 \<and> tm_mday dt = last_sunday dt \<and> tm_hour dt = 1"

definition danish_time :: "nat \<Rightarrow> tm" where
  "danish_time now =
     (let dt = gmtime (now + 3600)
      in if eu_dst dt \<and> \<not> last_summer_hour dt then gmtime (now + 7200) else dt)"

text \<open>The commands by their names. \<open>clear_cron\<close> ends the pass.\<close>

definition command_table :: "(string \<times> (bool \<Rightarrow> bytes \<Rightarrow> cron \<Rightarrow> cron_event list \<times> cron)) list" where
  "command_table =
     [(''open'', \<lambda>_ _ s. ([AcThermoOpen], s)),
      (''close'', \<lambda>_ _ s. ([AcThermoClose], s)),
      (''off'', \<lambda>_ _ s. ([AcOff], s)),
      (''test'', \<lambda>_ _ s. ([AcTest], s)),
      (''reconnect'', \<lambda>_ _ s. (if mqtt_pcon s then [MqttDisconnect] else [], s)),
      (''set_ssid_pwd'', \<lambda>saved p s. (if saved then [CfgSaveSsidPwd p] else [CfgSaveSsidPwd p, MqttFlashError], s)),
      (''start_ap'', \<lambda>_ _ s.
         if wifi_opmode s = STATIONAP_MODE then ([], s)
         else (CronSetOpmode STATIONAP_MODE # SoftapConfig # (if ap_enabled s then [] else [CfgSave]),
               s\<lparr>wifi_opmode := STATIONAP_MODE, ap_enabled := True\<rparr>)),
      (''stop_ap'', \<lambda>_ _ s.
         if wifi_opmode s = STATION_MODE then ([], s)
         else (CronSetOpmode STATION_MODE # (if ap_enabled s then [CfgSave] else []),
               s\<lparr>wifi_opmode := STATION_MODE, ap_enabled := False\<rparr>)),
      (''clear_cron'', \<lambda>_ _ s.
         ([CronCfgSaveDefered], s\<lparr>cron_n := 0, cron_job_list := (cron_job_list s)[0 := empty_job]\<rparr>))]"

text \<open>A stored command has at most 31 bytes; one that is not in the table does nothing.\<close>

definition perform :: "bool \<Rightarrow> cron_job_t \<Rightarrow> cron \<Rightarrow> cron_event list \<times> cron" where
  "perform saved j s =
     (case find (\<lambda>(name, f). take 32 (command j) = ascii name) command_table of
        Some (name, f) \<Rightarrow> f saved (command_params j) s
      | None \<Rightarrow> ([], s))"

fun perform_all :: "bool \<Rightarrow> cron_job_t list \<Rightarrow> cron \<Rightarrow> cron_event list \<times> cron" where
  "perform_all saved [] s = ([], s)"
| "perform_all saved (j # js) s =
     (let (ev, s) = perform saved j s; (ev', s) = perform_all saved js s in (ev @ ev', s))"

definition clears :: "cron_job_t \<Rightarrow> bool" where
  "clears j \<longleftrightarrow> take 32 (command j) = ascii ''clear_cron''"

fun upto_clear :: "cron_job_t list \<Rightarrow> cron_job_t list" where
  "upto_clear [] = []"
| "upto_clear (j # js) = (if clears j then [j] else j # upto_clear js)"

subsection \<open>The code decides so\<close>

lemma atoi_digits_leading:
  "atoi_digits f (of_nat (dec_value es)) =
     of_nat (dec_value (es @ map (\<lambda>c. unat c - 48) (takeWhile digit_byte f)))"
proof (induction f arbitrary: es)
  case (Cons c f)
  show ?case
  proof (cases "digit_byte c")
    case True
    then have c: "48 \<le> unat c" "unat c \<le> 57" by (simp_all add: digit_byte_def word_le_nat_alt)
    then have d: "unat c - 48 < 10" by simp
    have "unat (digit_char (unat c - 48)) = unat c" using unat_digit_char [OF d] c by simp
    then have "digit_char (unat c - 48) = c" by (simp only: word_unat_eq_iff)
    then have "(ucast c - 0x30 :: u32) = of_nat (unat c - 48)" using digit_char_u32 [OF d] by simp
    then have "10 * of_nat (dec_value es) + (ucast c - 0x30 :: u32) = of_nat (dec_value (es @ [unat c - 48]))"
      by (simp add: dec_value_snoc)
    then show ?thesis using True Cons.IH [of "es @ [unat c - 48]"] by (simp add: digit_byte_def)
  next
    case False
    then have "\<not> (0x30 \<le> c \<and> c \<le> 0x39)" by (simp add: digit_byte_def)
    then show ?thesis using False by (simp del: de_Morgan_conj)
  qed
qed simp

lemma atoi_leading:
  assumes "f \<noteq> []" and "digit_byte (hd f)"
  shows "atoi f = of_nat (leading_number f)"
proof -
  obtain c cs where f: "f = c # cs" using assms(1) by (cases f) auto
  have c: "48 \<le> unat c" "unat c \<le> 57" using assms(2) by (simp_all add: f digit_byte_def word_le_nat_alt)
  then have "c \<noteq> 0x20 \<and> \<not> (0x09 \<le> c \<and> c \<le> 0x0D) \<and> c \<noteq> 0x2D \<and> c \<noteq> 0x2B"
    by (auto simp: word_le_nat_alt)
  then have "atoi f = atoi_digits f 0" by (auto simp: f simp del: atoi_digits.simps)
  then show ?thesis using atoi_digits_leading [of f "[]"] by (simp add: leading_number_def)
qed

lemma dec_value_bound: "list_all (\<lambda>d. d < 10) ds \<Longrightarrow> dec_value ds < 10 ^ length ds"
proof (induction ds rule: rev_induct)
  case (snoc d ds)
  then have "dec_value ds + 1 \<le> 10 ^ length ds" by simp
  then have "10 * dec_value ds + 10 \<le> 10 * 10 ^ length ds" by linarith
  then show ?case using snoc.prems by (simp add: dec_value_snoc)
qed simp

lemma leading_number_bound:
  assumes "length f \<le> 7"
  shows "leading_number f < 10000000"
proof -
  let ?ds = "map (\<lambda>c. unat c - 48) (takeWhile digit_byte f)"
  have "list_all (\<lambda>d. d < 10) ?ds"
    by (auto simp: list_all_iff digit_byte_def word_le_nat_alt dest!: set_takeWhileD)
  then have "dec_value ?ds < 10 ^ length ?ds" by (rule dec_value_bound)
  also have "\<dots> \<le> 10 ^ 7" using length_takeWhile_le [of digit_byte f] assms by (intro power_increasing) simp_all
  finally show ?thesis by (simp add: leading_number_def)
qed

lemma field_any_stored: "stored_field f \<Longrightarrow> field_any f \<longleftrightarrow> f = [] \<or> f = ascii ''*''"
  by (auto simp: field_any_def stored_field_def strncmp_eq_def)

lemma field_matches_allows:
  assumes "stored_field f" and "v < 100"
  shows "field_matches f v \<longleftrightarrow> allows f v"
proof (cases "f = [] \<or> f = ascii ''*''")
  case True
  then show ?thesis using field_any_stored [OF assms(1)] by (auto simp: field_matches_def allows_def)
next
  case False
  then have d: "f \<noteq> []" "digit_byte (hd f)" "length f \<le> 7" using assms(1) by (auto simp: stored_field_def)
  have "(of_nat v :: u32) = of_nat (leading_number f) \<longleftrightarrow> v = leading_number f"
    using leading_number_bound [OF d(3)] assms(2) by (simp add: word_unat_eq_iff unat_of_nat take_bit_nat_eq_self)
  then show ?thesis
    using False field_any_stored [OF assms(1)] by (auto simp: field_matches_def allows_def atoi_leading [OF d(1,2)])
qed

lemma weekday_matches_allows:
  assumes "stored_field f" and "v < 7"
  shows "weekday_matches f v \<longleftrightarrow> allows_weekday f v"
proof (cases "f = [] \<or> f = ascii ''*''")
  case True
  then show ?thesis using field_any_stored [OF assms(1)] by (auto simp: weekday_matches_def allows_weekday_def)
next
  case False
  then have d: "f \<noteq> []" "digit_byte (hd f)" "length f \<le> 7" using assms(1) by (auto simp: stored_field_def)
  have "sint (of_nat (leading_number f) :: u32) = int (leading_number f)"
    using leading_number_bound [OF d(3)] by (simp add: signed_of_nat signed_take_bit_int_eq_self)
  then have "sint (atoi f) smod 7 = int (leading_number f mod 7)"
    by (cases "leading_number f = 0") (simp_all add: atoi_leading [OF d(1,2)] smod_int_alt_def zmod_int)
  then show ?thesis
    using False field_any_stored [OF assms(1)] by (auto simp: weekday_matches_def allows_weekday_def)
qed

lemma run_command_scheduled:
  assumes "stored_job j" and "tm_ok dt"
  shows "run_command dt j = 5 \<longleftrightarrow> scheduled dt j"
proof -
  have "tm_hour dt < 100" "tm_min dt < 100" "tm_mday dt < 100" "tm_mon dt + 1 < 100" "tm_wday dt < 7"
    using assms(2) by (simp_all add: tm_ok_def)
  then have "field_matches (hour j) (tm_hour dt) = allows (hour j) (tm_hour dt)"
    "field_matches (minute j) (tm_min dt) = allows (minute j) (tm_min dt)"
    "field_matches (day_of_month j) (tm_mday dt) = allows (day_of_month j) (tm_mday dt)"
    "field_matches (month j) (tm_mon dt + 1) = allows (month j) (tm_mon dt + 1)"
    "weekday_matches (day_of_week j) (tm_wday dt) = allows_weekday (day_of_week j) (tm_wday dt)"
    using assms(1) unfolding stored_job_def by (metis field_matches_allows weekday_matches_allows)+
  then show ?thesis by (simp add: run_command_def scheduled_def)
qed

lemma command_names: "distinct (map (ascii \<circ> fst) command_table)"
  by (simp add: command_table_def ascii_def)

lemma find_command:
  assumes "distinct (map (ascii \<circ> fst) tab)" and "(name, f) \<in> set tab"
  shows "find (\<lambda>(n, g). ascii name = ascii n) tab = Some (name, f)"
  using assms
proof (induction tab)
  case (Cons e tab)
  then show ?case by (cases e) force
qed simp

lemma perform_command:
  "take 32 (command j) = ascii name \<Longrightarrow> (name, f) \<in> set command_table \<Longrightarrow>
     perform saved j s = f saved (command_params j) s"
  by (simp only: perform_def find_command [OF command_names] option.case prod.case)

lemma execute_perform: "execute saved j s = perform saved j s"
proof -
  define x where "x = take 32 (command j)"
  have eq: "strncmp_eq (command j) (ascii name) 32 \<longleftrightarrow> x = ascii name" if "length name \<le> 32" for name
    using that by (simp add: strncmp_eq_def x_def)
  have code: "execute saved j s = (if x = ascii ''open'' then ([AcThermoOpen], s)
     else if x = ascii ''close'' then ([AcThermoClose], s)
     else if x = ascii ''set_ssid_pwd'' then
       (CfgSaveSsidPwd (command_params j) # (if saved then [] else [MqttFlashError]), s)
     else if x = ascii ''reconnect'' then (if mqtt_pcon s then [MqttDisconnect] else [], s)
     else if x = ascii ''start_ap'' then
       if wifi_opmode s \<noteq> STATIONAP_MODE then
         if \<not> ap_enabled s then
           ([CronSetOpmode STATIONAP_MODE, SoftapConfig, CfgSave], s\<lparr>wifi_opmode := STATIONAP_MODE, ap_enabled := True\<rparr>)
         else ([CronSetOpmode STATIONAP_MODE, SoftapConfig], s\<lparr>wifi_opmode := STATIONAP_MODE\<rparr>)
       else ([], s)
     else if x = ascii ''stop_ap'' then
       if wifi_opmode s \<noteq> STATION_MODE then
         if ap_enabled s then
           ([CronSetOpmode STATION_MODE, CfgSave], s\<lparr>wifi_opmode := STATION_MODE, ap_enabled := False\<rparr>)
         else ([CronSetOpmode STATION_MODE], s\<lparr>wifi_opmode := STATION_MODE\<rparr>)
       else ([], s)
     else if x = ascii ''clear_cron'' then clear_cron_jobs s
     else if x = ascii ''off'' then ([AcOff], s)
     else if x = ascii ''test'' then ([AcTest], s)
     else ([], s))"
    by (simp add: execute_def eq Let_def)
  have same: "s\<lparr>wifi_opmode := m, ap_enabled := ap_enabled s\<rparr> = s\<lparr>wifi_opmode := m\<rparr>" for m
    by (cases s) simp
  have table: "perform saved j s = f saved (command_params j) s"
    if "x = ascii name" "(name, f) \<in> set command_table" for name f
    using perform_command that unfolding x_def by blast
  consider name where "x = ascii name" "name \<in> fst ` set command_table"
    | "\<forall>name \<in> fst ` set command_table. x \<noteq> ascii name" by blast
  then show ?thesis
  proof cases
    case 1
    then obtain f where f: "(name, f) \<in> set command_table" by auto
    from f table [OF 1(1) f] same [of STATIONAP_MODE] same [of STATION_MODE] show ?thesis
      unfolding code 1(1)
      by (simp only: command_table_def list.set insert_iff empty_iff prod.inject)
        (elim disjE conjE FalseE; simp add: ascii_def clear_cron_jobs_def)
  next
    case 2
    then have "find (\<lambda>(name, f). x = ascii name) command_table = None"
      by (auto simp: find_None_iff)
    then have "perform saved j s = ([], s)" by (simp add: perform_def x_def)
    then show ?thesis unfolding code using 2 by (simp add: command_table_def)
  qed
qed

lemma local_time_danish:
  "(if cron_dst (gmtime (now + 3600)) then gmtime (now + 3600 + 3600) else gmtime (now + 3600)) = danish_time now"
proof -
  have "cron_dst (gmtime (now + 3600)) \<longleftrightarrow>
      eu_dst (gmtime (now + 3600)) \<and> \<not> last_summer_hour (gmtime (now + 3600))"
    using cron_dst_rule [of "now + 3600"] by (simp only: last_summer_hour_def)
  moreover have "now + 3600 + 3600 = now + 7200" by simp
  ultimately show ?thesis by (simp only: danish_time_def Let_def)
qed

lemma perform_keeps_jobs:
  "\<not> clears j \<Longrightarrow> cron_n (snd (perform saved j s)) = cron_n s \<and>
     cron_job_list (snd (perform saved j s)) = cron_job_list s"
  by (simp add: perform_def command_table_def clears_def split: option.split)

lemma perform_clear: "clears j \<Longrightarrow> cron_n (snd (perform saved j s)) = 0"
  by (subst perform_command [of j "''clear_cron''"]) (auto simp: clears_def command_table_def)

lemma run_jobs_due:
  "i + k = cron_n s \<Longrightarrow> cron_n s \<le> length (cron_job_list s) \<Longrightarrow> tm_ok dt \<Longrightarrow>
   (\<forall>j \<in> set (take (cron_n s) (cron_job_list s)). stored_job j) \<Longrightarrow>
   run_jobs saved dt k i s =
     perform_all saved (upto_clear (filter (scheduled dt) (drop i (take (cron_n s) (cron_job_list s))))) s"
proof (induction k arbitrary: i s)
  case (Suc k)
  let ?js = "take (cron_n s) (cron_job_list s)"
  let ?j = "cron_job_list s ! i"
  have i: "i < length ?js" using Suc.prems by simp
  then have cons: "drop i ?js = ?j # drop (i + 1) ?js" using Cons_nth_drop_Suc [OF i] by simp
  have "?j \<in> set ?js" using cons by (metis in_set_dropD list.set_intros(1))
  then have due: "run_command dt ?j = 5 \<longleftrightarrow> scheduled dt ?j"
    using Suc.prems(3,4) by (intro run_command_scheduled) auto
  let ?s = "snd (perform saved ?j s)"
  consider "\<not> scheduled dt ?j" | "scheduled dt ?j" "clears ?j" | "scheduled dt ?j" "\<not> clears ?j" by blast
  then show ?case
  proof cases
    case 1
    have "run_jobs saved dt k (i + 1) s = perform_all saved (upto_clear (filter (scheduled dt) (drop (i + 1) ?js))) s"
      using Suc.IH [of "i + 1" s] Suc.prems by auto
    then show ?thesis using 1 i due by (simp add: cons split_beta)
  next
    case 2
    then have "run_jobs saved dt k (i + 1) ?s = ([], ?s)"
      using perform_clear [of ?j saved s] by (cases k) simp_all
    then show ?thesis using 2 i due by (simp add: cons execute_perform Let_def split_beta)
  next
    case 3
    have "cron_n ?s = cron_n s" "cron_job_list ?s = cron_job_list s"
      using perform_keeps_jobs [OF 3(2)] by auto
    then have "run_jobs saved dt k (i + 1) ?s = perform_all saved (upto_clear (filter (scheduled dt) (drop (i + 1) ?js))) ?s"
      using Suc.IH [of "i + 1" ?s] Suc.prems by auto
    then show ?thesis using 3 i due by (simp add: cons execute_perform Let_def split_beta)
  qed
qed simp

lemma danish_time_ok: "tm_ok (danish_time now)"
  by (simp add: danish_time_def Let_def gmtime_ok)

text \<open>
  C27: When the minute timer fires, until 2038, exactly the stored jobs whose five fields allow
  the Danish time of that moment perform their commands, each once and in the order of the
  table up to a \<open>clear_cron\<close>, which ends the pass; nothing runs while an update is in
  progress or the time is not known. The timer is set to the next full minute when it is off
  one. The fields are those a table can hold (at most seven bytes) that are empty, a wildcard
  or begin with a digit. In the last hour of summer time the time is an hour behind.
\<close>

theorem cron_runs_due_jobs:
  assumes "cron_n s \<le> length (cron_job_list s)" and "now + 7200 < 2 ^ 31"
    and "\<forall>j \<in> set (take (cron_n s) (cron_job_list s)). stored_job j"
    and "dt = danish_time now"
    and "due = upto_clear (filter (scheduled dt) (take (cron_n s) (cron_job_list s)))"
    and "sync = (if tm_sec dt \<noteq> 0 then [MinuteTimer ((60 - tm_sec dt) * 1000) False]
                 else if sec_drift s \<noteq> 0 then [MinuteTimer 60000 True] else [])"
  shows "minute_timer_func saved ota now s =
    (if ota \<or> now = 0 then ([], s)
     else case perform_all saved due (s\<lparr>sec_drift := (60 - tm_sec dt) mod 60\<rparr>) of (ev, s') \<Rightarrow> (sync @ ev, s'))"
proof (cases "ota \<or> now = 0")
  case True
  then show ?thesis by (auto simp: minute_timer_func_def)
next
  case False
  let ?s = "s\<lparr>sec_drift := (60 - tm_sec dt) mod 60\<rparr>"
  have run: "run_jobs saved dt (cron_n s) 0 ?s = perform_all saved due ?s"
    using run_jobs_due [of 0 "cron_n s" ?s dt saved] assms(1,3,5) danish_time_ok [of now] by (simp add: assms(4))
  have dt: "(if cron_dst (gmtime (now + 3600)) then gmtime (now + 3600 + 3600) else gmtime (now + 3600)) = dt"
    unfolding assms(4) by (rule local_time_danish)
  have "(if tm_sec dt = 0 then if sec_drift s \<noteq> 0 then ([MinuteTimer 60000 True], s\<lparr>sec_drift := 0\<rparr>) else ([], s)
         else let s = s\<lparr>sec_drift := 60 - tm_sec dt\<rparr> in ([MinuteTimer (sec_drift s * 1000) False], s)) = (sync, ?s)"
    by (auto simp: assms(6))
  then show ?thesis
    using False by (simp only: minute_timer_func_def dt Let_def if_False de_Morgan_disj prod.case cron.simps run) (simp add: split_beta run)
qed

text \<open>The witness: at 06:00 on a summer day the job for six o'clock opens, the one for seven does not.\<close>

definition two_jobs :: cron where
  "two_jobs =
     \<lparr>cron_n = 2,
      cron_job_list =
        empty_job\<lparr>hour := ascii ''6'', minute := ascii ''0'', command := ascii ''open''\<rparr> #
        empty_job\<lparr>hour := ascii ''7'', minute := ascii ''0'', command := ascii ''close''\<rparr> # replicate 14 empty_job,
      sec_drift = 0, wifi_opmode = STATION_MODE, ap_enabled = False, mqtt_pcon = False\<rparr>"

theorem cron_runs_due_jobs_witness:
  "fst (minute_timer_func True False 1720065600 two_jobs) = [AcThermoOpen]"
proof -
  have "year_and_day 1970 19908 = (2024, 185)"
    by (simp add: year_and_day.simps leap_year_def)
  then have t: "gmtime 1720069200 = \<lparr>tm_sec = 0, tm_min = 0, tm_hour = 5, tm_mday = 4, tm_mon = 6, tm_wday = 4\<rparr>"
    "gmtime 1720072800 = \<lparr>tm_sec = 0, tm_min = 0, tm_hour = 6, tm_mday = 4, tm_mon = 6, tm_wday = 4\<rparr>"
    by (simp_all add: gmtime_def month_lengths_def leap_year_def)
  let ?dt = "\<lparr>tm_sec = 0, tm_min = 0, tm_hour = 6, tm_mday = 4, tm_mon = 6, tm_wday = 4\<rparr>"
  let ?open = "empty_job\<lparr>hour := ascii ''6'', minute := ascii ''0'', command := ascii ''open''\<rparr>"
  let ?close = "empty_job\<lparr>hour := ascii ''7'', minute := ascii ''0'', command := ascii ''close''\<rparr>"
  have dt: "?dt = danish_time 1720065600"
    using t by (simp add: danish_time_def eu_dst_def last_summer_hour_def)
  have jobs: "take (cron_n two_jobs) (cron_job_list two_jobs) = [?open, ?close]" by (simp add: two_jobs_def)
  have num: "leading_number (ascii ''6'') = 6" "leading_number (ascii ''7'') = 7" "leading_number (ascii ''0'') = 0"
    by (simp_all add: leading_number_def digit_byte_def dec_value_def ascii_def)
  have stored: "\<forall>j \<in> set (take (cron_n two_jobs) (cron_job_list two_jobs)). stored_job j"
    unfolding jobs by (simp add: stored_job_def stored_field_def empty_job_def digit_byte_def ascii_def)
  have "filter (scheduled ?dt) [?open, ?close] = [?open]"
    by (simp add: scheduled_def allows_def allows_weekday_def empty_job_def num) (simp add: ascii_def)
  then have due: "[?open] = upto_clear (filter (scheduled ?dt) (take (cron_n two_jobs) (cron_job_list two_jobs)))"
    unfolding jobs by (simp only: upto_clear.simps) (simp add: clears_def ascii_def)
  have ex: "perform True ?open s = ([AcThermoOpen], s)" for s
    by (simp add: perform_def command_table_def)
  have len: "cron_n two_jobs \<le> length (cron_job_list two_jobs)" by (simp add: two_jobs_def)
  have "minute_timer_func True False 1720065600 two_jobs =
    (if False \<or> (1720065600 :: nat) = 0 then ([], two_jobs)
     else case perform_all True [?open] (two_jobs\<lparr>sec_drift := (60 - tm_sec ?dt) mod 60\<rparr>) of (ev, s') \<Rightarrow> ([] @ ev, s'))"
    by (rule cron_runs_due_jobs [OF len _ stored dt due]) (simp_all add: two_jobs_def)
  then show ?thesis by (simp add: ex)
qed

section \<open>Adding a job\<close>

definition strtok_r :: "u8 \<Rightarrow> bytes \<Rightarrow> (bytes \<times> bytes) option" where
  "strtok_r d s =
     (let s = dropWhile (\<lambda>c. c = d) s
      in if s = [] then None
         else Some (takeWhile (\<lambda>c. c \<noteq> d) s, drop 1 (dropWhile (\<lambda>c. c \<noteq> d) s)))"

lemma strtok_rD:
  assumes "strtok_r d s = Some (t, r)"
  obtains lead tail where "s = lead @ t @ tail" and "set lead \<subseteq> {d}" and "t \<noteq> []" and "d \<notin> set t"
    and "tail = [] \<and> r = [] \<or> tail = d # r"
proof -
  define lead u tail where defs: "lead = takeWhile (\<lambda>c. c = d) s" "u = dropWhile (\<lambda>c. c = d) s"
    "tail = dropWhile (\<lambda>c. c \<noteq> d) u"
  have u: "u \<noteq> []" "t = takeWhile (\<lambda>c. c \<noteq> d) u" "r = drop 1 tail"
    using assms unfolding strtok_r_def Let_def defs by (metis option.distinct(1) option.inject prod.inject)+
  have "s = lead @ u" by (simp add: defs(1,2))
  moreover have "u = t @ tail" by (simp add: u(2) defs(3))
  ultimately have "s = lead @ t @ tail" by simp
  moreover have "set lead \<subseteq> {d}" by (auto simp: defs(1) dest: set_takeWhileD)
  moreover have "hd u \<noteq> d" using u(1) hd_dropWhile [of "\<lambda>c. c = d" s] by (simp add: defs(2))
  then have "t \<noteq> []" using u(1,2) by (cases u) auto
  moreover have "d \<notin> set t" unfolding u(2) by (auto dest: set_takeWhileD)
  moreover have "tail = [] \<and> r = [] \<or> tail = d # r"
  proof (cases tail)
    case Nil
    then show ?thesis by (simp add: u(3))
  next
    case (Cons x xs)
    then have "x = d" using hd_dropWhile [of "\<lambda>c. c \<noteq> d" u] by (auto simp: defs(3))
    then show ?thesis using Cons by (simp add: u(3))
  qed
  ultimately show thesis by (rule that)
qed

lemma strtok_r_shorter: "strtok_r d s = Some (t, r) \<Longrightarrow> length r < length s"
  by (elim strtok_rD) auto

fun strstr_loop :: "bytes \<Rightarrow> bytes \<Rightarrow> nat \<Rightarrow> nat option" where
  "strstr_loop p [] i = (if p = [] then Some i else None)"
| "strstr_loop p (c # cs) i = (if take (length p) (c # cs) = p then Some i else strstr_loop p cs (i + 1))"

text \<open>
  The parameters of the function: what stands behind the first \<open>=\<close> after the function name.
  \<open>strtok_r\<close> ends the string there, for the loop below as well.
\<close>

definition split_params :: "bytes \<Rightarrow> bytes \<times> bytes" where
  "split_params cron_params =
     (case strstr_loop (ascii ''command='') cron_params 0 of
        None \<Rightarrow> (cron_params, [])
      | Some p \<Rightarrow>
          let str = drop (p + 8) cron_params;
              lead = takeWhile (\<lambda>c. c = 0x3D) str
          in case strtok_r 0x3D str of
               None \<Rightarrow> (cron_params, [])
             | Some (name, params) \<Rightarrow>
                 (take (p + 8 + length lead + length name) cron_params, take 95 params))"

definition set_field :: "bytes \<Rightarrow> bytes \<Rightarrow> cron_job_t \<Rightarrow> cron_job_t option" where
  "set_field key v j =
     (let f = take 7 v
      in if strncmp_eq key (ascii ''minute'') 64 then Some (j\<lparr>minute := f\<rparr>)
         else if strncmp_eq key (ascii ''hour'') 64 then Some (j\<lparr>hour := f\<rparr>)
         else if strncmp_eq key (ascii ''day_of_month'') 64 then Some (j\<lparr>day_of_month := f\<rparr>)
         else if strncmp_eq key (ascii ''month'') 64 then Some (j\<lparr>month := f\<rparr>)
         else if strncmp_eq key (ascii ''day_of_week'') 64 then Some (j\<lparr>day_of_week := f\<rparr>)
         else None)"

text \<open>One \<open>key=value\<close>; \<open>None\<close> is a write behind the sixteen slots.\<close>

definition add_token :: "bytes \<Rightarrow> bytes \<Rightarrow> cron \<Rightarrow> cron option" where
  "add_token params str s =
     (let key_value = take 63 str
      in case strtok_r 0x3D key_value of
           None \<Rightarrow> Some s
         | Some (key, rest) \<Rightarrow>
             (case strtok_r 0x3D rest of
                None \<Rightarrow> Some s
              | Some (v, rest) \<Rightarrow>
                  let n = cron_n s; j = cron_job_list s ! n
                  in (case set_field key v j of
                        Some j \<Rightarrow> if n < 16 then Some (s\<lparr>cron_job_list := (cron_job_list s)[n := j]\<rparr>) else None
                      | None \<Rightarrow>
                          if strncmp_eq key (ascii ''command'') 32 then
                            if n < 16 then
                              let j = j\<lparr>command := take 31 v\<rparr>;
                                  j = (if length params > 0 then j\<lparr>command_params := take 95 params\<rparr> else j)
                              in Some (s\<lparr>cron_job_list := (cron_job_list s)[n := j], cron_n := n + 1\<rparr>)
                            else None
                          else Some s)))"

function add_tokens :: "bytes \<Rightarrow> bytes \<Rightarrow> cron \<Rightarrow> cron option" where
  "add_tokens params rest s =
     (case strtok_r 0x26 rest of
        None \<Rightarrow> Some s
      | Some (str, rest) \<Rightarrow>
          (case add_token params str s of None \<Rightarrow> None | Some s \<Rightarrow> add_tokens params rest s))"
  by pat_completeness auto
termination
  by (relation "measure (\<lambda>(p, rest, s). length rest)") (auto dest: strtok_r_shorter)

declare add_tokens.simps [simp del]

definition add_cron_job_from_query :: "bytes \<Rightarrow> cron \<Rightarrow> (nat \<times> cron_event list \<times> cron) option" where
  "add_cron_job_from_query query s =
     (let cron_params = take 511 query
      in if cron_n s \<le> 16 - 1 then
           let s = s\<lparr>cron_job_list := (cron_job_list s)[cron_n s := empty_job]\<rparr>;
               (cron_params, params) = split_params cron_params
           in map_option (\<lambda>s. (cron_n s, [CronCfgSaveDefered], s)) (add_tokens params cron_params s)
         else Some (cron_n s, [], s))"

section \<open>A query adds at most one job\<close>

text \<open>
  \<open>one_command rest\<close>: behind any \<open>command=\<close> and the \<open>=\<close> that follow it directly there is no
  further \<open>=\<close>. It is what \<open>split_params\<close> leaves, and a suffix has it when the whole has.
\<close>

definition one_command :: "bytes \<Rightarrow> bool" where
  "one_command rest \<longleftrightarrow>
     (\<forall>u v. rest = u @ ascii ''command='' @ v \<longrightarrow> 0x3D \<notin> set (dropWhile (\<lambda>c. c = 0x3D) v))"

lemma one_command_suffix: "one_command (u @ v) \<Longrightarrow> one_command v"
  unfolding one_command_def by (metis append.assoc)

lemma ascii_command: "ascii ''command='' = ascii ''command'' @ [0x3D]"
  by (simp add: ascii_def)

lemma strstr_loop_Some:
  "strstr_loop p s i = Some k \<Longrightarrow> i \<le> k \<and> take (length p) (drop (k - i) s) = p \<and>
     (\<forall>m < k - i. take (length p) (drop m s) \<noteq> p)"
proof (induction s arbitrary: i)
  case (Cons c s)
  show ?case
  proof (cases "take (length p) (c # s) = p")
    case True
    then show ?thesis using Cons.prems by simp
  next
    case False
    then have k: "strstr_loop p s (i + 1) = Some k" using Cons.prems by simp
    from Cons.IH [OF this] have *: "i + 1 \<le> k" "take (length p) (drop (k - (i + 1)) s) = p"
      "\<forall>m < k - (i + 1). take (length p) (drop m s) \<noteq> p" by auto
    then have "k - i = Suc (k - (i + 1))" by simp
    with * False show ?thesis by (auto simp: less_Suc_eq_0_disj)
  qed
qed (simp split: if_splits)

lemma strstr_loop_None:
  "strstr_loop p s i = None \<Longrightarrow> take (length p) (drop m s) \<noteq> p"
proof (induction s arbitrary: i m)
  case (Cons c s)
  then show ?case by (cases m) (auto split: if_splits)
qed (simp split: if_splits)

lemma one_command_found:
  assumes "\<And>m. m < k \<Longrightarrow> take 8 (drop m s) \<noteq> ascii ''command=''"
    and "s = a @ ascii ''command='' @ lead @ t" and "length a = k" and "set lead \<subseteq> {0x3D}" and "0x3D \<notin> set t"
  shows "one_command s"
  unfolding one_command_def
proof (intro allI impI)
  fix u v assume s: "s = u @ ascii ''command='' @ v"
  then have "take 8 (drop (length u) s) = ascii ''command=''" by simp
  then have "k \<le> length u" using assms(1) by (meson not_less)
  have "v = drop (length u + 8) s" using s by simp
  also have "\<dots> = drop (length u - k) (lead @ t)"
    using assms(2,3) \<open>k \<le> length u\<close> by (simp add: drop_append)
  finally have v: "v = drop (length u - k) lead @ drop (length u - k - length lead) t"
    by (simp only: drop_append)
  let ?w = "drop (length u - k - length lead) t"
  have "dropWhile (\<lambda>c. c = 0x3D) v = dropWhile (\<lambda>c. c = 0x3D) ?w"
    unfolding v using assms(4) by (intro dropWhile_append2) (blast dest: in_set_dropD)
  moreover have "0x3D \<notin> set ?w" using assms(5) by (blast dest: in_set_dropD)
  ultimately show "0x3D \<notin> set (dropWhile (\<lambda>c. c = 0x3D) v)"
    by (auto dest: set_dropWhileD)
qed

lemma split_params_one_command: "one_command (fst (split_params s))"
proof (cases "strstr_loop (ascii ''command='') s 0")
  case None
  have "s \<noteq> u @ ascii ''command='' @ v" for u v
    using strstr_loop_None [OF None, of "length u"] by auto
  then show ?thesis using None by (simp add: split_params_def one_command_def)
next
  case (Some p)
  let ?str = "drop (p + 8) s"
  have eight: "length (ascii ''command='') = 8" by simp
  have found: "take 8 (drop p s) = ascii ''command=''" "\<And>m. m < p \<Longrightarrow> take 8 (drop m s) \<noteq> ascii ''command=''"
    using strstr_loop_Some [OF Some, unfolded eight] by simp_all
  have "s = take p s @ take 8 (drop p s) @ drop 8 (drop p s)" by (simp only: append_take_drop_id)
  then have s: "s = take p s @ ascii ''command='' @ ?str"
    by (simp only: found(1) drop_drop add.commute)
  have "length (take p s) = p"
  proof (rule ccontr)
    assume "length (take p s) \<noteq> p"
    then have "drop p s = []" by simp
    then show False using found(1) by (simp add: ascii_def)
  qed
  show ?thesis
  proof (cases "strtok_r 0x3D ?str")
    case None
    then have "set ?str \<subseteq> {0x3D}" by (auto simp: strtok_r_def Let_def dropWhile_eq_Nil_conv split: if_splits)
    then have "one_command s"
      using found s \<open>length (take p s) = p\<close> by (intro one_command_found [of p s "take p s" ?str "[]"]) auto
    then show ?thesis using Some None by (simp add: split_params_def)
  next
    case tok: (Some x)
    obtain name params where x: "x = (name, params)" by (cases x)
    obtain lead tail where t: "?str = lead @ name @ tail" "set lead \<subseteq> {0x3D}" "name \<noteq> []" "0x3D \<notin> set name"
      using strtok_rD [OF tok [unfolded x]] by metis
    have lead: "takeWhile (\<lambda>c. c = 0x3D) ?str = lead"
    proof -
      obtain c cs where c: "name = c # cs" "c \<noteq> 0x3D" using t(3,4) by (cases name) auto
      have "takeWhile (\<lambda>c. c = 0x3D) (lead @ name @ tail) = lead @ takeWhile (\<lambda>c. c = 0x3D) (name @ tail)"
        using t(2) by (intro takeWhile_append2) auto
      then show ?thesis unfolding t(1) using c by simp
    qed
    let ?a = "take p s"
    let ?cp = "?a @ ascii ''command='' @ lead @ name"
    let ?n = "p + 8 + length lead + length name"
    have n: "length ?cp = ?n" using \<open>length ?a = p\<close> by simp
    have whole: "s = ?cp @ tail" using s t(1) by (metis append.assoc)
    then have cp: "take ?n s = ?cp" using n by (metis append_eq_conv_conj)
    have "take 8 (drop m ?cp) \<noteq> ascii ''command=''" if "m < p" for m
    proof -
      have "m + 8 \<le> ?n" using that by simp
      then have "take 8 (drop m ?cp) = take 8 (drop m s)"
        by (simp only: cp [symmetric] drop_take take_take min_def) simp
      then show ?thesis using found(2) [OF that] by simp
    qed
    then have "one_command ?cp"
      using t \<open>length ?a = p\<close> by (intro one_command_found [of p ?cp ?a lead name]) auto
    moreover have "fst (split_params s) = take ?n s"
      using Some tok x lead by (simp add: split_params_def Let_def)
    ultimately show ?thesis by (simp only: cp)
  qed
qed

lemma take_command_key:
  assumes "strtok_r 0x3D (take 63 str) = Some (key, rest)" and "strtok_r 0x3D rest = Some (v, rest')"
    and "strncmp_eq key (ascii ''command'') 32"
  obtains u w where "str = u @ ascii ''command='' @ w" and "dropWhile (\<lambda>c. c = 0x3D) w \<noteq> []"
proof -
  obtain l tail where k: "take 63 str = l @ key @ tail" "tail = [] \<and> rest = [] \<or> tail = 0x3D # rest"
    using strtok_rD [OF assms(1)] by metis
  obtain l' tail' where r: "rest = l' @ v @ tail'" "set l' \<subseteq> {0x3D}" "v \<noteq> []" "0x3D \<notin> set v"
    using strtok_rD [OF assms(2)] by metis
  have key: "key = ascii ''command''"
  proof -
    have "take 32 key = ascii ''command''" using assms(3) by (simp add: strncmp_eq_def)
    moreover from this have "length (take 32 key) = 7" by simp
    then have "length key = 7" by (simp add: min_def split: if_splits)
    ultimately show ?thesis by simp
  qed
  have tail: "tail = 0x3D # rest" using k(2) r(1,3) by auto
  have "str = take 63 str @ drop 63 str" by simp
  also have "\<dots> = l @ ascii ''command='' @ (l' @ v @ tail' @ drop 63 str)"
    by (simp add: k(1) tail r(1) key ascii_command)
  finally have "str = l @ ascii ''command='' @ (l' @ v @ tail' @ drop 63 str)" .
  moreover obtain c cs where "v = c # cs" "c \<noteq> 0x3D" using r(3,4) by (cases v) auto
  then have "dropWhile (\<lambda>c. c = 0x3D) (l' @ v @ tail' @ drop 63 str) \<noteq> []"
    by (simp add: dropWhile_eq_Nil_conv)
  ultimately show thesis by (rule that)
qed

lemma add_token_count:
  assumes "cron_n s < 16"
  obtains s' where "add_token params str s = Some s'" and "cron_n s' = cron_n s"
    and "length (cron_job_list s') = length (cron_job_list s)"
  | s' u w where "add_token params str s = Some s'" and "cron_n s' = cron_n s + 1"
    and "length (cron_job_list s') = length (cron_job_list s)"
    and "str = u @ ascii ''command='' @ w" and "dropWhile (\<lambda>c. c = 0x3D) w \<noteq> []"
proof (cases "strtok_r 0x3D (take 63 str)")
  case None
  then show thesis using that(1) [of s] by (simp add: add_token_def)
next
  case (Some x)
  obtain key rest where k: "strtok_r 0x3D (take 63 str) = Some (key, rest)" using Some by (cases x) auto
  show thesis
  proof (cases "strtok_r 0x3D rest")
    case None
    then show thesis using that(1) [of s] k by (simp add: add_token_def)
  next
    case (Some y)
    obtain v rest' where v: "strtok_r 0x3D rest = Some (v, rest')" using Some by (cases y) auto
    show thesis
    proof (cases "set_field key v (cron_job_list s ! cron_n s) = None \<and> strncmp_eq key (ascii ''command'') 32")
      case True
      obtain u w where "str = u @ ascii ''command='' @ w" "dropWhile (\<lambda>c. c = 0x3D) w \<noteq> []"
        using take_command_key [OF k v] True by blast
      then show thesis
        using that(2) [of _ u w] k v True assms by (simp add: add_token_def Let_def)
    next
      case False
      then have "\<exists>s'. add_token params str s = Some s' \<and> cron_n s' = cron_n s \<and>
          length (cron_job_list s') = length (cron_job_list s)"
        using k v assms by (auto simp: add_token_def Let_def split: option.split)
      then show thesis using that(1) by blast
    qed
  qed
qed

lemma add_token_no_eq:
  assumes "0x3D \<notin> set str"
  shows "add_token params str s = Some s"
proof (cases "strtok_r 0x3D (take 63 str)")
  case (Some x)
  then obtain key rest where k: "strtok_r 0x3D (take 63 str) = Some (key, rest)" by (cases x) auto
  obtain lead tail where "take 63 str = lead @ key @ tail" "tail = [] \<and> rest = [] \<or> tail = 0x3D # rest"
    using strtok_rD [OF k] by metis
  moreover have "0x3D \<notin> set (take 63 str)" using assms by (blast dest: in_set_takeD)
  ultimately have "rest = []" by auto
  then show ?thesis using k by (simp add: add_token_def strtok_r_def)
qed (simp add: add_token_def)

lemma add_tokens_no_eq: "0x3D \<notin> set rest \<Longrightarrow> add_tokens params rest s = Some s"
proof (induction params rest s rule: add_tokens.induct)
  case (1 params rest s)
  show ?case
  proof (cases "strtok_r 0x26 rest")
    case None
    then show ?thesis by (simp add: add_tokens.simps [of params rest])
  next
    case (Some x)
    then obtain str rest' where k: "strtok_r 0x26 rest = Some (str, rest')" by (cases x) auto
    obtain lead tail where t: "rest = lead @ str @ tail" "tail = [] \<and> rest' = [] \<or> tail = 0x26 # rest'"
      using strtok_rD [OF k] by metis
    then have "0x3D \<notin> set str" "0x3D \<notin> set rest'" using 1(2) by auto
    then show ?thesis
      using 1(1) [OF k refl add_token_no_eq] k add_token_no_eq
      by (simp add: add_tokens.simps [of params rest])
  qed
qed

lemma add_tokens_count:
  "one_command rest \<Longrightarrow> cron_n s < 16 \<Longrightarrow>
   \<exists>s'. add_tokens params rest s = Some s' \<and> cron_n s \<le> cron_n s' \<and> cron_n s' \<le> cron_n s + 1 \<and>
     length (cron_job_list s') = length (cron_job_list s)"
proof (induction params rest s rule: add_tokens.induct)
  case (1 params rest s)
  show ?case
  proof (cases "strtok_r 0x26 rest")
    case None
    then show ?thesis by (simp add: add_tokens.simps [of params rest])
  next
    case (Some x)
    then obtain str rest' where k: "strtok_r 0x26 rest = Some (str, rest')" by (cases x) auto
    obtain lead tail where t: "rest = lead @ str @ tail" "tail = [] \<and> rest' = [] \<or> tail = 0x26 # rest'"
      using strtok_rD [OF k] by metis
    have suffix: "one_command rest'"
    proof (cases "tail = []")
      case True
      then show ?thesis using t(2) by (simp add: one_command_def)
    next
      case False
      then have "rest = (lead @ str @ [0x26]) @ rest'" using t by auto
      then show ?thesis using 1(2) one_command_suffix by metis
    qed
    from 1(3) show ?thesis
    proof (cases rule: add_token_count [of s params str])
      case (1 s')
      have "\<exists>s''. add_tokens params rest' s' = Some s'' \<and> cron_n s' \<le> cron_n s'' \<and> cron_n s'' \<le> cron_n s' + 1 \<and>
          length (cron_job_list s'') = length (cron_job_list s')"
        using "1.IH" [OF k refl 1(1) suffix] 1(2) "1.prems"(2) by simp
      then show ?thesis using 1 k by (auto simp: add_tokens.simps [of params rest])
    next
      case (2 s' u w)
      have "rest = (lead @ u) @ ascii ''command='' @ (w @ tail)" using t(1) 2(4) by simp
      then have "0x3D \<notin> set (dropWhile (\<lambda>c. c = 0x3D) (w @ tail))"
        using "1.prems"(1) unfolding one_command_def by blast
      moreover have "dropWhile (\<lambda>c. c = 0x3D) (w @ tail) = dropWhile (\<lambda>c. c = 0x3D) w @ tail"
        using 2(5) by (auto simp: dropWhile_append dropWhile_eq_Nil_conv)
      ultimately have "0x3D \<notin> set rest'" using t(2) by auto
      then have "add_tokens params rest' s' = Some s'" by (rule add_tokens_no_eq)
      then show ?thesis using 2(1-3) k by (simp add: add_tokens.simps [of params rest])
    qed
  qed
qed

lemma add_job_tokens:
  assumes "length (cron_job_list s) = 16" and "cron_n s \<le> 16 - 1"
  obtains s' where "add_tokens (snd (split_params q)) (fst (split_params q))
      (s\<lparr>cron_job_list := (cron_job_list s)[cron_n s := empty_job]\<rparr>) = Some s'"
    "cron_n s \<le> cron_n s'" "cron_n s' \<le> cron_n s + 1" "length (cron_job_list s') = 16"
proof -
  let ?s = "s\<lparr>cron_job_list := (cron_job_list s)[cron_n s := empty_job]\<rparr>"
  have "cron_n ?s < 16" using assms(2) by simp
  from add_tokens_count [OF split_params_one_command this, where params = "snd (split_params q)" and s1 = q] assms(1)
  show thesis using that by auto
qed

lemma add_cron_job_total:
  assumes "length (cron_job_list s) = 16" and "cron_n s \<le> 16"
  shows "\<exists>n evs s'. add_cron_job_from_query query s = Some (n, evs, s')"
proof (cases "cron_n s \<le> 16 - 1")
  case True
  from add_job_tokens [OF assms(1) True, of "take 511 query"] show ?thesis
    using True by (auto simp: add_cron_job_from_query_def Let_def split_beta)
qed (simp add: add_cron_job_from_query_def Let_def)

text \<open>
  C24: Whatever a remote query holds, adding a cron job stays inside the table: no field is
  written behind the sixteen slots although the number of jobs is only checked once, before
  the loop over the \<open>key=value\<close> pairs; a query adds at most one job, and a full table is left
  alone. (The parameters of the command swallow everything behind its first \<open>=\<close>, further
  commands included.)
\<close>

theorem cron_table_bounded:
  assumes "length (cron_job_list s) = 16" and "cron_n s \<le> 16"
  shows "\<exists>n ev s'. add_cron_job_from_query query s = Some (n, ev, s') \<and> n = cron_n s' \<and>
    cron_n s \<le> n \<and> n \<le> cron_n s + 1 \<and> n \<le> 16 \<and> length (cron_job_list s') = 16 \<and>
    (cron_n s = 16 \<longrightarrow> s' = s \<and> ev = [])"
proof (cases "cron_n s \<le> 16 - 1")
  case True
  from add_job_tokens [OF assms(1) True] obtain s' where
    "add_tokens (snd (split_params (take 511 query))) (fst (split_params (take 511 query)))
       (s\<lparr>cron_job_list := (cron_job_list s)[cron_n s := empty_job]\<rparr>) = Some s'"
    "cron_n s \<le> cron_n s'" "cron_n s' \<le> cron_n s + 1" "length (cron_job_list s') = 16" .
  then show ?thesis using True by (simp add: add_cron_job_from_query_def Let_def split_beta)
next
  case False
  then show ?thesis using assms by (simp add: add_cron_job_from_query_def Let_def)
qed

definition one_free_slot :: cron where
  "one_free_slot =
     \<lparr>cron_n = 15, cron_job_list = replicate 16 empty_job, sec_drift = 0, wifi_opmode = STATION_MODE,
      ap_enabled = False, mqtt_pcon = False\<rparr>"

theorem cron_table_bounded_witness:
  "\<exists>n ev s'. add_cron_job_from_query (ascii ''minute=5&command=open&command=close&hour=6'') one_free_slot = Some (n, ev, s') \<and>
     n \<le> 16 \<and> length (cron_job_list s') = 16"
  using cron_table_bounded [of one_free_slot "ascii ''minute=5&command=open&command=close&hour=6''"]
  by (auto simp: one_free_slot_def)

end
