(* ===== verification/Config.thy ===== *)
theory Config
  imports Cron
begin

text \<open>
  \<open>modules/config.c\<close>: the configuration in RAM and its copy in flash. The structure \<open>sys_cfg\<close> is
  modelled as what the checksum and the flash driver see: its 3072 bytes, with the fields at the
  offsets the compiler gives them. The flash of the SDK is a parameter: \<open>store\<close> is what is read
  back after a configuration was written.
\<close>

section \<open>Layout\<close>

abbreviation (input) syscfg_len :: nat where "syscfg_len \<equiv> 3072"
abbreviation (input) device_id_off :: nat where "device_id_off \<equiv> 4"
abbreviation (input) sta_ssid_off :: nat where "sta_ssid_off \<equiv> 20"
abbreviation (input) sta_pwd_off :: nat where "sta_pwd_off \<equiv> 84"
abbreviation (input) sta_type_off :: nat where "sta_type_off \<equiv> 148"
abbreviation (input) ap_mesh_pwd_off :: nat where "ap_mesh_pwd_off \<equiv> 152"
abbreviation (input) ap_enabled_off :: nat where "ap_enabled_off \<equiv> 216"
abbreviation (input) mqtt_host_off :: nat where "mqtt_host_off \<equiv> 217"
abbreviation (input) mqtt_port_off :: nat where "mqtt_port_off \<equiv> 284"
abbreviation (input) mqtt_user_off :: nat where "mqtt_user_off \<equiv> 288"
abbreviation (input) mqtt_pass_off :: nat where "mqtt_pass_off \<equiv> 320"
abbreviation (input) mqtt_keepalive_off :: nat where "mqtt_keepalive_off \<equiv> 352"
abbreviation (input) security_off :: nat where "security_off \<equiv> 356"
abbreviation (input) key_off :: nat where "key_off \<equiv> 357"
abbreviation (input) ac_thermo_state_off :: nat where "ac_thermo_state_off \<equiv> 373"
abbreviation (input) offline_close_at_off :: nat where "offline_close_at_off \<equiv> 376"
abbreviation (input) cron_jobs_off :: nat where "cron_jobs_off \<equiv> 380"
abbreviation (input) crc_off :: nat where "crc_off \<equiv> 3070"

record config =
  sys_cfg :: bytes
  cfg_flash :: bytes
  config_save_timer :: bool
  config_save_timer_running :: bool

definition stored_crc16 :: "bytes \<Rightarrow> u16" where
  "stored_crc16 img = be16 (img ! (crc_off + 1)) (img ! crc_off)"

definition computed_crc16 :: "bytes \<Rightarrow> u16" where
  "computed_crc16 img = ccit_crc16 0xffff (take crc_off img)"

definition put_crc16 :: "u16 \<Rightarrow> bytes \<Rightarrow> bytes" where
  "put_crc16 w img = put_bytes img crc_off [lo8 w, hi8 w]"

definition put_le32 :: "u32 \<Rightarrow> nat \<Rightarrow> bytes \<Rightarrow> bytes" where
  "put_le32 w off img = put_bytes img off (rev (bytes32 w))"

text \<open>\<open>tfp_snprintf (field, n, "%s", s)\<close> into a field of \<open>n\<close> bytes that is cleared.\<close>

definition put_string :: "bytes \<Rightarrow> nat \<Rightarrow> nat \<Rightarrow> bytes \<Rightarrow> bytes" where
  "put_string s n off img = put_bytes img off (take (n - 1) s @ [0])"

text \<open>The factory settings the build gives: strings, numbers and the key.\<close>

record defaults =
  d_sta_ssid :: bytes
  d_sta_pwd :: bytes
  d_sta_type :: u32
  d_ap_mesh_pwd :: bytes
  d_device_id :: bytes
  d_mqtt_host :: bytes
  d_mqtt_port :: u32
  d_mqtt_user :: bytes
  d_mqtt_pass :: bytes
  d_security :: u8
  d_key :: bytes
  d_mqtt_keepalive :: u32

definition default_image :: "defaults \<Rightarrow> bytes" where
  "default_image d =
     (let img = replicate syscfg_len 0;
          img = put_string (d_sta_ssid d) 64 sta_ssid_off img;
          img = put_string (d_sta_pwd d) 64 sta_pwd_off img;
          img = put_le32 (d_sta_type d) sta_type_off img;
          img = put_string (d_ap_mesh_pwd d) 64 ap_mesh_pwd_off img;
          img = img[ap_enabled_off := 1];
          img = put_string (d_device_id d) 16 device_id_off img;
          img = put_string (d_mqtt_host d) 64 mqtt_host_off img;
          img = put_le32 (d_mqtt_port d) mqtt_port_off img;
          img = put_string (d_mqtt_user d) 32 mqtt_user_off img;
          img = put_string (d_mqtt_pass d) 32 mqtt_pass_off img;
          img = img[security_off := d_security d];
          img = put_bytes img key_off (take 16 (d_key d));
          img = put_le32 (d_mqtt_keepalive d) mqtt_keepalive_off img;
          img = img[ac_thermo_state_off := 0];
          img = put_le32 0 offline_close_at_off img
      in put_bytes img cron_jobs_off (replicate 168 0))"

section \<open>Loading and saving\<close>

text \<open>The first half of \<open>cfg_save\<close>, which is all of it when no checksums are asked for.\<close>

definition cfg_write :: "(bytes \<Rightarrow> bytes) \<Rightarrow> config \<Rightarrow> config" where
  "cfg_write store c =
     (let img = put_crc16 (computed_crc16 (sys_cfg c)) (sys_cfg c)
      in c\<lparr>sys_cfg := img, cfg_flash := store img\<rparr>)"

definition cfg_save_plain :: "(bytes \<Rightarrow> bytes) \<Rightarrow> bool \<Rightarrow> config \<Rightarrow> bool \<times> config" where
  "cfg_save_plain store ota_in_progress c =
     (if ota_in_progress then (False, c) else (True, cfg_write store c))"

definition cfg_load :: "(bytes \<Rightarrow> bytes) \<Rightarrow> bool \<Rightarrow> defaults \<Rightarrow> config \<Rightarrow> config" where
  "cfg_load store ota_in_progress d c =
     (let c = c\<lparr>sys_cfg := cfg_flash c\<rparr>
      in if stored_crc16 (sys_cfg c) \<noteq> computed_crc16 (sys_cfg c)
         then snd (cfg_save_plain store ota_in_progress (c\<lparr>sys_cfg := default_image d\<rparr>))
         else c)"

text \<open>\<open>cfg_save\<close> with the addresses of both checksums: result, calculated and saved checksum.\<close>

definition cfg_save :: "(bytes \<Rightarrow> bytes) \<Rightarrow> bool \<Rightarrow> defaults \<Rightarrow> config \<Rightarrow> bool \<times> (u16 \<times> u16) option \<times> config" where
  "cfg_save store ota_in_progress d c =
     (if ota_in_progress then (False, None, c)
      else
        let c = cfg_write store c;
            saved_crc = stored_crc16 (sys_cfg c);
            c = cfg_load store ota_in_progress d c;
            calculated_crc = computed_crc16 (sys_cfg c)
        in (calculated_crc = saved_crc, Some (calculated_crc, saved_crc), c))"

definition cfg_save_defered :: "bool \<Rightarrow> config \<Rightarrow> config" where
  "cfg_save_defered ota_in_progress c =
     (if ota_in_progress then c else c\<lparr>config_save_timer := True\<rparr>)"

definition config_save_timer_func :: "(bytes \<Rightarrow> bytes) \<Rightarrow> bool \<Rightarrow> config \<Rightarrow> config" where
  "config_save_timer_func store ota_in_progress c =
     (if ota_in_progress then c\<lparr>config_save_timer := False, config_save_timer_running := False\<rparr>
      else if config_save_timer_running c then c\<lparr>config_save_timer := True\<rparr>
      else snd (cfg_save_plain store ota_in_progress
             (c\<lparr>config_save_timer := False, config_save_timer_running := False\<rparr>)))"

definition cfg_save_key :: "(bytes \<Rightarrow> bytes) \<Rightarrow> bool \<Rightarrow> bytes option \<Rightarrow> config \<Rightarrow> bool \<times> config" where
  "cfg_save_key store ota_in_progress key_hex_str c =
     (case key_hex_str of
        None \<Rightarrow> (False, c)
      | Some s \<Rightarrow>
          if length s = 32 then
            (case hex_to_bytes (Some s) (Some (sub_bytes (sys_cfg c) key_off 16)) 16 of
               (False, out) \<Rightarrow> (False, c)
             | (True, None) \<Rightarrow> (False, c)
             | (True, Some k) \<Rightarrow> cfg_save_plain store ota_in_progress (c\<lparr>sys_cfg := put_bytes (sys_cfg c) key_off k\<rparr>))
          else (False, c))"

text \<open>The strings of the configuration are NUL-terminated in their fields.\<close>

definition field_string :: "bytes \<Rightarrow> nat \<Rightarrow> nat \<Rightarrow> bytes" where
  "field_string img off n = takeWhile (\<lambda>b. b \<noteq> 0) (sub_bytes img off n)"

definition set_field64 :: "bytes \<Rightarrow> nat \<Rightarrow> nat \<Rightarrow> bytes \<Rightarrow> bytes" where
  "set_field64 v n off img = put_bytes (put_bytes img off (replicate 64 0)) off (take n v)"

text \<open>One \<open>key=value\<close> of the query of \<open>cfg_save_ssid_pwd\<close>, and the loop over the query.\<close>

definition ssid_pwd_token :: "bytes \<Rightarrow> config \<Rightarrow> config" where
  "ssid_pwd_token str c =
     (let query_string_key_value = take 511 str
      in case strtok_r 0x3D query_string_key_value of
           None \<Rightarrow> c
         | Some (key, rest) \<Rightarrow>
             let val = strtok_r 0x3D rest
             in if strncmp_eq key (ascii ''ssid'') 512 then
                  (case val of
                     None \<Rightarrow> c
                   | Some (v, _) \<Rightarrow>
                       let v = snd (query_string_unescape v)
                       in if \<not> strncmp_eq (field_string (sys_cfg c) sta_ssid_off 64) v 31
                          then c\<lparr>sys_cfg := set_field64 v 31 sta_ssid_off (sys_cfg c)\<rparr> else c)
                else if strncmp_eq key (ascii ''pwd'') 512 then
                  (case val of
                     None \<Rightarrow>
                       if \<not> strncmp_eq (field_string (sys_cfg c) sta_pwd_off 64) [] 1
                       then c\<lparr>sys_cfg := put_bytes (sys_cfg c) sta_pwd_off (replicate 64 0)\<rparr> else c
                   | Some (v, _) \<Rightarrow>
                       let v = snd (query_string_unescape v)
                       in if \<not> strncmp_eq (field_string (sys_cfg c) sta_pwd_off 64) v 63
                          then c\<lparr>sys_cfg := set_field64 v 63 sta_pwd_off (sys_cfg c)\<rparr> else c)
                else c)"

function ssid_pwd_tokens :: "bytes \<Rightarrow> config \<Rightarrow> config" where
  "ssid_pwd_tokens rest c =
     (case strtok_r 0x26 rest of
        None \<Rightarrow> c
      | Some (str, rest) \<Rightarrow> ssid_pwd_tokens rest (ssid_pwd_token str c))"
  by pat_completeness auto
termination
  by (relation "measure (\<lambda>(rest, c). length rest)") (auto dest: strtok_r_shorter)

declare ssid_pwd_tokens.simps [simp del]

definition cfg_save_ssid_pwd ::
  "(bytes \<Rightarrow> bytes) \<Rightarrow> bool \<Rightarrow> defaults \<Rightarrow> bytes \<Rightarrow> config \<Rightarrow> bool \<times> (u16 \<times> u16) option \<times> config" where
  "cfg_save_ssid_pwd store ota_in_progress d ssid_pwd c =
     cfg_save store ota_in_progress d (ssid_pwd_tokens (take 95 ssid_pwd) c)"

section \<open>What is saved is what is loaded\<close>

lemma put_bytes_keeps: "length img = n \<Longrightarrow> off + length xs \<le> n \<Longrightarrow> length (put_bytes img off xs) = n"
  by simp

lemma put_string_keeps: "length img = n \<Longrightarrow> off + m \<le> n \<Longrightarrow> 0 < m \<Longrightarrow> length (put_string s m off img) = n"
  by (simp add: put_string_def)

lemma put_le32_keeps: "length img = n \<Longrightarrow> off + 4 \<le> n \<Longrightarrow> length (put_le32 w off img) = n"
  by (simp add: put_le32_def)

lemma list_update_keeps: "length img = n \<Longrightarrow> length (img[i := x]) = n"
  by simp

lemmas image_keeps = put_bytes_keeps put_string_keeps put_le32_keeps list_update_keeps

lemma length_put_crc16 [simp]: "length img = syscfg_len \<Longrightarrow> length (put_crc16 w img) = syscfg_len"
  by (simp add: put_crc16_def)

lemma crc_fields:
  assumes "length img = syscfg_len"
  shows "stored_crc16 (put_crc16 w img) = w" and "computed_crc16 (put_crc16 w img) = computed_crc16 img"
    and "take crc_off (put_crc16 w img) = take crc_off img"
  using assms by (simp_all add: stored_crc16_def computed_crc16_def put_crc16_def put_bytes_def nth_append)

definition valid_image :: "bytes \<Rightarrow> bool" where
  "valid_image img \<longleftrightarrow> length img = syscfg_len \<and> stored_crc16 img = computed_crc16 img"

lemma valid_put_crc16: "length img = syscfg_len \<Longrightarrow> valid_image (put_crc16 (computed_crc16 img) img)"
  by (simp add: valid_image_def crc_fields)

lemma length_default_image [simp]: "length (default_image d) = syscfg_len"
  unfolding default_image_def Let_def by (intro image_keeps) simp_all

text \<open>
  With a flash that reads back what was written, saving reports success with both checksums
  equal, and a later load gives the saved configuration, whatever is in RAM then, with a checksum
  that fits.
\<close>

theorem cfg_save_then_load:
  assumes "length (sys_cfg c) = syscfg_len" and "store = id"
    and "cfg_save store False d c = (ok, crcs, c')" and "c'' = cfg_load store b d (c'\<lparr>sys_cfg := ram\<rparr>)"
  shows "ok \<and> take crc_off (sys_cfg c'') = take crc_off (sys_cfg c) \<and> valid_image (sys_cfg c'') \<and>
    crcs = Some (computed_crc16 (sys_cfg c), computed_crc16 (sys_cfg c))"
  using assms by (auto simp: cfg_save_def cfg_load_def cfg_write_def Let_def crc_fields valid_put_crc16)

definition sample_defaults :: defaults where
  "sample_defaults = \<lparr>d_sta_ssid = ascii ''Loppen Public'', d_sta_pwd = [], d_sta_type = 0, d_ap_mesh_pwd = ascii ''w1reless'',
     d_device_id = ascii ''ML_00000001'', d_mqtt_host = ascii ''nabovarme.meterlogger.net'', d_mqtt_port = 1883,
     d_mqtt_user = ascii ''esp8266'', d_mqtt_pass = ascii ''chah5Kai'', d_security = 0, d_key = replicate 16 1,
     d_mqtt_keepalive = 60\<rparr>"

definition blank_config :: config where
  "blank_config = \<lparr>sys_cfg = replicate 3072 0, cfg_flash = [], config_save_timer = False,
     config_save_timer_running = False\<rparr>"

theorem cfg_save_then_load_witness:
  "\<exists>crcs c'. cfg_save id False sample_defaults blank_config = (True, crcs, c') \<and>
     valid_image (sys_cfg (cfg_load id False sample_defaults (c'\<lparr>sys_cfg := []\<rparr>)))"
proof -
  obtain ok crcs c' where s: "cfg_save id False sample_defaults blank_config = (ok, crcs, c')"
    by (rule prod_cases3)
  have "length (sys_cfg blank_config) = syscfg_len" by (simp only: blank_config_def config.simps length_replicate)
  from cfg_save_then_load [OF this refl s refl] s show ?thesis by auto
qed

text \<open>The same sector with two neighbouring bytes changed.\<close>

lemma computed_crc16_damaged:
  assumes "take crc_off img = pre @ [a, b] @ post" and "take crc_off img' = pre @ [a', b'] @ post"
    and "[a', b'] \<noteq> [a, b]"
  shows "computed_crc16 img' \<noteq> computed_crc16 img"
proof
  assume "computed_crc16 img' = computed_crc16 img"
  then have "be16 a' b' XOR ccit_crc16 0xffff pre = be16 a b XOR ccit_crc16 0xffff pre"
    unfolding computed_crc16_def assms(1,2)
    by (simp only: ccit_crc16_append ccit_crc16_two ccit_crc16_inject crc_bits_inject xor.commute)
  then have "be16 a' b' = be16 a b" by (simp only: xor_right_inject)
  then have "hi8 (be16 a' b') = hi8 (be16 a b)" "lo8 (be16 a' b') = lo8 (be16 a b)" by simp_all
  with assms(3) show False by simp
qed

text \<open>
  Damage over the border between the data and the checksum. The change \<open>d\<close> of the last byte
  enters the CRC as one entry of the table. The low byte of the checksum comes first in the
  flash, so a change of it can only hide an entry with the high byte 0, and there is just one.
\<close>

lemma table_entries_with_high_byte_0:
  "list_all (\<lambda>(i, w). hi8 w = 0 \<longrightarrow> i = 0 \<or> i = 0x89 \<and> w = 0xA1) (zip [0..<256] ccit_crc16_table)"
  by code_simp

lemma table_entry_low:
  assumes "ccit_crc16_table ! unat (d :: u8) = ucast (e :: u8)" and "d \<noteq> 0"
  shows "d = 0x89 \<and> e = 0xA1"
proof -
  have d: "unat d < 256" by (rule order.strict_trans2 [OF unsigned_less]) simp
  have len: "length ccit_crc16_table = 256" by (simp add: ccit_crc16_table_def)
  have "hi8 (ucast e) = 0"
    unfolding hi8_def by (rule bit_word_eqI) (auto simp: bit_simps dest: bit_imp_le_length)
  then have "unat d = 0 \<or> unat d = 0x89 \<and> ccit_crc16_table ! unat d = 0xA1"
    using table_entries_with_high_byte_0 assms(1) d len
    by (auto simp: list_all_length dest!: spec [of _ "unat d"])
  then have "unat d = 0x89" and e: "(ucast e :: u16) = 0xA1"
    using assms by (auto simp: unat_eq_zero)
  then have "d = 0x89" by (simp add: word_unat_eq_iff)
  moreover have "e = ucast (ucast e :: u16)" by (rule bit_word_eqI) (simp add: bit_simps)
  ultimately show ?thesis using e by simp
qed

lemma crc_last_byte:
  "ccit_crc16 c (pre @ [a XOR d]) = ccit_crc16 c (pre @ [a]) XOR ccit_crc16_table ! unat d"
proof -
  have "unat d < 256" by (rule order.strict_trans2 [OF unsigned_less]) simp
  then have tab: "ccit_crc16_table ! unat d = (crc_bit ^^ 8) (push_bit 8 (ucast d))"
    by (simp add: crc_table_entries crc_table_def)
  have "push_bit 8 (ucast (a XOR d)) = push_bit 8 (ucast a) XOR (push_bit 8 (ucast d) :: u16)"
    by (rule bit_word_eqI) (auto simp: bit_simps)
  then show ?thesis
    unfolding tab crc_reference by (simp add: crc_byte_def xor.assoc flip: crc_bits_xor)
qed

lemma be16_xor_low: "be16 h (l XOR e) = be16 h l XOR ucast e"
  unfolding be16_def by (rule bit_word_eqI) (auto simp: bit_simps dest: bit_imp_le_length)

lemma xor_0x89: "a XOR 0x89 \<noteq> (a :: u8)"
proof
  assume "a XOR 0x89 = a"
  then have "a XOR (a XOR 0x89) = a XOR a" by simp
  then show False by (simp flip: xor.assoc)
qed

lemma xor_solve: "a XOR b = c \<longleftrightarrow> b = a XOR (c :: u8)"
  by (auto simp: xor.assoc [symmetric])

lemma border_damage:
  assumes "length img = syscfg_len" and "stored_crc16 img = computed_crc16 img"
    and "img' = img[3069 := x, 3070 := y]" and "x \<noteq> img ! 3069"
  shows "stored_crc16 img' = computed_crc16 img' \<longleftrightarrow> x = img ! 3069 XOR 0x89 \<and> y = img ! 3070 XOR 0xA1"
proof -
  define d e where de: "d = img ! 3069 XOR x" "e = img ! 3070 XOR y"
  have x: "x = img ! 3069 XOR d" and y: "y = img ! 3070 XOR e" by (simp_all add: de flip: xor.assoc)
  have "take crc_off w = take 3069 w @ [w ! 3069]" if "length w = syscfg_len" for w :: bytes
    using that take_Suc_conv_app_nth [of 3069 w] by simp
  then have t: "take crc_off img = take 3069 img @ [img ! 3069]"
    and t': "take crc_off img' = take 3069 img @ [img ! 3069 XOR d]"
    using assms(1,3) x by simp_all
  have c: "computed_crc16 img' = computed_crc16 img XOR ccit_crc16_table ! unat d"
    unfolding computed_crc16_def t t' by (rule crc_last_byte)
  have s: "stored_crc16 img' = stored_crc16 img XOR ucast e"
    using assms(1,3) y by (simp add: stored_crc16_def be16_xor_low)
  have "stored_crc16 img' = computed_crc16 img' \<longleftrightarrow> ccit_crc16_table ! unat d = ucast e"
    unfolding c s assms(2) by (simp only: xor.commute [of "computed_crc16 img"] xor_right_inject) auto
  also have "\<dots> \<longleftrightarrow> d = 0x89 \<and> e = 0xA1"
  proof
    assume "ccit_crc16_table ! unat d = ucast e"
    moreover have "d \<noteq> 0" using assms(4) x by auto
    ultimately show "d = 0x89 \<and> e = 0xA1" by (rule table_entry_low)
  qed (simp add: ccit_crc16_table_def)
  also have "\<dots> \<longleftrightarrow> x = img ! 3069 XOR 0x89 \<and> y = img ! 3070 XOR 0xA1"
    unfolding de by (simp only: xor_solve)
  finally show ?thesis .
qed

lemma data_damage:
  assumes "length img = syscfg_len" and "i + 1 < crc_off" and "img' = img[i := x, i + 1 := y]" and "img' \<noteq> img"
  shows "computed_crc16 img' \<noteq> computed_crc16 img" and "stored_crc16 img' = stored_crc16 img"
proof -
  have s: "take crc_off w = take i w @ [w ! i, w ! (i + 1)] @ take (crc_off - (i + 2)) (drop (i + 2) w)"
    if "length w = syscfg_len" for w :: bytes
  proof -
    have "w ! i # w ! (i + 1) # drop (i + 2) w = drop i w"
      using that assms(2) by (simp add: Cons_nth_drop_Suc)
    moreover have "take crc_off w = take i w @ take (Suc (Suc (crc_off - (i + 2)))) (drop i w)"
      using assms(2) take_add [of i "Suc (Suc (crc_off - (i + 2)))" w] by simp
    ultimately show ?thesis by (metis append_Cons append_Nil take_Suc_Cons)
  qed
  have "[img' ! i, img' ! (i + 1)] \<noteq> [img ! i, img ! (i + 1)]"
    using assms by (auto simp: list_eq_iff_nth_eq nth_list_update split: if_splits)
  moreover have "take i img' = take i img" "drop (i + 2) img' = drop (i + 2) img" "length img' = syscfg_len"
    using assms(1,3) by simp_all
  ultimately show "computed_crc16 img' \<noteq> computed_crc16 img"
    using s [OF assms(1)] s [of img'] by (intro computed_crc16_damaged) simp_all
  show "stored_crc16 img' = stored_crc16 img"
    using assms(1-3) by (simp add: stored_crc16_def)
qed

lemma damage_detected:
  assumes "valid_image img" and "i + 1 < syscfg_len" and "img' = img[i := x, i + 1 := y]" and "img' \<noteq> img"
  shows "stored_crc16 img' = computed_crc16 img' \<longleftrightarrow>
    i = 3069 \<and> x = img ! 3069 XOR 0x89 \<and> y = img ! 3070 XOR 0xA1"
proof -
  have len: "length img = syscfg_len" and fits: "stored_crc16 img = computed_crc16 img"
    using assms(1) by (simp_all add: valid_image_def)
  have stored: "stored_crc16 w = be16 (w ! 3071) (w ! 3070)" for w by (simp add: stored_crc16_def)
  have be: "be16 h l = be16 h' l' \<longleftrightarrow> h = h' \<and> l = l'" for h l h' l' :: u8
    by (metis hi8_be16 lo8_be16)
  consider "i + 1 < crc_off" | "i = 3069" | "i = 3070" using assms(2) by fastforce
  then show ?thesis
  proof cases
    case 1
    then show ?thesis using data_damage [OF len 1 assms(3,4)] fits by auto
  next
    case 2
    show ?thesis
    proof (cases "x = img ! 3069")
      case True
      then have "computed_crc16 img' = computed_crc16 img" "y \<noteq> img ! 3070"
        using assms(3,4) 2 len by (auto simp: computed_crc16_def list_update_id)
      moreover have "stored_crc16 img' \<noteq> stored_crc16 img"
        using \<open>y \<noteq> img ! 3070\<close> assms(3) 2 len by (simp add: stored be)
      moreover have "x \<noteq> img ! 3069 XOR 0x89"
        using True by (metis xor_0x89)
      ultimately show ?thesis using fits by simp
    next
      case False
      then show ?thesis using border_damage [OF len fits, of img' x y] assms(3) 2 by simp
    qed
  next
    case 3
    then have "computed_crc16 img' = computed_crc16 img"
      using assms(3) by (simp add: computed_crc16_def)
    moreover have "stored_crc16 img' \<noteq> stored_crc16 img"
      using assms(3,4) 3 len by (auto simp: stored be list_update_id)
    ultimately show ?thesis using fits 3 by simp
  qed
qed

text \<open>
  C35: A configuration in flash with one byte changed, or two neighbouring ones, the checksum
  included, is not used at the next boot: the factory settings replace it, in RAM with a fitting
  checksum and in flash. One damage of all passes the check and is loaded as it is: the
  last byte of the data changed by 0x89 together with the first of the checksum by 0xA1.
\<close>

theorem cfg_load_detects_damage:
  assumes "valid_image img" and "i + 1 < syscfg_len" and "cfg_flash c = img[i := x, i + 1 := y]"
    and "cfg_flash c \<noteq> img" and "cfg_load store False d c = c'"
  shows "if i = 3069 \<and> x = img ! 3069 XOR 0x89 \<and> y = img ! 3070 XOR 0xA1
    then sys_cfg c' = cfg_flash c
    else take crc_off (sys_cfg c') = take crc_off (default_image d) \<and> valid_image (sys_cfg c') \<and>
      cfg_flash c' = store (sys_cfg c')"
  using damage_detected [OF assms(1-4)] assms(5)
  by (auto simp: cfg_load_def cfg_save_plain_def cfg_write_def Let_def crc_fields valid_put_crc16)

theorem cfg_load_detects_damage_witness:
  "take crc_off (sys_cfg (cfg_load id False sample_defaults
     (blank_config\<lparr>cfg_flash := (sys_cfg (cfg_write id blank_config))[0 := 1, 0 + 1 := 2]\<rparr>))) =
   take crc_off (default_image sample_defaults)"
proof -
  let ?z = "replicate 3072 0 :: bytes"
  let ?img = "put_crc16 (computed_crc16 ?z) ?z"
  have z: "sys_cfg blank_config = ?z" "length ?z = syscfg_len"
    by (simp_all only: blank_config_def config.simps length_replicate)
  have img: "sys_cfg (cfg_write id blank_config) = ?img" by (simp add: cfg_write_def Let_def z(1))
  have v: "valid_image ?img" by (rule valid_put_crc16 [OF z(2)])
  have "?img ! 0 = 0" by (simp add: put_crc16_def put_bytes_def nth_append)
  moreover have "0 < length ?img" using v by (simp add: valid_image_def)
  ultimately have "?img[0 := 1, 0 + 1 := 2] \<noteq> ?img"
    by (metis One_nat_def add_0 n_not_Suc_n nth_list_update_eq nth_list_update_neq one_neq_zero)
  from cfg_load_detects_damage [OF v _ _ _ refl, of 0 "blank_config\<lparr>cfg_flash := ?img[0 := 1, 0 + 1 := 2]\<rparr>" 1 2]
    this show ?thesis
    unfolding img by simp
qed

section \<open>Setting network name and password\<close>

lemma takeWhile_neq: "d \<notin> set t \<Longrightarrow> takeWhile (\<lambda>c. c \<noteq> d) (t @ d # r) = t"
  and dropWhile_neq: "d \<notin> set t \<Longrightarrow> dropWhile (\<lambda>c. c \<noteq> d) (t @ d # r) = d # r"
  and takeWhile_all: "d \<notin> set t \<Longrightarrow> takeWhile (\<lambda>c. c \<noteq> d) t = t"
  and dropWhile_all: "d \<notin> set t \<Longrightarrow> dropWhile (\<lambda>c. c \<noteq> d) t = []"
  by (induction t) auto

lemma strtok_r_start: "t \<noteq> [] \<Longrightarrow> d \<notin> set t \<Longrightarrow> dropWhile (\<lambda>c. c = d) (t @ r) = t @ r"
  by (cases t) auto

lemma strtok_r_single: "t \<noteq> [] \<Longrightarrow> d \<notin> set t \<Longrightarrow> strtok_r d t = Some (t, [])"
  using strtok_r_start [of t d "[]"] by (simp add: strtok_r_def takeWhile_all dropWhile_all)

lemma strtok_r_first: "t \<noteq> [] \<Longrightarrow> d \<notin> set t \<Longrightarrow> strtok_r d (t @ d # r) = Some (t, r)"
  by (simp add: strtok_r_def strtok_r_start takeWhile_neq dropWhile_neq)

lemma length_set_field64:
  "length img = n \<Longrightarrow> off + 64 \<le> n \<Longrightarrow> m \<le> 64 \<Longrightarrow> length (set_field64 v m off img) = n"
  unfolding set_field64_def by (intro image_keeps) simp_all

lemma sub_bytes_set_field64:
  assumes "off + 64 \<le> length img" and "m \<le> 64"
  shows "sub_bytes (set_field64 v m off img) off 64 = take m v @ replicate (64 - min m (length v)) 0"
  using assms by (simp add: set_field64_def sub_bytes_def put_bytes_def min_def)

lemma set_field64_outside:
  assumes "off + 64 \<le> length img" and "m \<le> 64"
  shows "take off (set_field64 v m off img) = take off img"
    and "off + 64 \<le> n \<Longrightarrow> drop n (set_field64 v m off img) = drop n img"
proof -
  have cleared: "length (put_bytes img off (replicate 64 0)) = length img" using assms(1) by simp
  show "take off (set_field64 v m off img) = take off img"
    using assms by (simp add: set_field64_def take_put_bytes_le)
  assume "off + 64 \<le> n"
  have drop_put: "drop n (put_bytes buf off xs) = drop n buf"
    if "off + length xs \<le> n" "off + length xs \<le> length buf" for buf and xs :: bytes
    using that by (simp add: put_bytes_def drop_append)
  have "drop n (set_field64 v m off img) = drop n (put_bytes img off (replicate 64 0))"
    unfolding set_field64_def by (rule drop_put) (use assms \<open>off + 64 \<le> n\<close> cleared in simp_all)
  also have "\<dots> = drop n img" by (rule drop_put) (use assms \<open>off + 64 \<le> n\<close> in simp_all)
  finally show "drop n (set_field64 v m off img) = drop n img" .
qed

lemma takeWhile_zeroes: "0 \<notin> set v \<Longrightarrow> takeWhile (\<lambda>b. b \<noteq> 0) (v @ replicate n (0::u8)) = v"
  by (cases n) (simp_all add: takeWhile_neq takeWhile_all)

lemma field_string_set_field64:
  assumes "off + 64 \<le> length img" and "m \<le> 64" and "length v \<le> m" and "0 \<notin> set v"
  shows "field_string (set_field64 v m off img) off 64 = v"
  using assms by (simp add: field_string_def sub_bytes_set_field64 takeWhile_zeroes)

lemma strncmp_short: "length v < n \<Longrightarrow> strncmp_eq s v n \<longleftrightarrow> s = v"
  by (cases "length s < n") (auto simp: strncmp_eq_def)

lemma escaped_tokens:
  assumes "s \<noteq> []"
  shows "query_escaped s \<noteq> []" and "strtok_r 0x3D (query_escaped s) = Some (query_escaped s, [])"
proof -
  show "query_escaped s \<noteq> []" using assms by (cases s) (auto simp: query_escaped_def)
  then show "strtok_r 0x3D (query_escaped s) = Some (query_escaped s, [])"
    using escaped_no_specials [of s] by (intro strtok_r_single) auto
qed

lemma ssid_key_value:
  assumes "set k \<inter> {0x3D} = {}" and "k \<noteq> []"
  shows "strtok_r 0x3D (k @ 0x3D # r) = Some (k, r)"
  using assms by (intro strtok_r_first) auto

lemma ssid_token:
  assumes "s \<noteq> []" and "0x25 \<notin> set s" and "0 \<notin> set s" and "length s < 31"
    and "length (query_escaped s) < 91" and "length (sys_cfg c) = syscfg_len"
    and "c' = ssid_pwd_token (ascii ''ssid'' @ 0x3D # query_escaped s) c"
  shows "field_string (sys_cfg c') sta_ssid_off 64 = s" and "length (sys_cfg c') = syscfg_len"
    and "take sta_ssid_off (sys_cfg c') = take sta_ssid_off (sys_cfg c)"
    and "drop sta_pwd_off (sys_cfg c') = drop sta_pwd_off (sys_cfg c)"
proof -
  have k: "strtok_r 0x3D (ascii ''ssid'' @ 0x3D # query_escaped s) = Some (ascii ''ssid'', query_escaped s)"
    by (rule ssid_key_value) (simp_all add: ascii_def)
  have "take 511 (ascii ''ssid'' @ 0x3D # query_escaped s) = ascii ''ssid'' @ 0x3D # query_escaped s"
    using assms(5) by simp
  then have c': "c' = (if field_string (sys_cfg c) sta_ssid_off 64 \<noteq> s
      then c\<lparr>sys_cfg := set_field64 s 31 sta_ssid_off (sys_cfg c)\<rparr> else c)"
    using k escaped_tokens [OF assms(1)] query_string_unescape_escaped [OF assms(2)] assms(4)
    by (simp add: assms(7) ssid_pwd_token_def Let_def strncmp_short)
  show "length (sys_cfg c') = syscfg_len"
    using assms(6) by (auto simp: c' length_set_field64)
  show "field_string (sys_cfg c') sta_ssid_off 64 = s"
    using assms(3,4,6) by (auto simp: c' field_string_set_field64)
  show "take sta_ssid_off (sys_cfg c') = take sta_ssid_off (sys_cfg c)"
    and "drop sta_pwd_off (sys_cfg c') = drop sta_pwd_off (sys_cfg c)"
    using assms(6) by (simp_all add: c' set_field64_outside)
qed

lemma pwd_token:
  assumes "s \<noteq> []" and "0x25 \<notin> set s" and "0 \<notin> set s" and "length s < 63"
    and "length (query_escaped s) < 91" and "length (sys_cfg c) = syscfg_len"
    and "c' = ssid_pwd_token (ascii ''pwd'' @ 0x3D # query_escaped s) c"
  shows "field_string (sys_cfg c') sta_pwd_off 64 = s" and "length (sys_cfg c') = syscfg_len"
    and "take sta_pwd_off (sys_cfg c') = take sta_pwd_off (sys_cfg c)"
    and "drop sta_type_off (sys_cfg c') = drop sta_type_off (sys_cfg c)"
proof -
  have k: "strtok_r 0x3D (ascii ''pwd'' @ 0x3D # query_escaped s) = Some (ascii ''pwd'', query_escaped s)"
    by (rule ssid_key_value) (simp_all add: ascii_def)
  have "take 511 (ascii ''pwd'' @ 0x3D # query_escaped s) = ascii ''pwd'' @ 0x3D # query_escaped s"
    using assms(5) by simp
  moreover have "\<not> strncmp_eq (ascii ''pwd'') (ascii ''ssid'') 512" by (simp add: ascii_def strncmp_eq_def)
  ultimately have c': "c' = (if field_string (sys_cfg c) sta_pwd_off 64 \<noteq> s
      then c\<lparr>sys_cfg := set_field64 s 63 sta_pwd_off (sys_cfg c)\<rparr> else c)"
    using k escaped_tokens [OF assms(1)] query_string_unescape_escaped [OF assms(2)] assms(4)
    by (simp add: assms(7) ssid_pwd_token_def Let_def strncmp_short)
  show "length (sys_cfg c') = syscfg_len"
    using assms(6) by (auto simp: c' length_set_field64)
  show "field_string (sys_cfg c') sta_pwd_off 64 = s"
    using assms(3,4,6) by (auto simp: c' field_string_set_field64)
  show "take sta_pwd_off (sys_cfg c') = take sta_pwd_off (sys_cfg c)"
    and "drop sta_type_off (sys_cfg c') = drop sta_type_off (sys_cfg c)"
    using assms(6) by (simp_all add: c' set_field64_outside)
qed

lemma field_string_take:
  "off + n \<le> m \<Longrightarrow> take m a = take m b \<Longrightarrow> field_string a off n = field_string b off n"
proof -
  assume "off + n \<le> m" "take m a = take m b"
  have "take n (drop off x) = drop off (take (off + n) (take m x))" for x :: bytes
    using \<open>off + n \<le> m\<close> by (simp add: take_drop add.commute)
  with \<open>take m a = take m b\<close> show ?thesis by (simp only: field_string_def sub_bytes_def)
qed

text \<open>
  The query \<open>ssid=..&pwd=..\<close> of at most 95 bytes, with name and password escaped by
  \<open>query_string_escape\<close>, sets both fields to exactly the name and the password and leaves every
  other byte of the configuration before the checksum as it was; with a flash that reads back
  what was written this is what is saved.
\<close>

theorem ssid_pwd_are_set:
  assumes "s \<noteq> []" and "0x25 \<notin> set s" and "0 \<notin> set s" and "length s < 31"
    and "p \<noteq> []" and "0x25 \<notin> set p" and "0 \<notin> set p" and "length p < 63"
    and "query = ascii ''ssid='' @ query_escaped s @ ascii ''&pwd='' @ query_escaped p" and "length query \<le> 95"
    and "length (sys_cfg c) = syscfg_len"
    and "cfg_save_ssid_pwd id False d query c = (ok, crcs, c')"
  shows "ok \<and> field_string (sys_cfg c') sta_ssid_off 64 = s \<and> field_string (sys_cfg c') sta_pwd_off 64 = p \<and>
    take sta_ssid_off (sys_cfg c') = take sta_ssid_off (sys_cfg c) \<and>
    take (crc_off - sta_type_off) (drop sta_type_off (sys_cfg c')) =
      take (crc_off - sta_type_off) (drop sta_type_off (sys_cfg c)) \<and>
    cfg_flash c' = sys_cfg c' \<and> valid_image (sys_cfg c')"
proof -
  define c1 where "c1 = ssid_pwd_token (ascii ''ssid'' @ 0x3D # query_escaped s) c"
  define c2 where "c2 = ssid_pwd_token (ascii ''pwd'' @ 0x3D # query_escaped p) c1"
  have len: "length (query_escaped s) < 91" "length (query_escaped p) < 91" using assms(9,10) by simp_all
  note t1 = ssid_token [OF assms(1-4) len(1) assms(11) c1_def]
  note t2 = pwd_token [OF assms(5-8) len(2) t1(2) c2_def]
  have "query = (ascii ''ssid'' @ 0x3D # query_escaped s) @ 0x26 # (ascii ''pwd'' @ 0x3D # query_escaped p)"
    by (simp add: assms(9) ascii_def)
  moreover have "take 95 query = query" using assms(10) by simp
  moreover have free: "0x26 \<notin> set (ascii ''ssid'' @ 0x3D # query_escaped s)" "0x26 \<notin> set (ascii ''pwd'' @ 0x3D # query_escaped p)"
    using escaped_no_specials [of s] escaped_no_specials [of p] by (simp_all add: ascii_def)
  have one: "ssid_pwd_tokens (ascii ''pwd'' @ 0x3D # query_escaped p) x = ssid_pwd_token (ascii ''pwd'' @ 0x3D # query_escaped p) x" for x
    by (simp add: ssid_pwd_tokens.simps strtok_r_single [OF _ free(2)] strtok_r_def [of _ "[]"] ssid_pwd_tokens.simps [of "[]"])
  ultimately have tokens: "ssid_pwd_tokens (take 95 query) c = c2"
    by (simp only: ssid_pwd_tokens.simps [of "_ @ 0x26 # _"] strtok_r_first [OF _ free(1)] option.case prod.case
        append_is_Nil_conv list.distinct simp_thms c1_def [symmetric] one c2_def)
  have "take sta_pwd_off (sys_cfg c2) = take sta_pwd_off (sys_cfg c1)" by (rule t2(3))
  then have f: "field_string (sys_cfg c2) sta_ssid_off 64 = s"
    using field_string_take [of sta_ssid_off 64 sta_pwd_off "sys_cfg c2" "sys_cfg c1"] t1(1) by simp
  have img: "ok" "sys_cfg c' = put_crc16 (computed_crc16 (sys_cfg c2)) (sys_cfg c2)" "cfg_flash c' = sys_cfg c'"
    "valid_image (sys_cfg c')"
    using assms(12) tokens t2(2)
    by (auto simp: cfg_save_ssid_pwd_def cfg_save_def cfg_load_def cfg_write_def Let_def crc_fields valid_put_crc16)
  have tk: "take crc_off (sys_cfg c') = take crc_off (sys_cfg c2)" using t2(2) by (simp only: img(2) crc_fields)
  have head: "take sta_ssid_off (sys_cfg c') = take sta_ssid_off (sys_cfg c)"
  proof -
    have "take sta_ssid_off (sys_cfg c') = take sta_ssid_off (sys_cfg c2)"
      using arg_cong [OF tk, of "take sta_ssid_off"] by simp
    also have "\<dots> = take sta_ssid_off (sys_cfg c1)"
      using arg_cong [OF t2(3), of "take sta_ssid_off"] by simp
    finally show ?thesis using t1(3) by simp
  qed
  have tail: "take (crc_off - sta_type_off) (drop sta_type_off (sys_cfg c')) =
      take (crc_off - sta_type_off) (drop sta_type_off (sys_cfg c))"
  proof -
    have "drop sta_type_off (sys_cfg c1) = drop sta_type_off (sys_cfg c)"
      using arg_cong [OF t1(4), of "drop 64"] by simp
    then show ?thesis
      using arg_cong [OF tk, of "drop sta_type_off"] t2(4) by (simp add: drop_take)
  qed
  have "take sta_type_off (sys_cfg c') = take sta_type_off (sys_cfg c2)"
    using arg_cong [OF tk, of "take sta_type_off"] by simp
  then have "field_string (sys_cfg c') sta_ssid_off 64 = s" "field_string (sys_cfg c') sta_pwd_off 64 = p"
    using f t2(1) field_string_take [of sta_ssid_off 64 sta_type_off "sys_cfg c'" "sys_cfg c2"]
      field_string_take [of sta_pwd_off 64 sta_type_off "sys_cfg c'" "sys_cfg c2"] by simp_all
  with head tail img show ?thesis by simp
qed

theorem ssid_pwd_are_set_witness:
  "\<exists>ok crcs c'. cfg_save_ssid_pwd id False sample_defaults (ascii ''ssid=my%26net&pwd=secret'') blank_config = (ok, crcs, c') \<and>
     field_string (sys_cfg c') sta_ssid_off 64 = ascii ''my&net'' \<and> field_string (sys_cfg c') sta_pwd_off 64 = ascii ''secret''"
proof -
  obtain ok crcs c' where s: "cfg_save_ssid_pwd id False sample_defaults (ascii ''ssid=my%26net&pwd=secret'') blank_config = (ok, crcs, c')"
    by (rule prod_cases3)
  have c: "length (sys_cfg blank_config) = syscfg_len" by (simp only: blank_config_def config.simps length_replicate)
  have "ascii ''ssid=my%26net&pwd=secret'' =
    ascii ''ssid='' @ query_escaped (ascii ''my&net'') @ ascii ''&pwd='' @ query_escaped (ascii ''secret'')"
    by (simp add: ascii_def query_escaped_def)
  from ssid_pwd_are_set [OF _ _ _ _ _ _ _ _ this _ c s] s show ?thesis
    by (auto simp: ascii_def)
qed

section \<open>The layout is kept\<close>

definition cfg_ok :: "config \<Rightarrow> bool" where
  "cfg_ok c \<longleftrightarrow> length (sys_cfg c) = syscfg_len \<and> length (cfg_flash c) = syscfg_len"

definition keeps_size :: "(bytes \<Rightarrow> bytes) \<Rightarrow> bool" where
  "keeps_size store \<longleftrightarrow> (\<forall>img. length (store img) = length img)"

lemma cfg_write_ok: "keeps_size store \<Longrightarrow> length (sys_cfg c) = syscfg_len \<Longrightarrow> cfg_ok (cfg_write store c)"
  by (simp add: cfg_ok_def cfg_write_def keeps_size_def Let_def)

lemma cfg_save_plain_ok: "keeps_size store \<Longrightarrow> cfg_ok c \<Longrightarrow> cfg_ok (snd (cfg_save_plain store b c))"
  using cfg_write_ok [of store c] by (auto simp: cfg_save_plain_def cfg_ok_def)

lemma cfg_load_ok: "keeps_size store \<Longrightarrow> cfg_ok c \<Longrightarrow> cfg_ok (cfg_load store b d c)"
  using cfg_save_plain_ok [of store "c\<lparr>sys_cfg := default_image d\<rparr>" b]
  by (simp add: cfg_load_def Let_def) (simp add: cfg_ok_def)

lemma cfg_save_ok:
  assumes "keeps_size store" and "cfg_ok c"
  shows "cfg_ok (snd (snd (cfg_save store b d c)))"
proof -
  have "cfg_ok (cfg_write store c)" using assms by (intro cfg_write_ok) (simp_all add: cfg_ok_def)
  with assms cfg_load_ok [OF assms(1) this] show ?thesis by (simp add: cfg_save_def Let_def)
qed

lemma ssid_pwd_token_ok: "cfg_ok c \<Longrightarrow> cfg_ok (ssid_pwd_token str c)"
  by (auto simp: ssid_pwd_token_def cfg_ok_def Let_def length_set_field64 split: option.split)

lemma ssid_pwd_tokens_ok: "cfg_ok c \<Longrightarrow> cfg_ok (ssid_pwd_tokens rest c)"
proof (induction rest c rule: ssid_pwd_tokens.induct)
  case (1 rest c)
  then show ?case
    by (cases "strtok_r 0x26 rest") (auto simp: ssid_pwd_tokens.simps [of rest c] ssid_pwd_token_ok)
qed

lemma hex_convert_length: "i + n \<le> length out \<Longrightarrow> length (hex_convert hex i n out) = length out"
  by (induction hex i n out rule: hex_convert.induct) (simp_all add: Let_def)

lemma cfg_save_key_cases:
  assumes "cfg_save_key store b key_hex_str c = (ok, c')" and "cfg_ok c"
  obtains "\<not> ok" and "c' = c"
  | s k where "key_hex_str = Some s" "length s = 32" "hex_to_bytes (Some s) (Some (sub_bytes (sys_cfg c) key_off 16)) 16 = (True, Some k)"
    "length k = 16" "(ok, c') = cfg_save_plain store b (c\<lparr>sys_cfg := put_bytes (sys_cfg c) key_off k\<rparr>)"
  using assms
  by (auto simp: cfg_save_key_def hex_to_bytes_def cfg_ok_def hex_convert_length split: option.splits if_splits)

lemma cfg_save_key_ok:
  assumes "cfg_save_key store b key_hex_str c = (ok, c')" and "keeps_size store" and "cfg_ok c"
  shows "cfg_ok c'"
  using assms(1,3)
proof (cases rule: cfg_save_key_cases)
  case (2 s k)
  have "cfg_ok (c\<lparr>sys_cfg := put_bytes (sys_cfg c) key_off k\<rparr>)"
    using assms(3) 2(4) by (simp add: cfg_ok_def)
  from cfg_save_plain_ok [OF assms(2) this, of b] show ?thesis
    unfolding 2(5) [symmetric] by simp
qed (use assms(3) in simp)

lemma cfg_save_key_stores:
  assumes "cfg_save_key store b (Some (hex_of k)) c = (True, c')" and "cfg_ok c" and "length k = 16"
  shows "sub_bytes (sys_cfg c') key_off 16 = k"
  using assms(1,2)
proof (cases rule: cfg_save_key_cases)
  case (2 s k')
  have "length (sub_bytes (sys_cfg c) key_off 16) = 16" using assms(2) by (simp add: cfg_ok_def)
  then have "k' = k"
    using 2 assms(3) hex_convert_hex_of [of 0 16 k "sub_bytes (sys_cfg c) key_off 16" "[]"]
    by (auto simp: hex_to_bytes_def split: if_splits)
  define c1 where "c1 = c\<lparr>sys_cfg := put_bytes (sys_cfg c) key_off k\<rparr>"
  have len: "length (sys_cfg c1) = syscfg_len" using assms(2,3) by (simp add: c1_def cfg_ok_def)
  have "c' = cfg_write store c1" using 2(5) \<open>k' = k\<close> by (simp add: c1_def cfg_save_plain_def split: if_splits)
  then have "sub_bytes (sys_cfg c') key_off 16 = sub_bytes (sys_cfg c1) key_off 16"
    using len by (simp add: cfg_write_def put_crc16_def sub_bytes_put_bytes_other Let_def)
  also have "\<dots> = k"
    using assms(2,3) sub_bytes_put_bytes_same [of key_off k "sys_cfg c"] by (simp add: c1_def cfg_ok_def)
  finally show ?thesis .
qed simp

text \<open>
  Every operation keeps the configuration in RAM and in flash at its 3072 bytes, so that
  every field stays at its place, provided the flash stores blocks without changing their size; a
  key whose saving succeeds fills exactly its sixteen bytes.
\<close>

theorem cfg_operations_keep_layout:
  assumes "keeps_size store" and "cfg_ok c"
  shows "cfg_ok (snd (cfg_save_plain store b c)) \<and> cfg_ok (cfg_load store b d c) \<and>
    cfg_ok (snd (snd (cfg_save store b d c))) \<and> cfg_ok (cfg_save_defered b c) \<and>
    cfg_ok (config_save_timer_func store b c) \<and> cfg_ok (snd (snd (cfg_save_ssid_pwd store b d query c))) \<and>
    cfg_ok (snd (cfg_save_key store b key_hex_str c)) \<and>
    (\<forall>k c'. length k = 16 \<longrightarrow> cfg_save_key store b (Some (hex_of k)) c = (True, c') \<longrightarrow>
       sub_bytes (sys_cfg c') key_off 16 = k)"
proof (intro conjI)
  have "cfg_ok (c\<lparr>config_save_timer := False, config_save_timer_running := False\<rparr>)" "cfg_ok (c\<lparr>config_save_timer := True\<rparr>)"
    using assms(2) by (simp_all add: cfg_ok_def)
  then show "cfg_ok (config_save_timer_func store b c)" "cfg_ok (cfg_save_defered b c)"
    using assms cfg_save_plain_ok by (simp_all add: config_save_timer_func_def cfg_save_defered_def)
  show "cfg_ok (snd (cfg_save_key store b key_hex_str c))"
    using cfg_save_key_ok [OF surjective_pairing assms] .
  show "cfg_ok (snd (snd (cfg_save_ssid_pwd store b d query c)))"
    unfolding cfg_save_ssid_pwd_def using assms by (intro cfg_save_ok ssid_pwd_tokens_ok)
qed (use assms cfg_save_key_stores in \<open>auto intro: cfg_save_plain_ok cfg_load_ok cfg_save_ok\<close>)

theorem cfg_operations_keep_layout_witness:
  "cfg_ok (snd (cfg_save_key id False (Some (ascii ''000102030405060708090a0b0c0d0e0f'')) (cfg_write id blank_config)))"
proof -
  have "length (sys_cfg blank_config) = syscfg_len" by (simp only: blank_config_def config.simps length_replicate)
  then have "cfg_ok (cfg_write id blank_config)" by (intro cfg_write_ok) (simp_all add: keeps_size_def)
  from cfg_operations_keep_layout [OF _ this] show ?thesis by (simp add: keeps_size_def)
qed

end
