(* ===== verification/MqttRpc.thy ===== *)
theory MqttRpc
  imports MqttClient Config AcOut UnixTime Crypto Tinyprintf "HOL-Library.State_Monad"
begin

text \<open>
  \<open>user/mqtt_rpc.c\<close>: the procedures a remote command calls, and the encrypted answers. A procedure
  is a state transformer over the device (\<open>State_Monad\<close>); what it asks of the MQTT client, the WiFi
  code and the SDK is appended to \<open>dev_out\<close>, a call of the client as the \<open>api_call\<close> of MqttClient. What
  the SDK answers is the environment \<open>rpc_env\<close>.
\<close>

section \<open>Device and environment\<close>

datatype led_call = LedOn | LedPatternB | LedPatternC | LedPatternD | LedStopPattern

datatype main_timer =
    SampleTimerFirst
  | SampleTimer
  | ConfigModeTimer
  | SampleModeTimer
  | FirstRpcTimer
  | ConnectedDeferTimer
  | WifiTestReportTimer
  | CsaReportTimer
  | KmpRequestSendTimer
  | FallbackApTimer
  | RestartAckTimer
  | WifiDefaultTimer

datatype rpc_event =
    Call api_call
  | OutOfBounds
  | SetOpmode opmode
  | SoftapSettings bytes bytes
  | SoftapIpConfig
  | ScanCallback
  | StartScanLong
  | StopScan
  | Led led_call
  | WifiTestSsidPwd bytes bytes u32
  | ArmTimer main_timer u32
  | ArmTimerRepeat main_timer u32
  | DisarmTimer main_timer
  | CallWifiDefault
  | DestroyKmpRequest
  | RestartDefered
  | LedOfAc ac_event
  | KmpRequestSend
  | KmpSetMqttClient
  | ResetWatchdog u32
  | AddWatchdog u32 watchdog_type u32
  | HttpdStart
  | HttpdStop
  | CaptdnsStart
  | CaptdnsStop
  | InitConnection bytes u32 u8
  | InitClient bytes bytes bytes u32 u8
  | InitLWT bytes bytes
  | RegisterCallbacks
  | WifiConnect
  | StationDisconnect
  | WifiInitNapt
  | WatchdogInit
  | KmpRequestInit
  | CronInit
  | SystemInitDone
  | IcmpPingInit

record rst_info_t =
  rst_reason :: u32
  rst_exccause :: u32
  rst_epc1 :: u32
  rst_epc2 :: u32
  rst_epc3 :: u32
  rst_excvaddr :: u32
  rst_depc :: u32

record device =
  dev_out :: "rpc_event list"
  dev_cfg :: config
  dev_keys :: crypto
  dev_ivs :: nat
  dev_cron :: cron
  dev_ac :: ac_out
  dev_time :: unix_time
  dev_serial :: u32
  dev_energy_kwh :: u32
  dev_ota_in_progress :: bool
  dev_fallback_ap :: bool
  dev_opmode :: opmode
  dev_pcon :: bool
  dev_mesh_ssid :: bytes
  dev_flash_rom :: u8
  dev_running_rom :: u8
  dev_temp_boot :: bool
  dev_rpc_state :: u8
  dev_first_connect :: bool
  dev_fast_boot :: bool
  dev_fallback_mqtt :: bool
  dev_csa_flag :: bool
  dev_test_pending :: bool

type_synonym 'a rpc = "(device, 'a) state"

record rpc_env =
  sntp_now :: u32
  random_iv :: "nat \<Rightarrow> bytes"
  flash_store :: "bytes \<Rightarrow> bytes"
  factory :: defaults
  ac_options :: ac_config
  sdk_version :: bytes
  fw_version :: bytes
  lwip_version :: bytes
  hw_model :: bytes
  vdd_volt :: double_arg
  wifi_rssi :: u32
  station_ssid :: bytes
  disconnects :: u32
  ping_times :: "(double_arg \<times> double_arg) option"
  wifi_reason :: bytes
  free_heap :: u32
  chip_id :: u32
  jedec_id :: u32
  rst_info :: "rst_info_t option"
  rtc_watchdog_rebooted :: "u32 option"
  start_ota :: "bytes \<Rightarrow> bytes option \<Rightarrow> bytes option \<Rightarrow> (bool \<times> u8 option) rpc"
  stack_crcs :: "u16 \<times> u16"
  stack_message :: bytes
  stack_name :: bytes
  fallback_active :: bool
  csa_calls :: u32
  test_result :: "bool \<times> bytes \<times> u32 \<times> bytes \<times> u32"
  mqtt_init_ok :: bool
  ota_fw :: bool
  ap_password :: bytes

abbreviation STA_FALLBACK_SSID :: bytes where "STA_FALLBACK_SSID \<equiv> ascii ''stofferFon''"
abbreviation STA_FALLBACK_PASS :: bytes where "STA_FALLBACK_PASS \<equiv> ascii ''w1reless''"

definition get_dev :: "(device \<Rightarrow> 'a) \<Rightarrow> 'a rpc" where
  "get_dev f = do { d \<leftarrow> State_Monad.get; State_Monad.return (f d) }"

definition event :: "rpc_event \<Rightarrow> unit rpc" where
  "event e = State_Monad.update (\<lambda>d. d\<lparr>dev_out := dev_out d @ [e]\<rparr>)"

definition skip :: "unit rpc" where
  "skip = State_Monad.return ()"

definition events :: "rpc_event list \<Rightarrow> unit rpc" where
  "events es = State_Monad.update (\<lambda>d. d\<lparr>dev_out := dev_out d @ es\<rparr>)"

text \<open>\<open>tfp_snprintf (buf, n, f, ...)\<close> into a cleared buffer, as the string it leaves.\<close>

definition sprint :: "nat \<Rightarrow> string \<Rightarrow> fmt_arg list \<Rightarrow> bytes" where
  "sprint n f args = (case tfp_format fresh_param (ascii f) args of None \<Rightarrow> [] | Some out \<Rightarrow> take (n - 1) out)"

definition unix_time_now :: "rpc_env \<Rightarrow> u64 rpc" where
  "unix_time_now env = do {
     d \<leftarrow> State_Monad.get;
     let (t, s) = get_unix_time (sntp_now env) (dev_time d);
     State_Monad.set (d\<lparr>dev_time := s\<rparr>);
     State_Monad.return t
   }"

definition uptime_now :: "rpc_env \<Rightarrow> u64 rpc" where
  "uptime_now env = do {
     d \<leftarrow> State_Monad.get;
     let (t, s) = get_uptime (sntp_now env) (dev_time d);
     State_Monad.set (d\<lparr>dev_time := s\<rparr>);
     State_Monad.return t
   }"

text \<open>The topic of an answer, and its encryption and publication with QoS 2.\<close>

definition reply_topic :: "rpc_env \<Rightarrow> string \<Rightarrow> bytes rpc" where
  "reply_topic env name = do {
     serial \<leftarrow> get_dev dev_serial;
     t \<leftarrow> unix_time_now env;
     State_Monad.return (sprint 128 (''/'' @ name @ ''/v2/%07u/%llu'') [Arg32 serial, Arg64 t])
   }"

definition encrypt_now :: "rpc_env \<Rightarrow> bytes \<Rightarrow> bytes \<Rightarrow> (bytes \<times> nat) rpc" where
  "encrypt_now env topic cleartext = do {
     d \<leftarrow> State_Monad.get;
     let (keys, msg, l) = encrypt_aes_hmac_combined (dev_keys d) (random_iv env (dev_ivs d)) (replicate 576 0)
                            topic (cleartext @ [0]);
     State_Monad.set (d\<lparr>dev_keys := keys, dev_ivs := dev_ivs d + 1\<rparr>);
     State_Monad.return (msg, l)
   }"

definition publish :: "bytes \<Rightarrow> bytes \<times> nat \<Rightarrow> unit rpc" where
  "publish topic r = (case r of (msg, l) \<Rightarrow> event (Call (ApiPublish (Some topic) (Some (take l msg)) (int l) 2 0)))"

definition send_reply :: "rpc_env \<Rightarrow> bytes \<Rightarrow> bytes \<Rightarrow> unit rpc" where
  "send_reply env topic cleartext = do { r \<leftarrow> encrypt_now env topic cleartext; publish topic r }"

definition reply :: "rpc_env \<Rightarrow> string \<Rightarrow> bytes \<Rightarrow> unit rpc" where
  "reply env name cleartext = do { topic \<leftarrow> reply_topic env name; send_reply env topic cleartext }"

section \<open>Configuration, time and outputs in the device\<close>

definition field64 :: "nat \<Rightarrow> device \<Rightarrow> bytes" where
  "field64 off d = field_string (sys_cfg (dev_cfg d)) off 64"

definition set_image :: "(bytes \<Rightarrow> bytes) \<Rightarrow> unit rpc" where
  "set_image f = State_Monad.update (\<lambda>d. d\<lparr>dev_cfg := (dev_cfg d)\<lparr>sys_cfg := f (sys_cfg (dev_cfg d))\<rparr>\<rparr>)"

text \<open>\<open>mqtt_flash_error\<close> of \<open>user_main.c\<close>: the report that the flash did not keep the configuration.\<close>

definition mqtt_flash_error :: "rpc_env \<Rightarrow> u16 \<Rightarrow> u16 \<Rightarrow> unit rpc" where
  "mqtt_flash_error env calculated_crc saved_crc = do {
     topic \<leftarrow> reply_topic env ''flash_error'';
     r \<leftarrow> encrypt_now env topic
            (sprint 512 ''calculated_crc=0x%x&saved_crc=0x%x'' [Arg32 (ucast calculated_crc), Arg32 (ucast saved_crc)]);
     pcon \<leftarrow> get_dev dev_pcon;
     if pcon then publish topic r else skip
   }"

text \<open>The table of jobs is part of the configuration; its bytes are written back after a change
  and read after the configuration was loaded, as is the state of the valve.\<close>

definition fixed :: "nat \<Rightarrow> bytes \<Rightarrow> bytes" where
  "fixed n s = take n (s @ replicate n 0)"

definition job_bytes :: "cron_job_t \<Rightarrow> bytes" where
  "job_bytes j = fixed 8 (minute j) @ fixed 8 (hour j) @ fixed 8 (day_of_month j) @ fixed 8 (month j) @
     fixed 8 (day_of_week j) @ fixed 32 (command j) @ fixed 96 (command_params j)"

definition cron_bytes :: "cron \<Rightarrow> bytes" where
  "cron_bytes s = of_nat (cron_n s) # concat (map job_bytes (cron_job_list s))"

definition load_job :: "bytes \<Rightarrow> cron_job_t" where
  "load_job b = \<lparr>minute = field_string b 0 8, hour = field_string b 8 8, day_of_month = field_string b 16 8,
     month = field_string b 24 8, day_of_week = field_string b 32 8, command = field_string b 40 32,
     command_params = field_string b 72 96\<rparr>"

definition load_cron :: "bytes \<Rightarrow> cron \<Rightarrow> cron" where
  "load_cron img s =
     s\<lparr>cron_n := unat (img ! cron_jobs_off),
       cron_job_list := map (\<lambda>i. load_job (sub_bytes img (cron_jobs_off + 1 + 168 * i) 168)) [0..<16]\<rparr>"

definition use_config :: "config \<Rightarrow> unit rpc" where
  "use_config c = State_Monad.update (\<lambda>d. d\<lparr>dev_cfg := c,
     dev_ac := (dev_ac d)\<lparr>ac_thermo_state := sys_cfg c ! ac_thermo_state_off\<rparr>, dev_cron := load_cron (sys_cfg c) (dev_cron d)\<rparr>)"

text \<open>\<open>if (!cfg_save (&calculated_crc, &saved_crc)) mqtt_flash_error (calculated_crc, saved_crc);\<close>\<close>

definition save_result :: "rpc_env \<Rightarrow> bool \<times> (u16 \<times> u16) option \<times> config \<Rightarrow> bool rpc" where
  "save_result env r = (case r of (ok, crcs, c) \<Rightarrow> do {
     use_config c;
     (if ok then skip
      else (case (case crcs of None \<Rightarrow> stack_crcs env | Some x \<Rightarrow> x) of (calc, saved) \<Rightarrow> mqtt_flash_error env calc saved));
     State_Monad.return ok
   })"

definition save_or_report :: "rpc_env \<Rightarrow> unit rpc" where
  "save_or_report env = do {
     d \<leftarrow> State_Monad.get;
     _ \<leftarrow> save_result env (cfg_save (flash_store env) (dev_ota_in_progress d) (factory env) (dev_cfg d));
     skip
   }"

text \<open>\<open>if (strncmp (field, s, n) != 0) { memset; strncpy; ... }\<close> on a field of 64 bytes.\<close>

definition change_field :: "nat \<Rightarrow> bytes \<Rightarrow> nat \<Rightarrow> bool rpc" where
  "change_field off s n = do {
     old \<leftarrow> get_dev (field64 off);
     if \<not> strncmp_eq old s n then do { set_image (set_field64 s n off); State_Monad.return True }
     else State_Monad.return False
   }"

text \<open>The valve; its state is the byte \<open>ac_thermo_state\<close> of the configuration.\<close>

definition ac_do :: "(ac_out \<Rightarrow> ac_event list \<times> ac_out) \<Rightarrow> unit rpc" where
  "ac_do f = do {
     d \<leftarrow> State_Monad.get;
     let (evs, a) = f (dev_ac d);
     State_Monad.set (d\<lparr>dev_ac := a, dev_out := dev_out d @ map LedOfAc (filter (\<lambda>e. e \<noteq> ac_event.CfgSaveDefered) evs)\<rparr>);
     set_image (\<lambda>img. img[ac_thermo_state_off := ac_thermo_state a]);
     if ac_event.CfgSaveDefered \<in> set evs
     then State_Monad.update (\<lambda>d. d\<lparr>dev_cfg := cfg_save_defered (dev_ota_in_progress d) (dev_cfg d)\<rparr>)
     else skip
   }"

definition get_le32 :: "bytes \<Rightarrow> nat \<Rightarrow> u32" where
  "get_le32 img off = be32 (img ! (off + 3)) (img ! (off + 2)) (img ! (off + 1)) (img ! off)"

definition offline_close_at :: "device \<Rightarrow> u32" where
  "offline_close_at d = get_le32 (sys_cfg (dev_cfg d)) offline_close_at_off"

definition thermo_text :: "device \<Rightarrow> bytes" where
  "thermo_text d = sprint 512 ''%s'' [ArgStr (if ac_thermo_state (dev_ac d) \<noteq> 0 then ascii ''open'' else ascii ''close'')]"

definition set_opmode :: "opmode \<Rightarrow> unit rpc" where
  "set_opmode m = State_Monad.update (\<lambda>d. d\<lparr>dev_opmode := m, dev_out := dev_out d @ [SetOpmode m]\<rparr>)"

definition softap :: "bytes \<Rightarrow> bytes \<Rightarrow> unit rpc" where
  "softap ssid pwd = events [SoftapSettings ssid pwd, SoftapIpConfig]"

section \<open>Answers with a value\<close>

definition mqtt_rpc_ping :: "rpc_env \<Rightarrow> unit rpc" where
  "mqtt_rpc_ping env = reply env ''ping'' []"

definition mqtt_rpc_version :: "rpc_env \<Rightarrow> unit rpc" where
  "mqtt_rpc_version env = do {
     topic \<leftarrow> reply_topic env ''version'';
     send_reply env topic (sprint 512 ''%s-%s-%s-%s''
       [ArgStr (sdk_version env), ArgStr (fw_version env), ArgStr (lwip_version env), ArgStr (hw_model env)])
   }"

definition mqtt_rpc_uptime :: "rpc_env \<Rightarrow> unit rpc" where
  "mqtt_rpc_uptime env = do {
     topic \<leftarrow> reply_topic env ''uptime'';
     uptime \<leftarrow> uptime_now env;
     send_reply env topic (sprint 512 ''%llu'' [Arg64 uptime])
   }"

definition mqtt_rpc_vdd :: "rpc_env \<Rightarrow> unit rpc" where
  "mqtt_rpc_vdd env = do {
     topic \<leftarrow> reply_topic env ''vdd'';
     send_reply env topic (sprint 8 ''%.3f'' [ArgDouble (vdd_volt env)])
   }"

definition mqtt_rpc_rssi :: "rpc_env \<Rightarrow> unit rpc" where
  "mqtt_rpc_rssi env = do {
     topic \<leftarrow> reply_topic env ''rssi'';
     send_reply env topic (sprint 512 ''%d'' [Arg32 (wifi_rssi env)])
   }"

definition on_fallback_network :: "rpc_env \<Rightarrow> bool" where
  "on_fallback_network env \<longleftrightarrow> strncmp_eq (station_ssid env) STA_FALLBACK_SSID 32"

definition mqtt_rpc_ssid :: "rpc_env \<Rightarrow> unit rpc" where
  "mqtt_rpc_ssid env = do {
     topic \<leftarrow> reply_topic env ''ssid'';
     own \<leftarrow> get_dev (field64 sta_ssid_off);
     send_reply env topic
       (if on_fallback_network env then sprint 512 ''%s'' [ArgStr own] else sprint 512 ''%s'' [ArgStr (station_ssid env)])
   }"

definition mqtt_rpc_scan :: "rpc_env \<Rightarrow> unit rpc" where
  "mqtt_rpc_scan env = do {
     fallback \<leftarrow> get_dev dev_fallback_ap;
     if fallback then skip
     else do { topic \<leftarrow> reply_topic env ''scan''; send_reply env topic []; event ScanCallback }
   }"

definition mqtt_rpc_disconnect_count :: "rpc_env \<Rightarrow> unit rpc" where
  "mqtt_rpc_disconnect_count env = do {
     topic \<leftarrow> reply_topic env ''disconnect_count'';
     send_reply env topic (sprint 512 ''%u'' [Arg32 (disconnects env)])
   }"

definition mqtt_rpc_network_quality :: "rpc_env \<Rightarrow> unit rpc" where
  "mqtt_rpc_network_quality env = do {
     topic \<leftarrow> reply_topic env ''network_quality'';
     send_reply env topic
       (case ping_times env of
          None \<Rightarrow> sprint 512 ''ping_response_time=unknown&ping_average_packet_loss=unknown&disconnect_count=%u''
                    [Arg32 (disconnects env)]
        | Some (time, loss) \<Rightarrow>
            sprint 512 ''ping_response_time=%.3f mS&ping_average_packet_loss=%.2f%%&disconnect_count=%u''
              [ArgDouble time, ArgDouble loss, Arg32 (disconnects env)])
   }"

definition mqtt_rpc_wifi_status :: "rpc_env \<Rightarrow> unit rpc" where
  "mqtt_rpc_wifi_status env = do {
     topic \<leftarrow> reply_topic env ''wifi_status'';
     send_reply env topic
       (if wifi_reason env = ascii ''unknown'' \<or> wifi_reason env = ascii ''none''
        then sprint 512 ''%s'' [ArgStr (ascii ''connected'')]
        else sprint 512 ''%s'' [ArgStr (wifi_reason env)])
   }"

definition mqtt_rpc_ap_status :: "rpc_env \<Rightarrow> unit rpc" where
  "mqtt_rpc_ap_status env = do {
     topic \<leftarrow> reply_topic env ''ap_status'';
     m \<leftarrow> get_dev dev_opmode;
     send_reply env topic (sprint 512 ''%s'' [ArgStr (if m \<noteq> STATION_MODE then ascii ''started'' else ascii ''stopped'')])
   }"

definition mqtt_rpc_fallback_status :: "rpc_env \<Rightarrow> unit rpc" where
  "mqtt_rpc_fallback_status env = do {
     topic \<leftarrow> reply_topic env ''fallback_status'';
     send_reply env topic (if on_fallback_network env then sprint 512 ''active'' [] else sprint 512 ''inactive'' [])
   }"

definition mqtt_rpc_mem :: "rpc_env \<Rightarrow> unit rpc" where
  "mqtt_rpc_mem env = do {
     topic \<leftarrow> reply_topic env ''mem'';
     send_reply env topic (sprint 512 ''heap=%u'' [Arg32 (free_heap env)])
   }"

definition mqtt_rpc_chip_id :: "rpc_env \<Rightarrow> unit rpc" where
  "mqtt_rpc_chip_id env = do {
     topic \<leftarrow> reply_topic env ''chip_id'';
     send_reply env topic (sprint 512 ''0x%06x'' [Arg32 (chip_id env)])
   }"

definition mqtt_rpc_flash_id :: "rpc_env \<Rightarrow> unit rpc" where
  "mqtt_rpc_flash_id env = do {
     topic \<leftarrow> reply_topic env ''flash_id'';
     send_reply env topic (sprint 512 ''0x%x'' [Arg32 (jedec_id env)])
   }"

definition mqtt_rpc_flash_size :: "rpc_env \<Rightarrow> unit rpc" where
  "mqtt_rpc_flash_size env = do {
     topic \<leftarrow> reply_topic env ''flash_size'';
     (case spi_flash_size (jedec_id env) of
        None \<Rightarrow> event OutOfBounds
      | Some n \<Rightarrow> send_reply env topic (sprint 512 ''%u kB'' [Arg32 (n div 1024)]))
   }"

definition rst_text :: "u32 \<Rightarrow> rst_info_t \<Rightarrow> u8 \<Rightarrow> bytes" where
  "rst_text reason i rom =
     sprint 512 ''reason=%d&exccause=%d&epc1=0x%08x&epc2=0x%08x&epc3=0x%08x&excvaddr=0x%08x&depc=0x%08x&slot=%d''
       [Arg32 reason, Arg32 (rst_exccause i), Arg32 (rst_epc1 i), Arg32 (rst_epc2 i), Arg32 (rst_epc3 i),
        Arg32 (rst_excvaddr i), Arg32 (rst_depc i), Arg32 (ucast rom)]"

definition mqtt_rpc_reset_reason :: "rpc_env \<Rightarrow> unit rpc" where
  "mqtt_rpc_reset_reason env = do {
     rom \<leftarrow> get_dev dev_running_rom;
     topic \<leftarrow> reply_topic env ''reset_reason'';
     let by_watchdog = (case rtc_watchdog_rebooted env of None \<Rightarrow> False | Some w \<Rightarrow> w \<noteq> 0);
     send_reply env topic
       (case rst_info env of
          Some i \<Rightarrow> if by_watchdog then rst_text 7 i rom else rst_text (rst_reason i) i rom
        | None \<Rightarrow> sprint 512 ''reason=%d&slot=%d'' [Arg32 (if by_watchdog then 7 else -1), Arg32 (ucast rom)])
   }"

definition mqtt_rpc_status :: "rpc_env \<Rightarrow> unit rpc" where
  "mqtt_rpc_status env = do {
     topic \<leftarrow> reply_topic env ''status'';
     answer \<leftarrow> get_dev thermo_text;
     send_reply env topic answer
   }"

section \<open>Network settings\<close>

definition mqtt_rpc_set_ssid :: "rpc_env \<Rightarrow> bytes option \<Rightarrow> unit rpc" where
  "mqtt_rpc_set_ssid env ssid =
     (case ssid of
        None \<Rightarrow> skip
      | Some ssid \<Rightarrow> do {
          changed \<leftarrow> change_field sta_ssid_off ssid 31;
          (if changed then save_or_report env else skip);
          topic \<leftarrow> reply_topic env ''set_ssid'';
          own \<leftarrow> get_dev (field64 sta_ssid_off);
          send_reply env topic (sprint 512 ''%s'' [ArgStr own])
        })"

definition mqtt_rpc_set_pwd :: "rpc_env \<Rightarrow> bytes option \<Rightarrow> unit rpc" where
  "mqtt_rpc_set_pwd env pwd =
     (case pwd of
        None \<Rightarrow> skip
      | Some pwd \<Rightarrow> do {
          changed \<leftarrow> change_field sta_pwd_off pwd 63;
          (if changed then save_or_report env else skip);
          topic \<leftarrow> reply_topic env ''set_pwd'';
          own \<leftarrow> get_dev (field64 sta_pwd_off);
          send_reply env topic (sprint 512 ''%s'' [ArgStr own])
        })"

text \<open>The answer \<open>ssid=..&pwd=..\<close> with both values escaped; \<open>None\<close> when one does not fit.\<close>

definition ssid_pwd_text :: "bytes \<Rightarrow> bytes \<Rightarrow> bytes option" where
  "ssid_pwd_text ssid pwd =
     (let (r1, s) = query_string_escape (take 511 ssid) 512
      in if r1 < 0 then None
         else
           let (r2, p) = query_string_escape (take 511 pwd) 512
           in if r2 < 0 then None else Some (sprint 512 ''ssid='' [] @ s @ ascii ''&pwd='' @ p))"

definition mqtt_rpc_set_ssid_pwd :: "rpc_env \<Rightarrow> bytes option \<Rightarrow> unit rpc" where
  "mqtt_rpc_set_ssid_pwd env ssid_pwd =
     (case ssid_pwd of
        None \<Rightarrow> skip
      | Some ssid_pwd \<Rightarrow> do {
          d \<leftarrow> State_Monad.get;
          ok \<leftarrow> save_result env
                  (cfg_save_ssid_pwd (flash_store env) (dev_ota_in_progress d) (factory env) ssid_pwd (dev_cfg d));
          (if ok then events [DisarmTimer WifiDefaultTimer, ArmTimer WifiDefaultTimer 500] else skip);
          topic \<leftarrow> reply_topic env ''set_ssid_pwd'';
          d \<leftarrow> State_Monad.get;
          (case ssid_pwd_text (field64 sta_ssid_off d) (field64 sta_pwd_off d) of
             None \<Rightarrow> skip
           | Some cleartext \<Rightarrow> send_reply env topic cleartext)
        })"

definition delayed_wifi_default_cb :: "unit rpc" where
  "delayed_wifi_default_cb = event CallWifiDefault"

definition mqtt_rpc_set_ap_mesh_pwd :: "rpc_env \<Rightarrow> bytes option \<Rightarrow> unit rpc" where
  "mqtt_rpc_set_ap_mesh_pwd env ap_mesh_pwd =
     (case ap_mesh_pwd of
        None \<Rightarrow> skip
      | Some ap_mesh_pwd \<Rightarrow> do {
          changed \<leftarrow> change_field ap_mesh_pwd_off ap_mesh_pwd 63;
          (if changed then do {
             d \<leftarrow> State_Monad.get;
             ok \<leftarrow> save_result env (cfg_save (flash_store env) (dev_ota_in_progress d) (factory env) (dev_cfg d));
             (if ok \<and> (dev_opmode d = STATIONAP_MODE \<or> dev_opmode d = SOFTAP_MODE) then do {
                set_opmode STATION_MODE;
                set_opmode STATIONAP_MODE;
                own \<leftarrow> get_dev (field64 ap_mesh_pwd_off);
                softap (dev_mesh_ssid d) own
              } else skip)
           } else skip);
          topic \<leftarrow> reply_topic env ''set_ap_mesh_pwd'';
          own \<leftarrow> get_dev (field64 ap_mesh_pwd_off);
          send_reply env topic (take 511 own)
        })"

text \<open>The parameters of a network test; a copy of 96 bytes that is not ended is read on behind its end.\<close>

record wifi_test_params =
  test_ssid :: bytes
  test_pwd :: bytes
  test_stay :: bytes

definition test_token :: "bytes \<Rightarrow> wifi_test_params \<Rightarrow> wifi_test_params" where
  "test_token str w =
     (case strtok_r 0x3D str of
        None \<Rightarrow> w
      | Some (key, rest) \<Rightarrow>
          (case strtok_r 0x3D rest of
             None \<Rightarrow> w
           | Some (val, _) \<Rightarrow>
               let val = snd (query_string_unescape val);
                   w = (if strncmp_eq key (ascii ''ssid'') 32 then w\<lparr>test_ssid := take 31 val\<rparr> else w);
                   w = (if strncmp_eq key (ascii ''pwd'') 64 then w\<lparr>test_pwd := take 63 val\<rparr> else w)
               in if strncmp_eq key (ascii ''stay'') 10 then w\<lparr>test_stay := take 9 val\<rparr> else w))"

function test_tokens :: "bytes \<Rightarrow> wifi_test_params \<Rightarrow> wifi_test_params" where
  "test_tokens rest w =
     (case strtok_r 0x26 rest of
        None \<Rightarrow> w
      | Some (str, rest) \<Rightarrow> test_tokens rest (test_token str w))"
  by pat_completeness auto
termination
  by (relation "measure (\<lambda>(rest, w). length rest)") (auto dest: strtok_r_shorter)

declare test_tokens.simps [simp del]

definition mqtt_rpc_test_ssid_pwd :: "rpc_env \<Rightarrow> bytes option \<Rightarrow> unit rpc" where
  "mqtt_rpc_test_ssid_pwd env params =
     (case params of
        None \<Rightarrow> skip
      | Some params \<Rightarrow>
          if 96 \<le> length params then event OutOfBounds
          else
            let w = test_tokens params \<lparr>test_ssid = [], test_pwd = [], test_stay = []\<rparr>;
                stay_ms = (if length (test_stay w) > 0 then atoi (test_stay w) * 1000 else 0)
            in if length (test_ssid w) = 0 then skip
               else do {
                 topic \<leftarrow> reply_topic env ''test_ssid_pwd'';
                 (case ssid_pwd_text (test_ssid w) (test_pwd w) of
                    None \<Rightarrow> skip
                  | Some answer \<Rightarrow> do {
                      send_reply env topic
                        (answer @ (if length (test_stay w) > 0 then ascii ''&stay='' @ test_stay w else []));
                      event (WifiTestSsidPwd (test_ssid w) (test_pwd w) stay_ms)
                    })
               })"

definition mqtt_rpc_reconnect :: "unit rpc" where
  "mqtt_rpc_reconnect = event (Call ApiDisconnect)"

section \<open>Access point\<close>

definition ap_enabled_flag :: "device \<Rightarrow> bool" where
  "ap_enabled_flag d \<longleftrightarrow> sys_cfg (dev_cfg d) ! ap_enabled_off \<noteq> 0"

definition set_ap_enabled :: "rpc_env \<Rightarrow> bool \<Rightarrow> unit rpc" where
  "set_ap_enabled env on = do {
     old \<leftarrow> get_dev ap_enabled_flag;
     if old \<noteq> on then do {
       set_image (\<lambda>img. img[ap_enabled_off := (if on then 1 else 0)]);
       save_or_report env
     } else skip
   }"

definition mqtt_rpc_start_ap :: "rpc_env \<Rightarrow> bytes option \<Rightarrow> unit rpc" where
  "mqtt_rpc_start_ap env mesh_ssid =
     (case mesh_ssid of
        None \<Rightarrow> skip
      | Some mesh_ssid \<Rightarrow> do {
          d \<leftarrow> State_Monad.get;
          if dev_fallback_ap d then skip
          else if dev_opmode d \<noteq> STATIONAP_MODE then do {
            set_opmode STATIONAP_MODE;
            softap mesh_ssid (field64 ap_mesh_pwd_off d);
            set_ap_enabled env True
          } else skip
        })"

definition mqtt_rpc_stop_ap :: "rpc_env \<Rightarrow> unit rpc" where
  "mqtt_rpc_stop_ap env = do {
     d \<leftarrow> State_Monad.get;
     if dev_fallback_ap d then skip
     else if dev_opmode d \<noteq> STATION_MODE then do {
       set_opmode STATION_MODE;
       set_ap_enabled env False
     } else skip
   }"

definition fallback_ap_timer_func :: "bytes \<Rightarrow> unit rpc" where
  "fallback_ap_timer_func mesh_ssid = do {
     State_Monad.update (\<lambda>d. d\<lparr>dev_fallback_ap := False\<rparr>);
     d \<leftarrow> State_Monad.get;
     (if ap_enabled_flag d then do {
        set_opmode STATIONAP_MODE;
        softap mesh_ssid (field64 ap_mesh_pwd_off d)
      } else set_opmode STATION_MODE);
     events [Led LedStopPattern, StartScanLong]
   }"

definition mqtt_rpc_start_fallback_ap :: "rpc_env \<Rightarrow> bytes option \<Rightarrow> bytes option \<Rightarrow> unit rpc" where
  "mqtt_rpc_start_fallback_ap env params mesh_ssid =
     (case mesh_ssid of
        None \<Rightarrow> skip
      | Some mesh_ssid \<Rightarrow> do {
          let time_ms = (case params of Some p \<Rightarrow> if length p > 0 then atoi p * 1000 else 0 | None \<Rightarrow> 0);
          topic \<leftarrow> reply_topic env ''start_fallback_ap'';
          send_reply env topic (sprint 512 ''%s'' [ArgStr (case params of Some p \<Rightarrow> p | None \<Rightarrow> ascii ''0'')]);
          running \<leftarrow> get_dev dev_fallback_ap;
          if time_ms = 0 then
            (if running then do { event (DisarmTimer FallbackApTimer); fallback_ap_timer_func mesh_ssid } else skip)
          else if running then events [DisarmTimer FallbackApTimer, ArmTimer FallbackApTimer time_ms]
          else do {
            State_Monad.update (\<lambda>d. d\<lparr>dev_fallback_ap := True\<rparr>);
            set_opmode STATIONAP_MODE;
            softap STA_FALLBACK_SSID STA_FALLBACK_PASS;
            events [StopScan, DisarmTimer FallbackApTimer, ArmTimer FallbackApTimer time_ms, Led LedStopPattern, Led LedPatternD]
          }
        })"

section \<open>Restart and firmware update\<close>

definition mqtt_restart_ack_timer_func :: "unit rpc" where
  "mqtt_restart_ack_timer_func = events [Call ApiDeleteClient, DestroyKmpRequest, RestartDefered]"

definition mqtt_rpc_restart :: "rpc_env \<Rightarrow> unit rpc" where
  "mqtt_rpc_restart env = do {
     topic \<leftarrow> reply_topic env ''restart'';
     send_reply env topic [];
     events [DisarmTimer RestartAckTimer, ArmTimer RestartAckTimer 2000]
   }"

text \<open>
  The parameters of an update. \<open>dev_running_rom\<close> and \<open>dev_temp_boot\<close> are what \<open>rboot\<close> tells of the last
  boot, \<open>dev_flash_rom\<close> the slot its configuration in flash names.
\<close>

record ota_params =
  base_url :: bytes
  version_str :: bytes
  sha256_user1 :: bytes
  sha256_user2 :: bytes

definition ota_param :: "bytes \<Rightarrow> ota_params \<Rightarrow> ota_params" where
  "ota_param str p =
     (case strtok_r 0x3D str of
        None \<Rightarrow> p
      | Some (param_key, rest) \<Rightarrow>
          (case strtok_r 0x3D rest of
             None \<Rightarrow> p
           | Some (param_val, _) \<Rightarrow>
               let val = snd (query_string_unescape param_val)
               in if param_key = ascii ''url'' then p\<lparr>base_url := take 127 val\<rparr>
                  else if param_key = ascii ''version'' then p\<lparr>version_str := take 31 val\<rparr>
                  else if param_key = ascii ''sha1'' \<or> param_key = ascii ''sha256_user1''
                  then p\<lparr>sha256_user1 := take 64 val\<rparr>
                  else if param_key = ascii ''sha2'' \<or> param_key = ascii ''sha256_user2''
                  then p\<lparr>sha256_user2 := take 64 val\<rparr>
                  else p))"

function ota_param_loop :: "bytes \<Rightarrow> ota_params \<Rightarrow> ota_params" where
  "ota_param_loop rest p =
     (case strtok_r 0x26 rest of
        None \<Rightarrow> p
      | Some (str, rest) \<Rightarrow> ota_param_loop rest (ota_param str p))"
  by pat_completeness auto
termination
  by (relation "measure (\<lambda>(rest, p). length rest)") (auto dest: strtok_r_shorter)

declare ota_param_loop.simps [simp del]

definition parse_ota_params :: "bytes \<Rightarrow> ota_params" where
  "parse_ota_params params =
     (let p = ota_param_loop (take 511 params) \<lparr>base_url = [], version_str = [], sha256_user1 = [], sha256_user2 = []\<rparr>
      in if length (base_url p) = 0 then p\<lparr>base_url := ascii ''http://meterlogger.net/api/ota_firmware''\<rparr> else p)"

definition ota_final_url :: "u32 \<Rightarrow> u8 \<Rightarrow> ota_params \<Rightarrow> bytes" where
  "ota_final_url serial target_rom p =
     (let serial_str = sprint 32 ''%07u'' [Arg32 serial];
          separator = (if 0x3F \<in> set (base_url p) then ascii ''&'' else ascii ''?'')
      in if length (version_str p) > 0
         then sprint 256 ''%s%sserial=%s&slot=%d&version=%s''
                [ArgStr (base_url p), ArgStr separator, ArgStr serial_str, Arg32 (ucast target_rom), ArgStr (version_str p)]
         else sprint 256 ''%s%sserial=%s&slot=%d''
                [ArgStr (base_url p), ArgStr separator, ArgStr serial_str, Arg32 (ucast target_rom)])"

definition unless_empty :: "bytes \<Rightarrow> bytes option" where
  "unless_empty s = (if s = [] then None else Some s)"

definition confirm_rom :: "unit rpc" where
  "confirm_rom =
     State_Monad.update (\<lambda>d. d\<lparr>dev_flash_rom := dev_running_rom d, dev_temp_boot := False\<rparr>)"

definition mqtt_rpc_ota_update :: "rpc_env \<Rightarrow> bytes option \<Rightarrow> unit rpc" where
  "mqtt_rpc_ota_update env params =
     (case params of
        None \<Rightarrow> skip
      | Some params \<Rightarrow> do {
          d \<leftarrow> State_Monad.get;
          if strstr_loop params (ascii ''action=confirm'') 0 \<noteq> None then do {
            topic \<leftarrow> reply_topic env ''ota_update'';
            (if dev_temp_boot d \<or> dev_flash_rom d \<noteq> dev_running_rom d then do {
               confirm_rom;
               send_reply env topic (sprint 512 ''status=self_test_passed_committed'' [])
             } else send_reply env topic (sprint 512 ''status=already_committed'' []))
          }
          else if dev_temp_boot d then reply env ''ota_update'' (sprint 512 ''status=error_unconfirmed_temp_rom'' [])
          else if dev_ota_in_progress d then reply env ''ota_update'' (sprint 512 ''status=error_busy'' [])
          else do {
            State_Monad.update (\<lambda>d. d\<lparr>dev_ota_in_progress := True\<rparr>);
            let target_rom = (if dev_running_rom d = 0 then 1 else 0);
            let p = parse_ota_params params;
            let final_url = ota_final_url (dev_serial d) target_rom p;
            (success, rom) \<leftarrow>
              (if length final_url > 0
               then start_ota env final_url (unless_empty (sha256_user1 p)) (unless_empty (sha256_user2 p))
               else State_Monad.return (False, None));
            let target_rom = (case rom of None \<Rightarrow> target_rom | Some r \<Rightarrow> r);
            topic \<leftarrow> reply_topic env ''ota_update'';
            (if success
             then send_reply env topic (sprint 512 ''status=started&target_rom=%d'' [Arg32 (ucast target_rom + 1)])
             else do {
               State_Monad.update (\<lambda>d. d\<lparr>dev_ota_in_progress := False\<rparr>);
               send_reply env topic (sprint 512 ''status=error_no_url'' [])
             })
          }
        })"

definition mqtt_rpc_ota_status :: "rpc_env \<Rightarrow> bytes option \<Rightarrow> unit rpc" where
  "mqtt_rpc_ota_status env status =
     (case status of
        None \<Rightarrow> skip
      | Some status \<Rightarrow> reply env ''ota_update'' (sprint 512 ''status=%s'' [ArgStr status]))"

section \<open>Key and server\<close>

definition mqtt_rpc_set_key :: "rpc_env \<Rightarrow> bytes option \<Rightarrow> unit rpc" where
  "mqtt_rpc_set_key env params =
     (case params of
        None \<Rightarrow> skip
      | Some params \<Rightarrow> do {
          let new_key = take 63 params;
          d \<leftarrow> State_Monad.get;
          let (success, c) =
            (if 32 \<le> length new_key
             then cfg_save_key (flash_store env) (dev_ota_in_progress d) (Some new_key) (dev_cfg d)
             else (False, dev_cfg d));
          State_Monad.update (\<lambda>d. d\<lparr>dev_cfg := c\<rparr>);
          reply env ''set_key'' (if success then sprint 512 ''status=ok'' [] else sprint 512 ''status=error_invalid_key'' []);
          if success
          then State_Monad.update (\<lambda>d. d\<lparr>dev_keys := init_aes_hmac_combined (sub_bytes (sys_cfg (dev_cfg d)) key_off 16) (dev_keys d)\<rparr>)
          else skip
        })"

definition mqtt_rpc_set_mqtt_host :: "rpc_env \<Rightarrow> bytes option \<Rightarrow> unit rpc" where
  "mqtt_rpc_set_mqtt_host env params = do {
     d \<leftarrow> State_Monad.get;
     let (success, c) =
       (case params of
          None \<Rightarrow> (False, dev_cfg d)
        | Some params \<Rightarrow>
            if 0 < length params \<and> length params < 64
            then cfg_save_plain (flash_store env) (dev_ota_in_progress d)
                   ((dev_cfg d)\<lparr>sys_cfg := put_bytes (put_bytes (sys_cfg (dev_cfg d)) mqtt_host_off (replicate 64 0))
                                            mqtt_host_off params\<rparr>)
            else (False, dev_cfg d));
     State_Monad.update (\<lambda>d. d\<lparr>dev_cfg := c\<rparr>);
     reply env ''set_mqtt_host'' (if success then sprint 512 ''status=ok'' [] else sprint 512 ''status=error_invalid_host'' []);
     if success then events [DisarmTimer RestartAckTimer, ArmTimer RestartAckTimer 2000] else skip
   }"

section \<open>Cron jobs\<close>

text \<open>
  The code works on the table in \<open>sys_cfg\<close> in place. Here the table is kept decoded in \<open>dev_cron\<close>, and
  \<open>cron_done\<close> is what makes the image follow a changed table, with the deferred save if one is asked for.
\<close>

definition cron_done :: "cron_event list \<Rightarrow> cron \<Rightarrow> unit rpc" where
  "cron_done evs s = do {
     State_Monad.update (\<lambda>d. d\<lparr>dev_cron := s\<rparr>);
     set_image (\<lambda>img. put_bytes img cron_jobs_off (cron_bytes s));
     if CronCfgSaveDefered \<in> set evs
     then State_Monad.update (\<lambda>d. d\<lparr>dev_cfg := cfg_save_defered (dev_ota_in_progress d) (dev_cfg d)\<rparr>)
     else skip
   }"

definition mqtt_rpc_set_cron :: "rpc_env \<Rightarrow> bytes option \<Rightarrow> unit rpc" where
  "mqtt_rpc_set_cron env query =
     (case query of
        None \<Rightarrow> skip
      | Some query \<Rightarrow> do {
          d \<leftarrow> State_Monad.get;
          (case add_cron_job_from_query query (dev_cron d) of
             None \<Rightarrow> event OutOfBounds
           | Some (_, evs, s) \<Rightarrow> do { cron_done evs s; reply env ''set_cron'' (take 512 query) })
        })"

definition mqtt_rpc_clear_cron :: "rpc_env \<Rightarrow> unit rpc" where
  "mqtt_rpc_clear_cron env = do {
     d \<leftarrow> State_Monad.get;
     let (evs, s) = clear_cron_jobs (dev_cron d);
     cron_done evs s;
     reply env ''clear_cron'' []
   }"

definition mqtt_rpc_cron :: "rpc_env \<Rightarrow> unit rpc" where
  "mqtt_rpc_cron env = do {
     topic \<leftarrow> reply_topic env ''cron'';
     n \<leftarrow> get_dev (\<lambda>d. cron_n (dev_cron d));
     send_reply env topic (sprint 512 ''%u'' [Arg32 (of_nat n)])
   }"

section \<open>The valve\<close>

definition mqtt_rpc_open :: "rpc_env \<Rightarrow> unit rpc" where
  "mqtt_rpc_open env = ac_do (ac_thermo_open (ac_options env))"

definition mqtt_rpc_close :: "rpc_env \<Rightarrow> unit rpc" where
  "mqtt_rpc_close env = ac_do (ac_thermo_close (ac_options env))"

definition set_close_at :: "u32 \<Rightarrow> unit rpc" where
  "set_close_at v = set_image (put_le32 v offline_close_at_off)"

definition mqtt_rpc_open_until :: "rpc_env \<Rightarrow> bytes option \<Rightarrow> unit rpc" where
  "mqtt_rpc_open_until env value =
     (case value of
        None \<Rightarrow> skip
      | Some value \<Rightarrow> do {
          let int_value = atoi value;
          (if 0 \<le>s int_value then do {
             ac_do (ac_thermo_open (ac_options env));
             at \<leftarrow> get_dev offline_close_at;
             (if at \<noteq> int_value then do { set_close_at int_value; save_or_report env } else skip)
           } else skip);
          topic \<leftarrow> reply_topic env ''open_until'';
          at \<leftarrow> get_dev offline_close_at;
          send_reply env topic (sprint 512 ''%u'' [Arg32 at]);
          mqtt_rpc_status env
        })"

definition mqtt_rpc_open_until_delta :: "rpc_env \<Rightarrow> bytes option \<Rightarrow> unit rpc" where
  "mqtt_rpc_open_until_delta env value =
     (case value of
        None \<Rightarrow> skip
      | Some value \<Rightarrow> do {
          let int_value = atoi value;
          energy \<leftarrow> get_dev dev_energy_kwh;
          (if 0 \<le>s int_value then do {
             ac_do (ac_thermo_open (ac_options env));
             at \<leftarrow> get_dev offline_close_at;
             (if at \<noteq> int_value then do { set_close_at (energy + int_value); save_or_report env } else skip)
           } else skip);
          topic \<leftarrow> reply_topic env ''open_until_delta'';
          at \<leftarrow> get_dev offline_close_at;
          send_reply env topic (sprint 512 ''%u'' [Arg32 (at - energy)]);
          mqtt_rpc_status env
        })"

end
