(* ===== verification/UserMain.thy ===== *)
theory UserMain
  imports MqttRpc
begin

text \<open>
  \<open>user/user_main.c\<close>: boot, the timers that start the modes, the callbacks of the MQTT client, and the
  dispatcher of the remote commands. The handlers are state transformers over the device of MqttRpc.
\<close>

section \<open>After the connection\<close>

definition next_rpc :: "unit rpc" where
  "next_rpc = do {
     State_Monad.update (\<lambda>d. d\<lparr>dev_rpc_state := dev_rpc_state d + 1\<rparr>);
     event (ArmTimer FirstRpcTimer 100)
   }"

definition serial_topic :: "string \<Rightarrow> bytes rpc" where
  "serial_topic f = get_dev (\<lambda>d. sprint 128 f [Arg32 (dev_serial d)])"

definition mqtt_connected_first_mqtt_rpc_timer_func :: "rpc_env \<Rightarrow> unit rpc" where
  "mqtt_connected_first_mqtt_rpc_timer_func env = do {
     n \<leftarrow> get_dev dev_rpc_state;
     if n = 0 then do {
       topic \<leftarrow> serial_topic ''/config/v2/%07u/#'';
       event (Call (ApiSubscribe (Some topic) 0));
       temp \<leftarrow> get_dev dev_temp_boot;
       (if temp then mqtt_rpc_ota_status env (Some (ascii ''pending_confirmation'')) else skip);
       next_rpc
     }
     else if n = 1 then do { mqtt_rpc_version env; mqtt_rpc_status env; next_rpc }
     else if n = 2 then do { mqtt_rpc_ssid env; next_rpc }
     else if n = 3 then do { mqtt_rpc_reset_reason env; next_rpc }
     else if n = 4 then do { mqtt_rpc_fallback_status env; next_rpc }
     else if n = 5 then do { mqtt_rpc_uptime env; next_rpc }
     else do {
       State_Monad.update (\<lambda>d. d\<lparr>dev_rpc_state := 0\<rparr>);
       event (DisarmTimer FirstRpcTimer)
     }
   }"

definition sample_timer_func :: "unit rpc" where
  "sample_timer_func = event KmpRequestSend"

definition sample_timer_first_func :: "unit rpc" where
  "sample_timer_first_func = do { sample_timer_func; event (DisarmTimer SampleTimerFirst) }"

definition mqtt_connected_cb :: "rpc_env \<Rightarrow> unit rpc" where
  "mqtt_connected_cb env = do {
     (if fallback_active env then do {
        State_Monad.update (\<lambda>d. d\<lparr>dev_fallback_mqtt := True\<rparr>);
        event (Led LedPatternB)
      } else State_Monad.update (\<lambda>d. d\<lparr>dev_fallback_mqtt := False\<rparr>));
     event KmpSetMqttClient;
     serial \<leftarrow> get_dev dev_serial;
     if serial = 0
     then events [KmpRequestSend, DisarmTimer ConnectedDeferTimer, ArmTimer ConnectedDeferTimer 5000]
     else do {
       pending \<leftarrow> get_dev dev_test_pending;
       (if pending then do {
          State_Monad.update (\<lambda>d. d\<lparr>dev_test_pending := False\<rparr>);
          events [DisarmTimer WifiTestReportTimer, ArmTimer WifiTestReportTimer 3500]
        } else skip);
       events [DisarmTimer CsaReportTimer, ArmTimerRepeat CsaReportTimer 5000];
       State_Monad.update (\<lambda>d. d\<lparr>dev_rpc_state := 0\<rparr>);
       events [DisarmTimer FirstRpcTimer, ArmTimer FirstRpcTimer 2000];
       first \<leftarrow> get_dev dev_first_connect;
       (if first then do {
          State_Monad.update (\<lambda>d. d\<lparr>dev_first_connect := False\<rparr>);
          events [DisarmTimer SampleTimerFirst, ArmTimer SampleTimerFirst 1100]
        } else skip);
       events [DisarmTimer SampleTimer, ArmTimerRepeat SampleTimer 60000]
     }
   }"

definition mqtt_connected_defer_timer_func :: "rpc_env \<Rightarrow> unit rpc" where
  "mqtt_connected_defer_timer_func env = mqtt_connected_cb env"

definition mqtt_disconnected_cb :: "rpc_env \<Rightarrow> unit rpc" where
  "mqtt_disconnected_cb env = do {
     (if fallback_active env then State_Monad.update (\<lambda>d. d\<lparr>dev_fallback_mqtt := False\<rparr>) else skip);
     events [DisarmTimer CsaReportTimer, Call ApiConnect]
   }"

definition mqtt_published_cb :: "unit rpc" where
  "mqtt_published_cb = events [ResetWatchdog 1, ResetWatchdog 2]"

definition mqtt_ping_response_cb :: "unit rpc" where
  "mqtt_ping_response_cb = events [ResetWatchdog 1, ResetWatchdog 2]"

definition mqtt_timeout_cb :: "unit rpc" where
  "mqtt_timeout_cb = skip"

definition mqtt_fallback_retry_cb :: "unit rpc" where
  "mqtt_fallback_retry_cb = event (Call ApiConnect)"

definition wifi_changed_cb :: "u8 \<Rightarrow> unit rpc" where
  "wifi_changed_cb status =
     (if status = 5 then event (Call ApiConnect)
      else if status = 0 then event (Call ApiDisconnect)
      else skip)"

definition csa_report_timer_func :: "rpc_env \<Rightarrow> unit rpc" where
  "csa_report_timer_func env = do {
     d \<leftarrow> State_Monad.get;
     if dev_csa_flag d then do {
       State_Monad.update (\<lambda>d. d\<lparr>dev_csa_flag := False\<rparr>);
       if dev_pcon d
       then reply env ''cnx_csa_fn_called'' (sprint 512 ''count=%u'' [Arg32 (csa_calls env)])
       else skip
     } else skip
   }"

definition wifi_test_report_timer_func :: "rpc_env \<Rightarrow> unit rpc" where
  "wifi_test_report_timer_func env =
     (case test_result env of (ok, target_ssid, rssi, reason, attempt_time_ms) \<Rightarrow>
        reply env ''test_ssid_pwd_result''
          (sprint 512 ''status=%s&ssid=%s&rssi=%d&reason=%s&time_ms=%u''
             [ArgStr (if ok then ascii ''ok'' else ascii ''failed''), ArgStr target_ssid, Arg32 rssi, ArgStr reason,
              Arg32 attempt_time_ms]))"

section \<open>Sampling\<close>

definition meter_sent_data :: "rpc_env \<Rightarrow> unit rpc" where
  "meter_sent_data env = do {
     d \<leftarrow> State_Monad.get;
     if dev_energy_kwh d \<ge> offline_close_at d then
       if ac_thermo_state (dev_ac d) \<noteq> 0 then do {
         ac_do (ac_thermo_close (ac_options env));
         topic \<leftarrow> reply_topic env ''status'';
         cleartext \<leftarrow> get_dev thermo_text;
         r \<leftarrow> encrypt_now env topic cleartext;
         if dev_pcon d then publish topic r else skip
       } else skip
     else skip
   }"

definition sample_mode_timer_func :: "rpc_env \<Rightarrow> unit rpc" where
  "sample_mode_timer_func env = do {
     fast_boot \<leftarrow> get_dev dev_fast_boot;
     (if \<not> fast_boot then events [Led LedStopPattern, HttpdStop, CaptdnsStop] else skip);
     d \<leftarrow> State_Monad.get;
     use_config (cfg_load (flash_store env) (dev_ota_in_progress d) (factory env) (dev_cfg d));
     let meter_serial_temp = sprint 10 ''%07u'' [Arg32 (dev_serial d)];
     device_id \<leftarrow> get_dev (\<lambda>d. field_string (sys_cfg (dev_cfg d)) device_id_off 16);
     (if \<not> strncmp_eq device_id meter_serial_temp 15 then do {
        set_image (\<lambda>img. put_string meter_serial_temp 16 device_id_off (put_bytes img device_id_off (replicate 16 0)));
        save_or_report env
      } else skip);
     img \<leftarrow> get_dev (\<lambda>d. sys_cfg (dev_cfg d));
     events [InitConnection (field_string img mqtt_host_off 64) (get_le32 img mqtt_port_off) (img ! security_off),
             InitClient (field_string img device_id_off 16) (field_string img mqtt_user_off 32)
               (field_string img mqtt_pass_off 32) (get_le32 img mqtt_keepalive_off) 0];
     (if \<not> mqtt_init_ok env then event (Led LedOn) else skip);
     topic \<leftarrow> serial_topic ''/offline/v1/%07u'';
     events [InitLWT topic [], RegisterCallbacks, WifiConnect];
     let mesh_ssid = sprint 32 ''mesh-%s'' [ArgStr meter_serial_temp];
     State_Monad.update (\<lambda>d. d\<lparr>dev_mesh_ssid := mesh_ssid\<rparr>);
     softap mesh_ssid (field_string img ap_mesh_pwd_off 64);
     events [AddWatchdog 1 NETWORK_RESTART 120, AddWatchdog 2 REBOOT 86400]
   }"

text \<open>The password of the access point of a firmware with updates: eight bytes of the key in hex.\<close>

definition key_password :: "bytes \<Rightarrow> bytes" where
  "key_password key = concat (map (\<lambda>b. sprint 3 ''%02x'' [Arg32 (ucast b)]) (take 8 key))"

definition config_mode_timer_func :: "rpc_env \<Rightarrow> unit rpc" where
  "config_mode_timer_func env = do {
     event (Led LedPatternC);
     set_opmode STATIONAP_MODE;
     d \<leftarrow> State_Monad.get;
     let ap_ssid = sprint 32 ''KAM_%07u'' [Arg32 (dev_serial d)];
     let pwd = (if ota_fw env then key_password (sub_bytes (sys_cfg (dev_cfg d)) key_off 16)
                else take 63 (ap_password env));
     events [SoftapSettings ap_ssid pwd, CaptdnsStart, HttpdStart]
   }"

definition meter_is_ready :: "unit rpc" where
  "meter_is_ready = do {
     fast_boot \<leftarrow> get_dev dev_fast_boot;
     if fast_boot then events [DisarmTimer SampleModeTimer, ArmTimer SampleModeTimer 2000]
     else events [DisarmTimer ConfigModeTimer, ArmTimer ConfigModeTimer 1000,
                  DisarmTimer SampleModeTimer, ArmTimer SampleModeTimer (120000 + 1000)]
   }"

section \<open>Remote commands\<close>

definition dispatch :: "rpc_env \<Rightarrow> bytes \<Rightarrow> bytes \<Rightarrow> unit rpc" where
  "dispatch env function_name cleartext =
     (let is = (\<lambda>f. strncmp_eq function_name (ascii f) 32)
      in if is ''ping'' then mqtt_rpc_ping env
         else if is ''version'' then mqtt_rpc_version env
         else if is ''uptime'' then mqtt_rpc_uptime env
         else if is ''vdd'' then mqtt_rpc_vdd env
         else if is ''rssi'' then mqtt_rpc_rssi env
         else if is ''ssid'' then mqtt_rpc_ssid env
         else if is ''scan'' then mqtt_rpc_scan env
         else if is ''set_ssid'' then mqtt_rpc_set_ssid env (Some cleartext)
         else if is ''set_pwd'' then mqtt_rpc_set_pwd env (Some cleartext)
         else if is ''set_ssid_pwd'' then mqtt_rpc_set_ssid_pwd env (Some cleartext)
         else if is ''set_ap_mesh_pwd'' then mqtt_rpc_set_ap_mesh_pwd env (Some cleartext)
         else if is ''test_ssid_pwd'' then mqtt_rpc_test_ssid_pwd env (Some cleartext)
         else if is ''reconnect'' then mqtt_rpc_reconnect
         else if is ''disconnect_count'' then mqtt_rpc_disconnect_count env
         else if is ''network_quality'' then mqtt_rpc_network_quality env
         else if is ''wifi_status'' then mqtt_rpc_wifi_status env
         else if is ''ap_status'' then mqtt_rpc_ap_status env
         else if is ''start_ap'' then do { m \<leftarrow> get_dev dev_mesh_ssid; mqtt_rpc_start_ap env (Some m) }
         else if is ''stop_ap'' then mqtt_rpc_stop_ap env
         else if is ''start_fallback_ap'' then
           do { m \<leftarrow> get_dev dev_mesh_ssid; mqtt_rpc_start_fallback_ap env (Some cleartext) (Some m) }
         else if is ''fallback_status'' then mqtt_rpc_fallback_status env
         else if is ''mem'' then mqtt_rpc_mem env
         else if is ''chip_id'' then mqtt_rpc_chip_id env
         else if is ''flash_id'' then mqtt_rpc_flash_id env
         else if is ''flash_size'' then mqtt_rpc_flash_size env
         else if is ''reset_reason'' then mqtt_rpc_reset_reason env
         else if is ''restart'' then mqtt_rpc_restart env
         else if is ''ota_update'' then mqtt_rpc_ota_update env (Some cleartext)
         else if is ''set_key'' then mqtt_rpc_set_key env (Some cleartext)
         else if is ''set_mqtt_host'' then mqtt_rpc_set_mqtt_host env (Some cleartext)
         else if is ''set_cron'' then mqtt_rpc_set_cron env (Some cleartext)
         else if is ''clear_cron'' then mqtt_rpc_clear_cron env
         else if is ''cron'' then mqtt_rpc_cron env
         else if is ''open'' then mqtt_rpc_open env
         else if is ''open_until'' then mqtt_rpc_open_until env (Some cleartext)
         else if is ''open_until_delta'' then mqtt_rpc_open_until_delta env (Some cleartext)
         else if is ''close'' then mqtt_rpc_close env
         else if is ''status'' then mqtt_rpc_status env
         else skip)"

text \<open>The loop over the parts of the topic: the fourth is the time, the last the function name.\<close>

function parse_topic :: "bytes \<Rightarrow> u8 \<Rightarrow> u64 \<times> bytes \<Rightarrow> u64 \<times> bytes" where
  "parse_topic rest i (received_unix_time, function_name) =
     (case strtok_r 0x2F rest of
        None \<Rightarrow> (received_unix_time, function_name)
      | Some (str, rest) \<Rightarrow>
          parse_topic rest (i + 1) (if i = 3 then scast (atoi str) else received_unix_time, take 32 str))"
  by pat_completeness auto
termination
  by (relation "measure (\<lambda>(rest, i, r). length rest)") (auto dest: strtok_r_shorter)

declare parse_topic.simps [simp del]

definition in_window :: "u64 \<Rightarrow> u64 \<Rightarrow> bool" where
  "in_window received now \<longleftrightarrow> \<not> (received < now - 1800 \<or> received > now + 1800)"

text \<open>
  \<open>stack_message\<close> is what the 576 bytes of \<open>mqtt_message\<close> hold before: 512 bytes and more are not copied.
  The last test is the destination of 512 bytes that up to 527 decrypted bytes go to.
\<close>

definition mqtt_data_cb :: "rpc_env \<Rightarrow> bytes \<Rightarrow> bytes \<Rightarrow> unit rpc" where
  "mqtt_data_cb env topic payload = do {
     d \<leftarrow> State_Monad.get;
     let topic_len = length topic;
     let data_len = length payload;
     if dev_ota_in_progress d then skip
     else if topic_len = 0 \<or> topic_len \<ge> 128 \<or> data_len = 0 \<or> data_len \<ge> 576 then skip
     else do {
       let mqtt_message = (if data_len < 512 then put_bytes (stack_message env) 0 (payload @ [0]) else stack_message env);
       let (keys, out, n) = decrypt_aes_hmac_combined (dev_keys d) (replicate 528 0) topic mqtt_message data_len;
       State_Monad.update (\<lambda>d. d\<lparr>dev_keys := keys\<rparr>);
       if n = 0 then skip
       else if 512 < data_len - 48 then event OutOfBounds
       else do {
         let cleartext = takeWhile (\<lambda>b. b \<noteq> 0) (take 512 out);
         let (received_unix_time, function_name) =
           parse_topic (takeWhile (\<lambda>b. b \<noteq> 0) topic) 0 (0, stack_name env);
         now \<leftarrow> unix_time_now env;
         if \<not> in_window received_unix_time now then skip
         else dispatch env function_name cleartext
       }
     }
   }"

section \<open>Scan results\<close>

datatype auth_mode = AUTH_OPEN | AUTH_WEP | AUTH_WPA_PSK | AUTH_WPA2_PSK | AUTH_WPA_WPA2_PSK | AUTH_MAX | AUTH_OTHER

datatype cipher = CIPHER_NONE | CIPHER_WEP40 | CIPHER_WEP104 | CIPHER_TKIP | CIPHER_CCMP | CIPHER_TKIP_CCMP |
  CIPHER_UNKNOWN | CIPHER_OTHER

record bss_info =
  bss_ssid :: bytes
  bssid :: bytes
  bss_rssi :: u32
  channel :: u32
  authmode :: auth_mode
  pairwise_cipher :: cipher
  group_cipher :: cipher
  phy_11b :: bool
  phy_11g :: bool
  phy_11n :: bool
  wps :: bool

definition auth_mode_string :: "auth_mode \<Rightarrow> bytes" where
  "auth_mode_string a =
     ascii (case a of AUTH_OPEN \<Rightarrow> ''OPEN'' | AUTH_WEP \<Rightarrow> ''WEP'' | AUTH_WPA_PSK \<Rightarrow> ''WPA_PSK'' | AUTH_WPA2_PSK \<Rightarrow> ''WPA2_PSK''
       | AUTH_WPA_WPA2_PSK \<Rightarrow> ''WPA_WPA2_PSK'' | AUTH_MAX \<Rightarrow> ''MAX'' | AUTH_OTHER \<Rightarrow> [])"

definition cipher_string :: "cipher \<Rightarrow> bytes" where
  "cipher_string c =
     ascii (case c of CIPHER_NONE \<Rightarrow> ''NONE'' | CIPHER_WEP40 \<Rightarrow> ''WEP40'' | CIPHER_WEP104 \<Rightarrow> ''WEP104'' | CIPHER_TKIP \<Rightarrow> ''TKIP''
       | CIPHER_CCMP \<Rightarrow> ''CCMP'' | CIPHER_TKIP_CCMP \<Rightarrow> ''TKIP_CCMP'' | CIPHER_UNKNOWN \<Rightarrow> ''UNKNOWN'' | CIPHER_OTHER \<Rightarrow> [])"

fun escape_ssid :: "bytes \<Rightarrow> bytes" where
  "escape_ssid [] = []"
| "escape_ssid (c # cs) = (if c = 0x26 then [0x25, 0x32, 0x36] else [c]) @ escape_ssid cs"

definition bit_arg :: "bool \<Rightarrow> fmt_arg" where
  "bit_arg b = Arg32 (if b then 1 else 0)"

definition mqtt_send_wifi_scan_results_cb :: "rpc_env \<Rightarrow> bss_info \<Rightarrow> unit rpc" where
  "mqtt_send_wifi_scan_results_cb env info =
     reply env ''scan_result''
       (sprint 512 (''ssid=%s&bssid=%02x:%02x:%02x:%02x:%02x:%02x&rssi=%d&channel=%d&auth_mode=%s&pairwise_cipher=%s'' @
                    ''&group_cipher=%s&phy_11b=%d&phy_11g=%d&phy_11n=%d&wps=%d'')
          ([ArgStr (escape_ssid (bss_ssid info))] @ map (\<lambda>i. Arg32 (ucast (bssid info ! i))) [0..<6] @
           [Arg32 (bss_rssi info), Arg32 (channel info), ArgStr (auth_mode_string (authmode info)),
            ArgStr (cipher_string (pairwise_cipher info)), ArgStr (cipher_string (group_cipher info)),
            bit_arg (phy_11b info), bit_arg (phy_11g info), bit_arg (phy_11n info), bit_arg (wps info)]))"

section \<open>Boot\<close>

text \<open>The memory after power-on: the statics of the program, and what flash and boot loader hold.\<close>

definition power_on :: "bytes \<Rightarrow> u8 \<Rightarrow> u8 \<Rightarrow> bool \<Rightarrow> device" where
  "power_on flash flash_rom running_rom temp_boot =
     \<lparr>dev_out = [],
      dev_cfg = \<lparr>sys_cfg = replicate 3072 0, cfg_flash = flash, config_save_timer = False, config_save_timer_running = False\<rparr>,
      dev_keys = \<lparr>sha256_hash = replicate 32 0, aes_key = replicate 16 0, hmac_sha256_key = replicate 16 0,
        aes_static = \<lparr>RoundKey = replicate 176 0, Iv = 0\<rparr>\<rparr>,
      dev_ivs = 0,
      dev_cron = \<lparr>cron_n = 0, cron_job_list = replicate 16 empty_job, sec_drift = 0, wifi_opmode = NULL_MODE,
        ap_enabled = False, mqtt_pcon = False\<rparr>,
      dev_ac = \<lparr>gpio14 = False, gpio15 = False, ac_test_timer = False, ac_out_off_timer = None, ac_pwm_timer = None,
        ac_pwm_duty_cycle = 0, ac_pwm_state = OFF, ac_thermo_state = 0\<rparr>,
      dev_time = \<lparr>init_time = 0, current_unix_time = 0, ntp_offline_second_counter = 0, last_sntp_raw = 0,
        epoch_overflow_offset = 0, sntp_check_timer = False, ntp_offline_second_counter_timer = False, sntp_running = False\<rparr>,
      dev_serial = 0, dev_energy_kwh = 0, dev_ota_in_progress = False, dev_fallback_ap = False, dev_opmode = NULL_MODE,
      dev_pcon = False, dev_mesh_ssid = [], dev_flash_rom = flash_rom, dev_running_rom = running_rom,
      dev_temp_boot = temp_boot, dev_rpc_state = 0, dev_first_connect = True, dev_fast_boot = False,
      dev_fallback_mqtt = False, dev_csa_flag = False, dev_test_pending = False\<rparr>"

definition init_keys :: "unit rpc" where
  "init_keys = State_Monad.update
     (\<lambda>d. d\<lparr>dev_keys := init_aes_hmac_combined (sub_bytes (sys_cfg (dev_cfg d)) key_off 16) (dev_keys d)\<rparr>)"

definition user_init :: "rpc_env \<Rightarrow> unit rpc" where
  "user_init env = do {
     State_Monad.update (\<lambda>d. d\<lparr>dev_pcon := False\<rparr>);
     event WatchdogInit;
     d \<leftarrow> State_Monad.get;
     use_config (cfg_load (flash_store env) (dev_ota_in_progress d) (factory env) (dev_cfg d));
     init_keys;
     events [KmpRequestInit, CronInit];
     is_open \<leftarrow> get_dev (\<lambda>d. ac_thermo_state (dev_ac d) \<noteq> 0);
     ac_do (if is_open then ac_thermo_open (ac_options env) else ac_thermo_close (ac_options env));
     event WifiInitNapt;
     set_opmode NULL_MODE;
     events [StationDisconnect, SystemInitDone]
   }"

definition system_init_done :: "rpc_env \<Rightarrow> unit rpc" where
  "system_init_done env = do {
     let fast_boot = (case rst_info env of None \<Rightarrow> False | Some i \<Rightarrow> rst_reason i \<noteq> 0 \<and> rst_reason i \<noteq> 6);
     State_Monad.update (\<lambda>d. d\<lparr>dev_fast_boot := fast_boot, dev_time := init_unix_time (dev_time d)\<rparr>);
     events [IcmpPingInit, DisarmTimer KmpRequestSendTimer,
             ArmTimer KmpRequestSendTimer (if fast_boot then 6000 else 10000)]
   }"

definition kmp_request_send_timer_func :: "unit rpc" where
  "kmp_request_send_timer_func = event KmpRequestSend"

end
