(* ===== verification/RpcProps.thy ===== *)
theory RpcProps
  imports UserMain
begin

text \<open>
  The properties of the remote commands: what an answer carries, which messages are obeyed, and what
  the commands that open the valve, change the key or start an update do.
\<close>

lemma run_state_update [simp]: "run_state (State_Monad.update f) d = ((), f d)"
  by (simp add: State_Monad.update_def)

lemma run_get_dev [simp]: "run_state (get_dev f) d = (f d, d)"
  by (simp add: get_dev_def)

lemma run_event [simp]: "run_state (event e) d = ((), d\<lparr>dev_out := dev_out d @ [e]\<rparr>)"
  by (simp add: event_def)

lemma run_events [simp]: "run_state (events es) d = ((), d\<lparr>dev_out := dev_out d @ es\<rparr>)"
  by (simp add: events_def)

lemma run_skip [simp]: "run_state skip d = ((), d)"
  by (simp add: skip_def)

lemma run_set_image [simp]:
  "run_state (set_image f) d = ((), d\<lparr>dev_cfg := (dev_cfg d)\<lparr>sys_cfg := f (sys_cfg (dev_cfg d))\<rparr>\<rparr>)"
  by (simp add: set_image_def)

lemma run_set_opmode [simp]:
  "run_state (set_opmode m) d = ((), d\<lparr>dev_opmode := m, dev_out := dev_out d @ [SetOpmode m]\<rparr>)"
  by (simp add: set_opmode_def)

lemma run_if: "run_state (if b then m else n) d = (if b then run_state m d else run_state n d)"
  by simp

lemma length_sprint: "0 < n \<Longrightarrow> length (sprint n f args) \<le> n - 1"
  by (simp add: sprint_def split: option.split)

section \<open>Answers\<close>

definition unix_now :: "rpc_env \<Rightarrow> device \<Rightarrow> u64" where
  "unix_now env d = fst (get_unix_time (sntp_now env) (dev_time d))"

definition clock_read :: "rpc_env \<Rightarrow> device \<Rightarrow> device" where
  "clock_read env d = d\<lparr>dev_time := snd (get_unix_time (sntp_now env) (dev_time d))\<rparr>"

definition topic_of :: "rpc_env \<Rightarrow> string \<Rightarrow> device \<Rightarrow> bytes" where
  "topic_of env name d = sprint 128 (''/'' @ name @ ''/v2/%07u/%llu'') [Arg32 (dev_serial d), Arg64 (unix_now env d)]"

lemma run_unix_time_now: "run_state (unix_time_now env) d = (unix_now env d, clock_read env d)"
  by (simp add: unix_time_now_def unix_now_def clock_read_def split_beta Let_def)

lemma run_reply_topic: "run_state (reply_topic env name) d = (topic_of env name d, clock_read env d)"
  by (simp add: reply_topic_def run_unix_time_now topic_of_def)

text \<open>The answer \<open>c\<close> on a topic, as the holder of the same keys reads it.\<close>

definition answers :: "crypto \<Rightarrow> bytes \<Rightarrow> bytes \<Rightarrow> rpc_event \<Rightarrow> bool" where
  "answers cr topic c e =
     (case e of
        Call (ApiPublish (Some t) (Some m) l qos retain) \<Rightarrow>
          t = topic \<and> l = int (length m) \<and> qos = 2 \<and> retain = 0 \<and>
          (case decrypt_aes_hmac_combined cr (replicate 576 0) topic m (length m) of
             (_, out, n) \<Rightarrow> take n out = c @ [0])
      | _ \<Rightarrow> False)"

definition same_keys :: "crypto \<Rightarrow> crypto \<Rightarrow> bool" where
  "same_keys a b \<longleftrightarrow> aes_key a = aes_key b \<and> hmac_sha256_key a = hmac_sha256_key b"

definition answered :: "crypto \<Rightarrow> bytes \<Rightarrow> bytes \<Rightarrow> rpc_event \<Rightarrow> bool" where
  "answered keys topic c e \<longleftrightarrow> (\<forall>cr. keys_ok cr \<longrightarrow> same_keys cr keys \<longrightarrow> answers cr topic c e)"

definition ready :: "rpc_env \<Rightarrow> device \<Rightarrow> bool" where
  "ready env d \<longleftrightarrow> keys_ok (dev_keys d) \<and> (\<forall>i. length (random_iv env i) = 16)"

definition sent :: "aes \<Rightarrow> rpc_event list \<Rightarrow> device \<Rightarrow> device" where
  "sent a es d = d\<lparr>dev_keys := (dev_keys d)\<lparr>aes_static := a\<rparr>, dev_ivs := dev_ivs d + 1, dev_out := dev_out d @ es\<rparr>"

lemma run_encrypt_now:
  assumes "ready env d" and "length c \<le> 511" and "length topic \<le> 127"
  obtains r a e where "run_state (encrypt_now env topic c) d = (r, sent a [] d)" and "length (RoundKey a) = 176"
    and "publish topic r = event e" and "answered (dev_keys d) topic c e"
proof -
  let ?cr = "dev_keys d" and ?iv = "random_iv env (dev_ivs d)" and ?m = "c @ [0]"
  let ?env = "envelope ?cr ?iv topic ?m"
  let ?e = "Call (ApiPublish (Some topic) (Some ?env) (int (length ?env)) 2 0)"
  let ?buf = "replicate 576 0 :: bytes" and ?l = "48 + length (padded ?m)"
  have ok: "keys_ok ?cr" "length ?iv = 16" using assms(1) by (simp_all add: ready_def)
  have p: "length (padded ?m) \<le> 528" using assms(2) by (simp add: length_padded)
  then have "?l \<le> length ?buf" by simp
  moreover have "length topic + length ?m < 2 ^ 59" using assms(2,3) by simp
  ultimately obtain a where enc: "encrypt_aes_hmac_combined ?cr ?iv ?buf topic ?m =
       (?cr\<lparr>aes_static := a\<rparr>, ?env @ drop ?l ?buf, ?l)"
    and a: "length (RoundKey a) = 176" by (rule encrypt_envelope [OF ok])
  have len: "length ?env = ?l"
    using length_envelope [OF ok(2)] length_padded [of ?m] by simp
  have "answers cr topic c ?e" if "keys_ok cr" "same_keys cr ?cr" for cr
  proof -
    have "?env = envelope cr ?iv topic ?m" using that by (intro envelope_cong) (simp_all add: same_keys_def)
    then have "snd (decrypt_aes_hmac_combined cr ?buf topic (?env @ []) (length ?env)) =
        (put_bytes ?buf 0 (padded ?m), length ?m)"
      using that ok p len assms(2,3) by (intro decrypt_envelope [where iv = ?iv]) simp_all
    then show ?thesis
      by (simp add: answers_def split_beta) (simp add: put_bytes_def padded_def)
  qed
  then have answer: "answered ?cr topic c ?e" by (simp add: answered_def)
  show thesis
  proof (rule that [of "(?env @ drop ?l ?buf, ?l)" a ?e])
    show "run_state (encrypt_now env topic c) d = ((?env @ drop ?l ?buf, ?l), sent a [] d)"
      by (simp add: encrypt_now_def enc sent_def Let_def)
    show "publish topic (?env @ drop ?l ?buf, ?l) = event ?e"
      using len by (simp add: publish_def)
  qed (use a answer in simp_all)
qed

lemma run_send_reply:
  assumes "ready env d" and "length c \<le> 511" and "length topic \<le> 127"
  obtains a e where "run_state (send_reply env topic c) d = ((), sent a [e] d)" and "length (RoundKey a) = 176"
    and "answered (dev_keys d) topic c e"
proof -
  from run_encrypt_now [OF assms] obtain r a e
    where "run_state (encrypt_now env topic c) d = (r, sent a [] d)" "length (RoundKey a) = 176" "publish topic r = event e"
      "answered (dev_keys d) topic c e" .
  then show thesis by (intro that [of a e]) (simp_all add: send_reply_def sent_def)
qed

lemma ready_clock_read [simp]: "ready env (clock_read env' d) = ready env d"
  by (simp add: ready_def clock_read_def)

lemma run_reply:
  assumes "ready env d" and "length c \<le> 511"
  obtains a e where "run_state (reply env name c) d = ((), sent a [e] (clock_read env d))" and "length (RoundKey a) = 176"
    and "answered (dev_keys d) (topic_of env name d) c e"
proof -
  have "length (topic_of env name d) \<le> 127"
    unfolding topic_of_def using length_sprint [of 128] by simp
  moreover have "ready env (clock_read env d)" "dev_keys (clock_read env d) = dev_keys d"
    using assms(1) by (simp_all add: clock_read_def ready_def)
  moreover note assms(2)
  ultimately obtain a e
    where "run_state (send_reply env (topic_of env name d) c) (clock_read env d) = ((), sent a [e] (clock_read env d))"
      "length (RoundKey a) = 176" "answered (dev_keys d) (topic_of env name d) c e"
    by (metis run_send_reply)
  then show thesis by (intro that [of a e]) (simp_all add: reply_def run_reply_topic)
qed


section \<open>Which messages are obeyed\<close>

text \<open>What a refused message may change: the round keys of the cipher, and the reading of the clock.\<close>

definition refused :: "device \<Rightarrow> device \<Rightarrow> bool" where
  "refused d d' \<longleftrightarrow> (\<exists>a t. length (RoundKey a) = 176 \<and> d' = d\<lparr>dev_keys := (dev_keys d)\<lparr>aes_static := a\<rparr>, dev_time := t\<rparr>)"

lemma refused_refl: "keys_ok (dev_keys d) \<Longrightarrow> refused d d"
  unfolding refused_def by (rule exI [of _ "aes_static (dev_keys d)"], rule exI [of _ "dev_time d"]) (simp add: keys_ok_def)

definition topic_parts :: "rpc_env \<Rightarrow> bytes \<Rightarrow> u64 \<times> bytes" where
  "topic_parts env topic = parse_topic (takeWhile (\<lambda>b. b \<noteq> 0) topic) 0 (0, stack_name env)"

text \<open>
  What the callback decrypts: the payload, or, when it has 512 bytes or more and so is not copied,
  as many bytes of what the buffer held before.
\<close>

definition message_read :: "rpc_env \<Rightarrow> bytes \<Rightarrow> bytes" where
  "message_read env payload = (if length payload < 512 then payload else take (length payload) (stack_message env))"

definition message_buffer :: "rpc_env \<Rightarrow> bytes \<Rightarrow> bytes" where
  "message_buffer env payload =
     (if length payload < 512 then put_bytes (stack_message env) 0 (payload @ [0]) else stack_message env)"

lemma message_buffer_read:
  assumes "length (stack_message env) = 576" and "length payload < 576"
  shows "length (message_buffer env payload) = 576"
    and "take (length payload) (message_buffer env payload) = message_read env payload"
    and "length (message_read env payload) = length payload"
  using assms by (simp_all add: message_buffer_def message_read_def put_bytes_def)

text \<open>The clear text of a long message goes over the end of its destination.\<close>

definition overrun :: "device \<Rightarrow> device \<Rightarrow> bool" where
  "overrun d d' \<longleftrightarrow> (\<exists>r. refused d r \<and> d' = r\<lparr>dev_out := dev_out d @ [OutOfBounds]\<rparr>)"

text \<open>The run of the callback, as far as its guards let it come.\<close>

lemma data_cb_cases:
  assumes "run_state (mqtt_data_cb env topic payload) d = ((), d')" and "keys_ok (dev_keys d)"
  obtains "refused d d'"
  | a out n where "\<not> dev_ota_in_progress d" "length topic < 128" "length payload < 576" "length (RoundKey a) = 176" "n \<noteq> 0"
      "decrypt_aes_hmac_combined (dev_keys d) (replicate 528 0) topic (message_buffer env payload)
         (length payload) = ((dev_keys d)\<lparr>aes_static := a\<rparr>, out, n)"
      "if length payload \<le> 560
       then in_window (fst (topic_parts env topic)) (unix_now env d) \<and>
         run_state (dispatch env (snd (topic_parts env topic)) (takeWhile (\<lambda>b. b \<noteq> 0) (take 512 out)))
           (clock_read env (d\<lparr>dev_keys := (dev_keys d)\<lparr>aes_static := a\<rparr>\<rparr>)) = ((), d')
       else overrun d d'"
proof (cases "dev_ota_in_progress d \<or> length topic = 0 \<or> length topic \<ge> 128 \<or> length payload = 0 \<or> length payload \<ge> 576")
  case True
  then have "run_state (mqtt_data_cb env topic payload) d = ((), d)"
    by (elim disjE) (simp_all add: mqtt_data_cb_def Let_def)
  then have "d' = d" using assms(1) by simp
  then show thesis using that(1) refused_refl [OF assms(2)] by simp
next
  case False
  let ?m = "message_buffer env payload"
  obtain cr out n where dec: "decrypt_aes_hmac_combined (dev_keys d) (replicate 528 0) topic ?m (length payload) = (cr, out, n)"
    by (rule prod_cases3)
  from decrypt_static [OF dec assms(2)] obtain a where a: "cr = (dev_keys d)\<lparr>aes_static := a\<rparr>" "length (RoundKey a) = 176" .
  let ?d = "d\<lparr>dev_keys := (dev_keys d)\<lparr>aes_static := a\<rparr>\<rparr>"
  obtain r f where p: "topic_parts env topic = (r, f)" by (rule prod.exhaust)
  have now: "unix_now env ?d = unix_now env d" by (simp add: unix_now_def)
  have long: "512 < length payload - 48 \<longleftrightarrow> \<not> length payload \<le> 560" by linarith
  have run: "run_state (mqtt_data_cb env topic payload) d =
      (if n = 0 then ((), ?d)
       else if \<not> length payload \<le> 560 then ((), ?d\<lparr>dev_out := dev_out d @ [OutOfBounds]\<rparr>)
       else if in_window r (unix_now env d)
       then run_state (dispatch env f (takeWhile (\<lambda>b. b \<noteq> 0) (take 512 out))) (clock_read env ?d)
       else ((), clock_read env ?d))"
    using False p unfolding mqtt_data_cb_def Let_def message_buffer_def [symmetric]
    by (simp add: dec a(1) run_unix_time_now now topic_parts_def long split_beta)
  have d: "refused d ?d" unfolding refused_def by (rule exI [of _ a], rule exI [of _ "dev_time d"]) (simp add: a(2))
  then have "overrun d (?d\<lparr>dev_out := dev_out d @ [OutOfBounds]\<rparr>)" unfolding overrun_def by blast
  moreover have "refused d (clock_read env ?d)" unfolding refused_def clock_read_def using a(2) by auto
  ultimately show thesis
    using d that(1) that(2) [of a n out] run assms(1) a dec p False by (auto split: if_splits)
qed

text \<open>
  C5: No command without authentication: whatever arrives on a subscribed topic, of whatever length,
  either nothing but the round keys of the cipher and the reading of the clock changes, or the first
  32 bytes of the message read are the HMAC, under the device's key, of the topic and of all the bytes
  behind them, no update is running, and the time in the topic is at most half an hour from the
  device's clock. The message read is the payload up to 511 bytes. From 512 to 575 bytes it is, in its
  place, what the buffer held before: the callback lets such a message pass without copying it. Of
  these, one of more than 560 bytes whose tag fits overruns the clear text, whatever its time.
\<close>

theorem command_needs_hmac:
  assumes "run_state (mqtt_data_cb env topic payload) d = ((), d')"
    and "keys_ok (dev_keys d)" and "length (stack_message env) = 576"
  shows "refused d d' \<or>
    (let m = message_read env payload
     in take 32 m = HMAC (hmac_sha256_key (dev_keys d)) (topic @ drop 32 m) \<and> length payload < 576 \<and>
        \<not> dev_ota_in_progress d \<and>
        (if length payload \<le> 560 then in_window (fst (topic_parts env topic)) (unix_now env d) else overrun d d'))"
  using assms(1,2)
proof (cases rule: data_cb_cases)
  case (2 a out n)
  let ?m = "message_buffer env payload" and ?l = "length payload"
  note m = message_buffer_read [OF assms(3) 2(3)]
  have "48 \<le> ?l" "take 32 ?m = HMAC (hmac_sha256_key (dev_keys d)) (topic @ sub_bytes ?m 32 (?l - 32))"
    using 2 assms(2) m(1) decrypt_tag [of "dev_keys d" topic ?m ?l] by auto
  moreover have "sub_bytes ?m 32 (?l - 32) = drop 32 (message_read env payload)"
    unfolding m(2) [symmetric] by (simp add: sub_bytes_def drop_take)
  moreover have "take 32 ?m = take 32 (message_read env payload)" if "48 \<le> ?l"
    unfolding m(2) [symmetric] using that by (simp add: min_def)
  ultimately show ?thesis using 2 by (auto simp: Let_def split: if_splits)
qed simp


text \<open>The witness device: a configured meter with sample keys that knows the time.\<close>

definition sample_env :: rpc_env where
  "sample_env = \<lparr>sntp_now = 1700000000, random_iv = (\<lambda>i. replicate 16 9), flash_store = id, factory = sample_defaults,
     ac_options = \<lparr>thermo_no = True, thermo_on_ac_2 = False, led_on_ac = False\<rparr>, sdk_version = ascii ''3.0.3'',
     fw_version = ascii ''1.0'', lwip_version = ascii ''2.1'', hw_model = ascii ''MC'', vdd_volt = \<lparr>dbl_negative = False,
     dbl_int = 3, dbl_scaled = (\<lambda>k. 300)\<rparr>, wifi_rssi = -70, station_ssid = ascii ''home'', disconnects = 0,
     ping_times = None, wifi_reason = ascii ''none'', free_heap = 20000, chip_id = 1, jedec_id = 0x1640ef, rst_info = None,
     rtc_watchdog_rebooted = None, start_ota = (\<lambda>u a b. State_Monad.return (True, None)), stack_crcs = (0, 0),
     stack_message = replicate 576 0, stack_name = [], fallback_active = False, csa_calls = 0,
     test_result = (True, [], 0, [], 0), mqtt_init_ok = True, ota_fw = False, ap_password = ascii ''aabbccddeeff''\<rparr>"

definition sample_device :: device where
  "sample_device = (power_on (replicate 3072 0) 0 0 False)\<lparr>dev_serial := 1234567, dev_energy_kwh := 100\<rparr>"

lemma sample_keys_ok: "keys_ok (dev_keys sample_device)"
  by (simp add: sample_device_def power_on_def keys_ok_def)

text \<open>The number in the topic is a signed 32-bit one.\<close>

lemma parse_topic_time:
  "fst r \<in> range (scast :: u32 \<Rightarrow> u64) \<Longrightarrow> fst (parse_topic rest i r) \<in> range (scast :: u32 \<Rightarrow> u64)"
proof (induction rest i r rule: parse_topic.induct)
  case (1 rest i t f)
  then show ?case
    by (cases "strtok_r 0x2F rest") (auto simp: parse_topic.simps [of rest i t f])
qed

lemma topic_time: "fst (topic_parts env topic) \<in> range (scast :: u32 \<Rightarrow> u64)"
  unfolding topic_parts_def by (intro parse_topic_time image_eqI [of _ _ 0]) simp_all

lemma scast_range:
  assumes "v \<in> range (scast :: u32 \<Rightarrow> u64)"
  shows "unat v < 2 ^ 31 \<or> 2 ^ 64 - 2 ^ 31 \<le> unat v"
proof -
  from assms obtain w :: u32 where v: "v = scast w" by auto
  have s: "sint v = sint w" unfolding v by (rule sint_up_scast) (simp add: is_up)
  have r: "- (2 ^ 31) \<le> sint w" "sint w < 2 ^ 31" using sint_range_size [of w] by (simp_all add: word_size)
  have neg: "k mod 2 ^ 64 = k + 2 ^ 64" if "- (2 ^ 31) \<le> k" "k < 0" for k :: int
    using that mod_pos_pos_trivial [of "k + 2 ^ 64" "2 ^ 64"] by simp
  have "uint v = (if sint w < 0 then sint w + 2 ^ 64 else sint w)"
    using s uint_sint [of v] r neg [of "sint w"] by (auto simp: take_bit_eq_mod)
  then show ?thesis using r by (auto simp: unat_eq_nat_uint nat_less_iff le_nat_iff split: if_splits)
qed

lemma window_open:
  assumes "in_window r now" and "unat now < 2 ^ 63" and "r \<in> range (scast :: u32 \<Rightarrow> u64)"
  shows "1800 \<le> unat now \<and> unat now < 2 ^ 31 + 1800"
proof -
  have up: "unat (now + 1800) = unat now + 1800" using assms(2) by (simp add: unat_word_ariths)
  have le: "now - 1800 \<le> r" "r \<le> now + 1800" using assms(1) by (simp_all add: in_window_def not_less)
  have r: "unat r \<le> unat now + 1800" using le(2) by (simp add: word_le_nat_alt up)
  then have small: "unat r < 2 ^ 31" using scast_range [OF assms(3)] assms(2) by simp
  have "1800 \<le> unat now"
  proof (rule ccontr)
    assume "\<not> 1800 \<le> unat now"
    then have "unat (now - 1800) = 2 ^ 64 + unat now - 1800" by (simp add: unat_sub_if')
    then show False using le(1) small by (simp add: word_le_nat_alt)
  qed
  then have "unat (now - 1800) = unat now - 1800" by (simp add: unat_sub_if')
  then show ?thesis using le(1) small \<open>1800 \<le> unat now\<close> by (simp add: word_le_nat_alt)
qed

text \<open>
  C13: The device obeys commands only between half an hour after the start of the epoch and half an
  hour after the nineteenth of January 2038: before the time is known it refuses every message, and
  after that day too, because the time in the topic is read as a signed 32-bit number, although the
  clock itself counts on.
\<close>

theorem no_command_without_clock:
  assumes "run_state (mqtt_data_cb env topic payload) d = ((), d')" and "length payload \<le> 560"
    and "keys_ok (dev_keys d)" and "unat (unix_now env d) < 1800 \<or> 2 ^ 31 + 1800 \<le> unat (unix_now env d)"
    and "unat (unix_now env d) < 2 ^ 63"
  shows "refused d d'"
  using assms(1,3)
proof (cases rule: data_cb_cases)
  case (2 a out n)
  have "in_window (fst (topic_parts env topic)) (unix_now env d)" using 2(7) assms(2) by simp
  from window_open [OF this assms(5) topic_time] assms(4) show ?thesis by simp
qed

theorem no_command_without_clock_witness:
  "refused sample_device (snd (run_state (mqtt_data_cb (sample_env\<lparr>sntp_now := 0\<rparr>) (ascii ''/config/v2/1234567/0/open'')
     (replicate 64 1)) sample_device))"
proof -
  let ?m = "mqtt_data_cb (sample_env\<lparr>sntp_now := 0\<rparr>) (ascii ''/config/v2/1234567/0/open'') (replicate 64 1)"
  have r: "run_state ?m sample_device = ((), snd (run_state ?m sample_device))" by (simp add: prod_eq_iff)
  have "unix_now (sample_env\<lparr>sntp_now := 0\<rparr>) sample_device = 0"
    by (simp add: unix_now_def get_unix_time_def)
  then show ?thesis by (intro no_command_without_clock [OF r _ sample_keys_ok]) simp_all
qed


text \<open>The topic of a command, and the loop over its parts.\<close>

definition command_topic :: "bytes \<Rightarrow> bytes \<Rightarrow> bytes \<Rightarrow> bytes \<Rightarrow> bytes \<Rightarrow> bytes" where
  "command_topic p1 p2 p3 time name = 0x2F # p1 @ 0x2F # p2 @ 0x2F # p3 @ 0x2F # time @ 0x2F # name"

definition topic_part :: "bytes \<Rightarrow> bool" where
  "topic_part p \<longleftrightarrow> p \<noteq> [] \<and> 0x2F \<notin> set p \<and> 0 \<notin> set p"

lemma parse_topic_part:
  "topic_part p \<Longrightarrow> parse_topic (p @ 0x2F # rest) i (t, f) = parse_topic rest (i + 1) (if i = 3 then scast (atoi p) else t, take 32 p)"
  by (simp add: topic_part_def parse_topic.simps [of "p @ 0x2F # rest"] strtok_r_first)

lemma parse_topic_last:
  "topic_part p \<Longrightarrow> parse_topic p i (t, f) = (if i = 3 then scast (atoi p) else t, take 32 p)"
  by (simp add: topic_part_def parse_topic.simps [of p] strtok_r_single) (simp add: parse_topic.simps strtok_r_def)

lemma parse_topic_slash: "parse_topic (0x2F # rest) i r = parse_topic rest i r"
  by (cases r) (simp add: parse_topic.simps [of rest] parse_topic.simps [of "0x2F # rest"] strtok_r_def)

lemma takeWhile_nonzero: "0 \<notin> set s \<Longrightarrow> takeWhile (\<lambda>b. b \<noteq> 0) s = s"
  by (simp add: takeWhile_eq_all_conv) blast

lemma topic_parts_command:
  assumes "topic_part p1" "topic_part p2" "topic_part p3" "topic_part time" "topic_part name"
  shows "topic_parts env (command_topic p1 p2 p3 time name) = (scast (atoi time), take 32 name)"
proof -
  have "0 \<notin> set (command_topic p1 p2 p3 time name)"
    using assms by (auto simp: command_topic_def topic_part_def)
  then show ?thesis
    using assms by (simp add: topic_parts_def takeWhile_nonzero)
      (simp add: command_topic_def parse_topic_slash parse_topic_part parse_topic_last)
qed

lemma scast_small: "n < 2 ^ 31 \<Longrightarrow> scast (of_nat n :: u32) = (of_nat n :: u64)"
  by (simp add: scast_eq signed_of_nat signed_take_bit_int_eq_self)

lemma topic_part_digits: "is_digits ds \<Longrightarrow> ds \<noteq> [] \<Longrightarrow> topic_part (digit_string ds)"
proof -
  assume a: "is_digits ds" "ds \<noteq> []"
  have "digit_char d \<noteq> 0x2F \<and> digit_char d \<noteq> 0" if "d < 10" for d
    using unat_digit_char [OF that] by auto
  then show ?thesis using a by (auto simp: topic_part_def digit_string_def list_all_iff)
qed

lemma in_window_near:
  assumes "t < 2 ^ 31" and "unat now \<le> t + 1800" and "t \<le> unat now + 1800" and "1800 \<le> unat now"
  shows "in_window (of_nat t) now"
proof -
  have "unat (now + 1800) = unat now + 1800" using assms by (simp add: unat_word_ariths)
  moreover have "unat (now - 1800) = unat now - 1800" using assms by (simp add: unat_sub_if')
  moreover have "unat (of_nat t :: u64) = t" using assms by (simp add: unat_of_nat)
  ultimately show ?thesis using assms by (simp add: in_window_def word_less_nat_alt)
qed

lemma c_string_padded:
  assumes "0 \<notin> set s" and "length s < n"
  shows "takeWhile (\<lambda>b. b \<noteq> 0) (take n (put_bytes buf 0 (padded (s @ [0])))) = s"
proof -
  obtain r where r: "put_bytes buf 0 (padded (s @ [0])) = s @ 0 # r" by (simp add: put_bytes_def padded_def)
  obtain k where "n - length s = Suc k" using assms(2) by (cases "n - length s") auto
  then have "take n (s @ 0 # r) = s @ 0 # take k r" using assms(2) by simp
  then show ?thesis using r assms(1) by (auto simp: takeWhile_append takeWhile_nonzero)
qed

text \<open>
  The commands by their names, in the order of the alphabet, each with the procedure it stands for and
  what of the message that gets; any other name does nothing.
\<close>

definition rpc_table :: "(string \<times> (rpc_env \<Rightarrow> bytes \<Rightarrow> unit rpc)) list" where
  "rpc_table =
     [(''ap_status'', \<lambda>env _. mqtt_rpc_ap_status env),
      (''chip_id'', \<lambda>env _. mqtt_rpc_chip_id env),
      (''clear_cron'', \<lambda>env _. mqtt_rpc_clear_cron env),
      (''close'', \<lambda>env _. mqtt_rpc_close env),
      (''cron'', \<lambda>env _. mqtt_rpc_cron env),
      (''disconnect_count'', \<lambda>env _. mqtt_rpc_disconnect_count env),
      (''fallback_status'', \<lambda>env _. mqtt_rpc_fallback_status env),
      (''flash_id'', \<lambda>env _. mqtt_rpc_flash_id env),
      (''flash_size'', \<lambda>env _. mqtt_rpc_flash_size env),
      (''mem'', \<lambda>env _. mqtt_rpc_mem env),
      (''network_quality'', \<lambda>env _. mqtt_rpc_network_quality env),
      (''open'', \<lambda>env _. mqtt_rpc_open env),
      (''open_until'', \<lambda>env p. mqtt_rpc_open_until env (Some p)),
      (''open_until_delta'', \<lambda>env p. mqtt_rpc_open_until_delta env (Some p)),
      (''ota_update'', \<lambda>env p. mqtt_rpc_ota_update env (Some p)),
      (''ping'', \<lambda>env _. mqtt_rpc_ping env),
      (''reconnect'', \<lambda>_ _. mqtt_rpc_reconnect),
      (''reset_reason'', \<lambda>env _. mqtt_rpc_reset_reason env),
      (''restart'', \<lambda>env _. mqtt_rpc_restart env),
      (''rssi'', \<lambda>env _. mqtt_rpc_rssi env),
      (''scan'', \<lambda>env _. mqtt_rpc_scan env),
      (''set_ap_mesh_pwd'', \<lambda>env p. mqtt_rpc_set_ap_mesh_pwd env (Some p)),
      (''set_cron'', \<lambda>env p. mqtt_rpc_set_cron env (Some p)),
      (''set_key'', \<lambda>env p. mqtt_rpc_set_key env (Some p)),
      (''set_mqtt_host'', \<lambda>env p. mqtt_rpc_set_mqtt_host env (Some p)),
      (''set_pwd'', \<lambda>env p. mqtt_rpc_set_pwd env (Some p)),
      (''set_ssid'', \<lambda>env p. mqtt_rpc_set_ssid env (Some p)),
      (''set_ssid_pwd'', \<lambda>env p. mqtt_rpc_set_ssid_pwd env (Some p)),
      (''ssid'', \<lambda>env _. mqtt_rpc_ssid env),
      (''start_ap'', \<lambda>env _. do { m \<leftarrow> get_dev dev_mesh_ssid; mqtt_rpc_start_ap env (Some m) }),
      (''start_fallback_ap'', \<lambda>env p. do { m \<leftarrow> get_dev dev_mesh_ssid; mqtt_rpc_start_fallback_ap env (Some p) (Some m) }),
      (''status'', \<lambda>env _. mqtt_rpc_status env),
      (''stop_ap'', \<lambda>env _. mqtt_rpc_stop_ap env),
      (''test_ssid_pwd'', \<lambda>env p. mqtt_rpc_test_ssid_pwd env (Some p)),
      (''uptime'', \<lambda>env _. mqtt_rpc_uptime env),
      (''vdd'', \<lambda>env _. mqtt_rpc_vdd env),
      (''version'', \<lambda>env _. mqtt_rpc_version env),
      (''wifi_status'', \<lambda>env _. mqtt_rpc_wifi_status env)]"

definition obey :: "rpc_env \<Rightarrow> bytes \<Rightarrow> bytes \<Rightarrow> unit rpc" where
  "obey env name params =
     (case find (\<lambda>(n, h). name = ascii n) rpc_table of Some (n, h) \<Rightarrow> h env params | None \<Rightarrow> skip)"

lemma rpc_names: "distinct (map (ascii \<circ> fst) rpc_table)"
  by (simp add: rpc_table_def ascii_def)

lemma obey_command: "(n, h) \<in> set rpc_table \<Longrightarrow> obey env (ascii n) params = h env params"
  by (simp only: obey_def find_command [OF rpc_names] option.case prod.case)

lemma dispatch_obeys: "dispatch env (take 32 name) params = obey env name params"
proof -
  have eq: "strncmp_eq (take 32 name) (ascii n) 32 \<longleftrightarrow> name = ascii n" if "length n < 32" for n
  proof -
    have "take 32 name = name" if "take 32 name = ascii n"
    proof -
      have "length (take 32 name) < 32" using that \<open>length n < 32\<close> by simp
      then show ?thesis by simp
    qed
    then have "take 32 name = ascii n \<longleftrightarrow> name = ascii n" using that by auto
    then show ?thesis using that by (simp add: strncmp_eq_def)
  qed
  have code: "dispatch env (take 32 name) params = (if name = ascii ''ping'' then mqtt_rpc_ping env
     else if name = ascii ''version'' then mqtt_rpc_version env
     else if name = ascii ''uptime'' then mqtt_rpc_uptime env
     else if name = ascii ''vdd'' then mqtt_rpc_vdd env
     else if name = ascii ''rssi'' then mqtt_rpc_rssi env
     else if name = ascii ''ssid'' then mqtt_rpc_ssid env
     else if name = ascii ''scan'' then mqtt_rpc_scan env
     else if name = ascii ''set_ssid'' then mqtt_rpc_set_ssid env (Some params)
     else if name = ascii ''set_pwd'' then mqtt_rpc_set_pwd env (Some params)
     else if name = ascii ''set_ssid_pwd'' then mqtt_rpc_set_ssid_pwd env (Some params)
     else if name = ascii ''set_ap_mesh_pwd'' then mqtt_rpc_set_ap_mesh_pwd env (Some params)
     else if name = ascii ''test_ssid_pwd'' then mqtt_rpc_test_ssid_pwd env (Some params)
     else if name = ascii ''reconnect'' then mqtt_rpc_reconnect
     else if name = ascii ''disconnect_count'' then mqtt_rpc_disconnect_count env
     else if name = ascii ''network_quality'' then mqtt_rpc_network_quality env
     else if name = ascii ''wifi_status'' then mqtt_rpc_wifi_status env
     else if name = ascii ''ap_status'' then mqtt_rpc_ap_status env
     else if name = ascii ''start_ap'' then do { m \<leftarrow> get_dev dev_mesh_ssid; mqtt_rpc_start_ap env (Some m) }
     else if name = ascii ''stop_ap'' then mqtt_rpc_stop_ap env
     else if name = ascii ''start_fallback_ap'' then do { m \<leftarrow> get_dev dev_mesh_ssid; mqtt_rpc_start_fallback_ap env (Some params) (Some m) }
     else if name = ascii ''fallback_status'' then mqtt_rpc_fallback_status env
     else if name = ascii ''mem'' then mqtt_rpc_mem env
     else if name = ascii ''chip_id'' then mqtt_rpc_chip_id env
     else if name = ascii ''flash_id'' then mqtt_rpc_flash_id env
     else if name = ascii ''flash_size'' then mqtt_rpc_flash_size env
     else if name = ascii ''reset_reason'' then mqtt_rpc_reset_reason env
     else if name = ascii ''restart'' then mqtt_rpc_restart env
     else if name = ascii ''ota_update'' then mqtt_rpc_ota_update env (Some params)
     else if name = ascii ''set_key'' then mqtt_rpc_set_key env (Some params)
     else if name = ascii ''set_mqtt_host'' then mqtt_rpc_set_mqtt_host env (Some params)
     else if name = ascii ''set_cron'' then mqtt_rpc_set_cron env (Some params)
     else if name = ascii ''clear_cron'' then mqtt_rpc_clear_cron env
     else if name = ascii ''cron'' then mqtt_rpc_cron env
     else if name = ascii ''open'' then mqtt_rpc_open env
     else if name = ascii ''open_until'' then mqtt_rpc_open_until env (Some params)
     else if name = ascii ''open_until_delta'' then mqtt_rpc_open_until_delta env (Some params)
     else if name = ascii ''close'' then mqtt_rpc_close env
     else if name = ascii ''status'' then mqtt_rpc_status env else skip)"
    by (simp add: dispatch_def eq Let_def)
  consider n h where "name = ascii n" "(n, h) \<in> set rpc_table" | "\<forall>(n, h) \<in> set rpc_table. name \<noteq> ascii n" by blast
  then show ?thesis
  proof cases
    case 1
    from 1(2) have "dispatch env (take 32 name) params = h env params"
      unfolding code
      by (simp only: rpc_table_def list.set insert_iff empty_iff prod.inject)
        (elim disjE conjE FalseE; simp add: 1(1) ascii_def)
    then show ?thesis using obey_command [OF 1(2)] by (simp add: 1(1))
  next
    case 2
    then have "find (\<lambda>(n, h). name = ascii n) rpc_table = None" by (auto simp: find_None_iff)
    then have "obey env name params = skip" by (simp add: obey_def)
    then show ?thesis unfolding code using 2 by (simp add: rpc_table_def)
  qed
qed

text \<open>
  C9: The holder of the keys is obeyed: a command that is encrypted under the device's keys for its
  topic \<open>/config/v2/serial/time/name\<close>, has at most 446 bytes and a time not more than half an hour from
  the device's clock runs the procedure that the table of commands gives its name, with exactly its
  parameters, while no update is running; a name that is not in the table does nothing.
\<close>

theorem command_is_obeyed:
  assumes "keys_ok (dev_keys d)" and "keys_ok server" and "same_keys server (dev_keys d)" and "length iv = 16"
    and "topic = command_topic p1 p2 p3 (digit_string ds) name" and "length topic < 128"
    and "topic_part p1" "topic_part p2" "topic_part p3" "topic_part name" and "is_digits ds" "ds \<noteq> []" "dec_value ds < 2 ^ 31"
    and "0 \<notin> set params" and "length params \<le> 446" and "\<not> dev_ota_in_progress d"
    and "unat (unix_now env d) \<le> dec_value ds + 1800" "dec_value ds \<le> unat (unix_now env d) + 1800" "1800 \<le> unat (unix_now env d)"
  shows "\<exists>a. length (RoundKey a) = 176 \<and> run_state (mqtt_data_cb env topic (envelope server iv topic (params @ [0]))) d =
    run_state (obey env name params) (clock_read env (d\<lparr>dev_keys := (dev_keys d)\<lparr>aes_static := a\<rparr>\<rparr>))"
proof -
  let ?m = "params @ [0]"
  let ?msg = "envelope server iv topic ?m"
  let ?p = "padded ?m"
  have len: "length ?msg = 48 + length ?p" using length_envelope [OF assms(4)] length_padded [of ?m] by simp
  have p: "length ?p \<le> 448" using assms(15) by (simp add: length_padded)
  have msg: "?msg = envelope (dev_keys d) iv topic ?m"
    using assms(3) by (intro envelope_cong) (simp_all add: same_keys_def)
  let ?buf = "put_bytes (stack_message env) 0 (?msg @ [0])"
  have buf: "?buf = ?msg @ 0 # drop (Suc (length ?msg)) (stack_message env)" by (simp add: put_bytes_def)
  have "snd (decrypt_aes_hmac_combined (dev_keys d) (replicate 528 0) topic (?msg @ 0 # drop (Suc (length ?msg)) (stack_message env)) (length ?msg)) =
      (put_bytes (replicate 528 0) 0 ?p, length ?m)"
    using assms(1,4,6,15) p len msg by (intro decrypt_envelope [where iv = iv]) simp_all
  then obtain cr where dec: "decrypt_aes_hmac_combined (dev_keys d) (replicate 528 0) topic ?buf (length ?msg) =
      (cr, put_bytes (replicate 528 0) 0 ?p, length ?m)" unfolding buf by (metis prod.collapse)
  from decrypt_static [OF dec assms(1)] obtain a where a: "cr = (dev_keys d)\<lparr>aes_static := a\<rparr>" "length (RoundKey a) = 176" .
  have parts: "topic_parts env topic = (of_nat (dec_value ds), take 32 name)"
    unfolding assms(5) using assms by (simp add: topic_parts_command topic_part_digits atoi_value scast_small)
  have now: "unix_now env (d\<lparr>dev_keys := k\<rparr>) = unix_now env d" for k by (simp add: unix_now_def)
  have window: "in_window (of_nat (dec_value ds)) (unix_now env d)"
    using assms(13,17-19) by (rule in_window_near)
  have "topic \<noteq> []" by (simp add: assms(5) command_topic_def)
  then have "run_state (mqtt_data_cb env topic ?msg) d =
      run_state (dispatch env (take 32 name) params) (clock_read env (d\<lparr>dev_keys := (dev_keys d)\<lparr>aes_static := a\<rparr>\<rparr>))"
    using assms(6,14-16) len p dec a(1) c_string_padded parts window
    by (simp add: mqtt_data_cb_def Let_def topic_parts_def run_unix_time_now now)
  then show ?thesis using a(2) unfolding dispatch_obeys by blast
qed


abbreviation (input) sample_topic :: bytes where
  "sample_topic \<equiv> ascii ''/config/v2/1234567/1700000000/status''"

definition sample_command :: bytes where
  "sample_command = envelope (dev_keys sample_device) (replicate 16 5) sample_topic [0]"

lemma sample_now: "unix_now sample_env sample_device = 1700000000"
  by (simp add: unix_now_def get_unix_time_def sample_env_def sample_device_def power_on_def)

lemma sample_topic_parts:
  "sample_topic = command_topic (ascii ''config'') (ascii ''v2'') (ascii ''1234567'')
     (digit_string [1, 7, 0, 0, 0, 0, 0, 0, 0, 0]) (ascii ''status'')"
  by (simp add: command_topic_def digit_string_def digit_char_def ascii_def)

theorem command_is_obeyed_witness:
  "\<exists>a. run_state (mqtt_data_cb sample_env sample_topic sample_command) sample_device =
     run_state (mqtt_rpc_status sample_env)
       (clock_read sample_env (sample_device\<lparr>dev_keys := (dev_keys sample_device)\<lparr>aes_static := a\<rparr>\<rparr>))"
proof -
  have parts: "topic_part (ascii ''config'')" "topic_part (ascii ''v2'')" "topic_part (ascii ''1234567'')" "topic_part (ascii ''status'')"
    by (simp_all add: topic_part_def ascii_def)
  have time: "is_digits [1, 7, 0, 0, 0, 0, 0, 0, 0, 0]" "[1, 7, 0, 0, 0, 0, 0, 0, 0, 0] \<noteq> ([] :: nat list)"
    "dec_value [1, 7, 0, 0, 0, 0, 0, 0, 0, 0] < 2 ^ 31" "dec_value [1, 7, 0, 0, 0, 0, 0, 0, 0, 0] = 1700000000"
    by (simp_all add: dec_value_def)
  have len: "length sample_topic < 128" by (simp add: ascii_def)
  have ota: "\<not> dev_ota_in_progress sample_device" by (simp add: sample_device_def power_on_def)
  have "unat (unix_now sample_env sample_device) = 1700000000" by (simp add: sample_now)
  then have "\<exists>a. length (RoundKey a) = 176 \<and> run_state (mqtt_data_cb sample_env sample_topic
      (envelope (dev_keys sample_device) (replicate 16 5) sample_topic ([] @ [0]))) sample_device =
    run_state (obey sample_env (ascii ''status'') [])
      (clock_read sample_env (sample_device\<lparr>dev_keys := (dev_keys sample_device)\<lparr>aes_static := a\<rparr>\<rparr>))"
    by (intro command_is_obeyed [OF sample_keys_ok sample_keys_ok _ _ sample_topic_parts len parts time(1-3) _ _ ota])
      (simp_all only: time(4) same_keys_def, simp_all)
  moreover have "obey sample_env (ascii ''status'') [] = mqtt_rpc_status sample_env"
    by (simp add: obey_def rpc_table_def ascii_def)
  ultimately show ?thesis by (auto simp: sample_command_def)
qed

theorem command_needs_hmac_witness:
  "refused sample_device (snd (run_state (mqtt_data_cb sample_env sample_topic (replicate 520 1)) sample_device)) \<or>
   replicate 32 0 = HMAC (replicate 16 0) (sample_topic @ replicate 488 0)"
proof -
  let ?m = "mqtt_data_cb sample_env sample_topic (replicate 520 1)"
  have r: "run_state ?m sample_device = ((), snd (run_state ?m sample_device))" by (simp add: prod_eq_iff)
  have stack: "stack_message sample_env = replicate 576 0" "hmac_sha256_key (dev_keys sample_device) = replicate 16 0"
    by (simp_all add: sample_env_def sample_device_def power_on_def del: replicate_numeral)
  have m: "message_read sample_env (replicate 520 1) = replicate 520 0"
    by (simp add: message_read_def stack take_replicate del: replicate_numeral)
  have "take 32 (replicate 520 0) = replicate 32 (0 :: u8)" "drop 32 (replicate 520 0) = replicate 488 (0 :: u8)"
    by (simp_all add: take_replicate drop_replicate del: replicate_numeral)
  then show ?thesis
    using command_needs_hmac [OF r sample_keys_ok] unfolding m stack(2) Let_def
    by (simp only: stack(1) length_replicate) blast
qed

end
