(* ===== verification/RpcValve.thy ===== *)
theory RpcValve
  imports RpcProps
begin

text \<open>
  The commands of the valve with the samples of the meter behind them, the change of the key, and what
  a restart brings back.
\<close>

section \<open>What an answer leaves alone\<close>

definition only_spoke :: "device \<Rightarrow> device \<Rightarrow> bool" where
  "only_spoke d d' \<longleftrightarrow>
     d' = d\<lparr>dev_keys := dev_keys d', dev_ivs := dev_ivs d', dev_out := dev_out d', dev_time := dev_time d'\<rparr>"

lemma only_spoke_refl: "only_spoke d d"
  by (simp add: only_spoke_def)

lemma only_spoke_trans: "only_spoke a b \<Longrightarrow> only_spoke b c \<Longrightarrow> only_spoke a c"
  by (cases a; cases b; cases c) (simp add: only_spoke_def)

lemma only_spoke_fields:
  assumes "only_spoke d d'"
  shows "dev_cfg d' = dev_cfg d" "dev_ac d' = dev_ac d" "dev_cron d' = dev_cron d" "dev_energy_kwh d' = dev_energy_kwh d"
    "dev_serial d' = dev_serial d" "dev_ota_in_progress d' = dev_ota_in_progress d" "offline_close_at d' = offline_close_at d"
  using assms by (cases d; cases d'; simp add: only_spoke_def offline_close_at_def)+

definition speaks :: "'a rpc \<Rightarrow> bool" where
  "speaks m \<longleftrightarrow> (\<forall>d. only_spoke d (snd (run_state m d)))"

lemma speaksD: "speaks m \<Longrightarrow> run_state m d = (x, d') \<Longrightarrow> only_spoke d d'"
  by (metis speaks_def snd_conv)

lemma speaks_after: "speaks m \<Longrightarrow> snd (run_state m d) = d' \<Longrightarrow> only_spoke d d'"
  by (auto simp: speaks_def)

lemma speaks_bind [intro]:
  assumes "speaks m" and "\<And>x. speaks (f x)"
  shows "speaks (State_Monad.bind m f)"
  unfolding speaks_def
proof
  fix d
  obtain x d' where "run_state m d = (x, d')" by (rule prod.exhaust)
  with assms show "only_spoke d (snd (run_state (State_Monad.bind m f) d))"
    by (auto simp: speaks_def intro: only_spoke_trans dest: speaksD [OF assms(1)])
qed

lemma speaks_basic [intro]:
  "speaks (State_Monad.return x)" "speaks State_Monad.get" "speaks (get_dev f)" "speaks skip" "speaks (event e)" "speaks (events es)"
  "speaks (unix_time_now env)" "speaks (encrypt_now env t c)"
  by (simp_all add: speaks_def only_spoke_def run_unix_time_now clock_read_def encrypt_now_def split_beta Let_def)

lemma speaks_publish [intro]: "speaks (publish t r)"
  unfolding publish_def by (cases r) auto

lemma speaks_if [intro]: "speaks m \<Longrightarrow> speaks n \<Longrightarrow> speaks (if b then m else n)"
  by simp

lemma speaks_reply_topic [intro]: "speaks (reply_topic env name)"
  unfolding reply_topic_def by (intro speaks_bind speaks_basic)

lemma speaks_send_reply [intro]: "speaks (send_reply env t c)"
  unfolding send_reply_def by (intro speaks_bind speaks_basic speaks_publish)

lemma speaks_reply [intro]: "speaks (reply env name c)"
  unfolding reply_def by (intro speaks_bind speaks_reply_topic speaks_send_reply)

lemmas speaks_rules = speaks_bind speaks_basic speaks_publish speaks_if speaks_reply_topic speaks_send_reply speaks_reply

lemma speaks_handlers:
  "speaks (mqtt_rpc_status env)" "speaks (mqtt_flash_error env a b)"
  unfolding mqtt_rpc_status_def mqtt_flash_error_def by (intro speaks_rules)+


section \<open>Saving in a flash that keeps what it is given\<close>

lemma cfg_save_id:
  assumes "length (sys_cfg c) = syscfg_len"
  shows "cfg_save id False f c = (True, Some (computed_crc16 (sys_cfg c), computed_crc16 (sys_cfg c)), cfg_write id c)"
  using assms by (simp add: cfg_save_def cfg_load_def cfg_write_def Let_def crc_fields)

definition with_config :: "config \<Rightarrow> device \<Rightarrow> device" where
  "with_config c d = d\<lparr>dev_cfg := c, dev_ac := (dev_ac d)\<lparr>ac_thermo_state := sys_cfg c ! ac_thermo_state_off\<rparr>,
     dev_cron := load_cron (sys_cfg c) (dev_cron d)\<rparr>"

lemma run_use_config: "run_state (use_config c) d = ((), with_config c d)"
  by (simp add: use_config_def with_config_def)

lemma run_save_or_report:
  assumes "flash_store env = id" and "\<not> dev_ota_in_progress d" and "length (sys_cfg (dev_cfg d)) = syscfg_len"
  shows "run_state (save_or_report env) d = ((), with_config (cfg_write id (dev_cfg d)) d)"
  using assms by (simp add: save_or_report_def save_result_def cfg_save_id run_use_config)

text \<open>A field of the image below the checksum.\<close>

lemma cfg_write_nth: "i < crc_off \<Longrightarrow> length (sys_cfg c) = syscfg_len \<Longrightarrow> sys_cfg (cfg_write store c) ! i = sys_cfg c ! i"
  by (simp add: cfg_write_def put_crc16_def put_bytes_def nth_append Let_def)

lemma get_le32_cfg_write:
  "off + 4 \<le> crc_off \<Longrightarrow> length (sys_cfg c) = syscfg_len \<Longrightarrow> get_le32 (sys_cfg (cfg_write store c)) off = get_le32 (sys_cfg c) off"
  by (simp add: get_le32_def cfg_write_nth)

lemma get_put_le32: "off + 4 \<le> length img \<Longrightarrow> get_le32 (put_le32 v off img) off = v"
  by (simp add: get_le32_def put_le32_def put_bytes_def nth_append bytes32_def be32_bytes32)

lemma put_le32_nth: "off + 4 \<le> length img \<Longrightarrow> i < off \<Longrightarrow> put_le32 v off img ! i = img ! i"
  by (simp add: put_le32_def put_bytes_def nth_append)


section \<open>The valve\<close>

definition image_ok :: "device \<Rightarrow> bool" where
  "image_ok d \<longleftrightarrow> length (sys_cfg (dev_cfg d)) = syscfg_len"

lemma cfg_save_defered_image [simp]:
  "sys_cfg (cfg_save_defered b c) = sys_cfg c" "cfg_flash (cfg_save_defered b c) = cfg_flash c"
  by (simp_all add: cfg_save_defered_def)

lemma offline_close_at_update: "i < offline_close_at_off \<Longrightarrow> get_le32 (img[i := x]) offline_close_at_off = get_le32 img offline_close_at_off"
  by (simp add: get_le32_def)

lemma after_ac_do:
  assumes "image_ok d" and "run_state (ac_do f) d = ((), d')"
  shows "dev_ac d' = snd (f (dev_ac d))" "sys_cfg (dev_cfg d') = (sys_cfg (dev_cfg d))[ac_thermo_state_off := ac_thermo_state (dev_ac d')]"
    "offline_close_at d' = offline_close_at d" "image_ok d'" "dev_ota_in_progress d' = dev_ota_in_progress d"
    "dev_energy_kwh d' = dev_energy_kwh d" "dev_cron d' = dev_cron d" "dev_keys d' = dev_keys d"
    "cfg_flash (dev_cfg d') = cfg_flash (dev_cfg d)"
  using assms
  by (auto simp: ac_do_def image_ok_def offline_close_at_def offline_close_at_update Let_def split_beta split: if_splits)

lemma valve_after_open: "valve_open c (snd (ac_thermo_open c a)) \<and> ac_thermo_state (snd (ac_thermo_open c a)) \<noteq> 0"
  by (simp add: ac_thermo_open_def set_thermo_def valve_open_def Let_def)

lemma valve_after_close: "\<not> valve_open c (snd (ac_thermo_close c a)) \<and> ac_thermo_state (snd (ac_thermo_close c a)) = 0"
  by (simp add: ac_thermo_close_def set_thermo_def valve_open_def Let_def)

lemma valve_open_state [simp]: "valve_open c (a\<lparr>ac_thermo_state := x\<rparr>) = valve_open c a"
  by (simp add: valve_open_def)

text \<open>The new mark is stored, and the valve stays as it is.\<close>

lemma after_new_mark:
  assumes "image_ok d" and "flash_store env = id" and "\<not> dev_ota_in_progress d"
    and "sys_cfg (dev_cfg d) ! ac_thermo_state_off = ac_thermo_state (dev_ac d)"
    and "run_state (do { set_close_at v; save_or_report env }) d = ((), d')"
  shows "offline_close_at d' = v" "dev_ac d' = dev_ac d" "image_ok d'" "dev_energy_kwh d' = dev_energy_kwh d"
    "get_le32 (cfg_flash (dev_cfg d')) offline_close_at_off = v"
proof -
  let ?img = "put_le32 v offline_close_at_off (sys_cfg (dev_cfg d))"
  let ?d = "d\<lparr>dev_cfg := (dev_cfg d)\<lparr>sys_cfg := ?img\<rparr>\<rparr>"
  have len: "length (sys_cfg (dev_cfg d)) = syscfg_len" using assms(1) by (simp add: image_ok_def)
  have img: "length ?img = syscfg_len" using len by (intro put_le32_keeps) simp_all
  have "run_state (save_or_report env) ?d = ((), with_config (cfg_write id (dev_cfg ?d)) ?d)"
    using assms(2,3) img by (intro run_save_or_report) simp_all
  then have d': "d' = with_config (cfg_write id (dev_cfg ?d)) ?d"
    using assms(5) by (simp add: set_close_at_def)
  have mark: "get_le32 (sys_cfg (cfg_write id (dev_cfg ?d))) offline_close_at_off = v"
    using img len by (simp add: get_le32_cfg_write get_put_le32)
  then show "offline_close_at d' = v" by (simp add: d' with_config_def offline_close_at_def)
  show "get_le32 (cfg_flash (dev_cfg d')) offline_close_at_off = v"
    using mark by (simp add: d' with_config_def cfg_write_def Let_def)
  show "dev_ac d' = dev_ac d"
    using img len assms(4) by (simp add: d' with_config_def cfg_write_nth put_le32_nth)
  show "image_ok d'" "dev_energy_kwh d' = dev_energy_kwh d"
    using img by (simp_all add: d' with_config_def image_ok_def cfg_write_def Let_def)
qed


definition valve_follows :: "ac_config \<Rightarrow> ac_out \<Rightarrow> bool" where
  "valve_follows c a \<longleftrightarrow> (valve_open c a \<longleftrightarrow> ac_thermo_state a \<noteq> 0)"

definition open_and_mark :: "rpc_env \<Rightarrow> u32 \<Rightarrow> u32 \<Rightarrow> unit rpc" where
  "open_and_mark env v w = do {
     ac_do (ac_thermo_open (ac_options env));
     at \<leftarrow> get_dev offline_close_at;
     (if at \<noteq> v then do { set_close_at w; save_or_report env } else skip)
   }"

lemma after_open_and_mark:
  assumes "image_ok d" and "flash_store env = id" and "\<not> dev_ota_in_progress d"
    and "run_state (open_and_mark env v w) d = ((), d')"
  shows "offline_close_at d' = (if offline_close_at d = v then v else w)" "valve_open (ac_options env) (dev_ac d')"
    "ac_thermo_state (dev_ac d') \<noteq> 0" "image_ok d'" "dev_energy_kwh d' = dev_energy_kwh d"
proof -
  obtain u da where a: "run_state (ac_do (ac_thermo_open (ac_options env))) d = (u, da)" by (rule prod.exhaust)
  have da: "image_ok da" "valve_open (ac_options env) (dev_ac da)" "ac_thermo_state (dev_ac da) \<noteq> 0" "\<not> dev_ota_in_progress da"
      "sys_cfg (dev_cfg da) ! ac_thermo_state_off = ac_thermo_state (dev_ac da)" "offline_close_at da = offline_close_at d"
      "dev_energy_kwh da = dev_energy_kwh d"
    using after_ac_do [OF assms(1) a [simplified]] valve_after_open [of "ac_options env" "dev_ac d"] assms(1,3)
    by (simp_all add: image_ok_def)
  have "offline_close_at d' = (if offline_close_at d = v then v else w) \<and> dev_ac d' = dev_ac da \<and> image_ok d' \<and>
    dev_energy_kwh d' = dev_energy_kwh da"
  proof (cases "offline_close_at d = v")
    case False
    with a assms(4) da(6) have "run_state (do { set_close_at w; save_or_report env }) da = ((), d')"
      by (simp add: open_and_mark_def)
    from after_new_mark [OF da(1) assms(2) da(4,5) this] False show ?thesis by simp
  qed (use a assms(4) da in \<open>auto simp: open_and_mark_def\<close>)
  then show "offline_close_at d' = (if offline_close_at d = v then v else w)" "valve_open (ac_options env) (dev_ac d')"
    "ac_thermo_state (dev_ac d') \<noteq> 0" "image_ok d'" "dev_energy_kwh d' = dev_energy_kwh d"
    using da by simp_all
qed

text \<open>Both commands open and set the mark, and then only speak.\<close>

lemma open_until_speaks:
  assumes "0 \<le>s atoi value" and "run_state (mqtt_rpc_open_until env (Some value)) d = ((), d')"
  obtains db where "run_state (open_and_mark env (atoi value) (atoi value)) d = ((), db)" and "only_spoke db d'"
proof -
  let ?m = "open_and_mark env (atoi value) (atoi value)"
  let ?rest = "do { topic \<leftarrow> reply_topic env ''open_until''; at \<leftarrow> get_dev offline_close_at;
      send_reply env topic (sprint 512 ''%u'' [Arg32 at]); mqtt_rpc_status env }"
  obtain db where b: "run_state ?m d = ((), db)" by (metis old.unit.exhaust prod.exhaust)
  have "mqtt_rpc_open_until env (Some value) = State_Monad.bind ?m (\<lambda>_. ?rest)"
    using assms(1) by (simp add: mqtt_rpc_open_until_def open_and_mark_def Let_def)
  then have "run_state ?rest db = ((), d')" using assms(2) b by simp
  moreover have "speaks ?rest" by (intro speaks_rules speaks_handlers)
  ultimately have "only_spoke db d'" by (rule speaksD [rotated])
  with b show thesis by (rule that)
qed

lemma open_until_delta_speaks:
  assumes "0 \<le>s atoi value" and "run_state (mqtt_rpc_open_until_delta env (Some value)) d = ((), d')"
  obtains db where "run_state (open_and_mark env (atoi value) (dev_energy_kwh d + atoi value)) d = ((), db)" and "only_spoke db d'"
proof -
  let ?m = "open_and_mark env (atoi value) (dev_energy_kwh d + atoi value)"
  let ?rest = "do { topic \<leftarrow> reply_topic env ''open_until_delta''; at \<leftarrow> get_dev offline_close_at;
      send_reply env topic (sprint 512 ''%u'' [Arg32 (at - dev_energy_kwh d)]); mqtt_rpc_status env }"
  obtain db where b: "run_state ?m d = ((), db)" by (metis old.unit.exhaust prod.exhaust)
  have "run_state (mqtt_rpc_open_until_delta env (Some value)) d = run_state (State_Monad.bind ?m (\<lambda>_. ?rest)) d"
    using assms(1) by (simp add: mqtt_rpc_open_until_delta_def open_and_mark_def Let_def)
  then have "run_state ?rest db = ((), d')" using assms(2) b by simp
  moreover have "speaks ?rest" by (intro speaks_rules speaks_handlers)
  ultimately have "only_spoke db d'" by (rule speaksD [rotated])
  with b show thesis by (rule that)
qed

text \<open>The meter's reading \<open>e\<close> after a sample was sent.\<close>

definition sampled :: "rpc_env \<Rightarrow> device \<Rightarrow> u32 \<Rightarrow> device" where
  "sampled env d e = snd (run_state (meter_sent_data env) (d\<lparr>dev_energy_kwh := e\<rparr>))"

lemma after_sample:
  assumes "image_ok d" and "valve_follows (ac_options env) (dev_ac d)"
  shows "image_ok (sampled env d e)" "offline_close_at (sampled env d e) = offline_close_at d"
    "valve_follows (ac_options env) (dev_ac (sampled env d e))"
    "valve_open (ac_options env) (dev_ac (sampled env d e)) \<longleftrightarrow> valve_open (ac_options env) (dev_ac d) \<and> e < offline_close_at d"
proof -
  let ?c = "ac_options env" and ?d = "d\<lparr>dev_energy_kwh := e\<rparr>"
  have d: "image_ok ?d" "offline_close_at ?d = offline_close_at d" using assms(1) by (simp_all add: image_ok_def offline_close_at_def)
  have "image_ok (sampled env d e) \<and> offline_close_at (sampled env d e) = offline_close_at d \<and>
    valve_follows ?c (dev_ac (sampled env d e)) \<and>
    (valve_open ?c (dev_ac (sampled env d e)) \<longleftrightarrow> valve_open ?c (dev_ac d) \<and> e < offline_close_at d)"
  proof (cases "offline_close_at d \<le> e \<and> ac_thermo_state (dev_ac d) \<noteq> 0")
    case False
    then have "sampled env d e = ?d"
      using d by (auto simp: sampled_def meter_sent_data_def)
    then show ?thesis using False d assms(2) by (auto simp: valve_follows_def)
  next
    case True
    obtain u da where a: "run_state (ac_do (ac_thermo_close ?c)) ?d = (u, da)" by (rule prod.exhaust)
    note da = after_ac_do [OF d(1) a [simplified]] valve_after_close [of ?c "dev_ac d"]
    let ?rest = "do { topic \<leftarrow> reply_topic env ''status''; cleartext \<leftarrow> get_dev thermo_text; r \<leftarrow> encrypt_now env topic cleartext;
      if dev_pcon d then publish topic r else skip }"
    have "speaks ?rest" by (intro speaks_rules)
    moreover have "snd (run_state ?rest da) = sampled env d e"
      using True a d by (simp add: sampled_def meter_sent_data_def)
    ultimately have "only_spoke da (sampled env d e)" by (rule speaks_after)
    then show ?thesis using da d True
      by (simp add: only_spoke_fields image_ok_def valve_follows_def not_less)
  qed
  then show "image_ok (sampled env d e)" "offline_close_at (sampled env d e) = offline_close_at d"
    "valve_follows ?c (dev_ac (sampled env d e))"
    "valve_open ?c (dev_ac (sampled env d e)) \<longleftrightarrow> valve_open ?c (dev_ac d) \<and> e < offline_close_at d"
    by simp_all
qed

lemma after_samples:
  "image_ok d \<Longrightarrow> valve_follows (ac_options env) (dev_ac d) \<Longrightarrow>
   valve_open (ac_options env) (dev_ac (foldl (sampled env) d es)) \<longleftrightarrow>
   valve_open (ac_options env) (dev_ac d) \<and> (\<forall>e \<in> set es. e < offline_close_at d)"
proof (induction es arbitrary: d)
  case (Cons e es)
  from after_sample [OF Cons.prems, of e] Cons.IH [of "sampled env d e"] show ?case by auto
qed simp

text \<open>
  C17: Energy that was paid for, and no more: after the command \<open>open_until\<close> with a mark that is not
  negative the valve is open and stays open through every sequence of samples below the mark, and the
  first sample that reaches the mark closes it, for good, whatever samples follow.
\<close>

theorem open_until_closes:
  assumes "image_ok d" and "flash_store env = id" and "\<not> dev_ota_in_progress d" and "0 \<le>s atoi value"
    and "run_state (mqtt_rpc_open_until env (Some value)) d = ((), d')"
  shows "offline_close_at d' = atoi value \<and>
    (valve_open (ac_options env) (dev_ac (foldl (sampled env) d' es)) \<longleftrightarrow> (\<forall>e \<in> set es. e < atoi value))"
proof -
  from open_until_speaks [OF assms(4,5)] obtain db
    where b: "run_state (open_and_mark env (atoi value) (atoi value)) d = ((), db)" and "only_spoke db d'" .
  then have d': "offline_close_at d' = atoi value" "valve_open (ac_options env) (dev_ac d')" "ac_thermo_state (dev_ac d') \<noteq> 0" "image_ok d'"
    using after_open_and_mark [OF assms(1-3) b] by (simp_all add: only_spoke_fields image_ok_def)
  then have "valve_follows (ac_options env) (dev_ac d')" by (simp add: valve_follows_def)
  from after_samples [OF d'(4) this] d' show ?thesis by simp
qed

lemma sample_device_ok: "image_ok sample_device" "flash_store sample_env = id" "\<not> dev_ota_in_progress sample_device"
proof -
  have "sys_cfg (dev_cfg sample_device) = replicate 3072 0"
    unfolding sample_device_def power_on_def device.select_convs device.update_convs config.select_convs by (rule refl)
  then show "image_ok sample_device" by (simp only: image_ok_def length_replicate)
  show "flash_store sample_env = id" by (simp add: sample_env_def)
  show "\<not> dev_ota_in_progress sample_device"
    unfolding sample_device_def power_on_def device.select_convs device.update_convs by (rule not_False_eq_True [THEN iffD2, OF TrueI])
qed

theorem open_until_closes_witness:
  "let d = snd (run_state (mqtt_rpc_open_until sample_env (Some (ascii ''150''))) sample_device)
   in valve_open (ac_options sample_env) (dev_ac (foldl (sampled sample_env) d [120, 149])) \<and>
      \<not> valve_open (ac_options sample_env) (dev_ac (foldl (sampled sample_env) d [149, 150, 10]))"
proof -
  let ?m = "mqtt_rpc_open_until sample_env (Some (ascii ''150''))"
  have r: "run_state ?m sample_device = ((), snd (run_state ?m sample_device))" by (simp add: prod_eq_iff)
  have v: "atoi (ascii ''150'') = 150" by (simp add: ascii_def)
  then have pos: "0 \<le>s atoi (ascii ''150'')" by (simp add: word_sle_eq)
  have "valve_open (ac_options sample_env) (dev_ac (foldl (sampled sample_env) (snd (run_state ?m sample_device)) es)) \<longleftrightarrow>
      (\<forall>e \<in> set es. e < 150)" for es
    using open_until_closes [OF sample_device_ok pos r, of es] unfolding v by (rule conjunct2)
  moreover have "\<forall>e \<in> set [120, 149 :: u32]. e < 150" "\<not> (\<forall>e \<in> set [149, 150, 10 :: u32]. e < 150)" by simp_all
  ultimately show ?thesis unfolding Let_def by (simp only: simp_thms)
qed


text \<open>
  C20: A delta is added to the reading only if it differs from the mark: after \<open>open_until_delta\<close> with a
  delta that is not negative the valve closes at the first sample that reaches the reading plus the delta,
  but when the old mark happens to equal the delta, the mark is left alone, and the valve closes when the
  meter reads the delta itself, which a meter that counts on has read long ago.
\<close>

theorem open_until_delta_closes:
  assumes "image_ok d" and "flash_store env = id" and "\<not> dev_ota_in_progress d" and "0 \<le>s atoi value"
    and "run_state (mqtt_rpc_open_until_delta env (Some value)) d = ((), d')"
    and "mark = (if offline_close_at d = atoi value then atoi value else dev_energy_kwh d + atoi value)"
  shows "offline_close_at d' = mark \<and>
    (valve_open (ac_options env) (dev_ac (foldl (sampled env) d' es)) \<longleftrightarrow> (\<forall>e \<in> set es. e < mark))"
proof -
  from open_until_delta_speaks [OF assms(4,5)] obtain db
    where b: "run_state (open_and_mark env (atoi value) (dev_energy_kwh d + atoi value)) d = ((), db)" and "only_spoke db d'" .
  then have d': "offline_close_at d' = mark" "valve_open (ac_options env) (dev_ac d')" "ac_thermo_state (dev_ac d') \<noteq> 0" "image_ok d'"
    using after_open_and_mark [OF assms(1-3) b] assms(6) by (simp_all add: only_spoke_fields image_ok_def)
  then have "valve_follows (ac_options env) (dev_ac d')" by (simp add: valve_follows_def)
  from after_samples [OF d'(4) this] d' show ?thesis by simp
qed

theorem open_until_delta_closes_witness:
  "offline_close_at (snd (run_state (mqtt_rpc_open_until_delta sample_env (Some (ascii ''50''))) sample_device)) = 150 \<and>
   offline_close_at (snd (run_state (mqtt_rpc_open_until_delta sample_env (Some (ascii ''0''))) sample_device)) = 0"
proof -
  have r: "run_state m sample_device = ((), snd (run_state m sample_device))" for m :: "unit rpc" by (simp add: prod_eq_iff)
  have v: "atoi (ascii ''50'') = 50" "atoi (ascii ''0'') = 0" by (simp_all add: ascii_def)
  have pos: "0 \<le>s atoi (ascii ''50'')" "0 \<le>s atoi (ascii ''0'')" by (simp_all add: v word_sle_eq)
  have e: "dev_energy_kwh sample_device = 100" by (simp add: sample_device_def)
  have "sys_cfg (dev_cfg sample_device) = replicate 3072 0"
    unfolding sample_device_def power_on_def device.select_convs device.update_convs config.select_convs by (rule refl)
  then have c: "offline_close_at sample_device = 0"
    by (simp add: offline_close_at_def get_le32_def be32_def nth_replicate del: replicate_numeral)
  show ?thesis
    using open_until_delta_closes [OF sample_device_ok pos(1) r refl] open_until_delta_closes [OF sample_device_ok pos(2) r refl]
    unfolding v e c by simp
qed

end
