(* ===== verification/RpcRestart.thy ===== *)
theory RpcRestart
  imports RpcValve
begin

text \<open>
  What survives a restart: the key, the valve and the cron jobs come back from flash as they were saved.
\<close>

section \<open>Boot\<close>

definition key_of :: "bytes \<Rightarrow> bytes" where
  "key_of img = sub_bytes img key_off 16"

definition boot :: "rpc_env \<Rightarrow> bytes \<Rightarrow> u8 \<Rightarrow> u8 \<Rightarrow> bool \<Rightarrow> device" where
  "boot env flash flash_rom running_rom temp = snd (run_state (user_init env) (power_on flash flash_rom running_rom temp))"

lemma cfg_load_valid:
  "valid_image (cfg_flash c) \<Longrightarrow> cfg_load store b f c = c\<lparr>sys_cfg := cfg_flash c\<rparr>"
  by (simp add: cfg_load_def valid_image_def)

definition boot_loaded :: "bytes \<Rightarrow> device \<Rightarrow> device" where
  "boot_loaded flash p =
     p\<lparr>dev_pcon := False, dev_cfg := (dev_cfg p)\<lparr>sys_cfg := flash\<rparr>,
       dev_ac := (dev_ac p)\<lparr>ac_thermo_state := flash ! ac_thermo_state_off\<rparr>, dev_cron := load_cron flash (dev_cron p),
       dev_keys := init_aes_hmac_combined (key_of flash) (dev_keys p),
       dev_out := dev_out p @ [WatchdogInit, KmpRequestInit, CronInit]\<rparr>"

lemma power_on_cfg: "cfg_flash (dev_cfg (power_on flash fr rr temp)) = flash" "\<not> dev_ota_in_progress (power_on flash fr rr temp)"
    "length (RoundKey (aes_static (dev_keys (power_on flash fr rr temp)))) = 176"
  by (simp_all add: power_on_def)

lemma run_user_init:
  assumes "valid_image flash" and "cfg_flash (dev_cfg p) = flash"
  shows "run_state (user_init env) p = run_state (do {
      ac_do (if flash ! ac_thermo_state_off \<noteq> 0 then ac_thermo_open (ac_options env) else ac_thermo_close (ac_options env));
      event WifiInitNapt; set_opmode NULL_MODE; events [StationDisconnect, SystemInitDone] }) (boot_loaded flash p)"
proof -
  have "cfg_load s b f (dev_cfg p) = (dev_cfg p)\<lparr>sys_cfg := flash\<rparr>" for s b f
    using assms by (simp add: cfg_load_valid)
  then show ?thesis
    by (simp add: user_init_def run_use_config with_config_def init_keys_def boot_loaded_def key_of_def Let_def)
qed

lemma same_keys_init: "same_keys (init_aes_hmac_combined key cr) (init_aes_hmac_combined key cr')"
  by (simp add: same_keys_def init_aes_hmac_combined_def Let_def)

lemma boot_restores_flash:
  assumes "valid_image flash" and "d = boot env flash fr rr temp"
  shows "sys_cfg (dev_cfg d) = flash" "cfg_flash (dev_cfg d) = flash"
    "ac_thermo_state (dev_ac d) = flash ! ac_thermo_state_off"
    "valve_open (ac_options env) (dev_ac d) \<longleftrightarrow> flash ! ac_thermo_state_off \<noteq> 0"
    "cron_n (dev_cron d) = cron_n (load_cron flash c)" "cron_job_list (dev_cron d) = cron_job_list (load_cron flash c)"
    "same_keys (dev_keys d) (init_aes_hmac_combined (key_of flash) cr)" "keys_ok (dev_keys d)"
    "\<not> dev_ota_in_progress d"
proof -
  let ?p = "power_on flash fr rr temp" and ?c = "ac_options env"
  let ?f = "if flash ! ac_thermo_state_off \<noteq> 0 then ac_thermo_open ?c else ac_thermo_close ?c"
  let ?l = "boot_loaded flash ?p"
  have len: "length flash = syscfg_len" using assms(1) by (simp add: valid_image_def)
  obtain u da where a: "run_state (ac_do ?f) ?l = (u, da)" by (rule prod.exhaust)
  have l: "image_ok ?l" "ac_thermo_state (dev_ac ?l) = flash ! ac_thermo_state_off" "sys_cfg (dev_cfg ?l) = flash"
      "cfg_flash (dev_cfg ?l) = flash"
    using len by (simp_all add: boot_loaded_def image_ok_def with_config_def power_on_cfg Let_def)
  have d: "d = da\<lparr>dev_opmode := NULL_MODE, dev_out := dev_out da @ [WifiInitNapt, SetOpmode NULL_MODE, StationDisconnect, SystemInitDone]\<rparr>"
    using run_user_init [OF assms(1) power_on_cfg(1)] a by (simp add: assms(2) boot_def)
  note da = after_ac_do [OF l(1) a [simplified]]
  have state: "ac_thermo_state (snd (?f (dev_ac ?l))) = flash ! ac_thermo_state_off"
    using l(2) by (simp add: ac_thermo_open_def ac_thermo_close_def set_thermo_def Let_def)
  then show "ac_thermo_state (dev_ac d) = flash ! ac_thermo_state_off" by (simp add: d da)
  show "sys_cfg (dev_cfg d) = flash" using l(3) state by (simp add: d da)
  show "cfg_flash (dev_cfg d) = flash" using l(4) by (simp add: d da)
  show "valve_open ?c (dev_ac d) \<longleftrightarrow> flash ! ac_thermo_state_off \<noteq> 0"
    using valve_after_open [of ?c "dev_ac ?l"] valve_after_close [of ?c "dev_ac ?l"] by (simp add: d da)
  show "cron_n (dev_cron d) = cron_n (load_cron flash c)" "cron_job_list (dev_cron d) = cron_job_list (load_cron flash c)"
    by (simp_all add: d da boot_loaded_def with_config_def load_cron_def Let_def)
  have k: "dev_keys d = init_aes_hmac_combined (key_of flash) (dev_keys ?p)" by (simp add: d da boot_loaded_def)
  show "same_keys (dev_keys d) (init_aes_hmac_combined (key_of flash) cr)"
    unfolding k by (rule same_keys_init)
  show "keys_ok (dev_keys d)" unfolding k using len power_on_cfg(3) [of flash fr rr temp]
    by (intro keys_ok_init) (simp_all add: key_of_def)
  show "\<not> dev_ota_in_progress d" using power_on_cfg(2) by (simp add: d da boot_loaded_def with_config_def Let_def)
qed


section \<open>The key\<close>

lemma sprint_literal:
  assumes "0x25 \<notin> set (ascii f)" and "length f < n"
  shows "sprint n f [] = ascii f"
proof -
  have "tfp_format fresh_param (ascii f) [] = Some (ascii f)"
    using literal_format [OF assms(1), of fresh_param "[]" "[]"] by (simp add: format_Nil)
  moreover have "length (ascii f) = length f" by (simp add: ascii_def)
  ultimately show ?thesis using assms(2) by (simp add: sprint_def)
qed

lemma cfg_save_key_hex:
  assumes "cfg_ok c" and "length k = 16"
  shows "cfg_save_key store False (Some (hex_of k)) c = (True, cfg_write store (c\<lparr>sys_cfg := put_bytes (sys_cfg c) key_off k\<rparr>))"
proof -
  have "length (sub_bytes (sys_cfg c) key_off 16) = 16" using assms(1) by (simp add: cfg_ok_def)
  then have "hex_to_bytes (Some (hex_of k)) (Some (sub_bytes (sys_cfg c) key_off 16)) 16 = (True, Some k)"
    using assms(2) hex_check_hex_of [of 0 16 k "[]"] hex_convert_hex_of [of 0 16 k "sub_bytes (sys_cfg c) key_off 16" "[]"]
    by (simp add: hex_to_bytes_def)
  then show ?thesis using assms(2) by (simp add: cfg_save_key_def cfg_save_plain_def)
qed

lemma key_of_cfg_write:
  "length (sys_cfg c) = syscfg_len \<Longrightarrow> key_of (sys_cfg (cfg_write store c)) = key_of (sys_cfg c)"
  by (simp add: key_of_def cfg_write_def put_crc16_def sub_bytes_put_bytes_other Let_def)

lemma cfg_write_valid: "length (sys_cfg c) = syscfg_len \<Longrightarrow> valid_image (sys_cfg (cfg_write store c)) \<and>
    cfg_flash (cfg_write id c) = sys_cfg (cfg_write id c)"
  by (simp add: cfg_write_def valid_put_crc16 Let_def)

text \<open>
  C23: A new key is announced under the old one, used from then on, and kept: the answer to \<open>set_key\<close>
  with 32 hex digits decrypts under the keys the command came with, all later messages use the keys
  of the new key, the flash holds it with a checksum that fits, and after a restart the device derives
  the same keys from it.
\<close>

theorem set_key_takes_effect:
  assumes "ready env d" and "flash_store env = id" and "cfg_ok (dev_cfg d)" and "\<not> dev_ota_in_progress d"
    and "length k = 16" and "run_state (mqtt_rpc_set_key env (Some (hex_of k))) d = ((), d')"
    and "keys_ok old" and "same_keys old (dev_keys d)"
  shows "(\<exists>e. dev_out d' = dev_out d @ [e] \<and> answers old (topic_of env ''set_key'' d) (ascii ''status=ok'') e) \<and>
    same_keys (dev_keys d') (init_aes_hmac_combined k cr) \<and> ready env d' \<and>
    valid_image (cfg_flash (dev_cfg d')) \<and> key_of (cfg_flash (dev_cfg d')) = k \<and>
    same_keys (dev_keys (boot env (cfg_flash (dev_cfg d')) fr rr temp)) (dev_keys d')"
proof -
  let ?c = "(dev_cfg d)\<lparr>sys_cfg := put_bytes (sys_cfg (dev_cfg d)) key_off k\<rparr>"
  let ?w = "cfg_write id ?c"
  let ?d = "d\<lparr>dev_cfg := ?w\<rparr>"
  have len: "length (sys_cfg ?c) = syscfg_len" using assms(3,5) by (simp add: cfg_ok_def)
  have "key_of (sys_cfg ?c) = k"
    using assms(3,5) sub_bytes_put_bytes_same [of key_off k "sys_cfg (dev_cfg d)"] by (simp add: key_of_def cfg_ok_def)
  then have w: "key_of (sys_cfg ?w) = k" "valid_image (sys_cfg ?w)" "cfg_flash ?w = sys_cfg ?w"
    using cfg_write_valid [OF len, of id] key_of_cfg_write [OF len] by simp_all
  have ready: "ready env ?d" using assms(1) by (simp add: ready_def)
  have ok: "sprint 512 ''status=ok'' [] = ascii ''status=ok''" by (rule sprint_literal) (simp_all add: ascii_def)
  have short: "length (ascii ''status=ok'') \<le> 511" by (simp add: ascii_def)
  obtain a e where r: "run_state (reply env ''set_key'' (ascii ''status=ok'')) ?d = ((), sent a [e] (clock_read env ?d))"
      "length (RoundKey a) = 176" "answered (dev_keys ?d) (topic_of env ''set_key'' ?d) (ascii ''status=ok'') e"
    using run_reply [OF ready] short by blast
  have t: "topic_of env ''set_key'' ?d = topic_of env ''set_key'' d" by (simp add: topic_of_def unix_now_def)
  have d': "d' = (sent a [e] (clock_read env ?d))\<lparr>dev_keys := init_aes_hmac_combined k ((dev_keys d)\<lparr>aes_static := a\<rparr>)\<rparr>"
    using assms(2,4,5,6) cfg_save_key_hex [OF assms(3,5)] r(1) ok w(1)
    by (simp add: mqtt_rpc_set_key_def Let_def sent_def clock_read_def key_of_def)
  have "dev_out d' = dev_out d @ [e]" by (simp add: d' sent_def clock_read_def)
  moreover have "answers old (topic_of env ''set_key'' d) (ascii ''status=ok'') e"
    using r(3) assms(7,8) by (simp add: answered_def t)
  moreover have flash: "cfg_flash (dev_cfg d') = sys_cfg ?w" using w(3) by (simp add: d' sent_def clock_read_def)
  moreover have keys: "same_keys (dev_keys d') (init_aes_hmac_combined k cr)"
    by (simp add: d' same_keys_def init_aes_hmac_combined_def Let_def)
  moreover have "ready env d'"
    using assms(1,5) r(2) keys_ok_init [of k "(dev_keys d)\<lparr>aes_static := a\<rparr>"] by (simp add: ready_def d')
  moreover have "same_keys (dev_keys (boot env (sys_cfg ?w) fr rr temp)) (init_aes_hmac_combined k cr)"
    using boot_restores_flash(7) [OF w(2) refl, of env fr rr temp cr] w(1) by simp
  then have "same_keys (dev_keys (boot env (sys_cfg ?w) fr rr temp)) (dev_keys d')" using keys by (simp add: same_keys_def)
  ultimately show ?thesis using w by auto
qed


lemma sample_cfg_ok: "cfg_ok (dev_cfg sample_device)"
proof -
  have "sys_cfg (dev_cfg sample_device) = replicate 3072 0" "cfg_flash (dev_cfg sample_device) = replicate 3072 0"
    unfolding sample_device_def power_on_def device.select_convs device.update_convs config.select_convs by (rule refl)+
  then show ?thesis by (simp only: cfg_ok_def length_replicate)
qed

lemma sample_ready: "ready sample_env sample_device"
  using sample_keys_ok by (simp add: ready_def sample_env_def)

theorem set_key_takes_effect_witness:
  "key_of (cfg_flash (dev_cfg (snd (run_state (mqtt_rpc_set_key sample_env (Some (hex_of (replicate 16 7)))) sample_device)))) =
   replicate 16 7"
proof -
  have r: "run_state m sample_device = ((), snd (run_state m sample_device))" for m :: "unit rpc" by (simp add: prod_eq_iff)
  have "length (replicate 16 (7 :: u8)) = 16" "same_keys (dev_keys sample_device) (dev_keys sample_device)"
    by (simp_all add: same_keys_def)
  from set_key_takes_effect [OF sample_ready sample_device_ok(2) sample_cfg_ok sample_device_ok(3) this(1) r sample_keys_ok this(2)]
  show ?thesis by blast
qed

section \<open>Cron jobs\<close>

definition fits :: "nat \<Rightarrow> bytes \<Rightarrow> bool" where
  "fits n s \<longleftrightarrow> length s \<le> n \<and> 0 \<notin> set s"

definition job_ok :: "cron_job_t \<Rightarrow> bool" where
  "job_ok j \<longleftrightarrow> fits 8 (minute j) \<and> fits 8 (hour j) \<and> fits 8 (day_of_month j) \<and> fits 8 (month j) \<and>
     fits 8 (day_of_week j) \<and> fits 32 (command j) \<and> fits 96 (command_params j)"

lemma length_fixed [simp]: "length (fixed n s) = n"
  by (simp add: fixed_def)

lemma takeWhile_fixed: "fits n s \<Longrightarrow> takeWhile (\<lambda>b. b \<noteq> 0) (fixed n s) = s"
  by (simp add: fits_def fixed_def takeWhile_zeroes)

lemma field_string_fixed:
  "length pre = off \<Longrightarrow> fits n s \<Longrightarrow> field_string (pre @ fixed n s @ post) off n = s"
  by (simp add: field_string_def sub_bytes_def takeWhile_fixed)

lemma load_job_bytes:
  assumes "job_ok j"
  shows "load_job (job_bytes j) = j"
proof -
  let ?f = "\<lambda>x. fixed 8 (x j)"
  note ok = assms [unfolded job_ok_def]
  have "field_string (job_bytes j) 0 8 = minute j"
    using ok field_string_fixed [of "[]" 0 8 "minute j"] by (simp add: job_bytes_def)
  moreover have "field_string (job_bytes j) 8 8 = hour j"
    using ok field_string_fixed [of "?f minute" 8 8 "hour j"] by (simp add: job_bytes_def)
  moreover have "field_string (job_bytes j) 16 8 = day_of_month j"
    using ok field_string_fixed [of "?f minute @ ?f hour" 16 8 "day_of_month j"] by (simp add: job_bytes_def)
  moreover have "field_string (job_bytes j) 24 8 = month j"
    using ok field_string_fixed [of "?f minute @ ?f hour @ ?f day_of_month" 24 8 "month j"] by (simp add: job_bytes_def)
  moreover have "field_string (job_bytes j) 32 8 = day_of_week j"
    using ok field_string_fixed [of "?f minute @ ?f hour @ ?f day_of_month @ ?f month" 32 8 "day_of_week j"]
    by (simp add: job_bytes_def)
  moreover have "field_string (job_bytes j) 40 32 = command j"
    using ok field_string_fixed [of "?f minute @ ?f hour @ ?f day_of_month @ ?f month @ ?f day_of_week" 40 32 "command j"]
    by (simp add: job_bytes_def)
  moreover have "field_string (job_bytes j) 72 96 = command_params j"
    using ok field_string_fixed [of "?f minute @ ?f hour @ ?f day_of_month @ ?f month @ ?f day_of_week @ fixed 32 (command j)"
      72 96 "command_params j" "[]"] by (simp add: job_bytes_def)
  ultimately show ?thesis by (simp add: load_job_def)
qed

lemma length_job_bytes [simp]: "length (job_bytes j) = 168"
  by (simp add: job_bytes_def)

lemma length_jobs: "length (concat (map job_bytes js)) = 168 * length js"
  by (induction js) simp_all

lemma sub_bytes_jobs: "i < length js \<Longrightarrow> sub_bytes (concat (map job_bytes js)) (168 * i) 168 = job_bytes (js ! i)"
proof (induction js arbitrary: i)
  case (Cons j js)
  then show ?case by (cases i) (simp_all add: sub_bytes_def)
qed simp

definition cron_ok :: "cron \<Rightarrow> bool" where
  "cron_ok s \<longleftrightarrow> cron_n s \<le> 16 \<and> length (cron_job_list s) = 16 \<and> list_all job_ok (cron_job_list s)"

lemma length_cron_bytes: "length (cron_job_list s) = 16 \<Longrightarrow> length (cron_bytes s) = 2689"
  by (simp add: cron_bytes_def length_jobs)

lemma load_cron_bytes:
  assumes "cron_ok s" and "sub_bytes img cron_jobs_off 2689 = cron_bytes s" and "length img = syscfg_len"
  shows "cron_n (load_cron img c) = cron_n s" and "cron_job_list (load_cron img c) = cron_job_list s"
proof -
  let ?b = "concat (map job_bytes (cron_job_list s))"
  have n: "cron_n s \<le> 16" "length (cron_job_list s) = 16" using assms(1) by (simp_all add: cron_ok_def)
  have tail: "take 2689 (drop cron_jobs_off img) = of_nat (cron_n s) # ?b"
    using assms(2) by (simp add: sub_bytes_def cron_bytes_def)
  have "img ! cron_jobs_off = take 2689 (drop cron_jobs_off img) ! 0" using assms(3) by simp
  then have "img ! cron_jobs_off = of_nat (cron_n s)" unfolding tail by simp
  moreover have "unat (of_nat (cron_n s) :: u8) = cron_n s" using n(1) by (simp add: unat_of_nat)
  ultimately show "cron_n (load_cron img c) = cron_n s" by (simp add: load_cron_def)
  have job: "sub_bytes img (cron_jobs_off + 1 + 168 * i) 168 = job_bytes (cron_job_list s ! i)" if "i < 16" for i
  proof -
    have "sub_bytes img (cron_jobs_off + 1 + 168 * i) 168 = sub_bytes (take 2689 (drop cron_jobs_off img)) (1 + 168 * i) 168"
      using that by (simp add: sub_bytes_def drop_take min_def add.commute)
    also have "\<dots> = sub_bytes ?b (168 * i) 168" unfolding tail by (simp add: sub_bytes_def)
    finally show ?thesis using sub_bytes_jobs [of i "cron_job_list s"] that n(2) by simp
  qed
  have ok: "job_ok (cron_job_list s ! i)" if "i < 16" for i
    using assms(1) n(2) that by (simp add: cron_ok_def list_all_length)
  show "cron_job_list (load_cron img c) = cron_job_list s"
    using n(2) by (intro nth_equalityI) (simp_all add: load_cron_def job [simplified] load_job_bytes ok)
qed


lemma fits_take: "0 \<notin> set s \<Longrightarrow> m \<le> n \<Longrightarrow> fits n (take m s)"
  by (auto simp: fits_def dest: in_set_takeD)

lemma strtok_r_sets: "strtok_r d s = Some (t, r) \<Longrightarrow> set t \<union> set r \<subseteq> set s"
  by (elim strtok_rD) auto

lemma set_field_ok: "set_field key v j = Some j' \<Longrightarrow> job_ok j \<Longrightarrow> 0 \<notin> set v \<Longrightarrow> job_ok j'"
  by (auto simp: set_field_def job_ok_def fits_take Let_def split: if_splits)

lemma empty_job_ok: "job_ok empty_job"
  by (simp add: job_ok_def empty_job_def fits_def)

lemma cron_ok_set: "cron_ok s \<Longrightarrow> job_ok j \<Longrightarrow> n \<le> 16 \<Longrightarrow> cron_ok (s\<lparr>cron_job_list := (cron_job_list s)[i := j], cron_n := n\<rparr>)"
  by (auto simp: cron_ok_def list_all_iff dest!: set_update_subset_insert [THEN subsetD])

lemma cron_ok_put: "cron_ok s \<Longrightarrow> job_ok j \<Longrightarrow> cron_ok (s\<lparr>cron_job_list := (cron_job_list s)[i := j]\<rparr>)"
  by (auto simp: cron_ok_def list_all_iff dest!: set_update_subset_insert [THEN subsetD])

lemma add_token_ok:
  assumes "add_token params str s = Some s'" and "cron_ok s" and "0 \<notin> set str" and "0 \<notin> set params"
  shows "cron_ok s'"
proof (cases "strtok_r 0x3D (take 63 str)")
  case None
  then show ?thesis using assms(1,2) by (simp add: add_token_def)
next
  case (Some kr)
  then obtain key rest where k: "strtok_r 0x3D (take 63 str) = Some (key, rest)" by (cases kr) simp
  show ?thesis
  proof (cases "strtok_r 0x3D rest")
    case None
    then show ?thesis using assms(1,2) k by (simp add: add_token_def)
  next
    case (Some vr)
    then obtain v r where v: "strtok_r 0x3D rest = Some (v, r)" by (cases vr) simp
    have nz: "0 \<notin> set v"
      using strtok_r_sets [OF k] strtok_r_sets [OF v] assms(3) by (auto dest: in_set_takeD)
    let ?j = "cron_job_list s ! cron_n s"
    have j: "job_ok ?j" if "cron_n s < 16" using assms(2) that by (simp add: cron_ok_def list_all_length)
    show ?thesis
      using assms(1,2,4) k v nz j set_field_ok [of key v ?j]
      by (auto simp: add_token_def Let_def job_ok_def fits_take split: option.splits if_splits
          intro!: cron_ok_set cron_ok_put)
  qed
qed

lemma add_tokens_ok:
  "add_tokens params rest s = Some s' \<Longrightarrow> cron_ok s \<Longrightarrow> 0 \<notin> set rest \<Longrightarrow> 0 \<notin> set params \<Longrightarrow> cron_ok s'"
proof (induction params rest s rule: add_tokens.induct)
  case (1 params rest s)
  show ?case
  proof (cases "strtok_r 0x26 rest")
    case None
    then show ?thesis using 1 by (simp add: add_tokens.simps [of params rest s])
  next
    case (Some kr)
    then obtain str r where k: "strtok_r 0x26 rest = Some (str, r)" by (cases kr) simp
    then have nz: "0 \<notin> set str" "0 \<notin> set r" using strtok_r_sets [OF k] "1.prems"(3) by auto
    from "1.prems"(1) k obtain s1 where s1: "add_token params str s = Some s1" "add_tokens params r s1 = Some s'"
      by (auto simp: add_tokens.simps [of params rest s] split: option.splits)
    with add_token_ok [OF s1(1)] show ?thesis using 1 k nz by auto
  qed
qed

lemma split_params_sets:
  assumes "split_params s = (a, b)"
  shows "set a \<union> set b \<subseteq> set s"
proof (cases "strstr_loop (ascii ''command='') s 0")
  case (Some p)
  show ?thesis
  proof (cases "strtok_r 0x3D (drop (p + 8) s)")
    case None
    then show ?thesis using assms Some by (simp add: split_params_def)
  next
    case (Some nr)
    then obtain n r where nr: "strtok_r 0x3D (drop (p + 8) s) = Some (n, r)" by (cases nr) simp
    then show ?thesis
      using assms \<open>strstr_loop (ascii ''command='') s 0 = Some p\<close> strtok_r_sets [OF nr]
      by (auto simp: split_params_def dest!: in_set_takeD in_set_dropD)
  qed
qed (use assms in \<open>simp add: split_params_def\<close>)

lemma add_cron_job_ok:
  assumes "add_cron_job_from_query query s = Some (n, evs, s')" and "cron_ok s" and "0 \<notin> set query"
  shows "cron_ok s'"
proof (cases "cron_n s \<le> 16 - 1")
  case True
  obtain a b where p: "split_params (take 511 query) = (a, b)" by (rule prod.exhaust)
  have "0 \<notin> set a" "0 \<notin> set b" using split_params_sets [OF p] assms(3) by (auto dest: in_set_takeD)
  moreover have "cron_ok (s\<lparr>cron_job_list := (cron_job_list s)[cron_n s := empty_job]\<rparr>)"
    using assms(2) empty_job_ok by (rule cron_ok_put)
  ultimately show ?thesis
    using assms(1) True p add_tokens_ok by (auto simp: add_cron_job_from_query_def Let_def)
qed (use assms in \<open>auto simp: add_cron_job_from_query_def Let_def\<close>)


text \<open>A changed table goes to flash with the deferred save, and a boot finds it there.\<close>

lemma saved_table_boots:
  assumes "image_ok d" and "\<not> dev_ota_in_progress d" and "\<not> config_save_timer_running (dev_cfg d)" and "cron_ok s"
    and "CronCfgSaveDefered \<in> set evs" and "only_spoke (snd (run_state (cron_done evs s) d)) d'"
    and "d'' = boot env (cfg_flash (config_save_timer_func id False (dev_cfg d'))) fr rr temp"
  shows "cron_n (dev_cron d'') = cron_n s \<and> cron_job_list (dev_cron d'') = cron_job_list s \<and> dev_cron d' = s \<and>
    config_save_timer (dev_cfg d')"
proof -
  let ?img = "put_bytes (sys_cfg (dev_cfg d)) cron_jobs_off (cron_bytes s)"
  have len: "length (cron_bytes s) = 2689" using assms(4) by (simp add: cron_ok_def length_cron_bytes)
  have img: "length ?img = syscfg_len" using assms(1) len by (simp add: image_ok_def)
  have d': "sys_cfg (dev_cfg d') = ?img" "dev_cron d' = s" "config_save_timer (dev_cfg d')"
      "\<not> config_save_timer_running (dev_cfg d')"
    using assms(2,3,5,6) by (simp_all add: only_spoke_fields cron_done_def cfg_save_defered_def)
  let ?c = "(dev_cfg d')\<lparr>config_save_timer := False, config_save_timer_running := False\<rparr>"
  let ?flash = "cfg_flash (config_save_timer_func id False (dev_cfg d'))"
  have flash: "?flash = sys_cfg (cfg_write id ?c)"
    using d'(4) cfg_write_valid [of ?c] d'(1) img by (simp add: config_save_timer_func_def cfg_save_plain_def)
  have valid: "valid_image ?flash" using cfg_write_valid [of ?c id] img d'(1) unfolding flash by simp
  have "sub_bytes ?flash cron_jobs_off 2689 = sub_bytes ?img cron_jobs_off 2689"
    using img d'(1) unfolding flash by (simp add: cfg_write_def put_crc16_def sub_bytes_put_bytes_other Let_def)
  also have "\<dots> = cron_bytes s"
    using sub_bytes_put_bytes_same [of cron_jobs_off "cron_bytes s" "sys_cfg (dev_cfg d)"] len assms(1)
    by (simp add: image_ok_def)
  finally have "cron_n (load_cron ?flash s) = cron_n s" "cron_job_list (load_cron ?flash s) = cron_job_list s"
    using load_cron_bytes [OF assms(4)] valid by (simp_all add: valid_image_def)
  then show ?thesis using boot_restores_flash(5,6) [OF valid assms(7), of s] d' by simp
qed

text \<open>
  C25: Cron jobs survive a restart: after a \<open>set_cron\<close> with any query while the table has room, or after
  \<open>clear_cron\<close>, the deferred save is armed, and once it has run, a boot from flash gives a table with the
  same jobs in the same order, as many as before, every string of them ended inside its field.
\<close>

theorem cron_jobs_survive_restart:
  assumes "image_ok d" and "\<not> dev_ota_in_progress d" and "\<not> config_save_timer_running (dev_cfg d)"
    and "cron_ok (dev_cron d)" and "0 \<notin> set query" and "cron_n (dev_cron d) < 16"
    and "m = mqtt_rpc_set_cron env (Some query) \<or> m = mqtt_rpc_clear_cron env" and "d' = snd (run_state m d)"
    and "d'' = boot env' (cfg_flash (config_save_timer_func id False (dev_cfg d'))) fr rr temp"
  shows "cron_n (dev_cron d'') = cron_n (dev_cron d') \<and> cron_job_list (dev_cron d'') = cron_job_list (dev_cron d') \<and>
    config_save_timer (dev_cfg d') \<and> cron_ok (dev_cron d')"
proof -
  obtain evs s name c where m: "cron_ok s" "CronCfgSaveDefered \<in> set evs"
    "run_state m d = run_state (do { cron_done evs s; reply env name c }) d"
    using assms(7)
  proof
    assume "m = mqtt_rpc_clear_cron env"
    moreover have "cron_ok (snd (clear_cron_jobs (dev_cron d)))" "CronCfgSaveDefered \<in> set (fst (clear_cron_jobs (dev_cron d)))"
      using cron_ok_put [OF assms(4) empty_job_ok, of 0] by (simp_all add: clear_cron_jobs_def cron_ok_def)
    ultimately show thesis
      by (intro that [of "snd (clear_cron_jobs (dev_cron d))" "fst (clear_cron_jobs (dev_cron d))" "''clear_cron''" "[]"])
        (simp_all add: mqtt_rpc_clear_cron_def split_beta Let_def)
  next
    assume set: "m = mqtt_rpc_set_cron env (Some query)"
    have n: "length (cron_job_list (dev_cron d)) = 16" "cron_n (dev_cron d) \<le> 16"
      using assms(4) by (simp_all add: cron_ok_def)
    obtain k evs s where a: "add_cron_job_from_query query (dev_cron d) = Some (k, evs, s)"
      using add_cron_job_total [OF n] by blast
    then have "CronCfgSaveDefered \<in> set evs"
      using assms(6) by (auto simp: add_cron_job_from_query_def Let_def split_beta)
    with add_cron_job_ok [OF a assms(4,5)] set a show thesis
      by (intro that [of s evs "''set_cron''" "take 512 query"]) (simp_all add: mqtt_rpc_set_cron_def)
  qed
  obtain u dc where dc: "run_state (cron_done evs s) d = (u, dc)" by (rule prod.exhaust)
  have "only_spoke dc d'"
    by (rule speaks_after [OF speaks_reply]) (simp add: assms(8) m(3) dc)
  then have "only_spoke (snd (run_state (cron_done evs s) d)) d'" by (simp add: dc)
  from saved_table_boots [OF assms(1-3) m(1,2) this assms(9)] m(1) show ?thesis by simp
qed

theorem cron_jobs_survive_restart_witness:
  "let d' = snd (run_state (mqtt_rpc_set_cron sample_env (Some (ascii ''minute=5&command=open''))) sample_device)
   in cron_job_list (dev_cron (boot sample_env (cfg_flash (config_save_timer_func id False (dev_cfg d'))) 0 0 False)) =
      cron_job_list (dev_cron d')"
proof -
  have c: "cron_ok (dev_cron sample_device)" "cron_n (dev_cron sample_device) < 16"
    "\<not> config_save_timer_running (dev_cfg sample_device)"
    by (simp_all add: sample_device_def power_on_def cron_ok_def list_all_iff empty_job_ok del: replicate_numeral)
  have "0 \<notin> set (ascii ''minute=5&command=open'')" by (simp add: ascii_def)
  from cron_jobs_survive_restart [OF sample_device_ok(1,3) c(3,1) this c(2) disjI1 [OF refl] refl refl, of sample_env]
  show ?thesis by (simp add: Let_def)
qed


section \<open>The firmware slot\<close>

lemma reply_start_ota: "reply (env\<lparr>start_ota := f\<rparr>) name c = reply env name c"
  "reply_topic (env\<lparr>start_ota := f\<rparr>) name = reply_topic env name" "send_reply (env\<lparr>start_ota := f\<rparr>) t c = send_reply env t c"
  by (simp_all add: reply_def reply_topic_def send_reply_def unix_time_now_def encrypt_now_def)

definition wants_confirm :: "bytes \<Rightarrow> bool" where
  "wants_confirm params \<longleftrightarrow> strstr_loop params (ascii ''action=confirm'') 0 \<noteq> None"

lemma after_speaks_fields:
  assumes "speaks m"
  shows "dev_flash_rom (snd (run_state m d)) = dev_flash_rom d" "dev_temp_boot (snd (run_state m d)) = dev_temp_boot d"
    "dev_running_rom (snd (run_state m d)) = dev_running_rom d"
  using speaks_after [OF assms refl, of d] by (cases d; cases "snd (run_state m d)"; simp add: only_spoke_def)+

text \<open>
  C28: A firmware on trial is neither overwritten nor kept by accident: while the device runs from a slot that
  was booted on trial, or an update runs, \<open>ota_update\<close> starts no update (what it does is the same whatever
  starting one would do) and leaves the slot of the next boot alone; only the confirmation changes that slot,
  to the one that is running, and ends the trial.
\<close>

theorem ota_needs_confirmed_rom:
  assumes "dev_temp_boot d \<or> dev_ota_in_progress d \<or> wants_confirm params"
    and "run_state (mqtt_rpc_ota_update env (Some params)) d = ((), d')"
  shows "run_state (mqtt_rpc_ota_update (env\<lparr>start_ota := f\<rparr>) (Some params)) d = ((), d') \<and>
    dev_flash_rom d' = (if wants_confirm params then dev_running_rom d else dev_flash_rom d) \<and>
    dev_temp_boot d' = (dev_temp_boot d \<and> \<not> wants_confirm params)"
proof -
  have same: "run_state (mqtt_rpc_ota_update (env\<lparr>start_ota := f\<rparr>) (Some params)) d =
      run_state (mqtt_rpc_ota_update env (Some params)) d"
    using assms(1) unfolding mqtt_rpc_ota_update_def option.case wants_confirm_def
    by (cases "strstr_loop params (ascii ''action=confirm'') 0 = None"; cases "dev_temp_boot d")
      (simp_all add: reply_start_ota cong: if_cong)
  have d': "d' = snd (run_state (mqtt_rpc_ota_update env (Some params)) d)" using assms(2) by simp
  note fields = after_speaks_fields [OF speaks_reply] after_speaks_fields [OF speaks_send_reply]
  show ?thesis
  proof (cases "wants_confirm params")
    case True
    then show ?thesis using same assms(2) unfolding d'
      by (auto simp: mqtt_rpc_ota_update_def wants_confirm_def confirm_rom_def run_reply_topic fields clock_read_def)
  next
    case False
    then show ?thesis using same assms unfolding d'
      by (auto simp: mqtt_rpc_ota_update_def wants_confirm_def fields)
  qed
qed

theorem ota_needs_confirmed_rom_witness:
  "dev_flash_rom (snd (run_state (mqtt_rpc_ota_update sample_env (Some (ascii ''action=confirm'')))
     (sample_device\<lparr>dev_running_rom := 1, dev_temp_boot := True\<rparr>))) = 1"
proof -
  let ?d = "sample_device\<lparr>dev_running_rom := 1, dev_temp_boot := True\<rparr>"
  have "wants_confirm (ascii ''action=confirm'')" by (simp add: wants_confirm_def ascii_def)
  moreover have "run_state m ?d = ((), snd (run_state m ?d))" for m :: "unit rpc" by (simp add: prod_eq_iff)
  ultimately show ?thesis
    using ota_needs_confirmed_rom [of ?d "ascii ''action=confirm''" sample_env] by simp
qed

end
