(* ===== verification/DeviceInv.thy ===== *)
theory DeviceInv
  imports RpcRestart
begin

text \<open>
  The invariant of the device: the configuration keeps its layout in RAM and in flash, the keys in use are
  those of the stored key, the table of cron jobs and the valve agree with the configuration. Every handler of
  \<open>mqtt_rpc.c\<close> and \<open>user_main.c\<close> keeps it.
\<close>

section \<open>Specifications of handlers\<close>

text \<open>\<open>spec I m post\<close>: from a state with \<open>I\<close>, \<open>m\<close> ends in one with \<open>I\<close> and its result has \<open>post\<close>.\<close>

definition spec :: "(device \<Rightarrow> bool) \<Rightarrow> 'a rpc \<Rightarrow> ('a \<Rightarrow> bool) \<Rightarrow> bool" where
  "spec I m post \<longleftrightarrow> (\<forall>d. I d \<longrightarrow> post (fst (run_state m d)) \<and> I (snd (run_state m d)))"

abbreviation keeps :: "(device \<Rightarrow> bool) \<Rightarrow> 'a rpc \<Rightarrow> bool" where
  "keeps I m \<equiv> spec I m (\<lambda>_. True)"

lemma specD: "spec I m post \<Longrightarrow> I d \<Longrightarrow> run_state m d = (x, d') \<Longrightarrow> post x \<and> I d'"
  by (metis spec_def fst_conv snd_conv)

lemma keeps_after: "keeps I m \<Longrightarrow> I d \<Longrightarrow> I (snd (run_state m d))"
  by (simp add: spec_def)

lemma spec_bind:
  assumes "spec I m mid" and "\<And>x. mid x \<Longrightarrow> spec I (f x) post"
  shows "spec I (State_Monad.bind m f) post"
  using assms by (simp add: spec_def split_beta)

lemma spec_get: "spec I State_Monad.get I"
  by (simp add: spec_def)

lemma spec_get_dev: "spec I (get_dev f) (\<lambda>x. \<exists>d. I d \<and> x = f d)"
  by (auto simp: spec_def)

lemma spec_return: "post x \<Longrightarrow> spec I (State_Monad.return x) post"
  by (simp add: spec_def)

lemma keeps_skip: "keeps I skip"
  by (simp add: spec_def)

lemma keeps_update: "(\<And>d. I d \<Longrightarrow> I (f d)) \<Longrightarrow> keeps I (State_Monad.update f)"
  by (simp add: spec_def)

lemma spec_if: "(b \<Longrightarrow> spec I m post) \<Longrightarrow> (\<not> b \<Longrightarrow> spec I n post) \<Longrightarrow> spec I (if b then m else n) post"
  by simp

lemma spec_option:
  "(x = None \<Longrightarrow> spec I m post) \<Longrightarrow> (\<And>y. x = Some y \<Longrightarrow> spec I (f y) post) \<Longrightarrow> spec I (case x of None \<Rightarrow> m | Some y \<Rightarrow> f y) post"
  by (cases x) simp_all

lemma spec_pair: "(\<And>a b. x = (a, b) \<Longrightarrow> spec I (f a b) post) \<Longrightarrow> spec I (case x of (a, b) \<Rightarrow> f a b) post"
  by (cases x) simp

lemma spec_weaken: "spec I m mid \<Longrightarrow> (\<And>x. mid x \<Longrightarrow> post x) \<Longrightarrow> spec I m post"
  by (auto simp: spec_def)

lemma keeps_seq: "keeps I m \<Longrightarrow> (\<And>x. spec I (f x) post) \<Longrightarrow> spec I (State_Monad.bind m f) post"
  by (rule spec_bind)

lemmas spec_rules = spec_bind [OF spec_get] spec_bind [OF spec_get_dev] spec_return keeps_skip spec_if spec_option spec_pair

section \<open>The invariant\<close>

definition image_good :: "bytes \<Rightarrow> bytes \<Rightarrow> bool" where
  "image_good k img \<longleftrightarrow> length img = syscfg_len \<and> key_of img = k \<and>
     (\<exists>s. cron_ok s \<and> sub_bytes img cron_jobs_off 2689 = cron_bytes s)"

definition config_good :: "bytes \<Rightarrow> config \<Rightarrow> bool" where
  "config_good k c \<longleftrightarrow> image_good k (sys_cfg c) \<and> image_good k (cfg_flash c) \<and> valid_image (cfg_flash c)"

definition keys_from :: "bytes \<Rightarrow> crypto \<Rightarrow> bool" where
  "keys_from k cr \<longleftrightarrow> keys_ok cr \<and> aes_key cr = take 16 (sha256_raw k) \<and> hmac_sha256_key cr = sub_bytes (sha256_raw k) 16 16"

definition dev_inv :: "bytes \<Rightarrow> device \<Rightarrow> bool" where
  "dev_inv k d \<longleftrightarrow> config_good k (dev_cfg d) \<and> keys_from k (dev_keys d) \<and>
     sys_cfg (dev_cfg d) ! ac_thermo_state_off = ac_thermo_state (dev_ac d) \<and> cron_ok (dev_cron d) \<and>
     sub_bytes (sys_cfg (dev_cfg d)) cron_jobs_off 2689 = cron_bytes (dev_cron d)"

text \<open>The fields the invariant does not look at.\<close>

lemma keeps_other_fields:
  assumes "\<And>d. dev_cfg (f d) = dev_cfg d" "\<And>d. dev_keys (f d) = dev_keys d" "\<And>d. dev_ac (f d) = dev_ac d"
    "\<And>d. dev_cron (f d) = dev_cron d"
  shows "keeps (dev_inv k) (State_Monad.update f)"
  using assms by (intro keeps_update) (simp add: dev_inv_def)

lemma keeps_event: "keeps (dev_inv k) (event e)" and keeps_events: "keeps (dev_inv k) (events es)"
  unfolding event_def events_def by (intro keeps_other_fields; simp)+

lemma keeps_set_opmode: "keeps (dev_inv k) (set_opmode m)"
  unfolding set_opmode_def by (intro keeps_other_fields) simp_all

lemma keeps_softap: "keeps (dev_inv k) (softap a b)"
  unfolding softap_def by (rule keeps_events)

lemma keeps_clock: "keeps (dev_inv k) (unix_time_now env)" "keeps (dev_inv k) (uptime_now env)"
  by (simp_all add: spec_def unix_time_now_def uptime_now_def dev_inv_def split_beta Let_def)

text \<open>An encryption changes only the round keys.\<close>

lemma cbc_encrypt_loop_key: "RoundKey (fst (cbc_encrypt_loop n a mem out inp)) = RoundKey a"
  by (induction n arbitrary: a mem out inp) (simp_all add: Let_def)

lemma AES128_CBC_encrypt_key:
  assumes "length (RoundKey a) = 176"
  shows "length (RoundKey (fst (AES128_CBC_encrypt_buffer a mem out inp l (Some key) (Some iv)))) = 176"
proof -
  let ?a = "cbc_start a (Some key) (Some iv)"
  have "RoundKey (fst (AES128_CBC_encrypt_buffer a mem out inp l (Some key) (Some iv))) = RoundKey ?a"
    using cbc_encrypt_loop_key [of "block_count l" ?a "BlockCopy mem out inp" out inp]
    by (auto simp: AES128_CBC_encrypt_buffer_def Let_def split: prod.split)
  then show ?thesis using assms by (simp add: cbc_start_def length_KeyExpansion)
qed

lemma encrypt_keeps_keys: "keys_from k cr \<Longrightarrow> keys_from k (fst (encrypt_aes_hmac_combined cr iv dst topic m))"
  by (auto simp: keys_from_def keys_ok_def encrypt_aes_hmac_combined_def Let_def split_beta AES128_CBC_encrypt_key)

lemma keys_ok_encrypt: "keys_ok cr \<Longrightarrow> keys_ok (fst (encrypt_aes_hmac_combined cr iv dst topic m))"
  by (simp add: keys_ok_def encrypt_aes_hmac_combined_def Let_def split_beta AES128_CBC_encrypt_key)

lemma keys_ok_reply: "run_state (reply env name c) d = (u, d') \<Longrightarrow> keys_ok (dev_keys d) \<Longrightarrow> keys_ok (dev_keys d')"
  by (auto simp: reply_def run_reply_topic send_reply_def encrypt_now_def publish_def clock_read_def split_beta Let_def
      keys_ok_encrypt)

lemma keeps_encrypt: "keeps (dev_inv k) (encrypt_now env topic c)"
  unfolding spec_def encrypt_now_def
  by (auto simp: dev_inv_def Let_def split_beta encrypt_keeps_keys)

lemma keeps_publish: "keeps (dev_inv k) (publish topic r)"
  unfolding publish_def by (cases r) (simp add: keeps_event)

lemma keeps_reply_topic: "keeps (dev_inv k) (reply_topic env name)"
  unfolding reply_topic_def by (intro spec_rules spec_bind [OF keeps_clock(1)]) simp

lemma keeps_send_reply: "keeps (dev_inv k) (send_reply env topic c)"
  unfolding send_reply_def by (intro spec_bind [OF keeps_encrypt] keeps_publish)

lemma keeps_reply: "keeps (dev_inv k) (reply env name c)"
  unfolding reply_def by (intro spec_bind [OF keeps_reply_topic] keeps_send_reply)

lemmas keeps_basic = keeps_event keeps_events keeps_set_opmode keeps_softap keeps_clock keeps_encrypt keeps_publish
  keeps_reply_topic keeps_send_reply keeps_reply


section \<open>Changes of the configuration\<close>

text \<open>Two images that agree in what the invariant reads: the key, the state of the valve, the cron table.\<close>

definition img_same :: "bytes \<Rightarrow> bytes \<Rightarrow> bool" where
  "img_same a b \<longleftrightarrow> length a = syscfg_len \<and> length b = syscfg_len \<and> key_of b = key_of a \<and>
     b ! ac_thermo_state_off = a ! ac_thermo_state_off \<and> sub_bytes b cron_jobs_off 2689 = sub_bytes a cron_jobs_off 2689"

definition apart :: "nat \<Rightarrow> nat \<Rightarrow> bool" where
  "apart off n \<longleftrightarrow> off + n \<le> key_off \<or> (ac_thermo_state_off < off \<and> off + n \<le> cron_jobs_off) \<or>
     (crc_off \<le> off \<and> off + n \<le> syscfg_len)"

lemma img_same_refl: "length a = syscfg_len \<Longrightarrow> img_same a a"
  by (simp add: img_same_def)

lemma img_same_trans: "img_same a b \<Longrightarrow> img_same b c \<Longrightarrow> img_same a c"
  by (simp add: img_same_def)

lemma img_same_put:
  assumes "length a = syscfg_len" and "apart off (length xs)"
  shows "img_same a (put_bytes a off xs)"
proof -
  have fits: "off + length xs \<le> length a" using assms by (auto simp: apart_def)
  have "put_bytes a off xs ! ac_thermo_state_off = a ! ac_thermo_state_off"
    using assms fits by (auto simp: put_bytes_def nth_append apart_def min_def)
  then show ?thesis
    using assms fits by (auto simp: img_same_def key_of_def apart_def sub_bytes_put_bytes_other)
qed

lemma img_same_update:
  assumes "length a = syscfg_len" and "apart off 1"
  shows "img_same a (a[off := x])"
  using img_same_put [of a off "[x]"] assms by (auto simp: put_bytes_def apart_def upd_conv_take_nth_drop)

lemma image_good_same: "image_good k a \<Longrightarrow> img_same a b \<Longrightarrow> image_good k b"
  by (auto simp: image_good_def img_same_def)

lemma dev_inv_image:
  "dev_inv k d \<Longrightarrow> img_same (sys_cfg (dev_cfg d)) img \<Longrightarrow> dev_inv k (d\<lparr>dev_cfg := (dev_cfg d)\<lparr>sys_cfg := img\<rparr>\<rparr>)"
  using image_good_same [of k "sys_cfg (dev_cfg d)" img]
  by (auto simp: dev_inv_def config_good_def img_same_def)

lemma keeps_set_image:
  assumes "\<And>img. length img = syscfg_len \<Longrightarrow> img_same img (g img)"
  shows "keeps (dev_inv k) (set_image g)"
  unfolding spec_def
proof (intro allI impI conjI)
  fix d assume d: "dev_inv k d"
  then have "img_same (sys_cfg (dev_cfg d)) (g (sys_cfg (dev_cfg d)))"
    by (intro assms) (simp add: dev_inv_def config_good_def image_good_def)
  from dev_inv_image [OF d this] show "dev_inv k (snd (run_state (set_image g) d))" by simp
qed simp

lemma img_same_field64: "length img = syscfg_len \<Longrightarrow> n \<le> 64 \<Longrightarrow> apart off 64 \<Longrightarrow> img_same img (set_field64 v n off img)"
proof -
  assume a: "length img = syscfg_len" "n \<le> 64" "apart off 64"
  have z: "img_same img (put_bytes img off (replicate 64 0))" using a by (intro img_same_put) simp_all
  moreover have "apart off (length (take n v))" using a(2,3) by (auto simp: apart_def)
  then have "img_same (put_bytes img off (replicate 64 0)) (put_bytes (put_bytes img off (replicate 64 0)) off (take n v))"
    using z by (intro img_same_put) (simp_all add: img_same_def)
  ultimately show ?thesis unfolding set_field64_def by (rule img_same_trans)
qed

lemma img_same_crc: "length img = syscfg_len \<Longrightarrow> img_same img (put_crc16 w img)"
  unfolding put_crc16_def by (intro img_same_put) (simp_all add: apart_def)

lemma img_same_le32: "length img = syscfg_len \<Longrightarrow> apart off 4 \<Longrightarrow> img_same img (put_le32 v off img)"
  unfolding put_le32_def by (intro img_same_put) simp_all

text \<open>The operations of \<open>config.c\<close> with a flash that keeps what it is given.\<close>

lemma cfg_write_good:
  assumes "config_good k c"
  shows "config_good k (cfg_write id c) \<and> img_same (sys_cfg c) (sys_cfg (cfg_write id c))"
proof -
  have len: "length (sys_cfg c) = syscfg_len" using assms by (simp add: config_good_def image_good_def)
  then have same: "img_same (sys_cfg c) (sys_cfg (cfg_write id c))"
    by (simp add: cfg_write_def img_same_crc Let_def)
  with assms image_good_same cfg_write_valid [OF len, of id] show ?thesis
    by (auto simp: config_good_def)
qed

lemma cfg_save_plain_good:
  "config_good k c \<Longrightarrow> config_good k (snd (cfg_save_plain id b c)) \<and> img_same (sys_cfg c) (sys_cfg (snd (cfg_save_plain id b c)))"
  using cfg_write_good [of k c] img_same_refl [of "sys_cfg c"]
  by (auto simp: cfg_save_plain_def config_good_def image_good_def)

lemma cfg_load_good: "config_good k c \<Longrightarrow> config_good k (cfg_load s b f c)"
  by (auto simp: config_good_def cfg_load_valid)

lemma cfg_save_good:
  "config_good k c \<Longrightarrow> config_good k (snd (snd (cfg_save id b f c)))"
  using cfg_write_good [of k c] cfg_load_good [of k "cfg_write id c"] by (auto simp: cfg_save_def Let_def)

lemma cfg_save_defered_good: "config_good k c \<Longrightarrow> config_good k (cfg_save_defered b c)"
  by (simp add: config_good_def)

lemma config_save_timer_func_good:
  assumes "config_good k c"
  shows "config_good k (config_save_timer_func id b c) \<and> img_same (sys_cfg c) (sys_cfg (config_save_timer_func id b c))"
proof -
  let ?c = "c\<lparr>config_save_timer := False, config_save_timer_running := False\<rparr>"
  have "config_good k ?c" using assms by (simp add: config_good_def)
  from cfg_save_plain_good [OF this, of b] show ?thesis
    using assms img_same_refl [of "sys_cfg c"]
    by (auto simp: config_save_timer_func_def config_good_def image_good_def)
qed

lemma ssid_pwd_token_good: "config_good k c \<Longrightarrow> config_good k (ssid_pwd_token str c)"
proof -
  assume c: "config_good k c"
  then have len: "length (sys_cfg c) = syscfg_len" by (simp add: config_good_def image_good_def)
  have put: "config_good k (c\<lparr>sys_cfg := img\<rparr>)" if "img_same (sys_cfg c) img" for img
    using c image_good_same that by (auto simp: config_good_def)
  have "config_good k (c\<lparr>sys_cfg := set_field64 v 31 sta_ssid_off (sys_cfg c)\<rparr>)"
    "config_good k (c\<lparr>sys_cfg := set_field64 v 63 sta_pwd_off (sys_cfg c)\<rparr>)"
    "config_good k (c\<lparr>sys_cfg := put_bytes (sys_cfg c) sta_pwd_off (replicate 64 0)\<rparr>)" for v
    using len by (intro put img_same_field64 img_same_put; simp add: apart_def)+
  then show ?thesis using c by (auto simp: ssid_pwd_token_def Let_def split: option.split)
qed

lemma ssid_pwd_tokens_good: "config_good k c \<Longrightarrow> config_good k (ssid_pwd_tokens rest c)"
proof (induction rest c rule: ssid_pwd_tokens.induct)
  case (1 rest c)
  then show ?case
    by (cases "strtok_r 0x26 rest") (auto simp: ssid_pwd_tokens.simps [of rest c] ssid_pwd_token_good)
qed

lemma cfg_save_ssid_pwd_good: "config_good k c \<Longrightarrow> config_good k (snd (snd (cfg_save_ssid_pwd id b f q c)))"
  unfolding cfg_save_ssid_pwd_def by (intro cfg_save_good ssid_pwd_tokens_good)


section \<open>The handlers\<close>

lemma keeps_use_config:
  assumes "config_good k c"
  shows "keeps (dev_inv k) (use_config c)"
  unfolding spec_def
proof (intro allI impI conjI)
  fix d assume d: "dev_inv k d"
  from assms obtain s where s: "cron_ok s" "sub_bytes (sys_cfg c) cron_jobs_off 2689 = cron_bytes s" "length (sys_cfg c) = syscfg_len"
    by (auto simp: config_good_def image_good_def)
  let ?s = "load_cron (sys_cfg c) (dev_cron d)"
  have "cron_n ?s = cron_n s" "cron_job_list ?s = cron_job_list s" using load_cron_bytes [OF s] by simp_all
  then have "cron_ok ?s" "cron_bytes ?s = cron_bytes s" using s(1) by (simp_all add: cron_ok_def cron_bytes_def)
  then show "dev_inv k (snd (run_state (use_config c) d))"
    using assms d s(2) by (simp add: run_use_config with_config_def dev_inv_def)
qed simp

lemma keeps_flash_error: "keeps (dev_inv k) (mqtt_flash_error env a b)"
  unfolding mqtt_flash_error_def
  by (intro spec_bind [OF keeps_reply_topic] spec_bind [OF keeps_encrypt] spec_rules keeps_publish)

lemma keeps_save_result:
  assumes "config_good k (snd (snd r))"
  shows "keeps (dev_inv k) (save_result env r)"
proof -
  have "keeps (dev_inv k) (use_config c)" if "r = (ok, crcs, c)" for ok crcs c
    using assms that by (intro keeps_use_config) simp
  then show ?thesis
    unfolding save_result_def by (intro spec_pair keeps_seq spec_if keeps_flash_error keeps_skip spec_return) auto
qed

lemma dev_inv_good: "dev_inv k d \<Longrightarrow> config_good k (dev_cfg d)"
  by (simp add: dev_inv_def)

lemma keeps_save_or_report: "flash_store env = id \<Longrightarrow> keeps (dev_inv k) (save_or_report env)"
  unfolding save_or_report_def
  by (intro spec_bind [OF spec_get] spec_bind [OF keeps_save_result] keeps_skip)
    (auto dest: dev_inv_good cfg_save_good)

lemma keeps_change_field:
  "n \<le> 64 \<Longrightarrow> apart off 64 \<Longrightarrow> keeps (dev_inv k) (change_field off v n)"
  unfolding change_field_def
  by (intro spec_rules spec_bind [OF keeps_set_image]) (auto simp: img_same_field64)

lemma keeps_set_ap_enabled: "flash_store env = id \<Longrightarrow> keeps (dev_inv k) (set_ap_enabled env on)"
  unfolding set_ap_enabled_def
  by (intro spec_rules spec_bind [OF keeps_set_image] keeps_save_or_report) (auto simp: img_same_update apart_def)

lemma keeps_set_close_at: "keeps (dev_inv k) (set_close_at v)"
  unfolding set_close_at_def by (intro keeps_set_image img_same_le32) (simp_all add: apart_def)

lemma keeps_ac_do: "keeps (dev_inv k) (ac_do f)"
  unfolding spec_def
proof (intro allI impI conjI)
  fix d assume d: "dev_inv k d"
  obtain u d' where r: "run_state (ac_do f) d = (u, d')" by (rule prod.exhaust)
  have img: "image_ok d" using d by (simp add: image_ok_def dev_inv_def config_good_def image_good_def)
  note d' = after_ac_do [OF img r [simplified]]
  have len: "length (sys_cfg (dev_cfg d)) = syscfg_len" using img by (simp add: image_ok_def)
  have "cron_jobs_off + 2689 \<le> syscfg_len" by simp
  then have "image_good k (sys_cfg (dev_cfg d'))" "sub_bytes (sys_cfg (dev_cfg d')) cron_jobs_off 2689 = cron_bytes (dev_cron d)"
    using d unfolding d'(2) by (auto simp: dev_inv_def config_good_def image_good_def key_of_def sub_bytes_list_update)
  moreover have "valid_image (cfg_flash (dev_cfg d'))" "image_good k (cfg_flash (dev_cfg d'))"
    using d unfolding d'(9) by (simp_all add: dev_inv_def config_good_def)
  moreover have "sys_cfg (dev_cfg d') ! ac_thermo_state_off = ac_thermo_state (dev_ac d')"
    using len unfolding d'(2) by simp
  ultimately have "dev_inv k d'" using d d'(7,8) by (simp add: dev_inv_def config_good_def)
  then show "dev_inv k (snd (run_state (ac_do f) d))" by (simp add: r)
qed simp


lemma keeps_get: "keeps I State_Monad.get" "keeps I (get_dev f)"
  by (simp_all add: spec_def)

lemma keeps_return: "keeps I (State_Monad.return x)"
  by (simp add: spec_def)

lemmas keeps_rules = keeps_seq spec_if spec_option spec_pair keeps_get keeps_return keeps_skip keeps_basic keeps_flash_error keeps_ac_do

lemma keeps_rpc_status: "keeps (dev_inv k) (mqtt_rpc_status env)"
  unfolding mqtt_rpc_status_def by (intro keeps_rules)

text \<open>The procedures that only answer.\<close>

lemma keeps_rpc_answers:
  "keeps (dev_inv k) (mqtt_rpc_ping env)" "keeps (dev_inv k) (mqtt_rpc_version env)" "keeps (dev_inv k) (mqtt_rpc_uptime env)"
  "keeps (dev_inv k) (mqtt_rpc_vdd env)" "keeps (dev_inv k) (mqtt_rpc_rssi env)" "keeps (dev_inv k) (mqtt_rpc_ssid env)"
  "keeps (dev_inv k) (mqtt_rpc_scan env)" "keeps (dev_inv k) (mqtt_rpc_disconnect_count env)"
  "keeps (dev_inv k) (mqtt_rpc_network_quality env)" "keeps (dev_inv k) (mqtt_rpc_wifi_status env)"
  "keeps (dev_inv k) (mqtt_rpc_ap_status env)" "keeps (dev_inv k) (mqtt_rpc_fallback_status env)"
  "keeps (dev_inv k) (mqtt_rpc_mem env)" "keeps (dev_inv k) (mqtt_rpc_chip_id env)" "keeps (dev_inv k) (mqtt_rpc_flash_id env)"
  "keeps (dev_inv k) (mqtt_rpc_flash_size env)" "keeps (dev_inv k) (mqtt_rpc_reset_reason env)" "keeps (dev_inv k) mqtt_rpc_reconnect"
  "keeps (dev_inv k) (mqtt_rpc_cron env)" "keeps (dev_inv k) (mqtt_rpc_restart env)" "keeps (dev_inv k) mqtt_restart_ack_timer_func"
  "keeps (dev_inv k) (mqtt_rpc_ota_status env status)" "keeps (dev_inv k) delayed_wifi_default_cb"
  "keeps (dev_inv k) (mqtt_rpc_test_ssid_pwd env params)"
  unfolding mqtt_rpc_ping_def mqtt_rpc_version_def mqtt_rpc_uptime_def mqtt_rpc_vdd_def mqtt_rpc_rssi_def mqtt_rpc_ssid_def
    mqtt_rpc_scan_def mqtt_rpc_disconnect_count_def mqtt_rpc_network_quality_def mqtt_rpc_wifi_status_def mqtt_rpc_ap_status_def
    mqtt_rpc_fallback_status_def mqtt_rpc_mem_def mqtt_rpc_chip_id_def mqtt_rpc_flash_id_def mqtt_rpc_flash_size_def
    mqtt_rpc_reset_reason_def mqtt_rpc_reconnect_def mqtt_rpc_cron_def mqtt_rpc_restart_def mqtt_restart_ack_timer_func_def
    mqtt_rpc_ota_status_def delayed_wifi_default_cb_def mqtt_rpc_test_ssid_pwd_def Let_def
  by (intro keeps_rules)+

text \<open>The procedures that change the network settings.\<close>

lemma keeps_rpc_network:
  assumes "flash_store env = id"
  shows "keeps (dev_inv k) (mqtt_rpc_set_ssid env a)" "keeps (dev_inv k) (mqtt_rpc_set_pwd env a)"
    "keeps (dev_inv k) (mqtt_rpc_set_ap_mesh_pwd env a)" "keeps (dev_inv k) (mqtt_rpc_set_ssid_pwd env a)"
    "keeps (dev_inv k) (mqtt_rpc_start_ap env m)" "keeps (dev_inv k) (mqtt_rpc_stop_ap env)"
proof -
  note save = keeps_save_or_report [OF assms] keeps_set_ap_enabled [OF assms]
  show "keeps (dev_inv k) (mqtt_rpc_set_ssid env a)" "keeps (dev_inv k) (mqtt_rpc_set_pwd env a)"
    unfolding mqtt_rpc_set_ssid_def mqtt_rpc_set_pwd_def
    by (intro keeps_rules keeps_change_field save; simp add: apart_def)+
  have "keeps (dev_inv k) (save_result env (cfg_save (flash_store env) (dev_ota_in_progress d) (factory env) (dev_cfg d)))"
    "keeps (dev_inv k) (save_result env (cfg_save_ssid_pwd (flash_store env) (dev_ota_in_progress d) (factory env) q (dev_cfg d)))"
    if "dev_inv k d" for d q
    using that assms by (auto intro!: keeps_save_result cfg_save_good cfg_save_ssid_pwd_good dest: dev_inv_good)
  note saved = spec_bind [OF spec_get keeps_seq [OF this(1)]] spec_bind [OF spec_get keeps_seq [OF this(2)]]
  show "keeps (dev_inv k) (mqtt_rpc_set_ap_mesh_pwd env a)" "keeps (dev_inv k) (mqtt_rpc_set_ssid_pwd env a)"
    unfolding mqtt_rpc_set_ap_mesh_pwd_def mqtt_rpc_set_ssid_pwd_def
    by ((rule saved | assumption | rule keeps_rules keeps_change_field | simp add: apart_def)+)
  show "keeps (dev_inv k) (mqtt_rpc_start_ap env m)" "keeps (dev_inv k) (mqtt_rpc_stop_ap env)"
    unfolding mqtt_rpc_start_ap_def mqtt_rpc_stop_ap_def by (intro keeps_rules save)+
qed


lemma keeps_updates:
  "keeps (dev_inv k) (State_Monad.update (\<lambda>d. d\<lparr>dev_fallback_ap := b\<rparr>))"
  "keeps (dev_inv k) (State_Monad.update (\<lambda>d. d\<lparr>dev_ota_in_progress := b\<rparr>))"
  "keeps (dev_inv k) (State_Monad.update (\<lambda>d. d\<lparr>dev_rpc_state := n d\<rparr>))"
  "keeps (dev_inv k) (State_Monad.update (\<lambda>d. d\<lparr>dev_fallback_mqtt := b\<rparr>))"
  "keeps (dev_inv k) (State_Monad.update (\<lambda>d. d\<lparr>dev_test_pending := b\<rparr>))"
  "keeps (dev_inv k) (State_Monad.update (\<lambda>d. d\<lparr>dev_first_connect := b\<rparr>))"
  "keeps (dev_inv k) (State_Monad.update (\<lambda>d. d\<lparr>dev_csa_flag := b\<rparr>))"
  "keeps (dev_inv k) (State_Monad.update (\<lambda>d. d\<lparr>dev_mesh_ssid := m\<rparr>))"
  "keeps (dev_inv k) (State_Monad.update (\<lambda>d. d\<lparr>dev_fast_boot := b, dev_time := t d\<rparr>))"
  "keeps (dev_inv k) confirm_rom"
  unfolding confirm_rom_def by (intro keeps_other_fields; simp)+

lemma keeps_rpc_fallback_ap:
  "keeps (dev_inv k) (fallback_ap_timer_func m)" "keeps (dev_inv k) (mqtt_rpc_start_fallback_ap env a b)"
proof -
  show "keeps (dev_inv k) (fallback_ap_timer_func m)" for m
    unfolding fallback_ap_timer_func_def by (intro keeps_rules keeps_updates)
  then show "keeps (dev_inv k) (mqtt_rpc_start_fallback_ap env a b)"
    unfolding mqtt_rpc_start_fallback_ap_def Let_def by (intro keeps_rules keeps_updates)
qed

text \<open>What is asked of the start of an update, which is in \<open>ota.c\<close>.\<close>

definition env_ok :: "rpc_env \<Rightarrow> bool" where
  "env_ok env \<longleftrightarrow> flash_store env = id \<and> (\<forall>k u a b. keeps (dev_inv k) (start_ota env u a b))"

lemma keeps_rpc_ota:
  "env_ok env \<Longrightarrow> keeps (dev_inv k) (mqtt_rpc_ota_update env p)"
  unfolding mqtt_rpc_ota_update_def Let_def env_ok_def
  by (intro keeps_rules keeps_updates) auto

lemma keeps_rpc_valve:
  assumes "flash_store env = id"
  shows "keeps (dev_inv k) (mqtt_rpc_open env)" "keeps (dev_inv k) (mqtt_rpc_close env)"
    "keeps (dev_inv k) (mqtt_rpc_open_until env v)" "keeps (dev_inv k) (mqtt_rpc_open_until_delta env v)"
  unfolding mqtt_rpc_open_def mqtt_rpc_close_def mqtt_rpc_open_until_def mqtt_rpc_open_until_delta_def Let_def
  by (intro keeps_rules keeps_set_close_at keeps_save_or_report assms keeps_rpc_status)+

lemma keeps_cron_done:
  assumes "cron_ok s"
  shows "keeps (dev_inv k) (cron_done evs s)"
  unfolding spec_def
proof (intro allI impI conjI)
  fix d assume d: "dev_inv k d"
  let ?a = "sys_cfg (dev_cfg d)" and ?x = "cron_bytes s"
  let ?img = "put_bytes ?a cron_jobs_off ?x"
  have len: "length ?a = syscfg_len" "length ?x = 2689"
    using d assms by (simp_all add: dev_inv_def config_good_def image_good_def cron_ok_def length_cron_bytes)
  have area: "sub_bytes ?img cron_jobs_off 2689 = ?x"
    using sub_bytes_put_bytes_same [of cron_jobs_off ?x ?a] len by simp
  have "key_of ?img = key_of ?a" using len by (simp add: key_of_def sub_bytes_put_bytes_other)
  moreover have "?img ! ac_thermo_state_off = ?a ! ac_thermo_state_off" using len by (simp add: put_bytes_def nth_append)
  moreover have "length ?img = syscfg_len" using len by simp
  ultimately have img: "image_good k ?img" "?img ! ac_thermo_state_off = ac_thermo_state (dev_ac d)"
    using d area assms by (auto simp: image_good_def dev_inv_def config_good_def)
  then have "dev_inv k (d\<lparr>dev_cron := s, dev_cfg := (dev_cfg d)\<lparr>sys_cfg := ?img\<rparr>\<rparr>)" (is "dev_inv k ?d")
    using d area assms by (simp add: dev_inv_def config_good_def)
  moreover from this have "dev_inv k (?d\<lparr>dev_cfg := cfg_save_defered b (dev_cfg ?d)\<rparr>)" for b
    by (simp add: dev_inv_def config_good_def)
  ultimately show "dev_inv k (snd (run_state (cron_done evs s) d))"
    by (simp add: cron_done_def)
qed simp

lemma clear_cron_ok: "cron_ok s \<Longrightarrow> cron_ok (snd (clear_cron_jobs s))"
  using cron_ok_put [OF _ empty_job_ok, of s 0] by (simp add: clear_cron_jobs_def cron_ok_def)

lemma dev_inv_cron: "dev_inv k d \<Longrightarrow> cron_ok (dev_cron d)"
  by (simp add: dev_inv_def)

lemma keeps_rpc_cron:
  "keeps (dev_inv k) (mqtt_rpc_clear_cron env)"
  "(\<And>s. q = Some s \<Longrightarrow> 0 \<notin> set s) \<Longrightarrow> keeps (dev_inv k) (mqtt_rpc_set_cron env q)"
proof -
  have clear: "cron_ok s" if "clear_cron_jobs (dev_cron d) = (evs, s)" "dev_inv k d" for d evs s
    using clear_cron_ok [OF dev_inv_cron [OF that(2)]] that(1) by simp
  show "keeps (dev_inv k) (mqtt_rpc_clear_cron env)"
    unfolding mqtt_rpc_clear_cron_def Let_def
    by (intro spec_bind [OF spec_get] spec_pair keeps_seq [OF keeps_cron_done] keeps_reply) (rule clear)
  assume q: "\<And>s. q = Some s \<Longrightarrow> 0 \<notin> set s"
  have add: "cron_ok s" if "add_cron_job_from_query x (dev_cron d) = Some (n, evs, s)" "dev_inv k d" "q = Some x" for d n evs s x
    using add_cron_job_ok [OF that(1) dev_inv_cron [OF that(2)] q [OF that(3)]] .
  show "keeps (dev_inv k) (mqtt_rpc_set_cron env q)"
    unfolding mqtt_rpc_set_cron_def
    by (intro spec_option keeps_skip spec_bind [OF spec_get] keeps_event spec_pair keeps_seq [OF keeps_cron_done] keeps_reply)
      (use add in blast)
qed


lemma dev_inv_cfg:
  "dev_inv k d \<Longrightarrow> config_good k c \<Longrightarrow> img_same (sys_cfg (dev_cfg d)) (sys_cfg c) \<Longrightarrow> dev_inv k (d\<lparr>dev_cfg := c\<rparr>)"
  by (auto simp: dev_inv_def img_same_def)

lemma keeps_rpc_host:
  assumes "flash_store env = id"
  shows "keeps (dev_inv k) (mqtt_rpc_set_mqtt_host env params)"
  unfolding spec_def
proof (intro allI impI conjI)
  fix d assume d: "dev_inv k d"
  let ?r = "case params of
          None \<Rightarrow> (False, dev_cfg d)
        | Some params \<Rightarrow>
            if 0 < length params \<and> length params < 64
            then cfg_save_plain id (dev_ota_in_progress d)
                   ((dev_cfg d)\<lparr>sys_cfg := put_bytes (put_bytes (sys_cfg (dev_cfg d)) mqtt_host_off (replicate 64 0))
                                            mqtt_host_off params\<rparr>)
            else (False, dev_cfg d)"
  have len: "length (sys_cfg (dev_cfg d)) = syscfg_len" using d by (simp add: dev_inv_def config_good_def image_good_def)
  have "config_good k (snd ?r) \<and> img_same (sys_cfg (dev_cfg d)) (sys_cfg (snd ?r))"
  proof (cases "params = None \<or> \<not> (0 < length (the params) \<and> length (the params) < 64)")
    case True
    then show ?thesis using d len by (auto simp: dev_inv_good img_same_refl split: option.split)
  next
    case False
    then obtain p where p: "params = Some p" "0 < length p \<and> length p < 64" by auto
    let ?z = "put_bytes (sys_cfg (dev_cfg d)) mqtt_host_off (replicate 64 0)"
    let ?c = "(dev_cfg d)\<lparr>sys_cfg := put_bytes ?z mqtt_host_off p\<rparr>"
    have z: "img_same (sys_cfg (dev_cfg d)) ?z" using len by (intro img_same_put) (simp_all add: apart_def)
    then have "img_same ?z (put_bytes ?z mqtt_host_off p)"
      using p by (intro img_same_put) (simp_all add: apart_def img_same_def)
    with z have same: "img_same (sys_cfg (dev_cfg d)) (sys_cfg ?c)" using img_same_trans by simp
    then have "config_good k ?c" using dev_inv_good [OF d] image_good_same by (auto simp: config_good_def)
    from cfg_save_plain_good [OF this, of "dev_ota_in_progress d"] same img_same_trans
    show ?thesis using p by auto
  qed
  moreover obtain ok c where r: "?r = (ok, c)" by (rule prod.exhaust)
  ultimately have "dev_inv k (d\<lparr>dev_cfg := c\<rparr>)" using dev_inv_cfg [OF d] by simp
  moreover have "keeps (dev_inv k) (do {
      reply env ''set_mqtt_host'' (if ok then sprint 512 ''status=ok'' [] else sprint 512 ''status=error_invalid_host'' []);
      if ok then events [DisarmTimer RestartAckTimer, ArmTimer RestartAckTimer 2000] else skip })" (is "keeps _ ?rest")
    by (intro keeps_rules)
  ultimately have "dev_inv k (snd (run_state ?rest (d\<lparr>dev_cfg := c\<rparr>)))"
    by (rule keeps_after [rotated])
  then show "dev_inv k (snd (run_state (mqtt_rpc_set_mqtt_host env params) d))"
    unfolding mqtt_rpc_set_mqtt_host_def Let_def assms run_state_bind [of State_Monad.get] run_state_get prod.case r
    by simp
qed simp

text \<open>\<open>set_key\<close> exchanges the key of the invariant.\<close>

definition dev_ok :: "device \<Rightarrow> bool" where
  "dev_ok d \<longleftrightarrow> (\<exists>k. dev_inv k d)"

lemma keys_from_init: "length k = 16 \<Longrightarrow> keys_ok cr \<Longrightarrow> keys_from k (init_aes_hmac_combined k cr)"
  using keys_ok_init [of k cr] by (simp add: keys_from_def keys_ok_def init_aes_hmac_combined_def Let_def)

lemma dev_ok_set_key:
  assumes "flash_store env = id" and "dev_inv k d" and "\<not> dev_ota_in_progress d"
  shows "dev_ok (snd (run_state (mqtt_rpc_set_key env params) d))"
proof (cases params)
  case None
  then show ?thesis using assms(2) by (auto simp: mqtt_rpc_set_key_def dev_ok_def)
next
  case (Some p)
  obtain ok c where r: "(if 32 \<le> length (take 63 p) then cfg_save_key id (dev_ota_in_progress d) (Some (take 63 p)) (dev_cfg d)
      else (False, dev_cfg d)) = (ok, c)" by (rule prod.exhaust)
  let ?d = "d\<lparr>dev_cfg := c\<rparr>"
  define ans where "ans = reply env ''set_key'' (if ok then sprint 512 ''status=ok'' [] else sprint 512 ''status=error_invalid_key'' [])"
  obtain u d1 where d1: "run_state ans ?d = (u, d1)" by (rule prod.exhaust)
  have run: "snd (run_state (mqtt_rpc_set_key env params) d) =
      (if ok then d1\<lparr>dev_keys := init_aes_hmac_combined (key_of (sys_cfg (dev_cfg d1))) (dev_keys d1)\<rparr> else d1)"
    unfolding mqtt_rpc_set_key_def Let_def Some option.case assms(1) run_state_bind run_state_get prod.case r
      run_state_update d1 [unfolded ans_def]
    by (simp add: key_of_def)
  have cfg: "cfg_ok (dev_cfg d)" using assms(2) by (simp add: dev_inv_def config_good_def image_good_def cfg_ok_def)
  show ?thesis
  proof (cases ok)
    case False
    have "c = dev_cfg d"
    proof (cases "32 \<le> length (take 63 p)")
      case True
      then have "cfg_save_key id (dev_ota_in_progress d) (Some (take 63 p)) (dev_cfg d) = (ok, c)" using r by simp
      then show ?thesis using cfg
        by (cases rule: cfg_save_key_cases) (use False assms(3) in \<open>auto simp: cfg_save_plain_def\<close>)
    qed (use r in simp)
    then have "dev_inv k ?d" using assms(2) by simp
    then have "dev_inv k d1" using keeps_after [OF keeps_reply] d1 unfolding ans_def by (metis snd_conv)
    then show ?thesis using run False by (auto simp: dev_ok_def)
  next
    case True
    then have s: "cfg_save_key id (dev_ota_in_progress d) (Some (take 63 p)) (dev_cfg d) = (True, c)"
      using r by (auto split: if_splits)
    from s cfg obtain k' where k': "length k' = 16"
      "(True, c) = cfg_save_plain id (dev_ota_in_progress d) ((dev_cfg d)\<lparr>sys_cfg := put_bytes (sys_cfg (dev_cfg d)) key_off k'\<rparr>)"
      by (cases rule: cfg_save_key_cases) auto
    let ?a = "sys_cfg (dev_cfg d)" and ?c = "(dev_cfg d)\<lparr>sys_cfg := put_bytes (sys_cfg (dev_cfg d)) key_off k'\<rparr>"
    have c: "c = cfg_write id ?c" using k'(2) by (simp add: cfg_save_plain_def split: if_splits)
    have len: "length ?a = syscfg_len" using cfg by (simp add: cfg_ok_def)
    have area: "sub_bytes (sys_cfg ?c) cron_jobs_off 2689 = cron_bytes (dev_cron d)"
      using assms(2) len k'(1) by (simp add: dev_inv_def sub_bytes_put_bytes_other)
    have thermo: "sys_cfg ?c ! ac_thermo_state_off = ac_thermo_state (dev_ac d)"
      using assms(2) len k'(1) by (simp add: dev_inv_def put_bytes_def nth_append)
    have "key_of (sys_cfg ?c) = k'"
      using len k'(1) sub_bytes_put_bytes_same [of key_off k' ?a] by (simp add: key_of_def)
    then have img: "image_good k' (sys_cfg ?c)"
      using area len k'(1) dev_inv_cron [OF assms(2)] by (auto simp: image_good_def)
    have len': "length (sys_cfg ?c) = syscfg_len" using img by (simp add: image_good_def)
    have w: "img_same (sys_cfg ?c) (sys_cfg c)" unfolding c using len' by (simp add: cfg_write_def img_same_crc Let_def)
    have good: "config_good k' c"
      using image_good_same [OF img w] cfg_write_valid [OF len', of id] unfolding c by (auto simp: config_good_def)
    let ?k = "init_aes_hmac_combined k' (dev_keys d)"
    have "keys_ok (dev_keys d)" using assms(2) by (simp add: dev_inv_def keys_from_def)
    then have "dev_inv k' (?d\<lparr>dev_keys := ?k\<rparr>)"
      using good area thermo w assms(2) k'(1) by (simp add: dev_inv_def keys_from_init img_same_def)
    moreover have "only_spoke ?d d1" using d1 speaks_reply unfolding ans_def by (rule speaksD [rotated])
    moreover have "keys_ok (dev_keys d1)"
    proof -
      have "keys_ok (dev_keys ?d) \<Longrightarrow> keys_ok (dev_keys d1)"
        using d1 unfolding ans_def by (rule keys_ok_reply)
      then show ?thesis using \<open>keys_ok (dev_keys d)\<close> by simp
    qed
    ultimately have "dev_inv k' (d1\<lparr>dev_keys := init_aes_hmac_combined (key_of (sys_cfg (dev_cfg d1))) (dev_keys d1)\<rparr>)"
      using k'(1) by (auto simp: dev_inv_def only_spoke_fields keys_from_init config_good_def image_good_def)
    then show ?thesis using run True by (auto simp: dev_ok_def)
  qed
qed


section \<open>Commands, timers and callbacks\<close>

lemma dispatch_keeps:
  assumes "env_ok env" and "\<not> strncmp_eq f (ascii ''set_key'') 32" and "0 \<notin> set c"
  shows "keeps (dev_inv k) (dispatch env f c)"
proof -
  have store: "flash_store env = id" using assms(1) by (simp add: env_ok_def)
  have cron: "keeps (dev_inv k) (mqtt_rpc_set_cron env (Some c))" using assms(3) by (intro keeps_rpc_cron(2)) simp
  note rpc = keeps_rpc_answers keeps_rpc_status keeps_rpc_network [OF store] keeps_rpc_fallback_ap keeps_rpc_ota [OF assms(1)]
    keeps_rpc_valve [OF store] keeps_rpc_cron(1) cron keeps_rpc_host [OF store]
  show ?thesis
    unfolding dispatch_def Let_def using assms(2)
    by (intro spec_if rpc keeps_seq [OF keeps_get(2)] keeps_skip) simp
qed

lemma dispatch_set_key:
  assumes "strncmp_eq f (ascii ''set_key'') 32"
  shows "dispatch env f c = mqtt_rpc_set_key env (Some c)"
proof -
  have "take 32 f = ascii ''set_key''" using assms by (simp add: strncmp_eq_def ascii_def)
  then show ?thesis by (simp add: dispatch_def strncmp_eq_def ascii_def Let_def)
qed

lemma dispatch_ok:
  assumes "env_ok env" and "0 \<notin> set c" and "dev_ok d" and "\<not> dev_ota_in_progress d"
  shows "dev_ok (snd (run_state (dispatch env f c) d))"
proof -
  obtain k where k: "dev_inv k d" using assms(3) by (auto simp: dev_ok_def)
  show ?thesis
  proof (cases "strncmp_eq f (ascii ''set_key'') 32")
    case True
    then show ?thesis using dev_ok_set_key [OF _ k assms(4)] assms(1) by (simp add: dispatch_set_key env_ok_def)
  next
    case False
    from keeps_after [OF dispatch_keeps [OF assms(1) False assms(2)] k] show ?thesis by (auto simp: dev_ok_def)
  qed
qed

lemma dev_inv_keys: "dev_inv k d \<Longrightarrow> length (RoundKey a) = 176 \<Longrightarrow> dev_inv k (d\<lparr>dev_keys := (dev_keys d)\<lparr>aes_static := a\<rparr>\<rparr>)"
  by (auto simp: dev_inv_def keys_from_def keys_ok_def)

lemma dev_inv_out: "dev_inv k (d\<lparr>dev_out := es\<rparr>) = dev_inv k d"
  by (simp add: dev_inv_def)

lemma data_cb_ok:
  assumes "env_ok env" and "dev_ok d"
  shows "dev_ok (snd (run_state (mqtt_data_cb env topic payload) d))"
proof -
  obtain k where k: "dev_inv k d" using assms(2) by (auto simp: dev_ok_def)
  obtain d' where r: "run_state (mqtt_data_cb env topic payload) d = ((), d')" by (metis old.unit.exhaust prod.exhaust)
  have keys: "keys_ok (dev_keys d)" using k by (simp add: dev_inv_def keys_from_def)
  have refused: "dev_ok r" if "refused d r" for r
    using k that by (auto simp: refused_def dev_ok_def dev_inv_def keys_from_def keys_ok_def)
  from r keys have "dev_ok d'"
  proof (cases rule: data_cb_cases)
    case (2 a out n)
    let ?d = "clock_read env (d\<lparr>dev_keys := (dev_keys d)\<lparr>aes_static := a\<rparr>\<rparr>)"
    have "dev_inv k ?d" using dev_inv_keys [OF k 2(4)] by (simp add: dev_inv_def clock_read_def)
    then have "dev_ok ?d" "\<not> dev_ota_in_progress ?d" using 2(1) by (auto simp: dev_ok_def clock_read_def)
    moreover have "0 \<notin> set (takeWhile (\<lambda>b. b \<noteq> 0) (take 512 out))" by (auto dest: set_takeWhileD)
    moreover have "dev_ok d'" if "overrun d d'"
      using that refused by (auto simp: overrun_def dev_ok_def dev_inv_out)
    ultimately show ?thesis using dispatch_ok [OF assms(1)] 2(7) by (metis snd_conv)
  qed (rule refused)
  then show ?thesis by (simp add: r)
qed


section \<open>The cron jobs on the device\<close>

text \<open>
  \<open>minute_timer_func\<close> of Cron decides on the table alone and lists what it asks for. Here the same
  decisions act on the device: before each job the table, the mode of the access point and the
  connection are those of the device, and what the job asks for happens before the next one is
  looked at. \<open>CfgSaveSsidPwd\<close> reports its own failure; the minute timer itself is an input.
\<close>

definition cron_view :: "device \<Rightarrow> cron" where
  "cron_view d = (dev_cron d)\<lparr>wifi_opmode := dev_opmode d, ap_enabled := ap_enabled_flag d, mqtt_pcon := dev_pcon d\<rparr>"

fun cron_action :: "rpc_env \<Rightarrow> cron_event \<Rightarrow> unit rpc" where
  "cron_action env (MinuteTimer ms rep) = skip"
| "cron_action env AcThermoOpen = ac_do (ac_thermo_open (ac_options env))"
| "cron_action env AcThermoClose = ac_do (ac_thermo_close (ac_options env))"
| "cron_action env (CfgSaveSsidPwd params) = do {
     d \<leftarrow> State_Monad.get;
     _ \<leftarrow> save_result env
            (cfg_save_ssid_pwd (flash_store env) (dev_ota_in_progress d) (factory env) params (dev_cfg d));
     skip
   }"
| "cron_action env MqttFlashError = skip"
| "cron_action env MqttDisconnect = event (Call ApiDisconnect)"
| "cron_action env (CronSetOpmode m) = set_opmode m"
| "cron_action env SoftapConfig = do { d \<leftarrow> State_Monad.get; softap (dev_mesh_ssid d) (field64 ap_mesh_pwd_off d) }"
| "cron_action env CfgSave = do {
     m \<leftarrow> get_dev dev_opmode;
     set_image (\<lambda>img. img[ap_enabled_off := (if m = STATIONAP_MODE then 1 else 0)]);
     d \<leftarrow> State_Monad.get;
     use_config (snd (snd (cfg_save (flash_store env) (dev_ota_in_progress d) (factory env) (dev_cfg d))))
   }"
| "cron_action env CronCfgSaveDefered = skip"
| "cron_action env AcOff = ac_do (\<lambda>a. ([], ac_off a))"
| "cron_action env AcTest = ac_do (ac_test (ac_options env))"

fun cron_actions :: "rpc_env \<Rightarrow> cron_event list \<Rightarrow> unit rpc" where
  "cron_actions env [] = skip"
| "cron_actions env (e # es) = do { cron_action env e; cron_actions env es }"

definition cron_job_run :: "rpc_env \<Rightarrow> cron_job_t \<Rightarrow> unit rpc" where
  "cron_job_run env j = do {
     d \<leftarrow> State_Monad.get;
     let (evs, s) = execute True j (cron_view d);
     cron_done evs s;
     cron_actions env evs
   }"

fun cron_pass :: "rpc_env \<Rightarrow> tm \<Rightarrow> nat \<Rightarrow> nat \<Rightarrow> unit rpc" where
  "cron_pass env dt 0 i = skip"
| "cron_pass env dt (Suc k) i = do {
     s \<leftarrow> get_dev dev_cron;
     if i < cron_n s then do {
       let j = cron_job_list s ! i;
       (if run_command dt j = 5 then cron_job_run env j else skip);
       cron_pass env dt k (i + 1)
     } else skip
   }"

definition cron_minute :: "rpc_env \<Rightarrow> unit rpc" where
  "cron_minute env = do {
     busy \<leftarrow> get_dev dev_ota_in_progress;
     if busy then skip
     else do {
       now \<leftarrow> unix_time_now env;
       if now = 0 then skip
       else do {
         let unix_time = unat now + 3600;
         let dt = gmtime unix_time;
         let dt = (if cron_dst dt then gmtime (unix_time + 3600) else dt);
         State_Monad.update (\<lambda>d. d\<lparr>dev_cron := (dev_cron d)\<lparr>sec_drift := if tm_sec dt = 0 then 0 else 60 - tm_sec dt\<rparr>\<rparr>);
         n \<leftarrow> get_dev (\<lambda>d. cron_n (dev_cron d));
         cron_pass env dt n 0
       }
     }
   }"

lemma execute_ok: "cron_ok s \<Longrightarrow> cron_ok (snd (execute saved j s))"
  using clear_cron_ok [of s]
  by (simp add: execute_def Let_def) (auto simp: cron_ok_def)

lemma cron_view_ok: "cron_ok (dev_cron d) \<Longrightarrow> cron_ok (cron_view d)"
  by (simp add: cron_view_def cron_ok_def)

lemma keeps_cron_action:
  assumes "flash_store env = id"
  shows "keeps (dev_inv k) (cron_action env e)"
proof (cases e)
  case (CfgSaveSsidPwd p)
  have "keeps (dev_inv k) (save_result env (cfg_save_ssid_pwd (flash_store env) (dev_ota_in_progress d) (factory env) p (dev_cfg d)))"
    if "dev_inv k d" for d
    using that assms by (auto intro!: keeps_save_result cfg_save_ssid_pwd_good dest: dev_inv_good)
  then show ?thesis unfolding CfgSaveSsidPwd cron_action.simps
    by (intro spec_bind [OF spec_get] keeps_seq keeps_skip) simp_all
next
  case CfgSave
  have "keeps (dev_inv k) (use_config (snd (snd (cfg_save (flash_store env) (dev_ota_in_progress d) (factory env) (dev_cfg d)))))"
    if "dev_inv k d" for d
    using that assms by (auto intro!: keeps_use_config cfg_save_good dest: dev_inv_good)
  then show ?thesis unfolding CfgSave cron_action.simps
    by (intro keeps_seq keeps_get keeps_set_image spec_bind [OF spec_get]) (auto simp: img_same_update apart_def)
qed (simp_all only: cron_action.simps, (intro keeps_rules)+)

lemma keeps_cron_actions: "flash_store env = id \<Longrightarrow> keeps (dev_inv k) (cron_actions env es)"
  by (induction es) (auto intro: keeps_skip keeps_seq keeps_cron_action)

lemma keeps_cron_job_run:
  assumes "flash_store env = id"
  shows "keeps (dev_inv k) (cron_job_run env j)"
proof -
  have "cron_ok s" if "execute True j (cron_view d) = (evs, s)" "dev_inv k d" for evs s d
    using execute_ok [OF cron_view_ok [OF dev_inv_cron [OF that(2)]], of True j] that(1) by simp
  then show ?thesis
    unfolding cron_job_run_def Let_def
    by (intro spec_bind [OF spec_get] spec_pair keeps_seq [OF keeps_cron_done] keeps_cron_actions assms) blast
qed

lemma keeps_cron_pass: "flash_store env = id \<Longrightarrow> keeps (dev_inv k) (cron_pass env dt n i)"
proof (induction n arbitrary: i)
  case (Suc n)
  then show ?case unfolding cron_pass.simps Let_def
    by (intro keeps_seq keeps_get spec_if keeps_skip keeps_cron_job_run) assumption+
qed (simp add: keeps_skip)

lemma keeps_cron_minute:
  assumes "flash_store env = id"
  shows "keeps (dev_inv k) (cron_minute env)"
proof -
  have "keeps (dev_inv k) (State_Monad.update (\<lambda>d. d\<lparr>dev_cron := (dev_cron d)\<lparr>sec_drift := n\<rparr>\<rparr>))" for n
    by (intro keeps_update) (simp add: dev_inv_def cron_ok_def cron_bytes_def)
  then show ?thesis unfolding cron_minute_def Let_def
    by (intro keeps_seq keeps_get spec_if keeps_skip keeps_clock keeps_cron_pass assms)
qed


section \<open>Inputs\<close>

text \<open>What can happen to the device: a message, a timer, a callback, or news from its other parts.\<close>

datatype dev_input =
    InCommand bytes bytes
  | InConnected
  | InDisconnected
  | InPublished
  | InPingResponse
  | InFirstRpc
  | InSample
  | InSampleFirst
  | InSentData
  | InCsaReport
  | InWifiTestReport
  | InScanResult bss_info
  | InSampleMode
  | InConfigMode
  | InMeterReady
  | InWifiChanged u8
  | InFallbackRetry
  | InFallbackApTimer
  | InDelayedWifiDefault
  | InRestartAck
  | InConfigSave
  | InCronMinute
  | InReading u32 u32
  | InUpdateRuns bool
  | InSocket bool

fun handle :: "rpc_env \<Rightarrow> dev_input \<Rightarrow> unit rpc" where
  "handle env (InCommand topic payload) = mqtt_data_cb env topic payload"
| "handle env InConnected = mqtt_connected_cb env"
| "handle env InDisconnected = mqtt_disconnected_cb env"
| "handle env InPublished = mqtt_published_cb"
| "handle env InPingResponse = mqtt_ping_response_cb"
| "handle env InFirstRpc = mqtt_connected_first_mqtt_rpc_timer_func env"
| "handle env InSample = sample_timer_func"
| "handle env InSampleFirst = sample_timer_first_func"
| "handle env InSentData = meter_sent_data env"
| "handle env InCsaReport = csa_report_timer_func env"
| "handle env InWifiTestReport = wifi_test_report_timer_func env"
| "handle env (InScanResult info) = mqtt_send_wifi_scan_results_cb env info"
| "handle env InSampleMode = sample_mode_timer_func env"
| "handle env InConfigMode = config_mode_timer_func env"
| "handle env InMeterReady = meter_is_ready"
| "handle env (InWifiChanged status) = wifi_changed_cb status"
| "handle env InFallbackRetry = mqtt_fallback_retry_cb"
| "handle env InFallbackApTimer = do { m \<leftarrow> get_dev dev_mesh_ssid; fallback_ap_timer_func m }"
| "handle env InDelayedWifiDefault = delayed_wifi_default_cb"
| "handle env InRestartAck = mqtt_restart_ack_timer_func"
| "handle env InConfigSave =
     State_Monad.update (\<lambda>d. d\<lparr>dev_cfg := config_save_timer_func (flash_store env) (dev_ota_in_progress d) (dev_cfg d)\<rparr>)"
| "handle env InCronMinute = cron_minute env"
| "handle env (InReading serial energy) =
     State_Monad.update (\<lambda>d. d\<lparr>dev_serial := serial, dev_energy_kwh := energy\<rparr>)"
| "handle env (InUpdateRuns b) = State_Monad.update (\<lambda>d. d\<lparr>dev_ota_in_progress := b\<rparr>)"
| "handle env (InSocket b) = State_Monad.update (\<lambda>d. d\<lparr>dev_pcon := b\<rparr>)"

lemma keeps_sample_mode:
  assumes "flash_store env = id"
  shows "keeps (dev_inv k) (sample_mode_timer_func env)"
proof -
  have load: "keeps (dev_inv k) (use_config (cfg_load (flash_store env) (dev_ota_in_progress d) (factory env) (dev_cfg d)))"
    if "dev_inv k d" for d
    using that by (intro keeps_use_config cfg_load_good dev_inv_good)
  have img: "img_same img (put_string s 16 device_id_off (put_bytes img device_id_off (replicate 16 0)))"
    if "length img = syscfg_len" for img s
  proof -
    have "img_same img (put_bytes img device_id_off (replicate 16 0))" using that by (intro img_same_put) (simp_all add: apart_def)
    moreover from this have "img_same (put_bytes img device_id_off (replicate 16 0))
        (put_string s 16 device_id_off (put_bytes img device_id_off (replicate 16 0)))"
      unfolding put_string_def by (intro img_same_put) (auto simp: img_same_def apart_def)
    ultimately show ?thesis by (rule img_same_trans)
  qed
  show ?thesis
    unfolding sample_mode_timer_func_def Let_def serial_topic_def
    by (rule keeps_seq [OF keeps_get(2)], rule keeps_seq, intro keeps_rules,
        rule spec_bind [OF spec_get], rule keeps_seq [OF load], assumption,
        intro keeps_rules keeps_updates keeps_set_image img keeps_save_or_report assms)
qed

lemma handle_ok:
  assumes "env_ok env" and "dev_ok d"
  shows "dev_ok (snd (run_state (handle env i) d))"
proof -
  have store: "flash_store env = id" using assms(1) by (simp add: env_ok_def)
  obtain k where k: "dev_inv k d" using assms(2) by (auto simp: dev_ok_def)
  have other: "dev_ok (snd (run_state m d))" if "keeps (dev_inv k) m" for m
    using keeps_after [OF that k] by (auto simp: dev_ok_def)
  note rules = keeps_rules keeps_updates keeps_rpc_answers keeps_rpc_status
  have next_step: "keeps (dev_inv k) next_rpc" unfolding next_rpc_def by (intro rules)
  show ?thesis
  proof (cases i)
    case (InCommand topic payload)
    then show ?thesis using data_cb_ok [OF assms(1,2)] by simp
  next
    case InCronMinute
    then show ?thesis using other [OF keeps_cron_minute [OF store]] by simp
  next
    case InConfigSave
    let ?c = "config_save_timer_func id (dev_ota_in_progress d) (dev_cfg d)"
    have "dev_inv k (d\<lparr>dev_cfg := ?c\<rparr>)"
      using config_save_timer_func_good [OF dev_inv_good [OF k]] by (intro dev_inv_cfg [OF k]) simp_all
    then show ?thesis using store InConfigSave by (auto simp: dev_ok_def)
  next
    case InConnected
    have "keeps (dev_inv k) (mqtt_connected_cb env)" unfolding mqtt_connected_cb_def by (intro rules)
    then show ?thesis using other InConnected by simp
  next
    case InFirstRpc
    have "keeps (dev_inv k) (mqtt_connected_first_mqtt_rpc_timer_func env)"
      unfolding mqtt_connected_first_mqtt_rpc_timer_func_def serial_topic_def by (intro rules next_step)
    then show ?thesis using other InFirstRpc by simp
  next
    case InSampleMode
    then show ?thesis using other [OF keeps_sample_mode [OF store]] by simp
  next
    case InConfigMode
    have "keeps (dev_inv k) (config_mode_timer_func env)" unfolding config_mode_timer_func_def Let_def by (intro rules)
    then show ?thesis using other InConfigMode by simp
  next
    case InSentData
    have "keeps (dev_inv k) (meter_sent_data env)" unfolding meter_sent_data_def by (intro rules)
    then show ?thesis using other InSentData by simp
  next
    case (InReading s e)
    have "keeps (dev_inv k) (handle env (InReading s e))" unfolding handle.simps by (intro keeps_other_fields) simp_all
    from other [OF this] show ?thesis using InReading by simp
  next
    case (InSocket b)
    have "keeps (dev_inv k) (handle env (InSocket b))" unfolding handle.simps by (intro keeps_other_fields) simp_all
    from other [OF this] show ?thesis using InSocket by simp
  qed (hypsubst, unfold handle.simps mqtt_disconnected_cb_def mqtt_published_cb_def mqtt_ping_response_cb_def sample_timer_func_def
      sample_timer_first_func_def csa_report_timer_func_def wifi_test_report_timer_func_def mqtt_send_wifi_scan_results_cb_def
      meter_is_ready_def wifi_changed_cb_def mqtt_fallback_retry_cb_def, intro other rules keeps_rpc_fallback_ap)+
qed


section \<open>Boot and reachable states\<close>

definition empty_cron :: cron where
  "empty_cron = \<lparr>cron_n = 0, cron_job_list = replicate 16 empty_job, sec_drift = 0, wifi_opmode = NULL_MODE,
     ap_enabled = False, mqtt_pcon = False\<rparr>"

lemma empty_cron_ok: "cron_ok empty_cron"
  by (simp add: cron_ok_def empty_cron_def list_all_iff empty_job_ok del: replicate_numeral)

lemma empty_cron_bytes: "cron_bytes empty_cron = replicate 2689 0"
proof -
  have "fixed n [] = replicate n 0" for n by (simp add: fixed_def del: replicate_numeral)
  then have j: "job_bytes empty_job = replicate 168 0"
    by (simp add: job_bytes_def empty_job_def replicate_add [symmetric] del: replicate_numeral)
  have "concat (replicate n (replicate 168 (0::u8))) = replicate (168 * n) 0" for n
    by (induction n) (simp_all add: replicate_add [symmetric] del: replicate_numeral)
  then show ?thesis
    by (simp add: cron_bytes_def empty_cron_def j replicate_Suc [symmetric] del: replicate_numeral replicate_Suc)
qed

text \<open>The factory settings: no cron jobs, and the key of the build.\<close>

definition no_jobs :: "bytes \<Rightarrow> bool" where
  "no_jobs img \<longleftrightarrow> length img = syscfg_len \<and> sub_bytes img cron_jobs_off 2689 = replicate 2689 0"

lemma no_jobs_put: "no_jobs img \<Longrightarrow> off + length xs \<le> cron_jobs_off \<Longrightarrow> no_jobs (put_bytes img off xs)"
  by (simp add: no_jobs_def sub_bytes_put_bytes_other del: replicate_numeral)

lemma no_jobs_rules:
  "no_jobs img \<Longrightarrow> off + n \<le> cron_jobs_off \<Longrightarrow> 0 < n \<Longrightarrow> no_jobs (put_string s n off img)"
  "no_jobs img \<Longrightarrow> off + 4 \<le> cron_jobs_off \<Longrightarrow> no_jobs (put_le32 w off img)"
  "no_jobs img \<Longrightarrow> off < cron_jobs_off \<Longrightarrow> no_jobs (img[off := x])"
  unfolding put_string_def put_le32_def
  by (rule no_jobs_put; simp)+ (simp add: no_jobs_def sub_bytes_list_update del: replicate_numeral)

lemma put_bytes_self: "off + length xs \<le> length a \<Longrightarrow> sub_bytes a off (length xs) = xs \<Longrightarrow> put_bytes a off xs = a"
  by (metis append_take_drop_id drop_drop put_bytes_def sub_bytes_def add.commute)

lemma no_jobs_zero: "no_jobs img \<Longrightarrow> no_jobs (put_bytes img cron_jobs_off (replicate 168 0))"
proof -
  assume a: "no_jobs img"
  have "sub_bytes img cron_jobs_off 168 = take 168 (sub_bytes img cron_jobs_off 2689)" by (simp add: sub_bytes_def)
  also have "\<dots> = replicate 168 0" using a by (simp add: no_jobs_def del: replicate_numeral)
  finally have "put_bytes img cron_jobs_off (replicate 168 0) = img"
    using a by (intro put_bytes_self) (simp_all add: no_jobs_def del: replicate_numeral)
  with a show ?thesis by simp
qed

definition has_key :: "bytes \<Rightarrow> bytes \<Rightarrow> bool" where
  "has_key k img \<longleftrightarrow> length img = syscfg_len \<and> key_of img = k"

lemma has_key_rules:
  "length img = syscfg_len \<Longrightarrow> length k = 16 \<Longrightarrow> has_key k (put_bytes img key_off k)"
  "has_key k img \<Longrightarrow> key_off + 16 \<le> off \<and> off + length xs \<le> syscfg_len \<Longrightarrow> has_key k (put_bytes img off xs)"
  "has_key k img \<Longrightarrow> off + 4 \<le> key_off \<or> key_off + 16 \<le> off \<and> off + 4 \<le> syscfg_len \<Longrightarrow> has_key k (put_le32 w off img)"
  "has_key k img \<Longrightarrow> off < key_off \<or> key_off + 16 \<le> off \<Longrightarrow> has_key k (img[off := x])"
  using sub_bytes_put_bytes_same [of key_off k img]
  by (auto simp: has_key_def key_of_def put_le32_def sub_bytes_put_bytes_other sub_bytes_list_update)

lemma default_image_good:
  assumes "16 \<le> length (d_key f)"
  shows "image_good (take 16 (d_key f)) (default_image f)"
proof -
  have "no_jobs (replicate syscfg_len 0)"
    by (simp add: no_jobs_def sub_bytes_def del: replicate_numeral)
  then have "no_jobs (default_image f)"
    unfolding default_image_def Let_def by (intro no_jobs_zero no_jobs_rules no_jobs_put) simp_all
  moreover have "has_key (take 16 (d_key f)) (default_image f)"
    unfolding default_image_def Let_def
    by (rule has_key_rules(2), rule has_key_rules(3), rule has_key_rules(4), rule has_key_rules(3), rule has_key_rules(1),
        (intro image_keeps)?) (use assms in \<open>simp_all del: replicate_numeral\<close>)
  ultimately show ?thesis using empty_cron_ok empty_cron_bytes
    by (auto simp: image_good_def has_key_def no_jobs_def simp del: replicate_numeral intro!: exI [of _ empty_cron])
qed


text \<open>A flash the device may be started with: what it saved itself, or anything with a checksum that does not fit.\<close>

definition bootable :: "bytes \<Rightarrow> bool" where
  "bootable flash \<longleftrightarrow> length flash = syscfg_len \<and> (valid_image flash \<longrightarrow> image_good (key_of flash) flash)"

lemma boot_config_good:
  assumes "bootable flash" and "cfg_flash c = flash" and "16 \<le> length (d_key f)"
  obtains k where "length k = 16" and "config_good k (cfg_load id False f c)"
proof (cases "valid_image flash")
  case True
  have "length (key_of flash) = 16" using assms(1) by (simp add: bootable_def key_of_def)
  moreover have "config_good (key_of flash) (cfg_load id False f c)"
    using True assms by (simp add: cfg_load_valid config_good_def bootable_def)
  ultimately show thesis by (rule that)
next
  case False
  let ?k = "take 16 (d_key f)" and ?c = "c\<lparr>sys_cfg := default_image f\<rparr>"
  have good: "image_good ?k (sys_cfg ?c)" using default_image_good [OF assms(3)] by simp
  have len: "length (sys_cfg ?c) = syscfg_len" by simp
  have "img_same (sys_cfg ?c) (sys_cfg (cfg_write id ?c))" by (simp add: cfg_write_def img_same_crc Let_def)
  from image_good_same [OF good this] cfg_write_valid [OF len, of id] have "config_good ?k (cfg_write id ?c)"
    by (auto simp: config_good_def)
  moreover have "cfg_load id False f c = cfg_write id ?c"
    using False assms(1,2) by (simp add: cfg_load_def cfg_save_plain_def valid_image_def bootable_def cfg_write_def Let_def)
  moreover have "length ?k = 16" using assms(3) by simp
  ultimately show thesis using that by metis
qed

lemma boot_ok:
  assumes "env_ok env" and "16 \<le> length (d_key (factory env))" and "bootable flash"
  shows "dev_ok (boot env flash fr rr temp)"
proof -
  let ?p = "power_on flash fr rr temp"
  have store: "flash_store env = id" using assms(1) by (simp add: env_ok_def)
  obtain k where k: "length k = 16" "config_good k (cfg_load id False (factory env) (dev_cfg ?p))"
    by (rule boot_config_good [OF assms(3) power_on_cfg(1) assms(2)])
  let ?c = "cfg_load id False (factory env) (dev_cfg ?p)"
  from k(2) obtain s where s: "cron_ok s" "sub_bytes (sys_cfg ?c) cron_jobs_off 2689 = cron_bytes s" "length (sys_cfg ?c) = syscfg_len"
    by (auto simp: config_good_def image_good_def)
  let ?d = "?p\<lparr>dev_pcon := False, dev_cfg := ?c, dev_ac := (dev_ac ?p)\<lparr>ac_thermo_state := sys_cfg ?c ! ac_thermo_state_off\<rparr>,
       dev_cron := load_cron (sys_cfg ?c) (dev_cron ?p), dev_keys := init_aes_hmac_combined k (dev_keys ?p),
       dev_out := dev_out ?p @ [WatchdogInit, KmpRequestInit, CronInit]\<rparr>"
  have "cron_ok (dev_cron ?d) \<and> cron_bytes (dev_cron ?d) = cron_bytes s"
    using load_cron_bytes [OF s] s(1) by (simp add: cron_ok_def cron_bytes_def)
  moreover have "keys_from k (dev_keys ?d)"
    using keys_ok_init [of k "dev_keys ?p"] k(1) power_on_cfg(3) by (simp add: keys_from_def init_aes_hmac_combined_def Let_def)
  ultimately have inv: "dev_inv k ?d" using k(2) s by (simp add: dev_inv_def)
  let ?rest = "do { ac_do (if ac_thermo_state (dev_ac ?d) \<noteq> 0 then ac_thermo_open (ac_options env) else ac_thermo_close (ac_options env));
      event WifiInitNapt; set_opmode NULL_MODE; events [StationDisconnect, SystemInitDone] }"
  have "keeps (dev_inv k) ?rest" by (intro keeps_rules)
  from keeps_after [OF this inv] have "dev_inv k (snd (run_state ?rest ?d))" .
  moreover have "key_of (sys_cfg ?c) = k" using k(2) by (simp add: config_good_def image_good_def)
  then have "run_state (user_init env) ?p = run_state ?rest ?d"
    using store power_on_cfg(2)
    by (simp add: user_init_def run_use_config with_config_def init_keys_def key_of_def Let_def)
  ultimately show ?thesis by (auto simp: boot_def dev_ok_def)
qed

inductive reachable_device :: "device \<Rightarrow> bool" where
  start: "env_ok env \<Longrightarrow> 16 \<le> length (d_key (factory env)) \<Longrightarrow> bootable flash \<Longrightarrow>
    reachable_device (snd (run_state (system_init_done env) (boot env flash fr rr temp)))"
| input: "reachable_device d \<Longrightarrow> env_ok env \<Longrightarrow> reachable_device (snd (run_state (handle env i) d))"

lemma reachable_device_ok: "reachable_device d \<Longrightarrow> dev_ok d"
proof (induction rule: reachable_device.induct)
  case (start env flash fr rr temp)
  from boot_ok [OF this] obtain k where k: "dev_inv k (boot env flash fr rr temp)" unfolding dev_ok_def ..
  have "keeps (dev_inv k) (system_init_done env)"
    unfolding system_init_done_def Let_def by (intro keeps_rules keeps_updates)
  from keeps_after [OF this k] show ?case by (auto simp: dev_ok_def)
qed (rule handle_ok)

text \<open>
  C2: In every state the device can reach from a boot, whatever messages, timers (the minute timer of
  the cron jobs among them), callbacks and readings come in whatever order, and whatever they hold: the
  configuration keeps its layout, the flash holds one that passes its checksum, the keys in use are
  those of the key stored in RAM and in flash, the valve's state and the table of cron jobs agree with
  the configuration, and the table stays within its sixteen slots with every string ended inside its
  field. The flash keeps what it is given, and an access outside a buffer is an event of the model
  (\<open>OutOfBounds\<close>) that changes nothing else: the claim is about the state, not about these accesses.
\<close>

theorem device_state_safe:
  assumes "reachable_device d"
  shows "cfg_ok (dev_cfg d) \<and> valid_image (cfg_flash (dev_cfg d)) \<and> keys_ok (dev_keys d) \<and>
    same_keys (dev_keys d) (init_aes_hmac_combined (key_of (sys_cfg (dev_cfg d))) cr) \<and>
    key_of (cfg_flash (dev_cfg d)) = key_of (sys_cfg (dev_cfg d)) \<and>
    ac_thermo_state (dev_ac d) = sys_cfg (dev_cfg d) ! ac_thermo_state_off \<and>
    cron_ok (dev_cron d) \<and> sub_bytes (sys_cfg (dev_cfg d)) cron_jobs_off 2689 = cron_bytes (dev_cron d)"
proof -
  from reachable_device_ok [OF assms] obtain k where "dev_inv k d" by (auto simp: dev_ok_def)
  moreover from this have "length k = 16"
    by (auto simp: dev_inv_def config_good_def image_good_def key_of_def)
  ultimately show ?thesis
    by (auto simp: dev_inv_def config_good_def image_good_def keys_from_def cfg_ok_def same_keys_def init_aes_hmac_combined_def Let_def)
qed

lemma sample_env_ok: "env_ok sample_env" "16 \<le> length (d_key (factory sample_env))"
  by (simp_all add: env_ok_def sample_env_def sample_defaults_def keeps_return)

lemma blank_bootable: "\<not> valid_image flash \<Longrightarrow> length flash = syscfg_len \<Longrightarrow> bootable flash"
  by (simp add: bootable_def)

theorem device_state_safe_witness:
  "let flash = sys_cfg (cfg_write id (blank_config\<lparr>sys_cfg := default_image sample_defaults\<rparr>));
       d = snd (run_state (handle sample_env (InCommand sample_topic sample_command))
             (snd (run_state (system_init_done sample_env) (boot sample_env flash 0 0 False))))
   in cron_ok (dev_cron d) \<and> valid_image (cfg_flash (dev_cfg d))"
proof -
  let ?c = "blank_config\<lparr>sys_cfg := default_image sample_defaults\<rparr>"
  let ?flash = "sys_cfg (cfg_write id ?c)"
  have len: "length (sys_cfg ?c) = syscfg_len" by simp
  have good: "image_good (take 16 (d_key sample_defaults)) (sys_cfg ?c)"
    using default_image_good [of sample_defaults] by (simp add: sample_defaults_def)
  have "img_same (sys_cfg ?c) ?flash" by (simp add: cfg_write_def img_same_crc Let_def)
  from image_good_same [OF good this] have "bootable ?flash"
    by (auto simp: bootable_def image_good_def)
  then have "reachable_device (snd (run_state (system_init_done sample_env) (boot sample_env ?flash 0 0 False)))"
    by (rule reachable_device.start [OF sample_env_ok])
  then have "reachable_device (snd (run_state (handle sample_env (InCommand sample_topic sample_command))
      (snd (run_state (system_init_done sample_env) (boot sample_env ?flash 0 0 False)))))"
    by (intro reachable_device.input sample_env_ok(1)) simp_all
  from device_state_safe [OF this] show ?thesis by (simp only: Let_def simp_thms)
qed

end
