(* ===== verification/Ota.thy ===== *)
theory Ota
  imports MqttRpc
begin

text \<open>
  \<open>user/ota.c\<close>: the download of a firmware into the slot that does not run. The server's answer is parsed
  and checked, the body is written through rBoot and hashed on the way, a broken transfer is resumed at
  a sector boundary, and a complete image whose digest fits is staged for one trial boot.

  The state has the statics of the file and the flash (address to byte). rBoot, the flash driver and the
  network are not in the repository: their answers to one call are the fields of \<open>ota_env\<close>, and the
  type \<open>'w\<close> is rBoot's \<open>rboot_write_status\<close>.
\<close>

section \<open>Parsing\<close>

abbreviation crlf :: bytes where "crlf \<equiv> [0x0D, 0x0A]"

definition ota_ascii_lower :: "u8 \<Rightarrow> u8" where
  "ota_ascii_lower c = (if 0x41 \<le> c \<and> c \<le> 0x5A then c + 0x20 else c)"

fun ota_ascii_equal_n :: "bytes \<Rightarrow> bytes \<Rightarrow> nat \<Rightarrow> bool" where
  "ota_ascii_equal_n a b 0 \<longleftrightarrow> True"
| "ota_ascii_equal_n a b (Suc len) \<longleftrightarrow>
     ota_ascii_lower (char_at a 0) = ota_ascii_lower (char_at b 0) \<and> ota_ascii_equal_n (tl a) (tl b) len"

definition strchr :: "u8 \<Rightarrow> bytes \<Rightarrow> nat option" where
  "strchr c s = (let n = length (takeWhile (\<lambda>b. b \<noteq> c) s) in if n < length s then Some n else None)"

definition is_blank :: "u8 \<Rightarrow> bool" where
  "is_blank c \<longleftrightarrow> c = 0x20 \<or> c = 0x09"

definition skip_blanks :: "bytes \<Rightarrow> bytes" where
  "skip_blanks p = dropWhile is_blank p"

text \<open>The loop over the lines of the header; a value found counts with its first occurrence.\<close>

function header_loop :: "bytes \<Rightarrow> bytes \<Rightarrow> bytes option \<Rightarrow> bool \<Rightarrow> bytes option \<times> bool" where
  "header_loop line name val duplicate =
     (if line = [] \<or> (char_at line 0 = 0x0D \<and> char_at line 1 = 0x0A) then (val, duplicate)
      else
        (case strstr_loop crlf line 0 of
           None \<Rightarrow> (None, duplicate)
         | Some line_end \<Rightarrow>
             let found = (case strchr 0x3A line of
                            None \<Rightarrow> False
                          | Some colon \<Rightarrow> colon < line_end \<and> colon = length name \<and> ota_ascii_equal_n line name (length name));
                 next_line = drop (line_end + 2) line
             in if found then
                  (if val \<noteq> None then header_loop next_line name val True
                   else header_loop next_line name (Some (skip_blanks (drop (length name + 1) line))) duplicate)
                else header_loop next_line name val duplicate))"
  by pat_completeness auto
termination
  by (relation "measure (\<lambda>(line, name, val, duplicate). length line)") auto

declare header_loop.simps [simp del]

definition ota_get_header_value :: "bytes \<Rightarrow> bytes \<Rightarrow> bytes option \<times> bool" where
  "ota_get_header_value headers name =
     (case strstr_loop crlf headers 0 of
        None \<Rightarrow> (None, False)
      | Some k \<Rightarrow> header_loop (drop (k + 2) headers) name None False)"

text \<open>The digits of a number: \<open>None\<close> when it does not fit 32 bits.\<close>

fun ota_digits :: "bytes \<Rightarrow> u32 \<Rightarrow> bool \<Rightarrow> (u32 \<times> bool \<times> bytes) option" where
  "ota_digits [] v have_digit = Some (v, have_digit, [])"
| "ota_digits (c # p) v have_digit =
     (if 0x30 \<le> c \<and> c \<le> 0x39 then
        let digit = ucast (c - 0x30)
        in if v > (0xFFFFFFFF - digit) div 10 then None else ota_digits p (v * 10 + digit) True
      else Some (v, have_digit, c # p))"

definition at_line_end :: "bytes \<Rightarrow> bool" where
  "at_line_end p \<longleftrightarrow> char_at p 0 = 0x0D \<or> char_at p 0 = 0x0A \<or> char_at p 0 = 0"

definition ota_parse_uint32 :: "bytes \<Rightarrow> u32 option" where
  "ota_parse_uint32 p =
     (case ota_digits (skip_blanks p) 0 False of
        None \<Rightarrow> None
      | Some (v, have_digit, p) \<Rightarrow>
          if \<not> have_digit then None else if at_line_end (skip_blanks p) then Some v else None)"

definition ota_parse_content_range :: "bytes \<Rightarrow> (u32 \<times> u32 \<times> u32) option" where
  "ota_parse_content_range p =
     (let p = skip_blanks p
      in if \<not> ota_ascii_equal_n p (ascii ''bytes'') 5 then None
         else if \<not> is_blank (char_at p 5) then None
         else
           (case ota_digits (skip_blanks (drop 5 p)) 0 False of
              None \<Rightarrow> None
            | Some (first, have_digit, p) \<Rightarrow>
                if \<not> have_digit \<or> char_at p 0 \<noteq> 0x2D then None
                else
                  (case ota_digits (drop 1 p) 0 False of
                     None \<Rightarrow> None
                   | Some (last_byte, have_digit, p) \<Rightarrow>
                       if \<not> have_digit \<or> char_at p 0 \<noteq> 0x2F then None
                       else
                         (case ota_digits (drop 1 p) 0 False of
                            None \<Rightarrow> None
                          | Some (size_all, have_digit, p) \<Rightarrow>
                              if \<not> have_digit then None
                              else if at_line_end (skip_blanks p) then Some (first, last_byte, size_all) else None))))"

definition is_num :: "u8 \<Rightarrow> bool" where
  "is_num c \<longleftrightarrow> 0x30 \<le> c \<and> c \<le> 0x39"

definition ota_parse_status_code :: "bytes \<Rightarrow> int option" where
  "ota_parse_status_code line =
     (case strstr_loop crlf line 0 of
        None \<Rightarrow> None
      | Some line_end \<Rightarrow>
          if take 9 line \<noteq> ascii ''HTTP/1.0 '' \<and> take 9 line \<noteq> ascii ''HTTP/1.1 '' then None
          else if line_end < 12 then None
          else if \<not> is_num (char_at line 9) \<or> \<not> is_num (char_at line 10) \<or> \<not> is_num (char_at line 11) then None
          else
            let code = (uint (char_at line 9) - 48) * 100 + (uint (char_at line 10) - 48) * 10 + (uint (char_at line 11) - 48)
            in if char_at line 12 \<noteq> 0x20 \<and> char_at line 12 \<noteq> 0x0D then None else Some code)"

text \<open>The digest of 32 bytes as 64 characters: success, the array (the bytes before a bad pair are
  written), and whether the check is on.\<close>

fun sha256_pairs :: "bytes \<Rightarrow> nat \<Rightarrow> nat \<Rightarrow> bytes \<Rightarrow> bool \<times> bytes" where
  "sha256_pairs hex i 0 digest = (True, digest)"
| "sha256_pairs hex i (Suc n) digest =
     (let high = hex_char_to_val (char_at hex (i * 2)); low = hex_char_to_val (char_at hex (i * 2 + 1))
      in if high < 0 \<or> low < 0 then (False, digest)
         else sha256_pairs hex (i + 1) n (digest[i := word_of_int (high * 16 OR low)]))"

definition ota_parse_sha256 :: "bytes option \<Rightarrow> bytes \<Rightarrow> bool \<times> bytes \<times> bool" where
  "ota_parse_sha256 hex digest =
     (case hex of
        None \<Rightarrow> (True, digest, False)
      | Some hex \<Rightarrow>
          if hex = [] then (True, digest, False)
          else if length hex \<noteq> 64 then (False, digest, False)
          else (case sha256_pairs hex 0 32 digest of (ok, digest) \<Rightarrow> (ok, digest, ok)))"


section \<open>State\<close>

datatype ota_timer = TimeoutTimer | RetryTimer | ProgressTimer

text \<open>The calls that leave the component, and the timers that fire, in their order.\<close>

datatype ota_event =
    OtaArm ota_timer nat
  | OtaDisarm ota_timer
  | OtaFired ota_timer
  | WifiStopScan
  | WifiStartScan nat
  | RpcOtaStatus bytes
  | DnsGetHostByName bytes
  | EspconnConnect u32 int
  | EspconnSend bytes
  | EspconnAbort
  | SetTempRom u8
  | OtaRestartDefered

record 'w ota =
  ota_out :: "ota_event list"
  spi_flash :: "nat \<Rightarrow> u8"
  ota_in_progress :: bool
  ota_mqtt_client :: bool
  ota_remote_ip :: u32
  ota_remote_port :: int
  ota_status :: 'w
  ota_target_rom :: u8
  ota_target_base_addr :: u32
  headers_parsed :: bool
  is_valid_binary :: bool
  ota_firmware_size :: u32
  ota_firmware_size_known :: bool
  ota_response_length :: u32
  ota_response_received_bytes :: u32
  ota_response_length_known :: bool
  ota_response_status_code :: int
  ota_response_range_end :: u32
  ota_response_range_total :: u32
  ota_response_range_valid :: bool
  ota_received_bytes :: u32
  ota_request_offset :: u32
  ota_retry_count :: u8
  ota_retry_pending :: bool
  ota_continue_pending :: bool
  ota_dns_pending :: bool
  ota_incomplete_http_response_seen :: bool
  ota_dns_failure_seen :: bool
  ota_tcp_failure_seen :: bool
  ota_other_failure_seen :: bool
  ota_last_reported_progress :: u8
  ota_header_buffer :: bytes
  ota_host :: bytes
  ota_host_header :: bytes
  ota_path :: bytes
  ota_port :: int
  ota_sha_ctx :: sha256_ctx
  expected_sha256_1 :: bytes
  expected_sha256_2 :: bytes
  has_sha256_check_1 :: bool
  has_sha256_check_2 :: bool

datatype ota_dns_result = OtaDnsOk u32 | OtaDnsInProgress | OtaDnsError

record 'w ota_env =
  rboot_rom_addr :: "u8 \<Rightarrow> u32"
  rboot_last_boot_rom :: "u8 option"
  rboot_current_rom :: u8
  spi_erase_sector :: "nat \<Rightarrow> (nat \<Rightarrow> u8) \<Rightarrow> bool \<times> (nat \<Rightarrow> u8)"
  spi_read :: "nat \<Rightarrow> nat \<Rightarrow> (nat \<Rightarrow> u8) \<Rightarrow> bytes option"
  rboot_write_init :: "nat \<Rightarrow> 'w"
  rboot_write_flash :: "'w \<Rightarrow> bytes \<Rightarrow> (nat \<Rightarrow> u8) \<Rightarrow> bool \<times> 'w \<times> (nat \<Rightarrow> u8)"
  rboot_write_end :: "'w \<Rightarrow> (nat \<Rightarrow> u8) \<Rightarrow> bool \<times> 'w \<times> (nat \<Rightarrow> u8)"
  rboot_set_temp_rom :: "u8 \<Rightarrow> bool"
  dns_answer :: ota_dns_result
  connect_ok :: bool
  send_ok :: bool

definition ota_emit :: "ota_event list \<Rightarrow> 'w ota \<Rightarrow> 'w ota" where
  "ota_emit es s = s\<lparr>ota_out := ota_out s @ es\<rparr>"

definition ota_report :: "bytes \<Rightarrow> 'w ota \<Rightarrow> 'w ota" where
  "ota_report status s = (if ota_mqtt_client s then ota_emit [RpcOtaStatus status] s else s)"

definition sha_wanted :: "'w ota \<Rightarrow> bool" where
  "sha_wanted s \<longleftrightarrow> has_sha256_check_1 s \<or> has_sha256_check_2 s"

section \<open>Failures, timers and retries\<close>

definition ota_progress_timer_cb :: "'w ota \<Rightarrow> 'w ota" where
  "ota_progress_timer_cb s =
     (if \<not> ota_in_progress s \<or> ota_retry_pending s \<or> \<not> ota_firmware_size_known s \<or> ota_firmware_size s = 0 then s
      else
        let current_progress = (ucast ((ota_received_bytes s * 100) div ota_firmware_size s) :: u8)
        in if current_progress \<le> ota_last_reported_progress s then s
           else ota_report (sprint 32 ''flashing_%d%%'' [Arg32 (ucast current_progress)])
                  (s\<lparr>ota_last_reported_progress := current_progress\<rparr>))"

definition ota_cleanup_timers :: "'w ota \<Rightarrow> 'w ota" where
  "ota_cleanup_timers s = ota_emit [OtaDisarm TimeoutTimer, OtaDisarm RetryTimer, OtaDisarm ProgressTimer] s"

definition ota_fail_update :: "string \<Rightarrow> bool \<Rightarrow> 'w ota \<Rightarrow> 'w ota" where
  "ota_fail_update status abort_connection s =
     (let s = ota_cleanup_timers s;
          s = s\<lparr>ota_retry_pending := False, ota_continue_pending := False, ota_dns_pending := False,
                is_valid_binary := False, ota_in_progress := False\<rparr>;
          s = ota_report (ascii status) (ota_emit [WifiStartScan 5000] s)
      in if abort_connection then ota_emit [EspconnAbort] s else s)"

definition ota_incomplete_http_response :: "'w ota \<Rightarrow> bool" where
  "ota_incomplete_http_response s \<longleftrightarrow>
     headers_parsed s \<and> ota_response_length_known s \<and> ota_response_received_bytes s < ota_response_length s"

datatype ota_retry_reason_t = FAILURE_OTHER | FAILURE_DNS | FAILURE_TCP | FAILURE_INCOMPLETE_HTTP_RESPONSE

definition failure_seen :: "ota_retry_reason_t \<Rightarrow> 'w ota \<Rightarrow> 'w ota" where
  "failure_seen reason s =
     (case reason of
        FAILURE_DNS \<Rightarrow> s\<lparr>ota_dns_failure_seen := True\<rparr>
      | FAILURE_TCP \<Rightarrow> s\<lparr>ota_tcp_failure_seen := True\<rparr>
      | FAILURE_INCOMPLETE_HTTP_RESPONSE \<Rightarrow> s\<lparr>ota_incomplete_http_response_seen := True\<rparr>
      | FAILURE_OTHER \<Rightarrow> s\<lparr>ota_other_failure_seen := True\<rparr>)"

definition failure_reports :: "'w ota \<Rightarrow> bytes list" where
  "failure_reports s =
     (let rs = (if ota_dns_failure_seen s then [ascii ''error_dns_resolution''] else []) @
               (if ota_tcp_failure_seen s then [ascii ''error_tcp_connection''] else []) @
               (if ota_incomplete_http_response_seen s then [ascii ''error_incomplete_http_response''] else []) @
               (if ota_other_failure_seen s then [ascii ''error_incomplete_firmware''] else [])
      in if rs = [] then [ascii ''error_retry_exhausted''] else rs)"

definition ota_trigger_reconnect :: "ota_retry_reason_t \<Rightarrow> 'w ota \<Rightarrow> 'w ota" where
  "ota_trigger_reconnect reason s =
     (if \<not> ota_in_progress s \<or> ota_retry_pending s then s
      else
        let s = ota_emit [OtaDisarm TimeoutTimer] s;
            s = failure_seen reason (s\<lparr>ota_dns_pending := False, ota_continue_pending := False\<rparr>)
        in if ota_retry_count s < 5 then
             let s = s\<lparr>ota_retry_count := ota_retry_count s + 1, ota_retry_pending := True,
                       ota_received_bytes := ota_received_bytes s AND NOT 4095\<rparr>;
                 s = (if reason = FAILURE_INCOMPLETE_HTTP_RESPONSE
                      then ota_report (sprint 64 ''retrying_chunk_%d_offset_%u''
                                         [Arg32 (ucast (ota_retry_count s)), Arg32 (ota_received_bytes s)]) s
                      else s)
             in ota_emit [OtaDisarm RetryTimer, OtaArm RetryTimer 2000] s
           else
             let s = ota_cleanup_timers s;
                 s = s\<lparr>ota_retry_pending := False, ota_continue_pending := False, is_valid_binary := False,
                       ota_dns_pending := False\<rparr>;
                 s = fold ota_report (failure_reports s) s
             in s\<lparr>ota_in_progress := False\<rparr>)"

definition ota_timeout_timer_cb :: "'w ota \<Rightarrow> 'w ota" where
  "ota_timeout_timer_cb s =
     (if \<not> ota_in_progress s \<or> ota_retry_pending s then s
      else
        let was_waiting_for_dns = ota_dns_pending s;
            incomplete_http_response = (\<not> was_waiting_for_dns \<and> ota_incomplete_http_response s);
            s = ota_emit [OtaDisarm TimeoutTimer] (s\<lparr>ota_dns_pending := False\<rparr>);
            s = (if incomplete_http_response
                 then ota_trigger_reconnect FAILURE_INCOMPLETE_HTTP_RESPONSE (s\<lparr>ota_tcp_failure_seen := True\<rparr>)
                 else if was_waiting_for_dns then ota_trigger_reconnect FAILURE_DNS s
                 else ota_trigger_reconnect FAILURE_TCP s)
        in if \<not> was_waiting_for_dns then ota_emit [EspconnAbort] s else s)"

text \<open>Flash addresses are far below \<open>2 ^ 32\<close>: the loop counts in natural numbers from the two words.\<close>

function rehash_loop :: "'w ota_env \<Rightarrow> (nat \<Rightarrow> u8) \<Rightarrow> nat \<Rightarrow> nat \<Rightarrow> sha256_ctx \<Rightarrow> bool \<times> sha256_ctx" where
  "rehash_loop env flash addr end_addr c =
     (if addr < end_addr then
        let chunk_len = (if addr + 256 > end_addr then end_addr - addr else 256)
        in case spi_read env addr chunk_len flash of
             None \<Rightarrow> (False, c)
           | Some buffer \<Rightarrow> rehash_loop env flash (addr + chunk_len) end_addr (sha256_update c buffer)
      else (True, c))"
  by pat_completeness auto
termination
  by (relation "measure (\<lambda>(env, flash, addr, end_addr, c). end_addr - addr)") auto

declare rehash_loop.simps [simp del]

definition ota_rehash_flash :: "'w ota_env \<Rightarrow> 'w ota \<Rightarrow> bool \<times> 'w ota" where
  "ota_rehash_flash env s =
     (if \<not> sha_wanted s then (True, s)
      else
        case rehash_loop env (spi_flash s) (unat (ota_target_base_addr s))
               (unat (ota_target_base_addr s + ota_received_bytes s)) (sha256_init (ota_sha_ctx s)) of
          (ok, c) \<Rightarrow> (ok, s\<lparr>ota_sha_ctx := c\<rparr>))"

section \<open>Connecting\<close>

text \<open>The resolved address starts the connection; \<open>None\<close> is the NULL of a failed lookup.\<close>

definition ota_dns_found_cb :: "'w ota_env \<Rightarrow> u32 option \<Rightarrow> 'w ota \<Rightarrow> 'w ota" where
  "ota_dns_found_cb env ipaddr s =
     (if \<not> ota_in_progress s \<or> ota_retry_pending s then s
      else
        let s = s\<lparr>ota_dns_pending := False\<rparr>
        in case ipaddr of
             None \<Rightarrow> ota_trigger_reconnect FAILURE_DNS (ota_emit [OtaDisarm TimeoutTimer] s)
           | Some ip \<Rightarrow>
               let s = s\<lparr>ota_remote_ip := ip, ota_remote_port := ota_port s\<rparr>;
                   s = ota_emit [EspconnConnect ip (ota_remote_port s)] s
               in if \<not> connect_ok env
                  then ota_trigger_reconnect FAILURE_TCP (ota_emit [OtaDisarm TimeoutTimer] s)
                  else s)"

text \<open>A fresh connection, its timeout and the lookup; the same lines end \<open>start_ota_update\<close>.\<close>

definition ota_lookup :: "'w ota_env \<Rightarrow> 'w ota \<Rightarrow> 'w ota" where
  "ota_lookup env s =
     (let s = s\<lparr>ota_remote_ip := 0, ota_remote_port := 0\<rparr>;
          s = ota_emit [OtaDisarm TimeoutTimer, OtaArm TimeoutTimer 15000] s;
          s = ota_emit [DnsGetHostByName (ota_host s)] (s\<lparr>ota_dns_pending := True\<rparr>)
      in case dns_answer env of
           OtaDnsOk ip \<Rightarrow> ota_dns_found_cb env (Some ip) s
         | OtaDnsInProgress \<Rightarrow> s
         | OtaDnsError \<Rightarrow>
             ota_trigger_reconnect FAILURE_DNS (ota_emit [OtaDisarm TimeoutTimer] (s\<lparr>ota_dns_pending := False\<rparr>)))"

definition clear_response :: "'w ota \<Rightarrow> 'w ota" where
  "clear_response s = s\<lparr>ota_response_length := 0, ota_response_received_bytes := 0, ota_response_length_known := False,
     ota_response_status_code := 0, ota_response_range_end := 0, ota_response_range_total := 0,
     ota_response_range_valid := False\<rparr>"

definition ota_retry_timer_cb :: "'w ota_env \<Rightarrow> 'w ota \<Rightarrow> 'w ota" where
  "ota_retry_timer_cb env s =
     (if \<not> ota_in_progress s then s
      else
        let continuing_range = ota_continue_pending s;
            s = s\<lparr>ota_continue_pending := False, ota_retry_pending := False, headers_parsed := False\<rparr>;
            s = (if \<not> continuing_range then s\<lparr>is_valid_binary := False\<rparr> else s);
            s = clear_response (s\<lparr>ota_header_buffer := []\<rparr>)
        in ota_lookup env s)"

definition ota_schedule_range_continue :: "'w ota \<Rightarrow> 'w ota" where
  "ota_schedule_range_continue s =
     (if \<not> ota_in_progress s \<or> ota_retry_pending s then s
      else
        let s = s\<lparr>ota_dns_pending := False, ota_continue_pending := True, ota_retry_pending := True\<rparr>
        in ota_emit [OtaDisarm TimeoutTimer, OtaDisarm RetryTimer, OtaArm RetryTimer 2000] s)"

abbreviation nl :: string where "nl \<equiv> [CHR 0x0D, CHR 0x0A]"

definition ota_request :: "'w ota \<Rightarrow> bytes" where
  "ota_request s =
     (if ota_request_offset s > 0
      then sprint 512 (''GET %s HTTP/1.1'' @ nl @ ''Host: %s'' @ nl @ ''Range: bytes=%u-'' @ nl @ ''Connection: close'' @ nl @
                       ''User-Agent: ESP8266-OTA'' @ nl @ nl)
             [ArgStr (ota_path s), ArgStr (ota_host_header s), Arg32 (ota_request_offset s)]
      else sprint 512 (''GET %s HTTP/1.0'' @ nl @ ''Host: %s'' @ nl @ ''Connection: close'' @ nl @
                       ''User-Agent: ESP8266-OTA'' @ nl @ nl)
             [ArgStr (ota_path s), ArgStr (ota_host_header s)])"

definition ota_tcp_connect_cb :: "'w ota_env \<Rightarrow> 'w ota \<Rightarrow> 'w ota" where
  "ota_tcp_connect_cb env s =
     (if \<not> ota_in_progress s \<or> ota_retry_pending s then s
      else
        let s = clear_response (s\<lparr>ota_dns_pending := False, ota_request_offset := ota_received_bytes s\<rparr>);
            s = ota_emit [EspconnSend (ota_request s)] s
        in if \<not> send_ok env
           then ota_emit [EspconnAbort] (ota_trigger_reconnect FAILURE_TCP (ota_emit [OtaDisarm TimeoutTimer] s))
           else s)"

section \<open>The answer of the server\<close>

text \<open>Each check gives the status of its failure, or \<open>None\<close>, with the state it leaves.\<close>

definition append_header :: "bytes \<Rightarrow> 'w ota \<Rightarrow> 'w ota" where
  "append_header pusrdata s =
     (let n = length (ota_header_buffer s);
          copy_len = (if n + length pusrdata > 1023 then 1023 - n else length pusrdata)
      in s\<lparr>ota_header_buffer := ota_header_buffer s @ take copy_len pusrdata\<rparr>)"

definition accept_full :: "u32 \<Rightarrow> 'w ota \<Rightarrow> string option \<times> 'w ota" where
  "accept_full content_length s =
     (if content_length < 102400 \<or> content_length > 0x69000 then (Some ''error_invalid_firmware_size'', s)
      else
        (None, s\<lparr>ota_received_bytes := 0, ota_request_offset := 0, ota_response_received_bytes := 0, is_valid_binary := False,
                ota_firmware_size := content_length, ota_firmware_size_known := True,
                ota_sha_ctx := (if sha_wanted s then sha256_init (ota_sha_ctx s) else ota_sha_ctx s)\<rparr>))"

definition accept_range :: "bytes \<Rightarrow> u32 \<Rightarrow> 'w ota \<Rightarrow> string option \<times> 'w ota" where
  "accept_range hdr content_length s =
     (let (cr, cr_duplicate) = ota_get_header_value hdr (ascii ''Content-Range'')
      in case (if cr_duplicate then None else case cr of None \<Rightarrow> None | Some v \<Rightarrow> ota_parse_content_range v) of
           None \<Rightarrow> (Some ''error_invalid_content_range'', s)
         | Some (range_start, range_end, range_total) \<Rightarrow>
             if range_start \<noteq> ota_request_offset s \<or> range_end < range_start \<or> range_total = 0 \<or> range_end \<ge> range_total
             then (Some ''error_invalid_content_range'', s)
             else if range_total < 102400 \<or> range_total > 0x69000 then (Some ''error_invalid_firmware_size'', s)
             else if content_length \<noteq> range_end - range_start + 1 then (Some ''error_invalid_content_range'', s)
             else if ota_firmware_size_known s \<and> ota_firmware_size s \<noteq> range_total
             then (Some ''error_invalid_content_range'', s)
             else (None, s\<lparr>ota_firmware_size := range_total, ota_firmware_size_known := True,
                          ota_response_range_end := range_end, ota_response_range_total := range_total,
                          ota_response_range_valid := True\<rparr>))"

definition accept_header :: "bytes \<Rightarrow> 'w ota \<Rightarrow> string option \<times> 'w ota" where
  "accept_header hdr s =
     (case ota_parse_status_code hdr of
        None \<Rightarrow> (Some ''error_invalid_http_header'', s)
      | Some status_code \<Rightarrow>
          if status_code \<noteq> 200 \<and> status_code \<noteq> 206 then (Some ''error_http_not_200'', s)
          else
            let (cl, cl_duplicate) = ota_get_header_value hdr (ascii ''Content-Length'')
            in (case (if cl_duplicate then None else case cl of None \<Rightarrow> None | Some v \<Rightarrow> ota_parse_uint32 v) of
                 None \<Rightarrow> (Some ''error_invalid_content_length'', s)
               | Some content_length \<Rightarrow>
                   if content_length = 0 then (Some ''error_invalid_content_length'', s)
                   else
                     let s = s\<lparr>ota_response_status_code := status_code, ota_response_range_end := 0,
                               ota_response_range_total := 0, ota_response_range_valid := False\<rparr>
                     in (case (if status_code = 200 then accept_full content_length s
                               else accept_range hdr content_length s) of
                           (Some e, s) \<Rightarrow> (Some e, s)
                         | (None, s) \<Rightarrow>
                             (None, s\<lparr>ota_response_length := content_length, ota_response_received_bytes := 0,
                                     ota_response_length_known := True, headers_parsed := True\<rparr>))))"

section \<open>The body\<close>

definition open_writer :: "'w ota_env \<Rightarrow> u8 \<Rightarrow> 'w ota \<Rightarrow> string option \<times> 'w ota" where
  "open_writer env magic_byte s =
     (if ota_received_bytes s = 0 \<and> magic_byte \<noteq> 0xE9 \<and> magic_byte \<noteq> 0xEA then (Some ''error_invalid_magic'', s)
      else
        let s = s\<lparr>is_valid_binary := True, ota_target_base_addr := rboot_rom_addr env (ota_target_rom s)\<rparr>;
            current_flash_addr = ota_target_base_addr s + ota_received_bytes s;
            (erased, flash) = spi_erase_sector env (unat (current_flash_addr div 4096)) (spi_flash s);
            s = s\<lparr>spi_flash := flash\<rparr>
        in if \<not> erased then (Some ''error_flash_erase'', s)
           else
             let (hashed, s) = ota_rehash_flash env (s\<lparr>ota_status := rboot_write_init env (unat current_flash_addr)\<rparr>)
             in if \<not> hashed then (Some ''error_flash_read'', s) else (None, s))"

definition write_body :: "'w ota_env \<Rightarrow> bytes \<Rightarrow> 'w ota \<Rightarrow> string option \<times> 'w ota" where
  "write_body env pdata s =
     (let s = (if sha_wanted s then s\<lparr>ota_sha_ctx := sha256_update (ota_sha_ctx s) pdata\<rparr> else s);
          (written, w, flash) = rboot_write_flash env (ota_status s) pdata (spi_flash s);
          s = s\<lparr>ota_status := w, spi_flash := flash\<rparr>
      in if \<not> written then (Some ''error_flash_write'', s)
         else (None, s\<lparr>ota_received_bytes := ota_received_bytes s + of_nat (length pdata),
                      ota_response_received_bytes := ota_response_received_bytes s + of_nat (length pdata)\<rparr>))"

definition fits_response :: "u32 \<Rightarrow> 'w ota \<Rightarrow> bool" where
  "fits_response len s \<longleftrightarrow> \<not> (\<not> ota_response_length_known s \<or> ota_response_received_bytes s > ota_response_length s \<or>
     len > ota_response_length s - ota_response_received_bytes s)"

definition fits_firmware :: "u32 \<Rightarrow> 'w ota \<Rightarrow> bool" where
  "fits_firmware len s \<longleftrightarrow> \<not> (\<not> ota_firmware_size_known s \<or> ota_received_bytes s > ota_firmware_size s \<or>
     len > ota_firmware_size s - ota_received_bytes s \<or> ota_received_bytes s + len > 0x69000)"

definition ota_body :: "'w ota_env \<Rightarrow> bytes \<Rightarrow> 'w ota \<Rightarrow> string option \<times> 'w ota" where
  "ota_body env pdata s =
     (let len = of_nat (length pdata)
      in if \<not> headers_parsed s \<or> len = 0 then (None, s)
         else if \<not> fits_response len s then (Some ''error_response_too_large'', s)
         else if \<not> fits_firmware len s then (Some ''error_file_too_large'', s)
         else if is_valid_binary s then write_body env pdata s
         else
           (case open_writer env (char_at pdata 0) s of
              (Some e, s) \<Rightarrow> (Some e, s)
            | (None, s) \<Rightarrow> write_body env pdata s))"

definition ota_receive :: "'w ota_env \<Rightarrow> bytes \<Rightarrow> 'w ota \<Rightarrow> string option \<times> 'w ota" where
  "ota_receive env pusrdata s =
     (if headers_parsed s then ota_body env pusrdata s
      else
        let previous_header_len = length (ota_header_buffer s);
            s = append_header pusrdata s;
            hdr = takeWhile (\<lambda>b. b \<noteq> 0) (ota_header_buffer s)
        in (case strstr_loop (crlf @ crlf) hdr 0 of
              None \<Rightarrow> if 1023 \<le> length (ota_header_buffer s) then (Some ''error_header_overflow'', s) else (None, s)
            | Some body_marker \<Rightarrow>
                (case accept_header hdr s of
                   (Some e, s) \<Rightarrow> (Some e, s)
                 | (None, s) \<Rightarrow>
                     let total_header_size = body_marker + 4
                     in if total_header_size < previous_header_len then (Some ''error_invalid_http_header'', s)
                        else
                          let body_offset = total_header_size - previous_header_len
                          in if body_offset > length pusrdata then (Some ''error_invalid_http_header'', s)
                             else ota_body env (drop body_offset pusrdata) s)))"

definition ota_tcp_recv_cb :: "'w ota_env \<Rightarrow> bytes \<Rightarrow> 'w ota \<Rightarrow> 'w ota" where
  "ota_tcp_recv_cb env pusrdata s =
     (if \<not> ota_in_progress s \<or> ota_retry_pending s then s
      else
        case ota_receive env pusrdata (ota_emit [OtaDisarm TimeoutTimer, OtaArm TimeoutTimer 15000] s) of
          (Some e, s) \<Rightarrow> ota_fail_update e True s
        | (None, s) \<Rightarrow> s)"

definition ota_tcp_recon_cb :: "'w ota \<Rightarrow> 'w ota" where
  "ota_tcp_recon_cb s =
     (if \<not> ota_in_progress s \<or> ota_retry_pending s then s
      else
        let s = ota_emit [OtaDisarm TimeoutTimer] (s\<lparr>ota_tcp_failure_seen := True\<rparr>)
        in if ota_incomplete_http_response s then ota_trigger_reconnect FAILURE_INCOMPLETE_HTTP_RESPONSE s
           else ota_trigger_reconnect FAILURE_TCP s)"

section \<open>The end of the transfer\<close>

definition ota_complete :: "'w ota \<Rightarrow> bool" where
  "ota_complete s \<longleftrightarrow> is_valid_binary s \<and> ota_response_length_known s \<and>
     ota_response_received_bytes s = ota_response_length s \<and> ota_firmware_size_known s \<and>
     ota_received_bytes s = ota_firmware_size s"

definition digest_matches :: "'w ota \<Rightarrow> bytes \<Rightarrow> bool" where
  "digest_matches s calculated \<longleftrightarrow>
     (if ota_target_rom s = 0 \<and> has_sha256_check_1 s then calculated = expected_sha256_1 s
      else ota_target_rom s = 1 \<and> has_sha256_check_2 s \<and> calculated = expected_sha256_2 s)"

definition ota_stage :: "'w ota_env \<Rightarrow> 'w ota \<Rightarrow> 'w ota" where
  "ota_stage env s =
     (let s = ota_emit [SetTempRom (ota_target_rom s)] s
      in if \<not> rboot_set_temp_rom env (ota_target_rom s) then ota_fail_update ''error_boot_stage'' False s
         else
           let s = (if ota_last_reported_progress s < 100
                    then ota_report (ascii ''flashing_100%'') (s\<lparr>ota_last_reported_progress := 100\<rparr>) else s);
               s = ota_report (sprint 32 ''success&target_rom=%d'' [Arg32 (ucast (ota_target_rom s) + 1)]) s;
               s = ota_report (sprint 32 ''restarting_in_%ds'' [Arg32 3]) s
           in ota_emit [OtaRestartDefered] (s\<lparr>ota_in_progress := False\<rparr>))"

definition ota_finish :: "'w ota_env \<Rightarrow> 'w ota \<Rightarrow> 'w ota" where
  "ota_finish env s =
     (let s = ota_cleanup_timers s;
          (ended, w, flash) = rboot_write_end env (ota_status s) (spi_flash s);
          s = s\<lparr>ota_status := w, spi_flash := flash\<rparr>
      in if \<not> ended then ota_fail_update ''error_flash_write'' False s
         else if ota_received_bytes s < 102400 then ota_fail_update ''error_too_small'' False s
         else if ota_received_bytes s \<noteq> ota_firmware_size s then ota_fail_update ''error_truncated'' False s
         else if sha_wanted s then
           (case sha256_final (ota_sha_ctx s) of
              (c, calculated) \<Rightarrow>
                let s = s\<lparr>ota_sha_ctx := c\<rparr>
                in if \<not> digest_matches s calculated then ota_fail_update ''error_checksum_mismatch'' False s
                   else ota_stage env s)
         else ota_stage env s)"

definition ota_tcp_discon_cb :: "'w ota_env \<Rightarrow> 'w ota \<Rightarrow> 'w ota" where
  "ota_tcp_discon_cb env s =
     (if \<not> ota_in_progress s \<or> ota_retry_pending s then s
      else
        let s = ota_emit [OtaDisarm TimeoutTimer] s
        in if ota_complete s then ota_finish env s
           else if ota_incomplete_http_response s then ota_trigger_reconnect FAILURE_INCOMPLETE_HTTP_RESPONSE s
           else if \<not> headers_parsed s \<or> \<not> ota_response_length_known s
           then ota_trigger_reconnect FAILURE_TCP (s\<lparr>ota_tcp_failure_seen := True\<rparr>)
           else if ota_response_received_bytes s = ota_response_length s \<and> ota_response_status_code s = 206 \<and>
                   ota_response_range_valid s \<and> ota_response_range_end s + 1 < ota_response_range_total s \<and>
                   ota_received_bytes s = ota_response_range_end s + 1 \<and> ota_received_bytes s < ota_firmware_size s
           then ota_schedule_range_continue s
           else ota_trigger_reconnect FAILURE_OTHER s)"

section \<open>Starting an update\<close>

text \<open>The part of a URL behind the scheme. The host is stored before its port is checked.\<close>

fun parse_port :: "bytes \<Rightarrow> u32 \<Rightarrow> u32 option" where
  "parse_port [] v = Some v"
| "parse_port (c # cs) v =
     (if \<not> is_num c then None
      else
        let v = v * 10 + ucast (c - 0x30)
        in if v > 65535 then None else parse_port cs v)"

definition parse_authority :: "bytes \<Rightarrow> 'w ota \<Rightarrow> bool \<times> 'w ota" where
  "parse_authority authority s =
     (case strchr 0x3A authority of
        Some colon \<Rightarrow>
          let digits = drop (colon + 1) authority
          in if 0x3A \<in> set digits then (False, s)
             else if colon = 0 \<or> colon \<ge> 64 \<or> length digits = 0 \<or> length digits > 5 then (False, s)
             else
               let s = s\<lparr>ota_host := take colon authority\<rparr>
               in (case parse_port digits 0 of
                     None \<Rightarrow> (False, s)
                   | Some parsed_port \<Rightarrow>
                       if parsed_port = 0 then (False, s)
                       else (True, s\<lparr>ota_port := uint parsed_port,
                                    ota_host_header := sprint 72 ''%s:%d'' [ArgStr (ota_host s), Arg32 parsed_port]\<rparr>))
      | None \<Rightarrow>
          if length authority = 0 \<or> length authority \<ge> 64 then (False, s)
          else (True, s\<lparr>ota_host := authority, ota_port := 80, ota_host_header := sprint 72 ''%s'' [ArgStr authority]\<rparr>))"

definition url_path :: "bytes \<Rightarrow> bytes option" where
  "url_path p =
     (let slash = strchr 0x2F p; question = strchr 0x3F p;
          limit = (case strchr 0x23 p of Some fragment \<Rightarrow> fragment | None \<Rightarrow> length p);
          before = (\<lambda>a b. case (a, b) of (Some i, Some j) \<Rightarrow> i < j | (Some i, None) \<Rightarrow> True | (None, _) \<Rightarrow> False)
      in if before slash (Some limit) \<and> before slash question then
           (let path = takeWhile (\<lambda>c. c \<noteq> 0x23) (drop (the slash) p) in if length path \<ge> 128 then None else Some path)
         else if before question (Some limit) then
           (let path = takeWhile (\<lambda>c. c \<noteq> 0x23) (drop (the question) p)
            in if length path + 1 \<ge> 128 then None else Some (0x2F # path))
         else Some [0x2F])"

definition url_authority :: "bytes \<Rightarrow> bytes" where
  "url_authority p = takeWhile (\<lambda>c. c \<noteq> 0x2F \<and> c \<noteq> 0x3F \<and> c \<noteq> 0x23) p"

text \<open>The scheme: \<open>None\<close> when it is not plain HTTP.\<close>

definition url_scheme :: "bytes \<Rightarrow> bytes option" where
  "url_scheme p =
     (if take 7 p = ascii ''http://'' then Some (drop 7 p)
      else if take 8 p = ascii ''https://'' then None
      else if strstr_loop (ascii ''://'') p 0 \<noteq> None then None
      else Some p)"

definition parse_url :: "bytes \<Rightarrow> 'w ota \<Rightarrow> bool \<times> 'w ota" where
  "parse_url url s =
     (if length url \<ge> 256 then (False, s)
      else
        case url_scheme url of
          None \<Rightarrow> (False, s)
        | Some p \<Rightarrow>
            (case parse_authority (url_authority p) s of
               (False, s) \<Rightarrow> (False, s)
             | (True, s) \<Rightarrow> (case url_path p of None \<Rightarrow> (False, s) | Some path \<Rightarrow> (True, s\<lparr>ota_path := path\<rparr>))))"

definition ota_reset :: "bool \<Rightarrow> 'w ota \<Rightarrow> 'w ota" where
  "ota_reset client s =
     (let s = ota_emit [WifiStopScan] s;
          s = s\<lparr>ota_mqtt_client := client, ota_retry_count := 0, ota_retry_pending := False, ota_continue_pending := False,
                ota_dns_pending := False, ota_incomplete_http_response_seen := False, ota_dns_failure_seen := False,
                ota_tcp_failure_seen := False, ota_other_failure_seen := False, ota_last_reported_progress := 0,
                ota_firmware_size := 0, ota_firmware_size_known := False\<rparr>;
          s = clear_response s;
          s = s\<lparr>ota_request_offset := 0, ota_received_bytes := 0, headers_parsed := False, is_valid_binary := False,
                ota_header_buffer := []\<rparr>
      in (ota_cleanup_timers s)\<lparr>ota_in_progress := True\<rparr>)"

definition parse_digests :: "bytes option \<Rightarrow> bytes option \<Rightarrow> 'w ota \<Rightarrow> bool \<times> 'w ota" where
  "parse_digests hex1 hex2 s =
     (case ota_parse_sha256 hex1 (expected_sha256_1 s) of
        (ok1, digest1, on1) \<Rightarrow>
          let s = s\<lparr>expected_sha256_1 := digest1, has_sha256_check_1 := on1\<rparr>
          in if \<not> ok1 then (False, s)
             else
               (case ota_parse_sha256 hex2 (expected_sha256_2 s) of
                  (ok2, digest2, on2) \<Rightarrow> (ok2, s\<lparr>expected_sha256_2 := digest2, has_sha256_check_2 := on2\<rparr>)))"

definition choose_target :: "'w ota_env \<Rightarrow> u8" where
  "choose_target env =
     (let current_rom = (case rboot_last_boot_rom env of Some r \<Rightarrow> r | None \<Rightarrow> rboot_current_rom env)
      in if current_rom = 0 then 1 else 0)"

text \<open>The result: started or not, what is written to \<open>out_target_rom\<close>, and the state.\<close>

definition start_ota_update ::
  "'w ota_env \<Rightarrow> bool \<Rightarrow> bytes option \<Rightarrow> bytes option \<Rightarrow> bytes option \<Rightarrow> 'w ota \<Rightarrow> bool \<times> u8 option \<times> 'w ota" where
  "start_ota_update env client url hex_sha256_1 hex_sha256_2 s =
     (let s = ota_emit [OtaArm ProgressTimer 10000] (ota_reset client s)
      in case parse_digests hex_sha256_1 hex_sha256_2 s of
           (False, s) \<Rightarrow> (False, None, ota_fail_update ''error_invalid_sha256'' False s)
         | (True, s) \<Rightarrow>
             let s = (if sha_wanted s then s\<lparr>ota_sha_ctx := sha256_init (ota_sha_ctx s)\<rparr> else s);
                 s = s\<lparr>ota_target_rom := choose_target env\<rparr>;
                 target = Some (ota_target_rom s)
             in (case (case url of None \<Rightarrow> (False, s) | Some url \<Rightarrow> parse_url url s) of
                   (False, s) \<Rightarrow> (False, target, ota_fail_update ''error_invalid_url'' False s)
                 | (True, s) \<Rightarrow> (True, target, ota_lookup env s)))"

end
