(* ===== verification/OtaInv.thy ===== *)
theory OtaInv
  imports Ota
begin

text \<open>
  The inputs of \<open>ota.c\<close> as a step function, what rBoot and the flash driver promise, and the invariant
  that ties the writer, the hash and the flash together, with its preservation by every handler.
\<close>

section \<open>What rBoot and the flash driver promise\<close>

definition flash_range :: "(nat \<Rightarrow> u8) \<Rightarrow> nat \<Rightarrow> nat \<Rightarrow> bytes" where
  "flash_range flash a n = map flash [a..<a + n]"

definition same_outside :: "nat \<Rightarrow> nat \<Rightarrow> (nat \<Rightarrow> u8) \<Rightarrow> (nat \<Rightarrow> u8) \<Rightarrow> bool" where
  "same_outside a b f g \<longleftrightarrow> (\<forall>x. x < a \<or> b \<le> x \<longrightarrow> g x = f x)"

definition sector_end :: "nat \<Rightarrow> nat" where
  "sector_end a = (a + 4095) div 4096 * 4096"

text \<open>
  \<open>W w start data flash\<close> is rBoot's bookkeeping: the writer \<open>w\<close> began at \<open>start\<close> and was given \<open>data\<close>.
  It may keep the last bytes back until \<open>rboot_write_end\<close>, and touches only the sectors that hold the data.
  A slot has its own sectors and ends before the address space does.
\<close>

type_synonym 'w writer = "'w \<Rightarrow> nat \<Rightarrow> bytes \<Rightarrow> (nat \<Rightarrow> u8) \<Rightarrow> bool"

definition slots_ok :: "(u8 \<Rightarrow> u32) \<Rightarrow> bool" where
  "slots_ok roms \<longleftrightarrow> (\<forall>r. 4096 dvd unat (roms r) \<and> unat (roms r) + 0x69000 < 2 ^ 32)"

definition driver_ok :: "'w ota_env \<Rightarrow> bool" where
  "driver_ok env \<longleftrightarrow>
     (\<forall>k f. same_outside (4096 * k) (4096 * k + 4096) f (snd (spi_erase_sector env k f))) \<and>
     (\<forall>a n f b. spi_read env a n f = Some b \<longrightarrow> b = flash_range f a n)"

definition begins_ok :: "'w writer \<Rightarrow> 'w ota_env \<Rightarrow> bool" where
  "begins_ok W env \<longleftrightarrow> (\<forall>start f. 4096 dvd start \<longrightarrow> W (rboot_write_init env start) start [] f)"

definition writes_ok :: "'w writer \<Rightarrow> 'w ota_env \<Rightarrow> bool" where
  "writes_ok W env \<longleftrightarrow> (\<forall>w start data d f ok v g. W w start data f \<longrightarrow> rboot_write_flash env w d f = (ok, v, g) \<longrightarrow>
     same_outside start (sector_end (start + length data + length d)) f g \<and> (ok \<longrightarrow> W v start (data @ d) g))"

definition ends_ok :: "'w writer \<Rightarrow> 'w ota_env \<Rightarrow> bool" where
  "ends_ok W env \<longleftrightarrow> (\<forall>w start data f ok v g. W w start data f \<longrightarrow> rboot_write_end env w f = (ok, v, g) \<longrightarrow>
     same_outside start (sector_end (start + length data)) f g \<and> (ok \<longrightarrow> flash_range g start (length data) = data))"

definition rboot_ok :: "'w writer \<Rightarrow> (u8 \<Rightarrow> u32) \<Rightarrow> 'w ota_env \<Rightarrow> bool" where
  "rboot_ok W roms env \<longleftrightarrow> rboot_rom_addr env = roms \<and> slots_ok roms \<and> driver_ok env \<and> begins_ok W env \<and>
     writes_ok W env \<and> ends_ok W env"

lemma rboot_slots:
  assumes "rboot_ok W roms env"
  shows "rboot_rom_addr env = roms" "4096 dvd unat (roms r)" "unat (roms r) + 0x69000 < 2 ^ 32"
  using assms by (simp_all add: rboot_ok_def slots_ok_def)

lemma rboot_driver:
  assumes "rboot_ok W roms env"
  shows "same_outside (4096 * k) (4096 * k + 4096) f (snd (spi_erase_sector env k f))"
    "spi_read env a n f = Some b \<Longrightarrow> b = flash_range f a n"
  using assms by (simp_all add: rboot_ok_def driver_ok_def)

lemma rboot_begins: "rboot_ok W roms env \<Longrightarrow> 4096 dvd start \<Longrightarrow> W (rboot_write_init env start) start [] f"
  by (simp add: rboot_ok_def begins_ok_def)

lemma rboot_writes:
  assumes "rboot_ok W roms env" and "W w start data f" and "rboot_write_flash env w d f = (ok, v, g)"
  shows "same_outside start (sector_end (start + length data + length d)) f g" "ok \<Longrightarrow> W v start (data @ d) g"
proof -
  have "writes_ok W env" using assms(1) by (simp add: rboot_ok_def)
  from this [unfolded writes_ok_def, rule_format, OF assms(2,3)]
  show "same_outside start (sector_end (start + length data + length d)) f g" "ok \<Longrightarrow> W v start (data @ d) g" by simp_all
qed

lemma rboot_ends:
  assumes "rboot_ok W roms env" and "W w start data f" and "rboot_write_end env w f = (ok, v, g)"
  shows "same_outside start (sector_end (start + length data)) f g" "ok \<Longrightarrow> flash_range g start (length data) = data"
proof -
  have "ends_ok W env" using assms(1) by (simp add: rboot_ok_def)
  from this [unfolded ends_ok_def, rule_format, OF assms(2,3)]
  show "same_outside start (sector_end (start + length data)) f g" "ok \<Longrightarrow> flash_range g start (length data) = data" by simp_all
qed

lemma same_outside_refl: "same_outside a b f f"
  by (simp add: same_outside_def)

lemma same_outside_trans: "same_outside a b f g \<Longrightarrow> same_outside a b g h \<Longrightarrow> same_outside a b f h"
  by (simp add: same_outside_def)

lemma same_outside_mono: "same_outside a b f g \<Longrightarrow> a' \<le> a \<Longrightarrow> b \<le> b' \<Longrightarrow> same_outside a' b' f g"
  by (auto simp: same_outside_def)

lemma flash_range_below: "same_outside a b f g \<Longrightarrow> c + n \<le> a \<Longrightarrow> flash_range g c n = flash_range f c n"
  by (auto simp: same_outside_def flash_range_def)

lemma length_flash_range [simp]: "length (flash_range f a n) = n"
  by (simp add: flash_range_def)

lemma flash_range_append: "flash_range f a m @ flash_range f (a + m) n = flash_range f a (m + n)"
  unfolding flash_range_def map_append [symmetric] upt_add_eq_append [symmetric, OF le_add1] by (simp add: add.assoc)

lemma sector_end_le: "4096 dvd b \<Longrightarrow> a \<le> b \<Longrightarrow> sector_end a \<le> b"
proof -
  assume "4096 dvd b" "a \<le> b"
  then obtain k where k: "b = 4096 * k" by (auto elim: dvdE)
  have "(a + 4095) div 4096 \<le> (4096 * k + 4095) div 4096"
    using \<open>a \<le> b\<close> k by (intro div_le_mono) simp
  then show ?thesis by (simp add: sector_end_def k)
qed

section \<open>The steps\<close>

datatype ota_input =
    StartOta bool "bytes option" "bytes option" "bytes option"
  | ProgressTimerFires
  | TimeoutTimerFires
  | RetryTimerFires
  | DnsFound "u32 option"
  | TcpConnected
  | TcpReceived bytes
  | TcpError
  | TcpDisconnected

fun ota_step :: "'w ota_env \<Rightarrow> ota_input \<Rightarrow> 'w ota \<Rightarrow> 'w ota" where
  "ota_step env (StartOta client url h1 h2) s = snd (snd (start_ota_update env client url h1 h2 s))"
| "ota_step env ProgressTimerFires s = ota_progress_timer_cb s"
| "ota_step env TimeoutTimerFires s = ota_timeout_timer_cb (ota_emit [OtaFired TimeoutTimer] s)"
| "ota_step env RetryTimerFires s = ota_retry_timer_cb env (ota_emit [OtaFired RetryTimer] s)"
| "ota_step env (DnsFound ip) s = ota_dns_found_cb env ip s"
| "ota_step env TcpConnected s = ota_tcp_connect_cb env s"
| "ota_step env (TcpReceived d) s = ota_tcp_recv_cb env d s"
| "ota_step env TcpError s = ota_tcp_recon_cb s"
| "ota_step env TcpDisconnected s = ota_tcp_discon_cb env s"

text \<open>The two timers that continue an update have one shot: they fire when they were armed last.\<close>

definition armed_by :: "ota_timer \<Rightarrow> bool \<Rightarrow> ota_event \<Rightarrow> bool" where
  "armed_by tm armed e =
     (case e of
        OtaArm t n \<Rightarrow> armed \<or> t = tm
      | OtaDisarm t \<Rightarrow> armed \<and> t \<noteq> tm
      | OtaFired t \<Rightarrow> armed \<and> t \<noteq> tm
      | _ \<Rightarrow> armed)"

lemma armed_by_simps [simp]:
  "armed_by tm a (OtaArm t n) \<longleftrightarrow> a \<or> t = tm" "armed_by tm a (OtaDisarm t) \<longleftrightarrow> a \<and> t \<noteq> tm"
  "armed_by tm a (OtaFired t) \<longleftrightarrow> a \<and> t \<noteq> tm" "armed_by tm a (RpcOtaStatus m) = a" "armed_by tm a EspconnAbort = a"
  "armed_by tm a (DnsGetHostByName h) = a" "armed_by tm a (EspconnConnect ip p) = a" "armed_by tm a (EspconnSend m) = a"
  "armed_by tm a (SetTempRom r) = a" "armed_by tm a OtaRestartDefered = a" "armed_by tm a WifiStopScan = a" "armed_by tm a (WifiStartScan n) = a"
  by (simp_all add: armed_by_def)

definition retry_armed :: "'w ota \<Rightarrow> bool" where
  "retry_armed s = foldl (armed_by RetryTimer) False (ota_out s)"

definition timeout_armed :: "'w ota \<Rightarrow> bool" where
  "timeout_armed s = foldl (armed_by TimeoutTimer) False (ota_out s)"

text \<open>A packet has less than \<open>2 ^ 16\<close> bytes: its length is an \<open>unsigned short\<close>.\<close>

definition input_ok :: "ota_input \<Rightarrow> 'w ota \<Rightarrow> bool" where
  "input_ok i s = (case i of TcpReceived d \<Rightarrow> length d < 2 ^ 16 | RetryTimerFires \<Rightarrow> retry_armed s
     | TimeoutTimerFires \<Rightarrow> timeout_armed s | _ \<Rightarrow> True)"

section \<open>The invariant\<close>

definition writer_holds :: "'w writer \<Rightarrow> (u8 \<Rightarrow> u32) \<Rightarrow> 'w ota \<Rightarrow> bool" where
  "writer_holds W roms s \<longleftrightarrow> ota_target_base_addr s = roms (ota_target_rom s) \<and>
     (\<exists>pre data. 4096 dvd pre \<and> unat (ota_received_bytes s) = pre + length data \<and>
        W (ota_status s) (unat (ota_target_base_addr s) + pre) data (spi_flash s) \<and>
        (sha_wanted s \<longrightarrow>
           sha_holds (ota_sha_ctx s) (flash_range (spi_flash s) (unat (ota_target_base_addr s)) pre @ data)))"

definition ota_inv :: "'w writer \<Rightarrow> (u8 \<Rightarrow> u32) \<Rightarrow> 'w ota \<Rightarrow> bool" where
  "ota_inv W roms s \<longleftrightarrow> (retry_armed s \<longrightarrow> ota_retry_pending s) \<and> (ota_in_progress s \<longrightarrow>
     unat (ota_received_bytes s) \<le> 0x69000 \<and> (ota_continue_pending s \<longrightarrow> ota_retry_pending s) \<and>
     (ota_firmware_size_known s \<longrightarrow> ota_firmware_size s \<le> 0x69000) \<and>
     (if is_valid_binary s \<and> (ota_retry_pending s \<longrightarrow> ota_continue_pending s) then writer_holds W roms s
      else 4096 dvd unat (ota_received_bytes s)))"

lemma ota_emit_fields [simp]:
  "spi_flash (ota_emit es s) = spi_flash s" "ota_in_progress (ota_emit es s) = ota_in_progress s"
  "ota_status (ota_emit es s) = ota_status s" "ota_target_rom (ota_emit es s) = ota_target_rom s"
  "ota_target_base_addr (ota_emit es s) = ota_target_base_addr s" "is_valid_binary (ota_emit es s) = is_valid_binary s"
  "ota_firmware_size (ota_emit es s) = ota_firmware_size s" "ota_firmware_size_known (ota_emit es s) = ota_firmware_size_known s"
  "ota_received_bytes (ota_emit es s) = ota_received_bytes s" "ota_retry_pending (ota_emit es s) = ota_retry_pending s"
  "ota_continue_pending (ota_emit es s) = ota_continue_pending s" "ota_sha_ctx (ota_emit es s) = ota_sha_ctx s"
  "has_sha256_check_1 (ota_emit es s) = has_sha256_check_1 s" "has_sha256_check_2 (ota_emit es s) = has_sha256_check_2 s"
  "expected_sha256_1 (ota_emit es s) = expected_sha256_1 s" "expected_sha256_2 (ota_emit es s) = expected_sha256_2 s"
  "ota_out (ota_emit es s) = ota_out s @ es" "sha_wanted (ota_emit es s) = sha_wanted s" "ota_retry_count (ota_emit es s) = ota_retry_count s"
  "headers_parsed (ota_emit es s) = headers_parsed s" "ota_header_buffer (ota_emit es s) = ota_header_buffer s"
  by (simp_all add: ota_emit_def sha_wanted_def)

text \<open>Two states that differ in the output and in what the invariant does not look at.\<close>

definition same_core :: "'w ota \<Rightarrow> 'w ota \<Rightarrow> bool" where
  "same_core s t \<longleftrightarrow> spi_flash t = spi_flash s \<and> ota_in_progress t = ota_in_progress s \<and> ota_status t = ota_status s \<and>
     ota_target_rom t = ota_target_rom s \<and> ota_target_base_addr t = ota_target_base_addr s \<and>
     is_valid_binary t = is_valid_binary s \<and> ota_firmware_size t = ota_firmware_size s \<and>
     ota_firmware_size_known t = ota_firmware_size_known s \<and> ota_received_bytes t = ota_received_bytes s \<and>
     ota_retry_pending t = ota_retry_pending s \<and> ota_continue_pending t = ota_continue_pending s \<and>
     ota_sha_ctx t = ota_sha_ctx s \<and> sha_wanted t = sha_wanted s \<and> retry_armed t = retry_armed s"

lemma same_core_inv: "same_core s t \<Longrightarrow> ota_inv W roms t = ota_inv W roms s"
  unfolding same_core_def ota_inv_def writer_holds_def by (elim conjE) (simp only:)

lemma same_core_refl: "same_core s s"
  by (simp add: same_core_def)

lemma same_core_trans: "same_core s t \<Longrightarrow> same_core t u \<Longrightarrow> same_core s u"
  by (simp add: same_core_def)

lemma same_core_emit: "(\<And>a. foldl (armed_by RetryTimer) a es = a) \<Longrightarrow> same_core s (ota_emit es s)"
  by (simp add: same_core_def retry_armed_def)

lemma same_core_report: "same_core s (ota_report m s)"
  by (simp add: ota_report_def same_core_emit same_core_refl armed_by_def)

lemma same_core_reports: "same_core s (fold ota_report ms s)"
  by (induction ms arbitrary: s) (auto intro: same_core_refl same_core_trans [OF same_core_report])

lemma sector_start: "unat (x AND NOT 4095 :: u32) = unat x div 4096 * 4096"
proof -
  have "x AND NOT (mask 12) = push_bit 12 (drop_bit 12 x)"
    by (rule bit_eqI) (auto simp: bit_simps)
  moreover have "(4095 :: u32) = mask 12" by (simp add: mask_eq_exp_minus_1)
  moreover have "unat (push_bit 12 (drop_bit 12 x)) = unat x div 4096 * 4096"
  proof -
    have "unat x div 4096 * 4096 \<le> unat x" by (rule div_times_less_eq_dividend)
    also have "\<dots> < 2 ^ 32" using unsigned_less [of x] by simp
    finally show ?thesis by (simp add: push_bit_eq_mult drop_bit_eq_div unat_word_ariths unat_div)
  qed
  ultimately show ?thesis by simp
qed

lemmas sector_start_simp = sector_start [simplified]

text \<open>Steps that touch neither flash nor slot and stage nothing.\<close>

definition is_stage :: "ota_event \<Rightarrow> bool" where
  "is_stage e = (case e of SetTempRom r \<Rightarrow> True | _ \<Rightarrow> False)"

definition harmless :: "'w ota \<Rightarrow> 'w ota \<Rightarrow> bool" where
  "harmless s t \<longleftrightarrow> spi_flash t = spi_flash s \<and> ota_target_rom t = ota_target_rom s \<and>
     filter is_stage (ota_out t) = filter is_stage (ota_out s)"

lemma harmless_refl: "harmless s s" and harmless_trans: "harmless s t \<Longrightarrow> harmless t u \<Longrightarrow> harmless s u"
  by (simp_all add: harmless_def)

lemma harmless_emit: "filter is_stage es = [] \<Longrightarrow> harmless s (ota_emit es s)"
  by (simp add: harmless_def)

lemma harmless_update:
  "harmless s t \<Longrightarrow> spi_flash u = spi_flash t \<Longrightarrow> ota_target_rom u = ota_target_rom t \<Longrightarrow> ota_out u = ota_out t \<Longrightarrow> harmless s u"
  by (simp add: harmless_def)

lemma report_fields [simp]:
  "spi_flash (ota_report m s) = spi_flash s" "ota_target_rom (ota_report m s) = ota_target_rom s"
  "filter is_stage (ota_out (ota_report m s)) = filter is_stage (ota_out s)"
  by (simp_all add: ota_report_def is_stage_def)

lemma reports_fields [simp]:
  "spi_flash (fold ota_report ms s) = spi_flash s" "ota_target_rom (fold ota_report ms s) = ota_target_rom s"
  "filter is_stage (ota_out (fold ota_report ms s)) = filter is_stage (ota_out s)"
  by (induction ms arbitrary: s) simp_all

lemma failure_seen_fields [simp]:
  "spi_flash (failure_seen r s) = spi_flash s" "ota_target_rom (failure_seen r s) = ota_target_rom s"
  "ota_out (failure_seen r s) = ota_out s" "retry_armed (failure_seen r s) = retry_armed s" "ota_retry_count (failure_seen r s) = ota_retry_count s"
  "ota_received_bytes (failure_seen r s) = ota_received_bytes s" "ota_in_progress (failure_seen r s) = ota_in_progress s"
  "ota_firmware_size (failure_seen r s) = ota_firmware_size s"
  "ota_firmware_size_known (failure_seen r s) = ota_firmware_size_known s"
  "ota_continue_pending (failure_seen r s) = ota_continue_pending s"
  by (cases r; simp add: failure_seen_def retry_armed_def)+

lemma trigger_harmless: "harmless s (ota_trigger_reconnect r s)"
  by (simp add: ota_trigger_reconnect_def Let_def harmless_def is_stage_def ota_cleanup_timers_def)

lemma trigger_after: "harmless s t \<Longrightarrow> harmless s (ota_trigger_reconnect r t)"
  by (rule harmless_trans [OF _ trigger_harmless])

lemma emit_after: "harmless s t \<Longrightarrow> filter is_stage es = [] \<Longrightarrow> harmless s (ota_emit es t)"
  by (rule harmless_trans [OF _ harmless_emit])

lemma fail_harmless: "harmless s (ota_fail_update e b s)"
  by (simp add: ota_fail_update_def Let_def harmless_def is_stage_def ota_cleanup_timers_def)

lemma armed_fields [simp]:
  "retry_armed (ota_emit es s) = foldl (armed_by RetryTimer) (retry_armed s) es" "retry_armed (ota_report m s) = retry_armed s"
  "retry_armed (fold ota_report ms s) = retry_armed s" "ota_in_progress (ota_report m s) = ota_in_progress s"
  "ota_retry_pending (ota_report m s) = ota_retry_pending s" "ota_retry_pending (fold ota_report ms s) = ota_retry_pending s"
  using same_core_report [of s m] same_core_reports [of s ms] by (simp_all add: retry_armed_def same_core_def)

lemma armed_updates [simp]:
  "retry_armed (ota_in_progress_update f1 s) = retry_armed s" "retry_armed (ota_retry_pending_update f2 s) = retry_armed s"
  "retry_armed (ota_continue_pending_update f3 s) = retry_armed s" "retry_armed (ota_dns_pending_update f4 s) = retry_armed s"
  "retry_armed (is_valid_binary_update f5 s) = retry_armed s" "retry_armed (headers_parsed_update f6 s) = retry_armed s"
  "retry_armed (ota_tcp_failure_seen_update f7 s) = retry_armed s" "retry_armed (ota_received_bytes_update f8 s) = retry_armed s"
  "retry_armed (ota_retry_count_update f9 s) = retry_armed s" "retry_armed (ota_header_buffer_update f10 s) = retry_armed s"
  "retry_armed (ota_sha_ctx_update f11 s) = retry_armed s" "retry_armed (ota_status_update f12 s) = retry_armed s"
  "retry_armed (spi_flash_update f13 s) = retry_armed s" "retry_armed (ota_target_base_addr_update f14 s) = retry_armed s"
  "retry_armed (ota_target_rom_update f15 s) = retry_armed s" "retry_armed (ota_last_reported_progress_update f16 s) = retry_armed s"
  by (simp_all add: retry_armed_def)

lemma fail_inv: "ota_inv W roms (ota_fail_update e b s)"
proof -
  have "\<not> ota_in_progress (ota_fail_update e b s)" "\<not> retry_armed (ota_fail_update e b s)"
    by (simp_all add: ota_fail_update_def Let_def ota_cleanup_timers_def)
  then show ?thesis by (simp add: ota_inv_def)
qed

lemma trigger_inv:
  assumes "ota_inv W roms s"
  shows "ota_inv W roms (ota_trigger_reconnect r s)"
proof (cases "ota_in_progress s \<and> \<not> ota_retry_pending s")
  case True
  let ?s = "failure_seen r ((ota_emit [OtaDisarm TimeoutTimer] s)\<lparr>ota_dns_pending := False, ota_continue_pending := False\<rparr>)"
  let ?t = "?s\<lparr>ota_retry_count := ota_retry_count s + 1, ota_retry_pending := True,
     ota_received_bytes := ota_received_bytes s AND NOT 4095\<rparr>"
  show ?thesis
  proof (cases "ota_retry_count s < 5")
    case less: True
    have "unat (ota_received_bytes s AND NOT 4095) \<le> 0x69000"
      using assms True by (simp add: sector_start_simp ota_inv_def le_trans [OF div_times_less_eq_dividend])
    then have t: "unat (ota_received_bytes ?t) \<le> 0x69000" by simp
    define u where "u = (if r = FAILURE_INCOMPLETE_HTTP_RESPONSE
       then ota_report (sprint 64 ''retrying_chunk_%d_offset_%u'' [Arg32 (ucast (ota_retry_count ?t)), Arg32 (ota_received_bytes ?t)]) ?t
       else ?t)"
    have "ota_trigger_reconnect r s = ota_emit [OtaDisarm RetryTimer, OtaArm RetryTimer 2000] u"
      using True less by (simp add: ota_trigger_reconnect_def Let_def u_def)
    moreover have "same_core ?t u" by (simp add: u_def same_core_report same_core_refl)
    ultimately show ?thesis
      using assms True t by (simp add: ota_inv_def same_core_def sector_start_simp)
  next
    case False
    then show ?thesis using True by (simp add: ota_trigger_reconnect_def Let_def ota_inv_def ota_cleanup_timers_def)
  qed
qed (use assms in \<open>auto simp: ota_trigger_reconnect_def\<close>)

text \<open>The fields the invariant does not read.\<close>

lemma inv_updates [simp]:
  "(\<And>a. foldl (armed_by RetryTimer) a es = a) \<Longrightarrow> ota_inv W roms (ota_emit es s) = ota_inv W roms s" "ota_inv W roms (ota_report m s) = ota_inv W roms s"
  "ota_inv W roms (fold ota_report ms s) = ota_inv W roms s"
  "ota_inv W roms (s\<lparr>ota_dns_pending := b\<rparr>) = ota_inv W roms s"
  "ota_inv W roms (s\<lparr>ota_tcp_failure_seen := b\<rparr>) = ota_inv W roms s"
  "ota_inv W roms (s\<lparr>ota_last_reported_progress := n\<rparr>) = ota_inv W roms s"
  "ota_inv W roms (s\<lparr>ota_remote_ip := ip, ota_remote_port := pt\<rparr>) = ota_inv W roms s"
  "ota_inv W roms (s\<lparr>ota_header_buffer := h\<rparr>) = ota_inv W roms s"
  "ota_inv W roms (s\<lparr>ota_dns_pending := b, ota_request_offset := x\<rparr>) = ota_inv W roms s"
  "ota_inv W roms (clear_response s) = ota_inv W roms s"
proof -
  show "(\<And>a. foldl (armed_by RetryTimer) a es = a) \<Longrightarrow> ota_inv W roms (ota_emit es s) = ota_inv W roms s"
    by (rule same_core_inv [OF same_core_emit])
qed (rule same_core_inv [OF same_core_report] same_core_inv [OF same_core_reports] |
     rule same_core_inv, simp add: same_core_def sha_wanted_def clear_response_def retry_armed_def)+

lemma writer_updates [simp]:
  "writer_holds W roms (s\<lparr>ota_continue_pending := b, ota_retry_pending := c, headers_parsed := d\<rparr>) = writer_holds W roms s"
  "writer_holds W roms (s\<lparr>ota_header_buffer := h\<rparr>) = writer_holds W roms s"
  "writer_holds W roms (clear_response s) = writer_holds W roms s"
  "writer_holds W roms (s\<lparr>ota_dns_pending := d, ota_continue_pending := b, ota_retry_pending := c\<rparr>) = writer_holds W roms s"
  "writer_holds W roms (ota_emit es s) = writer_holds W roms s"
  by (simp_all add: writer_holds_def sha_wanted_def clear_response_def)

lemma same_harmless: "spi_flash t = spi_flash s \<Longrightarrow> ota_target_rom t = ota_target_rom s \<Longrightarrow> ota_out t = ota_out s \<Longrightarrow> harmless s t"
  by (simp add: harmless_def)

lemma timeout_ok:
  assumes "ota_inv W roms s"
  shows "ota_inv W roms (ota_timeout_timer_cb s)" "harmless s (ota_timeout_timer_cb s)"
proof -
  let ?s = "ota_emit [OtaDisarm TimeoutTimer] (s\<lparr>ota_dns_pending := False\<rparr>)"
  have h: "harmless s ?s" "harmless s (?s\<lparr>ota_tcp_failure_seen := True\<rparr>)" by (simp_all add: harmless_def is_stage_def)
  show "ota_inv W roms (ota_timeout_timer_cb s)"
    using assms by (simp add: ota_timeout_timer_cb_def Let_def trigger_inv)
  show "harmless s (ota_timeout_timer_cb s)"
    using h by (simp add: ota_timeout_timer_cb_def Let_def is_stage_def harmless_refl trigger_after emit_after)
qed

lemma recon_ok:
  assumes "ota_inv W roms s"
  shows "ota_inv W roms (ota_tcp_recon_cb s)" "harmless s (ota_tcp_recon_cb s)"
proof -
  let ?s = "ota_emit [OtaDisarm TimeoutTimer] (s\<lparr>ota_tcp_failure_seen := True\<rparr>)"
  have h: "harmless s ?s" by (simp add: harmless_def is_stage_def)
  show "ota_inv W roms (ota_tcp_recon_cb s)"
    using assms by (simp add: ota_tcp_recon_cb_def Let_def trigger_inv)
  show "harmless s (ota_tcp_recon_cb s)"
    using h by (simp add: ota_tcp_recon_cb_def Let_def harmless_refl trigger_after)
qed

lemma progress_ok:
  assumes "ota_inv W roms s"
  shows "ota_inv W roms (ota_progress_timer_cb s)" "harmless s (ota_progress_timer_cb s)"
  using assms by (simp_all add: ota_progress_timer_cb_def Let_def harmless_def)

lemma dns_found_inv: "ota_inv W roms s \<Longrightarrow> ota_inv W roms (ota_dns_found_cb env ip s)"
  by (simp add: ota_dns_found_cb_def Let_def trigger_inv split: option.split)

lemma dns_found_harmless: "harmless s (ota_dns_found_cb env ip s)"
proof -
  have "harmless s (s\<lparr>ota_dns_pending := False\<rparr>)" "harmless s (s\<lparr>ota_dns_pending := False, ota_remote_ip := a, ota_remote_port := p\<rparr>)" for a p
    by (simp_all add: harmless_def)
  then show ?thesis
    by (simp add: ota_dns_found_cb_def Let_def trigger_after emit_after is_stage_def harmless_refl split: option.split)
qed

lemma lookup_cases:
  obtains t where "harmless s t" "ota_inv W roms t = ota_inv W roms s"
    "ota_lookup env s = (case dns_answer env of OtaDnsOk ip \<Rightarrow> ota_dns_found_cb env (Some ip) t | OtaDnsInProgress \<Rightarrow> t
     | OtaDnsError \<Rightarrow> ota_trigger_reconnect FAILURE_DNS (ota_emit [OtaDisarm TimeoutTimer] (t\<lparr>ota_dns_pending := False\<rparr>)))"
proof
  let ?s = "ota_emit [OtaDisarm TimeoutTimer, OtaArm TimeoutTimer 15000] (s\<lparr>ota_remote_ip := 0, ota_remote_port := 0\<rparr>)"
  let ?t = "ota_emit [DnsGetHostByName (ota_host ?s)] (?s\<lparr>ota_dns_pending := True\<rparr>)"
  show "harmless s ?t" "ota_inv W roms ?t = ota_inv W roms s" by (simp_all add: harmless_def is_stage_def)
  show "ota_lookup env s = (case dns_answer env of OtaDnsOk ip \<Rightarrow> ota_dns_found_cb env (Some ip) ?t | OtaDnsInProgress \<Rightarrow> ?t
     | OtaDnsError \<Rightarrow> ota_trigger_reconnect FAILURE_DNS (ota_emit [OtaDisarm TimeoutTimer] (?t\<lparr>ota_dns_pending := False\<rparr>)))"
    by (simp add: ota_lookup_def Let_def)
qed

lemma lookup_inv: "ota_inv W roms s \<Longrightarrow> ota_inv W roms (ota_lookup env s)"
  by (rule lookup_cases [of s W roms env]) (simp add: dns_found_inv trigger_inv split: ota_dns_result.split)

lemma lookup_harmless: "harmless s (ota_lookup env s)"
proof (rule lookup_cases [of s _ _ env])
  fix t
  assume t: "harmless s t" and l: "ota_lookup env s = (case dns_answer env of OtaDnsOk ip \<Rightarrow> ota_dns_found_cb env (Some ip) t
     | OtaDnsInProgress \<Rightarrow> t
     | OtaDnsError \<Rightarrow> ota_trigger_reconnect FAILURE_DNS (ota_emit [OtaDisarm TimeoutTimer] (t\<lparr>ota_dns_pending := False\<rparr>)))"
  have "harmless s (t\<lparr>ota_dns_pending := False\<rparr>)" using t by (simp add: harmless_def)
  then show ?thesis
    using t by (simp add: l trigger_after emit_after is_stage_def harmless_trans [OF t dns_found_harmless] split: ota_dns_result.split)
qed

lemma connect_inv: "ota_inv W roms s \<Longrightarrow> ota_inv W roms (ota_tcp_connect_cb env s)"
  by (simp add: ota_tcp_connect_cb_def Let_def trigger_inv)

lemma connect_harmless: "harmless s (ota_tcp_connect_cb env s)"
proof -
  define t where "t = clear_response (s\<lparr>ota_dns_pending := False, ota_request_offset := ota_received_bytes s\<rparr>)"
  have "harmless s t" by (simp add: t_def harmless_def clear_response_def)
  then show ?thesis
    by (simp add: ota_tcp_connect_cb_def Let_def harmless_refl is_stage_def trigger_after emit_after flip: t_def)
qed

lemma retry_ok:
  assumes "ota_inv W roms s" and "\<not> retry_armed s" and "ota_retry_pending s"
  shows "ota_inv W roms (ota_retry_timer_cb env s)"
proof (cases "ota_in_progress s")
  case True
  let ?s = "s\<lparr>ota_continue_pending := False, ota_retry_pending := False, headers_parsed := False\<rparr>"
  let ?t = "if \<not> ota_continue_pending s then ?s\<lparr>is_valid_binary := False\<rparr> else ?s"
  have "ota_inv W roms ?t" using assms True by (simp add: ota_inv_def split: if_splits)
  then have "ota_inv W roms (clear_response (?t\<lparr>ota_header_buffer := []\<rparr>))" by (simp only: inv_updates)
  from lookup_inv [OF this] show ?thesis using True by (simp only: ota_retry_timer_cb_def Let_def not_True_eq_False if_False)
qed (use assms in \<open>simp add: ota_retry_timer_cb_def\<close>)

lemma retry_harmless: "harmless s (ota_retry_timer_cb env s)"
proof -
  let ?s = "s\<lparr>ota_continue_pending := False, ota_retry_pending := False, headers_parsed := False\<rparr>"
  let ?t = "if \<not> ota_continue_pending s then ?s\<lparr>is_valid_binary := False\<rparr> else ?s"
  let ?u = "clear_response (?t\<lparr>ota_header_buffer := []\<rparr>)"
  have "harmless s ?u" by (simp add: harmless_def clear_response_def)
  from harmless_trans [OF this lookup_harmless] show ?thesis
    by (simp only: ota_retry_timer_cb_def Let_def harmless_refl split: if_split) simp
qed

lemma continue_ok:
  assumes "ota_inv W roms s"
  shows "ota_inv W roms (ota_schedule_range_continue s)" "harmless s (ota_schedule_range_continue s)"
proof -
  show "ota_inv W roms (ota_schedule_range_continue s)"
    using assms by (simp add: ota_schedule_range_continue_def ota_inv_def Let_def)
  show "harmless s (ota_schedule_range_continue s)"
    by (simp add: ota_schedule_range_continue_def Let_def harmless_def is_stage_def)
qed

section \<open>Receiving\<close>

lemma inv_off: "\<not> ota_in_progress s \<Longrightarrow> \<not> retry_armed s \<Longrightarrow> ota_inv W roms s"
  by (simp add: ota_inv_def)

text \<open>What a step may change: its own slot, and the state as the invariant allows.\<close>

definition in_slot :: "(u8 \<Rightarrow> u32) \<Rightarrow> 'w ota \<Rightarrow> 'w ota \<Rightarrow> bool" where
  "in_slot roms s t \<longleftrightarrow> ota_target_rom t = ota_target_rom s \<and> filter is_stage (ota_out t) = filter is_stage (ota_out s) \<and>
     same_outside (unat (roms (ota_target_rom s))) (unat (roms (ota_target_rom s)) + 0x69000) (spi_flash s) (spi_flash t)"

lemma harmless_in_slot: "harmless s t \<Longrightarrow> in_slot roms s t"
  by (simp add: harmless_def in_slot_def same_outside_refl)

lemma in_slot_trans: "in_slot roms s t \<Longrightarrow> in_slot roms t u \<Longrightarrow> in_slot roms s u"
  by (auto simp: in_slot_def intro: same_outside_trans)

text \<open>The two states a received packet may leave: what it wrote, and that a transfer may go on.\<close>

definition receiving :: "'w ota \<Rightarrow> bool" where
  "receiving s \<longleftrightarrow> ota_in_progress s \<and> \<not> ota_retry_pending s"

text \<open>The checks and writes of a packet call no timer.\<close>

definition calm :: "'w ota \<Rightarrow> 'w ota \<Rightarrow> bool" where
  "calm s t \<longleftrightarrow> ota_out t = ota_out s \<and> ota_in_progress t = ota_in_progress s \<and> ota_retry_pending t = ota_retry_pending s"

lemma calm_refl: "calm s s" and calm_trans: "calm s t \<Longrightarrow> calm t u \<Longrightarrow> calm s u"
  by (simp_all add: calm_def)

lemma calm_fields: "calm s t \<Longrightarrow> retry_armed t = retry_armed s" "calm s t \<Longrightarrow> receiving t = receiving s"
  by (simp_all add: calm_def retry_armed_def receiving_def)

lemma rehash_loop_holds:
  assumes "rboot_ok W roms env" and "sha_holds c (flash_range f base n)" and "base + n = addr" and "addr \<le> end_addr"
    and "end_addr < 2 ^ 33" and "rehash_loop env f addr end_addr c = (True, c')"
  shows "sha_holds c' (flash_range f base (end_addr - base))"
  using assms
proof (induction env f addr end_addr c arbitrary: n rule: rehash_loop.induct)
  case (1 env f addr end_addr c)
  show ?case
  proof (cases "addr < end_addr")
    case True
    define m where "m = (if addr + 256 > end_addr then end_addr - addr else 256)"
    obtain b where b: "spi_read env addr m f = Some b"
      and step: "rehash_loop env f (addr + m) end_addr (sha256_update c b) = (True, c')"
      using "1.prems"(6) True by (subst (asm) rehash_loop.simps) (auto simp: m_def Let_def split: option.splits)
    have "b = flash_range f addr m" using rboot_driver(2) [OF "1.prems"(1) b] .
    moreover have "sha_holds (sha256_update c b) (flash_range f base n @ b)"
      using "1.prems"(2,3,4,5) by (intro sha.update_holds) simp_all
    ultimately have "sha_holds (sha256_update c b) (flash_range f base (n + m))"
      using "1.prems"(3) flash_range_append [of f base n m] by simp
    moreover have "addr + m \<le> end_addr" using True by (simp add: m_def)
    ultimately show ?thesis
      using "1.IH" [OF True refl b [unfolded m_def]] "1.prems"(1,3,5) step by (simp add: m_def add.assoc)
  next
    case False
    then have "c' = c" "end_addr = base + n" using "1.prems" by (auto simp: rehash_loop.simps)
    then show ?thesis using "1.prems"(2) by simp
  qed
qed

lemma slot_addr:
  assumes "rboot_ok W roms env" and "unat (x :: u32) \<le> 0x69000"
  shows "unat (roms r + x) = unat (roms r) + unat x"
proof -
  have "unat (roms r) + unat x < 2 ^ 32" using rboot_slots(3) [OF assms(1), of r] assms(2) by simp
  then show ?thesis by (simp add: unat_word_ariths)
qed

lemma slot_end: "rboot_ok W roms env \<Longrightarrow> 4096 dvd unat (roms r) + 0x69000"
  using rboot_slots(2) [of W roms env r] by (intro dvd_add) simp_all

lemma write_body_ok:
  assumes "rboot_ok W roms env" and "writer_holds W roms s" and "unat (ota_received_bytes s) + length pdata \<le> 0x69000"
    and "write_body env pdata s = (e, t)"
  shows "in_slot roms s t"
    "e = None \<Longrightarrow> writer_holds W roms t \<and> ota_received_bytes t = ota_received_bytes s + of_nat (length pdata)"
    "calm s t" "is_valid_binary t = is_valid_binary s"
    "ota_firmware_size t = ota_firmware_size s" "ota_firmware_size_known t = ota_firmware_size_known s"
    "ota_continue_pending t = ota_continue_pending s"
proof -
  let ?b = "unat (ota_target_base_addr s)"
  obtain pre data where w: "4096 dvd pre" "unat (ota_received_bytes s) = pre + length data"
    "W (ota_status s) (?b + pre) data (spi_flash s)"
    "sha_wanted s \<longrightarrow> sha_holds (ota_sha_ctx s) (flash_range (spi_flash s) ?b pre @ data)"
    and base: "ota_target_base_addr s = roms (ota_target_rom s)"
    using assms(2) unfolding writer_holds_def by blast
  obtain ok v g where f: "rboot_write_flash env (ota_status s) pdata (spi_flash s) = (ok, v, g)" by (cases "rboot_write_flash env (ota_status s) pdata (spi_flash s)")
  let ?c = "if sha_wanted s then sha256_update (ota_sha_ctx s) pdata else ota_sha_ctx s"
  let ?u = "s\<lparr>ota_sha_ctx := ?c, ota_status := v, spi_flash := g\<rparr>"
  have t: "t = (if ok then ?u\<lparr>ota_received_bytes := ota_received_bytes s + of_nat (length pdata),
      ota_response_received_bytes := ota_response_received_bytes s + of_nat (length pdata)\<rparr> else ?u)" and e: "e = None \<longleftrightarrow> ok"
    using assms(4) f by (auto simp: write_body_def Let_def split: if_splits)
  note ws = rboot_writes [OF assms(1) w(3) f]
  have "sector_end (?b + pre + length data + length pdata) \<le> ?b + 0x69000"
    using assms(3) w(2) slot_end [OF assms(1)] by (intro sector_end_le) (simp_all add: base)
  then have out: "same_outside (?b + pre) (?b + 0x69000) (spi_flash s) g" using ws(1) by (rule same_outside_mono [rotated 2]) simp
  then show "in_slot roms s t" by (auto simp: in_slot_def t base intro: same_outside_mono)
  show "writer_holds W roms t \<and> ota_received_bytes t = ota_received_bytes s + of_nat (length pdata)" if "e = None"
  proof -
    have ok: ok using that e by simp
    have "unat (ota_received_bytes s + of_nat (length pdata)) = pre + length (data @ pdata)"
      using assms(3) w(2) by (simp add: unat_word_ariths unat_of_nat)
    moreover have "sha_wanted s \<longrightarrow> sha_holds ?c (flash_range g ?b pre @ data @ pdata)"
    proof
      assume s: "sha_wanted s"
      have "sha_holds (sha256_update (ota_sha_ctx s) pdata) ((flash_range (spi_flash s) ?b pre @ data) @ pdata)"
        using w(2,4) s assms(3) by (intro sha.update_holds) simp_all
      then show "sha_holds ?c (flash_range g ?b pre @ data @ pdata)" using s flash_range_below [OF out, of ?b pre] by simp
    qed
    ultimately show ?thesis
      using ok w(1) ws(2) [OF ok] base unfolding writer_holds_def t
      by (intro conjI exI [of _ pre] exI [of _ "data @ pdata"]) (simp_all add: sha_wanted_def)
  qed
  show "calm s t" "is_valid_binary t = is_valid_binary s"
    "ota_firmware_size t = ota_firmware_size s" "ota_firmware_size_known t = ota_firmware_size_known s"
    "ota_continue_pending t = ota_continue_pending s"
    by (simp_all add: t calm_def)
qed

lemma open_writer_ok:
  assumes "rboot_ok W roms env" and "4096 dvd unat (ota_received_bytes s)" and "unat (ota_received_bytes s) < 0x69000"
    and "open_writer env magic s = (e, t)"
  shows "in_slot roms s t" "e = None \<Longrightarrow> writer_holds W roms t" "e = None \<Longrightarrow> is_valid_binary t" "calm s t"
    "ota_received_bytes t = ota_received_bytes s" "ota_firmware_size t = ota_firmware_size s"
    "ota_firmware_size_known t = ota_firmware_size_known s" "ota_continue_pending t = ota_continue_pending s"
proof -
  let ?n = "unat (ota_received_bytes s)"
  let ?base = "roms (ota_target_rom s)"
  let ?addr = "?base + ota_received_bytes s"
  obtain ok g where f: "spi_erase_sector env (unat (?addr div 4096)) (spi_flash s) = (ok, g)" by fastforce
  have addr: "unat ?addr = unat ?base + ?n" using slot_addr [OF assms(1)] assms(3) by simp
  then have sector: "4096 * unat (?addr div 4096) = unat ?base + ?n"
    using rboot_slots(2) [OF assms(1), of "ota_target_rom s"] assms(2) by (simp add: unat_div)
  have "?n + 4096 \<le> 0x69000" using assms(2,3) by (auto elim!: dvdE)
  then have out: "same_outside (unat ?base + ?n) (unat ?base + 0x69000) (spi_flash s) g"
    using rboot_driver(1) [OF assms(1), of "unat (?addr div 4096)" "spi_flash s"] sector f
    by (auto elim!: same_outside_mono)
  let ?s = "s\<lparr>is_valid_binary := True, ota_target_base_addr := ?base, spi_flash := g\<rparr>"
  let ?w = "?s\<lparr>ota_status := rboot_write_init env (unat ?addr)\<rparr>"
  obtain h u where r: "ota_rehash_flash env ?w = (h, u)" by fastforce
  obtain hashed c where loop: "rehash_loop env g (unat ?base) (unat ?addr) (sha256_init (ota_sha_ctx s)) = (hashed, c)" by fastforce
  have u: "h = (sha_wanted s \<longrightarrow> hashed)" "u = (if sha_wanted s then ?w\<lparr>ota_sha_ctx := c\<rparr> else ?w)"
    using r loop by (auto simp: ota_rehash_flash_def sha_wanted_def split: if_splits)
  have "open_writer env magic s = (if ota_received_bytes s = 0 \<and> magic \<noteq> 0xE9 \<and> magic \<noteq> 0xEA then (Some ''error_invalid_magic'', s)
      else if \<not> ok then (Some ''error_flash_erase'', ?s) else if \<not> h then (Some ''error_flash_read'', u) else (None, u))"
    by (simp add: open_writer_def Let_def rboot_slots(1) [OF assms(1)] f r)
  note t = this [unfolded assms(4)]
  have u_in: "in_slot roms s u" "in_slot roms s ?s"
    using out by (auto simp: u in_slot_def intro: same_outside_mono)
  show "in_slot roms s t" using t u_in by (auto simp: in_slot_def same_outside_refl split: if_splits)
  show "calm s t" "ota_received_bytes t = ota_received_bytes s" "ota_firmware_size t = ota_firmware_size s"
    "ota_firmware_size_known t = ota_firmware_size_known s" "ota_continue_pending t = ota_continue_pending s"
    using t by (auto simp: u calm_def split: if_splits)
  assume none: "e = None"
  then have tu: "t = u" and h: h using t by (auto split: if_splits)
  show "is_valid_binary t" by (simp add: tu u)
  have small: "unat ?addr < 2 ^ 33"
    using rboot_slots(3) [OF assms(1), of "ota_target_rom s"] assms(3) addr by simp
  have "sha_holds c (flash_range g (unat ?base) ?n)" if "sha_wanted s"
    using rehash_loop_holds [OF assms(1), of "sha256_init (ota_sha_ctx s)" g "unat ?base" 0 "unat ?base" "unat ?addr" c]
      loop h that addr small sha.init_holds by (simp add: u flash_range_def)
  moreover have "W (rboot_write_init env (unat ?base + ?n)) (unat ?base + ?n) [] g"
    using rboot_begins [OF assms(1)] rboot_slots(2) [OF assms(1)] assms(2) by (simp add: dvd_add)
  ultimately show "writer_holds W roms t"
    unfolding writer_holds_def using assms(2) addr
    by (intro conjI exI [of _ ?n] exI [of _ "[]"]) (simp_all add: tu u sha_wanted_def)
qed

text \<open>A check of the header keeps the invariant when it passes, and never touches the flash.\<close>

definition passes :: "'w writer \<Rightarrow> (u8 \<Rightarrow> u32) \<Rightarrow> 'w ota \<Rightarrow> string option \<times> 'w ota \<Rightarrow> bool" where
  "passes W roms s r \<longleftrightarrow> (case r of (e, t) \<Rightarrow> harmless s t \<and> calm s t \<and>
     (e = None \<and> ota_inv W roms s \<and> receiving s \<longrightarrow> ota_inv W roms t))"

lemma passes_error: "passes W roms s (Some e, s)"
  by (simp add: passes_def harmless_refl calm_refl)

lemma writer_keeps:
  assumes "spi_flash t = spi_flash s" "ota_status t = ota_status s" "ota_target_rom t = ota_target_rom s"
    "ota_target_base_addr t = ota_target_base_addr s" "ota_received_bytes t = ota_received_bytes s"
    "ota_sha_ctx t = ota_sha_ctx s" "sha_wanted t = sha_wanted s"
  shows "writer_holds W roms t = writer_holds W roms s"
  unfolding writer_holds_def by (simp only: assms)

lemma passes_full: "passes W roms s (accept_full n s)"
proof (cases "n < 102400 \<or> n > 0x69000")
  case False
  then have "n \<le> 0x69000" by (simp add: not_less)
  then show ?thesis
    using False by (simp add: accept_full_def passes_def harmless_def calm_def receiving_def ota_inv_def) (auto simp: retry_armed_def)
qed (simp add: accept_full_def passes_error)

lemma passes_range: "passes W roms s (accept_range hdr n s)"
proof -
  have "passes W roms s (None, s\<lparr>ota_firmware_size := x, ota_firmware_size_known := True, ota_response_range_end := y,
      ota_response_range_total := x, ota_response_range_valid := True\<rparr>)" if "x \<le> 0x69000" for x y
    using that writer_keeps [of "s\<lparr>ota_firmware_size := x, ota_firmware_size_known := True, ota_response_range_end := y,
      ota_response_range_total := x, ota_response_range_valid := True\<rparr>" s]
    by (simp add: passes_def harmless_def calm_def retry_armed_def receiving_def ota_inv_def sha_wanted_def) auto
  then show ?thesis
    unfolding accept_range_def by (auto simp: Let_def passes_error not_less split: prod.split option.split)
qed

lemma passes_before:
  assumes "passes W roms t r" and "harmless s t" "calm s t" "ota_inv W roms t = ota_inv W roms s"
  shows "passes W roms s r"
  using assms calm_fields(2) [OF assms(3)] by (auto simp: passes_def intro: harmless_trans calm_trans)

lemma passes_after:
  assumes "passes W roms s r"
  shows "passes W roms s (case r of (Some e, u) \<Rightarrow> (Some e, u)
    | (None, u) \<Rightarrow> (None, u\<lparr>ota_response_length := n, ota_response_received_bytes := 0, ota_response_length_known := True, headers_parsed := True\<rparr>))"
proof -
  have "ota_inv W roms (u\<lparr>ota_response_length := n, ota_response_received_bytes := 0, ota_response_length_known := True, headers_parsed := True\<rparr>) =
      ota_inv W roms u" for u
    by (rule same_core_inv) (simp add: same_core_def sha_wanted_def retry_armed_def)
  then show ?thesis
    using assms by (auto simp: passes_def harmless_def calm_def split: option.split prod.split)
qed

lemma passes_header: "passes W roms s (accept_header hdr s)"
proof -
  have same: "harmless s (s\<lparr>ota_response_status_code := c, ota_response_range_end := 0, ota_response_range_total := 0,
      ota_response_range_valid := False\<rparr>)" "ota_inv W roms (s\<lparr>ota_response_status_code := c, ota_response_range_end := 0,
      ota_response_range_total := 0, ota_response_range_valid := False\<rparr>) = ota_inv W roms s" for c
    by (simp add: harmless_def, rule same_core_inv) (simp add: same_core_def sha_wanted_def retry_armed_def)
  have "passes W roms s (accept_full n (s\<lparr>ota_response_status_code := c, ota_response_range_end := 0, ota_response_range_total := 0,
      ota_response_range_valid := False\<rparr>))" "passes W roms s (accept_range hdr n (s\<lparr>ota_response_status_code := c,
      ota_response_range_end := 0, ota_response_range_total := 0, ota_response_range_valid := False\<rparr>))" for c n
    by (rule passes_before [OF passes_full same(1) _ same(2)] passes_before [OF passes_range same(1) _ same(2)];
        simp add: calm_def)+
  then have r: "passes W roms s (if c = 200 then accept_full n (s\<lparr>ota_response_status_code := c, ota_response_range_end := 0,
      ota_response_range_total := 0, ota_response_range_valid := False\<rparr>) else accept_range hdr n (s\<lparr>ota_response_status_code := c,
      ota_response_range_end := 0, ota_response_range_total := 0, ota_response_range_valid := False\<rparr>))" for c n by simp
  obtain cl cd where g: "ota_get_header_value hdr (ascii ''Content-Length'') = (cl, cd)" by fastforce
  define v where "v = (if cd then None else case cl of None \<Rightarrow> None | Some v \<Rightarrow> ota_parse_uint32 v)"
  show ?thesis
    unfolding accept_header_def Let_def g prod.case v_def [symmetric]
    by (cases "ota_parse_status_code hdr"; cases v)
      (simp_all only: option.case passes_error passes_after [OF r] simp_thms split: if_split)
qed

lemma fits_firmware_bound:
  assumes "ota_inv W roms s" and "receiving s" and "fits_firmware (of_nat (length d)) s" and "length d < 2 ^ 16"
  shows "unat (ota_received_bytes s) + length d \<le> 0x69000"
proof -
  have l: "unat (of_nat (length d) :: u32) = length d" using assms(4) by (simp add: unat_of_nat)
  have "ota_firmware_size s \<le> 0x69000" "ota_received_bytes s \<le> ota_firmware_size s"
    "of_nat (length d) \<le> ota_firmware_size s - ota_received_bytes s"
    using assms(1-3) by (auto simp: fits_firmware_def ota_inv_def receiving_def not_less)
  then have "unat (ota_firmware_size s) \<le> 0x69000" "unat (ota_received_bytes s) \<le> unat (ota_firmware_size s)"
    "length d \<le> unat (ota_firmware_size s) - unat (ota_received_bytes s)"
    using l by (simp_all add: word_le_nat_alt unat_sub)
  then show ?thesis by simp
qed

text \<open>A packet: on success the invariant holds, on failure the update is given up.\<close>

definition received :: "'w writer \<Rightarrow> (u8 \<Rightarrow> u32) \<Rightarrow> 'w ota \<Rightarrow> string option \<times> 'w ota \<Rightarrow> bool" where
  "received W roms s r \<longleftrightarrow> (case r of (e, t) \<Rightarrow> in_slot roms s t \<and> calm s t \<and> (e = None \<longrightarrow> ota_inv W roms t))"

lemma written_inv:
  assumes "rboot_ok W roms env" and "writer_holds W roms s" and "is_valid_binary s" and "ota_inv W roms s'" and "receiving s'"
    and "ota_received_bytes s = ota_received_bytes s'" and "ota_firmware_size s = ota_firmware_size s'"
    and "ota_firmware_size_known s = ota_firmware_size_known s'" and "retry_armed s = retry_armed s'" and "receiving s"
    and "ota_continue_pending s = ota_continue_pending s'" and "unat (ota_received_bytes s) + length d \<le> 0x69000"
    and "write_body env d s = (e, t)"
  shows "received W roms s (e, t)"
proof -
  note w = write_body_ok [OF assms(1,2,12,13)]
  have "unat (ota_received_bytes s + of_nat (length d)) \<le> 0x69000"
    using assms(12) by (simp add: unat_word_ariths unat_of_nat)
  then have "ota_inv W roms t" if "e = None"
    using w calm_fields [OF w(3)] that assms by (auto simp: ota_inv_def receiving_def)
  then show ?thesis using w(1,3) by (simp add: received_def)
qed

lemma body_received:
  assumes "rboot_ok W roms env" and "ota_inv W roms s" and "receiving s" and "length d < 2 ^ 16"
  shows "received W roms s (ota_body env d s)"
proof (cases "\<not> headers_parsed s \<or> (of_nat (length d) :: u32) = 0 \<or> \<not> fits_response (of_nat (length d)) s \<or> \<not> fits_firmware (of_nat (length d)) s")
  case True
  then show ?thesis
    using assms(2) by (auto simp: ota_body_def Let_def received_def in_slot_def same_outside_refl calm_refl)
next
  case False
  note fits = fits_firmware_bound [OF assms(2,3) _ assms(4)]
  have d: "0 < length d" using False by (cases d) simp_all
  show ?thesis
  proof (cases "is_valid_binary s")
    case True
    obtain e t where w: "write_body env d s = (e, t)" by fastforce
    have "writer_holds W roms s" using assms(2,3) True by (auto simp: ota_inv_def receiving_def)
    from written_inv [OF assms(1) this True assms(2,3) refl refl refl refl assms(3) refl fits w] show ?thesis
      using False True w by (simp add: ota_body_def Let_def)
  next
    case new: False
    obtain e u where o: "open_writer env (char_at d 0) s = (e, u)" by fastforce
    have "4096 dvd unat (ota_received_bytes s)" using assms(2,3) new by (auto simp: ota_inv_def receiving_def)
    moreover have "unat (ota_received_bytes s) < 0x69000" using fits False d by linarith
    ultimately have "4096 dvd unat (ota_received_bytes s)" "unat (ota_received_bytes s) < 0x69000" .
    note ow = open_writer_ok [OF assms(1) this o]
    show ?thesis
    proof (cases e)
      case None
      obtain e' t where w: "write_body env d u = (e', t)" by fastforce
      have "received W roms u (e', t)"
        using fits False ow None assms(3) calm_fields [OF ow(4)]
        by (intro written_inv [OF assms(1) ow(2,3) assms(2,3) ow(5-7) _ _ ow(8) _ w]) simp_all
      moreover have "ota_body env d s = (e', t)" using False new o None w by (simp add: ota_body_def Let_def)
      ultimately show ?thesis using in_slot_trans [OF ow(1)] calm_trans [OF ow(4)] by (auto simp: received_def)
    next
      case (Some m)
      then show ?thesis using False new o ow(1,4) by (simp add: ota_body_def Let_def received_def)
    qed
  qed
qed

lemma append_same_core: "same_core s (append_header d s)" and append_harmless: "harmless s (append_header d s)"
  and append_calm: "calm s (append_header d s)"
  by (simp_all add: append_header_def Let_def same_core_def sha_wanted_def retry_armed_def harmless_def calm_def)

lemma received_before: "received W roms t r \<Longrightarrow> harmless s t \<Longrightarrow> calm s t \<Longrightarrow> received W roms s r"
  using in_slot_trans [OF harmless_in_slot] calm_trans by (auto simp: received_def)

lemma received_error: "harmless s t \<Longrightarrow> calm s t \<Longrightarrow> received W roms s (Some e, t)"
  by (simp add: received_def harmless_in_slot)

lemma receive_received:
  assumes "rboot_ok W roms env" and "ota_inv W roms s" and "receiving s" and "length d < 2 ^ 16"
  shows "received W roms s (ota_receive env d s)"
proof (cases "headers_parsed s")
  case True
  then show ?thesis using body_received [OF assms] by (simp add: ota_receive_def)
next
  case False
  let ?s = "append_header d s"
  let ?hdr = "takeWhile (\<lambda>b. b \<noteq> 0) (ota_header_buffer ?s)"
  have s: "ota_inv W roms ?s" "receiving ?s"
    using assms(2,3) same_core_inv [OF append_same_core [of s d]] append_same_core [of s d] by (simp_all add: same_core_def receiving_def)
  obtain e t where a: "accept_header ?hdr ?s = (e, t)" by fastforce
  with passes_header [of W roms ?s ?hdr] s have p: "harmless ?s t" "receiving t" "e = None \<Longrightarrow> ota_inv W roms t" "calm ?s t"
    using calm_fields(2) by (auto simp: passes_def)
  have h: "harmless s t" "calm s t" using harmless_trans [OF append_harmless p(1)] calm_trans [OF append_calm p(4)] by simp_all
  have "received W roms s (ota_body env (drop k d) t)" if "e = None" for k
    using body_received [OF assms(1) p(3) [OF that] p(2)] assms(4) by (intro received_before [OF _ h]) simp
  moreover have "received W roms s (None, ?s)" using s(1) harmless_in_slot [OF append_harmless [of s d]] append_calm by (simp add: received_def)
  ultimately show ?thesis
    using False a received_error [OF append_harmless [of s d] append_calm [of s d]] received_error [OF h]
    by (auto simp: ota_receive_def Let_def split: option.split)
qed

lemma recv_ok:
  assumes "rboot_ok W roms env" and "ota_inv W roms s" and "length d < 2 ^ 16"
  shows "ota_inv W roms (ota_tcp_recv_cb env d s)" "in_slot roms s (ota_tcp_recv_cb env d s)"
proof -
  let ?s = "ota_emit [OtaDisarm TimeoutTimer, OtaArm TimeoutTimer 15000] s"
  have h: "harmless s ?s" by (simp add: harmless_def is_stage_def)
  show "ota_inv W roms (ota_tcp_recv_cb env d s)" "in_slot roms s (ota_tcp_recv_cb env d s)"
  proof (atomize (full), cases "receiving s")
    case True
    obtain e t where r: "ota_receive env d ?s = (e, t)" by fastforce
    have "received W roms ?s (e, t)"
      using receive_received [OF assms(1), of ?s d] assms(2,3) True r by (simp add: receiving_def)
    moreover from this have "in_slot roms s t"
      using in_slot_trans [OF harmless_in_slot [OF h]] by (auto simp: received_def)
    ultimately show "ota_inv W roms (ota_tcp_recv_cb env d s) \<and> in_slot roms s (ota_tcp_recv_cb env d s)"
      using True r
      by (auto simp: ota_tcp_recv_cb_def receiving_def received_def fail_inv in_slot_trans [OF _ harmless_in_slot [OF fail_harmless]]
          split: option.split)
  next
    case False
    then show "ota_inv W roms (ota_tcp_recv_cb env d s) \<and> in_slot roms s (ota_tcp_recv_cb env d s)"
      using assms(2) by (auto simp: ota_tcp_recv_cb_def receiving_def harmless_in_slot [OF harmless_refl])
  qed
qed

section \<open>The end of the transfer\<close>

abbreviation stages :: "'w ota \<Rightarrow> ota_event list" where
  "stages s \<equiv> filter is_stage (ota_out s)"

text \<open>What must hold of the flash where a slot is staged for boot.\<close>

definition verified :: "(u8 \<Rightarrow> u32) \<Rightarrow> 'w ota \<Rightarrow> (nat \<Rightarrow> u8) \<Rightarrow> bool" where
  "verified roms s flash \<longleftrightarrow>
     (let r = ota_target_rom s; n = unat (ota_firmware_size s); digest = SHA256 (flash_range flash (unat (roms r)) n)
      in ota_received_bytes s = ota_firmware_size s \<and> 102400 \<le> n \<and> n \<le> 0x69000 \<and>
         (sha_wanted s \<longrightarrow> r = 0 \<and> has_sha256_check_1 s \<and> digest = expected_sha256_1 s \<or>
                         r = 1 \<and> has_sha256_check_2 s \<and> digest = expected_sha256_2 s))"

lemma stage_result:
  shows "spi_flash (ota_stage env s) = spi_flash s" "ota_target_rom (ota_stage env s) = ota_target_rom s"
    "stages (ota_stage env s) = stages s @ [SetTempRom (ota_target_rom s)]"
    "\<not> retry_armed s \<Longrightarrow> ota_inv W roms (ota_stage env s)"
proof -
  let ?s = "ota_emit [SetTempRom (ota_target_rom s)] s"
  have f: "spi_flash (ota_fail_update e b ?s) = spi_flash s \<and> ota_target_rom (ota_fail_update e b ?s) = ota_target_rom s \<and>
      stages (ota_fail_update e b ?s) = stages s @ [SetTempRom (ota_target_rom s)]" for e b
    using fail_harmless [of ?s e b] by (simp add: harmless_def is_stage_def)
  show "spi_flash (ota_stage env s) = spi_flash s" "ota_target_rom (ota_stage env s) = ota_target_rom s"
    "stages (ota_stage env s) = stages s @ [SetTempRom (ota_target_rom s)]"
    using f by (simp_all add: ota_stage_def Let_def is_stage_def)
  show "ota_inv W roms (ota_stage env s)" if "\<not> retry_armed s"
  proof (cases "rboot_set_temp_rom env (ota_target_rom s)")
    case True
    then show ?thesis using that by (intro inv_off) (simp_all add: ota_stage_def Let_def)
  qed (simp add: ota_stage_def fail_inv)
qed

lemma finish_ok:
  assumes "rboot_ok W roms env" and "ota_inv W roms s" and "receiving s" and "ota_complete s" and "t = ota_finish env s"
  shows "ota_inv W roms t" "ota_target_rom t = ota_target_rom s"
    "same_outside (unat (roms (ota_target_rom s))) (unat (roms (ota_target_rom s)) + 0x69000) (spi_flash s) (spi_flash t)"
    "stages t = stages s \<or> stages t = stages s @ [SetTempRom (ota_target_rom s)] \<and> verified roms s (spi_flash t)"
proof -
  let ?base = "unat (roms (ota_target_rom s))"
  let ?n = "unat (ota_received_bytes s)"
  have valid: "writer_holds W roms s" and n: "ota_firmware_size s = ota_received_bytes s" "?n \<le> 0x69000"
    using assms(2-4) by (auto simp: ota_inv_def receiving_def ota_complete_def)
  then obtain pre data where w: "?n = pre + length data" "W (ota_status s) (?base + pre) data (spi_flash s)"
    "sha_wanted s \<longrightarrow> sha_holds (ota_sha_ctx s) (flash_range (spi_flash s) ?base pre @ data)" and base: "4096 dvd pre"
    unfolding writer_holds_def by auto
  obtain ok v g where f: "rboot_write_end env (ota_status s) (spi_flash s) = (ok, v, g)" by (rule prod_cases3)
  note e = rboot_ends [OF assms(1) w(2) f]
  have "sector_end (?base + pre + length data) \<le> ?base + 0x69000"
    using w(1) n(2) slot_end [OF assms(1)] by (intro sector_end_le) simp_all
  with e(1) have out: "same_outside (?base + pre) (?base + 0x69000) (spi_flash s) g" by (blast intro: same_outside_mono order_refl)
  let ?u = "(ota_cleanup_timers s)\<lparr>ota_status := v, spi_flash := g\<rparr>"
  obtain c digest where fin: "sha256_final (ota_sha_ctx s) = (c, digest)" by fastforce
  let ?v = "?u\<lparr>ota_sha_ctx := c\<rparr>"
  have t: "t = (if \<not> ok then ota_fail_update ''error_flash_write'' False ?u
      else if ota_received_bytes s < 102400 then ota_fail_update ''error_too_small'' False ?u
      else if sha_wanted s then (if \<not> digest_matches s digest then ota_fail_update ''error_checksum_mismatch'' False ?v else ota_stage env ?v)
      else ota_stage env ?u)"
    using n(1) by (simp add: assms(5) ota_finish_def Let_def f fin ota_cleanup_timers_def digest_matches_def sha_wanted_def)
  have u: "\<not> retry_armed ?u" "\<not> retry_armed ?v" by (simp_all add: ota_cleanup_timers_def)
  have stg: "stages ?u = stages s" "stages ?v = stages s" by (simp_all add: ota_cleanup_timers_def is_stage_def)
  have r: "ota_target_rom ?u = ota_target_rom s" "ota_target_rom ?v = ota_target_rom s" "spi_flash ?u = g" "spi_flash ?v = g"
    by (simp_all add: ota_cleanup_timers_def)
  show "ota_inv W roms t" unfolding t using u by (simp add: fail_inv stage_result(4))
  have tf: "spi_flash t = g \<and> ota_target_rom t = ota_target_rom s"
    unfolding t using r fail_harmless [of ?u] fail_harmless [of ?v] by (simp add: stage_result harmless_def)
  then show "ota_target_rom t = ota_target_rom s"
    "same_outside ?base (?base + 0x69000) (spi_flash s) (spi_flash t)"
    using same_outside_mono [OF out, of ?base "?base + 0x69000"] by simp_all
  have "verified roms s g" if "ok" "\<not> ota_received_bytes s < 102400" "sha_wanted s \<longrightarrow> digest_matches s digest"
  proof -
    have img: "flash_range g ?base ?n = flash_range (spi_flash s) ?base pre @ data"
      using e(2) [OF that(1)] flash_range_below [OF out, of ?base pre] flash_range_append [of g ?base pre "length data"] w(1) by simp
    have "sha_wanted s \<longrightarrow> digest = SHA256 (flash_range g ?base ?n)"
      using sha.final_hash [of "ota_sha_ctx s" "flash_range g ?base ?n"] w(3) n(2) fin by (simp add: img) (simp add: w(1) [symmetric])
    then show ?thesis
      using that(2,3) n by (auto simp: verified_def Let_def digest_matches_def word_less_nat_alt not_less split: if_splits)
  qed
  then show "stages t = stages s \<or> stages t = stages s @ [SetTempRom (ota_target_rom s)] \<and> verified roms s (spi_flash t)"
    using tf stg r fail_harmless [of ?u] fail_harmless [of ?v]
    unfolding t by (simp add: stage_result harmless_def)
qed

definition step_ok :: "'w writer \<Rightarrow> (u8 \<Rightarrow> u32) \<Rightarrow> 'w ota \<Rightarrow> 'w ota \<Rightarrow> bool" where
  "step_ok W roms s t \<longleftrightarrow> ota_inv W roms t \<and>
     same_outside (unat (roms (ota_target_rom t))) (unat (roms (ota_target_rom t)) + 0x69000) (spi_flash s) (spi_flash t) \<and>
     (stages t = stages s \<or> stages t = stages s @ [SetTempRom (ota_target_rom s)] \<and> verified roms s (spi_flash t))"

lemma in_slot_step: "in_slot roms s t \<Longrightarrow> ota_inv W roms t \<Longrightarrow> step_ok W roms s t"
  by (simp add: in_slot_def step_ok_def)

lemma harmless_step: "harmless s t \<Longrightarrow> ota_inv W roms t \<Longrightarrow> step_ok W roms s t"
  by (rule in_slot_step [OF harmless_in_slot])

lemma verified_cong:
  "ota_target_rom t = ota_target_rom s \<Longrightarrow> ota_firmware_size t = ota_firmware_size s \<Longrightarrow>
   ota_received_bytes t = ota_received_bytes s \<Longrightarrow> sha_wanted t = sha_wanted s \<Longrightarrow>
   has_sha256_check_1 t = has_sha256_check_1 s \<Longrightarrow> has_sha256_check_2 t = has_sha256_check_2 s \<Longrightarrow>
   expected_sha256_1 t = expected_sha256_1 s \<Longrightarrow> expected_sha256_2 t = expected_sha256_2 s \<Longrightarrow> verified roms t f = verified roms s f"
  by (simp add: verified_def Let_def)

lemma discon_cases:
  assumes "receiving s" and "s' = ota_emit [OtaDisarm TimeoutTimer] s" and "\<not> ota_complete s'"
    and "P (ota_trigger_reconnect FAILURE_INCOMPLETE_HTTP_RESPONSE s')"
    and "P (ota_trigger_reconnect FAILURE_TCP (s'\<lparr>ota_tcp_failure_seen := True\<rparr>))"
    and "P (ota_schedule_range_continue s')" and "P (ota_trigger_reconnect FAILURE_OTHER s')"
  shows "P (ota_tcp_discon_cb env s)"
proof -
  have "\<not> (\<not> ota_in_progress s \<or> ota_retry_pending s)" using assms(1) by (simp add: receiving_def)
  then show ?thesis
    unfolding ota_tcp_discon_cb_def Let_def assms(2) [symmetric] using assms(3-7) by (simp only: if_False split: if_split) blast
qed

lemma discon_ok:
  assumes "rboot_ok W roms env" and "ota_inv W roms s"
  shows "step_ok W roms s (ota_tcp_discon_cb env s)" "ota_target_rom (ota_tcp_discon_cb env s) = ota_target_rom s"
proof (atomize (full), cases "receiving s")
  case True
  let ?s = "ota_emit [OtaDisarm TimeoutTimer] s"
  have s: "ota_inv W roms ?s" "receiving ?s" "harmless s ?s"
    using assms(2) True by (simp_all add: receiving_def harmless_def is_stage_def)
  have v: "verified roms ?s f = verified roms s f" for f by (rule verified_cong) simp_all
  show "step_ok W roms s (ota_tcp_discon_cb env s) \<and> ota_target_rom (ota_tcp_discon_cb env s) = ota_target_rom s"
  proof (cases "ota_complete ?s")
    case c: True
    have t: "ota_tcp_discon_cb env s = ota_finish env ?s" using True c by (simp add: ota_tcp_discon_cb_def receiving_def)
    from finish_ok [OF assms(1) s(1,2) c t] s(3) v show ?thesis by (simp add: step_ok_def harmless_def)
  next
    case False
    let ?t = "ota_tcp_discon_cb env s"
    have h: "harmless s (?s\<lparr>ota_tcp_failure_seen := True\<rparr>)" by (simp add: harmless_def is_stage_def)
    have "harmless s ?t \<and> ota_inv W roms ?t"
      by (rule discon_cases [where P = "\<lambda>t. harmless s t \<and> ota_inv W roms t", OF True refl False])
        (simp_all add: trigger_after [OF s(3)] trigger_after [OF h] harmless_trans [OF s(3) continue_ok(2) [OF s(1)]]
          trigger_inv [OF s(1)] continue_ok(1) [OF s(1)] trigger_inv s(1))
    then show ?thesis using harmless_step [of s ?t W roms] by (simp add: harmless_def)
  qed
next
  case False
  then show "step_ok W roms s (ota_tcp_discon_cb env s) \<and> ota_target_rom (ota_tcp_discon_cb env s) = ota_target_rom s"
    using assms(2) harmless_step [OF harmless_refl assms(2)] by (auto simp: ota_tcp_discon_cb_def receiving_def)
qed

section \<open>The start, and all steps\<close>

text \<open>The slot that runs, and the one an update goes to.\<close>

definition running_rom :: "'w ota_env \<Rightarrow> u8" where
  "running_rom env = (case rboot_last_boot_rom env of Some r \<Rightarrow> r | None \<Rightarrow> rboot_current_rom env)"

definition other_rom :: "u8 \<Rightarrow> u8" where
  "other_rom r = (if r = 0 then 1 else 0)"

lemma choose_target_other: "choose_target env = other_rom (running_rom env)"
  by (simp add: choose_target_def running_rom_def other_rom_def)

definition quiet :: "'w ota \<Rightarrow> 'w ota \<Rightarrow> bool" where
  "quiet s t \<longleftrightarrow> spi_flash t = spi_flash s \<and> stages t = stages s"

lemma harmless_quiet: "harmless s t \<Longrightarrow> quiet s t" and quiet_trans: "quiet s t \<Longrightarrow> quiet t u \<Longrightarrow> quiet s u"
  by (simp_all add: harmless_def quiet_def)

lemma reset_ok: "quiet s (ota_reset c s)" "ota_inv W roms (ota_reset c s)"
  by (simp_all add: ota_reset_def Let_def quiet_def is_stage_def clear_response_def ota_cleanup_timers_def ota_inv_def retry_armed_def)

text \<open>An update that has not received anything.\<close>

definition fresh :: "'w ota \<Rightarrow> bool" where
  "fresh s \<longleftrightarrow> ota_in_progress s \<and> ota_received_bytes s = 0 \<and> \<not> is_valid_binary s \<and> \<not> ota_continue_pending s \<and>
     \<not> ota_firmware_size_known s \<and> \<not> retry_armed s"

lemma fresh_inv: "fresh s \<Longrightarrow> ota_inv W roms s"
  by (simp add: fresh_def ota_inv_def)

lemma reset_fresh: "fresh (ota_emit [OtaArm ProgressTimer n] (ota_reset c s))"
  by (simp add: fresh_def ota_reset_def Let_def clear_response_def ota_cleanup_timers_def)

lemma digests_fresh: "parse_digests h1 h2 s = (ok, t) \<Longrightarrow> fresh s \<Longrightarrow> fresh t \<and> quiet s t"
  by (auto simp: parse_digests_def Let_def fresh_def quiet_def retry_armed_def split: prod.splits if_splits)

lemma authority_fresh: "parse_authority a s = (ok, t) \<Longrightarrow> fresh s \<Longrightarrow> fresh t \<and> quiet s t \<and> ota_target_rom t = ota_target_rom s"
  by (auto simp: parse_authority_def Let_def fresh_def quiet_def retry_armed_def split: option.splits if_splits)

lemma url_fresh: "parse_url u s = (ok, t) \<Longrightarrow> fresh s \<Longrightarrow> fresh t \<and> quiet s t \<and> ota_target_rom t = ota_target_rom s"
  unfolding parse_url_def
  by (auto simp: fresh_def quiet_def retry_armed_def split: option.splits if_splits prod.splits bool.splits dest!: authority_fresh)

lemma start_ok:
  assumes "t = snd (snd (start_ota_update env c url h1 h2 s))"
  shows "quiet s t \<and> ota_inv W roms t \<and> (ota_in_progress t \<longrightarrow> ota_target_rom t = choose_target env)"
proof -
  let ?r = "ota_emit [OtaArm ProgressTimer 10000] (ota_reset c s)"
  have r: "quiet s ?r" using reset_ok(1) [of s c] by (simp add: quiet_def is_stage_def)
  have failed: "quiet s (ota_fail_update e b u) \<and> ota_inv W roms (ota_fail_update e b u) \<and> \<not> ota_in_progress (ota_fail_update e b u)"
    if "quiet s u" for e b u
    using quiet_trans [OF that harmless_quiet [OF fail_harmless]] by (simp add: fail_inv) (simp add: ota_fail_update_def Let_def)
  obtain ok u where d: "parse_digests h1 h2 ?r = (ok, u)" by fastforce
  from digests_fresh [OF d reset_fresh] r have u: "fresh u" "quiet s u" by (auto intro: quiet_trans)
  let ?c = "if sha_wanted u then u\<lparr>ota_sha_ctx := sha256_init (ota_sha_ctx u)\<rparr> else u"
  let ?v = "?c\<lparr>ota_target_rom := choose_target env\<rparr>"
  have v: "fresh ?v" "quiet s ?v" using u by (simp_all add: fresh_def quiet_def)
  show ?thesis
  proof (cases ok)
    case False
    then show ?thesis using d failed [OF u(2)] by (simp add: assms start_ota_update_def Let_def)
  next
    case True
    obtain ok' w where p: "(case url of None \<Rightarrow> (False, ?v) | Some url \<Rightarrow> parse_url url ?v) = (ok', w)" by fastforce
    then have w: "fresh w" "quiet s w" "ota_target_rom w = choose_target env"
      using v url_fresh [OF _ v(1)] quiet_trans [OF v(2)] by (auto split: option.splits)
    have t: "t = (if ok' then ota_lookup env w else ota_fail_update ''error_invalid_url'' False w)"
      using d True p by (simp add: assms start_ota_update_def Let_def split: bool.splits)
    have "ota_inv W roms (ota_lookup env w)" using w(1) by (intro lookup_inv fresh_inv)
    moreover have "quiet s (ota_lookup env w)" "ota_target_rom (ota_lookup env w) = choose_target env"
      using w(2,3) lookup_harmless [of w env] quiet_trans [OF w(2) harmless_quiet [OF lookup_harmless]] by (simp_all add: harmless_def)
    ultimately show ?thesis using failed [OF w(2)] by (simp add: t)
  qed
qed

lemma idle_step:
  assumes "\<not> ota_in_progress s" and "\<And>c u h1 h2. i \<noteq> StartOta c u h1 h2"
  shows "\<not> ota_in_progress (ota_step env i s)" "spi_flash (ota_step env i s) = spi_flash s" "stages (ota_step env i s) = stages s"
  using assms
  by (cases i; simp add: ota_progress_timer_cb_def ota_timeout_timer_cb_def ota_retry_timer_cb_def ota_dns_found_cb_def
      ota_tcp_connect_cb_def ota_tcp_recv_cb_def ota_tcp_recon_cb_def ota_tcp_discon_cb_def is_stage_def)+

definition ota_ok :: "'w writer \<Rightarrow> (u8 \<Rightarrow> u32) \<Rightarrow> u8 \<Rightarrow> 'w ota \<Rightarrow> bool" where
  "ota_ok W roms run s \<longleftrightarrow> ota_inv W roms s \<and> (ota_in_progress s \<longrightarrow> ota_target_rom s = other_rom run)"

lemma step_other:
  assumes "rboot_ok W roms env" and "ota_inv W roms s" and "input_ok i s" and "\<And>c u h1 h2. i \<noteq> StartOta c u h1 h2"
  shows "step_ok W roms s (ota_step env i s)" "ota_target_rom (ota_step env i s) = ota_target_rom s"
proof -
  let ?t = "ota_step env i s"
  have h: "step_ok W roms s u \<and> ota_target_rom u = ota_target_rom s" if "harmless s u" "ota_inv W roms u" for u
    using harmless_step [OF that] that(1) by (simp add: harmless_def)
  have fired: "ota_inv W roms (ota_retry_timer_cb env (ota_emit [OtaFired RetryTimer] s)) \<and>
      harmless s (ota_retry_timer_cb env (ota_emit [OtaFired RetryTimer] s))" if "i = RetryTimerFires"
  proof -
    have pend: "ota_retry_pending s" using assms(2,3) that by (simp add: input_ok_def ota_inv_def)
    then have "ota_inv W roms (ota_emit [OtaFired RetryTimer] s)"
      using assms(2) same_core_emit [of "[]" s] by (simp add: ota_inv_def)
    then have "ota_inv W roms (ota_retry_timer_cb env (ota_emit [OtaFired RetryTimer] s))"
      using pend by (intro retry_ok) simp_all
    moreover have "harmless s (ota_emit [OtaFired RetryTimer] s)" by (simp add: harmless_def is_stage_def)
    ultimately show ?thesis using harmless_trans [OF _ retry_harmless] by blast
  qed
  let ?f = "ota_emit [OtaFired TimeoutTimer] s"
  have timer: "ota_inv W roms (ota_timeout_timer_cb ?f)" "harmless s (ota_timeout_timer_cb ?f)"
    using timeout_ok [of W roms ?f] assms(2) harmless_trans [of s ?f] by (simp_all add: harmless_def is_stage_def)
  have "step_ok W roms s ?t \<and> ota_target_rom ?t = ota_target_rom s"
  proof (cases i)
    case (TcpReceived d)
    then have "length d < 2 ^ 16" using assms(3) by (simp add: input_ok_def)
    from recv_ok [OF assms(1,2) this] TcpReceived show ?thesis using in_slot_step by (auto simp: in_slot_def)
  next
    case TcpDisconnected
    then show ?thesis using discon_ok [OF assms(1,2)] by simp
  qed (use assms(2,4) fired timer in \<open>auto intro!: h progress_ok recon_ok dns_found_inv dns_found_harmless connect_inv connect_harmless\<close>)
  then show "step_ok W roms s ?t" "ota_target_rom ?t = ota_target_rom s" by simp_all
qed

lemma step_ota_ok:
  assumes "rboot_ok W roms env" and "running_rom env = run" and "input_ok i s" and "ota_ok W roms run s"
  shows "ota_ok W roms run (ota_step env i s)"
    "same_outside (unat (roms (other_rom run))) (unat (roms (other_rom run)) + 0x69000) (spi_flash s) (spi_flash (ota_step env i s))"
    "stages (ota_step env i s) = stages s \<or>
     stages (ota_step env i s) = stages s @ [SetTempRom (other_rom run)] \<and> verified roms s (spi_flash (ota_step env i s))"
proof (atomize (full), cases "\<exists>c u h1 h2. i = StartOta c u h1 h2")
  case True
  then obtain c u h1 h2 where "i = StartOta c u h1 h2" by blast
  with start_ok [OF refl, of s env c u h1 h2 W roms] assms(2) show "ota_ok W roms run (ota_step env i s) \<and>
    same_outside (unat (roms (other_rom run))) (unat (roms (other_rom run)) + 0x69000) (spi_flash s) (spi_flash (ota_step env i s)) \<and>
    (stages (ota_step env i s) = stages s \<or> stages (ota_step env i s) = stages s @ [SetTempRom (other_rom run)] \<and>
     verified roms s (spi_flash (ota_step env i s)))"
    by (simp add: ota_ok_def quiet_def same_outside_refl choose_target_other)
next
  case False
  then have no: "i \<noteq> StartOta c u h1 h2" for c u h1 h2 by blast
  have inv: "ota_inv W roms s" using assms(4) by (simp add: ota_ok_def)
  note o = step_other [OF assms(1) inv assms(3) no]
  show "ota_ok W roms run (ota_step env i s) \<and>
    same_outside (unat (roms (other_rom run))) (unat (roms (other_rom run)) + 0x69000) (spi_flash s) (spi_flash (ota_step env i s)) \<and>
    (stages (ota_step env i s) = stages s \<or> stages (ota_step env i s) = stages s @ [SetTempRom (other_rom run)] \<and>
     verified roms s (spi_flash (ota_step env i s)))"
  proof (cases "ota_in_progress s")
    case True
    then show ?thesis using o assms(4) by (auto simp: ota_ok_def step_ok_def)
  next
    case False
    then show ?thesis using o(1) idle_step [OF False no, of env] by (simp add: ota_ok_def step_ok_def same_outside_refl)
  qed
qed

end
