(* ===== verification/OtaProps.thy ===== *)
theory OtaProps
  imports OtaInv
begin

text \<open>
  The reachable states of a firmware update and what holds in them: only the slot that does not run is
  written, only an image whose digest fits is staged, and an update never waits for nothing.
\<close>

section \<open>Reachable states\<close>

text \<open>The states a device that runs from \<open>run\<close> reaches from one where no update is on its way.\<close>

inductive ota_reach :: "'w writer \<Rightarrow> (u8 \<Rightarrow> u32) \<Rightarrow> u8 \<Rightarrow> 'w ota \<Rightarrow> 'w ota \<Rightarrow> bool"
  for W roms run s0 where
  idle: "\<not> ota_in_progress s0 \<Longrightarrow> \<not> retry_armed s0 \<Longrightarrow> \<not> timeout_armed s0 \<Longrightarrow> ota_reach W roms run s0 s0"
| step: "ota_reach W roms run s0 s \<Longrightarrow> rboot_ok W roms env \<Longrightarrow> running_rom env = run \<Longrightarrow> input_ok i s \<Longrightarrow>
    ota_reach W roms run s0 (ota_step env i s)"

lemma reach_ok: "ota_reach W roms run s0 s \<Longrightarrow> ota_ok W roms run s"
proof (induction rule: ota_reach.induct)
  case idle
  then show ?case by (simp add: ota_ok_def ota_inv_def)
qed (rule step_ota_ok(1))

lemma reach_flash:
  "ota_reach W roms run s0 s \<Longrightarrow>
   same_outside (unat (roms (other_rom run))) (unat (roms (other_rom run)) + 0x69000) (spi_flash s0) (spi_flash s) \<and>
   (\<exists>n. stages s = stages s0 @ replicate n (SetTempRom (other_rom run)))"
proof (induction rule: ota_reach.induct)
  case idle
  then show ?case by (auto simp: same_outside_refl intro: exI [of _ 0])
next
  case (step s env i)
  note s = step_ota_ok(2,3) [OF step.hyps(2-4) reach_ok [OF step.hyps(1)]]
  from step.IH obtain n where n: "stages s = stages s0 @ replicate n (SetTempRom (other_rom run))" by blast
  then have more: "stages s @ [SetTempRom (other_rom run)] = stages s0 @ replicate (Suc n) (SetTempRom (other_rom run))"
    by (simp add: replicate_append_same)
  from s(2) have "\<exists>n. stages (ota_step env i s) = stages s0 @ replicate n (SetTempRom (other_rom run))"
  proof
    assume "stages (ota_step env i s) = stages s"
    then show ?thesis using n by (intro exI [of _ n]) simp
  next
    assume "stages (ota_step env i s) = stages s @ [SetTempRom (other_rom run)] \<and> verified roms s (spi_flash (ota_step env i s))"
    then show ?thesis using more by (intro exI [of _ "Suc n"]) simp
  qed
  then show ?case using step.IH s(1) by (blast intro: same_outside_trans)
qed

lemma staged_in_progress:
  assumes "ota_reach W roms run s0 s" and "rboot_ok W roms env" and "running_rom env = run" and "input_ok i s"
    and "stages (ota_step env i s) \<noteq> stages s"
  shows "ota_target_rom s = other_rom run"
proof -
  have ok: "ota_ok W roms run s" by (rule reach_ok [OF assms(1)])
  have "ota_in_progress s"
  proof (rule ccontr)
    assume off: "\<not> ota_in_progress s"
    show False
    proof (cases "\<exists>c u h1 h2. i = StartOta c u h1 h2")
      case True
      then obtain c u h1 h2 where "i = StartOta c u h1 h2" by blast
      with start_ok [OF refl, of s env c u h1 h2 W roms] assms(5) show ?thesis by (simp add: quiet_def)
    next
      case False
      then show ?thesis using idle_step [OF off, of i env] assms(5) by auto
    qed
  qed
  then show ?thesis using ok by (simp add: ota_ok_def)
qed

text \<open>
  C3: A slot is staged for boot only at the end of a transfer, only the slot that does not run, and only when
  as many bytes have arrived as the server announced, between 100 KiB and the size of a slot. When the request
  gave a digest, for whichever slot, it gave one for this slot and the flash holds an image there whose SHA-256
  it is; however the transfer was cut, resumed and retried before, and whatever the server sent. A request
  without digests is staged on its size alone.
\<close>

theorem ota_stages_verified_image:
  assumes "ota_reach W roms run s0 s" and "rboot_ok W roms env" and "running_rom env = run" and "input_ok i s"
    and "t = ota_step env i s" and "stages t \<noteq> stages s" and "n = unat (ota_firmware_size s)"
  shows "stages t = stages s @ [SetTempRom (other_rom run)] \<and>
    ota_received_bytes s = ota_firmware_size s \<and> 102400 \<le> n \<and> n \<le> 0x69000 \<and>
    (has_sha256_check_1 s \<or> has_sha256_check_2 s \<longrightarrow>
       SHA256 (flash_range (spi_flash t) (unat (roms (other_rom run))) n) =
         (if other_rom run = 0 then expected_sha256_1 s else expected_sha256_2 s) \<and>
       (if other_rom run = 0 then has_sha256_check_1 s else has_sha256_check_2 s))"
proof -
  have "stages t = stages s @ [SetTempRom (other_rom run)] \<and> verified roms s (spi_flash t)"
    using step_ota_ok(3) [OF assms(2-4) reach_ok [OF assms(1)]] assms(5,6) by blast
  moreover have "ota_target_rom s = other_rom run"
    using staged_in_progress [OF assms(1-4)] assms(5,6) by blast
  ultimately show ?thesis by (auto simp: verified_def sha_wanted_def assms(7) Let_def)
qed

text \<open>
  C6: No update, complete or broken, changes a byte of the slot the device runs from, or stages that slot.
\<close>

theorem ota_spares_running_firmware:
  assumes "ota_reach W roms run s0 s"
    and "unat (roms run) + 0x69000 \<le> unat (roms (other_rom run)) \<or> unat (roms (other_rom run)) + 0x69000 \<le> unat (roms run)"
  shows "flash_range (spi_flash s) (unat (roms run)) 0x69000 = flash_range (spi_flash s0) (unat (roms run)) 0x69000 \<and>
    count_list (ota_out s) (SetTempRom run) = count_list (ota_out s0) (SetTempRom run)"
proof
  note f = reach_flash [OF assms(1)]
  show "flash_range (spi_flash s) (unat (roms run)) 0x69000 = flash_range (spi_flash s0) (unat (roms run)) 0x69000"
    using f assms(2) by (auto simp: flash_range_def same_outside_def)
  have c: "count_list es (SetTempRom run) = count_list (filter is_stage es) (SetTempRom run)" for es
    by (induction es) (auto simp: is_stage_def)
  have "other_rom run \<noteq> run" by (simp add: other_rom_def)
  then show "count_list (ota_out s) (SetTempRom run) = count_list (ota_out s0) (SetTempRom run)"
    using f c [of "ota_out s"] c [of "ota_out s0"] by (auto simp: count_list_0_iff)
qed

section \<open>An update never waits for nothing\<close>

definition live :: "'w ota \<Rightarrow> bool" where
  "live s \<longleftrightarrow> (ota_in_progress s \<longrightarrow> (if ota_retry_pending s then retry_armed s else timeout_armed s))"

lemma timeout_fields [simp]:
  "timeout_armed (ota_emit es s) = foldl (armed_by TimeoutTimer) (timeout_armed s) es" "timeout_armed (ota_report m s) = timeout_armed s"
  "timeout_armed (fold ota_report ms s) = timeout_armed s" "timeout_armed (failure_seen r s) = timeout_armed s"
proof -
  have r: "timeout_armed (ota_report m s) = timeout_armed s" for m and s :: "'w ota"
    by (simp add: ota_report_def timeout_armed_def)
  then show "timeout_armed (ota_report m s) = timeout_armed s" .
  show "timeout_armed (fold ota_report ms s) = timeout_armed s" by (induction ms arbitrary: s) (simp_all add: r)
qed (cases r; simp add: failure_seen_def timeout_armed_def)+

lemma timeout_updates [simp]:
  "timeout_armed (ota_in_progress_update f0 s) = timeout_armed s" "timeout_armed (ota_retry_pending_update f1 s) = timeout_armed s"
  "timeout_armed (ota_continue_pending_update f2 s) = timeout_armed s" "timeout_armed (ota_dns_pending_update f3 s) = timeout_armed s"
  "timeout_armed (is_valid_binary_update f4 s) = timeout_armed s" "timeout_armed (headers_parsed_update f5 s) = timeout_armed s"
  "timeout_armed (ota_tcp_failure_seen_update f6 s) = timeout_armed s" "timeout_armed (ota_received_bytes_update f7 s) = timeout_armed s"
  "timeout_armed (ota_retry_count_update f8 s) = timeout_armed s" "timeout_armed (ota_header_buffer_update f9 s) = timeout_armed s"
  "timeout_armed (ota_remote_ip_update f10 s) = timeout_armed s" "timeout_armed (ota_remote_port_update f11 s) = timeout_armed s"
  "timeout_armed (ota_request_offset_update f12 s) = timeout_armed s" "timeout_armed (ota_last_reported_progress_update f13 s) = timeout_armed s"
  by (simp_all add: timeout_armed_def)

lemma trigger_live: "receiving s \<or> live s \<Longrightarrow> live (ota_trigger_reconnect r s)"
  by (auto simp: live_def receiving_def ota_trigger_reconnect_def Let_def ota_cleanup_timers_def)

lemma fail_live: "live (ota_fail_update e b s)"
  by (simp add: live_def ota_fail_update_def Let_def)

lemma live_emit [simp]:
  "(\<And>t a. foldl (armed_by t) a es = a) \<Longrightarrow> live (ota_emit es s) = live s"
  by (simp add: live_def)

lemma live_updates [simp]:
  "live (ota_dns_pending_update f0 s) = live s" "live (ota_continue_pending_update f1 s) = live s"
  "live (is_valid_binary_update f2 s) = live s" "live (headers_parsed_update f3 s) = live s"
  "live (ota_tcp_failure_seen_update f4 s) = live s" "live (ota_header_buffer_update f5 s) = live s"
  "live (ota_remote_ip_update f6 s) = live s" "live (ota_remote_port_update f7 s) = live s"
  "live (ota_request_offset_update f8 s) = live s" "live (ota_last_reported_progress_update f9 s) = live s"
  by (simp_all add: live_def retry_armed_def)

lemma clear_fields [simp]:
  "live (clear_response s) = live s" "ota_in_progress (clear_response s) = ota_in_progress s"
  "ota_retry_pending (clear_response s) = ota_retry_pending s" "timeout_armed (clear_response s) = timeout_armed s"
  by (simp_all add: clear_response_def live_def retry_armed_def timeout_armed_def)

lemma dns_found_live: "live s \<Longrightarrow> live (ota_dns_found_cb env ip s)"
  by (cases "receiving s") (simp_all add: ota_dns_found_cb_def Let_def receiving_def trigger_live split: option.split)

lemma lookup_live: "ota_in_progress s \<Longrightarrow> \<not> ota_retry_pending s \<Longrightarrow> live (ota_lookup env s)"
proof -
  assume s: "ota_in_progress s" "\<not> ota_retry_pending s"
  then have l: "live (ota_emit es (ota_emit [OtaDisarm TimeoutTimer, OtaArm TimeoutTimer 15000] (s\<lparr>ota_remote_ip := a, ota_remote_port := b\<rparr>)\<lparr>ota_dns_pending := True\<rparr>))"
    if "es = [DnsGetHostByName h]" for es a b h using that by (simp add: live_def)
  show ?thesis
    using s by (simp add: ota_lookup_def Let_def dns_found_live [OF l [OF refl]] l [OF refl] trigger_live receiving_def split: ota_dns_result.split)
qed

lemma connect_live: "live s \<Longrightarrow> live (ota_tcp_connect_cb env s)"
  by (cases "receiving s") (simp_all add: ota_tcp_connect_cb_def Let_def receiving_def trigger_live)

lemma recon_live: "live s \<Longrightarrow> live (ota_tcp_recon_cb s)"
  by (cases "receiving s") (simp_all add: ota_tcp_recon_cb_def Let_def receiving_def trigger_live)

lemma timeout_live: "live s \<Longrightarrow> live (ota_timeout_timer_cb (ota_emit [OtaFired TimeoutTimer] s))"
  by (cases "receiving s") (simp_all add: ota_timeout_timer_cb_def Let_def receiving_def trigger_live, auto simp: live_def)

lemma retry_live: "live (ota_retry_timer_cb env s)"
  by (cases "ota_in_progress s") (simp_all add: ota_retry_timer_cb_def Let_def lookup_live, simp add: live_def)

lemma progress_live: "live s \<Longrightarrow> live (ota_progress_timer_cb s)"
  by (simp add: ota_progress_timer_cb_def Let_def) (simp add: ota_report_def)

lemma finish_live: "live (ota_finish env s)"
proof -
  have "live (ota_stage env u)" for u
    by (simp add: ota_stage_def Let_def fail_live) (simp add: live_def)
  then show ?thesis by (simp add: ota_finish_def Let_def fail_live split: prod.split)
qed

lemma discon_live: "live s \<Longrightarrow> live (ota_tcp_discon_cb env s)"
proof (cases "receiving s")
  case True
  let ?s = "ota_emit [OtaDisarm TimeoutTimer] s"
  show "live (ota_tcp_discon_cb env s)"
  proof (cases "ota_complete ?s")
    case False
    have r: "receiving ?s" "receiving (?s\<lparr>ota_tcp_failure_seen := True\<rparr>)" using True by (simp_all add: receiving_def)
    then have "live (ota_schedule_range_continue ?s)"
      by (simp add: ota_schedule_range_continue_def receiving_def Let_def) (simp add: live_def)
    then show ?thesis
      using r by (intro discon_cases [where P = live, OF True refl False]) (simp_all only: trigger_live simp_thms)
  qed (use True in \<open>simp add: ota_tcp_discon_cb_def receiving_def finish_live\<close>)
qed (auto simp: ota_tcp_discon_cb_def receiving_def)

lemma calm_live: "calm s t \<Longrightarrow> live t = live s"
  by (simp add: calm_def live_def retry_armed_def timeout_armed_def)

lemma recv_live:
  assumes "rboot_ok W roms env" and "ota_inv W roms s" and "length d < 2 ^ 16" and "live s"
  shows "live (ota_tcp_recv_cb env d s)"
proof (cases "receiving s")
  case True
  let ?s = "ota_emit [OtaDisarm TimeoutTimer, OtaArm TimeoutTimer 15000] s"
  obtain e t where r: "ota_receive env d ?s = (e, t)" by fastforce
  have "received W roms ?s (e, t)"
    using receive_received [OF assms(1), of ?s d] assms(2,3) True r by (simp add: receiving_def)
  then have "live t = live ?s" by (simp add: received_def calm_live)
  moreover have "live ?s" using True by (simp add: live_def receiving_def)
  ultimately show ?thesis using True r by (simp add: ota_tcp_recv_cb_def receiving_def fail_live split: option.split)
qed (use assms(4) in \<open>auto simp: ota_tcp_recv_cb_def receiving_def\<close>)

lemma start_live: "live (snd (snd (start_ota_update env c url h1 h2 s)))"
proof -
  let ?r = "ota_emit [OtaArm ProgressTimer 10000] (ota_reset c s)"
  have keep: "ota_in_progress u \<and> \<not> ota_retry_pending u" if "parse_digests h1 h2 ?r = (ok, u)" for ok u
    using that by (auto simp: parse_digests_def Let_def ota_reset_def ota_cleanup_timers_def clear_response_def split: prod.splits if_splits)
  have authority: "ota_in_progress t = ota_in_progress s \<and> ota_retry_pending t = ota_retry_pending s"
    if "parse_authority a s = (ok, t)" for a ok and s t :: "'a ota"
    using that by (auto simp: parse_authority_def Let_def split: option.splits if_splits)
  have url: "ota_in_progress t = ota_in_progress s \<and> ota_retry_pending t = ota_retry_pending s"
    if "parse_url a s = (ok, t)" for a ok and s t :: "'a ota"
    using that unfolding parse_url_def by (auto split: option.splits if_splits prod.splits bool.splits dest!: authority)
  show ?thesis
    unfolding start_ota_update_def Let_def
    by (auto simp: fail_live split: prod.split bool.split option.split if_splits dest!: keep url intro!: lookup_live)
qed

lemma step_live:
  assumes "rboot_ok W roms env" and "ota_inv W roms s" and "input_ok i s" and "live s"
  shows "live (ota_step env i s)"
  using assms(4) recv_live [OF assms(1,2) _ assms(4)] assms(3)
  by (cases i) (simp_all add: start_live progress_live timeout_live retry_live dns_found_live connect_live recon_live
      discon_live input_ok_def)

text \<open>The timer that is due, when nobody answers: at most twelve such steps remain.\<close>

definition silent :: "'w ota_env \<Rightarrow> 'w ota \<Rightarrow> 'w ota" where
  "silent env s = ota_step env (if ota_retry_pending s then RetryTimerFires else TimeoutTimerFires) s"

definition steps_left :: "'w ota \<Rightarrow> nat" where
  "steps_left s = (if ota_in_progress s then 2 * (5 - unat (ota_retry_count s)) + (if ota_retry_pending s then 2 else 1) else 0)"

lemma trigger_steps_left:
  assumes "receiving s"
  shows "steps_left (ota_trigger_reconnect r s) < steps_left s"
proof -
  let ?s = "(failure_seen r ((ota_emit [OtaDisarm TimeoutTimer] s)\<lparr>ota_dns_pending := False, ota_continue_pending := False\<rparr>))
    \<lparr>ota_retry_count := ota_retry_count s + 1, ota_retry_pending := True, ota_received_bytes := ota_received_bytes s AND NOT 4095\<rparr>"
  show ?thesis
  proof (cases "ota_retry_count s < 5")
    case True
    then have "unat (ota_retry_count s + 1) = unat (ota_retry_count s) + 1" "unat (ota_retry_count s) < 5"
      by (simp_all add: word_less_nat_alt unat_word_ariths)
    moreover have "ota_retry_count (ota_report m t) = ota_retry_count t" for m and t :: "'a ota" by (simp add: ota_report_def)
    ultimately show ?thesis
      using assms True by (simp add: steps_left_def receiving_def ota_trigger_reconnect_def Let_def)
  next
    case False
    then show ?thesis using assms by (simp add: steps_left_def receiving_def ota_trigger_reconnect_def Let_def)
  qed
qed

lemma silent_steps_left:
  assumes "dns_answer env = OtaDnsInProgress" and "ota_in_progress s"
  shows "steps_left (silent env s) < steps_left s"
proof (cases "ota_retry_pending s")
  case True
  then show ?thesis
    using assms by (simp add: silent_def steps_left_def ota_retry_timer_cb_def Let_def ota_lookup_def clear_response_def)
next
  case False
  let ?f = "ota_emit [OtaFired TimeoutTimer] s"
  let ?s = "ota_emit [OtaDisarm TimeoutTimer] (?f\<lparr>ota_dns_pending := False\<rparr>)"
  have "receiving ?s" "receiving (?s\<lparr>ota_tcp_failure_seen := True\<rparr>)" using False assms(2) by (simp_all add: receiving_def)
  moreover have "steps_left ?s = steps_left s" "steps_left (?s\<lparr>ota_tcp_failure_seen := True\<rparr>) = steps_left s"
    by (simp_all add: steps_left_def)
  ultimately have "steps_left (ota_trigger_reconnect r ?s) < steps_left s"
    "steps_left (ota_trigger_reconnect r (?s\<lparr>ota_tcp_failure_seen := True\<rparr>)) < steps_left s" for r
    using trigger_steps_left [of ?s r] trigger_steps_left [of "?s\<lparr>ota_tcp_failure_seen := True\<rparr>" r] by (simp_all only:)
  moreover have "steps_left (ota_emit es t) = steps_left t" for es and t :: "'a ota" by (simp add: steps_left_def)
  ultimately show ?thesis using False assms(2) by (simp add: silent_def ota_timeout_timer_cb_def Let_def)
qed

lemma silent_ends:
  assumes "dns_answer env = OtaDnsInProgress"
  shows "steps_left s \<le> n \<Longrightarrow> \<not> ota_in_progress ((silent env ^^ n) s)"
proof (induction n arbitrary: s)
  case 0
  then show ?case by (auto simp: steps_left_def split: if_splits)
next
  case (Suc n)
  show ?case
  proof (cases "ota_in_progress s")
    case True
    then show ?thesis using Suc.IH [of "silent env s"] Suc.prems silent_steps_left [OF assms True] by (simp add: funpow_swap1)
  next
    case False
    then have "\<not> ota_in_progress (silent env s)" by (simp add: silent_def idle_step)
    then show ?thesis using Suc.IH [of "silent env s"] by (simp add: funpow_swap1 steps_left_def)
  qed
qed

text \<open>
  C10: An update always comes to an end. As long as it is in progress a timer is armed that takes it on: the
  retry timer while a retry is due, else the timeout; and when server, network and resolver stay silent,
  these timers give the update up after twelve firings at most, whatever happened before.
\<close>

theorem ota_never_stalls:
  assumes "ota_reach W roms run s0 s" and "ota_in_progress s" and "dns_answer env = OtaDnsInProgress"
  shows "(if ota_retry_pending s then retry_armed s else timeout_armed s) \<and> \<not> ota_in_progress ((silent env ^^ 12) s)"
proof -
  have "live s" using assms(1)
  proof (induction rule: ota_reach.induct)
    case (step s env i)
    then show ?case using step_live reach_ok [OF step.hyps(1)] by (auto simp: ota_ok_def)
  qed (simp add: live_def)
  moreover have "2 * (5 - unat (ota_retry_count s)) \<le> 10" by linarith
  then have "steps_left s \<le> 12" unfolding steps_left_def by (cases "ota_in_progress s"; cases "ota_retry_pending s"; simp)
  ultimately show ?thesis using assms(2) silent_ends [OF assms(3)] by (simp add: live_def)
qed

section \<open>A download as an example\<close>

text \<open>
  A flash that is written directly, in the slots of the firmware's linker scripts; the device runs from
  slot 0. The image has 102400 bytes and comes in two packets after the header; the request gives its
  digest for slot 1.
\<close>

definition mem_put :: "(nat \<Rightarrow> u8) \<Rightarrow> nat \<Rightarrow> bytes \<Rightarrow> nat \<Rightarrow> u8" where
  "mem_put f a d = (\<lambda>x. if a \<le> x \<and> x < a + length d then d ! (x - a) else f x)"

definition sample_slots :: "u8 \<Rightarrow> u32" where
  "sample_slots r = (if r = 0 then 0x2000 else 0x82000)"

definition sample_ota_env :: "(nat \<times> nat) ota_env" where
  "sample_ota_env =
     \<lparr>rboot_rom_addr = sample_slots, rboot_last_boot_rom = Some 0, rboot_current_rom = 0,
      spi_erase_sector = \<lambda>k f. (True, \<lambda>x. if x div 4096 = k then 0xFF else f x),
      spi_read = \<lambda>a n f. Some (flash_range f a n), rboot_write_init = \<lambda>a. (a, 0),
      rboot_write_flash = \<lambda>w d f. (True, (fst w, snd w + length d), mem_put f (fst w + snd w) d),
      rboot_write_end = \<lambda>w f. (True, w, f), rboot_set_temp_rom = \<lambda>r. True,
      dns_answer = OtaDnsOk 1, connect_ok = True, send_ok = True\<rparr>"

definition sample_writer :: "(nat \<times> nat) writer" where
  "sample_writer w start data f \<longleftrightarrow> w = (start, length data) \<and> flash_range f start (length data) = data"

lemma sector_end_ge: "a \<le> sector_end a"
  unfolding sector_end_def using div_mult_mod_eq [of "a + 4095" 4096] mod_less_divisor [of 4096 "a + 4095"] by linarith

lemma mem_put_outside: "same_outside a (a + length d) f (mem_put f a d)"
  by (simp add: same_outside_def mem_put_def)

lemma mem_put_range: "flash_range (mem_put f a d) a (length d) = d"
  by (rule nth_equalityI) (simp_all add: flash_range_def mem_put_def)

lemma sample_rboot_ok: "rboot_ok sample_writer sample_slots sample_ota_env"
proof -
  have "slots_ok sample_slots" by (simp add: slots_ok_def sample_slots_def)
  moreover have "driver_ok sample_ota_env" by (auto simp: driver_ok_def sample_ota_env_def same_outside_def)
  moreover have "begins_ok sample_writer sample_ota_env"
    by (simp add: begins_ok_def sample_ota_env_def sample_writer_def flash_range_def)
  moreover have "writes_ok sample_writer sample_ota_env"
  proof -
    have "same_outside start (sector_end (start + length data + length d)) f (mem_put f (start + length data) d) \<and>
        flash_range (mem_put f (start + length data) d) start (length data + length d) = data @ d"
      if "flash_range f start (length data) = data" for start data d f
      using same_outside_mono [OF mem_put_outside [of "start + length data" d f], of start] sector_end_ge
        flash_range_below [OF mem_put_outside [of "start + length data" d f], of start "length data"] that
        mem_put_range [of f "start + length data" d]
      by (simp flip: flash_range_append)
    then show ?thesis by (auto simp: writes_ok_def sample_writer_def sample_ota_env_def)
  qed
  moreover have "ends_ok sample_writer sample_ota_env"
    by (auto simp: ends_ok_def sample_writer_def sample_ota_env_def same_outside_refl)
  ultimately show ?thesis by (simp add: rboot_ok_def sample_ota_env_def)
qed

definition sample_ota :: "(nat \<times> nat) ota" where
  "sample_ota =
     \<lparr>ota_out = [], spi_flash = (\<lambda>x. 0xFF), ota_in_progress = False, ota_mqtt_client = False, ota_remote_ip = 0, ota_remote_port = 0,
      ota_status = (0, 0), ota_target_rom = 0, ota_target_base_addr = 0, headers_parsed = False, is_valid_binary = False,
      ota_firmware_size = 0, ota_firmware_size_known = False, ota_response_length = 0, ota_response_received_bytes = 0,
      ota_response_length_known = False, ota_response_status_code = 0, ota_response_range_end = 0, ota_response_range_total = 0,
      ota_response_range_valid = False, ota_received_bytes = 0, ota_request_offset = 0, ota_retry_count = 0, ota_retry_pending = False,
      ota_continue_pending = False, ota_dns_pending = False, ota_incomplete_http_response_seen = False, ota_dns_failure_seen = False,
      ota_tcp_failure_seen = False, ota_other_failure_seen = False, ota_last_reported_progress = 0, ota_header_buffer = [],
      ota_host = [], ota_host_header = [], ota_path = [], ota_port = 0, ota_sha_ctx = zero_ctx, expected_sha256_1 = replicate 32 0,
      expected_sha256_2 = replicate 32 0, has_sha256_check_1 = False, has_sha256_check_2 = False\<rparr>"

definition sample_header :: bytes where
  "sample_header = ascii ''HTTP/1.0 200 OK'' @ crlf @ ascii ''Content-Length: 102400'' @ crlf @ crlf"

definition sample_digest :: bytes where
  "sample_digest = SHA256 (replicate 102400 0xE9)"

definition sample_connected :: "(nat \<times> nat) ota" where
  "sample_connected = ota_step sample_ota_env TcpConnected
     (ota_step sample_ota_env (StartOta False (Some (ascii ''http://host/f'')) None (Some (hex_of sample_digest))) sample_ota)"

lemma sha256_pairs_hex:
  "i + n = length bs \<Longrightarrow> length out = length bs \<Longrightarrow> take i out = take i bs \<Longrightarrow> sha256_pairs (hex_of bs) i n out = (True, bs)"
proof (induction n arbitrary: i out)
  case (Suc n)
  then have i: "i < length bs" by simp
  have h: "hex_char_to_val (char_at (hex_of bs) (i * 2)) = int (unat (bs ! i) div 16)"
    "hex_char_to_val (char_at (hex_of bs) (i * 2 + 1)) = int (unat (bs ! i) mod 16)"
    using char_at_hex_of [OF i, of "[]"] u8_nibbles [of "bs ! i"] by (simp_all add: hex_digit_val mult.commute)
  have "take (Suc i) (out[i := bs ! i]) = take (Suc i) bs"
    using Suc.prems i by (simp add: take_Suc_list_update take_Suc_conv_app_nth)
  then have "sha256_pairs (hex_of bs) (i + 1) n (out[i := bs ! i]) = (True, bs)"
    using Suc.prems by (intro Suc.IH) simp_all
  then show ?case by (simp only: sha256_pairs.simps h hex_nibbles Let_def) simp
qed simp

lemma sample_digest_parsed:
  "ota_parse_sha256 (Some (hex_of sample_digest)) (expected_sha256_2 sample_ota) = (True, sample_digest, True)"
  "ota_parse_sha256 None d = (True, d, False)"
proof -
  have l: "length sample_digest = 32" "length (expected_sha256_2 sample_ota) = 32"
    by (simp add: sample_digest_def, simp only: sample_ota_def ota.simps length_replicate)
  then have "hex_of sample_digest \<noteq> []" "length (hex_of sample_digest) = 64" by (auto simp flip: length_greater_0_conv)
  moreover have "sha256_pairs (hex_of sample_digest) 0 32 (expected_sha256_2 sample_ota) = (True, sample_digest)"
    using l by (intro sha256_pairs_hex) simp_all
  ultimately show "ota_parse_sha256 (Some (hex_of sample_digest)) (expected_sha256_2 sample_ota) = (True, sample_digest, True)"
    by (simp add: ota_parse_sha256_def)
  show "ota_parse_sha256 None d = (True, d, False)" by (simp add: ota_parse_sha256_def)
qed

text \<open>The request wants the digest of slot 1.\<close>

definition wants_digest :: "(nat \<times> nat) ota \<Rightarrow> bool" where
  "wants_digest s \<longleftrightarrow> \<not> has_sha256_check_1 s \<and> has_sha256_check_2 s \<and> expected_sha256_2 s = sample_digest"

lemma sample_url: "url_scheme (ascii ''http://host/f'') = Some (ascii ''host/f'')" "url_authority (ascii ''host/f'') = ascii ''host''"
  "url_path (ascii ''host/f'') = Some (ascii ''/f'')" "strchr 0x3A (ascii ''host'') = None"
  by (simp_all add: url_scheme_def url_authority_def url_path_def strchr_def ascii_def Let_def)

lemma sample_connected_fields:
  "receiving sample_connected" "\<not> headers_parsed sample_connected" "ota_header_buffer sample_connected = []"
  "wants_digest sample_connected" "ota_target_rom sample_connected = 1"
  by (simp_all add: sample_digest_parsed sample_connected_def start_ota_update_def ota_reset_def Let_def ota_cleanup_timers_def parse_digests_def
      wants_digest_def parse_url_def sample_url parse_authority_def ota_lookup_def ota_dns_found_cb_def sample_ota_env_def
      choose_target_def ota_tcp_connect_cb_def clear_response_def receiving_def sha_wanted_def)

lemma sample_header_parsed:
  "strstr_loop (crlf @ crlf) sample_header 0 = Some 39" "length sample_header = 43" "0 \<notin> set sample_header"
  "ota_parse_status_code sample_header = Some 200"
  "ota_get_header_value sample_header (ascii ''Content-Length'') = (Some (ascii ''102400'' @ crlf @ crlf), False)"
  "ota_parse_uint32 (ascii ''102400'' @ crlf @ crlf) = Some 102400"
  by code_simp+

text \<open>The state with \<open>n\<close> bytes of the body.\<close>

definition downloading :: "nat \<Rightarrow> (nat \<times> nat) ota \<Rightarrow> bool" where
  "downloading n s \<longleftrightarrow> receiving s \<and> headers_parsed s \<and> ota_response_length_known s \<and> ota_response_length s = 102400 \<and>
     ota_response_received_bytes s = of_nat n \<and> ota_firmware_size_known s \<and> ota_firmware_size s = 102400 \<and>
     ota_received_bytes s = of_nat n \<and> wants_digest s \<and> sha_holds (ota_sha_ctx s) (replicate n 0xE9) \<and>
     ota_target_rom s = 1 \<and> (is_valid_binary s \<longleftrightarrow> 0 < n)"

lemma response_emit [simp]:
  "receiving (ota_emit es s) = receiving s" "ota_response_length (ota_emit es s) = ota_response_length s"
  "ota_response_length_known (ota_emit es s) = ota_response_length_known s"
  "ota_response_received_bytes (ota_emit es s) = ota_response_received_bytes s"
  by (simp_all add: receiving_def ota_emit_def)

lemma wants_digest_emit [simp]: "wants_digest (ota_emit es s) = wants_digest s"
  by (simp add: wants_digest_def)

lemma rehash_nothing: "rehash_loop env f a a c = (True, c)"
  by (simp add: rehash_loop.simps)

lemma sample_accept:
  assumes "receiving s" "wants_digest s" "ota_target_rom s = 1"
  shows "\<exists>t. accept_header sample_header s = (None, t) \<and> downloading 0 t"
  using assms unfolding accept_header_def Let_def sample_header_parsed prod.case option.case if_False
  by (simp add: accept_full_def downloading_def receiving_def sha_wanted_def wants_digest_def sha.init_holds)

lemma sample_header_received:
  assumes "receiving s" "\<not> headers_parsed s" "ota_header_buffer s = []" "wants_digest s" "ota_target_rom s = 1"
  shows "downloading 0 (ota_step sample_ota_env (TcpReceived sample_header) s)"
proof -
  let ?s = "append_header sample_header (ota_emit [OtaDisarm TimeoutTimer, OtaArm TimeoutTimer 15000] s)"
  have b: "ota_header_buffer ?s = sample_header" using assms(3) sample_header_parsed(2) by (simp add: append_header_def Let_def)
  have h: "takeWhile (\<lambda>b. b \<noteq> 0) sample_header = sample_header"
    using sample_header_parsed(3) by (intro takeWhile_eq_all_conv [THEN iffD2]) metis
  have f: "receiving ?s" "wants_digest ?s" "ota_target_rom ?s = 1"
    using assms(1,4,5) by (simp_all add: append_header_def Let_def receiving_def sha_wanted_def wants_digest_def)
  obtain t where a: "accept_header sample_header ?s = (None, t)" and t: "downloading 0 t" using sample_accept [OF f] by blast
  have "ota_receive sample_ota_env sample_header (ota_emit [OtaDisarm TimeoutTimer, OtaArm TimeoutTimer 15000] s) = (None, t)"
    using assms(2,3) unfolding ota_receive_def Let_def b h sample_header_parsed option.case a prod.case
    by (simp add: sample_header_parsed(2) ota_body_def)
  then show ?thesis using assms(1) t by (simp add: ota_tcp_recv_cb_def receiving_def)
qed

lemma sample_body_received:
  assumes "downloading n s" and "d = replicate 51200 0xE9" and "n = 0 \<or> n = 51200"
  shows "downloading (n + 51200) (ota_step sample_ota_env (TcpReceived d) s)"
proof -
  let ?s = "ota_emit [OtaDisarm TimeoutTimer, OtaArm TimeoutTimer 15000] s"
  have l: "length d = 51200" "char_at d 0 = 0xE9" using assms(2) by (simp_all add: char_at_def)
  have s: "downloading n ?s" using assms(1) by (simp add: downloading_def)
  have w: "\<exists>u. write_body sample_ota_env d t = (None, u) \<and> downloading (n + 51200) u"
    if "downloading n (t\<lparr>is_valid_binary := 0 < n\<rparr>)" "is_valid_binary t" for t
  proof -
    have "length (replicate n (0xE9 :: u8)) < 2 ^ 61" using assms(3) by auto
    moreover have "replicate n 0xE9 @ d = replicate (n + 51200) (0xE9 :: u8)" unfolding assms(2) by (simp only: replicate_add)
    ultimately have "sha_holds c (replicate n 0xE9) \<Longrightarrow> sha_holds (sha256_update c d) (replicate (n + 51200) 0xE9)" for c
      using sha.update_holds [of c "replicate n 0xE9" d] by simp
    then show ?thesis
      using that l by (simp add: write_body_def downloading_def receiving_def sha_wanted_def wants_digest_def sample_ota_env_def Let_def)
  qed
  have "\<exists>u. ota_body sample_ota_env d ?s = (None, u) \<and> downloading (n + 51200) u"
  proof (cases "n = 0")
    case True
    then obtain t where o: "open_writer sample_ota_env 0xE9 ?s = (None, t)" "downloading n (t\<lparr>is_valid_binary := 0 < n\<rparr>)" "is_valid_binary t"
      using s by (simp add: open_writer_def ota_rehash_flash_def rehash_nothing downloading_def receiving_def sha_wanted_def
          wants_digest_def sample_ota_env_def sha.init_holds Let_def)
    then show ?thesis
      using w [OF o(2,3)] s True l by (simp add: ota_body_def downloading_def fits_response_def fits_firmware_def)
  next
    case False
    then have n: "n = 51200" using assms(3) by simp
    have "downloading n (?s\<lparr>is_valid_binary := 0 < n\<rparr>)" "is_valid_binary ?s" using s n by (simp_all add: downloading_def receiving_def sha_wanted_def wants_digest_def)
    then show ?thesis
      using w [of ?s] s n l by (simp add: ota_body_def downloading_def fits_response_def fits_firmware_def)
  qed
  then obtain u where u: "ota_body sample_ota_env d ?s = (None, u)" "downloading (n + 51200) u" by blast
  moreover have "ota_receive sample_ota_env d ?s = (None, u)" using s u by (simp add: ota_receive_def downloading_def)
  ultimately show ?thesis using assms(1) by (simp add: ota_tcp_recv_cb_def downloading_def receiving_def)
qed

lemma sample_staged:
  assumes "downloading 102400 s"
  shows "stages (ota_step sample_ota_env TcpDisconnected s) = stages s @ [SetTempRom 1]"
  using assms sha.final_hash [of "ota_sha_ctx s" "replicate 102400 0xE9"]
  by (simp add: digest_matches_def sample_digest_def ota_tcp_discon_cb_def ota_complete_def downloading_def receiving_def Let_def ota_finish_def sample_ota_env_def
      ota_cleanup_timers_def sha_wanted_def wants_digest_def stage_result is_stage_def)

definition sample_image :: "(nat \<times> nat) ota" where
  "sample_image = ota_step sample_ota_env (TcpReceived (replicate 51200 0xE9))
     (ota_step sample_ota_env (TcpReceived (replicate 51200 0xE9)) (ota_step sample_ota_env (TcpReceived sample_header) sample_connected))"

lemma sample_image_downloaded: "downloading 102400 sample_image"
proof -
  have "downloading (0 + 51200 + 51200) sample_image"
    unfolding sample_image_def
    by (intro sample_body_received [OF sample_body_received [OF sample_header_received refl] refl] sample_connected_fields) simp_all
  then show ?thesis by simp
qed

lemma sample_reach: "ota_reach sample_writer sample_slots 0 sample_ota sample_connected"
  "ota_reach sample_writer sample_slots 0 sample_ota sample_image"
proof -
  have run: "running_rom sample_ota_env = 0" by (simp add: running_rom_def sample_ota_env_def)
  have "ota_reach sample_writer sample_slots 0 sample_ota sample_ota"
    by (rule ota_reach.idle) (simp_all add: sample_ota_def retry_armed_def timeout_armed_def)
  then show c: "ota_reach sample_writer sample_slots 0 sample_ota sample_connected"
    unfolding sample_connected_def by (intro ota_reach.step sample_rboot_ok run) (simp_all add: input_ok_def)
  then show "ota_reach sample_writer sample_slots 0 sample_ota sample_image"
    unfolding sample_image_def using sample_header_parsed(2)
    by (intro ota_reach.step sample_rboot_ok run) (simp_all add: input_ok_def)
qed

text \<open>The witness: the transfer with a digest stages slot 1, which holds an image with that digest.\<close>

theorem ota_stages_verified_image_witness:
  "let t = ota_step sample_ota_env TcpDisconnected sample_image
   in stages t = stages sample_image @ [SetTempRom 1] \<and> has_sha256_check_2 sample_image \<and>
      SHA256 (flash_range (spi_flash t) 0x82000 102400) = sample_digest"
proof -
  have ne: "stages (ota_step sample_ota_env TcpDisconnected sample_image) \<noteq> stages sample_image"
    by (simp only: sample_staged [OF sample_image_downloaded]) simp
  have d: "ota_firmware_size sample_image = 102400" "has_sha256_check_2 sample_image"
    "expected_sha256_2 sample_image = sample_digest"
    using sample_image_downloaded by (simp_all add: downloading_def wants_digest_def)
  have run: "running_rom sample_ota_env = 0" "input_ok TcpDisconnected sample_image"
    by (simp_all add: running_rom_def sample_ota_env_def input_ok_def)
  show ?thesis
    using ota_stages_verified_image [OF sample_reach(2) sample_rboot_ok run refl ne refl] d
    by (simp add: Let_def other_rom_def sample_slots_def)
qed

theorem ota_spares_running_firmware_witness:
  "flash_range (spi_flash sample_image) 0x2000 0x69000 = flash_range (spi_flash sample_ota) 0x2000 0x69000"
  using ota_spares_running_firmware [OF sample_reach(2)] by (simp add: sample_slots_def other_rom_def)

theorem ota_never_stalls_witness:
  "timeout_armed sample_connected \<and>
   \<not> ota_in_progress ((silent (sample_ota_env\<lparr>dns_answer := OtaDnsInProgress\<rparr>) ^^ 12) sample_connected)"
  using ota_never_stalls [OF sample_reach(1), of "sample_ota_env\<lparr>dns_answer := OtaDnsInProgress\<rparr>"] sample_connected_fields(1)
  by (simp add: receiving_def)

end
