(* ===== verification/Wifi.thy ===== *)
theory Wifi
  imports MqttRpc
begin

text \<open>
  \<open>modules/wifi.c\<close>: the station and the access point. The scanner looks for the saved network and for the
  fallback network and switches between them, a remote test tries other credentials and goes back, and
  the packets of the stations of the access point are filtered.

  The SDK is not in the repository. Its timers are a component of the state (what \<open>os_timer_arm\<close> and
  \<open>os_timer_disarm\<close> leave), the station configuration in use is the one that was set last, its other answers
  to one call are the fields of \<open>wifi_env\<close>, and the calls to it are events. The numbers of stations states,
  of reasons and the layout of packet headers are those of its documentation and of the protocols.
\<close>

section \<open>State\<close>

datatype ip_addr = Ip u8 u8 u8 u8

fun ip_and :: "ip_addr \<Rightarrow> ip_addr \<Rightarrow> ip_addr" where
  "ip_and (Ip a b c d) (Ip m n p q) = Ip (a AND m) (b AND n) (c AND p) (d AND q)"

fun ip4_addr4 :: "ip_addr \<Rightarrow> u8 \<Rightarrow> ip_addr" where
  "ip4_addr4 (Ip a b c d) x = Ip a b c x"

fun ip4_addr3_next :: "ip_addr \<Rightarrow> ip_addr" where
  "ip4_addr3_next (Ip a b c d) = Ip a b (c + 1) d"

datatype wifi_timer =
  ScanTimer | ScanTimeoutTimer | GetRssiTimer | DelayedReconnectTimer | TestTimeoutTimer | TestStartTimer

datatype wifi_opmode = NULL_MODE | STATION_MODE | STATIONAP_MODE

text \<open>Both fields are arrays, of 32 and of 64 bytes.\<close>

record station_config =
  st_ssid :: bytes
  st_password :: bytes

record bss_info =
  bss_ssid :: bytes
  bss_ssid_len :: nat
  bss_channel :: u8

text \<open>Functions of a network interface: the SDK's own, by number, and the two of this file.\<close>

datatype netif_fn = SdkFn nat | MyInputAp | MyOutputAp

record netif =
  nif_num :: u8
  nif_ip :: ip_addr
  nif_napt :: u8
  nif_input :: netif_fn
  nif_linkoutput :: netif_fn

datatype wifi_event =
    StationConnect
  | StationDisconnect
  | StationScan
  | StationSetAutoConnect
  | StationSetReconnectPolicy
  | StationSetConfig station_config
  | StationSetConfigCurrent station_config
  | StationDhcpcStart
  | SetOpmodeCurrent wifi_opmode
  | SetEventHandler
  | SoftapSetConfig bytes bytes u8 u8
  | SoftapDhcpsStop
  | DhcpsSetDns ip_addr
  | SetIpInfo ip_addr ip_addr
  | SoftapDhcpsLease ip_addr ip_addr
  | SoftapDhcpsStart
  | NotifyWifiCb u8
  | NotifyFallbackRetry
  | NotifyScanResult bss_info
  | LedStopPattern
  | LedPatternA
  | LedPatternD
  | PingMqttHost
  | NaptInit nat nat

record wifi_test_ctx_t =
  saved_ssid :: bytes
  saved_pwd :: bytes
  target_ssid :: bytes
  target_pwd :: bytes
  is_testing :: bool
  pending_report :: bool
  test_result_status :: u8
  tested_rssi :: u8
  fail_reason :: u8
  attempt_time_ms :: u32
  start_time :: u32
  stay_time_ms :: u32

record wifi =
  wifi_out :: "wifi_event list"
  wifi_timers :: "wifi_timer \<Rightarrow> (u32 \<times> bool) option"
  station :: station_config
  netif_list :: "netif list"
  wifi_cb :: bool
  wifi_scan_result_cb :: bool
  wifi_fallback_retry_cb :: bool
  channel :: u8
  wifi_present :: bool
  wifi_fallback_present :: bool
  wifi_fallback_last_present :: bool
  wifi_fallback_active :: bool
  wifi_fallback_mqtt_connected :: bool
  wifi_scan_runnning :: bool
  rssi :: u8
  get_rssi_running :: bool
  wifi_default_ok :: bool
  wifi_default_status :: u32
  my_auto_connect :: bool
  radio_busy_connecting :: bool
  disconnect_count :: u32
  last_uptime :: u64
  wifi_test_ctx :: wifi_test_ctx_t
  fallback_miss_count :: u8
  orig_input_ap :: netif_fn
  orig_output_ap :: netif_fn
  sta_network_addr :: ip_addr
  sta_network_mask :: ip_addr
  ap_network_addr :: ip_addr
  dns_ip :: ip_addr

text \<open>The saved settings (\<open>sys_cfg\<close>), the answers of the SDK, and \<open>fallback_ap_is_running\<close> of \<open>mqtt_rpc.c\<close>.\<close>

record wifi_env =
  cfg_sta_ssid :: bytes
  cfg_sta_pwd :: bytes
  cfg_ap_enabled :: bool
  env_uptime :: u64
  env_connect_status :: u8
  env_station_rssi :: u8
  env_system_time :: u32
  env_scan_accepted :: bool
  env_dns_server :: ip_addr
  env_dhcpc_stopped :: bool
  env_fallback_ap_running :: bool

definition wifi_emit :: "wifi_event list \<Rightarrow> wifi \<Rightarrow> wifi" where
  "wifi_emit es s = s\<lparr>wifi_out := wifi_out s @ es\<rparr>"

definition wifi_disarm :: "wifi_timer \<Rightarrow> wifi \<Rightarrow> wifi" where
  "wifi_disarm t s = s\<lparr>wifi_timers := (wifi_timers s)(t := None)\<rparr>"

definition wifi_arm :: "wifi_timer \<Rightarrow> u32 \<Rightarrow> bool \<Rightarrow> wifi \<Rightarrow> wifi" where
  "wifi_arm t ms repeats s = s\<lparr>wifi_timers := (wifi_timers s)(t := Some (ms, repeats))\<rparr>"

definition timer_armed :: "wifi_timer \<Rightarrow> wifi \<Rightarrow> bool" where
  "timer_armed t s \<longleftrightarrow> wifi_timers s t \<noteq> None"

section \<open>Station configurations\<close>

definition zero_config :: station_config where
  "zero_config = \<lparr>st_ssid = replicate 32 0, st_password = replicate 64 0\<rparr>"

text \<open>\<open>tfp_snprintf (buf, n, "%s", str)\<close> and \<open>strncpy (buf, str, n)\<close> into an array.\<close>

definition print_to :: "bytes \<Rightarrow> nat \<Rightarrow> bytes \<Rightarrow> bytes" where
  "print_to buf n str = put_bytes buf 0 (sprint n ''%s'' [ArgStr str] @ [0])"

definition c_chars :: "bytes \<Rightarrow> bytes" where
  "c_chars buf = takeWhile (\<lambda>b. b \<noteq> 0) buf"

definition strncpy_to :: "bytes \<Rightarrow> bytes \<Rightarrow> nat \<Rightarrow> bytes" where
  "strncpy_to buf str n = put_bytes buf 0 (take n (c_chars str @ replicate n 0))"

text \<open>\<open>memcmp (stationConf.ssid, name, strlen (name) + 1) == 0\<close>: a long name is compared with the password too.\<close>

definition ssid_is :: "station_config \<Rightarrow> bytes \<Rightarrow> bool" where
  "ssid_is conf name \<longleftrightarrow> take (length name + 1) (st_ssid conf @ st_password conf) = name @ [0]"

definition sta_fallback_ssid :: bytes where
  "sta_fallback_ssid = ascii ''stofferFon''"

definition sta_fallback_pass :: bytes where
  "sta_fallback_pass = ascii ''w1reless''"

definition set_config_current :: "station_config \<Rightarrow> wifi \<Rightarrow> wifi" where
  "set_config_current conf s = wifi_emit [StationSetConfigCurrent conf] (s\<lparr>station := conf\<rparr>)"

definition print_config :: "bytes \<Rightarrow> bytes \<Rightarrow> station_config \<Rightarrow> station_config" where
  "print_config ssid pwd conf =
     conf\<lparr>st_ssid := print_to (st_ssid conf) 32 ssid, st_password := print_to (st_password conf) 64 pwd\<rparr>"

section \<open>The packet filter of the access point\<close>

text \<open>A packet is the first buffer of its chain; numbers on the wire have their high byte first.\<close>

definition acl_check_packet :: "ip_addr \<Rightarrow> ip_addr \<Rightarrow> ip_addr \<Rightarrow> bytes \<Rightarrow> bool" where
  "acl_check_packet dns net netmask payload =
     (if length payload < 14 then False
      else
        let type = be16 (payload ! 12) (payload ! 13)
        in if type = 0x0806 then True
           else if type \<noteq> 0x0800 then False
           else if length payload < 14 + 20 then False
           else
             let proto = payload ! 23;
                 ip_hlen = unat (payload ! 14 AND 0x0F) * 4;
                 port_at = (\<lambda>k. be16 (payload ! k) (payload ! (k + 1)));
                 dest_port =
                   (if proto = 17 then
                      if length payload < 14 + ip_hlen + 8 then None else Some (port_at (14 + ip_hlen + 2))
                    else if proto = 6 then
                      if length payload < 14 + ip_hlen + 20 then None else Some (port_at (14 + ip_hlen + 2))
                    else Some 0);
                 dest_ip = Ip (payload ! 30) (payload ! 31) (payload ! 32) (payload ! 33)
             in (case dest_port of
                   None \<Rightarrow> False
                 | Some dest_port \<Rightarrow>
                     if dest_ip = Ip 255 255 255 255 \<and> dest_port = 67 then True
                     else if dest_ip = dns \<and> dest_port = 53 then True
                     else if ip_and dest_ip netmask = net then False
                     else True))"

text \<open>The packet is handed on to the interface's own function, or dropped.\<close>

definition my_input_ap :: "wifi \<Rightarrow> bytes \<Rightarrow> (netif_fn \<times> bytes) option" where
  "my_input_ap s p =
     (if acl_check_packet (dns_ip s) (sta_network_addr s) (sta_network_mask s) p then Some (orig_input_ap s, p) else None)"

fun find_netif :: "(netif \<Rightarrow> bool) \<Rightarrow> netif list \<Rightarrow> nat option" where
  "find_netif P [] = None"
| "find_netif P (n # ns) = (if P n then Some 0 else map_option Suc (find_netif P ns))"

definition patch_netif_ap :: "netif_fn \<Rightarrow> netif_fn \<Rightarrow> bool \<Rightarrow> wifi \<Rightarrow> wifi" where
  "patch_netif_ap ifn ofn use_nat s =
     (let ap_ip = ip4_addr4 (ap_network_addr s) 1
      in case find_netif (\<lambda>n. nif_ip n = ap_ip) (netif_list s) of
           None \<Rightarrow> s
         | Some i \<Rightarrow>
             let nif = (netif_list s ! i)\<lparr>nif_napt := if use_nat then 1 else 0\<rparr>;
                 (s, nif) = (if nif_input nif \<noteq> ifn then (s\<lparr>orig_input_ap := nif_input nif\<rparr>, nif\<lparr>nif_input := ifn\<rparr>) else (s, nif));
                 (s, nif) = (if nif_linkoutput nif \<noteq> ofn
                             then (s\<lparr>orig_output_ap := nif_linkoutput nif\<rparr>, nif\<lparr>nif_linkoutput := ofn\<rparr>) else (s, nif))
             in s\<lparr>netif_list := (netif_list s)[i := nif]\<rparr>)"

definition wifi_init_napt :: "wifi \<Rightarrow> wifi" where
  "wifi_init_napt s = wifi_emit [NaptInit 128 2] s"

section \<open>The access point\<close>

definition wifi_softap_config :: "bytes \<Rightarrow> bytes \<Rightarrow> u8 \<Rightarrow> wifi \<Rightarrow> wifi" where
  "wifi_softap_config ssid pass authmode s =
     wifi_emit [SoftapSetConfig (sprint 32 ''%s'' [ArgStr ssid]) (sprint 64 ''%s'' [ArgStr pass]) authmode (channel s)] s"

definition ap_network :: ip_addr where
  "ap_network = (case snd (UTILS_StrToIP (ascii ''10.0.5.0'') [0, 0, 0, 0]) of [a, b, c, d] \<Rightarrow> Ip a b c d | _ \<Rightarrow> Ip 0 0 0 0)"

definition wifi_softap_ip_config :: "wifi_env \<Rightarrow> wifi \<Rightarrow> wifi" where
  "wifi_softap_ip_config env s =
     (case find_netif (\<lambda>n. nif_num n \<noteq> 0) (netif_list s) of
        None \<Rightarrow> s
      | Some i \<Rightarrow>
          let s = s\<lparr>netif_list := (netif_list s)[i := (netif_list s ! i)\<lparr>nif_num := 1\<rparr>]\<rparr>;
              s = wifi_emit [SoftapDhcpsStop] s;
              s = (if ap_network_addr s = Ip 0 0 0 0 then s\<lparr>ap_network_addr := ap_network\<rparr> else s);
              s = (if sta_network_addr s = ap_network_addr s
                   then s\<lparr>ap_network_addr := ip4_addr3_next (ap_network_addr s)\<rparr> else s);
              s = s\<lparr>dns_ip := (if env_dns_server env = Ip 0 0 0 0 then Ip 8 8 8 8 else env_dns_server env)\<rparr>;
              s = wifi_emit [DhcpsSetDns (dns_ip s)] s;
              s = wifi_emit [SetIpInfo (ip4_addr4 (ap_network_addr s) 1) (Ip 255 255 255 0)] s;
              s = wifi_emit [SoftapDhcpsLease (ip4_addr4 (ap_network_addr s) 2) (ip4_addr4 (ap_network_addr s) 254)] s
          in wifi_emit [SoftapDhcpsStart] s)"

section \<open>Scanning and switching\<close>

definition wifi_get_rssi_timer_func :: "wifi_env \<Rightarrow> wifi \<Rightarrow> wifi" where
  "wifi_get_rssi_timer_func env s =
     (let s = s\<lparr>get_rssi_running := True\<rparr>;
          s = (if wifi_default_ok s then s\<lparr>rssi := env_station_rssi env\<rparr> else s)
      in s\<lparr>get_rssi_running := False\<rparr>)"

text \<open>The loop that waits for the lock has no end when the lock is held: \<open>None\<close>.\<close>

definition wifi_get_rssi :: "wifi \<Rightarrow> u8 option" where
  "wifi_get_rssi s = (if get_rssi_running s then None else Some (rssi s))"

definition wifi_get_status :: "wifi \<Rightarrow> u32" where
  "wifi_get_status s = wifi_default_status s"

definition wifi_start_scan :: "wifi_env \<Rightarrow> u32 \<Rightarrow> wifi \<Rightarrow> wifi" where
  "wifi_start_scan env interval s =
     (let uptime = env_uptime env;
          s = (if last_uptime s + 60 < uptime then (wifi_emit [PingMqttHost] s)\<lparr>last_uptime := uptime\<rparr> else s)
      in wifi_arm ScanTimer interval False (wifi_disarm ScanTimer s))"

definition wifi_stop_scan :: "wifi \<Rightarrow> wifi" where
  "wifi_stop_scan s = (wifi_disarm ScanTimer (wifi_disarm ScanTimeoutTimer s))\<lparr>wifi_scan_runnning := False\<rparr>"

definition wifi_fallback_force_reset_state :: "wifi \<Rightarrow> wifi" where
  "wifi_fallback_force_reset_state s =
     s\<lparr>wifi_fallback_present := False, wifi_fallback_last_present := False, wifi_fallback_active := False,
       wifi_fallback_mqtt_connected := False\<rparr>"

definition set_my_auto_connect :: "bool \<Rightarrow> wifi \<Rightarrow> wifi" where
  "set_my_auto_connect enabled s = s\<lparr>my_auto_connect := enabled\<rparr>"

definition wifi_destroy :: "wifi \<Rightarrow> wifi" where
  "wifi_destroy s =
     wifi_disarm TestStartTimer (wifi_disarm TestTimeoutTimer (wifi_disarm DelayedReconnectTimer
       (wifi_disarm GetRssiTimer (wifi_stop_scan s))))"

definition opmode_of :: "wifi_env \<Rightarrow> wifi_opmode" where
  "opmode_of env = (if cfg_ap_enabled env then STATIONAP_MODE else STATION_MODE)"

text \<open>Leave the network in use for another one; \<open>wifi_default\<close> and \<open>wifi_fallback\<close> share the lines.\<close>

definition switch_network :: "wifi_env \<Rightarrow> bytes \<Rightarrow> bytes \<Rightarrow> wifi \<Rightarrow> wifi" where
  "switch_network env ssid pwd s =
     (let s = s\<lparr>my_auto_connect := False\<rparr>;
          s = wifi_emit [StationDisconnect, SetOpmodeCurrent (opmode_of env)] s;
          s = set_config_current (print_config ssid pwd (station s)) s;
          s = s\<lparr>my_auto_connect := True, radio_busy_connecting := True\<rparr>
      in wifi_emit [StationConnect] s)"

definition start_rssi_timer :: "wifi \<Rightarrow> wifi" where
  "start_rssi_timer s = wifi_arm GetRssiTimer 10000 True (wifi_disarm GetRssiTimer s)"

definition wifi_default :: "wifi_env \<Rightarrow> wifi \<Rightarrow> wifi" where
  "wifi_default env s =
     (let s = s\<lparr>wifi_fallback_active := False, wifi_fallback_mqtt_connected := False\<rparr>
      in start_rssi_timer (switch_network env (cfg_sta_ssid env) (cfg_sta_pwd env) s))"

definition wifi_fallback :: "wifi_env \<Rightarrow> wifi \<Rightarrow> wifi" where
  "wifi_fallback env s =
     (let s = s\<lparr>wifi_fallback_active := True, wifi_fallback_mqtt_connected := False\<rparr>
      in switch_network env sta_fallback_ssid sta_fallback_pass s)"

definition wifi_connect :: "wifi_env \<Rightarrow> bool \<Rightarrow> wifi \<Rightarrow> wifi" where
  "wifi_connect env cb s =
     (let s = wifi_emit [SetOpmodeCurrent NULL_MODE, SetOpmodeCurrent (opmode_of env)] s;
          s = s\<lparr>wifi_cb := cb\<rparr>;
          conf = print_config (cfg_sta_ssid env) (cfg_sta_pwd env) zero_config;
          s = wifi_emit [StationSetAutoConnect, StationSetReconnectPolicy] s;
          s = wifi_emit [StationSetConfig conf] (s\<lparr>station := conf\<rparr>);
          s = set_config_current conf s;
          s = wifi_start_scan env 20000 s;
          s = wifi_emit [SetEventHandler] s;
          s = s\<lparr>my_auto_connect := True, radio_busy_connecting := True\<rparr>;
          s = wifi_emit [StationConnect] s;
          s = (if env_dhcpc_stopped env then wifi_emit [StationDhcpcStart] s else s)
      in start_rssi_timer s)"

definition wifi_is_connected_to_fallback :: "wifi_env \<Rightarrow> wifi \<Rightarrow> bool" where
  "wifi_is_connected_to_fallback env s \<longleftrightarrow> ssid_is (station s) sta_fallback_ssid \<and> env_connect_status env = 5"

definition wifi_scan_timer_func :: "wifi_env \<Rightarrow> wifi \<Rightarrow> wifi" where
  "wifi_scan_timer_func env s =
     (if \<not> wifi_scan_runnning s then
        if radio_busy_connecting s then wifi_start_scan env 1000 s
        else
          let s = s\<lparr>wifi_scan_runnning := True\<rparr>;
              s = wifi_arm ScanTimeoutTimer 60000 False (wifi_disarm ScanTimeoutTimer s);
              s = wifi_emit [StationScan] s
          in if \<not> env_scan_accepted env then wifi_start_scan env 5000 (s\<lparr>wifi_scan_runnning := False\<rparr>) else s
      else s)"

definition wifi_scan_timeout_timer_func :: "wifi_env \<Rightarrow> wifi \<Rightarrow> wifi" where
  "wifi_scan_timeout_timer_func env s =
     wifi_start_scan env 5000 (wifi_disarm ScanTimeoutTimer (s\<lparr>wifi_scan_runnning := False\<rparr>))"

definition bss_is :: "bss_info \<Rightarrow> bytes \<Rightarrow> bool" where
  "bss_is info name \<longleftrightarrow> bss_ssid_len info = length name \<and> take (bss_ssid_len info) (bss_ssid info) = name"

definition scan_entry :: "wifi_env \<Rightarrow> bss_info \<Rightarrow> wifi \<Rightarrow> wifi" where
  "scan_entry env info s =
     (let s = (if bss_is info (cfg_sta_ssid env) then s\<lparr>wifi_present := True, channel := bss_channel info\<rparr> else s);
          s = (if \<not> wifi_fallback_active s \<and> bss_is info sta_fallback_ssid then s\<lparr>wifi_fallback_present := True\<rparr> else s)
      in if wifi_scan_result_cb s then wifi_emit [NotifyScanResult info] s else s)"

text \<open>The state and \<open>switched_network\<close>.\<close>

definition scan_decide :: "wifi_env \<Rightarrow> wifi \<Rightarrow> wifi \<times> bool" where
  "scan_decide env s =
     (if wifi_fallback_present s then
        let s = s\<lparr>fallback_miss_count := 0\<rparr>
        in if \<not> wifi_fallback_last_present s then
             ((wifi_emit [LedPatternA] (wifi_fallback env s))\<lparr>wifi_fallback_last_present := True\<rparr>, True)
           else if \<not> wifi_fallback_mqtt_connected s then
             if wifi_is_connected_to_fallback env s
             then (if wifi_fallback_retry_cb s then wifi_emit [NotifyFallbackRetry] s else s, True)
             else (wifi_fallback env s, True)
           else (s, False)
      else if wifi_fallback_last_present s then
        let s = s\<lparr>fallback_miss_count := fallback_miss_count s + 1\<rparr>
        in if fallback_miss_count s \<ge> 3 then
             ((wifi_emit [LedStopPattern] (wifi_default env s))\<lparr>wifi_fallback_last_present := False, fallback_miss_count := 0\<rparr>, True)
           else (s, False)
      else (s, False))"

text \<open>The result of a scan: \<open>None\<close> when \<open>arg\<close> is NULL or the status is not \<open>OK\<close>.\<close>

definition wifi_scan_done_cb :: "wifi_env \<Rightarrow> bss_info list option \<Rightarrow> wifi \<Rightarrow> wifi" where
  "wifi_scan_done_cb env found s =
     (if \<not> wifi_scan_runnning s then s
      else
        let s = s\<lparr>wifi_present := False, wifi_fallback_present := False\<rparr>;
            (s, switched_network) =
              (case found of
                 None \<Rightarrow> (s, False)
               | Some infos \<Rightarrow> scan_decide env ((fold (scan_entry env) infos s)\<lparr>wifi_scan_result_cb := False\<rparr>));
            s = wifi_disarm ScanTimeoutTimer (s\<lparr>wifi_scan_runnning := False\<rparr>)
        in wifi_start_scan env (if switched_network then 20000 else 5000) s)"

definition delayed_reconnect_timer_func :: "wifi \<Rightarrow> wifi" where
  "delayed_reconnect_timer_func s =
     (if my_auto_connect s then
        if wifi_scan_runnning s then wifi_arm DelayedReconnectTimer 1000 False (wifi_disarm DelayedReconnectTimer s)
        else wifi_emit [StationConnect] (s\<lparr>radio_busy_connecting := True\<rparr>)
      else s)"

section \<open>Testing other credentials\<close>

definition update_test :: "(wifi_test_ctx_t \<Rightarrow> wifi_test_ctx_t) \<Rightarrow> wifi \<Rightarrow> wifi" where
  "update_test f s = s\<lparr>wifi_test_ctx := f (wifi_test_ctx s)\<rparr>"

definition attempt_time :: "wifi_env \<Rightarrow> wifi \<Rightarrow> u32" where
  "attempt_time env s = (env_system_time env - start_time (wifi_test_ctx s)) div 1000"

definition restored_config :: "wifi_test_ctx_t \<Rightarrow> station_config" where
  "restored_config tc =
     \<lparr>st_ssid = (strncpy_to (replicate 32 0) (saved_ssid tc) 31)[31 := 0],
      st_password = (strncpy_to (replicate 64 0) (saved_pwd tc) 63)[63 := 0]\<rparr>"

definition wifi_test_restore_saved_station :: "wifi \<Rightarrow> wifi" where
  "wifi_test_restore_saved_station s =
     (let s = wifi_emit [StationDisconnect] (s\<lparr>my_auto_connect := False\<rparr>);
          s = set_config_current (restored_config (wifi_test_ctx s)) s;
          s = s\<lparr>my_auto_connect := True, radio_busy_connecting := True\<rparr>
      in wifi_emit [StationConnect] s)"

definition wifi_test_timeout_timer_func :: "wifi_env \<Rightarrow> wifi \<Rightarrow> wifi" where
  "wifi_test_timeout_timer_func env s =
     (let s = (if is_testing (wifi_test_ctx s) then
                 let s = update_test (\<lambda>c. c\<lparr>is_testing := False, pending_report := True\<rparr>) s
                 in if test_result_status (wifi_test_ctx s) = 0
                    then update_test (\<lambda>c. c\<lparr>attempt_time_ms := attempt_time env s\<rparr>) s else s
               else s);
          s = wifi_test_restore_saved_station s
      in if env_fallback_ap_running env then
           let s = wifi_emit [SetOpmodeCurrent STATIONAP_MODE] s;
               s = wifi_softap_config sta_fallback_ssid sta_fallback_pass 4 s;
               s = wifi_softap_ip_config env s
           in wifi_emit [LedStopPattern, LedPatternD] s
         else
           let s = wifi_fallback_force_reset_state (s\<lparr>wifi_present := False\<rparr>);
               s = wifi_emit [LedStopPattern] s
           in wifi_start_scan env 20000 s)"

definition target_config :: "wifi_test_ctx_t \<Rightarrow> station_config" where
  "target_config tc =
     \<lparr>st_ssid = strncpy_to (replicate 32 0) (target_ssid tc) 32, st_password = strncpy_to (replicate 64 0) (target_pwd tc) 64\<rparr>"

definition wifi_test_start_timer_func :: "wifi_env \<Rightarrow> wifi \<Rightarrow> wifi" where
  "wifi_test_start_timer_func env s =
     (let s = wifi_emit [StationDisconnect] (s\<lparr>my_auto_connect := False\<rparr>);
          s = set_config_current (target_config (wifi_test_ctx s)) s;
          s = wifi_arm TestTimeoutTimer 15000 False (wifi_disarm TestTimeoutTimer s);
          s = update_test (\<lambda>c. c\<lparr>start_time := env_system_time env\<rparr>) s
      in wifi_emit [StationConnect] (s\<lparr>radio_busy_connecting := True\<rparr>))"

definition hold_time :: "u32 \<Rightarrow> u32" where
  "hold_time stay_ms = (if stay_ms > 5000 then stay_ms else 5000)"

definition begin_test :: "bytes \<Rightarrow> bytes \<Rightarrow> u32 \<Rightarrow> station_config \<Rightarrow> wifi_test_ctx_t \<Rightarrow> wifi_test_ctx_t" where
  "begin_test ssid pwd stay_ms conf c =
     c\<lparr>saved_ssid := strncpy_to (saved_ssid c) (st_ssid conf) 32, saved_pwd := strncpy_to (saved_pwd c) (st_password conf) 64,
       target_ssid := strncpy_to (target_ssid c) ssid 32, target_pwd := strncpy_to (target_pwd c) pwd 64,
       test_result_status := 0, tested_rssi := 0, fail_reason := 255, attempt_time_ms := 0, stay_time_ms := stay_ms,
       is_testing := True, pending_report := False\<rparr>"

definition wifi_test_ssid_pwd :: "bytes \<Rightarrow> bytes \<Rightarrow> u32 \<Rightarrow> wifi \<Rightarrow> bool \<times> wifi" where
  "wifi_test_ssid_pwd ssid pwd stay_ms s =
     (if (is_testing (wifi_test_ctx s) \<or> wifi_get_status s = 5) \<and> strncmp_eq (c_chars (st_ssid (station s))) ssid 32 then
        let s = wifi_disarm TestTimeoutTimer (update_test (\<lambda>c. c\<lparr>stay_time_ms := stay_ms\<rparr>) s)
        in (True, if wifi_get_status s = 5 then wifi_arm TestTimeoutTimer (hold_time stay_ms) False s else s)
      else if is_testing (wifi_test_ctx s) then (False, s)
      else
        let s = update_test (begin_test ssid pwd stay_ms (station s)) (wifi_stop_scan s)
        in (True, wifi_arm TestStartTimer 5000 False (wifi_disarm TestStartTimer s)))"

section \<open>Events of the SDK\<close>

text \<open>
  The byte that comes with an event is the one the code reads as \<open>event_info.disconnected.reason\<close>, whatever
  the event is.
\<close>

datatype system_event =
    STAMODE_CONNECTED u8
  | STAMODE_DISCONNECTED u8
  | STAMODE_AUTHMODE_CHANGE
  | STAMODE_GOT_IP ip_addr ip_addr u8
  | STAMODE_DHCP_TIMEOUT u8
  | SOFTAPMODE_STACONNECTED
  | SOFTAPMODE_STADISCONNECTED
  | OTHER_EVENT

text \<open>The part of the handler for a test: \<open>None\<close> when it returns.\<close>

definition test_event :: "wifi_env \<Rightarrow> system_event \<Rightarrow> wifi \<Rightarrow> wifi \<times> bool" where
  "test_event env evt s =
     (if \<not> is_testing (wifi_test_ctx s) then (s, True)
      else
        case evt of
          STAMODE_GOT_IP ip netmask reason \<Rightarrow>
            let s = wifi_disarm TestTimeoutTimer s;
                s = update_test (\<lambda>c. c\<lparr>tested_rssi := env_station_rssi env, test_result_status := 1, fail_reason := 0,
                                     attempt_time_ms := attempt_time env s, is_testing := False, pending_report := True\<rparr>) s
            in (wifi_arm TestTimeoutTimer (hold_time (stay_time_ms (wifi_test_ctx s))) False (wifi_disarm TestTimeoutTimer s), True)
        | STAMODE_DISCONNECTED reason \<Rightarrow>
            if reason = 8 then (s, True)
            else
              let s = update_test (\<lambda>c. c\<lparr>fail_reason := reason, test_result_status := 0, attempt_time_ms := attempt_time env s,
                                       is_testing := False, pending_report := True\<rparr>) s
              in (wifi_test_timeout_timer_func env (wifi_disarm TestTimeoutTimer s), False)
        | _ \<Rightarrow> (s, False))"

definition reconnect_later :: "wifi \<Rightarrow> wifi" where
  "reconnect_later s =
     (if my_auto_connect s
      then wifi_arm DelayedReconnectTimer 3000 False (wifi_disarm DelayedReconnectTimer (wifi_emit [StationDisconnect] s))
      else s)"

text \<open>The configuration is read before the test part changes it.\<close>

definition wifi_handle_event_cb :: "wifi_env \<Rightarrow> system_event \<Rightarrow> wifi \<Rightarrow> wifi" where
  "wifi_handle_event_cb env evt s =
     (let conf = station s;
          on_default = ssid_is conf (cfg_sta_ssid env)
      in case test_event env evt s of
           (s, False) \<Rightarrow> s
         | (s, True) \<Rightarrow>
             (case evt of
                STAMODE_CONNECTED reason \<Rightarrow>
                  if on_default then s\<lparr>wifi_default_ok := True, wifi_default_status := ucast reason\<rparr> else s
              | STAMODE_DISCONNECTED reason \<Rightarrow>
                  let s = s\<lparr>radio_busy_connecting := False\<rparr>;
                      s = (if on_default
                           then s\<lparr>wifi_default_ok := False, wifi_default_status := ucast reason,
                                  disconnect_count := (if wifi_fallback_present s then disconnect_count s else disconnect_count s + 1)\<rparr>
                           else s);
                      s = reconnect_later s
                  in if wifi_cb s then wifi_emit [NotifyWifiCb 0] s else s
              | STAMODE_GOT_IP ip netmask reason \<Rightarrow>
                  let s = s\<lparr>radio_busy_connecting := False\<rparr>;
                      s = (if on_default
                           then s\<lparr>wifi_default_ok := True, wifi_default_status := ucast reason, wifi_fallback_active := False,
                                  wifi_fallback_mqtt_connected := False\<rparr>
                           else if ssid_is conf sta_fallback_ssid then s\<lparr>wifi_fallback_active := True\<rparr> else s);
                      s = s\<lparr>sta_network_addr := ip_and ip netmask, sta_network_mask := netmask\<rparr>;
                      s = wifi_softap_ip_config env s
                  in wifi_emit [StationSetAutoConnect, StationSetReconnectPolicy, NotifyWifiCb (env_connect_status env)] s
              | STAMODE_DHCP_TIMEOUT reason \<Rightarrow>
                  let s = s\<lparr>radio_busy_connecting := False\<rparr>;
                      s = (if on_default
                           then s\<lparr>wifi_default_ok := False, wifi_default_status := ucast reason,
                                  disconnect_count := disconnect_count s + 1\<rparr>
                           else s)
                  in reconnect_later s
              | SOFTAPMODE_STACONNECTED \<Rightarrow> patch_netif_ap MyInputAp MyOutputAp True s
              | _ \<Rightarrow> s))"

section \<open>Names of reasons\<close>

definition wifi_get_reason_desc :: "u8 \<Rightarrow> string" where
  "wifi_get_reason_desc reason =
     (case map_of
        [(0, ''none''), (1, ''unspecified''), (2, ''auth_expire''), (3, ''auth_leave''), (4, ''assoc_expire''),
         (5, ''assoc_toomany''), (6, ''not_authed''), (7, ''not_assoced''), (8, ''assoc_leave''), (9, ''assoc_not_authed''),
         (10, ''disassoc_pwrcap_bad''), (11, ''disassoc_supchan_bad''), (13, ''ie_invalid''), (14, ''mic_failure''),
         (15, ''4way_handshake_timeout''), (16, ''group_key_update_timeout''), (17, ''ie_in_4way_differs''),
         (18, ''group_cipher_invalid''), (19, ''pairwise_cipher_invalid''), (20, ''akmp_invalid''),
         (21, ''unsupp_rsn_ie_version''), (22, ''invalid_rsn_ie_cap''), (23, ''802_1x_auth_failed''),
         (24, ''cipher_suite_rejected''), (200, ''beacon_timeout''), (201, ''no_ap_found''), (202, ''auth_fail''),
         (203, ''assoc_fail''), (204, ''handshake_timeout''), (255, ''timeout'')] reason of
        Some desc \<Rightarrow> desc
      | None \<Rightarrow> ''unknown'')"

end
