(* ===== verification/WifiProps.thy ===== *)
theory WifiProps
  imports Wifi
begin

text \<open>
  The inputs of \<open>modules/wifi.c\<close>, its runs, and what holds in them: the scanner is never left without a
  timer, a test of other credentials ends and goes back to the network it came from, the device
  switches between the saved and the fallback network by the results of its scans, and the filter keeps
  the stations of the access point away from the uplink network.
\<close>

section \<open>Runs\<close>

text \<open>A one-shot timer is no longer armed when its function is called.\<close>

definition wifi_timer_fires :: "wifi_env \<Rightarrow> wifi_timer \<Rightarrow> wifi \<Rightarrow> wifi" where
  "wifi_timer_fires env t s =
     (case wifi_timers s t of
        None \<Rightarrow> s
      | Some (ms, repeats) \<Rightarrow>
          let s = (if repeats then s else wifi_disarm t s)
          in (case t of
                ScanTimer \<Rightarrow> wifi_scan_timer_func env s
              | ScanTimeoutTimer \<Rightarrow> wifi_scan_timeout_timer_func env s
              | GetRssiTimer \<Rightarrow> wifi_get_rssi_timer_func env s
              | DelayedReconnectTimer \<Rightarrow> delayed_reconnect_timer_func s
              | TestTimeoutTimer \<Rightarrow> wifi_test_timeout_timer_func env s
              | TestStartTimer \<Rightarrow> wifi_test_start_timer_func env s))"

text \<open>The calls of \<open>mqtt_rpc.c\<close>, \<open>ota.c\<close>, \<open>watchdog.c\<close> and \<open>user_main.c\<close> are inputs too.\<close>

datatype wifi_input =
    SdkEvent system_event
  | SdkScanDone "bss_info list option"
  | SdkNetifs "netif list"
  | TimerFires wifi_timer
  | AskTest bytes bytes u32
  | AskDefault
  | AskReset
  | AskStartScan u32
  | AskStopScan
  | AskAutoConnect bool
  | AskScanResults
  | ClientConnected
  | ClientDisconnected
  | ReportTaken

definition wifi_step :: "wifi_env \<Rightarrow> wifi_input \<Rightarrow> wifi \<Rightarrow> wifi" where
  "wifi_step env i s =
     (case i of
        SdkEvent evt \<Rightarrow> wifi_handle_event_cb env evt s
      | SdkScanDone found \<Rightarrow> wifi_scan_done_cb env found s
      | SdkNetifs ns \<Rightarrow> s\<lparr>netif_list := ns\<rparr>
      | TimerFires t \<Rightarrow> wifi_timer_fires env t s
      | AskTest ssid pwd stay_ms \<Rightarrow> snd (wifi_test_ssid_pwd ssid pwd stay_ms s)
      | AskDefault \<Rightarrow> wifi_default env s
      | AskReset \<Rightarrow> wifi_fallback_force_reset_state (wifi_default env (set_my_auto_connect True s))
      | AskStartScan ms \<Rightarrow> wifi_start_scan env ms s
      | AskStopScan \<Rightarrow> wifi_stop_scan s
      | AskAutoConnect enabled \<Rightarrow> set_my_auto_connect enabled s
      | AskScanResults \<Rightarrow> s\<lparr>wifi_scan_result_cb := True\<rparr>
      | ClientConnected \<Rightarrow> s\<lparr>wifi_fallback_mqtt_connected := wifi_fallback_active s\<rparr>
      | ClientDisconnected \<Rightarrow>
          (if wifi_fallback_active s then s\<lparr>wifi_fallback_mqtt_connected := False\<rparr> else s)
      | ReportTaken \<Rightarrow> update_test (\<lambda>c. c\<lparr>pending_report := False\<rparr>) s)"

inductive wifi_run :: "(wifi_env \<Rightarrow> wifi_input \<Rightarrow> wifi \<Rightarrow> bool) \<Rightarrow> wifi \<Rightarrow> wifi \<Rightarrow> bool"
  for allowed s0 where
  start: "wifi_run allowed s0 s0"
| step: "wifi_run allowed s0 s \<Longrightarrow> allowed env i s \<Longrightarrow> wifi_run allowed s0 (wifi_step env i s)"

definition zero_test :: wifi_test_ctx_t where
  "zero_test = \<lparr>saved_ssid = replicate 32 0, saved_pwd = replicate 64 0, target_ssid = replicate 32 0,
     target_pwd = replicate 64 0, is_testing = False, pending_report = False, test_result_status = 0, tested_rssi = 0,
     fail_reason = 0, attempt_time_ms = 0, start_time = 0, stay_time_ms = 0\<rparr>"

text \<open>The statics before the first call; the interfaces are the SDK's.\<close>

definition wifi_boot :: "netif list \<Rightarrow> wifi" where
  "wifi_boot ns =
     \<lparr>wifi_out = [], wifi_timers = (\<lambda>_. None), station = zero_config, netif_list = ns, wifi_cb = False,
      wifi_scan_result_cb = False, wifi_fallback_retry_cb = True, channel = 0, wifi_present = False,
      wifi_fallback_present = False, wifi_fallback_last_present = False, wifi_fallback_active = False,
      wifi_fallback_mqtt_connected = False, wifi_scan_runnning = False, rssi = 31, get_rssi_running = False,
      wifi_default_ok = False, wifi_default_status = 1, my_auto_connect = True, radio_busy_connecting = False,
      disconnect_count = 0, last_uptime = 0, wifi_test_ctx = zero_test, fallback_miss_count = 0,
      orig_input_ap = SdkFn 0, orig_output_ap = SdkFn 0, sta_network_addr = Ip 0 0 0 0, sta_network_mask = Ip 0 0 0 0,
      ap_network_addr = Ip 0 0 0 0, dns_ip = Ip 0 0 0 0\<rparr>"

section \<open>What the operations leave alone\<close>

definition core :: "wifi \<Rightarrow> (wifi_timer \<Rightarrow> (u32 \<times> bool) option) \<times> bool \<times> wifi_test_ctx_t" where
  "core s = (wifi_timers s, wifi_scan_runnning s, wifi_test_ctx s)"

lemma core_fields [simp]:
  "core (wifi_emit es s) = core s" "core (s\<lparr>station := conf\<rparr>) = core s" "core (s\<lparr>netif_list := ns\<rparr>) = core s"
  "core (s\<lparr>wifi_cb := b\<rparr>) = core s" "core (s\<lparr>wifi_scan_result_cb := b\<rparr>) = core s" "core (s\<lparr>channel := c\<rparr>) = core s"
  "core (s\<lparr>wifi_present := b\<rparr>) = core s" "core (s\<lparr>wifi_fallback_present := b\<rparr>) = core s"
  "core (s\<lparr>wifi_fallback_last_present := b\<rparr>) = core s" "core (s\<lparr>wifi_fallback_active := b\<rparr>) = core s"
  "core (s\<lparr>wifi_fallback_mqtt_connected := b\<rparr>) = core s" "core (s\<lparr>rssi := c\<rparr>) = core s"
  "core (s\<lparr>get_rssi_running := b\<rparr>) = core s" "core (s\<lparr>wifi_default_ok := b\<rparr>) = core s"
  "core (s\<lparr>wifi_default_status := w\<rparr>) = core s" "core (s\<lparr>my_auto_connect := b\<rparr>) = core s"
  "core (s\<lparr>radio_busy_connecting := b\<rparr>) = core s" "core (s\<lparr>disconnect_count := w\<rparr>) = core s"
  "core (s\<lparr>last_uptime := q\<rparr>) = core s" "core (s\<lparr>fallback_miss_count := c\<rparr>) = core s"
  "core (s\<lparr>orig_input_ap := f\<rparr>) = core s" "core (s\<lparr>orig_output_ap := f\<rparr>) = core s"
  "core (s\<lparr>sta_network_addr := a\<rparr>) = core s" "core (s\<lparr>sta_network_mask := a\<rparr>) = core s"
  "core (s\<lparr>ap_network_addr := a\<rparr>) = core s" "core (s\<lparr>dns_ip := a\<rparr>) = core s"
  by (simp_all add: core_def wifi_emit_def)

lemma core_calls [simp]:
  "core (set_config_current conf s) = core s" "core (switch_network env ssid pwd s) = core s"
  "core (wifi_softap_ip_config env s) = core s" "core (wifi_softap_config ssid pass mode s) = core s"
  "core (patch_netif_ap ifn ofn b s) = core s" "core (wifi_fallback env s) = core s"
  "core (wifi_fallback_force_reset_state s) = core s" "core (wifi_test_restore_saved_station s) = core s"
  "core (set_my_auto_connect b s) = core s" "core (wifi_get_rssi_timer_func env s) = core s"
  by (simp_all add: set_config_current_def switch_network_def wifi_softap_ip_config_def wifi_softap_config_def patch_netif_ap_def
      wifi_fallback_def wifi_fallback_force_reset_state_def wifi_test_restore_saved_station_def set_my_auto_connect_def
      wifi_get_rssi_timer_func_def Let_def split: option.split)

lemma core_entries [simp]: "core (fold (scan_entry env) infos s) = core s"
  by (induction infos arbitrary: s) (simp_all add: scan_entry_def Let_def)

lemmas kept [simp] =
  core_calls [unfolded core_def prod.inject, THEN conjunct1]
  core_calls [unfolded core_def prod.inject, THEN conjunct2, THEN conjunct1]
  core_calls [unfolded core_def prod.inject, THEN conjunct2, THEN conjunct2]
  core_entries [unfolded core_def prod.inject, THEN conjunct1]
  core_entries [unfolded core_def prod.inject, THEN conjunct2, THEN conjunct1]
  core_entries [unfolded core_def prod.inject, THEN conjunct2, THEN conjunct2]

lemma timer_updates [simp]:
  "wifi_timers (wifi_emit es s) = wifi_timers s" "wifi_timers (wifi_disarm t s) = (wifi_timers s)(t := None)"
  "wifi_timers (wifi_arm t ms b s) = (wifi_timers s)(t := Some (ms, b))" "wifi_timers (update_test f s) = wifi_timers s"
  "wifi_scan_runnning (wifi_emit es s) = wifi_scan_runnning s" "wifi_scan_runnning (wifi_disarm t s) = wifi_scan_runnning s"
  "wifi_scan_runnning (wifi_arm t ms b s) = wifi_scan_runnning s" "wifi_scan_runnning (update_test f s) = wifi_scan_runnning s"
  "wifi_test_ctx (wifi_emit es s) = wifi_test_ctx s" "wifi_test_ctx (wifi_disarm t s) = wifi_test_ctx s"
  "wifi_test_ctx (wifi_arm t ms b s) = wifi_test_ctx s" "wifi_test_ctx (update_test f s) = f (wifi_test_ctx s)"
  "wifi_get_status (wifi_disarm t s) = wifi_get_status s" "wifi_get_status (update_test f s) = wifi_get_status s"
  by (simp_all add: wifi_get_status_def wifi_emit_def wifi_disarm_def wifi_arm_def update_test_def)

lemma scan_calls [simp]:
  "wifi_timers (wifi_start_scan env ms s) = (wifi_timers s)(ScanTimer := Some (ms, False))"
  "wifi_scan_runnning (wifi_start_scan env ms s) = wifi_scan_runnning s"
  "wifi_test_ctx (wifi_start_scan env ms s) = wifi_test_ctx s"
  "wifi_timers (wifi_stop_scan s) = (wifi_timers s)(ScanTimeoutTimer := None, ScanTimer := None)"
  "wifi_scan_runnning (wifi_stop_scan s) = False" "wifi_test_ctx (wifi_stop_scan s) = wifi_test_ctx s"
  "wifi_timers (wifi_default env s) = (wifi_timers s)(GetRssiTimer := Some (10000, True))"
  "wifi_scan_runnning (wifi_default env s) = wifi_scan_runnning s" "wifi_test_ctx (wifi_default env s) = wifi_test_ctx s"
  by (simp_all add: wifi_start_scan_def wifi_stop_scan_def wifi_default_def start_rssi_timer_def Let_def)

lemma reconnect_calls [simp]:
  "t \<noteq> DelayedReconnectTimer \<Longrightarrow> wifi_timers (reconnect_later s) t = wifi_timers s t"
  "wifi_scan_runnning (reconnect_later s) = wifi_scan_runnning s" "wifi_test_ctx (reconnect_later s) = wifi_test_ctx s"
  by (simp_all add: reconnect_later_def)

section \<open>The scanner\<close>

definition test_pending :: "wifi \<Rightarrow> bool" where
  "test_pending s \<longleftrightarrow> timer_armed TestStartTimer s \<or> timer_armed TestTimeoutTimer s"

definition scanner_ok :: "wifi \<Rightarrow> bool" where
  "scanner_ok s \<longleftrightarrow>
     (wifi_scan_runnning s \<longrightarrow> timer_armed ScanTimeoutTimer s) \<and> (is_testing (wifi_test_ctx s) \<longrightarrow> test_pending s) \<and>
     (timer_armed ScanTimer s \<or> wifi_scan_runnning s \<or> test_pending s)"

text \<open>
  The one request the code loses track of: a second request for the network under test after the test has
  begun. \<open>left_alone\<close> are the inputs that do not stop the scanner: no caller stops it, and no fallback
  access point is up, behind which the end of a test leaves the scanner off.
\<close>

definition repeats_test :: "wifi_input \<Rightarrow> wifi \<Rightarrow> bool" where
  "repeats_test i s =
     (case i of
        AskTest ssid pwd ms \<Rightarrow>
          is_testing (wifi_test_ctx s) \<and> wifi_default_status s \<noteq> 5 \<and> \<not> timer_armed TestStartTimer s \<and>
          strncmp_eq (c_chars (st_ssid (station s))) ssid 32
      | _ \<Rightarrow> False)"

definition taken_up :: "wifi_env \<Rightarrow> wifi_input \<Rightarrow> wifi \<Rightarrow> bool" where
  "taken_up env i s \<longleftrightarrow> \<not> repeats_test i s"

definition left_alone :: "wifi_env \<Rightarrow> wifi_input \<Rightarrow> wifi \<Rightarrow> bool" where
  "left_alone env i s \<longleftrightarrow> taken_up env i s \<and> i \<noteq> AskStopScan \<and> \<not> env_fallback_ap_running env"

definition watched :: "wifi \<Rightarrow> bool" where
  "watched s \<longleftrightarrow>
     (wifi_scan_runnning s \<longrightarrow> timer_armed ScanTimeoutTimer s) \<and> (is_testing (wifi_test_ctx s) \<longrightarrow> test_pending s)"

lemma scanner_ok_watched: "scanner_ok s \<longleftrightarrow> watched s \<and> (timer_armed ScanTimer s \<or> wifi_scan_runnning s \<or> test_pending s)"
  by (auto simp: scanner_ok_def watched_def)

lemmas scanner_defs = scanner_ok_def watched_def test_pending_def timer_armed_def

lemma test_timeout_calls [simp]:
  "wifi_timers (wifi_test_timeout_timer_func env s) =
     (if env_fallback_ap_running env then wifi_timers s else (wifi_timers s)(ScanTimer := Some (20000, False)))"
  "wifi_scan_runnning (wifi_test_timeout_timer_func env s) = wifi_scan_runnning s"
  "\<not> is_testing (wifi_test_ctx (wifi_test_timeout_timer_func env s))"
  by (simp_all add: wifi_test_timeout_timer_func_def Let_def)

lemma scanner_event:
  assumes "scanner_ok s" "\<not> env_fallback_ap_running env"
  shows "scanner_ok (wifi_handle_event_cb env evt s)"
proof -
  obtain t go where t: "test_event env evt s = (t, go)" by fastforce
  have ok: "scanner_ok t"
    using t assms by (auto simp: test_event_def scanner_defs Let_def split: if_splits system_event.splits)
  show ?thesis
  proof (cases go)
    case True
    then show ?thesis using ok t
      by (cases evt) (simp_all add: wifi_handle_event_cb_def Let_def scanner_defs)
  next
    case False
    then show ?thesis using ok t by (simp add: wifi_handle_event_cb_def Let_def)
  qed
qed

lemma scanner_timer:
  assumes "scanner_ok s" "\<not> env_fallback_ap_running env"
  shows "scanner_ok (wifi_timer_fires env t s)"
  using assms
  by (cases t) (auto simp: wifi_timer_fires_def scanner_defs Let_def wifi_scan_timer_func_def wifi_scan_timeout_timer_func_def
      delayed_reconnect_timer_func_def wifi_test_start_timer_func_def split: option.split)

lemma decide_kept [simp]:
  "wifi_timers (fst (scan_decide env s)) t = (if t = GetRssiTimer then wifi_timers (fst (scan_decide env s)) t else wifi_timers s t)"
  "wifi_scan_runnning (fst (scan_decide env s)) = wifi_scan_runnning s" "wifi_test_ctx (fst (scan_decide env s)) = wifi_test_ctx s"
  by (simp_all add: scan_decide_def Let_def)

lemma scanner_done:
  assumes "scanner_ok s"
  shows "scanner_ok (wifi_scan_done_cb env found s)"
  using assms
  by (auto simp: wifi_scan_done_cb_def scanner_defs Let_def case_prod_unfold split: option.splits)

lemma test_request_cases:
  obtains "snd (wifi_test_ssid_pwd ssid pwd ms s) = s"
  | "repeats_test (AskTest ssid pwd ms) s"
  | t where "snd (wifi_test_ssid_pwd ssid pwd ms s) = t" "wifi_scan_runnning t = wifi_scan_runnning s"
      "\<And>x. x \<noteq> TestTimeoutTimer \<Longrightarrow> wifi_timers t x = wifi_timers s x" "test_pending t"
  | t where "snd (wifi_test_ssid_pwd ssid pwd ms s) = t" "\<not> wifi_scan_runnning t" "timer_armed TestStartTimer t"
proof -
  let ?same = "strncmp_eq (c_chars (st_ssid (station s))) ssid 32"
  let ?s = "wifi_disarm TestTimeoutTimer (update_test (\<lambda>c. c\<lparr>stay_time_ms := ms\<rparr>) s)"
  consider "(is_testing (wifi_test_ctx s) \<or> wifi_default_status s = 5) \<and> ?same" "wifi_default_status s = 5"
    | "is_testing (wifi_test_ctx s)" "?same" "wifi_default_status s \<noteq> 5" "timer_armed TestStartTimer s"
    | "repeats_test (AskTest ssid pwd ms) s"
    | "\<not> ((is_testing (wifi_test_ctx s) \<or> wifi_default_status s = 5) \<and> ?same)" "is_testing (wifi_test_ctx s)"
    | "\<not> ((is_testing (wifi_test_ctx s) \<or> wifi_default_status s = 5) \<and> ?same)" "\<not> is_testing (wifi_test_ctx s)"
    by (auto simp: repeats_test_def)
  then show thesis
  proof cases
    case 1
    then show thesis using that(3) [of "wifi_arm TestTimeoutTimer (hold_time ms) False ?s"]
      by (simp add: wifi_test_ssid_pwd_def wifi_get_status_def Let_def test_pending_def timer_armed_def wifi_disarm_def update_test_def)
  next
    case 2
    then show thesis using that(3) [of ?s]
      by (simp add: wifi_test_ssid_pwd_def wifi_get_status_def Let_def test_pending_def timer_armed_def wifi_disarm_def update_test_def)
  next
    case 3
    then show thesis by (rule that(2))
  next
    case 4
    then show thesis using that(1) by (auto simp: wifi_test_ssid_pwd_def wifi_get_status_def)
  next
    case 5
    then show thesis
      using that(4) [of "wifi_arm TestStartTimer 5000 False
          (wifi_disarm TestStartTimer (update_test (begin_test ssid pwd ms (station s)) (wifi_stop_scan s)))"]
      by (auto simp: wifi_test_ssid_pwd_def wifi_get_status_def Let_def timer_armed_def)
  qed
qed

lemma scanner_test:
  assumes "\<not> repeats_test (AskTest ssid pwd ms) s"
  shows "watched s \<Longrightarrow> watched (snd (wifi_test_ssid_pwd ssid pwd ms s))"
    and "scanner_ok s \<Longrightarrow> scanner_ok (snd (wifi_test_ssid_pwd ssid pwd ms s))"
  by (rule test_request_cases [of ssid pwd ms s]; use assms in \<open>simp add: scanner_defs\<close>)+

lemma scanner_step:
  assumes "scanner_ok s" and "left_alone env i s"
  shows "scanner_ok (wifi_step env i s)"
proof -
  have f: "\<not> env_fallback_ap_running env" and r: "\<not> repeats_test i s" "i \<noteq> AskStopScan"
    using assms(2) by (simp_all add: left_alone_def taken_up_def)
  show ?thesis
    using assms(1) r scanner_event [OF assms(1) f] scanner_timer [OF assms(1) f] scanner_done [OF assms(1)]
      scanner_test(2) [OF _ assms(1)]
    by (cases i) (auto simp: wifi_step_def scanner_defs set_my_auto_connect_def)
qed

lemma watched_event:
  assumes "watched s"
  shows "watched (wifi_handle_event_cb env evt s)"
proof -
  obtain t go where t: "test_event env evt s = (t, go)" by fastforce
  have ok: "watched t"
    using t assms by (auto simp: test_event_def scanner_defs Let_def split: if_splits system_event.splits)
  show ?thesis
  proof (cases go)
    case True
    then show ?thesis using ok t
      by (cases evt) (simp_all add: wifi_handle_event_cb_def Let_def scanner_defs)
  next
    case False
    then show ?thesis using ok t by (simp add: wifi_handle_event_cb_def Let_def)
  qed
qed

lemma watched_timer:
  assumes "watched s"
  shows "watched (wifi_timer_fires env t s)"
  using assms
  by (cases t) (auto simp: wifi_timer_fires_def scanner_defs Let_def wifi_scan_timer_func_def wifi_scan_timeout_timer_func_def
      delayed_reconnect_timer_func_def wifi_test_start_timer_func_def split: option.split)

lemma watched_done:
  assumes "watched s"
  shows "watched (wifi_scan_done_cb env found s)"
  using assms
  by (auto simp: wifi_scan_done_cb_def scanner_defs Let_def case_prod_unfold split: option.splits)

lemma watched_step:
  assumes "watched s" and "taken_up env i s"
  shows "watched (wifi_step env i s)"
  using assms watched_event [OF assms(1)] watched_timer [OF assms(1)] watched_done [OF assms(1)]
    scanner_test(1) [OF _ assms(1)]
  by (cases i) (auto simp: wifi_step_def taken_up_def scanner_defs set_my_auto_connect_def)

lemma scanner_connect: "scanner_ok (wifi_connect env cb (wifi_boot ns))"
  by (simp add: wifi_connect_def start_rssi_timer_def scanner_defs Let_def wifi_boot_def zero_test_def set_config_current_def
      wifi_start_scan_def wifi_emit_def wifi_arm_def wifi_disarm_def) blast

text \<open>
  C14: The scanner and a test of credentials are never left without a timer. Under every order of events of
  the SDK, timers and requests but one, a running scan is watched by its timeout and a test is carried on by
  one of its two timers; the timeout of a test ends the test and, unless a fallback access point is up, makes
  the next scan due. From the start, and from every request to scan, the next scan stays due, running or
  behind a test until a caller stops the scanner or a test ends while a fallback access point is up. The
  order left out is a second request for the network under test after its test has begun, which is lost
  (\<open>repeated_test_request_stalls\<close>).
\<close>

theorem wifi_scanner_never_stalls:
  assumes "wifi_run taken_up (wifi_connect env cb (wifi_boot ns)) s"
    and "u = wifi_connect env cb (wifi_boot ns) \<or> u = wifi_step env' (AskStartScan ms) s" and "wifi_run left_alone u t"
  shows "(wifi_scan_runnning s \<longrightarrow> timer_armed ScanTimeoutTimer s) \<and>
    (is_testing (wifi_test_ctx s) \<longrightarrow> timer_armed TestStartTimer s \<or> timer_armed TestTimeoutTimer s) \<and>
    (timer_armed TestTimeoutTimer s \<longrightarrow>
       (let r = wifi_step env'' (TimerFires TestTimeoutTimer) s
        in \<not> is_testing (wifi_test_ctx r) \<and> (timer_armed ScanTimer r \<or> env_fallback_ap_running env''))) \<and>
    (timer_armed ScanTimer t \<or> wifi_scan_runnning t \<or> timer_armed TestStartTimer t \<or> timer_armed TestTimeoutTimer t)"
proof -
  have s: "watched s"
    using assms(1) scanner_connect [of env cb ns]
    by (induction rule: wifi_run.induct) (simp_all add: scanner_ok_watched watched_step)
  then have "scanner_ok (wifi_step env' (AskStartScan ms) s)"
    by (simp add: wifi_step_def scanner_defs)
  then have "scanner_ok u" using assms(2) scanner_connect by auto
  with assms(3) have "scanner_ok t" by (induction rule: wifi_run.induct) (simp_all add: scanner_step)
  with s show ?thesis
    by (auto simp: scanner_defs wifi_step_def wifi_timer_fires_def split: option.split)
qed

text \<open>
  A second request for the network under test disarms the timeout and does not arm it again: when the network
  never answers, the test does not end and no scan is due.
\<close>

lemma repeated_test_request_stalls:
  assumes "is_testing (wifi_test_ctx s)" and "wifi_default_status s \<noteq> 5" and "c_chars (st_ssid (station s)) = ssid"
    and "\<not> timer_armed TestStartTimer s" and "\<not> timer_armed ScanTimer s" and "\<not> timer_armed ScanTimeoutTimer s"
  shows "\<exists>t. wifi_test_ssid_pwd ssid pwd ms s = (True, t) \<and> is_testing (wifi_test_ctx t) \<and> \<not> test_pending t \<and>
    \<not> timer_armed ScanTimer t \<and> \<not> timer_armed ScanTimeoutTimer t"
proof -
  have "wifi_test_ssid_pwd ssid pwd ms s = (True, wifi_disarm TestTimeoutTimer (update_test (\<lambda>c. c\<lparr>stay_time_ms := ms\<rparr>) s))"
    using assms(1-3) by (simp add: wifi_test_ssid_pwd_def wifi_get_status_def Let_def wifi_disarm_def update_test_def)
  then show ?thesis using assms by (simp add: scanner_defs)
qed

section \<open>Names of networks\<close>

lemma sprint_str: "sprint n ''%s'' [ArgStr s] = take (n - 1) s"
proof -
  have "ascii ''%s'' = 0x25 # 0x73 # []" by (simp add: ascii_def)
  then show ?thesis by (simp add: sprint_def format_s format_Nil)
qed

lemma c_chars_append: "0 \<notin> set xs \<Longrightarrow> c_chars (xs @ 0 # ys) = xs"
  unfolding c_chars_def by (induction xs) auto

lemma c_chars_print: "0 \<notin> set str \<Longrightarrow> c_chars (print_to buf n str) = take (n - 1) str"
  using c_chars_append [of "take (n - 1) str"] set_take_subset [of "n - 1" str]
  by (auto simp: print_to_def sprint_str put_bytes_def)

lemma c_chars_no_0: "0 \<notin> set (c_chars s)"
  by (auto simp: c_chars_def dest: set_takeWhileD)

lemma take_padded: "length xs < n \<Longrightarrow> take n (xs @ replicate n 0) = xs @ 0 # replicate (n - length xs - 1) 0"
  by (cases "n - length xs") (simp_all add: take_replicate min_def flip: replicate_Suc)

lemma c_chars_strncpy: "length (c_chars str) < n \<Longrightarrow> c_chars (strncpy_to buf str n) = c_chars str"
  unfolding strncpy_to_def put_bytes_def by (simp only: take_padded append.assoc append_Cons take_0 append_Nil c_chars_append c_chars_no_0 not_False_eq_True)

lemma restored_name:
  assumes "length (c_chars (saved_ssid tc)) < 32" and "length (c_chars (saved_pwd tc)) < 64"
  shows "c_chars (st_ssid (restored_config tc)) = c_chars (saved_ssid tc)"
    "c_chars (st_password (restored_config tc)) = c_chars (saved_pwd tc)"
proof -
  have *: "c_chars ((strncpy_to (replicate (Suc n) 0) str n)[n := 0]) = c_chars str" if "length (c_chars str) \<le> n" for str n
  proof -
    have "(strncpy_to (replicate (Suc n) 0) str n)[n := 0] = c_chars str @ 0 # replicate (n - length (c_chars str)) 0"
      using that by (intro nth_equalityI) (auto simp: strncpy_to_def put_bytes_def nth_append nth_list_update nth_Cons')
    then show ?thesis by (simp add: c_chars_append c_chars_no_0)
  qed
  show "c_chars (st_ssid (restored_config tc)) = c_chars (saved_ssid tc)"
    "c_chars (st_password (restored_config tc)) = c_chars (saved_pwd tc)"
    using * [of "saved_ssid tc" 31] * [of "saved_pwd tc" 63] assms by (simp_all add: restored_config_def)
qed

section \<open>Testing other credentials\<close>

definition same_saved :: "wifi_test_ctx_t \<Rightarrow> wifi_test_ctx_t \<Rightarrow> bool" where
  "same_saved a b \<longleftrightarrow> saved_ssid a = saved_ssid b \<and> saved_pwd a = saved_pwd b"

lemma same_saved_simps [simp]:
  "same_saved (c\<lparr>is_testing := b\<rparr>) d = same_saved c d" "same_saved (c\<lparr>pending_report := b\<rparr>) d = same_saved c d"
  "same_saved (c\<lparr>test_result_status := x\<rparr>) d = same_saved c d" "same_saved (c\<lparr>tested_rssi := x\<rparr>) d = same_saved c d"
  "same_saved (c\<lparr>fail_reason := x\<rparr>) d = same_saved c d" "same_saved (c\<lparr>attempt_time_ms := w\<rparr>) d = same_saved c d"
  "same_saved (c\<lparr>start_time := w\<rparr>) d = same_saved c d" "same_saved (c\<lparr>stay_time_ms := w\<rparr>) d = same_saved c d"
  by (simp_all add: same_saved_def)

lemma same_saved_timeout [simp]: "same_saved (wifi_test_ctx (wifi_test_timeout_timer_func env s)) d = same_saved (wifi_test_ctx s) d"
  by (simp add: wifi_test_timeout_timer_func_def Let_def)

lemma same_saved_step:
  assumes "\<forall>ssid pwd ms. i \<noteq> AskTest ssid pwd ms"
  shows "same_saved (wifi_test_ctx (wifi_step env i s)) d = same_saved (wifi_test_ctx s) d"
proof (cases i)
  case (SdkEvent evt)
  obtain t go where t: "test_event env evt s = (t, go)" by fastforce
  then have "same_saved (wifi_test_ctx t) d = same_saved (wifi_test_ctx s) d"
    by (auto simp: test_event_def Let_def split: if_splits system_event.splits)
  then show ?thesis using t SdkEvent
    by (cases evt; cases go) (simp_all add: wifi_step_def wifi_handle_event_cb_def Let_def)
next
  case (TimerFires t)
  then show ?thesis
    by (cases t) (simp_all add: wifi_step_def wifi_timer_fires_def Let_def wifi_scan_timer_func_def wifi_scan_timeout_timer_func_def
        delayed_reconnect_timer_func_def wifi_test_start_timer_func_def split: option.split)
next
  case (SdkScanDone found)
  then show ?thesis
    by (simp add: wifi_step_def wifi_scan_done_cb_def Let_def case_prod_unfold split: option.split)
qed (use assms in \<open>simp_all add: wifi_step_def set_my_auto_connect_def\<close>)

text \<open>Back on a network: its name and password are in use, the radio connects, and no test is left.\<close>

definition back_on :: "station_config \<Rightarrow> wifi \<Rightarrow> bool" where
  "back_on conf s \<longleftrightarrow> c_chars (st_ssid (station s)) = c_chars (st_ssid conf) \<and>
     c_chars (st_password (station s)) = c_chars (st_password conf) \<and> my_auto_connect s \<and> radio_busy_connecting s \<and>
     \<not> is_testing (wifi_test_ctx s)"

lemma kept_by_calls [simp]:
  "station (wifi_start_scan env ms s) = station s" "my_auto_connect (wifi_start_scan env ms s) = my_auto_connect s"
  "radio_busy_connecting (wifi_start_scan env ms s) = radio_busy_connecting s"
  "station (wifi_emit es s) = station s" "my_auto_connect (wifi_emit es s) = my_auto_connect s"
  "radio_busy_connecting (wifi_emit es s) = radio_busy_connecting s"
  "station (wifi_softap_ip_config env s) = station s" "my_auto_connect (wifi_softap_ip_config env s) = my_auto_connect s"
  "radio_busy_connecting (wifi_softap_ip_config env s) = radio_busy_connecting s"
  "station (wifi_disarm t s) = station s" "station (wifi_arm t n b s) = station s" "station (update_test f s) = station s"
  by (simp_all add: wifi_start_scan_def wifi_softap_ip_config_def wifi_emit_def wifi_arm_def wifi_disarm_def update_test_def Let_def
      split: option.split)

lemma back_after_timeout:
  assumes "same_saved (wifi_test_ctx s) c" and "length (c_chars (saved_ssid c)) < 32" and "length (c_chars (saved_pwd c)) < 64"
    and "c_chars (saved_ssid c) = c_chars (st_ssid conf)" and "c_chars (saved_pwd c) = c_chars (st_password conf)"
  shows "back_on conf (wifi_test_timeout_timer_func env s)"
proof -
  have r: "c_chars (st_ssid (station (wifi_test_restore_saved_station u))) = c_chars (st_ssid conf) \<and>
      c_chars (st_password (station (wifi_test_restore_saved_station u))) = c_chars (st_password conf) \<and>
      my_auto_connect (wifi_test_restore_saved_station u) \<and> radio_busy_connecting (wifi_test_restore_saved_station u)"
    if "same_saved (wifi_test_ctx u) c" for u
    using that assms(2-5) restored_name [of "wifi_test_ctx u"]
    by (simp add: wifi_test_restore_saved_station_def Let_def set_config_current_def same_saved_def)
  show ?thesis
    unfolding back_on_def using assms(1)
    by (simp add: wifi_test_timeout_timer_func_def Let_def r wifi_fallback_force_reset_state_def wifi_softap_config_def)
qed

text \<open>
  C21: A test of other credentials goes back to the network it came from. Whatever happens after a test was
  accepted, as long as no other one is asked for, the end of the test (its timeout, the end of the stay, or a
  refusal by the tested network) puts the name and the password that were in use at the request back and
  connects, and no test is left running.
\<close>

theorem wifi_test_goes_back:
  assumes "\<not> is_testing (wifi_test_ctx s0)" and "wifi_default_status s0 \<noteq> 5 \<or> \<not> strncmp_eq (c_chars (st_ssid (station s0))) ssid 32"
    and "length (c_chars (st_ssid (station s0))) < 32" and "length (c_chars (st_password (station s0))) < 64"
    and "wifi_run (\<lambda>env i s. \<forall>ssid pwd ms. i \<noteq> AskTest ssid pwd ms) (snd (wifi_test_ssid_pwd ssid pwd stay_ms s0)) s"
  shows "fst (wifi_test_ssid_pwd ssid pwd stay_ms s0) \<and>
    (timer_armed TestTimeoutTimer s \<longrightarrow> back_on (station s0) (wifi_step env (TimerFires TestTimeoutTimer) s)) \<and>
    (is_testing (wifi_test_ctx s) \<and> reason \<noteq> 8 \<longrightarrow>
       back_on (station s0) (wifi_step env (SdkEvent (STAMODE_DISCONNECTED reason)) s))"
proof -
  define c where "c = begin_test ssid pwd stay_ms (station s0) (wifi_test_ctx s0)"
  have t: "fst (wifi_test_ssid_pwd ssid pwd stay_ms s0)" "wifi_test_ctx (snd (wifi_test_ssid_pwd ssid pwd stay_ms s0)) = c"
    using assms(1,2) by (auto simp: wifi_test_ssid_pwd_def Let_def c_def wifi_get_status_def)
  have saved: "c_chars (saved_ssid c) = c_chars (st_ssid (station s0))" "c_chars (saved_pwd c) = c_chars (st_password (station s0))"
    using assms(3,4) by (simp_all add: c_def begin_test_def c_chars_strncpy)
  have s: "same_saved (wifi_test_ctx s) c"
    using assms(5)
  proof (induction rule: wifi_run.induct)
    case start
    then show ?case by (simp add: t same_saved_def)
  qed (simp add: same_saved_step)
  have b: "back_on (station s0) (wifi_test_timeout_timer_func env u)" if "same_saved (wifi_test_ctx u) c" for u
    using back_after_timeout [OF that _ _ saved] assms(3,4) saved by simp
  show ?thesis
    using t(1) s b
    by (auto simp: wifi_step_def wifi_timer_fires_def timer_armed_def wifi_handle_event_cb_def test_event_def Let_def)
qed

section \<open>The saved network and the fallback network\<close>

definition network :: "wifi \<Rightarrow> bytes" where
  "network s = c_chars (st_ssid (station s))"

definition shows_fallback :: "bss_info list \<Rightarrow> bool" where
  "shows_fallback infos \<longleftrightarrow> (\<exists>info \<in> set infos. bss_is info sta_fallback_ssid)"

text \<open>A scan that is finished with these results.\<close>

definition scanned :: "wifi_env \<Rightarrow> bss_info list \<Rightarrow> wifi \<Rightarrow> wifi" where
  "scanned env infos s = wifi_scan_done_cb env (Some infos) (s\<lparr>wifi_scan_runnning := True\<rparr>)"

definition scan_fields :: "wifi \<Rightarrow> station_config \<times> bool \<times> bool \<times> bool \<times> u8" where
  "scan_fields s = (station s, wifi_fallback_active s, wifi_fallback_last_present s, wifi_fallback_mqtt_connected s, fallback_miss_count s)"

lemma fold_entries:
  "scan_fields (fold (scan_entry env) infos s) = scan_fields s \<and>
   wifi_fallback_present (fold (scan_entry env) infos s) = (wifi_fallback_present s \<or> \<not> wifi_fallback_active s \<and> shows_fallback infos)"
proof (induction infos arbitrary: s)
  case (Cons info infos)
  have "scan_fields (scan_entry env info s) = scan_fields s"
    "wifi_fallback_present (scan_entry env info s) =
       (wifi_fallback_present s \<or> \<not> wifi_fallback_active s \<and> bss_is info sta_fallback_ssid)"
    by (simp_all add: scan_entry_def Let_def scan_fields_def wifi_emit_def)
  then show ?case using Cons.IH [of "scan_entry env info s"] by (auto simp: scan_fields_def shows_fallback_def)
qed (simp add: shows_fallback_def)

lemma scan_fields_simps [simp]:
  "scan_fields (wifi_start_scan env ms s) = scan_fields s" "scan_fields (wifi_disarm t s) = scan_fields s"
  "scan_fields (s\<lparr>wifi_scan_runnning := b\<rparr>) = scan_fields s" "scan_fields (wifi_emit es s) = scan_fields s"
  "scan_fields (s\<lparr>wifi_scan_result_cb := b\<rparr>) = scan_fields s" "scan_fields (s\<lparr>wifi_present := b\<rparr>) = scan_fields s"
  "scan_fields (s\<lparr>wifi_fallback_present := b\<rparr>) = scan_fields s" "scan_fields (wifi_arm t ms b s) = scan_fields s"
  by (simp_all add: scan_fields_def wifi_start_scan_def wifi_disarm_def wifi_emit_def wifi_arm_def Let_def)

lemma scan_fields_scanned:
  "\<exists>t. scan_fields (scanned env infos s) = scan_fields (fst (scan_decide env t)) \<and> scan_fields t = scan_fields s \<and>
     (wifi_fallback_present t \<longleftrightarrow> \<not> wifi_fallback_active s \<and> shows_fallback infos)"
proof -
  define u where "u = s\<lparr>wifi_scan_runnning := True, wifi_present := False, wifi_fallback_present := False\<rparr>"
  define t where "t = (fold (scan_entry env) infos u)\<lparr>wifi_scan_result_cb := False\<rparr>"
  have "scan_fields (scanned env infos s) = scan_fields (fst (scan_decide env t))"
    by (simp add: scanned_def wifi_scan_done_cb_def Let_def case_prod_unfold t_def u_def)
  moreover have "scan_fields u = scan_fields s" by (simp add: u_def)
  ultimately show ?thesis using fold_entries [of env infos u] by (intro exI [of _ t]) (simp add: t_def u_def)
qed

lemma network_fields: "network s = c_chars (st_ssid (fst (scan_fields s)))"
  by (simp add: network_def scan_fields_def)

lemma fields_default: "scan_fields (wifi_default env s) =
    (print_config (cfg_sta_ssid env) (cfg_sta_pwd env) (station s), False, wifi_fallback_last_present s, False, fallback_miss_count s)"
  by (simp add: wifi_default_def start_rssi_timer_def switch_network_def set_config_current_def Let_def)
    (simp add: scan_fields_def wifi_emit_def)

lemma fields_fallback: "scan_fields (wifi_fallback env s) =
    (print_config sta_fallback_ssid sta_fallback_pass (station s), True, wifi_fallback_last_present s, False, fallback_miss_count s)"
  by (simp add: wifi_fallback_def switch_network_def set_config_current_def Let_def)
    (simp add: scan_fields_def wifi_emit_def)

lemma scan_first_sight:
  assumes "\<not> wifi_fallback_active s" and "\<not> wifi_fallback_last_present s" and "shows_fallback infos"
  shows "scan_fields (scanned env infos s) = (print_config sta_fallback_ssid sta_fallback_pass (station s), True, True, False, 0)"
proof -
  obtain t where t: "scan_fields (scanned env infos s) = scan_fields (fst (scan_decide env t))" "scan_fields t = scan_fields s"
    "wifi_fallback_present t" using scan_fields_scanned [of env infos s] assms by auto
  have "scan_fields (fst (scan_decide env t)) =
      (let f = scan_fields (wifi_fallback env (t\<lparr>fallback_miss_count := 0\<rparr>)) in (fst f, fst (snd f), True, snd (snd (snd f))))"
    using t assms by (simp add: scan_decide_def Let_def scan_fields_def wifi_emit_def)
  then show ?thesis using t fields_fallback [of env "t\<lparr>fallback_miss_count := 0\<rparr>"] by (simp add: scan_fields_def)
qed

lemma scan_miss:
  assumes "wifi_fallback_active s \<or> \<not> shows_fallback infos" and "wifi_fallback_last_present s"
  shows "scan_fields (scanned env infos s) =
    (if 3 \<le> fallback_miss_count s + 1
     then (print_config (cfg_sta_ssid env) (cfg_sta_pwd env) (station s), False, False, False, 0)
     else (station s, wifi_fallback_active s, True, wifi_fallback_mqtt_connected s, fallback_miss_count s + 1))"
proof -
  obtain t where t: "scan_fields (scanned env infos s) = scan_fields (fst (scan_decide env t))" "scan_fields t = scan_fields s"
    "\<not> wifi_fallback_present t" using scan_fields_scanned [of env infos s] assms by auto
  have "scan_fields (fst (scan_decide env t)) =
      (if 3 \<le> fallback_miss_count t + 1
       then (let f = scan_fields (wifi_default env (t\<lparr>fallback_miss_count := fallback_miss_count t + 1\<rparr>))
             in (fst f, fst (snd f), False, fst (snd (snd (snd f))), 0))
       else scan_fields (t\<lparr>fallback_miss_count := fallback_miss_count t + 1\<rparr>))"
    using t assms by (simp add: scan_decide_def Let_def scan_fields_def wifi_emit_def)
  then show ?thesis
    using t assms(2) fields_default [of env "t\<lparr>fallback_miss_count := fallback_miss_count t + 1\<rparr>"] by (simp add: scan_fields_def)
qed

lemma scan_no_sight:
  assumes "\<not> shows_fallback infos" and "\<not> wifi_fallback_last_present s"
  shows "scan_fields (scanned env infos s) = scan_fields s"
proof -
  obtain t where t: "scan_fields (scanned env infos s) = scan_fields (fst (scan_decide env t))" "scan_fields t = scan_fields s"
    "\<not> wifi_fallback_present t" using scan_fields_scanned [of env infos s] assms by auto
  then show ?thesis using assms by (simp add: scan_decide_def scan_fields_def)
qed

text \<open>
  C29: A device on the saved network stays there as long as its scans do not show the fallback network, and goes
  to the fallback network with the first scan that shows it. From there the third scan brings it back to the
  saved network, and no earlier one, whatever the three scans show: also when the fallback network is in sight
  all the time, since a device that is on it does not look for it.
\<close>

theorem fallback_left_after_three_scans:
  assumes "\<not> wifi_fallback_active s" and "\<not> wifi_fallback_last_present s" and "0 \<notin> set (cfg_sta_ssid env3)"
  shows "if shows_fallback infos
    then let s0 = scanned env infos s; s1 = scanned env1 infos1 s0; s2 = scanned env2 infos2 s1; s3 = scanned env3 infos3 s2
         in network s0 = sta_fallback_ssid \<and> network s1 = sta_fallback_ssid \<and> network s2 = sta_fallback_ssid \<and>
            network s3 = take 31 (cfg_sta_ssid env3) \<and> \<not> wifi_fallback_active s3 \<and> \<not> wifi_fallback_last_present s3
    else network (scanned env infos s) = network s \<and> \<not> wifi_fallback_active (scanned env infos s)"
proof (cases "shows_fallback infos")
  case True
  define s0 where "s0 = scanned env infos s"
  define s1 where "s1 = scanned env1 infos1 s0"
  define s2 where "s2 = scanned env2 infos2 s1"
  have w: "\<not> (3 :: u8) \<le> 1" "\<not> (3 :: u8) \<le> 2" by (simp_all add: word_le_nat_alt)
  have f0: "scan_fields s0 = (print_config sta_fallback_ssid sta_fallback_pass (station s), True, True, False, 0)"
    unfolding s0_def by (rule scan_first_sight [OF assms(1,2) True])
  have f1: "scan_fields s1 = (station s0, True, True, False, 1)"
    unfolding s1_def using f0 w by (subst scan_miss) (simp_all add: scan_fields_def)
  have f2: "scan_fields s2 = (station s0, True, True, False, 2)"
    unfolding s2_def using f1 w by (subst scan_miss) (simp_all add: scan_fields_def)
  have f3: "scan_fields (scanned env3 infos3 s2) =
      (print_config (cfg_sta_ssid env3) (cfg_sta_pwd env3) (station s2), False, False, False, 0)"
    using f2 by (subst scan_miss) (simp_all add: scan_fields_def)
  have n: "0 \<notin> set sta_fallback_ssid" "length sta_fallback_ssid = 10"
    by (simp_all add: sta_fallback_ssid_def ascii_def)
  have "network s0 = sta_fallback_ssid" "network s1 = sta_fallback_ssid" "network s2 = sta_fallback_ssid"
    using f0 f1 f2 n by (simp_all add: network_def scan_fields_def print_config_def c_chars_print)
  moreover have "network (scanned env3 infos3 s2) = take 31 (cfg_sta_ssid env3)"
    "\<not> wifi_fallback_active (scanned env3 infos3 s2)" "\<not> wifi_fallback_last_present (scanned env3 infos3 s2)"
    using f3 assms(3) by (simp_all add: network_def scan_fields_def print_config_def c_chars_print)
  ultimately show ?thesis using True unfolding Let_def s0_def s1_def s2_def by simp
next
  case False
  then show ?thesis using scan_no_sight [OF False assms(2), of env] assms(1) by (simp add: network_def scan_fields_def)
qed

section \<open>The packet filter\<close>



text \<open>The interface's own function, which the filter calls, is never the filter itself.\<close>

lemma orig_kept [simp]:
  "orig_input_ap (wifi_emit es s) = orig_input_ap s" "orig_input_ap (wifi_disarm t s) = orig_input_ap s"
  "orig_input_ap (wifi_arm t ms b s) = orig_input_ap s" "orig_input_ap (update_test f s) = orig_input_ap s"
  "orig_input_ap (wifi_start_scan env ms s) = orig_input_ap s" "orig_input_ap (wifi_stop_scan s) = orig_input_ap s"
  by (simp_all add: wifi_emit_def wifi_disarm_def wifi_arm_def update_test_def wifi_start_scan_def wifi_stop_scan_def Let_def)

lemma orig_calls [simp]:
  "orig_input_ap (set_config_current conf s) = orig_input_ap s" "orig_input_ap (switch_network env ssid pwd s) = orig_input_ap s"
  "orig_input_ap (wifi_default env s) = orig_input_ap s" "orig_input_ap (wifi_fallback env s) = orig_input_ap s"
  "orig_input_ap (wifi_softap_ip_config env s) = orig_input_ap s" "orig_input_ap (wifi_softap_config ssid pass mode s) = orig_input_ap s"
  "orig_input_ap (wifi_fallback_force_reset_state s) = orig_input_ap s" "orig_input_ap (set_my_auto_connect b s) = orig_input_ap s"
  "orig_input_ap (wifi_test_restore_saved_station s) = orig_input_ap s" "orig_input_ap (reconnect_later s) = orig_input_ap s"
  by (simp_all add: set_config_current_def switch_network_def wifi_default_def start_rssi_timer_def wifi_fallback_def
      wifi_softap_ip_config_def wifi_softap_config_def wifi_fallback_force_reset_state_def set_my_auto_connect_def
      wifi_test_restore_saved_station_def reconnect_later_def Let_def split: option.split)







definition filtered :: "nat \<Rightarrow> wifi \<Rightarrow> bool" where
  "filtered k s \<longleftrightarrow> k < length (netif_list s) \<and> nif_input (netif_list s ! k) = MyInputAp"

lemma filtered_netifs: "netif_list t = netif_list s \<Longrightarrow> filtered k t = filtered k s"
  by (simp add: filtered_def)

lemma netifs_kept [simp]:
  "netif_list (wifi_emit es s) = netif_list s" "netif_list (wifi_disarm t s) = netif_list s"
  "netif_list (wifi_arm t ms b s) = netif_list s" "netif_list (update_test f s) = netif_list s"
  "netif_list (wifi_start_scan env ms s) = netif_list s" "netif_list (wifi_stop_scan s) = netif_list s"
  by (simp_all add: wifi_emit_def wifi_disarm_def wifi_arm_def update_test_def wifi_start_scan_def wifi_stop_scan_def Let_def)

lemma netifs_calls [simp]:
  "netif_list (set_config_current conf s) = netif_list s" "netif_list (switch_network env ssid pwd s) = netif_list s"
  "netif_list (wifi_default env s) = netif_list s" "netif_list (wifi_fallback env s) = netif_list s"
  "netif_list (wifi_softap_config ssid pass mode s) = netif_list s"
  "netif_list (wifi_fallback_force_reset_state s) = netif_list s" "netif_list (set_my_auto_connect b s) = netif_list s"
  "netif_list (wifi_test_restore_saved_station s) = netif_list s" "netif_list (reconnect_later s) = netif_list s"
  by (simp_all add: set_config_current_def switch_network_def wifi_default_def start_rssi_timer_def wifi_fallback_def
      wifi_softap_config_def wifi_fallback_force_reset_state_def set_my_auto_connect_def
      wifi_test_restore_saved_station_def reconnect_later_def Let_def)

lemma netifs_scan [simp]:
  "netif_list (fst (scan_decide env s)) = netif_list s" "netif_list (fold (scan_entry env) infos s) = netif_list s"
  "netif_list (wifi_scan_done_cb env found s) = netif_list s"
  "netif_list (snd (wifi_test_ssid_pwd ssid pwd ms s)) = netif_list s"
proof -
  show d: "netif_list (fst (scan_decide env s)) = netif_list s" for s by (simp add: scan_decide_def Let_def)
  show e: "netif_list (fold (scan_entry env) infos s) = netif_list s" for infos s
    by (induction infos arbitrary: s) (simp_all add: scan_entry_def Let_def)
  show "netif_list (wifi_scan_done_cb env found s) = netif_list s"
    by (simp add: wifi_scan_done_cb_def Let_def case_prod_unfold d e split: option.split)
  show "netif_list (snd (wifi_test_ssid_pwd ssid pwd ms s)) = netif_list s" by (simp add: wifi_test_ssid_pwd_def Let_def)
qed
















text \<open>A station that joins during a test is not filtered.\<close>

lemma join_during_test: "is_testing (wifi_test_ctx s) \<Longrightarrow> wifi_step env (SdkEvent SOFTAPMODE_STACONNECTED) s = s"
  by (simp add: wifi_step_def wifi_handle_event_cb_def test_event_def)

text \<open>
  The filter lets through exactly what it should of the UDP and TCP traffic, with and without IP options:
  requests for addresses to the broadcast address, questions to the name server, and everything that is not
  addressed to the uplink network.
\<close>

theorem acl_policy:
  assumes "length macs = 12" and "length h = 8" and "length g = 6" and "5 \<le> unat (vhl AND 0x0F)"
    and "length opts = 4 * unat (vhl AND 0x0F) - 20"
    and "proto = 17 \<and> 4 \<le> length rest \<or> proto = 6 \<and> 16 \<le> length rest"
  shows "acl_check_packet dns net netmask
      (macs @ [0x08, 0x00, vhl] @ h @ [proto] @ g @ [a, b, c, d] @ opts @ [s1, s2, d1, d2] @ rest) \<longleftrightarrow>
    Ip a b c d = Ip 255 255 255 255 \<and> be16 d1 d2 = 67 \<or> Ip a b c d = dns \<and> be16 d1 d2 = 53 \<or>
    ip_and (Ip a b c d) netmask \<noteq> net"
proof -
  define p where "p = macs @ [0x08, 0x00, vhl] @ h @ [proto] @ g @ [a, b, c, d] @ opts @ [s1, s2, d1, d2] @ rest"
  define hl where "hl = unat (vhl AND 0x0F)"
  have type: "p ! 12 = 0x08" "p ! 13 = 0x00" "p ! 14 = vhl" "p ! 23 = proto"
    using assms(1,2) by (simp_all add: p_def nth_append)
  have dst: "p ! 30 = a" "p ! 31 = b" "p ! 32 = c" "p ! 33 = d"
    using assms(1-3) by (simp_all add: p_def nth_append)
  define pre where "pre = macs @ [0x08, 0x00, vhl] @ h @ [proto] @ g @ [a, b, c, d] @ opts"
  have pre: "p = pre @ [s1, s2, d1, d2] @ rest" "length pre = 14 + hl * 4"
    using assms(1-5) by (simp_all add: p_def pre_def hl_def)
  have port: "p ! (14 + hl * 4 + 2) = d1" "p ! (14 + hl * 4 + 2 + 1) = d2" "length p = 14 + 4 * hl + 4 + length rest"
    using pre(2) by (simp_all add: pre(1) nth_append)
  have "be16 0x08 0x00 = 0x0800" by (simp add: be16_def)
  then show ?thesis
    using assms(4,6) port type dst unfolding p_def [symmetric]
    by (auto simp: acl_check_packet_def Let_def hl_def)
qed

section \<open>Examples\<close>

definition sample_env :: wifi_env where
  "sample_env = \<lparr>cfg_sta_ssid = ascii ''home'', cfg_sta_pwd = ascii ''pw'', cfg_ap_enabled = True, env_uptime = 0,
     env_connect_status = 5, env_station_rssi = 0, env_system_time = 0, env_scan_accepted = True,
     env_dns_server = Ip 0 0 0 0, env_dhcpc_stopped = False, env_fallback_ap_running = False\<rparr>"

definition sample_conf :: station_config where
  "sample_conf = \<lparr>st_ssid = ascii ''home'' @ 0 # replicate 27 0, st_password = ascii ''pw'' @ 0 # replicate 61 0\<rparr>"

definition sample_frame :: bytes where
  "sample_frame = replicate 12 0 @ [0x08, 0x06]"

lemma connected_fields:
  "wifi_test_ctx (wifi_connect env cb (wifi_boot ns)) = zero_test" "wifi_default_status (wifi_connect env cb (wifi_boot ns)) = 1"
  "netif_list (wifi_connect env cb (wifi_boot ns)) = ns"
  "ap_network_addr (wifi_connect env cb (wifi_boot ns)) = Ip 0 0 0 0"
  by (simp_all add: wifi_connect_def start_rssi_timer_def Let_def)
    (simp_all add: wifi_boot_def wifi_start_scan_def set_config_current_def wifi_emit_def wifi_arm_def wifi_disarm_def Let_def)

text \<open>The witness: a test that has begun, a scan asked for meanwhile, and the end of the test.\<close>

theorem wifi_scanner_never_stalls_witness:
  "let s1 = wifi_step sample_env (AskTest (ascii ''other'') [] 0) (wifi_connect sample_env True (wifi_boot []));
       s = wifi_step sample_env (TimerFires TestStartTimer) s1;
       t = wifi_step sample_env (TimerFires TestTimeoutTimer) (wifi_step sample_env (AskStartScan 5000) s)
   in is_testing (wifi_test_ctx s) \<and> (timer_armed TestStartTimer s \<or> timer_armed TestTimeoutTimer s) \<and>
      (timer_armed ScanTimer t \<or> wifi_scan_runnning t \<or> timer_armed TestStartTimer t \<or> timer_armed TestTimeoutTimer t)"
proof -
  let ?boot = "wifi_connect sample_env True (wifi_boot [])"
  let ?asked = "wifi_step sample_env (AskTest (ascii ''other'') [] 0) ?boot"
  let ?s = "wifi_step sample_env (TimerFires TestStartTimer) ?asked"
  let ?u = "wifi_step sample_env (AskStartScan 5000) ?s"
  let ?t = "wifi_step sample_env (TimerFires TestTimeoutTimer) ?u"
  have "taken_up sample_env (AskTest (ascii ''other'') [] 0) ?boot"
    by (simp add: taken_up_def repeats_test_def connected_fields zero_test_def)
  then have "wifi_run taken_up ?boot ?asked" by (rule wifi_run.step [OF wifi_run.start])
  then have s: "wifi_run taken_up ?boot ?s"
    by (rule wifi_run.step [where i = "TimerFires TestStartTimer"]) (simp add: taken_up_def repeats_test_def)
  have t: "wifi_run left_alone ?u ?t"
    by (rule wifi_run.step [OF wifi_run.start]) (simp add: left_alone_def taken_up_def repeats_test_def sample_env_def)
  have "is_testing (wifi_test_ctx ?asked)"
    by (simp add: wifi_step_def wifi_test_ssid_pwd_def wifi_get_status_def connected_fields zero_test_def begin_test_def Let_def)
  then have "is_testing (wifi_test_ctx ?s)"
    by (simp add: wifi_step_def [of sample_env "TimerFires TestStartTimer"] wifi_timer_fires_def wifi_test_start_timer_func_def
        Let_def split: option.split)
  then show ?thesis
    using wifi_scanner_never_stalls [OF s disjI2 t, of sample_env 5000 sample_env] by (simp add: Let_def)
qed

theorem wifi_test_goes_back_witness:
  "let s = wifi_test_ssid_pwd (ascii ''other'') [] 0 (wifi_boot []\<lparr>station := sample_conf\<rparr>)
   in fst s \<and> back_on sample_conf (wifi_step sample_env (SdkEvent (STAMODE_DISCONNECTED 2)) (snd s))"
proof -
  have "c_chars (st_ssid sample_conf) = ascii ''home''" "c_chars (st_password sample_conf) = ascii ''pw''"
    unfolding sample_conf_def station_config.simps by (rule c_chars_append, simp add: ascii_def)+
  then show ?thesis
    using wifi_test_goes_back [OF _ _ _ _ wifi_run.start, of "wifi_boot []\<lparr>station := sample_conf\<rparr>" "ascii ''other''" "[]" 0
        sample_env 2]
    by (simp add: wifi_boot_def zero_test_def Let_def wifi_test_ssid_pwd_def wifi_get_status_def begin_test_def wifi_stop_scan_def)
qed

theorem fallback_left_after_three_scans_witness:
  "let s0 = scanned sample_env [\<lparr>bss_ssid = sta_fallback_ssid, bss_ssid_len = 10, bss_channel = 1\<rparr>] (wifi_boot []);
       s3 = scanned sample_env [] (scanned sample_env [] (scanned sample_env [] s0))
   in network s0 = ascii ''stofferFon'' \<and> network s3 = ascii ''home''"
proof -
  have "shows_fallback [\<lparr>bss_ssid = sta_fallback_ssid, bss_ssid_len = 10, bss_channel = 1\<rparr>]"
    by (simp add: shows_fallback_def bss_is_def sta_fallback_ssid_def)
  moreover have "0 \<notin> set (cfg_sta_ssid sample_env)" "take 31 (cfg_sta_ssid sample_env) = ascii ''home''"
    by (simp_all add: sample_env_def ascii_def)
  ultimately show ?thesis
    using fallback_left_after_three_scans [of "wifi_boot []" sample_env "[\<lparr>bss_ssid = sta_fallback_ssid, bss_ssid_len = 10, bss_channel = 1\<rparr>]"
        sample_env sample_env "[]" sample_env "[]" "[]"]
    by (simp add: Let_def sta_fallback_ssid_def wifi_boot_def)
qed






theorem acl_policy_witness:
  "acl_check_packet (Ip 8 8 8 8) (Ip 192 168 1 0) (Ip 255 255 255 0)
     (replicate 12 0 @ [0x08, 0x00, 0x45] @ replicate 8 0 @ [17] @ replicate 6 0 @ [8, 8, 8, 8] @ [] @ [1, 2, 0, 53] @ replicate 4 0)"
  by (subst acl_policy) (simp_all add: be16_def)

end
