(* ===== verification/Ping.thy ===== *)
theory Ping
  imports Complex_Main Fifo
begin

text \<open>
  \<open>user/icmp_ping.c\<close>: the MQTT host is pinged once a minute, and the network quality is the moving average of
  the last 60 results. The ring buffer of the file is a third provider of the interface \<open>bounded_fifo\<close>;
  used with \<open>ring_buffer_remove_last\<close> before a put into a full buffer it keeps the last 60 values.

  The two averages are the quotients before they are rounded to a \<open>float\<close>.
\<close>

section \<open>The ring buffer\<close>

record ring_buffer =
  rng_buffer :: "u32 list"
  rng_fill_count :: u8
  rng_h :: u8
  rng_t :: u8

definition ring_buffer_put :: "ring_buffer \<Rightarrow> u32 \<Rightarrow> ring_buffer option" where
  "ring_buffer_put r c =
     (if rng_fill_count r \<noteq> 60 then
        let r = r\<lparr>rng_buffer := (rng_buffer r)[unat (rng_h r) mod 60 := c], rng_h := rng_h r + 1\<rparr>;
            r = (if rng_h r = 60 then r\<lparr>rng_h := 0\<rparr> else r)
        in Some (r\<lparr>rng_fill_count := rng_fill_count r + 1\<rparr>)
      else None)"

definition ring_buffer_remove_last :: "ring_buffer \<Rightarrow> ring_buffer option" where
  "ring_buffer_remove_last r =
     (if rng_fill_count r \<noteq> 0 then
        let r = r\<lparr>rng_t := rng_t r + 1\<rparr>;
            r = (if rng_t r = 60 then r\<lparr>rng_t := 0\<rparr> else r)
        in Some (r\<lparr>rng_fill_count := rng_fill_count r - 1\<rparr>)
      else None)"

definition ring_buffer_snoop :: "ring_buffer \<Rightarrow> u8 \<Rightarrow> u32 option" where
  "ring_buffer_snoop r pos =
     (if rng_fill_count r > pos then Some (rng_buffer r ! ((unat (rng_t r) + unat pos) mod 60)) else None)"

section \<open>Pings\<close>

datatype ping_event = DnsLookup | PingStart

record ping =
  ping_out :: "ping_event list"
  ping_count :: u32
  ping_average_response_time_ms :: rat
  ping_average_packet_loss :: rat
  ping_response_time_ring_buffer :: ring_buffer
  ping_packet_loss_ring_buffer :: ring_buffer

definition icmp_ping :: "ping \<Rightarrow> ping" where
  "icmp_ping s = s\<lparr>ping_count := ping_count s + 1, ping_out := ping_out s @ [PingStart]\<rparr>"

text \<open>The address of the host, or NULL.\<close>

definition dns_found :: "'ip option \<Rightarrow> ping \<Rightarrow> ping" where
  "dns_found ip s = (case ip of None \<Rightarrow> s | Some _ \<Rightarrow> icmp_ping s)"

text \<open>The lookup gives the address at once (\<open>ERR_OK\<close>), or nothing yet.\<close>

definition icmp_ping_mqtt_host :: "bool \<Rightarrow> bool \<Rightarrow> ping \<Rightarrow> ping" where
  "icmp_ping_mqtt_host ota_in_progress dns_ok s =
     (if ota_in_progress then s
      else
        let s = s\<lparr>ping_out := ping_out s @ [DnsLookup]\<rparr>
        in if dns_ok then icmp_ping s else s)"

definition init_icmp_ping :: "ping \<Rightarrow> ping" where
  "init_icmp_ping s =
     s\<lparr>ping_response_time_ring_buffer :=
         (ping_response_time_ring_buffer s)\<lparr>rng_fill_count := 0, rng_h := 0, rng_t := 0\<rparr>,
       ping_packet_loss_ring_buffer :=
         (ping_packet_loss_ring_buffer s)\<lparr>rng_fill_count := 0, rng_h := 0, rng_t := 0\<rparr>\<rparr>"

text \<open>Removing and putting as the callback does it: the results of the two calls are not looked at.\<close>

definition ring_buffer_record :: "ring_buffer \<Rightarrow> u32 \<Rightarrow> ring_buffer" where
  "ring_buffer_record r c =
     (let r = (if rng_fill_count r = 60
               then (case ring_buffer_remove_last r of None \<Rightarrow> r | Some r \<Rightarrow> r) else r)
      in case ring_buffer_put r c of None \<Rightarrow> r | Some r \<Rightarrow> r)"

text \<open>The loop over the buffer: \<open>data\<close> keeps its value when there is nothing to see.\<close>

definition ring_buffer_sum :: "ring_buffer \<Rightarrow> u32" where
  "ring_buffer_sum r =
     snd (fold (\<lambda>i (data, total).
                  let data = (case ring_buffer_snoop r (of_nat i) of None \<Rightarrow> data | Some d \<Rightarrow> d) in (data, total + data))
           [0..<unat (rng_fill_count r)] (0, 0))"

definition ring_buffer_average :: "ring_buffer \<Rightarrow> rat \<Rightarrow> rat" where
  "ring_buffer_average r old =
     (if rng_fill_count r > 0 then of_nat (unat (ring_buffer_sum r)) / of_nat (unat (rng_fill_count r)) else old)"

text \<open>The answer: its time, or no answer.\<close>

definition icmp_ping_recv :: "u32 option \<Rightarrow> ping \<Rightarrow> ping" where
  "icmp_ping_recv answer s =
     (let s =
        (case answer of
           None \<Rightarrow> s\<lparr>ping_packet_loss_ring_buffer := ring_buffer_record (ping_packet_loss_ring_buffer s) 1\<rparr>
         | Some time \<Rightarrow>
             let s = s\<lparr>ping_packet_loss_ring_buffer := ring_buffer_record (ping_packet_loss_ring_buffer s) 0\<rparr>;
                 s = s\<lparr>ping_response_time_ring_buffer := ring_buffer_record (ping_response_time_ring_buffer s) time\<rparr>
             in s\<lparr>ping_average_response_time_ms :=
                    ring_buffer_average (ping_response_time_ring_buffer s) (ping_average_response_time_ms s)\<rparr>)
      in s\<lparr>ping_average_packet_loss := ring_buffer_average (ping_packet_loss_ring_buffer s) (ping_average_packet_loss s)\<rparr>)"

section \<open>The ring buffer is a bounded queue\<close>

definition rng_ok :: "ring_buffer \<Rightarrow> bool" where
  "rng_ok r \<longleftrightarrow> length (rng_buffer r) = 60 \<and> unat (rng_fill_count r) \<le> 60 \<and> unat (rng_t r) < 60 \<and>
     unat (rng_h r) = (unat (rng_t r) + unat (rng_fill_count r)) mod 60"

definition rng_list :: "ring_buffer \<Rightarrow> u32 list" where
  "rng_list r = map (\<lambda>i. rng_buffer r ! ((unat (rng_t r) + i) mod 60)) [0..<unat (rng_fill_count r)]"

lemma length_rng_list [simp]: "length (rng_list r) = unat (rng_fill_count r)"
  by (simp add: rng_list_def)

lemma unat_suc: "unat (w :: u8) < 255 \<Longrightarrow> unat (w + 1) = unat w + 1"
  by (simp add: unat_add_lem [THEN iffD1])

lemma fill_eq: "(w :: u8) = 60 \<longleftrightarrow> unat w = 60" "(w :: u8) = 0 \<longleftrightarrow> unat w = 0"
  by (auto simp: word_unat_eq_iff)

definition rng_step :: "u8 \<Rightarrow> u8" where
  "rng_step w = (if w + 1 = 60 then 0 else w + 1)"

lemma unat_rng_step: "unat w < 60 \<Longrightarrow> unat (rng_step w) = (unat w + 1) mod 60"
  by (simp add: rng_step_def fill_eq(1) unat_suc)

lemma put_eq: "ring_buffer_put r c =
   (if rng_fill_count r = 60 then None
    else Some (r\<lparr>rng_buffer := (rng_buffer r)[unat (rng_h r) mod 60 := c], rng_h := rng_step (rng_h r),
                 rng_fill_count := rng_fill_count r + 1\<rparr>))"
  by (simp add: ring_buffer_put_def Let_def rng_step_def)

lemma remove_eq: "ring_buffer_remove_last r =
   (if rng_fill_count r = 0 then None else Some (r\<lparr>rng_t := rng_step (rng_t r), rng_fill_count := rng_fill_count r - 1\<rparr>))"
  by (simp add: ring_buffer_remove_last_def Let_def rng_step_def)

lemma put_ok:
  assumes "rng_ok r" and "unat (rng_fill_count r) < 60"
  shows "\<exists>q. ring_buffer_put r c = Some q \<and> rng_ok q \<and> rng_list q = rng_list r @ [c]"
proof -
  define n where "n = unat (rng_fill_count r)"
  define q where "q = r\<lparr>rng_buffer := (rng_buffer r)[unat (rng_h r) mod 60 := c], rng_h := rng_step (rng_h r),
                 rng_fill_count := rng_fill_count r + 1\<rparr>"
  have r: "length (rng_buffer r) = 60" "unat (rng_t r) < 60" "unat (rng_h r) = (unat (rng_t r) + n) mod 60"
    using assms by (auto simp: rng_ok_def n_def)
  have n: "n < 60" "unat (rng_fill_count r + 1) = n + 1" using assms(2) by (simp_all add: n_def unat_suc)
  have h: "unat (rng_h r) < 60" using r(3) by simp
  have "rng_ok q"
    using r n by (simp add: rng_ok_def q_def unat_rng_step [OF h] mod_simps add.assoc)
  moreover have "rng_list q = rng_list r @ [c]"
  proof (rule nth_equalityI)
    fix i assume "i < length (rng_list q)"
    then have i: "i < n + 1" by (simp add: q_def n)
    have "(unat (rng_t r) + i) mod 60 \<noteq> unat (rng_h r)" if "i < n"
      using that r n(1) by (auto simp: mod_if split: if_splits)
    then show "rng_list q ! i = (rng_list r @ [c]) ! i"
      using i r n h by (auto simp: rng_list_def q_def nth_append n_def [symmetric] less_Suc_eq)
  qed (simp add: q_def n n_def)
  ultimately show ?thesis using n(1) by (auto simp: put_eq q_def n_def fill_eq)
qed

lemma remove_ok:
  assumes "rng_ok r" and "rng_list r = b # bs"
  shows "\<exists>q. ring_buffer_remove_last r = Some q \<and> rng_ok q \<and> rng_list q = bs"
proof -
  define q where "q = r\<lparr>rng_t := rng_step (rng_t r), rng_fill_count := rng_fill_count r - 1\<rparr>"
  have n: "unat (rng_fill_count r) = Suc (length bs)" using arg_cong [OF assms(2), of length] by simp
  then have f: "unat (rng_fill_count r - 1) = length bs" by (simp add: unat_minus_one fill_eq)
  have t: "unat (rng_t r) < 60" using assms(1) by (simp add: rng_ok_def)
  have "rng_ok q" using assms(1) n f t
    by (simp add: rng_ok_def q_def unat_rng_step mod_simps)
  moreover have "rng_list q = tl (rng_list r)"
    using n f t by (intro nth_equalityI) (simp_all add: rng_list_def q_def unat_rng_step mod_simps nth_tl del: upt_Suc)
  ultimately show ?thesis using assms(2) n by (simp add: remove_eq q_def fill_eq)
qed

definition ring_buffer_take :: "ring_buffer \<Rightarrow> (u32 \<times> ring_buffer) option" where
  "ring_buffer_take r =
     (case ring_buffer_snoop r 0 of None \<Rightarrow> None | Some c \<Rightarrow> map_option (Pair c) (ring_buffer_remove_last r))"

lemma snoop_list: "ring_buffer_snoop r pos = (if unat pos < length (rng_list r) then Some (rng_list r ! unat pos) else None)"
  by (simp add: ring_buffer_snoop_def rng_list_def word_less_nat_alt)

interpretation png: bounded_fifo ring_buffer_put ring_buffer_take rng_list "\<lambda>r. 60" rng_ok
proof (unfold_locales, goal_cases)
  case (1 r b)
  then show ?case using put_ok by simp
next
  case (2 r b)
  then show ?case by (auto simp: put_eq fill_eq rng_ok_def)
next
  case (3 r)
  then show ?case by (simp add: ring_buffer_take_def snoop_list)
next
  case (4 r b bs)
  then show ?case using remove_ok [OF 4] arg_cong [OF 4(2), of length] by (auto simp: ring_buffer_take_def snoop_list)
qed

section \<open>The buffer as a window\<close>

definition last_n :: "nat \<Rightarrow> 'a list \<Rightarrow> 'a list" where
  "last_n n xs = drop (length xs - n) xs"

lemma last_n_snoc: "last_n n (last_n n xs @ [x]) = last_n n (xs @ [x])"
  by (cases "length xs < n") (simp_all add: last_n_def Suc_diff_le)

definition slide :: "('q \<Rightarrow> 'b \<Rightarrow> 'q option) \<Rightarrow> ('q \<Rightarrow> ('b \<times> 'q) option) \<Rightarrow> ('q \<Rightarrow> bool) \<Rightarrow> 'q \<Rightarrow> 'b \<Rightarrow> 'q" where
  "slide put get full q b =
     (let q = (if full q then (case get q of None \<Rightarrow> q | Some (_, q) \<Rightarrow> q) else q)
      in case put q b of None \<Rightarrow> q | Some q \<Rightarrow> q)"

text \<open>A bounded queue whose owner makes room before it puts: it holds the values put last.\<close>

locale window = bounded_fifo +
  fixes full :: "'q \<Rightarrow> bool"
  assumes full_iff: "inv q \<Longrightarrow> full q \<longleftrightarrow> length (contents q) = capacity q"
    and bounded: "inv q \<Longrightarrow> length (contents q) \<le> capacity q"
    and room: "inv q \<Longrightarrow> 0 < capacity q"
begin

lemma slide_contents:
  assumes "inv q"
  shows "inv (slide put get full q b) \<and> capacity (slide put get full q b) = capacity q \<and>
    contents (slide put get full q b) = last_n (capacity q) (contents q @ [b])"
proof (cases "full q")
  case True
  then have f: "length (contents q) = capacity q" using full_iff [OF assms] by simp
  then obtain c cs where c: "contents q = c # cs" using room [OF assms] by (cases "contents q") auto
  obtain r where r: "get q = Some (c, r)" "inv r" "contents r = cs" "capacity r = capacity q" using get_cons [OF assms c] by blast
  then have "length (contents r) < capacity r" using f c by simp
  from put_room [OF r(2) this, of b] r f c True show ?thesis by (auto simp: slide_def last_n_def)
next
  case False
  then have "length (contents q) < capacity q" using full_iff [OF assms] bounded [OF assms] by simp
  from put_room [OF assms this, of b] this False show ?thesis by (auto simp: slide_def last_n_def)
qed

lemma slides_contents:
  assumes "inv q"
  shows "inv (fold (\<lambda>b q. slide put get full q b) bs q) \<and> capacity (fold (\<lambda>b q. slide put get full q b) bs q) = capacity q \<and>
    contents (fold (\<lambda>b q. slide put get full q b) bs q) = last_n (capacity q) (contents q @ bs)"
proof (induction bs rule: rev_induct)
  case Nil
  then show ?case using assms bounded by (simp add: last_n_def)
next
  case (snoc b bs)
  then show ?case
    using slide_contents [of "fold (\<lambda>b q. slide put get full q b) bs q" b] by (simp add: last_n_snoc)
qed

end

interpretation png: window ring_buffer_put ring_buffer_take rng_list "\<lambda>r. 60" rng_ok "\<lambda>r. rng_fill_count r = 60"
  by unfold_locales (simp_all add: fill_eq, simp add: rng_ok_def)

lemma record_slides: "ring_buffer_record r c = slide ring_buffer_put ring_buffer_take (\<lambda>r. rng_fill_count r = 60) r c"
  by (simp add: ring_buffer_record_def slide_def ring_buffer_take_def ring_buffer_snoop_def remove_eq Let_def split: option.split)

section \<open>The averages\<close>

lemma sum_prefix:
  assumes "n \<le> length (rng_list r)" and "length (rng_list r) \<le> 60"
  shows "snd (fold (\<lambda>i (data, total).
      let data = (case ring_buffer_snoop r (of_nat i) of None \<Rightarrow> data | Some d \<Rightarrow> d) in (data, total + data)) [0..<n] (0, 0)) =
    sum_list (take n (rng_list r))"
  using assms(1)
proof (induction n)
  case (Suc n)
  have "unat (of_nat n :: u8) = n" using Suc.prems assms(2) by (simp add: unat_of_nat take_bit_eq_mod)
  then show ?case using Suc by (simp add: case_prod_unfold Let_def snoop_list take_Suc_conv_app_nth)
qed simp

lemma sum_list_window: "rng_ok r \<Longrightarrow> ring_buffer_sum r = sum_list (rng_list r)"
  using sum_prefix [of "unat (rng_fill_count r)" r] by (simp add: ring_buffer_sum_def rng_ok_def)

lemma unat_sum_list:
  assumes "sum_list (map unat ws) < 2 ^ 32"
  shows "unat (sum_list (ws :: u32 list)) = sum_list (map unat ws)"
  using assms
proof (induction ws)
  case (Cons w ws)
  then have "unat (sum_list ws) = sum_list (map unat ws)" by simp
  then show ?case using Cons.prems by (simp add: unat_word_ariths)
qed simp

definition answers :: "u32 option list \<Rightarrow> u32 list" where
  "answers rs = map the (filter (\<lambda>r. r \<noteq> None) rs)"

definition losses :: "u32 option list \<Rightarrow> u32 list" where
  "losses rs = map (\<lambda>r. if r = None then 1 else 0) rs"

lemma windows:
  assumes "length (rng_buffer (ping_response_time_ring_buffer s)) = 60" and "length (rng_buffer (ping_packet_loss_ring_buffer s)) = 60"
  shows "let t = fold icmp_ping_recv rs (init_icmp_ping s)
    in rng_ok (ping_packet_loss_ring_buffer t) \<and> rng_list (ping_packet_loss_ring_buffer t) = last_n 60 (losses rs) \<and>
       rng_ok (ping_response_time_ring_buffer t) \<and> rng_list (ping_response_time_ring_buffer t) = last_n 60 (answers rs)"
proof -
  define q where "q r = r\<lparr>rng_fill_count := 0, rng_h := 0, rng_t := 0\<rparr>" for r :: ring_buffer
  define rec where "rec xs r = fold (\<lambda>b q. ring_buffer_record q b) xs (q r)" for xs r
  have "ping_packet_loss_ring_buffer (fold icmp_ping_recv rs (init_icmp_ping s)) = rec (losses rs) (ping_packet_loss_ring_buffer s) \<and>
    ping_response_time_ring_buffer (fold icmp_ping_recv rs (init_icmp_ping s)) = rec (answers rs) (ping_response_time_ring_buffer s)"
    by (induction rs rule: rev_induct)
      (auto simp: init_icmp_ping_def rec_def q_def losses_def answers_def icmp_ping_recv_def Let_def split: option.split)
  moreover have "rng_ok (rec xs r) \<and> rng_list (rec xs r) = last_n 60 xs" if "length (rng_buffer r) = 60" for xs r
    using png.slides_contents [of "q r" xs] that by (simp add: rec_def record_slides q_def rng_ok_def rng_list_def)
  ultimately show ?thesis using assms by (simp add: Let_def)
qed

lemma last_n_map: "last_n n (map f xs) = map f (last_n n xs)"
  by (simp add: last_n_def drop_map)

lemma sum_losses: "sum_list (map unat (losses rs)) = count_list rs None"
  by (induction rs) (simp_all add: losses_def)

lemma losses_window: "sum_list (map unat (last_n n (losses rs))) = count_list (last_n n rs) None"
    "length (last_n n (losses rs)) = length (last_n n rs)"
  by (simp_all add: last_n_map losses_def sum_losses [unfolded losses_def, symmetric])

lemma last_n_Nil: "0 < n \<Longrightarrow> last_n n xs = [] \<longleftrightarrow> xs = []"
  by (cases xs) (auto simp: last_n_def)

definition mean :: "u32 list \<Rightarrow> rat" where
  "mean xs = of_nat (sum_list (map unat xs)) / of_nat (length xs)"

lemma sum_list_bound: "\<forall>x \<in> set xs. unat (x :: u32) \<le> k \<Longrightarrow> sum_list (map unat xs) \<le> length xs * k"
  by (induction xs) (auto intro: add_mono)

lemma average_mean:
  assumes "rng_ok r" and "rng_list r \<noteq> []" and "\<forall>x \<in> set (rng_list r). unat x \<le> 2 ^ 26"
  shows "ring_buffer_average r old = mean (rng_list r)"
proof -
  have l: "length (rng_list r) \<le> 60" using assms(1) by (simp add: rng_ok_def)
  have "sum_list (map unat (rng_list r)) \<le> length (rng_list r) * 2 ^ 26" by (rule sum_list_bound [OF assms(3)])
  also have "\<dots> \<le> 60 * 2 ^ 26" using l by (intro mult_right_mono) simp_all
  finally have "sum_list (map unat (rng_list r)) < 2 ^ 32" by simp
  moreover have "0 < rng_fill_count r" using assms(2) by (simp add: word_less_nat_alt flip: length_rng_list)
  ultimately show ?thesis
    using sum_list_window [OF assms(1)] by (simp add: ring_buffer_average_def mean_def unat_sum_list)
qed

lemma averages:
  assumes "length (rng_buffer (ping_response_time_ring_buffer s)) = 60" and "length (rng_buffer (ping_packet_loss_ring_buffer s)) = 60"
    and "\<forall>time \<in> set (answers rs). unat time \<le> 2 ^ 26"
  shows "let t = fold icmp_ping_recv rs (init_icmp_ping s)
    in (rs \<noteq> [] \<longrightarrow> ping_average_packet_loss t = mean (last_n 60 (losses rs))) \<and>
       ping_average_response_time_ms t =
         (if answers rs = [] then ping_average_response_time_ms s else mean (last_n 60 (answers rs)))"
  using assms(3)
proof (induction rs rule: rev_induct)
  case Nil
  then show ?case by (simp add: answers_def init_icmp_ping_def)
next
  case (snoc r rs)
  define u where "u = fold icmp_ping_recv rs (init_icmp_ping s)"
  define t where "t = icmp_ping_recv r u"
  have tt: "fold icmp_ping_recv (rs @ [r]) (init_icmp_ping s) = t" by (simp add: t_def u_def)
  note w = windows [OF assms(1,2), of "rs @ [r]", unfolded tt Let_def]
  have ne: "last_n 60 (losses (rs @ [r])) \<noteq> []" by (simp add: last_n_def losses_def)
  have ones: "\<forall>x \<in> set (last_n 60 (losses (rs @ [r]))). unat x \<le> 2 ^ 26"
    by (auto simp: last_n_def losses_def dest!: in_set_dropD)
  have "ping_average_packet_loss t = ring_buffer_average (ping_packet_loss_ring_buffer t) (ping_average_packet_loss u)"
    by (auto simp: t_def icmp_ping_recv_def Let_def split: option.split)
  then have loss: "ping_average_packet_loss t = mean (last_n 60 (losses (rs @ [r])))"
    using w ne ones average_mean [of "ping_packet_loss_ring_buffer t"] by simp
  have "ping_average_response_time_ms t =
      (if answers (rs @ [r]) = [] then ping_average_response_time_ms s else mean (last_n 60 (answers (rs @ [r]))))"
  proof (cases r)
    case None
    then have "ping_average_response_time_ms t = ping_average_response_time_ms u" by (simp add: t_def icmp_ping_recv_def Let_def)
    then show ?thesis using snoc.IH snoc.prems None by (simp add: answers_def u_def Let_def)
  next
    case (Some time)
    have a: "answers (rs @ [r]) \<noteq> []" "last_n 60 (answers (rs @ [r])) \<noteq> []" by (simp_all add: Some answers_def last_n_def)
    have "\<forall>x \<in> set (last_n 60 (answers (rs @ [r]))). unat x \<le> 2 ^ 26"
      using snoc.prems by (auto simp: last_n_def dest: in_set_dropD)
    moreover have "ping_average_response_time_ms t =
        ring_buffer_average (ping_response_time_ring_buffer t) (ping_average_response_time_ms u)"
      by (simp add: t_def icmp_ping_recv_def Let_def Some)
    ultimately show ?thesis using w a average_mean [of "ping_response_time_ring_buffer t"] by simp
  qed
  then show ?case using loss tt by (simp add: Let_def)
qed

text \<open>
  The reported network quality is the moving average over the last 60 pings. After any results, the packet loss
  is the share of lost pings among the last 60, and the response time the mean of the last 60 answers that
  came, or unchanged when none came.
\<close>

theorem network_quality_moving_average:
  assumes "length (rng_buffer (ping_response_time_ring_buffer s)) = 60" and "length (rng_buffer (ping_packet_loss_ring_buffer s)) = 60"
    and "rs \<noteq> []" and "\<forall>time \<in> set (answers rs). unat time \<le> 2 ^ 26"
  shows "let t = fold icmp_ping_recv rs (init_icmp_ping s); times = last_n 60 (answers rs)
    in ping_average_packet_loss t = of_nat (count_list (last_n 60 rs) None) / of_nat (length (last_n 60 rs)) \<and>
       ping_average_response_time_ms t =
         (if times = [] then ping_average_response_time_ms s
          else of_nat (sum_list (map unat times)) / of_nat (length times))"
  using averages [OF assms(1,2,4)] assms(3)
  by (simp add: Let_def mean_def losses_window last_n_Nil)

text \<open>One ping is lost, the next is answered after 40 ms.\<close>

theorem network_quality_moving_average_witness:
  "ping_average_packet_loss (fold icmp_ping_recv [None, Some 40]
     (init_icmp_ping \<lparr>ping_out = [], ping_count = 0, ping_average_response_time_ms = 0, ping_average_packet_loss = 0,
        ping_response_time_ring_buffer = \<lparr>rng_buffer = replicate 60 0, rng_fill_count = 0, rng_h = 0, rng_t = 0\<rparr>,
        ping_packet_loss_ring_buffer = \<lparr>rng_buffer = replicate 60 0, rng_fill_count = 0, rng_h = 0, rng_t = 0\<rparr>\<rparr>)) = 1 / 2"
  using network_quality_moving_average [of "\<lparr>ping_out = [], ping_count = 0, ping_average_response_time_ms = 0,
      ping_average_packet_loss = 0,
      ping_response_time_ring_buffer = \<lparr>rng_buffer = replicate 60 0, rng_fill_count = 0, rng_h = 0, rng_t = 0\<rparr>,
      ping_packet_loss_ring_buffer = \<lparr>rng_buffer = replicate 60 0, rng_fill_count = 0, rng_h = 0, rng_t = 0\<rparr>\<rparr>" "[None, Some 40]"]
  by (simp add: Let_def answers_def last_n_def del: fold_simps)

end
