(* ===== verification/Led.thy ===== *)
theory Led
  imports Prelude
begin

text \<open>
  \<open>user/led.c\<close>: blinking patterns of the status LED. The LED is lit by a low level of its pin; timers of the SDK
  are a component of the state, the timer of the sub-pattern with the function it was set to.
\<close>

section \<open>State and timers\<close>

datatype led_fn = DoubleBlink | TripleBlink

datatype led_timer = BlinkerTimer | SingleBlinkOffTimer | DoubleBlinkTimer | TripleBlinkTimer | SubPatternTimer

record led_state =
  led_lit :: bool
  led_timers :: "led_timer \<Rightarrow> (nat \<times> bool) option"
  led_sub_fn :: led_fn
  led_disabled :: bool
  led_blinker_timer_running :: bool
  led_double_blinker_timer_running :: bool
  led_triple_blinker_timer_running :: bool
  led_sub_pattern_state :: u8

definition led_disarm :: "led_timer \<Rightarrow> led_state \<Rightarrow> led_state" where
  "led_disarm t s = s\<lparr>led_timers := (led_timers s)(t := None)\<rparr>"

definition led_arm :: "led_timer \<Rightarrow> nat \<Rightarrow> bool \<Rightarrow> led_state \<Rightarrow> led_state" where
  "led_arm t ms repeats s = s\<lparr>led_timers := (led_timers s)(t := Some (ms, repeats))\<rparr>"

definition led_on :: "led_state \<Rightarrow> led_state" where "led_on s = s\<lparr>led_lit := True\<rparr>"

definition led_off :: "led_state \<Rightarrow> led_state" where "led_off s = s\<lparr>led_lit := False\<rparr>"

section \<open>Timer functions\<close>

definition led_blinker_timer_func :: "led_state \<Rightarrow> led_state" where
  "led_blinker_timer_func s =
     (if \<not> led_blinker_timer_running s \<or> led_disabled s then led_disarm BlinkerTimer s
      else if \<not> led_lit s then led_on s else led_off s)"

definition led_single_blink_off_timer_func :: "led_state \<Rightarrow> led_state" where
  "led_single_blink_off_timer_func s = led_off s"

text \<open>One step of a pattern, and the timer for the next.\<close>

definition led_sub_step :: "led_fn \<Rightarrow> led_state \<Rightarrow> led_state" where
  "led_sub_step f s =
     led_arm SubPatternTimer 100 False
       (led_disarm SubPatternTimer (s\<lparr>led_sub_pattern_state := led_sub_pattern_state s + 1, led_sub_fn := f\<rparr>))"

definition led_sub_end :: "led_state \<Rightarrow> led_state" where
  "led_sub_end s = (led_disarm SubPatternTimer (led_off s))\<lparr>led_sub_pattern_state := 0\<rparr>"

definition led_double_blink_timer_func :: "led_state \<Rightarrow> led_state" where
  "led_double_blink_timer_func s =
     (if \<not> led_double_blinker_timer_running s \<or> led_disabled s then led_disarm DoubleBlinkTimer s
      else
        let s = led_off s; n = led_sub_pattern_state s
        in if n = 0 \<or> n = 2 then led_sub_step DoubleBlink (led_on s)
           else if n = 1 then led_sub_step DoubleBlink (led_off s)
           else if n = 3 then led_sub_end s
           else s)"

definition led_triple_blink_timer_func :: "led_state \<Rightarrow> led_state" where
  "led_triple_blink_timer_func s =
     (if \<not> led_triple_blinker_timer_running s \<or> led_disabled s then led_disarm TripleBlinkTimer s
      else
        let s = led_off s; n = led_sub_pattern_state s
        in if n = 0 \<or> n = 2 \<or> n = 4 then led_sub_step TripleBlink (led_on s)
           else if n = 1 \<or> n = 3 then led_sub_step TripleBlink (led_off s)
           else if n = 5 then led_sub_end s
           else s)"

definition led_timer_fires :: "led_timer \<Rightarrow> led_state \<Rightarrow> led_state" where
  "led_timer_fires t s =
     (case led_timers s t of
        None \<Rightarrow> s
      | Some (ms, repeats) \<Rightarrow>
          let s = (if repeats then s else led_disarm t s)
          in (case t of
                BlinkerTimer \<Rightarrow> led_blinker_timer_func s
              | SingleBlinkOffTimer \<Rightarrow> led_single_blink_off_timer_func s
              | DoubleBlinkTimer \<Rightarrow> led_double_blink_timer_func s
              | TripleBlinkTimer \<Rightarrow> led_triple_blink_timer_func s
              | SubPatternTimer \<Rightarrow>
                  (case led_sub_fn s of
                     DoubleBlink \<Rightarrow> led_double_blink_timer_func s
                   | TripleBlink \<Rightarrow> led_triple_blink_timer_func s)))"

section \<open>Calls\<close>

definition led_init :: "led_state \<Rightarrow> led_state" where
  "led_init s = s\<lparr>led_lit := False, led_disabled := False\<rparr>"

definition led_blink :: "led_state \<Rightarrow> led_state" where
  "led_blink s =
     (if led_disabled s then s
      else led_arm SingleBlinkOffTimer 1000 False (led_disarm SingleBlinkOffTimer (led_on s)))"

definition led_blink_short :: "led_state \<Rightarrow> led_state" where
  "led_blink_short s =
     (if led_disabled s then s
      else led_arm SingleBlinkOffTimer 100 False (led_disarm SingleBlinkOffTimer (led_on s)))"

definition led_pattern_a :: "led_state \<Rightarrow> led_state" where
  "led_pattern_a s =
     (if led_disabled s then s
      else led_arm BlinkerTimer 1000 True ((led_disarm BlinkerTimer s)\<lparr>led_blinker_timer_running := True\<rparr>))"

definition led_pattern_b :: "led_state \<Rightarrow> led_state" where
  "led_pattern_b s =
     (if led_disabled s then s
      else led_arm BlinkerTimer 200 True ((led_disarm BlinkerTimer s)\<lparr>led_blinker_timer_running := True\<rparr>))"

definition led_pattern_c :: "led_state \<Rightarrow> led_state" where
  "led_pattern_c s =
     (if led_disabled s then s
      else led_arm DoubleBlinkTimer 3000 True ((led_disarm DoubleBlinkTimer s)\<lparr>led_double_blinker_timer_running := True\<rparr>))"

definition led_pattern_d :: "led_state \<Rightarrow> led_state" where
  "led_pattern_d s =
     (if led_disabled s then s
      else led_arm TripleBlinkTimer 2000 True ((led_disarm TripleBlinkTimer s)\<lparr>led_triple_blinker_timer_running := True\<rparr>))"

definition led_stop_pattern :: "led_state \<Rightarrow> led_state" where
  "led_stop_pattern s =
     led_off (s\<lparr>led_blinker_timer_running := False, led_double_blinker_timer_running := False,
                led_triple_blinker_timer_running := False, led_sub_pattern_state := 0\<rparr>)"

definition led_destroy :: "led_state \<Rightarrow> led_state" where
  "led_destroy s = led_stop_pattern (s\<lparr>led_disabled := True\<rparr>)"

section \<open>A stopped LED stays dark\<close>

lemmas led_funs = led_timer_fires_def led_blinker_timer_func_def led_single_blink_off_timer_func_def led_double_blink_timer_func_def
  led_triple_blink_timer_func_def led_on_def led_off_def led_disarm_def led_arm_def led_sub_step_def led_sub_end_def Let_def

definition led_stopped :: "led_state \<Rightarrow> bool" where
  "led_stopped s \<longleftrightarrow> \<not> led_lit s \<and> (led_disabled s \<or> \<not> led_blinker_timer_running s \<and>
     \<not> led_double_blinker_timer_running s \<and> \<not> led_triple_blinker_timer_running s)"

lemma stopped_fires: "led_stopped s \<Longrightarrow> led_stopped (led_timer_fires t s)"
  by (cases t) (auto simp: led_stopped_def led_funs split: option.split led_fn.split)

lemma stopped_silent:
  assumes "led_stopped s"
  shows "led_timers (led_timer_fires t s) t = None \<or> t = SubPatternTimer \<or> (\<exists>ms. led_timers s t = Some (ms, True) \<and> t = SingleBlinkOffTimer)"
  using assms by (cases t) (auto simp: led_stopped_def led_funs split: option.split)

text \<open>
  After \<open>led_stop_pattern\<close> or \<open>led_destroy\<close> the LED is dark and stays dark, whatever timers were armed and in whatever
  order they fire; each repeating pattern timer stops itself when it fires once more.
\<close>

theorem stopped_led_stays_dark:
  assumes "s = led_stop_pattern s0 \<or> s = led_destroy s0"
  shows "\<not> led_lit (fold led_timer_fires ts s) \<and>
    led_timers (led_timer_fires BlinkerTimer (fold led_timer_fires ts s)) BlinkerTimer = None \<and>
    led_timers (led_timer_fires DoubleBlinkTimer (fold led_timer_fires ts s)) DoubleBlinkTimer = None \<and>
    led_timers (led_timer_fires TripleBlinkTimer (fold led_timer_fires ts s)) TripleBlinkTimer = None"
proof -
  have "led_stopped s"
    using assms by (auto simp: led_stopped_def led_stop_pattern_def led_destroy_def led_off_def)
  then have "led_stopped (fold led_timer_fires ts s)"
    by (induction ts arbitrary: s) (simp_all add: stopped_fires)
  then show ?thesis
    using stopped_silent [of "fold led_timer_fires ts s"] by (auto simp: led_stopped_def)
qed

end
