(* ===== verification/En61107.thy ===== *)
theory En61107
  imports KmpRequest MqttRpc
begin

text \<open>
  \<open>user/en61107\<close>: the meter of the other build (Kamstrup Multical 66, protocol EN 61107). The requests, their timers
  and the recovery from a silent meter, the receive queue, the check of a frame and the sample that is
  published. What is not modelled is the conversion of the numbers in a frame through \<open>float\<close>: the texts of
  the registers that a good frame leaves are given by the functions of \<open>en_parsers\<close>.
\<close>

section \<open>State\<close>

record en_register =
  en_value :: bytes
  en_unit :: bytes

record en61107_response =
  customer_no :: bytes
  meter_type :: bytes
  program_a :: u8
  program_b :: u8
  program_ccc :: u32
  program_dd :: u16
  program_e :: u8
  program_ff :: u16
  program_gg :: u16
  en_t1 :: en_register
  en_t2 :: en_register
  en_t3 :: en_register
  en_tdif :: en_register
  en_flow1 :: en_register
  en_effect1 :: en_register
  en_hr :: en_register
  en_v1 :: en_register
  en_e1 :: en_register

datatype en61107_uart_state_t =
    UART_STATE_NONE
  | UART_STATE_STANDARD_DATA_1
  | UART_STATE_STANDARD_DATA_2
  | UART_STATE_EN61107_IDENT
  | UART_STATE_EN61107
  | UART_STATE_INST_VALUES

datatype en_timer = EnReceiveTimeout | EnUartSetting

text \<open>The settings of the line are its rate and its stop bits; it has seven bits and even parity throughout.\<close>

datatype en_event =
    UartSettings nat nat
  | UartRate nat nat
  | EnTx bytes
  | EnLedBlink
  | EnMeterIsReady
  | EnMeterSentData
  | EnPublish bytes bytes nat nat

record en61107 =
  en_out :: "en_event list"
  en_timers :: "en_timer \<Rightarrow> nat option"
  en_fifo :: kmp_fifo
  en61107_serial :: u32
  en61107_serial_set :: bool
  en61107_request_num :: u8
  en_ready_cb_set :: bool
  en_ready_cb_called :: bool
  en_sent_cb_set :: bool
  en_response :: en61107_response
  en_mqtt_client_set :: bool
  en61107_uart_state :: en61107_uart_state_t
  en_uart_settings :: "nat \<times> nat"
  en61107_eod :: u8
  en61107_etx_received :: bool
  en_recovery :: bool
  error_backoff_count :: u8
  en_keys :: crypto

record en_parsers =
  frame_registers :: "bytes \<Rightarrow> en61107_response \<Rightarrow> en61107_response"
  inst_values :: "bytes \<Rightarrow> en61107_response \<Rightarrow> en61107_response"
  standard_data_1 :: "bytes \<Rightarrow> en61107_response \<Rightarrow> en61107_response"

definition en_emit :: "en_event list \<Rightarrow> en61107 \<Rightarrow> en61107" where
  "en_emit es s = s\<lparr>en_out := en_out s @ es\<rparr>"

definition en_disarm :: "en_timer \<Rightarrow> en61107 \<Rightarrow> en61107" where
  "en_disarm t s = s\<lparr>en_timers := (en_timers s)(t := None)\<rparr>"

definition en_arm :: "en_timer \<Rightarrow> nat \<Rightarrow> en61107 \<Rightarrow> en61107" where
  "en_arm t ms s = s\<lparr>en_timers := (en_timers s)(t := Some ms)\<rparr>"

definition restart_timeout :: "nat \<Rightarrow> en61107 \<Rightarrow> en61107" where
  "restart_timeout ms s = en_arm EnReceiveTimeout ms (en_disarm EnReceiveTimeout s)"

section \<open>The receive queue\<close>

definition en61107_fifo_in_use :: "kmp_fifo \<Rightarrow> nat" where
  "en61107_fifo_in_use f = fifo_buffer_fill_count f"

definition en61107_fifo_put :: "kmp_fifo \<Rightarrow> u8 \<Rightarrow> kmp_fifo option" where
  "en61107_fifo_put f c =
     (if en61107_fifo_in_use f \<noteq> 256 then
        let f = f\<lparr>fifo_buffer := (fifo_buffer f)[fifo_head f mod 256 := c], fifo_head := fifo_head f + 1\<rparr>;
            f = (if fifo_head f = 256 then f\<lparr>fifo_head := 0\<rparr> else f)
        in Some (f\<lparr>fifo_buffer_fill_count := fifo_buffer_fill_count f + 1\<rparr>)
      else None)"

definition en61107_fifo_get :: "kmp_fifo \<Rightarrow> (u8 \<times> kmp_fifo) option" where
  "en61107_fifo_get f =
     (if fifo_buffer_fill_count f \<noteq> 0 then
        let c = fifo_buffer f ! (fifo_tail f mod 256);
            f = f\<lparr>fifo_tail := fifo_tail f + 1\<rparr>;
            f = (if fifo_tail f = 256 then f\<lparr>fifo_tail := 0\<rparr> else f)
        in Some (c, f\<lparr>fifo_buffer_fill_count := fifo_buffer_fill_count f - 1\<rparr>)
      else None)"

definition en61107_fifo_snoop :: "kmp_fifo \<Rightarrow> nat \<Rightarrow> u8 option" where
  "en61107_fifo_snoop f pos =
     (if en61107_fifo_in_use f > pos then Some (fifo_buffer f ! ((fifo_tail f + pos) mod 256)) else None)"

definition en61107_fifo_flush :: "kmp_fifo \<Rightarrow> kmp_fifo" where
  "en61107_fifo_flush f = f\<lparr>fifo_head := 0, fifo_tail := 0, fifo_buffer_fill_count := 0\<rparr>"

definition en_flush :: "en61107 \<Rightarrow> en61107" where
  "en_flush s = s\<lparr>en_fifo := en61107_fifo_flush (en_fifo s)\<rparr>"

lemma en_fifo_is_kmp_fifo:
  "en61107_fifo_put = kmp_fifo_put" "en61107_fifo_get = kmp_fifo_get" "en61107_fifo_snoop = kmp_fifo_snoop"
  by (intro ext, simp add: en61107_fifo_put_def kmp_fifo_put_def en61107_fifo_in_use_def kmp_fifo_in_use_def
      en61107_fifo_get_def kmp_fifo_get_def en61107_fifo_snoop_def kmp_fifo_snoop_def)+

interpretation enf: bounded_fifo en61107_fifo_put en61107_fifo_get fifo_bytes "\<lambda>f. 256" fifo_ok
  unfolding en_fifo_is_kmp_fifo by (rule kf.bounded_fifo_axioms)

fun en_drain :: "nat \<Rightarrow> kmp_fifo \<Rightarrow> bytes \<times> kmp_fifo" where
  "en_drain 0 f = (case en61107_fifo_get f of None \<Rightarrow> ([], f) | Some (c, f) \<Rightarrow> ([], f))"
| "en_drain (Suc n) f =
     (case en61107_fifo_get f of
        None \<Rightarrow> ([], f)
      | Some (c, f) \<Rightarrow> (case en_drain n f of (cs, f) \<Rightarrow> (c # cs, f)))"

text \<open>The end of an answer, in the interrupt: with ETX the byte behind it counts too.\<close>

definition en61107_is_eod_char :: "u8 \<Rightarrow> en61107 \<Rightarrow> bool \<times> en61107" where
  "en61107_is_eod_char c s =
     (if en61107_eod s = 0x03 then
        if c = 0x03 then (False, s\<lparr>en61107_etx_received := True\<rparr>)
        else if en61107_etx_received s then (True, s\<lparr>en61107_etx_received := False\<rparr>)
        else (False, s)
      else (c = en61107_eod s, s))"

section \<open>Checking a frame\<close>

text \<open>\<open>None\<close> without ETX, else whether the check byte fits.\<close>

fun bcc_loop :: "u8 \<Rightarrow> bytes \<Rightarrow> u8 \<Rightarrow> bool option" where
  "bcc_loop bcc [] calculated_bcc = None"
| "bcc_loop bcc (c # cs) calculated_bcc =
     (if c = 0x02 then bcc_loop bcc cs 0
      else
        let calculated_bcc = (calculated_bcc + c) AND 0x7F
        in if c = 0x03 then Some (bcc = calculated_bcc) else bcc_loop bcc cs calculated_bcc)"

definition stx_pos :: "bytes \<Rightarrow> nat option" where
  "stx_pos fr =
     (let s = takeWhile (\<lambda>b. b \<noteq> 0) fr; n = length (takeWhile (\<lambda>b. b \<noteq> 0x02) s)
      in if n < length s then Some n else None)"

text \<open>
  The result and the response; the frame ends with a NUL in its buffer. The result of a frame with an ETX is
  decided there, so the last return of the function (0) is not reached.
\<close>

definition parse_en61107_frame :: "en_parsers \<Rightarrow> bytes \<Rightarrow> en61107_response \<Rightarrow> int \<times> en61107_response" where
  "parse_en61107_frame ps fr r =
     (if fr = [] then (-1, r)
      else
        case stx_pos fr of
          None \<Rightarrow> (-2, r)
        | Some n \<Rightarrow>
            (case bcc_loop (last fr AND 0x7F) fr 0 of
               None \<Rightarrow> (-3, r)
             | Some False \<Rightarrow> (-4, r)
             | Some True \<Rightarrow>
                 let r = r\<lparr>meter_type := []\<rparr>
                 in if n \<le> 3 \<or> n - 3 \<ge> 8 then (-5, r)
                    else (1, frame_registers ps fr (r\<lparr>meter_type := sub_bytes fr 1 (n - 3)\<rparr>))))"

text \<open>Words between blanks (\<open>strtok\<close>), and the numbers of the meter's program in two of them.\<close>

definition blank_words :: "bytes \<Rightarrow> bytes list" where
  "blank_words s =
     filter (\<lambda>w. w \<noteq> [])
       (foldr (\<lambda>c ws. if c = 0x20 then [] # ws else (c # hd ws) # tl ws) (takeWhile (\<lambda>b. b \<noteq> 0) s) [[]])"

definition parse_mc66cde_standard_data_2_frame :: "bytes \<Rightarrow> en61107_response \<Rightarrow> en61107_response" where
  "parse_mc66cde_standard_data_2_frame fr r =
     (let ws = blank_words fr;
          r = (if 7 < length ws \<and> length (ws ! 7) \<ge> 7 then
                 let p = ws ! 7
                 in r\<lparr>program_a := ucast (atoi (sub_bytes p 2 1)), program_b := ucast (atoi (sub_bytes p 3 1)),
                      program_ccc := atoi (sub_bytes p 4 3)\<rparr>
               else r)
      in if 8 < length ws \<and> length (ws ! 8) \<ge> 7 then
           let p = ws ! 8
           in r\<lparr>program_dd := ucast (atoi (sub_bytes p 0 2)), program_e := ucast (atoi (sub_bytes p 2 1)),
                program_ff := ucast (atoi (sub_bytes p 3 2)), program_gg := ucast (atoi (sub_bytes p 5 2))\<rparr>
         else r)"

section \<open>Requests\<close>

text \<open>The lines the five requests share: send at 300 baud with two stop bits, wait, and change the line for the answer.\<close>

definition en_transmit :: "en61107_uart_state_t \<Rightarrow> nat \<Rightarrow> bytes \<Rightarrow> nat \<Rightarrow> nat \<Rightarrow> en61107 \<Rightarrow> en61107" where
  "en_transmit state timeout fr rate delay s =
     (let s = (en_emit [UartSettings 300 2] s)\<lparr>en61107_uart_state := state\<rparr>;
          s = en_emit [EnTx fr] (restart_timeout timeout s);
          s = s\<lparr>en_uart_settings := (rate, 1)\<rparr>
      in en_arm EnUartSetting delay (en_disarm EnUartSetting s))"

definition en61107_uart_send_en61107_ident :: "en61107 \<Rightarrow> en61107" where
  "en61107_uart_send_en61107_ident s =
     (if en_recovery s then s
      else en_transmit UART_STATE_EN61107_IDENT 3000 (ascii ''/?!'' @ [0x0D, 0x0A]) 300 400
             ((en_flush s)\<lparr>en61107_eod := 0x0A, en61107_etx_received := False\<rparr>))"

definition en61107_uart_send_en61107 :: "en61107 \<Rightarrow> en61107" where
  "en61107_uart_send_en61107 s =
     (if en_recovery s then s
      else en_transmit UART_STATE_EN61107 8000 (0x06 # ascii ''000'' @ [0x0D, 0x0A]) 300 400
             (s\<lparr>en61107_eod := 0x03, en61107_etx_received := False\<rparr>))"

definition en61107_uart_send_standard_data_1 :: "en61107 \<Rightarrow> en61107" where
  "en61107_uart_send_standard_data_1 s =
     (if en_recovery s then s
      else en_transmit UART_STATE_STANDARD_DATA_1 3000 (ascii ''/#1'' @ [0x0D]) 1200 220 (s\<lparr>en61107_eod := 0x0D\<rparr>))"

definition en61107_uart_send_standard_data_2 :: "en61107 \<Rightarrow> en61107" where
  "en61107_uart_send_standard_data_2 s =
     (if en_recovery s then s
      else en_transmit UART_STATE_STANDARD_DATA_2 3000 (ascii ''/#2'' @ [0x0D]) 1200 220 (s\<lparr>en61107_eod := 0x0D\<rparr>))"

definition en61107_uart_send_inst_values :: "en61107 \<Rightarrow> en61107" where
  "en61107_uart_send_inst_values s =
     (if en_recovery s then s
      else en_transmit UART_STATE_INST_VALUES 3200 (ascii ''/#C'') 1200 300 (s\<lparr>en61107_eod := 0x0D\<rparr>))"

definition en61107_delayed_uart_change_setting_timer_func :: "en61107 \<Rightarrow> en61107" where
  "en61107_delayed_uart_change_setting_timer_func s = (case en_uart_settings s of (rate, stop) \<Rightarrow> en_emit [UartRate rate stop] s)"

definition backoff_delay :: "u8 \<Rightarrow> nat" where
  "backoff_delay n =
     (let d = (5000 :: u32) * push_bit (unat n) 1 in unat (if d > 60000 then 60000 else d))"

definition en61107_receive_timeout_timer_func :: "en61107 \<Rightarrow> en61107" where
  "en61107_receive_timeout_timer_func s =
     (let s = en_flush (en_emit [EnLedBlink] s)
      in if en_recovery s then en61107_uart_send_en61107_ident (s\<lparr>en_recovery := False, en61107_request_num := 1\<rparr>)
         else
           let s = s\<lparr>en61107_request_num := en61107_request_num s + 1\<rparr>
           in if en61107_request_num s \<le>s 2 then
                (case en61107_uart_state s of
                   UART_STATE_EN61107_IDENT \<Rightarrow> en61107_uart_send_en61107_ident s
                 | UART_STATE_EN61107 \<Rightarrow> en61107_uart_send_en61107_ident s
                 | UART_STATE_INST_VALUES \<Rightarrow> en61107_uart_send_inst_values s
                 | UART_STATE_STANDARD_DATA_1 \<Rightarrow> en61107_uart_send_standard_data_1 s
                 | UART_STATE_STANDARD_DATA_2 \<Rightarrow> en61107_uart_send_standard_data_2 s
                 | UART_STATE_NONE \<Rightarrow> s)
              else
                let s = s\<lparr>en_recovery := True, en61107_uart_state := UART_STATE_NONE, en61107_request_num := 0\<rparr>;
                    delay = backoff_delay (error_backoff_count s);
                    s = (if error_backoff_count s < 10 then s\<lparr>error_backoff_count := error_backoff_count s + 1\<rparr> else s)
                in restart_timeout delay (en_emit [UartSettings 300 2] s))"

definition en61107_request_send :: "bool \<Rightarrow> en61107 \<Rightarrow> en61107" where
  "en61107_request_send ota_in_progress s =
     (if ota_in_progress then s
      else if en_recovery s \<or> en61107_uart_state s \<noteq> UART_STATE_NONE then s
      else
        let s = s\<lparr>en_fifo := snd (en_drain 1025 (en_fifo s))\<rparr>;
            s = s\<lparr>en61107_request_num := en61107_request_num s + 1\<rparr>
        in en61107_uart_send_en61107_ident s)"

definition en61107_request_init :: "en61107 \<Rightarrow> en61107" where
  "en61107_request_init s =
     s\<lparr>en_fifo := (en_fifo s)\<lparr>fifo_head := 0, fifo_tail := 0\<rparr>, en61107_uart_state := UART_STATE_NONE, en61107_request_num := 0,
       en61107_etx_received := False, en_recovery := False, error_backoff_count := 0\<rparr>"

definition en61107_set_mqtt_client :: "en61107 \<Rightarrow> en61107" where
  "en61107_set_mqtt_client s = s\<lparr>en_mqtt_client_set := True\<rparr>"

definition en61107_register_meter_is_ready_cb :: "en61107 \<Rightarrow> en61107" where
  "en61107_register_meter_is_ready_cb s = s\<lparr>en_ready_cb_set := True\<rparr>"

definition en61107_register_meter_sent_data_cb :: "en61107 \<Rightarrow> en61107" where
  "en61107_register_meter_sent_data_cb s = s\<lparr>en_sent_cb_set := True\<rparr>"

definition en61107_get_received_serial :: "en61107 \<Rightarrow> u32" where
  "en61107_get_received_serial s = en61107_serial s"

definition en61107_request_destroy :: "en61107 \<Rightarrow> en61107" where
  "en61107_request_destroy s = en_disarm EnUartSetting (en_disarm EnReceiveTimeout s)"

section \<open>The task\<close>

definition append_key_value :: "nat \<Rightarrow> bytes \<Rightarrow> bytes \<Rightarrow> bytes" where
  "append_key_value max_len src dst = (if length dst + length src < max_len - 1 then dst @ src else dst)"

definition register_text :: "string \<Rightarrow> en_register \<Rightarrow> bytes" where
  "register_text name r = sprint 128 (name @ ''=%s %s&'') [ArgStr (en_value r), ArgStr (en_unit r)]"

definition en_sample_text :: "u32 \<Rightarrow> en61107_response \<Rightarrow> bytes" where
  "en_sample_text heap r =
     fold (append_key_value 1088)
       [sprint 128 ''heap=%u&'' [Arg32 heap],
        sprint 128 ''program=%01u%01u%03u%02u%01u%02u%02u&''
          [Arg32 (ucast (program_a r)), Arg32 (ucast (program_b r)), Arg32 (program_ccc r), Arg32 (ucast (program_dd r)),
           Arg32 (ucast (program_e r)), Arg32 (ucast (program_ff r)), Arg32 (ucast (program_gg r))],
        register_text ''t1'' (en_t1 r), register_text ''t2'' (en_t2 r), register_text ''t3'' (en_t3 r),
        register_text ''tdif'' (en_tdif r), register_text ''flow1'' (en_flow1 r), register_text ''effect1'' (en_effect1 r),
        register_text ''hr'' (en_hr r), register_text ''v1'' (en_v1 r), register_text ''e1'' (en_e1 r)] []"

text \<open>\<open>client_up\<close>: the connection of the client and its work buffer exist.\<close>

definition en_publish :: "bool \<Rightarrow> u64 \<Rightarrow> u32 \<Rightarrow> bytes \<Rightarrow> en61107 \<Rightarrow> en61107" where
  "en_publish client_up now heap iv s =
     (let topic = sprint 128 ''/sample/v2/%07u/%s''
            [Arg32 (en61107_serial s), ArgStr (sprint 64 ''%llu'' [Arg64 now])];
          cleartext = take 1023 (en_sample_text heap (en_response s));
          (keys, message, message_l) = encrypt_aes_hmac_combined (en_keys s) iv (replicate 1088 0) topic (cleartext @ [0]);
          s = en_disarm EnReceiveTimeout (s\<lparr>en_keys := keys\<rparr>);
          s = (if en_mqtt_client_set s \<and> client_up \<and> message_l > 1
               then en_emit [EnPublish topic (take message_l message) 2 0] s else s);
          s = (if en_sent_cb_set s then en_emit [EnMeterSentData] s else s)
      in s\<lparr>en61107_uart_state := UART_STATE_NONE, en61107_request_num := 0\<rparr>)"

definition en61107_received_task :: "en_parsers \<Rightarrow> bool \<Rightarrow> u64 \<Rightarrow> u32 \<Rightarrow> bytes \<Rightarrow> en61107 \<Rightarrow> en61107" where
  "en61107_received_task ps client_up now heap iv s =
     (let received = (\<lambda>s. case en_drain 1024 (en_fifo s) of (bs, f) \<Rightarrow> (bs, s\<lparr>en_fifo := f\<rparr>));
          cut = (\<lambda>bs. if length bs \<ge> 2 then take (length bs - 2) bs else bs)
      in case en61107_uart_state s of
           UART_STATE_NONE \<Rightarrow> s
         | UART_STATE_EN61107_IDENT \<Rightarrow> en61107_uart_send_en61107 s
         | UART_STATE_EN61107 \<Rightarrow>
             let (message, s) = received s;
                 (parse_res, r) = parse_en61107_frame ps message (en_response s);
                 s = s\<lparr>en_response := r\<rparr>
             in if parse_res \<le> 0 then restart_timeout 500 s
                else if \<not> en61107_serial_set s then
                  let parsed_serial = atoi (customer_no (en_response s))
                  in if parsed_serial = 0 then s
                     else en61107_uart_send_inst_values (s\<lparr>en61107_serial := parsed_serial, en61107_serial_set := True\<rparr>)
                else en61107_uart_send_inst_values s
         | UART_STATE_INST_VALUES \<Rightarrow>
             let (message, s) = received s
             in en61107_uart_send_standard_data_1 (s\<lparr>en_response := inst_values ps message (en_response s)\<rparr>)
         | UART_STATE_STANDARD_DATA_1 \<Rightarrow>
             let (message, s) = received s
             in en61107_uart_send_standard_data_2 (s\<lparr>en_response := standard_data_1 ps (cut message) (en_response s)\<rparr>)
         | UART_STATE_STANDARD_DATA_2 \<Rightarrow>
             let (message, s) = received s;
                 s = s\<lparr>en_response := parse_mc66cde_standard_data_2_frame (cut message) (en_response s)\<rparr>;
                 s = s\<lparr>error_backoff_count := 0\<rparr>;
                 s = (if en_ready_cb_set s \<and> \<not> en_ready_cb_called s
                      then en_emit [EnMeterIsReady] (s\<lparr>en_ready_cb_called := True\<rparr>) else s)
             in en_publish client_up now heap iv s)"

section \<open>Runs\<close>

text \<open>A byte comes in the interrupt; the task may run at any time after the end of an answer, and more often.\<close>

datatype en_input =
    EnByte u8
  | EnTask en_parsers bool u64 u32 bytes
  | EnTimeoutFires
  | EnUartSettingFires
  | EnRequest bool
  | EnSetClient
  | EnRegisterReady
  | EnRegisterSent

definition en_fire :: "en61107 \<Rightarrow> en61107" where
  "en_fire s =
     (if en_timers s EnReceiveTimeout = None then s else en61107_receive_timeout_timer_func (en_disarm EnReceiveTimeout s))"

definition en_step :: "en_input \<Rightarrow> en61107 \<Rightarrow> en61107" where
  "en_step i s =
     (case i of
        EnByte c \<Rightarrow>
          (case en61107_is_eod_char c s of
             (_, s) \<Rightarrow> (case en61107_fifo_put (en_fifo s) c of None \<Rightarrow> s | Some f \<Rightarrow> s\<lparr>en_fifo := f\<rparr>))
      | EnTask ps client_up now heap iv \<Rightarrow> en61107_received_task ps client_up now heap iv s
      | EnTimeoutFires \<Rightarrow> en_fire s
      | EnUartSettingFires \<Rightarrow>
          (if en_timers s EnUartSetting = None then s
           else en61107_delayed_uart_change_setting_timer_func (en_disarm EnUartSetting s))
      | EnRequest ota_in_progress \<Rightarrow> en61107_request_send ota_in_progress s
      | EnSetClient \<Rightarrow> en61107_set_mqtt_client s
      | EnRegisterReady \<Rightarrow> en61107_register_meter_is_ready_cb s
      | EnRegisterSent \<Rightarrow> en61107_register_meter_sent_data_cb s)"

inductive en_reach :: "en61107 \<Rightarrow> en61107 \<Rightarrow> bool" for s0 where
  start: "en_timers s0 EnReceiveTimeout = None \<Longrightarrow> en_reach s0 (en61107_request_init s0)"
| step: "en_reach s0 s \<Longrightarrow> en_reach s0 (en_step i s)"

section \<open>The reader of the meter never stalls\<close>

definition en_core :: "en61107 \<Rightarrow> nat option \<times> en61107_uart_state_t \<times> bool \<times> u8 \<times> u8" where
  "en_core s = (en_timers s EnReceiveTimeout, en61107_uart_state s, en_recovery s, en61107_request_num s, error_backoff_count s)"

text \<open>
  At rest there is no timer and the count is zero; in the recovery a timer of at most a minute is armed; in a
  request one of at most eight seconds is, and the request was sent once or twice.
\<close>

fun en_ok :: "nat option \<times> en61107_uart_state_t \<times> bool \<times> u8 \<times> u8 \<Rightarrow> bool" where
  "en_ok (armed, state, recovery, n, backoff) \<longleftrightarrow>
     backoff \<le> 10 \<and>
     (if recovery then state = UART_STATE_NONE \<and> n = 0 \<and> (\<exists>ms \<le> 60000. armed = Some ms)
      else if state = UART_STATE_NONE then n = 0 \<and> armed = None
      else (n = 1 \<or> n = 2) \<and> (\<exists>ms \<le> 8000. armed = Some ms))"

lemma core_simps [simp]:
  "en_core (en_emit es s) = en_core s" "en_core (en_flush s) = en_core s" "en_core (s\<lparr>en_fifo := f\<rparr>) = en_core s"
  "en_core (s\<lparr>en_response := r\<rparr>) = en_core s" "en_core (s\<lparr>en61107_eod := c\<rparr>) = en_core s"
  "en_core (s\<lparr>en61107_etx_received := b\<rparr>) = en_core s" "en_core (s\<lparr>en_uart_settings := u\<rparr>) = en_core s"
  "en_core (s\<lparr>en61107_serial := w\<rparr>) = en_core s" "en_core (s\<lparr>en61107_serial_set := b\<rparr>) = en_core s"
  "en_core (s\<lparr>en_keys := k\<rparr>) = en_core s" "en_core (s\<lparr>en_ready_cb_called := b\<rparr>) = en_core s"
  "en_core (s\<lparr>en_mqtt_client_set := b\<rparr>) = en_core s" "en_core (s\<lparr>en_ready_cb_set := b\<rparr>) = en_core s"
  "en_core (s\<lparr>en_sent_cb_set := b\<rparr>) = en_core s" "en_core (en_arm EnUartSetting ms s) = en_core s" "en_core (en_disarm EnUartSetting s) = en_core s"
  by (simp_all add: en_core_def en_emit_def en_flush_def en_arm_def en_disarm_def)

lemma core_changes:
  "en_core (restart_timeout ms s) = (Some ms, snd (en_core s))"
  "en_core (en_disarm EnReceiveTimeout s) = (None, snd (en_core s))"
  "en_core (s\<lparr>en61107_uart_state := st\<rparr>) = (fst (en_core s), st, snd (snd (en_core s)))"
  by (simp_all add: en_core_def restart_timeout_def en_arm_def en_disarm_def)

lemma core_transmit: "en_core (en_transmit st ms fr rate delay s) = (Some ms, st, snd (snd (en_core s)))"
  by (simp add: en_transmit_def Let_def core_changes)

lemma core_send:
  assumes "\<not> en_recovery s"
  shows "en_core (en61107_uart_send_en61107_ident s) = (Some 3000, UART_STATE_EN61107_IDENT, snd (snd (en_core s)))"
    "en_core (en61107_uart_send_en61107 s) = (Some 8000, UART_STATE_EN61107, snd (snd (en_core s)))"
    "en_core (en61107_uart_send_standard_data_1 s) = (Some 3000, UART_STATE_STANDARD_DATA_1, snd (snd (en_core s)))"
    "en_core (en61107_uart_send_standard_data_2 s) = (Some 3000, UART_STATE_STANDARD_DATA_2, snd (snd (en_core s)))"
    "en_core (en61107_uart_send_inst_values s) = (Some 3200, UART_STATE_INST_VALUES, snd (snd (en_core s)))"
  using assms
  by (simp_all add: core_transmit en61107_uart_send_en61107_ident_def en61107_uart_send_en61107_def
      en61107_uart_send_standard_data_1_def en61107_uart_send_standard_data_2_def en61107_uart_send_inst_values_def)

lemma backoff_delay_le: "backoff_delay n \<le> 60000"
  by (simp add: backoff_delay_def Let_def word_less_nat_alt not_less)

text \<open>What a firing of the timeout does to the state of the requests.\<close>

definition resent :: "en61107_uart_state_t \<Rightarrow> nat option \<times> en61107_uart_state_t" where
  "resent st =
     (case st of
        UART_STATE_NONE \<Rightarrow> (None, UART_STATE_NONE)
      | UART_STATE_INST_VALUES \<Rightarrow> (Some 3200, st)
      | UART_STATE_STANDARD_DATA_1 \<Rightarrow> (Some 3000, st)
      | UART_STATE_STANDARD_DATA_2 \<Rightarrow> (Some 3000, st)
      | _ \<Rightarrow> (Some 3000, UART_STATE_EN61107_IDENT))"

lemma core_fire:
  assumes "en_core s = (Some ms, st, recovery, n, backoff)"
  shows "en_core (en_fire s) =
    (if recovery then (Some 3000, UART_STATE_EN61107_IDENT, False, 1, backoff)
     else if n + 1 \<le>s 2 then (fst (resent st), snd (resent st), False, n + 1, backoff)
     else (Some (backoff_delay backoff), UART_STATE_NONE, True, 0, if backoff < 10 then backoff + 1 else backoff))"
proof -
  define t where "t = en_flush (en_emit [EnLedBlink] (en_disarm EnReceiveTimeout s))"
  have t: "en_core t = (None, st, recovery, n, backoff)" using assms by (simp add: t_def core_changes)
  have f: "en_timers s EnReceiveTimeout = Some ms" using assms by (simp add: en_core_def)
  have c: "en_core (t\<lparr>en61107_request_num := k, en_recovery := b\<rparr>) = (None, st, b, k, backoff)" for k b
    using t by (simp add: en_core_def)
  have c1: "en_core (t\<lparr>en_recovery := b, en61107_request_num := k\<rparr>) = (None, st, b, k, backoff)" for k b
    using t by (simp add: en_core_def)
  have k: "t\<lparr>en61107_request_num := k\<rparr> = t\<lparr>en61107_request_num := k, en_recovery := recovery\<rparr>" for k
    using t by (simp add: en_core_def)
  show ?thesis
  proof (cases recovery)
    case True
    have "en_fire s = en61107_uart_send_en61107_ident (t\<lparr>en_recovery := False, en61107_request_num := 1\<rparr>)"
      using f t True by (simp add: en_fire_def en61107_receive_timeout_timer_func_def Let_def t_def en_core_def)
    then show ?thesis using True c1 [where k = 1 and b = False] by (simp add: core_send)
  next
    case False
    define u where "u = t\<lparr>en61107_request_num := n + 1, en_recovery := False\<rparr>"
    have u: "en_core u = (None, st, False, n + 1, backoff)" unfolding u_def by (rule c)
    have tu: "t\<lparr>en61107_request_num := en61107_request_num t + 1\<rparr> = u" using t False by (simp add: u_def en_core_def)
    have tf: "\<not> en_recovery t" using t False by (simp add: en_core_def)
    have uf: "en61107_request_num u = n + 1" "en61107_uart_state u = st" "error_backoff_count u = backoff"
      using u by (simp_all add: en_core_def)
    have e: "en_fire s =
        (if n + 1 \<le>s 2 then
           (case st of
              UART_STATE_EN61107_IDENT \<Rightarrow> en61107_uart_send_en61107_ident u
            | UART_STATE_EN61107 \<Rightarrow> en61107_uart_send_en61107_ident u
            | UART_STATE_INST_VALUES \<Rightarrow> en61107_uart_send_inst_values u
            | UART_STATE_STANDARD_DATA_1 \<Rightarrow> en61107_uart_send_standard_data_1 u
            | UART_STATE_STANDARD_DATA_2 \<Rightarrow> en61107_uart_send_standard_data_2 u
            | UART_STATE_NONE \<Rightarrow> u)
         else
           let v = u\<lparr>en_recovery := True, en61107_uart_state := UART_STATE_NONE, en61107_request_num := 0\<rparr>;
               v = (if backoff < 10 then v\<lparr>error_backoff_count := backoff + 1\<rparr> else v)
           in restart_timeout (backoff_delay backoff) (en_emit [UartSettings 300 2] v))"
      using f tf uf unfolding en_fire_def en61107_receive_timeout_timer_func_def Let_def t_def [symmetric] tu by simp
    have "\<not> en_recovery u" using u by (simp add: en_core_def)
    then show ?thesis unfolding e using False u
      by (cases st) (simp_all add: core_send resent_def core_changes Let_def, simp_all add: en_core_def)
  qed
qed

lemma ok_fire: "en_ok (en_core s) \<Longrightarrow> en_ok (en_core (en_fire s))"
proof -
  assume ok: "en_ok (en_core s)"
  obtain armed st recovery n backoff where c: "en_core s = (armed, st, recovery, n, backoff)" by (cases "en_core s") auto
  show ?thesis
  proof (cases armed)
    case None
    then have "en_fire s = s" using c by (simp add: en_fire_def en_core_def)
    then show ?thesis using ok by simp
  next
    case (Some ms)
    have b: "backoff \<le> 10 \<Longrightarrow> (if backoff < 10 then backoff + 1 else backoff) \<le> 10"
      by (auto simp: inc_le)
    show ?thesis
      using ok b backoff_delay_le [of backoff] c [unfolded Some]
      by (auto simp: core_fire resent_def word_sle_eq split: en61107_uart_state_t.splits if_splits)
  qed
qed

lemma core_last: "en_core (s\<lparr>en61107_uart_state := UART_STATE_NONE, en61107_request_num := 0\<rparr>) =
    (fst (en_core s), UART_STATE_NONE, en_recovery s, 0, error_backoff_count s)"
  by (simp add: en_core_def)

lemma fields_of_core:
  "fst (en_core s) = en_timers s EnReceiveTimeout" "snd (en_core s) = (en61107_uart_state s, en_recovery s, en61107_request_num s, error_backoff_count s)"
  by (simp_all add: en_core_def)

lemma core_publish: "en_core (en_publish client_up now heap iv s) = (None, UART_STATE_NONE, en_recovery s, 0, error_backoff_count s)"
proof -
  have t: "en_core (en_disarm EnReceiveTimeout (s\<lparr>en_keys := k\<rparr>)) = (None, snd (en_core s))" for k by (simp add: core_changes)
  have e: "en_core (if b then en_emit es u else u) = en_core u" for b es u by simp
  have "\<exists>u k. en_core u = en_core (en_disarm EnReceiveTimeout (s\<lparr>en_keys := k\<rparr>)) \<and>
      en_publish client_up now heap iv s = u\<lparr>en61107_uart_state := UART_STATE_NONE, en61107_request_num := 0\<rparr>"
    unfolding en_publish_def Let_def case_prod_unfold by (intro exI conjI [rotated], rule refl) (simp only: e)
  then obtain u where u: "en_core u = (None, snd (en_core s))"
    "en_publish client_up now heap iv s = u\<lparr>en61107_uart_state := UART_STATE_NONE, en61107_request_num := 0\<rparr>" by (auto simp: t)
  then have "fst (en_core u) = None" "en_recovery u = en_recovery s" "error_backoff_count u = error_backoff_count s"
    by (simp_all add: en_core_def)
  then show ?thesis by (simp add: u(2) core_last)
qed

lemma ok_task: "en_ok (en_core s) \<Longrightarrow> en_ok (en_core (en61107_received_task ps client_up now heap iv s))"
proof -
  assume ok: "en_ok (en_core s)"
  obtain armed st recovery n backoff where c: "en_core s = (armed, st, recovery, n, backoff)" by (cases "en_core s") auto
  obtain bs f where d: "en_drain 1024 (en_fifo s) = (bs, f)" by fastforce
  have st: "en61107_uart_state s = st" "en_recovery s = recovery" using c by (simp_all add: en_core_def)
  have r: "\<not> recovery" if "st \<noteq> UART_STATE_NONE" using ok c that by (auto split: if_splits)
  show ?thesis
  proof (cases st)
    case UART_STATE_EN61107
    obtain res r' where p: "parse_en61107_frame ps bs (en_response s) = (res, r')" by fastforce
    show ?thesis
      using ok c st r d p UART_STATE_EN61107
      by (simp add: en61107_received_task_def Let_def core_send core_changes)
  next
    case UART_STATE_STANDARD_DATA_2
    have "\<exists>u. en61107_received_task ps client_up now heap iv s = en_publish client_up now heap iv u \<and> en_recovery u = en_recovery s \<and> error_backoff_count u = 0"
      using st(1) UART_STATE_STANDARD_DATA_2 unfolding en61107_received_task_def
      by (intro exI conjI [rotated]) (simp_all add: Let_def d case_prod_unfold en_emit_def)
    then obtain u where "en61107_received_task ps client_up now heap iv s = en_publish client_up now heap iv u" "en_recovery u = en_recovery s"
      "error_backoff_count u = 0" by blast
    then show ?thesis using r st UART_STATE_STANDARD_DATA_2 by (simp add: core_publish)
  qed (use ok c st r d in \<open>simp_all add: en61107_received_task_def Let_def core_send\<close>)
qed

lemma ok_request: "en_ok (en_core s) \<Longrightarrow> en_ok (en_core (en61107_request_send ota s))"
proof -
  assume ok: "en_ok (en_core s)"
  show ?thesis
  proof (cases "ota \<or> en_recovery s \<or> en61107_uart_state s \<noteq> UART_STATE_NONE")
    case True
    then show ?thesis using ok by (auto simp: en61107_request_send_def)
  next
    case False
    define t where "t = s\<lparr>en_fifo := snd (en_drain 1025 (en_fifo s)), en61107_request_num := en61107_request_num s + 1\<rparr>"
    have "en61107_request_send ota s = en61107_uart_send_en61107_ident t"
      using False by (simp add: en61107_request_send_def Let_def t_def)
    moreover have "en_core t = (en_timers s EnReceiveTimeout, UART_STATE_NONE, False, en61107_request_num s + 1, error_backoff_count s)"
      using False by (simp add: en_core_def t_def)
    moreover have "\<not> en_recovery t" using False by (simp add: t_def)
    ultimately show ?thesis using ok False by (simp add: core_send) (simp add: en_core_def)
  qed
qed

lemma ok_step: "en_ok (en_core s) \<Longrightarrow> en_ok (en_core (en_step i s))"
proof (cases i)
  case (EnByte c)
  then show "en_ok (en_core s) \<Longrightarrow> ?thesis"
    by (auto simp: en_step_def en61107_is_eod_char_def case_prod_unfold split: option.split)
qed (simp_all add: en_step_def ok_fire ok_task ok_request en61107_delayed_uart_change_setting_timer_func_def case_prod_unfold
    en61107_set_mqtt_client_def en61107_register_meter_is_ready_cb_def en61107_register_meter_sent_data_cb_def)

text \<open>
  C39: The reader of the meter never stalls. Whatever the meter sends or leaves out, in every reachable state that
  is not at rest the receive timeout is armed, with eight seconds in a request and with a minute at most in the
  recovery from errors; a silent meter leads to the recovery with the second timeout at the latest, and the
  end of the recovery asks the meter again.
\<close>

theorem en61107_never_stalls:
  assumes "en_reach s0 s" and "en61107_uart_state s \<noteq> UART_STATE_NONE \<or> en_recovery s"
  shows "if en_recovery s
    then (\<exists>ms \<le> 60000. en_timers s EnReceiveTimeout = Some ms) \<and> en61107_uart_state (en_fire s) = UART_STATE_EN61107_IDENT \<and>
         \<not> en_recovery (en_fire s)
    else (\<exists>ms \<le> 8000. en_timers s EnReceiveTimeout = Some ms) \<and> (en_recovery (en_fire s) \<or> en_recovery (en_fire (en_fire s)))"
proof -
  have "en_ok (en_core s)"
    using assms(1)
  proof (induction rule: en_reach.induct)
    case start
    then show ?case by (simp add: en_core_def en61107_request_init_def)
  qed (rule ok_step)
  obtain armed st recovery n backoff where c: "en_core s = (armed, st, recovery, n, backoff)" by (cases "en_core s") auto
  then obtain ms where ms: "armed = Some ms" using \<open>en_ok (en_core s)\<close> assms(2) by (auto simp: en_core_def split: if_splits)
  note fire = core_fire [OF c [unfolded ms]]
  have fields: "en_recovery s = recovery" "en_timers s EnReceiveTimeout = Some ms" "en61107_uart_state s = st"
    using c ms by (simp_all add: en_core_def)
  show ?thesis
  proof (cases recovery)
    case True
    then have "en_core (en_fire s) = (Some 3000, UART_STATE_EN61107_IDENT, False, 1, backoff)" using fire by simp
    moreover have "ms \<le> 60000" using True \<open>en_ok (en_core s)\<close> c ms by simp
    ultimately show ?thesis using True fields by (simp add: en_core_def)
  next
    case False
    then have st: "st \<noteq> UART_STATE_NONE" using assms(2) fields by simp
    then have n: "n = 1 \<or> n = 2" "ms \<le> 8000" using \<open>en_ok (en_core s)\<close> c ms False by auto
    have "en_recovery (en_fire s) \<or> en_recovery (en_fire (en_fire s))"
    proof (cases "n = 1")
      case True
      then have f: "en_core (en_fire s) = (fst (resent st), snd (resent st), False, 2, backoff)"
        using fire False by (simp add: word_sle_eq)
      obtain ms2 where "fst (resent st) = Some ms2" using st by (cases st) (auto simp: resent_def)
      from core_fire [OF f [unfolded this]] show ?thesis by (simp add: word_sle_eq) (simp add: en_core_def)
    next
      case False
      then have "n = 2" using n by simp
      then show ?thesis using fire \<open>\<not> recovery\<close> by (simp add: word_sle_eq) (simp add: en_core_def)
    qed
    then show ?thesis using False fields n by simp
  qed
qed

section \<open>The check of a frame\<close>

lemma and_7f: "(w :: u8) AND 0x7F = take_bit 7 w"
proof -
  have "(0x7F :: u8) = mask 7" by (simp add: mask_eq_exp_minus_1)
  then show ?thesis by (simp add: take_bit_eq_mask)
qed

lemma bcc_add: "((a AND 0x7F) + b) AND 0x7F = (a + b :: u8) AND 0x7F"
  by (simp add: word_unat_eq_iff and_7f unsigned_take_bit_eq take_bit_eq_mod [where 'a = nat] unat_word_ariths mod_mod_cancel mod_simps)

lemma bcc_body:
  "0x02 \<notin> set body \<Longrightarrow> 0x03 \<notin> set body \<Longrightarrow>
   bcc_loop b (body @ 0x03 # rest) c = Some (b = (c + sum_list body + 0x03) AND 0x7F)"
proof (induction body arbitrary: c)
  case (Cons x body)
  then show ?case using bcc_add [of "c + x" "sum_list body + 0x03"] by (simp add: Let_def add.assoc)
qed (simp add: Let_def)

lemma bcc_before: "0x03 \<notin> set pre \<Longrightarrow> bcc_loop b (pre @ 0x02 # rest) c = bcc_loop b rest 0"
  by (induction pre arbitrary: c) (auto simp: Let_def)

text \<open>The result for a frame of the usual form: an identification, STX, the data, ETX and the check byte.\<close>

theorem en_frame_result:
  assumes "4 \<le> length pre" and "length pre \<le> 10" and "{0x00, 0x02, 0x03} \<inter> set pre = {}" and "{0x02, 0x03} \<inter> set body = {}"
  shows "fst (parse_en61107_frame ps (pre @ [0x02] @ body @ [0x03, bcc]) r) =
    (if bcc AND 0x7F = (sum_list body + 0x03) AND 0x7F then 1 else -4)"
proof -
  have "takeWhile (\<lambda>b. b \<noteq> 0) (pre @ 0x02 # ys) = pre @ 0x02 # takeWhile (\<lambda>b. b \<noteq> 0) ys" for ys
    using assms(3) by (subst takeWhile_append2) auto
  moreover have "takeWhile (\<lambda>b. b \<noteq> 0x02) (pre @ 0x02 # ys) = pre" for ys
    using assms(3) by (subst takeWhile_append2) auto
  ultimately have "stx_pos (pre @ [0x02] @ body @ [0x03, bcc]) = Some (length pre)" by (simp add: stx_pos_def)
  moreover have "bcc_loop (bcc AND 0x7F) (pre @ [0x02] @ body @ [0x03, bcc]) 0 = Some (bcc AND 0x7F = (sum_list body + 0x03) AND 0x7F)"
    using assms(3,4) bcc_before [of pre] bcc_body [of body _ "[bcc]" 0] by simp
  moreover have "last (pre @ [0x02] @ body @ [0x03, bcc]) = bcc" by simp
  ultimately show ?thesis using assms(1,2) unfolding parse_en61107_frame_def by (auto simp: Let_def)
qed

text \<open>A wrong byte in the data of a good frame, other than in its parity bit, is always found.\<close>

corollary en_frame_detects_change:
  assumes "4 \<le> length pre" and "length pre \<le> 10" and "{0x00, 0x02, 0x03} \<inter> set pre = {}"
    and "{0x02, 0x03} \<inter> set (xs @ x # y # ys) = {}" and "x AND 0x7F \<noteq> y AND 0x7F"
    and "fst (parse_en61107_frame ps (pre @ [0x02] @ (xs @ [x] @ ys) @ [0x03, bcc]) r) = 1"
  shows "fst (parse_en61107_frame ps (pre @ [0x02] @ (xs @ [y] @ ys) @ [0x03, bcc]) r) = -4"
proof -
  have e: "bcc AND 0x7F = (sum_list (xs @ [x] @ ys) + 0x03) AND 0x7F"
    using assms(4,6) en_frame_result [OF assms(1-3), of "xs @ [x] @ ys" ps bcc r] by (auto split: if_splits)
  have "x AND 0x7F = y AND 0x7F" if "bcc AND 0x7F = (sum_list (xs @ [y] @ ys) + 0x03) AND 0x7F"
  proof -
    define k where "k = sum_list xs + sum_list ys + 0x03"
    have "(x + k) AND 0x7F = (y + k) AND 0x7F" using e that by (simp add: k_def ac_simps)
    then have "((x + k) + - k) AND 0x7F = ((y + k) + - k) AND 0x7F" by (metis bcc_add)
    then show ?thesis by simp
  qed
  then show ?thesis
    using assms(4,5) en_frame_result [OF assms(1-3), of "xs @ [y] @ ys" ps bcc r] by auto
qed

section \<open>Example\<close>

definition sample_register :: en_register where
  "sample_register = \<lparr>en_value = [], en_unit = []\<rparr>"

definition sample_reader :: en61107 where
  "sample_reader =
     \<lparr>en_out = [], en_timers = (\<lambda>_. None), en_fifo = \<lparr>fifo_head = 0, fifo_tail = 0, fifo_buffer = replicate 256 0,
      fifo_buffer_fill_count = 0\<rparr>, en61107_serial = 0, en61107_serial_set = False, en61107_request_num = 0,
      en_ready_cb_set = True, en_ready_cb_called = False, en_sent_cb_set = True,
      en_response = \<lparr>customer_no = [], meter_type = [], program_a = 0, program_b = 0, program_ccc = 0, program_dd = 0,
        program_e = 0, program_ff = 0, program_gg = 0, en_t1 = sample_register, en_t2 = sample_register,
        en_t3 = sample_register, en_tdif = sample_register, en_flow1 = sample_register, en_effect1 = sample_register,
        en_hr = sample_register, en_v1 = sample_register, en_e1 = sample_register\<rparr>,
      en_mqtt_client_set = True, en61107_uart_state = UART_STATE_NONE, en_uart_settings = (300, 1), en61107_eod = 0,
      en61107_etx_received = False, en_recovery = False, error_backoff_count = 0, en_keys = sample_keys\<rparr>"

theorem en61107_never_stalls_witness:
  "let s = en_step (EnRequest False) (en61107_request_init sample_reader)
   in \<not> en_recovery s \<and> (en_recovery (en_fire s) \<or> en_recovery (en_fire (en_fire s)))"
proof -
  have "en_reach sample_reader (en_step (EnRequest False) (en61107_request_init sample_reader))"
    by (intro en_reach.step en_reach.start) (simp add: sample_reader_def)
  moreover have "en61107_uart_state (en_step (EnRequest False) (en61107_request_init sample_reader)) = UART_STATE_EN61107_IDENT"
    "\<not> en_recovery (en_step (EnRequest False) (en61107_request_init sample_reader))"
    by (simp_all add: en_step_def en61107_request_send_def en61107_request_init_def sample_reader_def Let_def
        en61107_uart_send_en61107_ident_def en_transmit_def en_emit_def en_flush_def restart_timeout_def en_arm_def en_disarm_def)
  ultimately show ?thesis
    using en61107_never_stalls [of sample_reader "en_step (EnRequest False) (en61107_request_init sample_reader)"] by (simp add: Let_def)
qed

end
