(* ===== verification/Captdns.thy ===== *)
theory Captdns
  imports Wifi
begin

text \<open>
  \<open>user/captdns.c\<close>: the DNS server of the configuration mode, which answers every question with the
  address of the access point. Memory is a function from offsets, counted from the start of the packet, to
  bytes, because the parser reads past the end of a packet; the reply is an array of 512 bytes on the
  stack. A loop that does not end is the value None, a write outside an array is the end of the model of
  that run (\<open>LabelSmash\<close>, \<open>DnsOverflow\<close>). \<open>char\<close> is unsigned, as on the target. Left out is the FREERTOS
  variant of the socket code.
\<close>

abbreviation (input) DNS_LEN :: nat where "DNS_LEN \<equiv> 512"

section \<open>Labels\<close>

definition my_ntohs :: "(nat \<Rightarrow> u8) \<Rightarrow> nat \<Rightarrow> u16" where
  "my_ntohs mem p = be16 (mem p) (mem (p + 1))"

text \<open>The inner loop of \<open>labelToStr\<close>: when the result is full the pointer stops too.\<close>

fun copy_label :: "(nat \<Rightarrow> u8) \<Rightarrow> nat \<Rightarrow> nat \<Rightarrow> nat \<Rightarrow> nat \<Rightarrow> bytes \<Rightarrow> (nat \<times> bytes) option" where
  "copy_label mem packetSz resMaxLen 0 p res = Some (p, res)"
| "copy_label mem packetSz resMaxLen (Suc k) p res =
     (if p > packetSz then None
      else if length res < resMaxLen then copy_label mem packetSz resMaxLen k (p + 1) (res @ [mem p])
      else copy_label mem packetSz resMaxLen k p res)"

record label_state =
  labelPtr :: nat
  label_res :: bytes
  label_endPtr :: "nat option"

text \<open>One pass of the outer loop, None for \<open>return NULL\<close>.\<close>

definition label_pass :: "(nat \<Rightarrow> u8) \<Rightarrow> nat \<Rightarrow> nat \<Rightarrow> label_state \<Rightarrow> label_state option" where
  "label_pass mem packetSz resMaxLen s =
     (let p = labelPtr s; res = label_res s
      in case
           (if mem p AND 0xC0 = 0
            then case copy_label mem packetSz resMaxLen (unat (mem p)) (p + 1)
                        (if length res < resMaxLen \<and> res \<noteq> [] then res @ [46] else res) of
                   None \<Rightarrow> None
                 | Some (p', res') \<Rightarrow> Some (s\<lparr>labelPtr := p', label_res := res'\<rparr>)
            else if mem p AND 0xC0 = 0xC0
            then let offset = unat (my_ntohs mem p AND 0x3FFF)
                 in if offset > packetSz then None
                    else Some (s\<lparr>label_endPtr := Some (p + 2), labelPtr := offset\<rparr>)
            else Some s) of
           None \<Rightarrow> None
         | Some s' \<Rightarrow> if labelPtr s' > packetSz then None else Some s')"

partial_function (option) label_loop ::
  "(nat \<Rightarrow> u8) \<Rightarrow> nat \<Rightarrow> nat \<Rightarrow> label_state \<Rightarrow> label_state option option" where
  "label_loop mem packetSz resMaxLen s =
     (case label_pass mem packetSz resMaxLen s of
        None \<Rightarrow> Some None
      | Some s' \<Rightarrow>
          if mem (labelPtr s') \<noteq> 0 then label_loop mem packetSz resMaxLen s'
          else Some (Some s'))"

datatype label_result = LabelNull | LabelSmash | LabelAt nat bytes

definition labelToStr :: "(nat \<Rightarrow> u8) \<Rightarrow> nat \<Rightarrow> nat \<Rightarrow> nat \<Rightarrow> label_result option" where
  "labelToStr mem p packetSz resMaxLen =
     (case label_loop mem packetSz resMaxLen \<lparr>labelPtr = p, label_res = [], label_endPtr = None\<rparr> of
        None \<Rightarrow> None
      | Some None \<Rightarrow> Some LabelNull
      | Some (Some s) \<Rightarrow>
          if length (label_res s) < resMaxLen
          then Some (LabelAt (case label_endPtr s of None \<Rightarrow> labelPtr s + 1 | Some e \<Rightarrow> e) (label_res s))
          else Some LabelSmash)"

text \<open>
  \<open>strToLabel\<close>: the characters of a label are collected behind its length byte. The result is what the
  code writes from \<open>label\<close> on; its limit is commented out.
\<close>

fun strToLabel_loop :: "bytes \<Rightarrow> bytes \<Rightarrow> bytes" where
  "strToLabel_loop [] part = of_nat (length part) # part @ [0]"
| "strToLabel_loop (c # str) part =
     (if c = 46 then of_nat (length part) # part @ strToLabel_loop str []
      else strToLabel_loop str (part @ [c]))"

definition strToLabel :: "bytes \<Rightarrow> bytes" where
  "strToLabel str = strToLabel_loop str []"

section \<open>The reply\<close>

record dns_reply =
  reply :: bytes
  rend :: nat

definition dns_put :: "bytes \<Rightarrow> dns_reply \<Rightarrow> dns_reply option" where
  "dns_put xs r =
     (if rend r + length xs \<le> DNS_LEN
      then Some (r\<lparr>reply := put_bytes (reply r) (rend r) xs, rend := rend r + length xs\<rparr>)
      else None)"

text \<open>Bytes that are sent without having been written.\<close>

definition dns_skip :: "nat \<Rightarrow> dns_reply \<Rightarrow> dns_reply option" where
  "dns_skip n r = (if rend r + n \<le> DNS_LEN then Some (r\<lparr>rend := rend r + n\<rparr>) else None)"

definition setn16 :: "nat \<Rightarrow> u16 \<Rightarrow> bytes \<Rightarrow> bytes" where
  "setn16 p n buf = buf[p := hi8 n, Suc p := lo8 n]"

definition count_answer :: "dns_reply \<Rightarrow> dns_reply" where
  "count_answer r = r\<lparr>reply := setn16 6 (be16 (reply r ! 6) (reply r ! 7) + 1) (reply r)\<rparr>"

fun ip4_bytes :: "ip_addr \<Rightarrow> bytes" where
  "ip4_bytes (Ip a b c d) = [a, b, c, d]"

text \<open>The three answers; of the time to live of the last two only the first half is set.\<close>

definition answer_a :: "ip_addr \<Rightarrow> bytes \<Rightarrow> dns_reply \<Rightarrow> dns_reply option" where
  "answer_a ip buff r =
     Option.bind (dns_put (strToLabel buff @ [0, 1, 0, 1, 0, 0, 0, 0, 0, 4] @ ip4_bytes ip) r)
       (\<lambda>r. Some (count_answer r))"

definition answer_ns :: "bytes \<Rightarrow> dns_reply \<Rightarrow> dns_reply option" where
  "answer_ns buff r =
     Option.bind (dns_put (strToLabel buff @ [0, 2, 0, 1, 0, 0]) r)
       (\<lambda>r. Option.bind (dns_skip 2 r)
       (\<lambda>r. Option.bind (dns_put ([0, 4, 2] @ ascii ''ns'' @ [0]) r)
       (\<lambda>r. Some (count_answer r))))"

definition answer_uri :: "bytes \<Rightarrow> dns_reply \<Rightarrow> dns_reply option" where
  "answer_uri buff r =
     Option.bind (dns_put (strToLabel buff @ [1, 0, 1, 0, 0, 0]) r)
       (\<lambda>r. Option.bind (dns_skip 2 r)
       (\<lambda>r. Option.bind (dns_put ([0, 20, 0, 10, 0, 1] @ ascii ''http://esp.nonet'') r)
       (\<lambda>r. Some (count_answer r))))"

definition dns_question :: "ip_addr \<Rightarrow> u16 \<Rightarrow> bytes \<Rightarrow> dns_reply \<Rightarrow> dns_reply option" where
  "dns_question ip qtype buff r =
     (if qtype = 1 then answer_a ip buff r
      else if qtype = 2 then answer_ns buff r
      else if qtype = 256 then answer_uri buff r
      else Some r)"

datatype dns_outcome = DnsDropped | DnsOverflow | DnsAnswer bytes

fun dns_loop :: "(nat \<Rightarrow> u8) \<Rightarrow> nat \<Rightarrow> ip_addr \<Rightarrow> nat \<Rightarrow> nat \<Rightarrow> dns_reply \<Rightarrow> dns_outcome option" where
  "dns_loop mem len ip 0 p r = Some (DnsAnswer (take (rend r) (reply r)))"
| "dns_loop mem len ip (Suc n) p r =
     (case labelToStr mem p len DNS_LEN of
        None \<Rightarrow> None
      | Some LabelNull \<Rightarrow> Some DnsDropped
      | Some LabelSmash \<Rightarrow> Some DnsOverflow
      | Some (LabelAt qf buff) \<Rightarrow>
          (case dns_question ip (my_ntohs mem qf) (c_chars buff) r of
             None \<Rightarrow> Some DnsOverflow
           | Some r' \<Rightarrow> dns_loop mem len ip n (qf + 4) r'))"

definition captdns_reply :: "(nat \<Rightarrow> u8) \<Rightarrow> nat \<Rightarrow> bytes \<Rightarrow> ip_addr \<Rightarrow> dns_outcome option" where
  "captdns_reply mem len stack ip =
     (if len > DNS_LEN then Some DnsDropped
      else if len < 12 then Some DnsDropped
      else if (\<exists>i \<in> set [6..<12]. mem i \<noteq> 0) then Some DnsDropped
      else if mem 2 AND 2 \<noteq> 0 then Some DnsDropped
      else
        let r = \<lparr>reply = (put_bytes stack 0 (map mem [0..<len]))[2 := mem 2 OR 128], rend = len\<rparr>
        in dns_loop mem len ip (unat (my_ntohs mem 4)) 12 r)"

text \<open>
  The connection is sent back to where the packet came from when the SDK knows it; \<open>remInfo\<close> is its
  answer. The result is the connection and what is sent on it.
\<close>

record dns_conn =
  dns_remote_port :: u32
  dns_remote_ip :: ip_addr

definition captdnsRecv ::
  "dns_conn \<Rightarrow> (u32 \<times> ip_addr) option \<Rightarrow> (nat \<Rightarrow> u8) \<Rightarrow> nat \<Rightarrow> bytes \<Rightarrow> ip_addr \<Rightarrow>
   (dns_conn \<times> dns_outcome) option" where
  "captdnsRecv conn remInfo mem len stack ip =
     (case captdns_reply mem len stack ip of
        None \<Rightarrow> None
      | Some (DnsAnswer data) \<Rightarrow>
          Some (case remInfo of
                  Some (udp_port, addr) \<Rightarrow> conn\<lparr>dns_remote_port := udp_port, dns_remote_ip := addr\<rparr>
                | None \<Rightarrow> conn, DnsAnswer data)
      | Some out \<Rightarrow> Some (conn, out))"

text \<open>The server is deleted at most once.\<close>

datatype captdns_event = CaptdnsCreate | CaptdnsDelete

definition captdnsInit :: "bool \<Rightarrow> bool \<times> captdns_event list" where
  "captdnsInit captdnsInitialized = (True, [CaptdnsCreate])"

definition captdnsStop :: "bool \<Rightarrow> bool \<times> captdns_event list" where
  "captdnsStop captdnsInitialized =
     (if captdnsInitialized then (False, [CaptdnsDelete]) else (captdnsInitialized, []))"

section \<open>Names on the wire\<close>

text \<open>The encoding of a name in a message and its dotted form.\<close>

definition dns_label :: "bytes \<Rightarrow> bool" where
  "dns_label l \<longleftrightarrow> l \<noteq> [] \<and> length l \<le> 63 \<and> 0 \<notin> set l \<and> 46 \<notin> set l"

definition wire_name :: "bytes list \<Rightarrow> bytes" where
  "wire_name ls = concat (map (\<lambda>l. of_nat (length l) # l) ls) @ [0]"

fun dotted_name :: "bytes list \<Rightarrow> bytes" where
  "dotted_name [] = []"
| "dotted_name [l] = l"
| "dotted_name (l # ls) = l @ 46 # dotted_name ls"

lemma strToLabel_part:
  "46 \<notin> set l \<Longrightarrow> strToLabel_loop (l @ str) part = strToLabel_loop str (part @ l)"
  by (induction l arbitrary: part) auto

theorem strToLabel_dotted:
  "ls \<noteq> [] \<Longrightarrow> list_all dns_label ls \<Longrightarrow> strToLabel (dotted_name ls) = wire_name ls"
proof (induction ls rule: dotted_name.induct)
  case (2 l)
  then show ?case
    using strToLabel_part [of l "[]" "[]"] by (simp add: strToLabel_def wire_name_def dns_label_def)
next
  case (3 l l' ls)
  then show ?case
    using strToLabel_part [of l "46 # dotted_name (l' # ls)" "[]"]
    by (simp add: strToLabel_def wire_name_def dns_label_def)
qed simp

text \<open>\<open>bytes_at mem p xs\<close>: the bytes \<open>xs\<close> lie in memory from \<open>p\<close> on.\<close>

fun bytes_at :: "(nat \<Rightarrow> u8) \<Rightarrow> nat \<Rightarrow> bytes \<Rightarrow> bool" where
  "bytes_at mem p [] = True"
| "bytes_at mem p (x # xs) = (mem p = x \<and> bytes_at mem (Suc p) xs)"

lemma bytes_at_append [simp]:
  "bytes_at mem p (xs @ ys) \<longleftrightarrow> bytes_at mem p xs \<and> bytes_at mem (p + length xs) ys"
  by (induction xs arbitrary: p) auto

lemma bytes_at_map: "bytes_at mem p xs \<Longrightarrow> map mem [p..<p + length xs] = xs"
proof (induction xs arbitrary: p)
  case (Cons x xs)
  then show ?case using Cons.IH [of "Suc p"] by (simp add: upt_conv_Cons del: upt_Suc)
qed simp

lemma copy_label_fits:
  "bytes_at mem p l \<Longrightarrow> p + length l \<le> Suc sz \<Longrightarrow> length res + length l \<le> mx \<Longrightarrow>
   copy_label mem sz mx (length l) p res = Some (p + length l, res @ l)"
  by (induction l arbitrary: p res) auto

lemma length_byte:
  assumes "dns_label l"
  shows "(of_nat (length l) :: u8) AND 0xC0 = 0" "unat (of_nat (length l) :: u8) = length l"
    "(of_nat (length l) :: u8) \<noteq> 0"
proof -
  have l: "0 < length l" "length l < 64" using assms by (auto simp: dns_label_def)
  have "(of_nat n :: u8) AND 0xC0 = 0" if "n < 64" for n
  proof -
    have "list_all (\<lambda>n. (of_nat n :: u8) AND 0xC0 = 0) [0..<64]" by code_simp
    with that show ?thesis by (simp add: list_all_iff)
  qed
  with l show "(of_nat (length l) :: u8) AND 0xC0 = 0" by blast
  show u: "unat (of_nat (length l) :: u8) = length l"
    using l by (simp add: unsigned_of_nat take_bit_nat_eq_self)
  with l show "(of_nat (length l) :: u8) \<noteq> 0" by auto
qed

lemma label_pass_label:
  assumes "dns_label l" and "bytes_at mem p (of_nat (length l) # l)"
    and "p + Suc (length l) \<le> sz" and "length res + Suc (length l) \<le> mx"
  shows "label_pass mem sz mx \<lparr>labelPtr = p, label_res = res, label_endPtr = e\<rparr> =
    Some \<lparr>labelPtr = p + Suc (length l), label_res = res @ (if res = [] then [] else [46]) @ l, label_endPtr = e\<rparr>"
proof -
  have p: "mem p = of_nat (length l)" "bytes_at mem (Suc p) l"
    using assms(2) by simp_all
  have n: "mem p AND 0xC0 = 0" "unat (mem p) = length l"
    using length_byte [OF assms(1)] by (simp_all add: p(1))
  have "l \<noteq> []" using assms(1) by (simp add: dns_label_def)
  then have "copy_label mem sz mx (length l) (Suc p) res' = Some (Suc p + length l, res' @ l)"
    if "length res' + length l \<le> mx" for res'
    using assms(3) that p(2) by (subst copy_label_fits) simp_all
  then show ?thesis
    using assms(3,4) \<open>l \<noteq> []\<close> by (simp add: label_pass_def n)
qed

lemma wire_name_Cons: "wire_name (l # ls) = of_nat (length l) # l @ wire_name ls"
  by (simp add: wire_name_def)

lemma wire_name_head: "list_all dns_label ls \<Longrightarrow> hd (wire_name ls) = 0 \<longleftrightarrow> ls = []"
  using length_byte(3) by (cases ls) (auto simp: wire_name_def)

lemma wire_name_nonempty [simp]: "wire_name ls \<noteq> []"
  by (simp add: wire_name_def)

lemma length_wire_name: "ls \<noteq> [] \<Longrightarrow> length (wire_name ls) = length (dotted_name ls) + 2"
  by (induction ls rule: dotted_name.induct) (simp_all add: wire_name_def)

lemma label_loop_name:
  "\<lbrakk>ls \<noteq> []; list_all dns_label ls; bytes_at mem p (wire_name ls);
    p + length (wire_name ls) \<le> sz; length res + length (wire_name ls) \<le> mx\<rbrakk> \<Longrightarrow>
   label_loop mem sz mx \<lparr>labelPtr = p, label_res = res, label_endPtr = None\<rparr> =
     Some (Some \<lparr>labelPtr = p + length (wire_name ls) - 1,
                 label_res = res @ (if res = [] then [] else [46]) @ dotted_name ls, label_endPtr = None\<rparr>)"
proof (induction ls arbitrary: p res)
  case (Cons l ls)
  let ?p = "p + Suc (length l)" and ?res = "res @ (if res = [] then [] else [46]) @ l"
  have at: "bytes_at mem p (of_nat (length l) # l)" "bytes_at mem ?p (wire_name ls)"
    using Cons.prems(3) by (simp_all add: wire_name_Cons)
  then have stop: "mem ?p = 0 \<longleftrightarrow> ls = []"
    using Cons.prems(2) wire_name_head [of ls] by (cases "wire_name ls") auto
  have l: "dns_label l" "l \<noteq> []" using Cons.prems(2) by (auto simp: dns_label_def)
  have step: "label_pass mem sz mx \<lparr>labelPtr = p, label_res = res, label_endPtr = None\<rparr> =
      Some \<lparr>labelPtr = ?p, label_res = ?res, label_endPtr = None\<rparr>"
    using Cons.prems(4,5) at(1) l(1) by (intro label_pass_label) (simp_all add: wire_name_Cons)
  show ?case
  proof (cases "ls = []")
    case True
    then show ?thesis using stop by (subst label_loop.simps) (simp add: step wire_name_def)
  next
    case False
    have "label_loop mem sz mx \<lparr>labelPtr = ?p, label_res = ?res, label_endPtr = None\<rparr> =
      Some (Some \<lparr>labelPtr = ?p + length (wire_name ls) - 1,
                 label_res = ?res @ (if ?res = [] then [] else [46]) @ dotted_name ls, label_endPtr = None\<rparr>)"
      using False Cons.prems(2,4,5) at(2)
      by (intro Cons.IH) (auto simp: wire_name_Cons)
    with False stop l(2) show ?thesis
      by (subst label_loop.simps) (cases ls; simp add: step wire_name_Cons)
  qed
qed simp

text \<open>A name that lies in the packet is read completely, and the pointer is left behind it.\<close>

lemma labelToStr_name:
  assumes "ls \<noteq> []" "list_all dns_label ls" "bytes_at mem p (wire_name ls)"
    and "p + length (wire_name ls) \<le> sz" "length (wire_name ls) \<le> mx"
  shows "labelToStr mem p sz mx = Some (LabelAt (p + length (wire_name ls)) (dotted_name ls))"
  using label_loop_name [OF assms(1-4), of "[]" mx] assms(5) length_wire_name [OF assms(1)]
  by (simp add: labelToStr_def)

lemma c_chars_chars: "0 \<notin> set s \<Longrightarrow> c_chars s = s"
  unfolding c_chars_def takeWhile_eq_all_conv by auto

lemma dotted_name_no_NUL: "list_all dns_label ls \<Longrightarrow> 0 \<notin> set (dotted_name ls)"
  by (induction ls rule: dotted_name.induct) (auto simp: dns_label_def)

section \<open>Answers\<close>

text \<open>A query with one question of type A, and the record that answers it.\<close>

definition a_query :: "u8 \<Rightarrow> u8 \<Rightarrow> u8 \<Rightarrow> u8 \<Rightarrow> bytes list \<Rightarrow> u16 \<Rightarrow> bytes" where
  "a_query i1 i2 flags rcode ls qclass =
     [i1, i2, flags, rcode, 0, 1, 0, 0, 0, 0, 0, 0] @ wire_name ls @ [0, 1, hi8 qclass, lo8 qclass]"

definition a_answer :: "u8 \<Rightarrow> u8 \<Rightarrow> u8 \<Rightarrow> u8 \<Rightarrow> bytes list \<Rightarrow> u16 \<Rightarrow> ip_addr \<Rightarrow> bytes" where
  "a_answer i1 i2 flags rcode ls qclass ip =
     [i1, i2, flags OR 128, rcode, 0, 1, 0, 1, 0, 0, 0, 0] @ wire_name ls @ [0, 1, hi8 qclass, lo8 qclass] @
     wire_name ls @ [0, 1, 0, 1, 0, 0, 0, 0, 0, 4] @ ip4_bytes ip"

lemma length_ip4_bytes [simp]: "length (ip4_bytes ip) = 4"
  by (cases ip) simp

lemma dns_put_start:
  assumes "length stack = 512" "length q + length xs \<le> 512" "2 < length q"
  shows "dns_put xs \<lparr>reply = (put_bytes stack 0 q)[2 := b], rend = length q\<rparr> =
    Some \<lparr>reply = (put_bytes stack 0 (q @ xs))[2 := b], rend = length q + length xs\<rparr>"
proof -
  have "put_bytes ((put_bytes stack 0 q)[2 := b]) (length q) xs = (put_bytes stack 0 (q @ xs))[2 := b]"
    using assms by (simp add: put_bytes_def list_update_append add.commute)
  with assms(2) show ?thesis by (simp add: dns_put_def)
qed

lemma rend_count_answer [simp]: "rend (count_answer r) = rend r"
  by (simp add: count_answer_def)

lemma counted_answer:
  "8 \<le> length X \<Longrightarrow> take (length X) (reply (count_answer \<lparr>reply = (X @ tail)[2 := b], rend = n\<rparr>)) =
    setn16 6 (be16 (X ! 6) (X ! 7) + 1) (X[2 := b])"
  by (simp add: count_answer_def setn16_def list_update_append nth_append)

lemma a_query_reply:
  assumes "ls \<noteq> []" "list_all dns_label ls" and "flags AND 2 = 0"
    and q: "q = a_query i1 i2 flags rcode ls qclass" and "bytes_at mem 0 q" and "length q \<le> 512"
  shows "captdns_reply mem (length q) stack ip =
    Some (case answer_a ip (dotted_name ls)
                 \<lparr>reply = (put_bytes stack 0 q)[2 := flags OR 128], rend = length q\<rparr> of
            None \<Rightarrow> DnsOverflow | Some r \<Rightarrow> DnsAnswer (take (rend r) (reply r)))"
proof -
  define w where "w = wire_name ls"
  have len: "length q = 16 + length w" by (simp add: q w_def a_query_def)
  have mq: "map mem [0..<length q] = q" using bytes_at_map [OF assms(5)] by simp
  have hdr: "mem 2 = flags" "my_ntohs mem 4 = 1" "\<forall>i \<in> set [6..<12]. mem i = 0"
    using assms(5) by (auto simp: q a_query_def my_ntohs_def be16_def numeral_eq_Suc less_Suc_eq)
  have at: "bytes_at mem 12 w" "bytes_at mem (12 + length w) [0, 1]"
    using assms(5) by (simp_all add: q a_query_def w_def numeral_eq_Suc)
  then have qt: "my_ntohs mem (12 + length w) = 1" by (simp add: my_ntohs_def be16_def)
  have lab: "labelToStr mem 12 (length q) 512 = Some (LabelAt (12 + length w) (dotted_name ls))"
    using assms(1,2) at(1) assms(6) unfolding w_def by (intro labelToStr_name) (simp_all add: len w_def)
  have chars: "c_chars (dotted_name ls) = dotted_name ls"
    by (rule c_chars_chars [OF dotted_name_no_NUL [OF assms(2)]])
  have "\<not> length q < 12" by (simp add: len)
  then show ?thesis
    using hdr assms(3,6)
    by (simp add: captdns_reply_def mq lab qt Let_def dns_question_def chars split: option.split)
qed

text \<open>
  C40: The DNS server answers a question for the address of a name with the question, the same name
  again, and the address of the access point: for every name of one or more labels of 1 to 63 bytes
  without a dot or a zero byte whose answer fits the 512 bytes of the reply (the name has at most 241
  bytes as it goes over the wire), in a question that is not marked as truncated. A longer name
  overruns the reply (\<open>captdns_overflows\<close>), and the name of the root, which has no label, is misread
  (\<open>root_name_is_misread\<close>).
\<close>

theorem captdns_answers:
  assumes "ls \<noteq> []" "list_all dns_label ls" and "flags AND 2 = 0"
    and "bytes_at mem 0 (a_query i1 i2 flags rcode ls qclass)"
    and "length (a_answer i1 i2 flags rcode ls qclass ip) \<le> 512" and "length stack = 512"
  shows "captdnsRecv conn remInfo mem (length (a_query i1 i2 flags rcode ls qclass)) stack ip =
    Some (case remInfo of None \<Rightarrow> conn
          | Some (p, addr) \<Rightarrow> conn\<lparr>dns_remote_port := p, dns_remote_ip := addr\<rparr>,
          DnsAnswer (a_answer i1 i2 flags rcode ls qclass ip))"
proof -
  define q where "q = a_query i1 i2 flags rcode ls qclass"
  let ?x = "wire_name ls @ [0, 1, 0, 1, 0, 0, 0, 0, 0, 4] @ ip4_bytes ip"
  let ?X = "q @ ?x"
  let ?r = "\<lparr>reply = (put_bytes stack 0 ?X)[2 := flags OR 128], rend = length ?X\<rparr>"
  have room: "length q + length ?x \<le> 512" "8 \<le> length ?X" "2 < length q"
    using assms(5) by (simp_all add: a_answer_def q_def a_query_def)
  have X: "?X = [i1, i2, flags, rcode, 0, 1, 0, 0, 0, 0, 0, 0] @ wire_name ls @ [0, 1, hi8 qclass, lo8 qclass] @ ?x"
    by (simp add: q_def a_query_def)
  have put: "put_bytes stack 0 ?X = ?X @ drop (length ?X) stack" by (simp add: put_bytes_def)
  have "take (length ?X) (reply (count_answer ?r)) = setn16 6 (be16 (?X ! 6) (?X ! 7) + 1) (?X[2 := flags OR 128])"
    using counted_answer [OF room(2), of "drop (length ?X) stack" "flags OR 128" "length ?X"] unfolding put .
  also have "\<dots> = a_answer i1 i2 flags rcode ls qclass ip"
    unfolding X by (simp add: setn16_def a_answer_def be16_def hi8_def lo8_def)
  finally have out: "take (length ?X) (reply (count_answer ?r)) = a_answer i1 i2 flags rcode ls qclass ip" .
  have "answer_a ip (dotted_name ls) \<lparr>reply = (put_bytes stack 0 q)[2 := flags OR 128], rend = length q\<rparr> =
      Some (count_answer ?r)"
    unfolding answer_a_def strToLabel_dotted [OF assms(1,2)]
    using dns_put_start [OF assms(6) room(1,3)] by simp
  moreover have "bytes_at mem 0 q" "length q \<le> 512"
    using assms(4) room(1) by (simp_all add: q_def)
  ultimately have "captdns_reply mem (length q) stack ip = Some (DnsAnswer (a_answer i1 i2 flags rcode ls qclass ip))"
    using a_query_reply [OF assms(1-3) q_def, of mem stack ip] out by simp
  then show ?thesis by (simp add: captdnsRecv_def q_def)
qed

definition memory_of :: "bytes \<Rightarrow> nat \<Rightarrow> u8" where
  "memory_of xs i = (if i < length xs then xs ! i else 0)"

text \<open>The query for \<open>a.io\<close>.\<close>

lemma captdns_answers_witness:
  "captdnsRecv \<lparr>dns_remote_port = 0, dns_remote_ip = Ip 0 0 0 0\<rparr> (Some (5353, Ip 192 168 4 2))
     (memory_of (a_query 7 9 1 0 [ascii ''a'', ascii ''io''] 1)) (length (a_query 7 9 1 0 [ascii ''a'', ascii ''io''] 1))
     (replicate 512 255) (Ip 192 168 4 1) =
   Some (\<lparr>dns_remote_port = 5353, dns_remote_ip = Ip 192 168 4 2\<rparr>,
     DnsAnswer (a_answer 7 9 1 0 [ascii ''a'', ascii ''io''] 1 (Ip 192 168 4 1)))"
proof -
  have q: "a_query 7 9 1 0 [ascii ''a'', ascii ''io''] 1 =
      [7, 9, 1, 0, 0, 1, 0, 0, 0, 0, 0, 0, 1, 97, 2, 105, 111, 0, 0, 1, 0, 1]"
    by code_simp
  have "bytes_at (memory_of (a_query 7 9 1 0 [ascii ''a'', ascii ''io''] 1)) 0
      (a_query 7 9 1 0 [ascii ''a'', ascii ''io''] 1)"
    unfolding q by (simp add: memory_of_def)
  moreover have "list_all dns_label [ascii ''a'', ascii ''io'']"
    by code_simp
  ultimately show ?thesis
    by (subst captdns_answers) (simp_all add: a_answer_def wire_name_def)
qed

text \<open>
  A legal name of more than 241 bytes on the wire makes the answer longer than the reply buffer: the
  check of the length in \<open>strToLabel\<close> is commented out.
\<close>

theorem captdns_overflows:
  assumes "ls \<noteq> []" "list_all dns_label ls" "flags AND 2 = 0"
    and "bytes_at mem 0 (a_query i1 i2 flags rcode ls qclass)"
    and "length (a_query i1 i2 flags rcode ls qclass) \<le> 512"
    and "512 < length (a_answer i1 i2 flags rcode ls qclass ip)"
  shows "captdnsRecv conn remInfo mem (length (a_query i1 i2 flags rcode ls qclass)) stack ip =
    Some (conn, DnsOverflow)"
proof -
  have "512 < length (a_query i1 i2 flags rcode ls qclass) + length (wire_name ls) + 14"
    using assms(6) by (simp add: a_answer_def a_query_def)
  then show ?thesis
    using a_query_reply [OF assms(1-3) refl assms(4,5), of stack ip]
    by (simp add: captdnsRecv_def answer_a_def dns_put_def strToLabel_dotted [OF assms(1,2)])
qed

section \<open>Packets that stop the server\<close>

lemma label_loop_stuck:
  assumes "\<And>s. I s \<Longrightarrow> \<exists>s'. label_pass mem sz mx s = Some s' \<and> mem (labelPtr s') \<noteq> 0 \<and> I s'" and "I s"
  shows "label_loop mem sz mx s = None"
proof (rule ccontr)
  assume "label_loop mem sz mx s \<noteq> None"
  then obtain r where r: "label_loop mem sz mx s = Some r" by auto
  have "mem = mem \<and> sz = sz \<and> mx = mx \<longrightarrow> \<not> I s"
  proof (rule label_loop.raw_induct [where P = "\<lambda>m z x s r. m = mem \<and> z = sz \<and> x = mx \<longrightarrow> \<not> I s", OF _ r],
      intro impI notI)
    fix f m z x s r
    assume IH: "\<And>m z x s r. f m z x s = Some r \<Longrightarrow> m = mem \<and> z = sz \<and> x = mx \<longrightarrow> \<not> I s"
      and body: "(case label_pass m z x s of None \<Rightarrow> Some None
        | Some s' \<Rightarrow> if m (labelPtr s') \<noteq> 0 then f m z x s' else Some (Some s')) = Some r"
      and eq: "m = mem \<and> z = sz \<and> x = mx" and "I s"
    with assms(1) [of s] obtain s' where "f mem sz mx s' = Some r" "I s'" by auto
    with IH [of mem sz mx s' r] show False by simp
  qed
  with assms(2) show False by simp
qed

text \<open>
  A compression pointer to itself and a label of one of the two reserved kinds keep \<open>labelToStr\<close> in its
  loop for ever: one packet of 18 bytes stops the device until the watchdog of the chip restarts it.
\<close>

theorem captdns_never_returns:
  assumes "12 < len" "len \<le> 512" and "\<forall>i \<in> set [6..<12]. mem i = 0" and "mem 2 AND 2 = 0" and "my_ntohs mem 4 \<noteq> 0"
    and "mem 12 = 0xC0 \<and> mem 13 = 12 \<or> mem 12 AND 0xC0 = 0x40 \<or> mem 12 AND 0xC0 = 0x80"
  shows "captdnsRecv conn remInfo mem len stack ip = None"
proof -
  have step: "\<exists>s'. label_pass mem len DNS_LEN s = Some s' \<and> mem (labelPtr s') \<noteq> 0 \<and> labelPtr s' = 12"
    if "labelPtr s = 12" for s
    using assms(1,6) that by (auto simp: label_pass_def my_ntohs_def be16_def)
  have "labelToStr mem 12 len DNS_LEN = None"
    using label_loop_stuck [of "\<lambda>s. labelPtr s = 12", OF step] by (simp add: labelToStr_def)
  moreover obtain n where "unat (my_ntohs mem 4) = Suc n"
    using assms(5) by (metis not0_implies_Suc unat_eq_zero)
  ultimately show ?thesis
    using assms(1-4) by (simp add: captdnsRecv_def captdns_reply_def Let_def)
qed

text \<open>
  The root name is a single zero byte. The loop, which tests its end only after the first label, reads the
  byte behind it as well, and the type of the question is read one byte late: type A is taken for URI.
\<close>

theorem root_name_is_misread:
  assumes "bytes_at mem 12 [0, 0, 1, 0, 1]" "17 \<le> len"
  shows "labelToStr mem 12 len DNS_LEN = Some (LabelAt 14 []) \<and> my_ntohs mem 14 = 256"
  using assms by (simp add: labelToStr_def label_loop.simps label_pass_def my_ntohs_def be16_def)

section \<open>Every answer repeats the query\<close>

definition answers_packet :: "(nat \<Rightarrow> u8) \<Rightarrow> nat \<Rightarrow> dns_reply \<Rightarrow> bool" where
  "answers_packet mem len r \<longleftrightarrow>
     length (reply r) = 512 \<and> len \<le> rend r \<and> rend r \<le> 512 \<and> 12 \<le> len \<and>
     reply r ! 2 = mem 2 OR 128 \<and> (\<forall>i < len. i \<noteq> 2 \<and> i \<noteq> 6 \<and> i \<noteq> 7 \<longrightarrow> reply r ! i = mem i)"

lemma dns_put_answers:
  "dns_put xs r = Some r' \<Longrightarrow> answers_packet mem len r \<Longrightarrow> answers_packet mem len r'"
  by (auto simp: dns_put_def answers_packet_def nth_put_bytes_outside split: if_splits)

lemma dns_skip_answers:
  "dns_skip n r = Some r' \<Longrightarrow> answers_packet mem len r \<Longrightarrow> answers_packet mem len r'"
  by (auto simp: dns_skip_def answers_packet_def split: if_splits)

lemma count_answer_answers: "answers_packet mem len r \<Longrightarrow> answers_packet mem len (count_answer r)"
  by (auto simp: count_answer_def setn16_def answers_packet_def)

lemmas answer_steps = dns_put_answers dns_skip_answers count_answer_answers

lemma dns_question_answers:
  "dns_question ip qtype buff r = Some r' \<Longrightarrow> answers_packet mem len r \<Longrightarrow> answers_packet mem len r'"
  unfolding dns_question_def answer_a_def answer_ns_def answer_uri_def
  by (auto split: if_splits simp: bind_eq_Some_conv)
    (blast intro: answer_steps)+

lemma dns_loop_answers:
  "dns_loop mem len ip n p r = Some (DnsAnswer d) \<Longrightarrow> answers_packet mem len r \<Longrightarrow>
   \<exists>r'. answers_packet mem len r' \<and> d = take (rend r') (reply r')"
proof (induction mem len ip n p r rule: dns_loop.induct)
  case (2 mem len ip n p r)
  then obtain qf buff r' where "labelToStr mem p len DNS_LEN = Some (LabelAt qf buff)"
    and q: "dns_question ip (my_ntohs mem qf) (c_chars buff) r = Some r'"
    and "dns_loop mem len ip n (qf + 4) r' = Some (DnsAnswer d)"
    by (auto split: option.splits label_result.splits)
  with "2.IH" [OF _ refl q] dns_question_answers [OF q "2.prems"(2)] show ?case by simp
qed auto

text \<open>
  Whatever the packet asks, an answer fits into the reply buffer and repeats the packet: the identifier and
  the questions are those of the query, and the response bit is set. Only the count of answers differs.
\<close>

theorem captdns_echoes:
  assumes "captdns_reply mem len stack ip = Some (DnsAnswer d)" "length stack = 512"
  shows "len \<le> length d \<and> length d \<le> 512 \<and> d ! 2 = mem 2 OR 128 \<and>
    (\<forall>i < len. i \<noteq> 2 \<and> i \<noteq> 6 \<and> i \<noteq> 7 \<longrightarrow> d ! i = mem i)"
proof -
  have len: "12 \<le> len" "len \<le> 512" using assms(1) by (auto simp: captdns_reply_def split: if_splits)
  have "answers_packet mem len \<lparr>reply = (put_bytes stack 0 (map mem [0..<len]))[2 := mem 2 OR 128], rend = len\<rparr>"
    using len assms(2) by (auto simp: answers_packet_def nth_list_update nth_put_bytes_inside)
  with assms(1) obtain r where "answers_packet mem len r" "d = take (rend r) (reply r)"
    by (auto simp: captdns_reply_def Let_def split: if_splits dest: dns_loop_answers)
  then show ?thesis by (auto simp: answers_packet_def)
qed

end
