(* ===== verification/Spec2Isabelle.thy ===== *)
theory Spec2Isabelle
  imports Prelude Fifo RingBuf Proto MsgQueue MqttMsg MqttUtils MqttClient MqttInv MqttSteps MqttProps Utils Tinyprintf Kmp Aes Sha256 Crypto KmpRequest UnixTime Watchdog AcOut Cron Config MqttRpc UserMain RpcProps RpcValve RpcRestart DeviceInv Ota OtaInv OtaProps Wifi WifiProps Ping Led En61107 Captdns
begin

text \<open>
  Verification of the MeterLogger firmware (\<open>src/\<close>), an ESP8266 program that reads a heat or flow
  meter over a serial line, publishes encrypted samples over MQTT, and obeys encrypted commands
  that come back over MQTT.

  \<^bold>\<open>How the parts interact.\<close> The meter's bytes arrive in a UART queue; a task unpacks and decodes
  them (KmpRequest, Kmp), formats the sample (Tinyprintf) and encrypts it (Crypto over Aes and
  Sha256). The MQTT client (MqttClient) encodes the packet (MqttMsg), frames it (Proto) into a
  queue (MsgQueue over RingBuf) and sends it with acknowledgements and timeouts. Received
  commands are decrypted, checked against the clock (UnixTime) and dispatched (UserMain) to the
  remote procedures (MqttRpc), which change the configuration in flash (Config), the cron table
  (Cron) and the valve (AcOut), and answer with encrypted messages. The command for a firmware update
  starts a download over HTTP (Ota) into the firmware slot that does not run; while it lasts the configuration is not written. The WiFi
  (Wifi) scans for the saved and the fallback network, switches between them, tests other credentials
  on request, and filters the packets of the stations of its access point. Watchdogs restart the network
  or the device when nothing is acknowledged (Watchdog).

  \<^bold>\<open>Theories and the code they model.\<close> Every definition is one function, handler or data type of
  the source and has its name where Isabelle allows it.
  \<^item> Prelude: byte buffers with offset writes, words and their bytes, C strings, lemma collections.
  \<^item> Fifo: the interfaces \<open>bounded_fifo\<close> and \<open>byte_stuffing\<close>. RingBuf (\<open>mqtt/ringbuf.c\<close>) and the
    UART queue of KmpRequest provide the first (\<open>rb\<close>, \<open>kf\<close>); Proto (\<open>mqtt/proto.c\<close>) and Kmp
    (\<open>user/kamstrup/kmp.c\<close>) the second (\<open>proto\<close>, \<open>kmp\<close>).
  \<^item> MsgQueue (\<open>mqtt/queue.c\<close>): the interface \<open>msg_queue\<close> the client relies on, and its provider \<open>mq\<close>.
  \<^item> MqttMsg (\<open>mqtt/mqtt_msg.c\<close>), MqttUtils (\<open>mqtt/mqtt_utils.c\<close>): packets and addresses.
  \<^item> MqttClient (\<open>mqtt/mqtt.c\<close>): all handlers and calls on one state record; MqttInv: the invariant
    and its preservation by every operation; MqttSteps: the step relation and the reachable states;
    MqttProps: the properties of reachable states.
  \<^item> Utils (\<open>user/utils.c\<close>), Tinyprintf (\<open>user/tinyprintf.c\<close>).
  \<^item> Aes (\<open>user/crypto/aes.c\<close>, interface \<open>block_cipher\<close>, provider \<open>aes\<close>), Sha256 and the first
    half of Crypto (\<open>user/crypto/sha256.c\<close>, \<open>user/crypto/hmac-sha256.c\<close>, interface
    \<open>streaming_hash\<close>, providers \<open>sha\<close> and \<open>hmac\<close>), Crypto (\<open>user/crypto/crypto.c\<close>).
  \<^item> Kmp and KmpRequest (\<open>user/kamstrup/kmp.c\<close>, \<open>kmp_request.c\<close>): the meter protocol, and the task
    and timers with the step relation \<open>kmp_step\<close>.
  \<^item> UnixTime (\<open>user/unix_time.c\<close>), Watchdog (\<open>user/watchdog.c\<close>), AcOut (\<open>user/ac/ac_out.c\<close>), Cron
    (\<open>user/cron/cron.c\<close>), Config (\<open>modules/config.c\<close>).
  \<^item> MqttRpc (\<open>user/mqtt_rpc.c\<close>) and UserMain (\<open>user/user_main.c\<close>): the device as one record that
    holds the configuration, keys, cron table, valve and clock, and every handler as a state
    transformer (\<open>State_Monad\<close>) over it. RpcProps: which messages are obeyed, and by which procedure; RpcValve: the valve and
    the mark at which it closes; RpcRestart: keys, jobs and the firmware slot over a restart;
    DeviceInv: the cron jobs on the device, its inputs, its reachable states and their invariant.
  \<^item> Ota (\<open>user/ota.c\<close>): every callback and timer of a firmware update over the statics of the file
    and the flash. OtaInv: what is relied on of rBoot and the flash driver (\<open>rboot_ok\<close>), the invariant
    of a download, resumed or not, and that every input keeps it. OtaProps: the reachable states,
    the properties, and a whole download as an example.
  \<^item> Wifi (\<open>modules/wifi.c\<close>): the events, timers and calls over the statics of the file and the SDK's timers;
    WifiProps: the inputs, the runs and their properties.
  \<^item> Ping (\<open>user/icmp_ping.c\<close>): the network quality, with a third provider \<open>png\<close> of \<open>bounded_fifo\<close> and its
    extension \<open>window\<close>. Led (\<open>user/led.c\<close>): the blinking patterns.
  \<^item> Captdns (\<open>user/captdns.c\<close>): the DNS server of the configuration mode, the answer it gives and the
    packets it does not survive.
  \<^item> En61107 (\<open>user/en61107\<close>): the meter of the other build, its requests, timeouts and frames, without the
    conversion of numbers through \<open>float\<close>, which is a parameter.

  \<^bold>\<open>What the lemmas show.\<close> For each component: its invariant and that every operation keeps it; what
  each operation returns on every branch; the round trips of its encoders and decoders; and, for
  optimised code (CRC table, AES, streaming hash, number printing), that it computes the textbook
  definition. The properties are the theorems whose text starts with a claim number; what they
  assume is written in their hypotheses, and a witness applies each one that has hypotheses.

  \<^bold>\<open>Build modelled.\<close> Little-endian xtensa with 32-bit \<open>int\<close>, \<open>long\<close> and pointers; the heat meter
  build for Kamstrup meters (neither \<open>EN61107\<close> nor \<open>FLOW_METER\<close>), MQTT 3.1 without TLS, cron jobs
  enabled, no \<open>DEBUG\<close> options. Sizes are those of \<open>include/user_config.h\<close>. The SDK (timers, sockets,
  flash, WiFi, random numbers) is not in the repository: its answers are arguments of the
  definitions and the calls to it are events or effects.

  \<^bold>\<open>Bounds and fuel.\<close> No definition needs fuel chosen by the reader: loops over a buffer recurse on
  what is left of it, the loops of \<open>cron.c\<close> and \<open>watchdog.c\<close> on the number of entries left, number
  printing on the quotient left (\<open>termination\<close> proofs), and the drain of the UART queue on the room
  of the 1024 byte message buffer. An access outside an array is the value \<open>None\<close>.

  \<^bold>\<open>Not modelled.\<close> The drivers of the chip (serial line, SPI flash, pins, exception handler, start-up), whose
  code is register access; the web server of the configuration mode and its compressed file system;
  the decompressor of \<open>lib/heatshrink\<close>, a library of its own; the numbers of the meter of the other build,
  which go through \<open>float\<close>; host tools and test programs; the DEBUG commands. The manifest lists each of them with its reason, and
  the findings that modelling led to.
\<close>

end
